(* ===== verification/Prelude.thy ===== *)
theory Prelude
  imports Main "HOL-Library.Word"
begin

text \<open>
  Shared vocabulary of the development: the machine types the HALs use, the ordered map that
  models \<open>std::map\<close>, and the generic argument that an operation-by-operation invariant holds
  after every sequence of operations.

  \<^item> A signed integer that the code only stores and compares (\<open>int32_t\<close> property ids, \<open>int64_t\<close>
    timestamps) is an \<open>int\<close>; \<open>wrap32\<close> and \<open>wrap64\<close> write the conversion to the C++ width out
    where the code computes with it or casts to it.
  \<^item> A \<open>float\<close> is its 32-bit IEEE pattern, compared as C++ compares it (a NaN is neither less nor
    greater than anything, the two zeros are equal).
  \<^item> \<open>std::map\<close> is an association list sorted by key, so that iteration order is the code's.
\<close>

unbundle bit_operations_syntax

named_theorems map_laws \<open>lookup and invariant laws of the ordered map\<close>
named_theorems keeps_inv \<open>operations that keep a component's invariant\<close>

subsection \<open>Machine types\<close>

type_synonym i32 = int
type_synonym i64 = int
type_synonym u8 = "8 word"
type_synonym u32 = "32 word"
type_synonym f32 = "32 word"

definition wrap32 :: "int \<Rightarrow> i32" where
  "wrap32 n = (n + 2 ^ 31) mod 2 ^ 32 - 2 ^ 31"

definition wrap64 :: "int \<Rightarrow> i64" where
  "wrap64 n = (n + 2 ^ 63) mod 2 ^ 64 - 2 ^ 63"

definition in_i32 :: "int \<Rightarrow> bool" where
  "in_i32 n \<longleftrightarrow> - (2 ^ 31) \<le> n \<and> n < 2 ^ 31"

lemma wrap32_id [simp]: "in_i32 n \<Longrightarrow> wrap32 n = n"
  by (simp add: wrap32_def in_i32_def)

lemma wrap32_in_range [simp]: "in_i32 (wrap32 n)"
  by (simp add: wrap32_def in_i32_def pos_mod_bound [THEN less_le_trans])

subsection \<open>Floats as bit patterns\<close>

definition f32_magnitude :: "f32 \<Rightarrow> int" where
  "f32_magnitude x = uint (x AND 0x7FFFFFFF)"

definition f32_isnan :: "f32 \<Rightarrow> bool" where
  "f32_isnan x \<longleftrightarrow> 0x7F800000 < f32_magnitude x"

definition f32_key :: "f32 \<Rightarrow> int" where
  "f32_key x = (if bit x 31 then - f32_magnitude x else f32_magnitude x)"

definition f32_lt :: "f32 \<Rightarrow> f32 \<Rightarrow> bool" where
  "f32_lt a b \<longleftrightarrow> \<not> f32_isnan a \<and> \<not> f32_isnan b \<and> f32_key a < f32_key b"

text \<open>\<open>std::max(a, b)\<close> is \<open>(a < b) ? b : a\<close>; \<open>std::abs\<close> clears the sign bit.\<close>

definition f32_max :: "f32 \<Rightarrow> f32 \<Rightarrow> f32" where
  "f32_max a b = (if f32_lt a b then b else a)"

definition f32_abs :: "f32 \<Rightarrow> f32" where
  "f32_abs x = x AND 0x7FFFFFFF"

lemma f32_lt_irrefl [simp]: "\<not> f32_lt a a"
  by (simp add: f32_lt_def)

lemma f32_lt_trans: "f32_lt a b \<Longrightarrow> f32_lt b c \<Longrightarrow> f32_lt a c"
  by (auto simp: f32_lt_def)

lemma f32_lt_asym: "f32_lt a b \<Longrightarrow> \<not> f32_lt b a"
  by (auto simp: f32_lt_def)

lemma f32_not_lt_max [simp]: "\<not> f32_lt (f32_max a b) a"
  by (auto simp: f32_max_def f32_lt_asym)

lemma f32_max_ge: "\<not> f32_isnan a \<Longrightarrow> \<not> f32_lt (f32_max a b) b"
  by (auto simp: f32_max_def f32_lt_def)

lemma f32_max_absorb [simp]: "f32_max (f32_max a b) b = f32_max a b"
  by (auto simp: f32_max_def)

subsection \<open>Indexed reads\<close>

text \<open>\<open>v[i]\<close> of a C++ vector; \<open>None\<close> is a read out of bounds (undefined behaviour).\<close>

definition vec_at :: "'a list \<Rightarrow> nat \<Rightarrow> 'a option" where
  "vec_at xs i = (if i < length xs then Some (xs ! i) else None)"

lemma vec_at_None [simp]: "vec_at xs i = None \<longleftrightarrow> length xs \<le> i"
  by (simp add: vec_at_def)

lemma vec_at_append [simp]: "vec_at (xs @ ys) (length xs + i) = vec_at ys i"
  by (simp add: vec_at_def nth_append)

lemma vec_at_Cons_0 [simp]: "vec_at (x # xs) 0 = Some x"
  by (simp add: vec_at_def)

lemma vec_at_Cons_Suc [simp]: "vec_at (x # xs) (Suc i) = vec_at xs i"
  by (simp add: vec_at_def)

subsection \<open>Descriptors and buffers\<close>

text \<open>A descriptor that is read is the list of the bytes that will arrive. A \<open>read\<close> of at most \<open>k\<close>
  bytes returns no more than what has arrived by then, \<open>avail\<close>; at the end of the list it returns
  nothing. \<open>write_at\<close> copies bytes into an array at an offset.\<close>

definition read_bytes :: "nat \<Rightarrow> nat \<Rightarrow> u8 list \<Rightarrow> u8 list \<times> u8 list" where
  "read_bytes k avail inp = (take (min k avail) inp, drop (min k avail) inp)"

definition write_at :: "nat \<Rightarrow> 'a list \<Rightarrow> 'a list \<Rightarrow> 'a list" where
  "write_at off bs xs = take off xs @ bs @ drop (off + length bs) xs"

lemma take_write_at: "off \<le> length xs \<Longrightarrow> take (off + length bs) (write_at off bs xs) = take off xs @ bs"
  by (simp add: write_at_def)

lemma length_write_at: "off + length bs \<le> length xs \<Longrightarrow> length (write_at off bs xs) = length xs"
  by (simp add: write_at_def)

subsection \<open>The ordered map\<close>

type_synonym ('k, 'v) std_map = "('k \<times> 'v) list"

definition map_inv :: "('k::linorder, 'v) std_map \<Rightarrow> bool" where
  "map_inv m \<longleftrightarrow> sorted_wrt (<) (map fst m)"

fun map_put :: "'k::linorder \<Rightarrow> 'v \<Rightarrow> ('k, 'v) std_map \<Rightarrow> ('k, 'v) std_map" where
  "map_put k v [] = [(k, v)]"
| "map_put k v ((k', v') # m) =
     (if k < k' then (k, v) # (k', v') # m
      else if k = k' then (k, v) # m
      else (k', v') # map_put k v m)"

text \<open>\<open>insert\<close> and \<open>emplace\<close> of \<open>std::map\<close> leave an existing entry alone.\<close>

definition map_emplace :: "'k::linorder \<Rightarrow> 'v \<Rightarrow> ('k, 'v) std_map \<Rightarrow> ('k, 'v) std_map" where
  "map_emplace k v m = (case map_of m k of None \<Rightarrow> map_put k v m | Some _ \<Rightarrow> m)"

definition map_erase :: "'k \<Rightarrow> ('k, 'v) std_map \<Rightarrow> ('k, 'v) std_map" where
  "map_erase k m = filter (\<lambda>p. fst p \<noteq> k) m"

text \<open>The suffix from \<open>lower_bound(k)\<close> on, and the half-open iterator range between two bounds.\<close>

definition map_from :: "'k::linorder \<Rightarrow> ('k, 'v) std_map \<Rightarrow> ('k, 'v) std_map" where
  "map_from k m = dropWhile (\<lambda>p. fst p < k) m"

definition map_range :: "'k::linorder \<Rightarrow> 'k \<Rightarrow> ('k, 'v) std_map \<Rightarrow> ('k, 'v) std_map" where
  "map_range lo hi m = take (length (map_from lo m) - length (map_from hi m)) (map_from lo m)"

definition map_erase_range :: "'k::linorder \<Rightarrow> 'k \<Rightarrow> ('k, 'v) std_map \<Rightarrow> ('k, 'v) std_map" where
  "map_erase_range lo hi m = takeWhile (\<lambda>p. fst p < lo) m @
     drop (length (map_from lo m) - length (map_from hi m)) (map_from lo m)"

lemma map_of_put [simp, map_laws]: "map_of (map_put k v m) = (map_of m)(k \<mapsto> v)"
  by (induction k v m rule: map_put.induct) (auto simp: fun_eq_iff)

lemma map_of_erase [simp, map_laws]: "map_of (map_erase k m) = (map_of m)(k := None)"
  by (induction m) (auto simp: map_erase_def fun_eq_iff)

lemma map_of_emplace [simp, map_laws]:
  "map_of (map_emplace k v m) = (case map_of m k of None \<Rightarrow> (map_of m)(k \<mapsto> v) | Some _ \<Rightarrow> map_of m)"
  by (simp add: map_emplace_def split: option.split)

lemma set_map_put_keys [simp]: "fst ` set (map_put k v m) = insert k (fst ` set m)"
  by (induction k v m rule: map_put.induct) auto

lemma map_inv_Nil [simp, map_laws]: "map_inv []"
  by (simp add: map_inv_def)

lemma map_inv_Cons [simp]:
  "map_inv (p # m) \<longleftrightarrow> (\<forall>k \<in> fst ` set m. fst p < k) \<and> map_inv m"
  by (auto simp: map_inv_def)

lemma map_inv_put [simp, map_laws]: "map_inv m \<Longrightarrow> map_inv (map_put k v m)"
proof (induction k v m rule: map_put.induct)
  case (2 k v k' v' m)
  then show ?case by (auto intro: less_trans)
qed simp

lemma map_inv_filter [simp]: "map_inv m \<Longrightarrow> map_inv (filter P m)"
  by (induction m) auto

lemma map_inv_erase [simp, map_laws]: "map_inv m \<Longrightarrow> map_inv (map_erase k m)"
  by (simp add: map_erase_def)

lemma map_inv_emplace [simp, map_laws]: "map_inv m \<Longrightarrow> map_inv (map_emplace k v m)"
  by (simp add: map_emplace_def split: option.split)

lemma map_inv_distinct: "map_inv m \<Longrightarrow> distinct (map fst m)"
  by (induction m) auto

lemma map_of_mem: "map_inv m \<Longrightarrow> (k, v) \<in> set m \<Longrightarrow> map_of m k = Some v"
  by (simp add: map_inv_distinct)

lemma map_from_filter: "map_inv m \<Longrightarrow> map_from k m = filter (\<lambda>p. k \<le> fst p) m"
  unfolding map_from_def
  by (induction m) (force simp: not_less intro: filter_True [symmetric])+

lemma map_upto_filter: "map_inv m \<Longrightarrow> takeWhile (\<lambda>p. fst p < k) m = filter (\<lambda>p. fst p < k) m"
  by (induction m) (force intro: filter_False [symmetric])+

text \<open>On a sorted map the iterator arithmetic is the filter one expects.\<close>

lemma map_from_split:
  assumes "map_inv m" "lo \<le> hi"
  shows "map_from lo m = filter (\<lambda>p. lo \<le> fst p \<and> fst p < hi) m @ map_from hi m"
proof -
  let ?P = "\<lambda>p. fst p < hi"
  have "map_inv (map_from lo m)"
    using assms by (simp add: map_from_filter)
  then have "map_from lo m = filter ?P (map_from lo m) @ filter (\<lambda>p. hi \<le> fst p) (map_from lo m)"
    by (metis map_upto_filter map_from_def map_from_filter takeWhile_dropWhile_id)
  moreover have "filter ?P (map_from lo m) = filter (\<lambda>p. lo \<le> fst p \<and> fst p < hi) m"
    using assms by (simp add: map_from_filter conj_commute)
  moreover have "filter (\<lambda>p. hi \<le> fst p) (map_from lo m) = map_from hi m"
    using assms by (auto simp: map_from_filter intro!: filter_cong)
  ultimately show ?thesis by simp
qed

lemma map_range_filter:
  "map_inv m \<Longrightarrow> lo \<le> hi \<Longrightarrow> map_range lo hi m = filter (\<lambda>p. lo \<le> fst p \<and> fst p < hi) m"
  by (simp add: map_range_def map_from_split [of m lo hi])

lemma map_erase_range_filter:
  assumes "map_inv m" "lo \<le> hi"
  shows "map_erase_range lo hi m = filter (\<lambda>p. \<not> (lo \<le> fst p \<and> fst p < hi)) m"
proof -
  have "map_erase_range lo hi m = filter (\<lambda>p. fst p < lo) m @ filter (\<lambda>p. hi \<le> fst p) m"
    using assms by (simp add: map_erase_range_def map_from_split [of m lo hi] map_upto_filter)
      (simp add: map_from_filter)
  also have "\<dots> = filter (\<lambda>p. \<not> (lo \<le> fst p \<and> fst p < hi)) m"
    using assms
  proof (induction m)
    case (Cons p m)
    have "filter (\<lambda>p. fst p < lo) m = []" if "lo \<le> fst p"
      using Cons.prems that by (fastforce simp: filter_empty_conv)
    with Cons show ?case
      by (auto simp: not_le not_less)
  qed simp
  finally show ?thesis .
qed

subsection \<open>Invariants of runs\<close>

text \<open>
  A component whose operations all keep an invariant keeps it over every sequence of operations;
  what two states related by an operation always satisfy, the ends of a run satisfy too.
\<close>

locale op_system =
  fixes inv :: "'s \<Rightarrow> bool" and exec :: "'op \<Rightarrow> 's \<Rightarrow> 's"
  assumes exec_inv: "inv s \<Longrightarrow> inv (exec op s)"
begin

lemma run_inv: "inv s \<Longrightarrow> inv (fold exec ops s)"
  by (induction ops arbitrary: s) (simp_all add: exec_inv)

lemma run_rel:
  assumes "inv s" "\<And>t. R t t" "\<And>t u op. inv t \<Longrightarrow> R u t \<Longrightarrow> R u (exec op t)"
  shows "R s (fold exec ops s)"
proof -
  have "R u (fold exec ops t)" if "inv t" "R u t" for u t
    using that by (induction ops arbitrary: t) (simp_all add: exec_inv assms(3))
  then show ?thesis using assms(1,2) by blast
qed

end

text \<open>
  The same for operations that may abort (\<open>None\<close>): an operation has an answer and a new state, a run
  collects the answers and ends at the first abort.
\<close>

locale abortable_system =
  fixes inv :: "'s \<Rightarrow> bool" and exec :: "'op \<Rightarrow> 's \<Rightarrow> ('r \<times> 's) option"
    and run :: "'op list \<Rightarrow> 's \<Rightarrow> ('r list \<times> 's) option"
  assumes exec_inv: "inv s \<Longrightarrow> exec op s = Some (r, t) \<Longrightarrow> inv t"
    and run_Nil: "run [] s = Some ([], s)"
    and run_Cons: "run (op # ops) s =
      Option.bind (exec op s) (\<lambda>(r, t). Option.bind (run ops t) (\<lambda>(rs, u). Some (r # rs, u)))"
begin

lemma run_inv: "inv s \<Longrightarrow> run ops s = Some (rs, t) \<Longrightarrow> inv t"
proof (induction ops arbitrary: s rs)
  case (Cons op ops)
  from Cons.prems(2) obtain r u rs' where u: "exec op s = Some (r, u)" and t: "run ops u = Some (rs', t)"
    by (auto simp: run_Cons bind_eq_Some_conv)
  show ?case by (rule Cons.IH [OF exec_inv [OF Cons.prems(1) u] t])
qed (simp add: run_Nil)

end

text \<open>Widening a word.\<close>

lemma unat_wide: "unat (ucast a :: 64 word) = unat a" for a :: u32
  using unsigned_less [of a, where ?'a = nat] by (simp add: unsigned_ucast_eq take_bit_nat_eq_self)

lemma ucast_less: "(ucast a :: 64 word) < ucast b \<longleftrightarrow> a < b" "(ucast a :: 64 word) = ucast b \<longleftrightarrow> a = b" for a b :: u32
  unfolding word_less_nat_alt word_unat_eq_iff unat_wide by simp_all

end
