(* ===== verification/VehicleTypes.thy ===== *)
theory VehicleTypes
  imports Prelude
begin

text \<open>
  The data of the vehicle HAL (automotive/vehicle/2.0: the structs and enums of types.hal the C++
  code uses) and the helper functions of VehicleUtils.h and VehicleUtils.cpp.

  Enumerations that travel as integers or bit masks (property ids, types, areas, access, change
  modes, subscription flags, property status) are integers with the constants of types.hal;
  \<open>StatusCode\<close> is a datatype. An object made by \<open>new VehiclePropValue\<close> has empty vectors and
  scalar fields the code has not set: those are the fields of the parameter \<open>fresh\<close> of
  \<open>createVehiclePropValue\<close>.
\<close>

subsection \<open>Data\<close>

datatype StatusCode = OK | TRY_AGAIN | INVALID_ARG | NOT_AVAILABLE | ACCESS_DENIED | INTERNAL_ERROR

record RawValue =
  int32Values :: "i32 list"
  floatValues :: "f32 list"
  int64Values :: "i64 list"
  bytes :: "u8 list"
  stringValue :: string

record VehiclePropValue =
  pv_timestamp :: i64
  pv_areaId :: i32
  pv_prop :: i32
  pv_status :: i32
  pv_value :: RawValue

record VehicleAreaConfig =
  ac_areaId :: i32
  ac_minInt32Value :: i32
  ac_maxInt32Value :: i32
  ac_minInt64Value :: i64
  ac_maxInt64Value :: i64
  ac_minFloatValue :: f32
  ac_maxFloatValue :: f32

record VehiclePropConfig =
  pc_prop :: i32
  pc_access :: i32
  pc_changeMode :: i32
  pc_areaConfigs :: "VehicleAreaConfig list"
  pc_configArray :: "i32 list"
  pc_configString :: string
  pc_minSampleRate :: f32
  pc_maxSampleRate :: f32

record SubscribeOptions =
  so_propId :: i32
  so_sampleRate :: f32
  so_flags :: i32

definition empty_raw :: RawValue where
  "empty_raw = \<lparr>int32Values = [], floatValues = [], int64Values = [], bytes = [], stringValue = []\<rparr>"

text \<open>\<open>VehiclePropValue{}\<close>: every scalar zero, every vector empty.\<close>

definition kEmptyValue :: VehiclePropValue where
  "kEmptyValue = \<lparr>pv_timestamp = 0, pv_areaId = 0, pv_prop = 0, pv_status = 0, pv_value = empty_raw\<rparr>"

text \<open>VehiclePropertyType\<close>

abbreviation "TYPE_STRING \<equiv> 0x00100000 :: i32"
abbreviation "TYPE_BOOLEAN \<equiv> 0x00200000 :: i32"
abbreviation "TYPE_INT32 \<equiv> 0x00400000 :: i32"
abbreviation "TYPE_INT32_VEC \<equiv> 0x00410000 :: i32"
abbreviation "TYPE_INT64 \<equiv> 0x00500000 :: i32"
abbreviation "TYPE_INT64_VEC \<equiv> 0x00510000 :: i32"
abbreviation "TYPE_FLOAT \<equiv> 0x00600000 :: i32"
abbreviation "TYPE_FLOAT_VEC \<equiv> 0x00610000 :: i32"
abbreviation "TYPE_BYTES \<equiv> 0x00700000 :: i32"
abbreviation "TYPE_MIXED \<equiv> 0x00e00000 :: i32"
abbreviation "TYPE_MASK \<equiv> 0x00ff0000 :: i32"

text \<open>VehicleArea, VehiclePropertyGroup (the group mask \<open>0xf0000000\<close> is negative as an \<open>int32_t\<close>)\<close>

abbreviation "AREA_GLOBAL \<equiv> 0x01000000 :: i32"
abbreviation "AREA_WINDOW \<equiv> 0x03000000 :: i32"
abbreviation "AREA_MIRROR \<equiv> 0x04000000 :: i32"
abbreviation "AREA_SEAT \<equiv> 0x05000000 :: i32"
abbreviation "AREA_DOOR \<equiv> 0x06000000 :: i32"
abbreviation "AREA_WHEEL \<equiv> 0x07000000 :: i32"
abbreviation "AREA_MASK \<equiv> 0x0f000000 :: i32"
abbreviation "GROUP_SYSTEM \<equiv> 0x10000000 :: i32"
abbreviation "GROUP_VENDOR \<equiv> 0x20000000 :: i32"
abbreviation "GROUP_MASK \<equiv> - 0x10000000 :: i32"

text \<open>VehiclePropertyAccess, VehiclePropertyChangeMode, VehiclePropertyStatus, SubscribeFlags\<close>

abbreviation "ACCESS_NONE \<equiv> 0 :: i32"
abbreviation "ACCESS_READ \<equiv> 1 :: i32"
abbreviation "ACCESS_WRITE \<equiv> 2 :: i32"
abbreviation "ACCESS_READ_WRITE \<equiv> 3 :: i32"
abbreviation "STATIC \<equiv> 0 :: i32"
abbreviation "ON_CHANGE \<equiv> 1 :: i32"
abbreviation "CONTINUOUS \<equiv> 2 :: i32"
abbreviation "STATUS_AVAILABLE \<equiv> 0 :: i32"
abbreviation "STATUS_UNAVAILABLE \<equiv> 1 :: i32"
abbreviation "STATUS_ERROR \<equiv> 2 :: i32"
abbreviation "FLAGS_UNDEFINED \<equiv> 0 :: i32"
abbreviation "EVENTS_FROM_CAR \<equiv> 1 :: i32"
abbreviation "EVENTS_FROM_ANDROID \<equiv> 2 :: i32"

subsection \<open>VehicleUtils.h\<close>

definition getPropType :: "i32 \<Rightarrow> i32" where
  "getPropType prop = prop AND TYPE_MASK"

definition getPropGroup :: "i32 \<Rightarrow> i32" where
  "getPropGroup prop = prop AND GROUP_MASK"

definition getPropArea :: "i32 \<Rightarrow> i32" where
  "getPropArea prop = prop AND AREA_MASK"

definition isGlobalProp :: "i32 \<Rightarrow> bool" where
  "isGlobalProp prop \<longleftrightarrow> getPropArea prop = AREA_GLOBAL"

definition isSystemProperty :: "i32 \<Rightarrow> bool" where
  "isSystemProperty prop \<longleftrightarrow> GROUP_SYSTEM = getPropGroup prop"

subsection \<open>VehicleUtils.cpp\<close>

definition createVehiclePropValue ::
  "VehiclePropValue \<Rightarrow> i32 \<Rightarrow> nat \<Rightarrow> VehiclePropValue option" where
  "createVehiclePropValue fresh type vecSize =
     (let val = fresh\<lparr>pv_value := empty_raw\<rparr> in
      if type = TYPE_INT32 \<or> type = TYPE_INT32_VEC \<or> type = TYPE_BOOLEAN
        then Some (val\<lparr>pv_value := empty_raw\<lparr>int32Values := replicate vecSize 0\<rparr>\<rparr>)
      else if type = TYPE_FLOAT \<or> type = TYPE_FLOAT_VEC
        then Some (val\<lparr>pv_value := empty_raw\<lparr>floatValues := replicate vecSize 0\<rparr>\<rparr>)
      else if type = TYPE_INT64 \<or> type = TYPE_INT64_VEC
        then Some (val\<lparr>pv_value := empty_raw\<lparr>int64Values := replicate vecSize 0\<rparr>\<rparr>)
      else if type = TYPE_BYTES
        then Some (val\<lparr>pv_value := empty_raw\<lparr>bytes := replicate vecSize 0\<rparr>\<rparr>)
      else if type = TYPE_STRING \<or> type = TYPE_MIXED then Some val
      else None)"

definition getVehicleRawValueVectorSize :: "RawValue \<Rightarrow> i32 \<Rightarrow> nat" where
  "getVehicleRawValueVectorSize v type =
     (if type = TYPE_INT32 \<or> type = TYPE_INT32_VEC \<or> type = TYPE_BOOLEAN then length (int32Values v)
      else if type = TYPE_FLOAT \<or> type = TYPE_FLOAT_VEC then length (floatValues v)
      else if type = TYPE_INT64 \<or> type = TYPE_INT64_VEC then length (int64Values v)
      else if type = TYPE_BYTES then length (bytes v)
      else 0)"

definition copyVehicleRawValue :: "RawValue \<Rightarrow> RawValue \<Rightarrow> RawValue" where
  "copyVehicleRawValue dest src =
     dest\<lparr>int32Values := int32Values src, floatValues := floatValues src,
          int64Values := int64Values src, bytes := bytes src, stringValue := stringValue src\<rparr>"

definition shallowCopyHidlVec :: "'a list \<Rightarrow> 'a list \<Rightarrow> 'a list" where
  "shallowCopyHidlVec dest src =
     (if 0 < length src then src else if 0 < length dest then [] else dest)"

definition shallowCopyHidlStr :: "string \<Rightarrow> string \<Rightarrow> string" where
  "shallowCopyHidlStr dest src = (if src = [] then [] else src)"

definition shallowCopy :: "VehiclePropValue \<Rightarrow> VehiclePropValue \<Rightarrow> VehiclePropValue" where
  "shallowCopy dest src =
     dest\<lparr>pv_prop := pv_prop src, pv_areaId := pv_areaId src, pv_status := pv_status src,
          pv_timestamp := pv_timestamp src,
          pv_value := (pv_value dest)
            \<lparr>int32Values := shallowCopyHidlVec (int32Values (pv_value dest)) (int32Values (pv_value src)),
             int64Values := shallowCopyHidlVec (int64Values (pv_value dest)) (int64Values (pv_value src)),
             floatValues := shallowCopyHidlVec (floatValues (pv_value dest)) (floatValues (pv_value src)),
             bytes := shallowCopyHidlVec (bytes (pv_value dest)) (bytes (pv_value src)),
             stringValue := shallowCopyHidlStr (stringValue (pv_value dest)) (stringValue (pv_value src))\<rparr>\<rparr>"

subsection \<open>Lemmas\<close>

lemma copyVehicleRawValue_eq [simp]: "copyVehicleRawValue dest src = src"
  by (simp add: copyVehicleRawValue_def)

lemma shallowCopyHidlVec_eq [simp]: "shallowCopyHidlVec dest src = src"
  by (simp add: shallowCopyHidlVec_def)

lemma shallowCopyHidlStr_eq [simp]: "shallowCopyHidlStr dest src = src"
  by (simp add: shallowCopyHidlStr_def)

text \<open>Whatever the reused element of the event pool held, the copy is the source value.\<close>

lemma shallowCopy_eq [simp]: "shallowCopy dest src = src"
  by (simp add: shallowCopy_def)

lemma createVehiclePropValue_size:
  "createVehiclePropValue fresh type n = Some v \<Longrightarrow> type \<noteq> TYPE_STRING \<Longrightarrow> type \<noteq> TYPE_MIXED \<Longrightarrow>
   getVehicleRawValueVectorSize (pv_value v) type = n"
  by (auto simp: createVehiclePropValue_def getVehicleRawValueVectorSize_def Let_def split: if_splits)

lemma createVehiclePropValue_known:
  "createVehiclePropValue fresh type n \<noteq> None \<longleftrightarrow>
   type \<in> {TYPE_STRING, TYPE_BOOLEAN, TYPE_INT32, TYPE_INT32_VEC, TYPE_INT64, TYPE_INT64_VEC,
           TYPE_FLOAT, TYPE_FLOAT_VEC, TYPE_BYTES, TYPE_MIXED}"
  by (auto simp: createVehiclePropValue_def Let_def)

text \<open>The three fields of a property id and its low 16 bits determine it.\<close>

lemma prop_bits: "(prop :: i32) = getPropGroup prop OR getPropArea prop OR getPropType prop OR (prop AND 0xffff)"
proof -
  have "(-1 :: int) = GROUP_MASK OR (AREA_MASK OR (TYPE_MASK OR 0xffff))"
    by simp
  then have "prop = prop AND (GROUP_MASK OR (AREA_MASK OR (TYPE_MASK OR 0xffff)))"
    by (metis bit.conj_one_right)
  then show ?thesis
    unfolding getPropGroup_def getPropArea_def getPropType_def
    by (metis bit.conj_disj_distrib or.assoc)
qed

end
