(* ===== verification/PropertyStore.thy ===== *)
theory PropertyStore
  imports VehicleTypes
begin

text \<open>
  VehiclePropertyStore (common/src/VehiclePropertyStore.cpp): the database of property values,
  keyed by property, area and token. \<open>mConfigs\<close> is an unordered map in the code: the model
  iterates it by key, and no theorem depends on that order. Every method takes the mutex for its
  whole body, so each is one atomic function of the state.

  The lemmas show that a record always sits under the identifier its own value computes
  (\<open>store_inv\<close>), the read-after-write and frame laws, and that the iterator range of a property is
  the set of its records. The laws a client relies on are the locale \<open>property_db\<close>, interpreted on
  the operations at the end.
\<close>

subsection \<open>State\<close>

datatype RecordId = RecordId (ri_prop: i32) (ri_area: i32) (ri_token: i64)

text \<open>\<open>RecordId::operator<\<close> is the lexicographic order; it makes \<open>RecordId\<close> a key of the ordered map.\<close>

fun RecordId_lt :: "RecordId \<Rightarrow> RecordId \<Rightarrow> bool" where
  "RecordId_lt (RecordId p a t) (RecordId p' a' t') \<longleftrightarrow>
     p < p' \<or> (p = p' \<and> a < a') \<or> (p = p' \<and> a = a' \<and> t < t')"

text \<open>The lexicographic order of three components, for any linear orders.\<close>

lemma lex3_trans:
  fixes p :: "'a::linorder" and a :: "'b::linorder" and t :: "'c::linorder"
  assumes "p < p' \<or> (p = p' \<and> a < a') \<or> (p = p' \<and> a = a' \<and> t < t')"
    and "p' < p'' \<or> (p' = p'' \<and> a' < a'') \<or> (p' = p'' \<and> a' = a'' \<and> t' < t'')"
  shows "p < p'' \<or> (p = p'' \<and> a < a'') \<or> (p = p'' \<and> a = a'' \<and> t < t'')"
  using assms by auto

lemma RecordId_lt_trans: "RecordId_lt x y \<Longrightarrow> RecordId_lt y z \<Longrightarrow> RecordId_lt x z"
  by (cases x; cases y; cases z) (simp only: RecordId_lt.simps, rule lex3_trans)

instantiation RecordId :: linorder
begin

definition less_RecordId :: "RecordId \<Rightarrow> RecordId \<Rightarrow> bool" where
  "less_RecordId r s = RecordId_lt r s"

definition less_eq_RecordId :: "RecordId \<Rightarrow> RecordId \<Rightarrow> bool" where
  "less_eq_RecordId r s \<longleftrightarrow> r = s \<or> RecordId_lt r s"

instance
proof
  fix x y z :: RecordId
  show "x < y \<longleftrightarrow> x \<le> y \<and> \<not> y \<le> x"
    by (cases x; cases y) (auto simp: less_RecordId_def less_eq_RecordId_def)
  show "x \<le> x"
    by (simp add: less_eq_RecordId_def)
  show "x \<le> y \<Longrightarrow> y \<le> z \<Longrightarrow> x \<le> z"
    unfolding less_eq_RecordId_def by (metis RecordId_lt_trans)
  show "x \<le> y \<Longrightarrow> y \<le> x \<Longrightarrow> x = y"
    by (cases x; cases y) (auto simp: less_eq_RecordId_def)
  show "x \<le> y \<or> y \<le> x"
    by (cases x; cases y) (auto simp: less_eq_RecordId_def)
qed

end

type_synonym TokenFunction = "VehiclePropValue \<Rightarrow> i64"

record RecordConfig =
  rc_propConfig :: VehiclePropConfig
  rc_tokenFunction :: "TokenFunction option"

record VehiclePropertyStore =
  ps_configs :: "(i32, RecordConfig) std_map"
  ps_values :: "(RecordId, VehiclePropValue) std_map"

definition empty_store :: VehiclePropertyStore where
  "empty_store = \<lparr>ps_configs = [], ps_values = []\<rparr>"

abbreviation "INT32_MIN \<equiv> - 0x80000000 :: i32"
abbreviation "INT32_MAX \<equiv> 0x7fffffff :: i32"

subsection \<open>Operations\<close>

definition record_area :: "VehiclePropValue \<Rightarrow> i32" where
  "record_area v = (if isGlobalProp (pv_prop v) then 0 else pv_areaId v)"

definition record_token :: "RecordConfig \<Rightarrow> VehiclePropValue \<Rightarrow> i64" where
  "record_token rc v = (case rc_tokenFunction rc of None \<Rightarrow> 0 | Some f \<Rightarrow> f v)"

definition getRecordIdLocked :: "VehiclePropertyStore \<Rightarrow> VehiclePropValue \<Rightarrow> RecordId" where
  "getRecordIdLocked s v =
     (case map_of (ps_configs s) (pv_prop v) of
        None \<Rightarrow> RecordId 0 0 0
      | Some rc \<Rightarrow> RecordId (pv_prop v) (record_area v) (record_token rc v))"

definition getValueOrNullLocked :: "VehiclePropertyStore \<Rightarrow> RecordId \<Rightarrow> VehiclePropValue option" where
  "getValueOrNullLocked s recId = map_of (ps_values s) recId"

definition registerProperty ::
  "VehiclePropConfig \<Rightarrow> TokenFunction option \<Rightarrow> VehiclePropertyStore \<Rightarrow> VehiclePropertyStore" where
  "registerProperty config tokenFunc s =
     s\<lparr>ps_configs := map_emplace (pc_prop config)
         \<lparr>rc_propConfig = config, rc_tokenFunction = tokenFunc\<rparr> (ps_configs s)\<rparr>"

definition writeValue ::
  "VehiclePropValue \<Rightarrow> bool \<Rightarrow> VehiclePropertyStore \<Rightarrow> bool \<times> VehiclePropertyStore" where
  "writeValue propValue updateStatus s =
     (if map_of (ps_configs s) (pv_prop propValue) = None then (False, s)
      else
        let recId = getRecordIdLocked s propValue in
        case getValueOrNullLocked s recId of
          None \<Rightarrow> (True, s\<lparr>ps_values := map_emplace recId propValue (ps_values s)\<rparr>)
        | Some valueToUpdate \<Rightarrow>
            let v1 = valueToUpdate\<lparr>pv_timestamp := pv_timestamp propValue,
                                   pv_value := pv_value propValue\<rparr>;
                v2 = (if updateStatus then v1\<lparr>pv_status := pv_status propValue\<rparr> else v1)
            in (True, s\<lparr>ps_values := map_put recId v2 (ps_values s)\<rparr>))"

definition removeValue :: "VehiclePropValue \<Rightarrow> VehiclePropertyStore \<Rightarrow> VehiclePropertyStore" where
  "removeValue propValue s =
     (let recId = getRecordIdLocked s propValue in
      case map_of (ps_values s) recId of
        None \<Rightarrow> s
      | Some _ \<Rightarrow> s\<lparr>ps_values := map_erase recId (ps_values s)\<rparr>)"

text \<open>\<open>propId + 1\<close> is computed in 32 bits; for \<open>INT32_MAX\<close> the C++ overflow is undefined.\<close>

definition findRangeLocked ::
  "VehiclePropertyStore \<Rightarrow> i32 \<Rightarrow> RecordId \<times> RecordId" where
  "findRangeLocked s propId = (RecordId propId INT32_MIN 0, RecordId (wrap32 (propId + 1)) INT32_MIN 0)"

definition removeValuesForProperty :: "i32 \<Rightarrow> VehiclePropertyStore \<Rightarrow> VehiclePropertyStore" where
  "removeValuesForProperty propId s =
     (let (lo, hi) = findRangeLocked s propId in
      s\<lparr>ps_values := map_erase_range lo hi (ps_values s)\<rparr>)"

definition readAllValues :: "VehiclePropertyStore \<Rightarrow> VehiclePropValue list" where
  "readAllValues s = map snd (ps_values s)"

definition readValuesForProperty :: "VehiclePropertyStore \<Rightarrow> i32 \<Rightarrow> VehiclePropValue list" where
  "readValuesForProperty s propId =
     (let (lo, hi) = findRangeLocked s propId in map snd (map_range lo hi (ps_values s)))"

definition readValueOrNull :: "VehiclePropertyStore \<Rightarrow> VehiclePropValue \<Rightarrow> VehiclePropValue option" where
  "readValueOrNull s request = getValueOrNullLocked s (getRecordIdLocked s request)"

text \<open>The overload \<open>readValueOrNull(prop, area, token)\<close>\<close>

definition readValueOrNull_at ::
  "VehiclePropertyStore \<Rightarrow> i32 \<Rightarrow> i32 \<Rightarrow> i64 \<Rightarrow> VehiclePropValue option" where
  "readValueOrNull_at s prop area token =
     getValueOrNullLocked s (RecordId prop (if isGlobalProp prop then 0 else area) token)"

definition getAllConfigs :: "VehiclePropertyStore \<Rightarrow> VehiclePropConfig list" where
  "getAllConfigs s = map (\<lambda>p. rc_propConfig (snd p)) (ps_configs s)"

definition getConfigOrNull :: "VehiclePropertyStore \<Rightarrow> i32 \<Rightarrow> VehiclePropConfig option" where
  "getConfigOrNull s propId = map_option rc_propConfig (map_of (ps_configs s) propId)"

text \<open>\<open>getConfigOrDie\<close> aborts the process on a missing configuration: \<open>Inl\<close> is the abort.\<close>

datatype vhal_abort = ConfigNotFound i32

definition getConfigOrDie :: "VehiclePropertyStore \<Rightarrow> i32 \<Rightarrow> vhal_abort + VehiclePropConfig" where
  "getConfigOrDie s propId =
     (case getConfigOrNull s propId of None \<Rightarrow> Inl (ConfigNotFound propId) | Some cfg \<Rightarrow> Inr cfg)"

subsection \<open>Invariant\<close>

text \<open>
  A token function sees the timestamp and the value only (the one the HAL registers returns the
  timestamp): updating the other fields of a record in place cannot move it.
\<close>

definition token_ok :: "RecordConfig \<Rightarrow> bool" where
  "token_ok rc \<longleftrightarrow> (\<forall>f. rc_tokenFunction rc = Some f \<longrightarrow>
     (\<forall>v w. pv_timestamp v = pv_timestamp w \<longrightarrow> pv_value v = pv_value w \<longrightarrow> f v = f w))"

definition store_inv :: "VehiclePropertyStore \<Rightarrow> bool" where
  "store_inv s \<longleftrightarrow> map_inv (ps_configs s) \<and> map_inv (ps_values s) \<and>
     (\<forall>p rc. map_of (ps_configs s) p = Some rc \<longrightarrow> pc_prop (rc_propConfig rc) = p \<and> token_ok rc) \<and>
     (\<forall>r v. map_of (ps_values s) r = Some v \<longrightarrow>
        map_of (ps_configs s) (pv_prop v) \<noteq> None \<and> getRecordIdLocked s v = r)"

lemma store_inv_values: "store_inv s \<Longrightarrow> map_inv (ps_values s)"
  by (simp add: store_inv_def)

lemma ri_prop_getRecordId [simp]:
  "map_of (ps_configs s) (pv_prop v) \<noteq> None \<Longrightarrow> ri_prop (getRecordIdLocked s v) = pv_prop v"
  by (auto simp: getRecordIdLocked_def Let_def split: option.split)

lemma store_inv_record:
  assumes "store_inv s" "map_of (ps_values s) r = Some v"
  shows "map_of (ps_configs s) (pv_prop v) \<noteq> None \<and> getRecordIdLocked s v = r \<and> pv_prop v = ri_prop r"
proof -
  from assms have "map_of (ps_configs s) (pv_prop v) \<noteq> None \<and> getRecordIdLocked s v = r"
    by (simp add: store_inv_def)
  then show ?thesis by (metis ri_prop_getRecordId)
qed

lemma getRecordId_values [simp]: "getRecordIdLocked (s\<lparr>ps_values := m\<rparr>) v = getRecordIdLocked s v"
  by (simp add: getRecordIdLocked_def)

lemma store_inv_empty [keeps_inv]: "store_inv empty_store"
  by (simp add: store_inv_def empty_store_def)

lemma configs_register:
  "map_of (ps_configs (registerProperty c f s)) p =
     (case map_of (ps_configs s) p of
        None \<Rightarrow> if p = pc_prop c then Some \<lparr>rc_propConfig = c, rc_tokenFunction = f\<rparr> else None
      | Some rc \<Rightarrow> Some rc)"
  by (cases "map_of (ps_configs s) (pc_prop c)"; cases "map_of (ps_configs s) p")
    (auto simp: registerProperty_def)

lemma getRecordId_register:
  assumes "map_of (ps_configs s) (pv_prop v) \<noteq> None"
  shows "getRecordIdLocked (registerProperty c f s) v = getRecordIdLocked s v"
  using assms by (auto simp: getRecordIdLocked_def configs_register)

lemma store_inv_register [keeps_inv]:
  assumes "store_inv s" "token_ok \<lparr>rc_propConfig = c, rc_tokenFunction = f\<rparr>"
  shows "store_inv (registerProperty c f s)"
proof -
  let ?s = "registerProperty c f s"
  have vals: "ps_values ?s = ps_values s"
    by (simp add: registerProperty_def)
  have sorted: "map_inv (ps_configs ?s)"
    using assms by (simp add: registerProperty_def store_inv_def)
  have old: "pc_prop (rc_propConfig rc) = p \<and> token_ok rc" if "map_of (ps_configs s) p = Some rc" for p rc
    using that assms(1) by (simp add: store_inv_def)
  have cfgs: "pc_prop (rc_propConfig rc) = p \<and> token_ok rc" if "map_of (ps_configs ?s) p = Some rc" for p rc
    using that old assms(2)
    by (cases "map_of (ps_configs s) p") (auto simp: configs_register split: if_splits)
  have recs: "map_of (ps_configs ?s) (pv_prop v) \<noteq> None \<and> getRecordIdLocked ?s v = r"
    if "map_of (ps_values s) r = Some v" for r v
  proof -
    from store_inv_record [OF assms(1) that]
    have *: "map_of (ps_configs s) (pv_prop v) \<noteq> None" "getRecordIdLocked s v = r" by blast+
    from *(1) have "map_of (ps_configs ?s) (pv_prop v) \<noteq> None"
      by (auto simp: configs_register)
    with * getRecordId_register [OF *(1), of c f] show ?thesis by simp
  qed
  show ?thesis
    unfolding store_inv_def [of ?s] vals
    using store_inv_values [OF assms(1)] sorted cfgs recs by blast
qed

text \<open>Updating a record in place keeps it under its identifier.\<close>

lemma getRecordId_update:
  assumes "store_inv s" "getRecordIdLocked s old = getRecordIdLocked s new"
    and "map_of (ps_configs s) (pv_prop new) \<noteq> None" "map_of (ps_configs s) (pv_prop old) \<noteq> None"
    and "pv_prop w = pv_prop old" "pv_areaId w = pv_areaId old"
    and "pv_timestamp w = pv_timestamp new" "pv_value w = pv_value new"
  shows "getRecordIdLocked s w = getRecordIdLocked s new"
proof -
  from assms obtain rc where rc: "map_of (ps_configs s) (pv_prop new) = Some rc" by auto
  then have "token_ok rc" using assms(1) by (auto simp: store_inv_def)
  have "pv_prop old = pv_prop new"
    using assms(2-4) by (metis ri_prop_getRecordId)
  then have same: "map_of (ps_configs s) (pv_prop w) = Some rc" "pv_prop w = pv_prop new"
    using rc assms(5) by simp_all
  have "record_token rc w = record_token rc new"
    using \<open>token_ok rc\<close> assms(7,8) by (simp add: token_ok_def record_token_def split: option.split)
  moreover have "record_area w = record_area new"
    using assms(2,6) \<open>pv_prop old = pv_prop new\<close> same rc
    by (simp add: getRecordIdLocked_def record_area_def split: if_splits)
  ultimately show ?thesis
    using same rc by (simp add: getRecordIdLocked_def)
qed

definition updated_record :: "VehiclePropValue \<Rightarrow> VehiclePropValue \<Rightarrow> bool \<Rightarrow> VehiclePropValue" where
  "updated_record old new updateStatus =
     old\<lparr>pv_timestamp := pv_timestamp new, pv_value := pv_value new,
         pv_status := (if updateStatus then pv_status new else pv_status old)\<rparr>"

text \<open>The two branches of \<open>writeValue\<close> as one map update.\<close>

lemma writeValue_cases:
  "writeValue v u s =
     (if map_of (ps_configs s) (pv_prop v) = None then (False, s)
      else (True, s\<lparr>ps_values := map_put (getRecordIdLocked s v)
             (case map_of (ps_values s) (getRecordIdLocked s v) of
                None \<Rightarrow> v | Some old \<Rightarrow> updated_record old v u) (ps_values s)\<rparr>))"
  by (simp add: writeValue_def getValueOrNullLocked_def updated_record_def map_emplace_def Let_def
      split: option.split)

lemma store_inv_write [keeps_inv]:
  assumes "store_inv s"
  shows "store_inv (snd (writeValue v u s))"
proof (cases "map_of (ps_configs s) (pv_prop v) = None")
  case False
  let ?r = "getRecordIdLocked s v"
  let ?w = "case map_of (ps_values s) ?r of None \<Rightarrow> v | Some old \<Rightarrow> updated_record old v u"
  have w: "map_of (ps_configs s) (pv_prop ?w) \<noteq> None \<and> getRecordIdLocked s ?w = ?r"
  proof (cases "map_of (ps_values s) ?r")
    case (Some old)
    with store_inv_record [OF assms Some] False show ?thesis
      using getRecordId_update [OF assms, of old v ?w] by (simp add: updated_record_def)
  qed (use False in simp)
  with assms False show ?thesis
    by (auto simp: writeValue_cases store_inv_def split: if_splits)
qed (use assms in \<open>simp add: writeValue_cases\<close>)

lemma configs_write [simp]: "ps_configs (snd (writeValue v u s)) = ps_configs s"
  by (simp add: writeValue_cases)

lemma configs_remove [simp]: "ps_configs (removeValue v s) = ps_configs s"
  by (simp add: removeValue_def Let_def split: option.split)

lemma getRecordId_configs: "ps_configs t = ps_configs s \<Longrightarrow> getRecordIdLocked t = getRecordIdLocked s"
  by (simp add: getRecordIdLocked_def fun_eq_iff)

lemma getRecordId_write [simp]: "getRecordIdLocked (snd (writeValue v u s)) = getRecordIdLocked s"
  by (rule getRecordId_configs) simp

lemma getRecordId_remove [simp]: "getRecordIdLocked (removeValue v s) = getRecordIdLocked s"
  by (rule getRecordId_configs) simp

lemma store_inv_remove [keeps_inv]: "store_inv s \<Longrightarrow> store_inv (removeValue v s)"
  by (auto simp: removeValue_def store_inv_def Let_def split: option.split if_splits)

lemma map_of_filter_keys:
  "map_inv m \<Longrightarrow> map_of (filter (\<lambda>p. P (fst p)) m) k = (if P k then map_of m k else None)"
  by (induction m) auto


lemma wrap32_succ: "in_i32 p \<Longrightarrow> p < INT32_MAX \<Longrightarrow> wrap32 (p + 1) = p + 1"
  by (intro wrap32_id) (simp add: in_i32_def)

text \<open>
  The iterator range of a property is the set of its records, unless a record has the area
  \<open>INT32_MIN\<close>: then its token decides on which side of the bound it falls.
\<close>

lemma in_prop_range:
  assumes "in_i32 p" "p < INT32_MAX" "INT32_MIN < ri_area r"
  shows "(RecordId p INT32_MIN 0 \<le> r \<and> r < RecordId (wrap32 (p + 1)) INT32_MIN 0) \<longleftrightarrow> ri_prop r = p"
  using assms by (cases r) (auto simp: wrap32_succ less_RecordId_def less_eq_RecordId_def)

lemma prop_range_le:
  "in_i32 p \<Longrightarrow> p < INT32_MAX \<Longrightarrow> RecordId p INT32_MIN 0 \<le> RecordId (wrap32 (p + 1)) INT32_MIN 0"
  by (simp add: wrap32_succ less_eq_RecordId_def)

definition areas_ok :: "VehiclePropertyStore \<Rightarrow> bool" where
  "areas_ok s \<longleftrightarrow> (\<forall>r \<in> set (map fst (ps_values s)). INT32_MIN < ri_area r)"

lemma filter_in_prop_range:
  assumes "areas_ok s" "in_i32 p" "p < INT32_MAX"
  shows "filter (\<lambda>q. RecordId p INT32_MIN 0 \<le> fst q \<and> fst q < RecordId (wrap32 (p + 1)) INT32_MIN 0) (ps_values s)
         = filter (\<lambda>q. ri_prop (fst q) = p) (ps_values s)"
  using assms by (intro filter_cong refl in_prop_range) (auto simp: areas_ok_def)

subsection \<open>The contract of the database\<close>

text \<open>
  What the HAL on top of the database relies on: a write of a registered property shows under the
  identifier of the written value and nowhere else, a removal empties that identifier only, and
  neither changes which properties are registered nor the identifier a value computes.
\<close>

locale property_db =
  fixes inv :: "'s \<Rightarrow> bool"
    and registered :: "'s \<Rightarrow> i32 \<Rightarrow> bool"
    and ident :: "'s \<Rightarrow> VehiclePropValue \<Rightarrow> 'k"
    and lookup :: "'s \<Rightarrow> 'k \<Rightarrow> VehiclePropValue option"
    and wr :: "VehiclePropValue \<Rightarrow> bool \<Rightarrow> 's \<Rightarrow> bool \<times> 's"
    and rm :: "VehiclePropValue \<Rightarrow> 's \<Rightarrow> 's"
  assumes wr_inv: "inv s \<Longrightarrow> inv (snd (wr v u s))"
    and wr_registered: "registered (snd (wr v u s)) = registered s"
    and wr_ident: "ident (snd (wr v u s)) = ident s"
    and wr_result: "fst (wr v u s) = registered s (pv_prop v)"
    and wr_lookup: "lookup (snd (wr v u s)) k =
          (if registered s (pv_prop v) \<and> k = ident s v
           then Some (case lookup s k of None \<Rightarrow> v | Some old \<Rightarrow> updated_record old v u)
           else lookup s k)"
    and rm_inv: "inv s \<Longrightarrow> inv (rm v s)"
    and rm_registered: "registered (rm v s) = registered s"
    and rm_ident: "ident (rm v s) = ident s"
    and rm_lookup: "lookup (rm v s) k = (if k = ident s v then None else lookup s k)"
    and lookup_ident: "inv s \<Longrightarrow> lookup s k = Some v \<Longrightarrow> registered s (pv_prop v) \<and> ident s v = k"
begin

lemma read_written:
  assumes "registered s (pv_prop v)"
  obtains w where "lookup (snd (wr v u s)) (ident (snd (wr v u s)) v) = Some w"
    "pv_timestamp w = pv_timestamp v" "pv_value w = pv_value v"
  using assms by (auto simp: wr_lookup wr_ident updated_record_def split: option.split)

lemma status_protected:
  "lookup s k = Some old \<Longrightarrow> \<exists>w. lookup (snd (wr v False s)) k = Some w \<and> pv_status w = pv_status old"
  by (auto simp: wr_lookup updated_record_def)

lemma write_frame: "k \<noteq> ident s v \<Longrightarrow> lookup (snd (wr v u s)) k = lookup s k"
  by (simp add: wr_lookup)

lemma write_remove: "lookup (rm v (snd (wr v u s))) (ident s v) = None"
  by (simp add: rm_lookup wr_ident)

lemma remove_stored:
  "inv s \<Longrightarrow> lookup s k = Some v \<Longrightarrow> lookup (rm v s) j = (if j = k then None else lookup s j)"
  using lookup_ident [of s k v] by (simp add: rm_lookup)

definition writes :: "(VehiclePropValue \<times> bool) list \<Rightarrow> 's \<Rightarrow> 's" where
  "writes vs s = fold (\<lambda>(v, u) t. snd (wr v u t)) vs s"

lemma writes_simps [simp]:
  "writes [] s = s" "writes ((v, u) # vs) s = writes vs (snd (wr v u s))"
  by (simp_all add: writes_def)

lemma writes_append [simp]: "writes (vs @ ws) s = writes ws (writes vs s)"
  by (simp add: writes_def)

lemma writes_inv: "inv s \<Longrightarrow> inv (writes vs s)"
  by (induction vs arbitrary: s) (auto simp: wr_inv)

lemma writes_registered: "registered (writes vs s) = registered s"
  by (induction vs arbitrary: s) (auto simp: wr_registered)

lemma writes_ident: "ident (writes vs s) = ident s"
  by (induction vs arbitrary: s) (auto simp: wr_ident)

lemma writes_keep: "lookup s k \<noteq> None \<Longrightarrow> lookup (writes vs s) k \<noteq> None"
  by (induction vs arbitrary: s) (auto simp: wr_lookup)

lemma writes_present:
  assumes "(v, u) \<in> set vs" "registered s (pv_prop v)"
  shows "lookup (writes vs s) (ident s v) \<noteq> None"
proof -
  from assms(1) obtain xs ys where vs: "vs = xs @ (v, u) # ys" by (meson split_list)
  have "lookup (snd (wr v u (writes xs s))) (ident s v) \<noteq> None"
    using assms(2) by (simp add: wr_lookup writes_registered writes_ident)
  then show ?thesis
    unfolding vs by (simp add: writes_keep)
qed

lemma writes_frame:
  "(\<And>v u. (v, u) \<in> set vs \<Longrightarrow> registered s (pv_prop v) \<Longrightarrow> ident s v \<noteq> k) \<Longrightarrow> lookup (writes vs s) k = lookup s k"
proof (induction vs arbitrary: s)
  case (Cons p vs)
  obtain v u where p: "p = (v, u)" by force
  have "lookup (writes vs (snd (wr v u s))) k = lookup (snd (wr v u s)) k"
    using Cons.prems by (intro Cons.IH) (auto simp: wr_registered wr_ident)
  with Cons.prems [of v u] p show ?case by (auto simp: wr_lookup)
qed simp

end

interpretation db: property_db store_inv
  "\<lambda>s p. map_of (ps_configs s) p \<noteq> None" getRecordIdLocked getValueOrNullLocked writeValue removeValue
proof unfold_locales
  fix s v u and k :: RecordId
  show "getValueOrNullLocked (snd (writeValue v u s)) k =
      (if map_of (ps_configs s) (pv_prop v) \<noteq> None \<and> k = getRecordIdLocked s v
       then Some (case getValueOrNullLocked s k of None \<Rightarrow> v | Some old \<Rightarrow> updated_record old v u)
       else getValueOrNullLocked s k)"
    by (simp add: writeValue_cases getValueOrNullLocked_def)
  show "getValueOrNullLocked (removeValue v s) k =
      (if k = getRecordIdLocked s v then None else getValueOrNullLocked s k)"
    by (auto simp: removeValue_def getValueOrNullLocked_def Let_def split: option.split)
  assume "store_inv s" "getValueOrNullLocked s k = Some v"
  then show "map_of (ps_configs s) (pv_prop v) \<noteq> None \<and> getRecordIdLocked s v = k"
    unfolding getValueOrNullLocked_def by (blast dest: store_inv_record)
qed (simp_all add: store_inv_write store_inv_remove, simp add: writeValue_cases)

subsection \<open>Properties\<close>

text \<open>C1: after a write of a registered property the database answers a read of the same
  property and area with the written timestamp and value; the status is the written one only if the
  record is new or the writer may update the status (the HAL side), otherwise the old one.\<close>

theorem store_read_after_write:
  assumes "store_inv s" "map_of (ps_configs s) (pv_prop v) \<noteq> None"
  shows "fst (writeValue v u s) \<and>
    (\<exists>w. readValueOrNull (snd (writeValue v u s)) v = Some w \<and>
         pv_timestamp w = pv_timestamp v \<and> pv_value w = pv_value v \<and>
         pv_status w = (case readValueOrNull s v of
                          None \<Rightarrow> pv_status v
                        | Some old \<Rightarrow> if u then pv_status v else pv_status old))"
  using assms(2)
  by (auto simp: db.wr_lookup db.wr_ident db.wr_result readValueOrNull_def updated_record_def
      split: option.split)

text \<open>reading the values of a property returns, in key order, exactly the records stored for that
  property (for a 32-bit property id whose successor does not overflow, in a database with no record of
  area INT32_MIN), and removing the property's values leaves exactly the records of the others.\<close>

theorem store_property_range:
  assumes "store_inv s" "areas_ok s" "in_i32 p" "p < INT32_MAX"
  shows "readValuesForProperty s p = map snd (filter (\<lambda>q. pv_prop (snd q) = p) (ps_values s)) \<and>
         ps_values (removeValuesForProperty p s) = filter (\<lambda>q. pv_prop (snd q) \<noteq> p) (ps_values s)"
proof -
  have same: "pv_prop (snd q) = ri_prop (fst q)" if "q \<in> set (ps_values s)" for q
    using that store_inv_record [OF assms(1), of "fst q" "snd q"] store_inv_values [OF assms(1)]
    by (simp add: map_of_mem)
  have eq: "filter (\<lambda>q. ri_prop (fst q) = p) (ps_values s) = filter (\<lambda>q. pv_prop (snd q) = p) (ps_values s)"
    by (rule filter_cong) (simp_all add: same)
  have "filter (\<lambda>q. \<not> (RecordId p INT32_MIN 0 \<le> fst q \<and> fst q < RecordId (wrap32 (p + 1)) INT32_MIN 0)) (ps_values s)
      = filter (\<lambda>q. pv_prop (snd q) \<noteq> p) (ps_values s)"
    using assms(2-4) by (intro filter_cong refl) (simp add: same in_prop_range areas_ok_def)
  with eq show ?thesis
    using assms filter_in_prop_range [OF assms(2-4)]
    by (simp add: readValuesForProperty_def removeValuesForProperty_def findRangeLocked_def
        map_range_filter map_erase_range_filter store_inv_values prop_range_le)
qed

text \<open>A configuration and a value whose area and token sit below the bound the range starts at.\<close>

definition edge_config :: "i32 \<Rightarrow> VehiclePropConfig" where
  "edge_config p = \<lparr>pc_prop = p, pc_access = ACCESS_READ, pc_changeMode = ON_CHANGE, pc_areaConfigs = [],
     pc_configArray = [], pc_configString = [], pc_minSampleRate = 0, pc_maxSampleRate = 0\<rparr>"

definition edge_store :: "i32 \<Rightarrow> i32 \<Rightarrow> i64 \<Rightarrow> VehiclePropertyStore" where
  "edge_store p area t =
     snd (writeValue (kEmptyValue\<lparr>pv_prop := p, pv_areaId := area, pv_timestamp := t\<rparr>) True
       (registerProperty (edge_config p) (Some pv_timestamp) empty_store))"

text \<open>The area condition of the range theorem is needed: a record of the area INT32_MIN with a negative
  token is missing from its own property's values and is returned (and removed) with those of the property before.\<close>

theorem store_range_edge:
  "pv_prop ` set (readAllValues (edge_store 6 INT32_MIN (-1))) = {6} \<and>
   readValuesForProperty (edge_store 6 INT32_MIN (-1)) 6 = [] \<and>
   map pv_prop (readValuesForProperty (edge_store 6 INT32_MIN (-1)) 5) = [6]"
  by (simp add: edge_store_def edge_config_def registerProperty_def writeValue_cases empty_store_def
      getRecordIdLocked_def record_area_def record_token_def isGlobalProp_def getPropArea_def
      readAllValues_def readValuesForProperty_def findRangeLocked_def map_range_def map_from_def
      wrap32_def less_RecordId_def map_emplace_def kEmptyValue_def)

lemma store_inv_edge: "store_inv (edge_store p area t)"
  unfolding edge_store_def by (intro keeps_inv) (simp add: token_ok_def)

lemma edge_store_configs: "map_of (ps_configs (edge_store p area t)) p \<noteq> None"
  by (simp add: edge_store_def configs_register edge_config_def empty_store_def)

theorem store_read_after_write_witness:
  "\<exists>w. readValueOrNull (snd (writeValue (kEmptyValue\<lparr>pv_prop := 6, pv_timestamp := 9\<rparr>) False (edge_store 6 0 9)))
        (kEmptyValue\<lparr>pv_prop := 6, pv_timestamp := 9\<rparr>) = Some w \<and> pv_timestamp w = 9"
  using store_read_after_write [of "edge_store 6 0 9" "kEmptyValue\<lparr>pv_prop := 6, pv_timestamp := 9\<rparr>" False]
  by (auto simp: store_inv_edge edge_store_configs)

theorem store_property_range_witness:
  "readValuesForProperty (edge_store 6 3 9) 6 =
     map snd (filter (\<lambda>q. pv_prop (snd q) = 6) (ps_values (edge_store 6 3 9)))"
proof -
  have "areas_ok (edge_store 6 3 9)"
    by (simp add: areas_ok_def edge_store_def edge_config_def registerProperty_def writeValue_cases
        empty_store_def getRecordIdLocked_def record_area_def isGlobalProp_def getPropArea_def
        map_emplace_def kEmptyValue_def)
  then show ?thesis
    using store_property_range [of "edge_store 6 3 9" 6] store_inv_edge by (simp add: in_i32_def)
qed

end
