(* ===== verification/Subscriptions.thy ===== *)
theory Subscriptions
  imports VehicleTypes
begin

text \<open>
  SubscriptionManager and HalClient (common/include/vhal_v2_0/SubscriptionManager.h,
  common/src/SubscriptionManager.cpp): which client hears about which property.

  A \<open>HalClient\<close> is a shared object: \<open>mClients\<close> and the vectors of \<open>mPropToClients\<close> hold pointers to
  it, and \<open>addOrUpdateSubscription\<close> updates it through the pointer. The model keeps an explicit store
  \<open>sm_heap\<close> from addresses to clients. New objects get increasing addresses; the address order only
  decides in which order clients are served, and no theorem depends on it. The result of
  \<open>linkToDeath\<close> (the binder) is the argument \<open>linkOk\<close>. A call of \<open>mOnPropertyUnsubscribed\<close> is an
  element of the returned list of property ids. Every public method holds the mutex, except that
  \<open>onCallbackDead\<close> releases it between its calls of \<open>unsubscribe\<close>.
\<close>

subsection \<open>State\<close>

type_synonym ClientId = nat
type_synonym callback = nat
type_synonym client_addr = nat

record HalClient =
  hc_callback :: callback
  hc_subscriptions :: "(i32, SubscribeOptions) std_map"

record SubscriptionManager =
  sm_heap :: "(client_addr, HalClient) std_map"
  sm_clients :: "(ClientId, client_addr) std_map"
  sm_propToClients :: "(i32, client_addr list) std_map"
  sm_halEventSubscribeOptions :: "(i32, SubscribeOptions) std_map"

definition empty_subscriptions :: SubscriptionManager where
  "empty_subscriptions = \<lparr>sm_heap = [], sm_clients = [], sm_propToClients = [],
     sm_halEventSubscribeOptions = []\<rparr>"

definition new_addr :: "SubscriptionManager \<Rightarrow> client_addr" where
  "new_addr s = (if sm_heap s = [] then 1 else fst (last (sm_heap s)) + 1)"

text \<open>\<open>SortedVector::add\<close> and \<open>remove\<close>: a sorted vector without duplicates.\<close>

definition vec_add :: "client_addr \<Rightarrow> client_addr list \<Rightarrow> client_addr list" where
  "vec_add a v = (if a \<in> set v then v else insort a v)"

definition vec_remove :: "client_addr \<Rightarrow> client_addr list \<Rightarrow> client_addr list" where
  "vec_remove a v = filter (\<lambda>b. b \<noteq> a) v"

subsection \<open>HalClient\<close>

text \<open>\<open>Some\<close> is the result \<open>true\<close> with the merged options, \<open>None\<close> the result \<open>false\<close>.\<close>

definition mergeSubscribeOptions ::
  "SubscribeOptions \<Rightarrow> SubscribeOptions \<Rightarrow> SubscribeOptions option" where
  "mergeSubscribeOptions oldOpts newOpts =
     (let updatedRate = f32_max (so_sampleRate oldOpts) (so_sampleRate newOpts);
          updatedFlags = so_flags oldOpts OR so_flags newOpts;
          updated = f32_lt (so_sampleRate oldOpts) updatedRate \<or> updatedFlags \<noteq> so_flags oldOpts
      in if updated
         then Some (oldOpts\<lparr>so_sampleRate := updatedRate, so_flags := updatedFlags\<rparr>)
         else None)"

definition HalClient_addOrUpdateSubscription :: "SubscribeOptions \<Rightarrow> HalClient \<Rightarrow> HalClient" where
  "HalClient_addOrUpdateSubscription opts c =
     (case map_of (hc_subscriptions c) (so_propId opts) of
        None \<Rightarrow> c\<lparr>hc_subscriptions := map_emplace (so_propId opts) opts (hc_subscriptions c)\<rparr>
      | Some oldOpts \<Rightarrow>
          (case mergeSubscribeOptions oldOpts opts of
             None \<Rightarrow> c
           | Some updatedOptions \<Rightarrow>
               c\<lparr>hc_subscriptions := map_emplace (so_propId opts) updatedOptions
                    (map_erase (so_propId opts) (hc_subscriptions c))\<rparr>))"

definition isSubscribed :: "i32 \<Rightarrow> i32 \<Rightarrow> HalClient \<Rightarrow> bool" where
  "isSubscribed propId flags c =
     (case map_of (hc_subscriptions c) propId of
        None \<Rightarrow> False
      | Some opts \<Rightarrow> (so_flags opts AND flags) \<noteq> 0)"

definition getSubscribedProperties :: "HalClient \<Rightarrow> i32 list" where
  "getSubscribedProperties c = map fst (hc_subscriptions c)"

subsection \<open>SubscriptionManager\<close>

definition getClientsForPropertyLocked :: "i32 \<Rightarrow> SubscriptionManager \<Rightarrow> client_addr list option" where
  "getClientsForPropertyLocked propId s = map_of (sm_propToClients s) propId"

definition client_isSubscribed :: "SubscriptionManager \<Rightarrow> i32 \<Rightarrow> i32 \<Rightarrow> client_addr \<Rightarrow> bool" where
  "client_isSubscribed s propId flags a =
     (case map_of (sm_heap s) a of None \<Rightarrow> False | Some c \<Rightarrow> isSubscribed propId flags c)"

definition getSubscribedClientsLocked ::
  "i32 \<Rightarrow> i32 \<Rightarrow> SubscriptionManager \<Rightarrow> client_addr list" where
  "getSubscribedClientsLocked propId flags s =
     (case getClientsForPropertyLocked propId s of
        None \<Rightarrow> []
      | Some propClients \<Rightarrow> filter (client_isSubscribed s propId flags) propClients)"

definition getSubscribedClients :: "i32 \<Rightarrow> i32 \<Rightarrow> SubscriptionManager \<Rightarrow> client_addr list" where
  "getSubscribedClients propId flags s = getSubscribedClientsLocked propId flags s"

definition addClientToPropMapLocked ::
  "i32 \<Rightarrow> client_addr \<Rightarrow> SubscriptionManager \<Rightarrow> SubscriptionManager" where
  "addClientToPropMapLocked propId client s =
     (let propClients = (case map_of (sm_propToClients s) propId of None \<Rightarrow> [] | Some v \<Rightarrow> v)
      in s\<lparr>sm_propToClients := map_put propId (vec_add client propClients) (sm_propToClients s)\<rparr>)"

definition updateHalEventSubscriptionLocked ::
  "SubscribeOptions \<Rightarrow> SubscriptionManager \<Rightarrow> SubscribeOptions option \<times> SubscriptionManager" where
  "updateHalEventSubscriptionLocked opts s =
     (case map_of (sm_halEventSubscribeOptions s) (so_propId opts) of
        None \<Rightarrow>
          (Some opts, s\<lparr>sm_halEventSubscribeOptions :=
             map_emplace (so_propId opts) opts (sm_halEventSubscribeOptions s)\<rparr>)
      | Some oldOpts \<Rightarrow>
          (case mergeSubscribeOptions oldOpts opts of
             None \<Rightarrow> (None, s)
           | Some outUpdated \<Rightarrow>
               (Some outUpdated, s\<lparr>sm_halEventSubscribeOptions :=
                  map_emplace (so_propId opts) outUpdated
                    (map_erase (so_propId opts) (sm_halEventSubscribeOptions s))\<rparr>)))"

definition getOrCreateHalClientLocked ::
  "ClientId \<Rightarrow> callback \<Rightarrow> bool \<Rightarrow> SubscriptionManager \<Rightarrow> client_addr option \<times> SubscriptionManager" where
  "getOrCreateHalClientLocked clientId cb linkOk s =
     (case map_of (sm_clients s) clientId of
        None \<Rightarrow>
          (if \<not> linkOk then (None, s)
           else
             let client = new_addr s in
             (Some client,
              s\<lparr>sm_heap := map_put client \<lparr>hc_callback = cb, hc_subscriptions = []\<rparr> (sm_heap s),
                sm_clients := map_emplace clientId client (sm_clients s)\<rparr>))
      | Some client \<Rightarrow> (Some client, s))"

text \<open>One turn of the loop over \<open>optionList\<close>, and the loop.\<close>

definition subscribe_one ::
  "client_addr \<Rightarrow> SubscribeOptions \<Rightarrow> SubscriptionManager \<Rightarrow> SubscribeOptions list \<times> SubscriptionManager" where
  "subscribe_one client opts s =
     (let s1 = (case map_of (sm_heap s) client of
                  None \<Rightarrow> s
                | Some c \<Rightarrow> s\<lparr>sm_heap := map_put client (HalClient_addOrUpdateSubscription opts c) (sm_heap s)\<rparr>);
          s2 = addClientToPropMapLocked (so_propId opts) client s1
      in if EVENTS_FROM_CAR AND so_flags opts \<noteq> 0
         then (case updateHalEventSubscriptionLocked opts s2 of
                 (None, s3) \<Rightarrow> ([], s3)
               | (Some updated, s3) \<Rightarrow> ([updated], s3))
         else ([], s2))"

fun subscribe_loop ::
  "client_addr \<Rightarrow> SubscribeOptions list \<Rightarrow> SubscriptionManager \<Rightarrow> SubscribeOptions list \<times> SubscriptionManager" where
  "subscribe_loop client [] s = ([], s)"
| "subscribe_loop client (opts # optionList) s =
     (let (out1, s1) = subscribe_one client opts s;
          (out2, s2) = subscribe_loop client optionList s1
      in (out1 @ out2, s2))"

definition addOrUpdateSubscription ::
  "ClientId \<Rightarrow> callback \<Rightarrow> bool \<Rightarrow> SubscribeOptions list \<Rightarrow> SubscriptionManager \<Rightarrow>
   StatusCode \<times> SubscribeOptions list \<times> SubscriptionManager" where
  "addOrUpdateSubscription clientId cb linkOk optionList s =
     (case getOrCreateHalClientLocked clientId cb linkOk s of
        (None, s1) \<Rightarrow> (INTERNAL_ERROR, [], s1)
      | (Some client, s1) \<Rightarrow> (let (out, s2) = subscribe_loop client optionList s1 in (OK, out, s2)))"

text \<open>\<open>clientValuesMap[client].push_back(v)\<close>, inside the two nested loops.\<close>

definition push_value ::
  "VehiclePropValue \<Rightarrow> client_addr \<Rightarrow> (client_addr, VehiclePropValue list) std_map \<Rightarrow>
   (client_addr, VehiclePropValue list) std_map" where
  "push_value v client m =
     map_put client ((case map_of m client of None \<Rightarrow> [] | Some vs \<Rightarrow> vs) @ [v]) m"

definition distributeValuesToClients ::
  "VehiclePropValue list \<Rightarrow> i32 \<Rightarrow> SubscriptionManager \<Rightarrow> (client_addr \<times> VehiclePropValue list) list" where
  "distributeValuesToClients propValues flags s =
     fold (\<lambda>v m. fold (push_value v) (getSubscribedClientsLocked (pv_prop v) flags s) m) propValues []"

definition unsubscribe ::
  "ClientId \<Rightarrow> i32 \<Rightarrow> SubscriptionManager \<Rightarrow> i32 list \<times> SubscriptionManager" where
  "unsubscribe clientId propId s =
     (let propertyClients = getClientsForPropertyLocked propId s;
          (propertyClients', s') =
            (case map_of (sm_clients s) clientId of
               None \<Rightarrow> (propertyClients, s)
             | Some client \<Rightarrow>
                 let (pc, s1) =
                       (case propertyClients of
                          None \<Rightarrow> (None, s)
                        | Some v \<Rightarrow>
                            let v' = vec_remove client v in
                            (Some v',
                             if v' = []
                             then s\<lparr>sm_propToClients := map_erase propId (sm_propToClients s)\<rparr>
                             else s\<lparr>sm_propToClients := map_put propId v' (sm_propToClients s)\<rparr>));
                     isClientSubscribedToOtherProps =
                       list_ex (\<lambda>propClient. client \<in> set (snd propClient)) (sm_propToClients s1)
                 in (pc, if isClientSubscribedToOtherProps then s1
                         else s1\<lparr>sm_clients := map_erase clientId (sm_clients s1)\<rparr>))
      in if propertyClients' = None \<or> propertyClients' = Some []
         then ([propId], s'\<lparr>sm_halEventSubscribeOptions :=
                             map_erase propId (sm_halEventSubscribeOptions s')\<rparr>)
         else ([], s'))"

fun unsubscribe_all ::
  "ClientId \<Rightarrow> i32 list \<Rightarrow> SubscriptionManager \<Rightarrow> i32 list \<times> SubscriptionManager" where
  "unsubscribe_all clientId [] s = ([], s)"
| "unsubscribe_all clientId (propId # props) s =
     (let (n1, s1) = unsubscribe clientId propId s;
          (n2, s2) = unsubscribe_all clientId props s1
      in (n1 @ n2, s2))"

definition onCallbackDead :: "ClientId \<Rightarrow> SubscriptionManager \<Rightarrow> i32 list \<times> SubscriptionManager" where
  "onCallbackDead cookie s =
     (case map_of (sm_clients s) cookie of
        None \<Rightarrow> ([], s)
      | Some client \<Rightarrow>
          unsubscribe_all cookie
            (case map_of (sm_heap s) client of None \<Rightarrow> [] | Some c \<Rightarrow> getSubscribedProperties c) s)"

subsection \<open>Merging of options\<close>

lemma mergeSubscribeOptions_Some:
  "mergeSubscribeOptions old new = Some u \<Longrightarrow>
   u = old\<lparr>so_sampleRate := f32_max (so_sampleRate old) (so_sampleRate new),
           so_flags := so_flags old OR so_flags new\<rparr>"
  by (auto simp: mergeSubscribeOptions_def Let_def split: if_splits)

lemma mergeSubscribeOptions_None:
  "mergeSubscribeOptions old new = None \<Longrightarrow>
   f32_max (so_sampleRate old) (so_sampleRate new) = so_sampleRate old \<and>
   so_flags old OR so_flags new = so_flags old"
  by (auto simp: mergeSubscribeOptions_def Let_def f32_max_def split: if_splits)

text \<open>Either way the options in force afterwards are the join of the two.\<close>

definition joined :: "SubscribeOptions \<Rightarrow> SubscribeOptions \<Rightarrow> SubscribeOptions" where
  "joined old new = old\<lparr>so_sampleRate := f32_max (so_sampleRate old) (so_sampleRate new),
                       so_flags := so_flags old OR so_flags new\<rparr>"

lemma merge_joined:
  "(case mergeSubscribeOptions old new of None \<Rightarrow> old | Some u \<Rightarrow> u) = joined old new"
  using mergeSubscribeOptions_Some [of old new] mergeSubscribeOptions_None [of old new]
  by (auto simp: joined_def split: option.split)

definition client_inv :: "HalClient \<Rightarrow> bool" where
  "client_inv c \<longleftrightarrow> map_inv (hc_subscriptions c) \<and>
     (\<forall>p opts. map_of (hc_subscriptions c) p = Some opts \<longrightarrow> so_propId opts = p)"

lemma HalClient_subs [simp]:
  "map_of (hc_subscriptions (HalClient_addOrUpdateSubscription opts c)) =
     (map_of (hc_subscriptions c))(so_propId opts \<mapsto>
        (case map_of (hc_subscriptions c) (so_propId opts) of None \<Rightarrow> opts | Some old \<Rightarrow> joined old opts))"
  using merge_joined [of "the (map_of (hc_subscriptions c) (so_propId opts))" opts]
  by (auto simp: HalClient_addOrUpdateSubscription_def fun_eq_iff split: option.splits)

lemma client_inv_add: "client_inv c \<Longrightarrow> client_inv (HalClient_addOrUpdateSubscription opts c)"
  unfolding client_inv_def HalClient_subs
  by (auto simp: HalClient_addOrUpdateSubscription_def joined_def split: option.splits)

lemma AND_OR_nonzero: "(x :: int) AND f \<noteq> 0 \<Longrightarrow> (y OR x) AND f \<noteq> 0 \<and> (x OR y) AND f \<noteq> 0"
proof -
  assume "x AND f \<noteq> 0"
  then obtain n where "bit x n" "bit f n"
    by (metis bit_and_iff bit_eq_iff bit_0_eq bot_apply bot_bool_def)
  then have "bit ((y OR x) AND f) n" "bit ((x OR y) AND f) n"
    by (simp_all add: bit_and_iff bit_or_iff)
  then show ?thesis by (metis bit_0_eq bot_apply bot_bool_def)
qed

lemma isSubscribed_add:
  "so_flags opts AND flags \<noteq> 0 \<Longrightarrow> isSubscribed (so_propId opts) flags (HalClient_addOrUpdateSubscription opts c)"
  by (auto simp: isSubscribed_def joined_def AND_OR_nonzero split: option.split)

lemma isSubscribed_mono:
  "isSubscribed p flags c \<Longrightarrow> isSubscribed p flags (HalClient_addOrUpdateSubscription opts c)"
  by (auto simp: isSubscribed_def joined_def AND_OR_nonzero split: option.splits)

lemma isSubscribed_other:
  "p \<noteq> so_propId opts \<Longrightarrow> isSubscribed p flags (HalClient_addOrUpdateSubscription opts c) = isSubscribed p flags c"
  by (simp add: isSubscribed_def)

subsection \<open>Invariant\<close>

definition has_subscription :: "SubscriptionManager \<Rightarrow> client_addr \<Rightarrow> i32 \<Rightarrow> bool" where
  "has_subscription s a p \<longleftrightarrow>
     (\<exists>c. map_of (sm_heap s) a = Some c \<and> map_of (hc_subscriptions c) p \<noteq> None)"

definition heap_inv :: "SubscriptionManager \<Rightarrow> bool" where
  "heap_inv s \<longleftrightarrow> map_inv (sm_heap s) \<and> (\<forall>a c. map_of (sm_heap s) a = Some c \<longrightarrow> client_inv c)"

definition clients_inv :: "SubscriptionManager \<Rightarrow> bool" where
  "clients_inv s \<longleftrightarrow> map_inv (sm_clients s) \<and>
     (\<forall>c a. map_of (sm_clients s) c = Some a \<longrightarrow> map_of (sm_heap s) a \<noteq> None) \<and>
     (\<forall>c d a. map_of (sm_clients s) c = Some a \<longrightarrow> map_of (sm_clients s) d = Some a \<longrightarrow> c = d)"

definition props_inv :: "SubscriptionManager \<Rightarrow> bool" where
  "props_inv s \<longleftrightarrow> map_inv (sm_propToClients s) \<and>
     (\<forall>p v. map_of (sm_propToClients s) p = Some v \<longrightarrow>
        v \<noteq> [] \<and> distinct v \<and>
        (\<forall>a \<in> set v. (\<exists>c. map_of (sm_clients s) c = Some a) \<and> has_subscription s a p))"

definition hal_inv :: "SubscriptionManager \<Rightarrow> bool" where
  "hal_inv s \<longleftrightarrow> map_inv (sm_halEventSubscribeOptions s) \<and>
     (\<forall>p opts. map_of (sm_halEventSubscribeOptions s) p = Some opts \<longrightarrow>
        so_propId opts = p \<and> map_of (sm_propToClients s) p \<noteq> None)"

definition sub_inv :: "SubscriptionManager \<Rightarrow> bool" where
  "sub_inv s \<longleftrightarrow> heap_inv s \<and> clients_inv s \<and> props_inv s \<and> hal_inv s"

lemmas sub_inv_defs = sub_inv_def heap_inv_def clients_inv_def props_inv_def hal_inv_def

lemma sub_inv_empty [keeps_inv]: "sub_inv empty_subscriptions"
  by (simp add: sub_inv_defs empty_subscriptions_def)

lemma map_inv_last: "map_inv m \<Longrightarrow> p \<in> set m \<Longrightarrow> fst p \<le> fst (last m)"
proof (induction m)
  case (Cons q m)
  then show ?case
    by (cases "m = []") (auto dest: bspec [OF _ last_in_set] less_imp_le)
qed simp

lemma new_addr_fresh: "map_inv (sm_heap s) \<Longrightarrow> map_of (sm_heap s) (new_addr s) = None"
proof (rule ccontr)
  assume inv: "map_inv (sm_heap s)" and "map_of (sm_heap s) (new_addr s) \<noteq> None"
  then obtain c where "(new_addr s, c) \<in> set (sm_heap s)" by (auto dest: map_of_SomeD)
  with map_inv_last [OF inv this] show False by (auto simp: new_addr_def split: if_splits)
qed

lemma getOrCreate_existing:
  "map_of (sm_clients s) c = Some a \<Longrightarrow> getOrCreateHalClientLocked c cb lk s = (Some a, s)"
  by (simp add: getOrCreateHalClientLocked_def)

lemma sub_inv_getOrCreate:
  assumes "sub_inv s"
  shows "sub_inv (snd (getOrCreateHalClientLocked c cb lk s))"
proof (cases "map_of (sm_clients s) c = None \<and> lk")
  case True
  let ?a = "new_addr s"
  let ?t = "snd (getOrCreateHalClientLocked c cb lk s)"
  have fresh: "map_of (sm_heap s) ?a = None"
    using assms new_addr_fresh by (simp add: sub_inv_defs)
  have t: "?t = s\<lparr>sm_heap := map_put ?a \<lparr>hc_callback = cb, hc_subscriptions = []\<rparr> (sm_heap s),
                  sm_clients := map_put c ?a (sm_clients s)\<rparr>"
    using True by (simp add: getOrCreateHalClientLocked_def map_emplace_def Let_def)
  have "heap_inv ?t" using assms unfolding t by (simp add: sub_inv_defs client_inv_def)
  moreover have "clients_inv ?t"
  proof -
    have "map_of (sm_clients s) d \<noteq> Some ?a" for d
      using assms fresh unfolding sub_inv_def clients_inv_def by blast
    then show ?thesis using assms unfolding t by (auto simp: sub_inv_def clients_inv_def)
  qed
  moreover have "props_inv ?t"
  proof -
    have "has_subscription ?t a p = has_subscription s a p" if "has_subscription s a p" for a p
      using that fresh unfolding t by (auto simp: has_subscription_def)
    moreover have "\<exists>d. map_of (sm_clients ?t) d = Some a" if "map_of (sm_clients s) d = Some a" for a d
      using that True unfolding t by (auto intro: exI [of _ d])
    moreover have "sm_propToClients ?t = sm_propToClients s" unfolding t by simp
    ultimately show ?thesis using assms unfolding sub_inv_def props_inv_def by metis
  qed
  moreover have "hal_inv ?t" using assms unfolding t by (simp add: sub_inv_defs)
  ultimately show ?thesis by (simp add: sub_inv_def)
qed (use assms in \<open>auto simp: getOrCreateHalClientLocked_def split: option.split\<close>)

lemma getOrCreate_result:
  assumes "sub_inv s" "getOrCreateHalClientLocked c cb lk s = (Some a, t)"
  shows "map_of (sm_clients t) c = Some a \<and> map_of (sm_heap t) a \<noteq> None \<and>
         sm_propToClients t = sm_propToClients s \<and>
         sm_halEventSubscribeOptions t = sm_halEventSubscribeOptions s"
  using assms
  by (auto simp: getOrCreateHalClientLocked_def sub_inv_defs Let_def split: option.splits if_splits)


subsection \<open>Subscribing\<close>

lemma subscribe_one_parts:
  "sm_clients (snd (subscribe_one a opts s)) = sm_clients s"
  "sm_propToClients (snd (subscribe_one a opts s)) =
     map_put (so_propId opts)
       (vec_add a (case map_of (sm_propToClients s) (so_propId opts) of None \<Rightarrow> [] | Some v \<Rightarrow> v))
       (sm_propToClients s)"
  "map_of (sm_heap s) a = Some c \<Longrightarrow>
   sm_heap (snd (subscribe_one a opts s)) = map_put a (HalClient_addOrUpdateSubscription opts c) (sm_heap s)"
  by (auto simp: subscribe_one_def addClientToPropMapLocked_def updateHalEventSubscriptionLocked_def
      Let_def split: option.splits prod.splits)

lemma updateHal_options:
  "map_of (sm_halEventSubscribeOptions (snd (updateHalEventSubscriptionLocked opts s))) =
     (map_of (sm_halEventSubscribeOptions s))(so_propId opts \<mapsto>
       (case map_of (sm_halEventSubscribeOptions s) (so_propId opts) of
          None \<Rightarrow> opts | Some old \<Rightarrow> joined old opts))"
  using merge_joined [of "the (map_of (sm_halEventSubscribeOptions s) (so_propId opts))" opts]
  by (auto simp: updateHalEventSubscriptionLocked_def fun_eq_iff split: option.splits)

lemma subscribe_one_hal_options:
  "map_of (sm_halEventSubscribeOptions (snd (subscribe_one a opts s))) =
     (if EVENTS_FROM_CAR AND so_flags opts \<noteq> 0
      then (map_of (sm_halEventSubscribeOptions s))(so_propId opts \<mapsto>
             (case map_of (sm_halEventSubscribeOptions s) (so_propId opts) of
                None \<Rightarrow> opts | Some old \<Rightarrow> joined old opts))
      else map_of (sm_halEventSubscribeOptions s))"
proof -
  let ?m = "case map_of (sm_heap s) a of None \<Rightarrow> s
            | Some c \<Rightarrow> s\<lparr>sm_heap := map_put a (HalClient_addOrUpdateSubscription opts c) (sm_heap s)\<rparr>"
  let ?t = "addClientToPropMapLocked (so_propId opts) a ?m"
  have same: "sm_halEventSubscribeOptions ?t = sm_halEventSubscribeOptions s"
    by (simp add: addClientToPropMapLocked_def Let_def split: option.split)
  have "snd (subscribe_one a opts s) =
          (if EVENTS_FROM_CAR AND so_flags opts \<noteq> 0
           then snd (updateHalEventSubscriptionLocked opts ?t) else ?t)"
    by (simp add: subscribe_one_def Let_def split: prod.split option.split)
  then show ?thesis
    by (simp only: updateHal_options same if_distrib [of snd] split: if_split) simp
qed

lemma subscribe_one_hal_map_inv:
  "map_inv (sm_halEventSubscribeOptions s) \<Longrightarrow>
   map_inv (sm_halEventSubscribeOptions (snd (subscribe_one a opts s)))"
  by (auto simp: subscribe_one_def addClientToPropMapLocked_def updateHalEventSubscriptionLocked_def
      Let_def split: option.splits prod.splits)

lemma vec_add_set [simp]: "set (vec_add a v) = insert a (set v)"
  by (auto simp: vec_add_def set_insort_key)

lemma vec_add_distinct [simp]: "distinct v \<Longrightarrow> distinct (vec_add a v)"
  by (simp add: vec_add_def distinct_insort)

lemma vec_add_not_Nil [simp]: "vec_add a v \<noteq> []"
  using vec_add_set [of a v] by (metis empty_iff insert_iff list.set(1))

lemma vec_remove_set [simp]: "set (vec_remove a v) = set v - {a}"
  by (auto simp: vec_remove_def)

lemma vec_remove_distinct [simp]: "distinct v \<Longrightarrow> distinct (vec_remove a v)"
  by (simp add: vec_remove_def)

lemma has_subscription_add:
  assumes "map_of (sm_heap s) a = Some c"
  shows "has_subscription (snd (subscribe_one a opts s)) b p \<longleftrightarrow>
         has_subscription s b p \<or> b = a \<and> p = so_propId opts"
  using assms by (auto simp: has_subscription_def subscribe_one_parts(3) [OF assms])

lemma sub_inv_subscribe_one [keeps_inv]:
  assumes inv: "sub_inv s" and a: "map_of (sm_clients s) cl = Some a"
  shows "sub_inv (snd (subscribe_one a opts s))"
proof -
  let ?t = "snd (subscribe_one a opts s)"
  obtain c where c: "map_of (sm_heap s) a = Some c"
    using inv a unfolding sub_inv_def clients_inv_def by blast
  note parts = subscribe_one_parts(1,2) subscribe_one_parts(3) [OF c]
  have "heap_inv ?t"
    using inv c client_inv_add by (auto simp: sub_inv_def heap_inv_def parts)
  moreover have "clients_inv ?t"
    using inv by (auto simp: sub_inv_def clients_inv_def parts)
  moreover have "props_inv ?t"
    using inv a by (cases "map_of (sm_propToClients s) (so_propId opts)")
      (simp_all add: sub_inv_def props_inv_def parts has_subscription_add [OF c], blast, blast)
  moreover have "hal_inv ?t"
    using inv by (auto simp: sub_inv_def hal_inv_def parts subscribe_one_hal_options joined_def
        subscribe_one_hal_map_inv split: option.splits)
  ultimately show ?thesis by (simp add: sub_inv_def)
qed

lemma subscribe_loop_Cons [simp]:
  "snd (subscribe_loop a (opts # os) s) = snd (subscribe_loop a os (snd (subscribe_one a opts s)))"
  "fst (subscribe_loop a (opts # os) s) =
     fst (subscribe_one a opts s) @ fst (subscribe_loop a os (snd (subscribe_one a opts s)))"
  by (simp_all add: Let_def split: prod.split)

lemma subscribe_loop_clients [simp]:
  "sm_clients (snd (subscribe_loop a os s)) = sm_clients s"
  by (induction os arbitrary: s) (simp_all add: subscribe_one_parts del: subscribe_loop.simps(2))

lemma sub_inv_subscribe_loop [keeps_inv]:
  "sub_inv s \<Longrightarrow> map_of (sm_clients s) cl = Some a \<Longrightarrow> sub_inv (snd (subscribe_loop a os s))"
  by (induction os arbitrary: s)
    (simp_all add: subscribe_one_parts sub_inv_subscribe_one del: subscribe_loop.simps(2))

lemma addOrUpdate_unfold:
  "addOrUpdateSubscription cl cb lk os s = (st, out, t) \<Longrightarrow>
   (st = INTERNAL_ERROR \<and> out = [] \<and> t = s \<and> \<not> lk \<and> map_of (sm_clients s) cl = None) \<or>
   (\<exists>a s1. getOrCreateHalClientLocked cl cb lk s = (Some a, s1) \<and> st = OK \<and>
      (out, t) = subscribe_loop a os s1)"
  by (auto simp: addOrUpdateSubscription_def getOrCreateHalClientLocked_def Let_def
      split: option.splits prod.splits if_splits)

lemma sub_inv_addOrUpdate [keeps_inv]:
  assumes "sub_inv s"
  shows "sub_inv (snd (snd (addOrUpdateSubscription cl cb lk os s)))"
proof -
  obtain st out t where r: "addOrUpdateSubscription cl cb lk os s = (st, out, t)"
    by (metis prod.exhaust)
  show ?thesis
    using addOrUpdate_unfold [OF r]
  proof (elim disjE exE conjE)
    fix a s1
    assume g: "getOrCreateHalClientLocked cl cb lk s = (Some a, s1)"
      and l: "(out, t) = subscribe_loop a os s1"
    have "sub_inv s1" using sub_inv_getOrCreate [OF assms, of cl cb lk] g by simp
    moreover have "map_of (sm_clients s1) cl = Some a"
      using getOrCreate_result [OF assms g] by simp
    ultimately have "sub_inv (snd (subscribe_loop a os s1))" by (rule sub_inv_subscribe_loop)
    then show ?thesis using l r by (metis snd_conv)
  qed (use assms r in simp)
qed

text \<open>Being subscribed with a flag, for the client at an address.\<close>

definition listens :: "SubscriptionManager \<Rightarrow> client_addr \<Rightarrow> i32 \<Rightarrow> i32 \<Rightarrow> bool" where
  "listens s a p flags \<longleftrightarrow> a \<in> set (getSubscribedClients p flags s)"

definition clients_of :: "SubscriptionManager \<Rightarrow> i32 \<Rightarrow> client_addr set" where
  "clients_of s p = (case map_of (sm_propToClients s) p of None \<Rightarrow> {} | Some v \<Rightarrow> set v)"

lemma listens_alt:
  "listens s a p flags \<longleftrightarrow>
     a \<in> clients_of s p \<and> (\<exists>c. map_of (sm_heap s) a = Some c \<and> isSubscribed p flags c)"
  by (auto simp: listens_def getSubscribedClients_def getSubscribedClientsLocked_def clients_of_def
      getClientsForPropertyLocked_def client_isSubscribed_def split: option.splits)

lemma clients_of_subscribe_one:
  "clients_of (snd (subscribe_one a opts s)) p =
     (if p = so_propId opts then insert a (clients_of s p) else clients_of s p)"
  by (simp add: clients_of_def subscribe_one_parts split: option.split)

lemma listens_subscribe_one:
  assumes c: "map_of (sm_heap s) a = Some c" and f: "so_flags opts AND flags \<noteq> 0"
  shows "listens (snd (subscribe_one a opts s)) a (so_propId opts) flags"
  using isSubscribed_add [OF f]
  by (simp add: listens_alt clients_of_subscribe_one subscribe_one_parts(3) [OF c])

lemma listens_mono:
  assumes c: "map_of (sm_heap s) a = Some c" and l: "listens s b p flags"
  shows "listens (snd (subscribe_one a opts s)) b p flags"
  using l isSubscribed_mono [of p flags c opts] c
  by (auto simp: listens_alt clients_of_subscribe_one subscribe_one_parts(3) [OF c])

lemma subscribe_loop_heap:
  "map_of (sm_heap s) b \<noteq> None \<Longrightarrow> map_of (sm_heap (snd (subscribe_one a opts s))) b \<noteq> None"
  by (cases "map_of (sm_heap s) a")
    (auto simp: subscribe_one_def addClientToPropMapLocked_def updateHalEventSubscriptionLocked_def
      Let_def split: option.splits prod.splits)

lemma listens_loop_mono:
  "map_of (sm_heap s) a \<noteq> None \<Longrightarrow> listens s b p flags \<Longrightarrow>
   listens (snd (subscribe_loop a os s)) b p flags"
proof (induction os arbitrary: s)
  case (Cons opts os)
  then show ?case
    using listens_mono subscribe_loop_heap by (metis option.exhaust_sel subscribe_loop_Cons(1))
qed simp

lemma listens_subscribe_loop:
  "map_of (sm_heap s) a \<noteq> None \<Longrightarrow> opts \<in> set os \<Longrightarrow> so_flags opts AND flags \<noteq> 0 \<Longrightarrow>
   listens (snd (subscribe_loop a os s)) a (so_propId opts) flags"
proof (induction os arbitrary: s)
  case (Cons o' os)
  have h: "map_of (sm_heap (snd (subscribe_one a o' s))) a \<noteq> None"
    using Cons.prems(1) by (rule subscribe_loop_heap)
  show ?case
  proof (cases "opts = o'")
    case True
    then have "listens (snd (subscribe_one a o' s)) a (so_propId opts) flags"
      using Cons.prems listens_subscribe_one by (metis option.exhaust_sel)
    then show ?thesis using listens_loop_mono [OF h] by (simp del: subscribe_loop.simps)
  next
    case False
    then show ?thesis using Cons.IH [OF h] Cons.prems by (simp del: subscribe_loop.simps)
  qed
qed simp

subsection \<open>Unsubscribing\<close>

text \<open>\<open>unsubscribe\<close> on a known and on an unknown client, as equations on the parts of the state.\<close>

lemma unsubscribe_heap [simp]: "sm_heap (snd (unsubscribe cl p s)) = sm_heap s"
  by (auto simp: unsubscribe_def Let_def split: option.splits prod.splits if_splits)

lemma unsubscribe_props:
  "map_of (sm_propToClients (snd (unsubscribe cl p s))) q =
     (case map_of (sm_clients s) cl of
        None \<Rightarrow> map_of (sm_propToClients s) q
      | Some a \<Rightarrow>
          (if q = p then
             (case map_of (sm_propToClients s) p of
                None \<Rightarrow> None
              | Some v \<Rightarrow> if vec_remove a v = [] then None else Some (vec_remove a v))
           else map_of (sm_propToClients s) q))"
  by (auto simp: unsubscribe_def Let_def getClientsForPropertyLocked_def split: option.splits prod.splits if_splits)

lemma unsubscribe_map_invs:
  assumes "sub_inv s"
  shows "map_inv (sm_propToClients (snd (unsubscribe cl p s)))"
    and "map_inv (sm_clients (snd (unsubscribe cl p s)))"
    and "map_inv (sm_halEventSubscribeOptions (snd (unsubscribe cl p s)))"
  using assms
  by (auto simp: unsubscribe_def sub_inv_defs Let_def split: option.splits prod.splits if_splits)


lemma unsubscribe_clients_of:
  "clients_of (snd (unsubscribe cl p s)) q =
     (case map_of (sm_clients s) cl of
        None \<Rightarrow> clients_of s q
      | Some a \<Rightarrow> if q = p then clients_of s q - {a} else clients_of s q)"
  by (auto simp: clients_of_def unsubscribe_props vec_remove_def filter_empty_conv split: option.split)

text \<open>A client stays known exactly while some property still lists it.\<close>

lemma unsubscribe_clients:
  assumes inv: "sub_inv s" and a: "map_of (sm_clients s) cl = Some a"
  shows "map_of (sm_clients (snd (unsubscribe cl p s))) d =
     (if d = cl \<and> \<not> (\<exists>q. a \<in> clients_of (snd (unsubscribe cl p s)) q) then None
      else map_of (sm_clients s) d)"
proof -
  let ?t = "snd (unsubscribe cl p s)"
  have ex: "list_ex (\<lambda>pc. a \<in> set (snd pc)) m \<longleftrightarrow> (\<exists>q v. map_of m q = Some v \<and> a \<in> set v)"
    if "map_inv m" for m :: "(i32, client_addr list) std_map"
    using that map_of_mem [OF that] by (force simp: list_ex_iff dest: map_of_SomeD)
  have "map_inv (sm_propToClients ?t)" by (rule unsubscribe_map_invs(1) [OF inv])
  from ex [OF this] have "(\<exists>q. a \<in> clients_of ?t q) \<longleftrightarrow>
      list_ex (\<lambda>pc. a \<in> set (snd pc)) (sm_propToClients ?t)"
    by (auto simp: clients_of_def split: option.splits)
  then show ?thesis
    using a by (auto simp: unsubscribe_def Let_def split: option.splits prod.splits if_splits)
qed

lemma unsubscribe_unknown:
  "map_of (sm_clients s) cl = None \<Longrightarrow> sm_clients (snd (unsubscribe cl p s)) = sm_clients s"
  by (auto simp: unsubscribe_def Let_def split: option.splits prod.splits if_splits)

text \<open>The HAL is told to stop exactly when nobody is left, and then its options are forgotten.\<close>

lemma unsubscribe_notifies:
  assumes "sub_inv s"
  shows "fst (unsubscribe cl p s) = (if clients_of (snd (unsubscribe cl p s)) p = {} then [p] else [])"
    and "map_of (sm_halEventSubscribeOptions (snd (unsubscribe cl p s))) =
         (if clients_of (snd (unsubscribe cl p s)) p = {}
          then (map_of (sm_halEventSubscribeOptions s))(p := None)
          else map_of (sm_halEventSubscribeOptions s))"
proof -
  have ne: "map_of (sm_propToClients s) p = Some v \<Longrightarrow> v \<noteq> []" for v
    using assms unfolding sub_inv_def props_inv_def by blast
  show "fst (unsubscribe cl p s) = (if clients_of (snd (unsubscribe cl p s)) p = {} then [p] else [])"
    using ne unfolding unsubscribe_clients_of
    by (auto simp: unsubscribe_def Let_def getClientsForPropertyLocked_def clients_of_def vec_remove_def
        filter_empty_conv split: option.splits prod.splits if_splits)
  show "map_of (sm_halEventSubscribeOptions (snd (unsubscribe cl p s))) =
         (if clients_of (snd (unsubscribe cl p s)) p = {}
          then (map_of (sm_halEventSubscribeOptions s))(p := None)
          else map_of (sm_halEventSubscribeOptions s))"
    using ne unfolding unsubscribe_clients_of
    by (auto simp: unsubscribe_def Let_def getClientsForPropertyLocked_def clients_of_def vec_remove_def
        filter_empty_conv split: option.splits prod.splits if_splits)
qed


lemma sub_inv_unsubscribe [keeps_inv]:
  assumes inv: "sub_inv s"
  shows "sub_inv (snd (unsubscribe cl p s))"
proof (cases "map_of (sm_clients s) cl")
  case None
  then have same: "sm_clients (snd (unsubscribe cl p s)) = sm_clients s"
      "\<And>q. map_of (sm_propToClients (snd (unsubscribe cl p s))) q = map_of (sm_propToClients s) q"
    by (simp_all add: unsubscribe_unknown unsubscribe_props)
  have "props_inv (snd (unsubscribe cl p s))"
    using inv by (simp add: sub_inv_def props_inv_def same unsubscribe_map_invs has_subscription_def)
  moreover have "hal_inv (snd (unsubscribe cl p s))"
    using inv unsubscribe_map_invs [OF inv]
    by (simp add: sub_inv_def hal_inv_def same unsubscribe_notifies(2) [OF inv])
  ultimately show ?thesis
    using inv by (simp add: sub_inv_def heap_inv_def clients_inv_def same)
next
  case (Some a)
  let ?t = "snd (unsubscribe cl p s)"
  have cls: "map_of (sm_clients ?t) d = Some b \<Longrightarrow> map_of (sm_clients s) d = Some b" for d b
    using unsubscribe_clients [OF inv Some, where p = p and d = d] by (simp split: if_splits)
  have "clients_inv ?t"
    using inv cls unsubscribe_map_invs(2) [OF inv]
    unfolding sub_inv_def clients_inv_def unsubscribe_heap by blast
  moreover have "props_inv ?t"
    unfolding props_inv_def
  proof (intro conjI allI impI ballI)
    show "map_inv (sm_propToClients ?t)" by (rule unsubscribe_map_invs(1) [OF inv])
    fix q v assume v: "map_of (sm_propToClients ?t) q = Some v"
    then obtain w where w: "map_of (sm_propToClients s) q = Some w" "set v \<subseteq> set w"
        "distinct w \<Longrightarrow> distinct v" "w \<noteq> [] \<Longrightarrow> v \<noteq> []"
      using Some by (auto simp: unsubscribe_props split: option.splits if_splits)
    show "v \<noteq> []" "distinct v" using w inv unfolding sub_inv_def props_inv_def by blast+
    fix b assume b: "b \<in> set v"
    show "has_subscription ?t b q"
      using w b inv unfolding sub_inv_def props_inv_def has_subscription_def unsubscribe_heap by blast
    obtain d where d: "map_of (sm_clients s) d = Some b"
      using w b inv unfolding sub_inv_def props_inv_def by blast
    have "b \<in> clients_of ?t q" using v b by (simp add: clients_of_def)
    then have "map_of (sm_clients ?t) d = Some b"
      using d Some unsubscribe_clients [OF inv Some, where p = p and d = d] by auto
    then show "\<exists>d. map_of (sm_clients ?t) d = Some b" ..
  qed
  moreover have "hal_inv ?t"
  proof -
    have "map_of (sm_propToClients ?t) q \<noteq> None"
      if "map_of (sm_propToClients s) q \<noteq> None" "q = p \<longrightarrow> clients_of ?t p \<noteq> {}" for q
      using that Some by (auto simp: clients_of_def unsubscribe_props split: option.splits if_splits)
    moreover have "map_of (sm_halEventSubscribeOptions s) q = Some opts \<and> (q = p \<longrightarrow> clients_of ?t p \<noteq> {})"
      if "map_of (sm_halEventSubscribeOptions ?t) q = Some opts" for q opts
      using that by (auto simp: unsubscribe_notifies(2) [OF inv] split: if_splits)
    ultimately show ?thesis
      using inv unsubscribe_map_invs(3) [OF inv] unfolding sub_inv_def hal_inv_def by blast
  qed
  ultimately show ?thesis using inv by (simp add: sub_inv_def heap_inv_def)
qed

lemma unsubscribe_all_Cons [simp]:
  "snd (unsubscribe_all cl (p # ps) s) = snd (unsubscribe_all cl ps (snd (unsubscribe cl p s)))"
  "fst (unsubscribe_all cl (p # ps) s) =
     fst (unsubscribe cl p s) @ fst (unsubscribe_all cl ps (snd (unsubscribe cl p s)))"
  by (simp_all add: Let_def split: prod.split)

declare unsubscribe_all.simps(2) [simp del] subscribe_loop.simps(2) [simp del]

lemma sub_inv_unsubscribe_all [keeps_inv]: "sub_inv s \<Longrightarrow> sub_inv (snd (unsubscribe_all cl ps s))"
  by (induction ps arbitrary: s) (simp_all add: sub_inv_unsubscribe)

lemma sub_inv_onCallbackDead [keeps_inv]: "sub_inv s \<Longrightarrow> sub_inv (snd (onCallbackDead cl s))"
  by (simp add: onCallbackDead_def sub_inv_unsubscribe_all split: option.split)


subsection \<open>Distribution of values\<close>

lemma fold_push:
  "distinct as \<Longrightarrow>
   map_of (fold (push_value v) as m) a =
     (if a \<in> set as then Some ((case map_of m a of None \<Rightarrow> [] | Some vs \<Rightarrow> vs) @ [v]) else map_of m a)"
  by (induction as arbitrary: m) (auto simp: push_value_def)

lemma getSubscribedClients_distinct:
  "sub_inv s \<Longrightarrow> distinct (getSubscribedClientsLocked p flags s)"
  unfolding sub_inv_def props_inv_def
  by (auto simp: getSubscribedClientsLocked_def getClientsForPropertyLocked_def split: option.split)

lemma distribute_fold:
  assumes "sub_inv s"
  shows "map_of (fold (\<lambda>v m. fold (push_value v) (getSubscribedClientsLocked (pv_prop v) flags s) m) vs m) a =
    (let ws = filter (\<lambda>v. listens s a (pv_prop v) flags) vs
     in if ws = [] then map_of m a
        else Some ((case map_of m a of None \<Rightarrow> [] | Some us \<Rightarrow> us) @ ws))"
  using getSubscribedClients_distinct [OF assms]
  by (induction vs arbitrary: m)
    (auto simp: Let_def fold_push listens_def getSubscribedClients_def split: option.split)

subsection \<open>Death of a client\<close>

lemma listed_has_subscription:
  "sub_inv s \<Longrightarrow> a \<in> clients_of s p \<Longrightarrow> has_subscription s a p"
  unfolding sub_inv_def props_inv_def by (auto simp: clients_of_def split: option.splits)

lemma unsubscribe_all_other:
  assumes "sub_inv s" "map_of (sm_clients s) cl = Some a" "b \<noteq> a"
  shows "b \<in> clients_of (snd (unsubscribe_all cl ps s)) q \<longleftrightarrow> b \<in> clients_of s q"
proof -
  have "b \<in> clients_of (snd (unsubscribe_all cl ps t)) q \<longleftrightarrow> b \<in> clients_of t q"
    if "sub_inv t" "map_of (sm_clients t) cl = Some a \<or> map_of (sm_clients t) cl = None" for t
    using that
  proof (induction ps arbitrary: t)
    case (Cons p ps)
    let ?u = "snd (unsubscribe cl p t)"
    have "map_of (sm_clients ?u) cl = Some a \<or> map_of (sm_clients ?u) cl = None"
      using Cons.prems(2)
      by (elim disjE) (simp_all add: unsubscribe_clients [OF Cons.prems(1)] unsubscribe_unknown)
    moreover have "b \<in> clients_of ?u q \<longleftrightarrow> b \<in> clients_of t q"
      using Cons.prems(2) assms(3) by (auto simp: unsubscribe_clients_of split: if_splits)
    ultimately show ?case
      using Cons.IH [OF sub_inv_unsubscribe [OF Cons.prems(1)]] by simp
  qed simp
  then show ?thesis using assms by blast
qed

lemma unsubscribe_all_gone:
  assumes "sub_inv s" "ps \<noteq> []" "map_of (sm_clients s) cl = Some a"
    and "\<And>q. a \<in> clients_of s q \<Longrightarrow> q \<in> set ps"
  shows "map_of (sm_clients (snd (unsubscribe_all cl ps s))) cl = None \<and>
         (\<forall>q. a \<notin> clients_of (snd (unsubscribe_all cl ps s)) q)"
  using assms
proof (induction ps arbitrary: s)
  case (Cons p ps)
  let ?u = "snd (unsubscribe cl p s)"
  note inv = sub_inv_unsubscribe [OF Cons.prems(1), where cl = cl and p = p]
  have here: "a \<in> clients_of ?u q \<longleftrightarrow> a \<in> clients_of s q \<and> q \<noteq> p" for q
    using Cons.prems(3) by (simp add: unsubscribe_clients_of)
  show ?case
  proof (cases "\<exists>q. a \<in> clients_of ?u q")
    case True
    then have "map_of (sm_clients ?u) cl = Some a"
      using Cons.prems unsubscribe_clients [OF Cons.prems(1,3), where p = p and d = cl] by simp
    moreover have "ps \<noteq> []" using True here Cons.prems(4) by fastforce
    moreover have "q \<in> set ps" if "a \<in> clients_of ?u q" for q
      using that here Cons.prems(4) by fastforce
    ultimately show ?thesis using Cons.IH [OF inv] by simp
  next
    case False
    then have gone: "map_of (sm_clients ?u) cl = None"
      using unsubscribe_clients [OF Cons.prems(1,3), where p = p and d = cl] by simp
    have "map_of (sm_clients (snd (unsubscribe_all cl ps t))) cl = None \<and>
          (\<forall>q. clients_of (snd (unsubscribe_all cl ps t)) q = clients_of t q)"
      if "map_of (sm_clients t) cl = None" for t
      using that by (induction ps arbitrary: t) (simp_all add: unsubscribe_unknown unsubscribe_clients_of)
    from this [OF gone] False show ?thesis by simp
  qed
qed simp

subsection \<open>Runs\<close>

datatype sub_op =
    Subscribe ClientId callback bool "SubscribeOptions list"
  | Unsubscribe ClientId i32
  | CallbackDead ClientId

fun sub_exec :: "sub_op \<Rightarrow> SubscriptionManager \<Rightarrow> SubscriptionManager" where
  "sub_exec (Subscribe cl cb lk os) s = snd (snd (addOrUpdateSubscription cl cb lk os s))"
| "sub_exec (Unsubscribe cl p) s = snd (unsubscribe cl p s)"
| "sub_exec (CallbackDead cl) s = snd (onCallbackDead cl s)"

interpretation subs: op_system sub_inv sub_exec
proof
  show "sub_inv s \<Longrightarrow> sub_inv (sub_exec op s)" for s op
    by (cases op) (simp_all add: keeps_inv)
qed

definition sub_run :: "sub_op list \<Rightarrow> SubscriptionManager" where
  "sub_run ops = fold sub_exec ops empty_subscriptions"

lemma sub_run_inv: "sub_inv (sub_run ops)"
  unfolding sub_run_def by (rule subs.run_inv [OF sub_inv_empty])


subsection \<open>What the HAL is asked for\<close>

definition covers :: "SubscribeOptions \<Rightarrow> SubscribeOptions \<Rightarrow> bool" where
  "covers h opts \<longleftrightarrow> so_flags h OR so_flags opts = so_flags h \<and>
                    \<not> f32_lt (so_sampleRate h) (so_sampleRate opts)"

lemma covers_refl [simp]: "covers h h"
  by (simp add: covers_def)

lemma covers_joined [simp]: "covers (joined h opts) opts"
  by (auto simp: covers_def joined_def or.assoc f32_max_def)

lemma covers_joined_mono: "covers h opts \<Longrightarrow> covers (joined h new) opts"
proof -
  assume c: "covers h opts"
  have "(so_flags h OR so_flags new) OR so_flags opts = (so_flags h OR so_flags opts) OR so_flags new"
    by (simp add: or.assoc or.commute [of "so_flags opts"])
  with c show ?thesis
    by (auto simp: covers_def joined_def f32_max_def dest: f32_lt_trans)
qed

definition hal_covers :: "SubscriptionManager \<Rightarrow> SubscribeOptions \<Rightarrow> bool" where
  "hal_covers s opts \<longleftrightarrow>
     (\<exists>h. map_of (sm_halEventSubscribeOptions s) (so_propId opts) = Some h \<and> covers h opts)"

lemma hal_covers_loop_mono: "hal_covers s opts \<Longrightarrow> hal_covers (snd (subscribe_loop a os s)) opts"
proof (induction os arbitrary: s)
  case (Cons o' os)
  have "hal_covers (snd (subscribe_one a o' s)) opts"
    using Cons.prems covers_joined_mono by (auto simp: hal_covers_def subscribe_one_hal_options)
  then show ?case by (simp add: Cons.IH)
qed simp

lemma hal_covers_loop:
  "opts \<in> set os \<Longrightarrow> EVENTS_FROM_CAR AND so_flags opts \<noteq> 0 \<Longrightarrow>
   hal_covers (snd (subscribe_loop a os s)) opts"
proof (induction os arbitrary: s)
  case (Cons o' os)
  have "hal_covers (snd (subscribe_one a o' s)) opts" if "opts = o'"
    using Cons.prems that by (auto simp: hal_covers_def subscribe_one_hal_options split: option.split)
  then show ?case using Cons hal_covers_loop_mono by auto
qed simp

lemma updateHal_reports:
  assumes "hal_inv s"
  shows "case fst (updateHalEventSubscriptionLocked opts s) of
     None \<Rightarrow> snd (updateHalEventSubscriptionLocked opts s) = s
   | Some u \<Rightarrow> so_propId u = so_propId opts \<and>
       map_of (sm_halEventSubscribeOptions (snd (updateHalEventSubscriptionLocked opts s))) =
         (map_of (sm_halEventSubscribeOptions s))(so_propId u \<mapsto> u)"
  using assms unfolding hal_inv_def
  by (auto simp: updateHalEventSubscriptionLocked_def split: option.split dest!: mergeSubscribeOptions_Some)

lemma subscribe_one_reports:
  assumes "sub_inv s"
  shows "map_of (sm_halEventSubscribeOptions (snd (subscribe_one a opts s))) =
     map_of (sm_halEventSubscribeOptions s) ++
       map_of (map (\<lambda>u. (so_propId u, u)) (rev (fst (subscribe_one a opts s))))"
    and "\<forall>u \<in> set (fst (subscribe_one a opts s)). so_propId u = so_propId opts \<and> EVENTS_FROM_CAR AND so_flags opts \<noteq> 0 \<and>
           map_of (sm_halEventSubscribeOptions (snd (subscribe_one a opts s))) (so_propId u) = Some u"
proof -
  define t where "t = addClientToPropMapLocked (so_propId opts) a
     (case map_of (sm_heap s) a of None \<Rightarrow> s
      | Some c \<Rightarrow> s\<lparr>sm_heap := map_put a (HalClient_addOrUpdateSubscription opts c) (sm_heap s)\<rparr>)"
  have same: "sm_halEventSubscribeOptions t = sm_halEventSubscribeOptions s"
    by (simp add: t_def addClientToPropMapLocked_def Let_def split: option.split)
  have "hal_inv t"
    using assms same
    by (auto simp: sub_inv_def hal_inv_def t_def addClientToPropMapLocked_def Let_def split: option.splits)
  note r = updateHal_reports [OF this, of opts]
  have one: "subscribe_one a opts s =
      (if EVENTS_FROM_CAR AND so_flags opts \<noteq> 0
       then (case updateHalEventSubscriptionLocked opts t of
               (None, s3) \<Rightarrow> ([], s3) | (Some updated, s3) \<Rightarrow> ([updated], s3))
       else ([], t))"
    by (simp add: subscribe_one_def t_def Let_def)
  show "map_of (sm_halEventSubscribeOptions (snd (subscribe_one a opts s))) =
     map_of (sm_halEventSubscribeOptions s) ++
       map_of (map (\<lambda>u. (so_propId u, u)) (rev (fst (subscribe_one a opts s))))"
    using r by (auto simp: one same split: option.splits prod.splits)
  show "\<forall>u \<in> set (fst (subscribe_one a opts s)). so_propId u = so_propId opts \<and> EVENTS_FROM_CAR AND so_flags opts \<noteq> 0 \<and>
      map_of (sm_halEventSubscribeOptions (snd (subscribe_one a opts s))) (so_propId u) = Some u"
    using r by (auto simp: one split: option.splits prod.splits)
qed

lemma subscribe_loop_reports:
  "sub_inv s \<Longrightarrow> map_of (sm_clients s) cl = Some a \<Longrightarrow>
   map_of (sm_halEventSubscribeOptions (snd (subscribe_loop a os s))) =
     map_of (sm_halEventSubscribeOptions s) ++
       map_of (map (\<lambda>u. (so_propId u, u)) (rev (fst (subscribe_loop a os s))))"
  by (induction os arbitrary: s)
    (simp_all add: sub_inv_subscribe_one subscribe_one_parts(1) subscribe_one_reports(1))

text \<open>
  A predicate on (property, rate) that all requested car subscriptions satisfy holds of everything the
  HAL is asked for: a merged rate is one of the two merged.
\<close>

definition hal_rates :: "(i32 \<Rightarrow> f32 \<Rightarrow> bool) \<Rightarrow> SubscriptionManager \<Rightarrow> bool" where
  "hal_rates P s \<longleftrightarrow>
     (\<forall>p h. map_of (sm_halEventSubscribeOptions s) p = Some h \<longrightarrow> P p (so_sampleRate h))"

lemma hal_rates_subscribe_one:
  assumes "hal_rates P s" "EVENTS_FROM_CAR AND so_flags opts \<noteq> 0 \<Longrightarrow> P (so_propId opts) (so_sampleRate opts)"
  shows "hal_rates P (snd (subscribe_one a opts s))"
  using assms by (auto simp: hal_rates_def subscribe_one_hal_options joined_def f32_max_def split: option.splits)

lemma subscribe_loop_rates:
  assumes "sub_inv s" "map_of (sm_clients s) cl = Some a" "hal_rates P s"
    and "\<And>opts. opts \<in> set os \<Longrightarrow> EVENTS_FROM_CAR AND so_flags opts \<noteq> 0 \<Longrightarrow> P (so_propId opts) (so_sampleRate opts)"
  shows "hal_rates P (snd (subscribe_loop a os s)) \<and>
    (\<forall>u \<in> set (fst (subscribe_loop a os s)). P (so_propId u) (so_sampleRate u))"
  using assms
proof (induction os arbitrary: s)
  case (Cons opts os)
  let ?t = "snd (subscribe_one a opts s)"
  have r: "hal_rates P ?t" using Cons.prems by (intro hal_rates_subscribe_one) auto
  have "P (so_propId u) (so_sampleRate u)" if "u \<in> set (fst (subscribe_one a opts s))" for u
    using subscribe_one_reports(2) [OF Cons.prems(1)] that r unfolding hal_rates_def by blast
  then show ?case
    using Cons.IH [of ?t] Cons.prems r by (auto simp: sub_inv_subscribe_one subscribe_one_parts(1))
qed simp

lemma unsubscribe_all_hal_options:
  "sub_inv s \<Longrightarrow>
   map_of (sm_halEventSubscribeOptions (snd (unsubscribe_all cl ps s))) =
     map_of (sm_halEventSubscribeOptions s) |` (- set (fst (unsubscribe_all cl ps s)))"
proof (induction ps arbitrary: s)
  case (Cons p ps)
  show ?case
    using Cons.IH [OF sub_inv_unsubscribe [OF Cons.prems]] unsubscribe_notifies [OF Cons.prems, of cl p]
    by (auto simp: restrict_map_def fun_eq_iff)
qed (simp add: restrict_map_def)

subsection \<open>Properties\<close>

text \<open>
  C2: after any sequence of subscriptions, unsubscriptions and client deaths, every client listed for
  a property is a known client that holds options for it, no vector is empty or holds a client twice,
  two client ids never share a HalClient, and the HAL is only asked for properties somebody lists.
\<close>

theorem subscriptions_stay_consistent:
  "sub_inv (sub_run ops) \<and>
   (\<forall>op. sub_inv (sub_exec op (sub_run ops)))"
  using sub_run_inv subs.exec_inv by blast

lemma subscribe_OK:
  assumes "sub_inv s" "addOrUpdateSubscription cl cb lk os s = (OK, out, t)"
  obtains a u where "sub_inv u" "map_of (sm_clients u) cl = Some a" "map_of (sm_heap u) a \<noteq> None"
    "(out, t) = subscribe_loop a os u"
    "\<And>b p f. listens u b p f \<longleftrightarrow> listens s b p f"
    "sm_halEventSubscribeOptions u = sm_halEventSubscribeOptions s"
proof -
  obtain a u where g: "getOrCreateHalClientLocked cl cb lk s = (Some a, u)"
      and l: "(out, t) = subscribe_loop a os u"
    using addOrUpdate_unfold [OF assms(2)] by auto
  note r = getOrCreate_result [OF assms(1) g]
  have "sub_inv u" using sub_inv_getOrCreate [OF assms(1), of cl cb lk] g by simp
  have h: "map_of (sm_heap s) b = Some c \<Longrightarrow> map_of (sm_heap u) b = Some c" for b c
    using g new_addr_fresh [of s] assms(1)
    by (auto simp: getOrCreateHalClientLocked_def Let_def sub_inv_def heap_inv_def split: option.splits if_splits)
  have c: "clients_of u p = clients_of s p" for p using r by (simp add: clients_of_def)
  have in_heap: "\<exists>c. map_of (sm_heap s) b = Some c" if "b \<in> clients_of s p" for b p
    using listed_has_subscription [OF assms(1) that] by (auto simp: has_subscription_def)
  have "listens u b p f \<longleftrightarrow> listens s b p f" for b p f
    unfolding listens_alt c using h in_heap [of b p] by (metis option.inject)
  with that \<open>sub_inv u\<close> r l show ?thesis by blast
qed

text \<open>A concrete subscription, for the instances below.\<close>

definition demo_opts :: SubscribeOptions where
  "demo_opts = \<lparr>so_propId = 5, so_sampleRate = 0, so_flags = 3\<rparr>"

definition demo_state :: SubscriptionManager where
  "demo_state = sub_exec (Subscribe 7 70 True [demo_opts]) empty_subscriptions"

lemma demo_subscribe:
  "addOrUpdateSubscription 7 70 True [demo_opts] empty_subscriptions = (OK, [demo_opts], demo_state)"
  by code_simp

lemma demo_inv: "sub_inv demo_state"
  using sub_run_inv [of "[Subscribe 7 70 True [demo_opts]]"] by (simp add: sub_run_def demo_state_def)

text \<open>
  C6: a successful subscription makes the client a receiver of every (property, flag) pair its options
  ask for, and takes nothing away from any client.
\<close>

theorem subscribe_delivers:
  assumes "sub_inv s" "addOrUpdateSubscription cl cb lk os s = (OK, out, t)"
  shows "\<exists>a. map_of (sm_clients t) cl = Some a \<and>
     (\<forall>opts \<in> set os. \<forall>flags. so_flags opts AND flags \<noteq> 0 \<longrightarrow>
        a \<in> set (getSubscribedClients (so_propId opts) flags t)) \<and>
     (\<forall>b p flags. b \<in> set (getSubscribedClients p flags s) \<longrightarrow> b \<in> set (getSubscribedClients p flags t))"
proof -
  obtain a u where u: "map_of (sm_clients u) cl = Some a" "map_of (sm_heap u) a \<noteq> None"
      "(out, t) = subscribe_loop a os u" "\<And>b p f. listens u b p f \<longleftrightarrow> listens s b p f"
    by (rule subscribe_OK [OF assms]) (rule that)
  have t: "t = snd (subscribe_loop a os u)" using u(3) by (metis snd_conv)
  show ?thesis
    unfolding listens_def [symmetric] t
    using u(1,4) listens_subscribe_loop [OF u(2)] listens_loop_mono [OF u(2)] by auto
qed

theorem subscribe_delivers_witness:
  "\<exists>a. map_of (sm_clients demo_state) 7 = Some a \<and> a \<in> set (getSubscribedClients 5 2 demo_state)"
  using subscribe_delivers [OF sub_inv_empty demo_subscribe] by (auto simp: demo_opts_def)

text \<open>
  the options held for the HAL cover every subscription to car events (all its flags, a rate not
  below the requested one), and they are what one obtains by replaying the updates the call reports
  over the options held before, the last update of a property winning.
\<close>

theorem subscribe_reports_to_hal:
  assumes "sub_inv s" "addOrUpdateSubscription cl cb lk os s = (OK, out, t)"
  shows "(\<forall>opts \<in> set os. EVENTS_FROM_CAR AND so_flags opts \<noteq> 0 \<longrightarrow> hal_covers t opts) \<and>
     (\<forall>opts. hal_covers s opts \<longrightarrow> hal_covers t opts) \<and>
     map_of (sm_halEventSubscribeOptions t) =
       map_of (sm_halEventSubscribeOptions s) ++ map_of (map (\<lambda>u. (so_propId u, u)) (rev out))"
proof -
  obtain a u where u: "sub_inv u" "map_of (sm_clients u) cl = Some a"
      "(out, t) = subscribe_loop a os u"
      "sm_halEventSubscribeOptions u = sm_halEventSubscribeOptions s"
    by (rule subscribe_OK [OF assms]) (rule that)
  have t: "t = snd (subscribe_loop a os u)" "out = fst (subscribe_loop a os u)"
    using u(3) by (metis snd_conv, metis fst_conv)
  have "hal_covers u opts \<longleftrightarrow> hal_covers s opts" for opts by (simp add: hal_covers_def u(4))
  then show ?thesis
    unfolding t using hal_covers_loop hal_covers_loop_mono subscribe_loop_reports [OF u(1,2)] u(4)
    by simp
qed

theorem subscribe_reports_to_hal_witness:
  "hal_covers demo_state demo_opts"
  using subscribe_reports_to_hal [OF sub_inv_empty demo_subscribe] by (simp add: demo_opts_def)

text \<open>
  \<open>unsubscribe\<close> stops every delivery of that property to that client, changes no other delivery,
  and tells the HAL to stop, forgetting the options it held, exactly when nobody is left on the property.
\<close>

theorem unsubscribe_stops:
  assumes "sub_inv s" "map_of (sm_clients s) cl = Some a" "unsubscribe cl p s = (notified, t)"
  shows "(\<forall>b q flags. b \<in> set (getSubscribedClients q flags t) \<longleftrightarrow>
            b \<in> set (getSubscribedClients q flags s) \<and> \<not> (b = a \<and> q = p)) \<and>
     notified = (if getClientsForPropertyLocked p t = None then [p] else []) \<and>
     map_of (sm_halEventSubscribeOptions t) =
       (if notified = [] then map_of (sm_halEventSubscribeOptions s)
        else (map_of (sm_halEventSubscribeOptions s))(p := None))"
proof -
  have t: "t = snd (unsubscribe cl p s)" "notified = fst (unsubscribe cl p s)"
    by (simp_all add: assms(3))
  have "map_of (sm_propToClients t) p \<noteq> Some []"
    using sub_inv_unsubscribe [OF assms(1), of cl p] unfolding t(1) sub_inv_def props_inv_def by blast
  then have "clients_of t p = {} \<longleftrightarrow> getClientsForPropertyLocked p t = None"
    by (auto simp: clients_of_def getClientsForPropertyLocked_def split: option.split)
  with unsubscribe_notifies [OF assms(1), of cl p]
  show ?thesis
    unfolding listens_def [symmetric] listens_alt
    by (auto simp: t unsubscribe_clients_of assms(2) split: if_splits)
qed

theorem unsubscribe_stops_witness:
  "7 \<in> dom (map_of (sm_clients demo_state)) \<and> getSubscribedClients 5 1 demo_state \<noteq> [] \<and>
   getSubscribedClients 5 1 (snd (unsubscribe 7 5 demo_state)) = [] \<and> fst (unsubscribe 7 5 demo_state) = [5]"
proof -
  have a: "map_of (sm_clients demo_state) 7 = Some 1" by code_simp
  have l: "getSubscribedClients 5 1 demo_state = [1]" by code_simp
  obtain n t where u: "unsubscribe 7 5 demo_state = (n, t)" by fastforce
  have "b \<notin> set (getSubscribedClients 5 1 t)" for b
    using unsubscribe_stops [OF demo_inv a u] l by auto
  then have "getSubscribedClients 5 1 t = []" by (metis neq_Nil_conv list.set_intros(1))
  moreover have "fst (unsubscribe 7 5 demo_state) = [5]" by code_simp
  ultimately show ?thesis using a l u by (simp add: dom_def)
qed

text \<open>
  when the callback of a subscribed client dies, the client is forgotten: no property lists it and
  its id is free again, while every other client is listed exactly where it was.
\<close>

theorem dead_client_forgotten:
  assumes "sub_inv s" "map_of (sm_clients s) cl = Some a" "map_of (sm_heap s) a = Some c"
    "hc_subscriptions c \<noteq> []"
  shows "map_of (sm_clients (snd (onCallbackDead cl s))) cl = None \<and>
     (\<forall>p v. getClientsForPropertyLocked p (snd (onCallbackDead cl s)) = Some v \<longrightarrow> a \<notin> set v) \<and>
     (\<forall>p b flags. b \<noteq> a \<longrightarrow> (b \<in> set (getSubscribedClients p flags (snd (onCallbackDead cl s))) \<longleftrightarrow>
                           b \<in> set (getSubscribedClients p flags s)))"
proof -
  let ?ps = "getSubscribedProperties c"
  have dead: "onCallbackDead cl s = unsubscribe_all cl ?ps s"
    by (simp add: onCallbackDead_def assms)
  have heap: "sm_heap (snd (unsubscribe_all cl ps t)) = sm_heap t" for ps t
    by (induction ps arbitrary: t) simp_all
  have sub: "q \<in> set ?ps" if "a \<in> clients_of s q" for q
    using listed_has_subscription [OF assms(1) that] assms(3)
    by (force simp: has_subscription_def getSubscribedProperties_def dest: map_of_SomeD)
  have ne: "?ps \<noteq> []" using assms(4) by (simp add: getSubscribedProperties_def)
  from unsubscribe_all_gone [OF assms(1) ne assms(2) sub] unsubscribe_all_other [OF assms(1,2), of _ ?ps]
  show ?thesis
    unfolding listens_def [symmetric] listens_alt dead heap
    by (auto simp: clients_of_def getClientsForPropertyLocked_def split: option.splits)
qed

theorem dead_client_forgotten_witness:
  "map_of (sm_clients demo_state) 7 \<noteq> None \<and> map_of (sm_clients (snd (onCallbackDead 7 demo_state))) 7 = None"
proof -
  have "map_of (sm_clients demo_state) 7 = Some 1"
      "map_of (sm_heap demo_state) 1 = Some \<lparr>hc_callback = 70, hc_subscriptions = [(5, demo_opts)]\<rparr>"
    by code_simp+
  from dead_client_forgotten [OF demo_inv this] this(1) show ?thesis by simp
qed

text \<open>
  \<open>distributeValuesToClients\<close> gives every client exactly the values it listens to, in the order they
  came, and has no entry for a client that listens to none of them.
\<close>

theorem distribute_values_correct:
  assumes "sub_inv s"
  shows "map_of (distributeValuesToClients propValues flags s) a =
    (let mine = filter (\<lambda>v. a \<in> set (getSubscribedClients (pv_prop v) flags s)) propValues
     in if mine = [] then None else Some mine)"
  using distribute_fold [OF assms, of flags propValues "[]" a]
  unfolding distributeValuesToClients_def listens_def by (simp add: Let_def)

theorem distribute_values_correct_witness:
  "map_of (distributeValuesToClients
     [kEmptyValue\<lparr>pv_prop := 5\<rparr>, kEmptyValue\<lparr>pv_prop := 6\<rparr>, kEmptyValue\<lparr>pv_prop := 5, pv_areaId := 2\<rparr>] 1 demo_state) 1 =
   Some [kEmptyValue\<lparr>pv_prop := 5\<rparr>, kEmptyValue\<lparr>pv_prop := 5, pv_areaId := 2\<rparr>]"
proof -
  have "getSubscribedClients 5 1 demo_state = [1]" "getSubscribedClients 6 1 demo_state = []"
    by code_simp+
  then show ?thesis
    using distribute_values_correct [OF demo_inv, of
      "[kEmptyValue\<lparr>pv_prop := 5\<rparr>, kEmptyValue\<lparr>pv_prop := 6\<rparr>, kEmptyValue\<lparr>pv_prop := 5, pv_areaId := 2\<rparr>]" 1 1]
    by (simp add: Let_def)
qed

text \<open>
  \<open>unsubscribe\<close> leaves the options inside the HalClient. A client that keeps another subscription,
  gives up a property it was alone on, and subscribes to it again without car events is still listed
  as a receiver of car events, while the HAL has been told to stop and holds no options for it.
\<close>

theorem resubscription_keeps_stale_flags:
  assumes inv: "sub_inv s" and cl: "map_of (sm_clients s) cl = Some a"
    and alone: "getClientsForPropertyLocked p s = Some [a]"
    and car: "a \<in> set (getSubscribedClients p EVENTS_FROM_CAR s)"
    and other: "q \<noteq> p" "getClientsForPropertyLocked q s = Some v" "a \<in> set v"
    and opts: "so_propId opts = p" "EVENTS_FROM_CAR AND so_flags opts = 0"
    and resub: "addOrUpdateSubscription cl cb lk [opts] (snd (unsubscribe cl p s)) = (st, out, t)"
  shows "st = OK \<and> a \<in> set (getSubscribedClients p EVENTS_FROM_CAR t) \<and>
         map_of (sm_halEventSubscribeOptions t) p = None \<and> out = []"
proof -
  let ?u = "snd (unsubscribe cl p s)"
  have "a \<in> clients_of ?u q"
    using other unfolding unsubscribe_clients_of by (simp add: cl clients_of_def getClientsForPropertyLocked_def)
  then have known: "map_of (sm_clients ?u) cl = Some a"
    using unsubscribe_clients [OF inv cl, where p = p and d = cl] cl by auto
  have "clients_of ?u p = {}"
    using alone unfolding unsubscribe_clients_of by (simp add: cl clients_of_def getClientsForPropertyLocked_def)
  then have none: "map_of (sm_halEventSubscribeOptions ?u) p = None"
    by (simp add: unsubscribe_notifies(2) [OF inv])
  obtain c where c: "map_of (sm_heap s) a = Some c" "isSubscribed p EVENTS_FROM_CAR c"
    using car unfolding listens_def [symmetric] listens_alt by blast
  then have cu: "map_of (sm_heap ?u) a = Some c" by simp
  have t: "st = OK" "(out, t) = subscribe_loop a [opts] ?u"
    using resub by (auto simp: addOrUpdateSubscription_def getOrCreate_existing [OF known] split: prod.splits)
  then have t': "t = snd (subscribe_one a opts ?u)" "out = fst (subscribe_one a opts ?u)"
    by (metis snd_conv subscribe_loop_Cons(1) subscribe_loop.simps(1),
        metis fst_conv subscribe_loop_Cons(2) subscribe_loop.simps(1) append_Nil2)
  have "listens t a p EVENTS_FROM_CAR"
    using isSubscribed_mono [OF c(2)] opts(1)
    by (simp add: t' listens_alt clients_of_subscribe_one subscribe_one_parts(3) [OF cu])
  moreover have "map_of (sm_halEventSubscribeOptions t) p = None"
    using none opts by (simp add: t' subscribe_one_hal_options)
  moreover have "out = []"
    using opts(2) unfolding t' by (simp add: subscribe_one_def Let_def)
  ultimately show ?thesis using t(1) by (simp add: listens_def)
qed

definition demo_two :: SubscriptionManager where
  "demo_two = sub_exec (Subscribe 7 70 True [demo_opts\<lparr>so_propId := 6\<rparr>]) demo_state"

theorem resubscription_keeps_stale_flags_witness:
  "\<exists>t. addOrUpdateSubscription 7 70 True [demo_opts\<lparr>so_flags := 2\<rparr>] (snd (unsubscribe 7 5 demo_two)) = (OK, [], t) \<and>
       1 \<in> set (getSubscribedClients 5 EVENTS_FROM_CAR t)"
proof -
  have inv: "sub_inv demo_two" unfolding demo_two_def by (rule subs.exec_inv [OF demo_inv])
  obtain st out t where
    r: "addOrUpdateSubscription 7 70 True [demo_opts\<lparr>so_flags := 2\<rparr>] (snd (unsubscribe 7 5 demo_two)) = (st, out, t)"
    by (metis prod.exhaust)
  have "map_of (sm_clients demo_two) 7 = Some 1" "getClientsForPropertyLocked 5 demo_two = Some [1]"
       "1 \<in> set (getSubscribedClients 5 EVENTS_FROM_CAR demo_two)"
       "(6 :: i32) \<noteq> 5" "getClientsForPropertyLocked 6 demo_two = Some [1]" "1 \<in> set [1 :: nat]"
       "so_propId (demo_opts\<lparr>so_flags := 2\<rparr>) = 5" "EVENTS_FROM_CAR AND so_flags (demo_opts\<lparr>so_flags := 2\<rparr>) = 0"
    by code_simp+
  from resubscription_keeps_stale_flags [OF inv this r] r show ?thesis by auto
qed

end
