(* ===== verification/EventQueue.thy ===== *)
theory EventQueue
  imports Prelude
begin

text \<open>
  \<open>ConcurrentQueue\<close> and \<open>BatchingConsumer\<close> (common/include/vhal_v2_0/ConcurrentQueue.h): the queue
  between the threads that produce HAL events and the one thread that delivers them in batches.

  Every queue operation holds the mutex, so it is one atomic step. The worker thread is a program
  counter with one step per shared access of \<open>runInternal\<close>; the producers, \<open>requestStop\<close> and
  \<open>deactivate\<close> are steps of the environment, interleaved with it in any order. What the queue has
  accepted and what \<open>onBatchReceived\<close> has been called with are kept as history.
\<close>

subsection \<open>The queue\<close>

record 'a ConcurrentQueue =
  cq_queue :: "'a list"
  cq_isActive :: bool

definition new_queue :: "'a ConcurrentQueue" where
  "new_queue = \<lparr>cq_queue = [], cq_isActive = True\<rparr>"

text \<open>The condition under which \<open>waitForItems\<close> returns.\<close>

definition waitForItems_returns :: "'a ConcurrentQueue \<Rightarrow> bool" where
  "waitForItems_returns q \<longleftrightarrow> \<not> (cq_queue q = [] \<and> cq_isActive q)"

definition flush :: "'a ConcurrentQueue \<Rightarrow> 'a list \<times> 'a ConcurrentQueue" where
  "flush q = (if cq_queue q = [] \<or> \<not> cq_isActive q then ([], q)
              else (cq_queue q, q\<lparr>cq_queue := []\<rparr>))"

definition push :: "'a \<Rightarrow> 'a ConcurrentQueue \<Rightarrow> 'a ConcurrentQueue" where
  "push item q = (if \<not> cq_isActive q then q else q\<lparr>cq_queue := cq_queue q @ [item]\<rparr>)"

definition deactivate :: "'a ConcurrentQueue \<Rightarrow> 'a ConcurrentQueue" where
  "deactivate q = q\<lparr>cq_isActive := False\<rparr>"

subsection \<open>The contract of the queue\<close>

text \<open>
  What a consumer relies on: \<open>items\<close> is what is still inside, a push to an open queue adds at the
  end, flushing an open queue takes everything, and a closed queue neither takes nor gives.
\<close>

locale event_queue =
  fixes q_items :: "'q \<Rightarrow> 'a list"
    and q_open :: "'q \<Rightarrow> bool"
    and q_push :: "'a \<Rightarrow> 'q \<Rightarrow> 'q"
    and q_flush :: "'q \<Rightarrow> 'a list \<times> 'q"
    and q_close :: "'q \<Rightarrow> 'q"
  assumes push_items: "q_items (q_push x q) = (if q_open q then q_items q @ [x] else q_items q)"
    and push_open: "q_open (q_push x q) = q_open q"
    and flush_items: "fst (q_flush q) @ q_items (snd (q_flush q)) = q_items q"
    and flush_closed: "\<not> q_open q \<Longrightarrow> fst (q_flush q) = []"
    and flush_all: "q_open q \<Longrightarrow> q_items (snd (q_flush q)) = []"
    and flush_open: "q_open (snd (q_flush q)) = q_open q"
    and close_items: "q_items (q_close q) = q_items q"
    and close_open: "\<not> q_open (q_close q)"
begin

text \<open>\<open>accepted = delivered + in hand + still queued\<close> is kept by every queue operation.\<close>

definition accounted :: "'a list \<Rightarrow> 'a list \<Rightarrow> 'q \<Rightarrow> bool" where
  "accounted acc out q \<longleftrightarrow> acc = out @ q_items q"

lemma accounted_push:
  "accounted acc out q \<Longrightarrow> accounted (if q_open q then acc @ [x] else acc) out (q_push x q)"
  by (simp add: accounted_def push_items)

lemma accounted_flush:
  "accounted acc out q \<Longrightarrow> accounted acc (out @ fst (q_flush q)) (snd (q_flush q))"
  by (simp add: accounted_def flush_items)

lemma accounted_close: "accounted acc out q \<Longrightarrow> accounted acc out (q_close q)"
  by (simp add: accounted_def close_items)

end

interpretation cq: event_queue cq_queue cq_isActive push flush deactivate
  by unfold_locales (simp_all add: push_def flush_def deactivate_def)

subsection \<open>The consumer\<close>

datatype bc_State = INIT | RUNNING | STOP_REQUESTED | STOPPED

datatype 'a worker =
    NotRun \<comment> \<open>before \<open>run\<close>\<close>
  | Exchange \<comment> \<open>\<open>mState.exchange(RUNNING) == INIT\<close>\<close>
  | LoopTest \<comment> \<open>\<open>while (RUNNING == mState)\<close>\<close>
  | Waiting \<comment> \<open>\<open>mQueue->waitForItems()\<close>\<close>
  | CheckWaited \<comment> \<open>first \<open>if (STOP_REQUESTED == mState) break\<close>\<close>
  | Sleeping \<comment> \<open>\<open>sleep_for(mBatchInterval)\<close>\<close>
  | CheckSlept \<comment> \<open>second \<open>if (STOP_REQUESTED == mState) break\<close>\<close>
  | Flushing
  | Delivering "'a list"
  | Leaving \<comment> \<open>\<open>mState = STOPPED\<close>\<close>
  | Finished

record 'a BatchingConsumer =
  bc_state :: bc_State
  bc_worker :: "'a worker"
  bc_queue :: "'a ConcurrentQueue"
  bc_accepted :: "'a list"
  bc_batches :: "'a list list"

definition new_consumer :: "'a BatchingConsumer" where
  "new_consumer = \<lparr>bc_state = INIT, bc_worker = NotRun, bc_queue = new_queue,
                   bc_accepted = [], bc_batches = []\<rparr>"

definition run :: "'a BatchingConsumer \<Rightarrow> 'a BatchingConsumer" where
  "run c = c\<lparr>bc_worker := Exchange\<rparr>"

definition requestStop :: "'a BatchingConsumer \<Rightarrow> 'a BatchingConsumer" where
  "requestStop c = c\<lparr>bc_state := STOP_REQUESTED\<rparr>"

text \<open>One step of \<open>runInternal\<close>; \<open>None\<close>: the thread is not there, is blocked or has returned.\<close>

definition runInternal_step :: "'a BatchingConsumer \<Rightarrow> 'a BatchingConsumer option" where
  "runInternal_step c = (case bc_worker c of
     NotRun \<Rightarrow> None
   | Exchange \<Rightarrow> Some (c\<lparr>bc_state := RUNNING,
                        bc_worker := (if bc_state c = INIT then LoopTest else Leaving)\<rparr>)
   | LoopTest \<Rightarrow> Some (c\<lparr>bc_worker := (if bc_state c = RUNNING then Waiting else Leaving)\<rparr>)
   | Waiting \<Rightarrow> (if waitForItems_returns (bc_queue c) then Some (c\<lparr>bc_worker := CheckWaited\<rparr>) else None)
   | CheckWaited \<Rightarrow> Some (c\<lparr>bc_worker := (if bc_state c = STOP_REQUESTED then Leaving else Sleeping)\<rparr>)
   | Sleeping \<Rightarrow> Some (c\<lparr>bc_worker := CheckSlept\<rparr>)
   | CheckSlept \<Rightarrow> Some (c\<lparr>bc_worker := (if bc_state c = STOP_REQUESTED then Leaving else Flushing)\<rparr>)
   | Flushing \<Rightarrow> (let (items, q) = flush (bc_queue c)
                  in Some (c\<lparr>bc_queue := q,
                             bc_worker := (if 0 < length items then Delivering items else LoopTest)\<rparr>))
   | Delivering items \<Rightarrow> Some (c\<lparr>bc_batches := bc_batches c @ [items], bc_worker := LoopTest\<rparr>)
   | Leaving \<Rightarrow> Some (c\<lparr>bc_state := STOPPED, bc_worker := Finished\<rparr>)
   | Finished \<Rightarrow> None)"

inductive bc_step :: "'a BatchingConsumer \<Rightarrow> 'a BatchingConsumer \<Rightarrow> bool" where
  Run: "bc_worker c = NotRun \<Longrightarrow> bc_step c (run c)"
| Push: "bc_step c (c\<lparr>bc_queue := push x (bc_queue c),
                      bc_accepted := (if cq_isActive (bc_queue c) then bc_accepted c @ [x] else bc_accepted c)\<rparr>)"
| RequestStop: "bc_step c (requestStop c)"
| Deactivate: "bc_step c (c\<lparr>bc_queue := deactivate (bc_queue c)\<rparr>)"
| Worker: "runInternal_step c = Some d \<Longrightarrow> bc_step c d"

inductive bc_reach :: "'a BatchingConsumer \<Rightarrow> bool" where
  Start: "bc_reach new_consumer"
| Step: "bc_reach c \<Longrightarrow> bc_step c d \<Longrightarrow> bc_reach d"

inductive_cases bc_step_cases: "bc_step c d"

subsection \<open>Nothing is lost, duplicated or reordered\<close>

definition in_hand :: "'a BatchingConsumer \<Rightarrow> 'a list" where
  "in_hand c = (case bc_worker c of Delivering items \<Rightarrow> items | _ \<Rightarrow> [])"

definition bc_inv :: "'a BatchingConsumer \<Rightarrow> bool" where
  "bc_inv c \<longleftrightarrow> cq.accounted (bc_accepted c) (concat (bc_batches c) @ in_hand c) (bc_queue c) \<and>
     [] \<notin> set (bc_batches c) \<and> bc_worker c \<noteq> Delivering []"

lemma bc_inv_new: "bc_inv new_consumer"
  by (simp add: bc_inv_def new_consumer_def cq.accounted_def in_hand_def new_queue_def)

lemma bc_inv_worker:
  assumes "bc_inv c" "runInternal_step c = Some d"
  shows "bc_inv d"
proof (cases "bc_worker c")
  case Flushing
  then have c: "in_hand c = []" by (simp add: in_hand_def)
  obtain items q where f: "flush (bc_queue c) = (items, q)" by fastforce
  from cq.accounted_flush [of "bc_accepted c" "concat (bc_batches c)" "bc_queue c"] assms f c Flushing
  show ?thesis by (cases items) (auto simp: bc_inv_def runInternal_step_def in_hand_def cq.accounted_def)
next
  case (Delivering items)
  then show ?thesis
    using assms by (auto simp: bc_inv_def runInternal_step_def in_hand_def)
qed (use assms in \<open>auto simp: bc_inv_def runInternal_step_def in_hand_def split: if_splits\<close>)

lemma bc_inv_step: "bc_inv c \<Longrightarrow> bc_step c d \<Longrightarrow> bc_inv d"
proof (elim bc_step_cases)
  fix x
  assume "bc_inv c" "d = c\<lparr>bc_queue := push x (bc_queue c),
      bc_accepted := (if cq_isActive (bc_queue c) then bc_accepted c @ [x] else bc_accepted c)\<rparr>"
  then show "bc_inv d"
    using cq.accounted_push by (fastforce simp: bc_inv_def in_hand_def)
next
  assume "bc_inv c" "d = c\<lparr>bc_queue := deactivate (bc_queue c)\<rparr>"
  then show "bc_inv d"
    using cq.accounted_close by (fastforce simp: bc_inv_def in_hand_def)
next
  assume "bc_inv c" "runInternal_step c = Some d"
  then show "bc_inv d" by (rule bc_inv_worker)
qed (auto simp: run_def requestStop_def bc_inv_def in_hand_def)

lemma bc_reach_inv: "bc_reach c \<Longrightarrow> bc_inv c"
  by (induction rule: bc_reach.induct) (auto intro: bc_inv_new bc_inv_step)

text \<open>
  C7: in every interleaving of producers, worker and shutdown, the values the queue accepted are
  exactly those already delivered, then those of the batch being delivered, then those still queued,
  in the order they were pushed; no empty batch is ever delivered.
\<close>

theorem events_delivered_in_order:
  assumes "bc_reach c"
  shows "bc_accepted c = concat (bc_batches c) @ in_hand c @ cq_queue (bc_queue c) \<and>
         [] \<notin> set (bc_batches c)"
  using bc_reach_inv [OF assms] by (simp add: bc_inv_def cq.accounted_def)

definition demo_consumer :: "nat BatchingConsumer" where
  "demo_consumer = (let c = run new_consumer
     in c\<lparr>bc_queue := push 7 (bc_queue c),
          bc_accepted := (if cq_isActive (bc_queue c) then bc_accepted c @ [7] else bc_accepted c)\<rparr>)"

lemma demo_consumer_reach: "bc_reach demo_consumer"
  unfolding demo_consumer_def Let_def
  by (rule bc_reach.Step [OF bc_reach.Step [OF bc_reach.Start Run] Push]) (simp add: new_consumer_def)

theorem events_delivered_in_order_witness:
  "bc_accepted demo_consumer = [7] \<and> cq_queue (bc_queue demo_consumer) = [7]"
proof -
  have "bc_accepted demo_consumer = [7]" "bc_batches demo_consumer = []" "in_hand demo_consumer = []"
    by (simp_all add: demo_consumer_def new_consumer_def new_queue_def run_def Let_def in_hand_def)
  with events_delivered_in_order [OF demo_consumer_reach] show ?thesis by simp
qed

subsection \<open>Shutdown\<close>

text \<open>The situation after \<open>requestStop\<close> and \<open>deactivate\<close>, and the steps the worker still makes.\<close>

definition stop_signalled :: "'a BatchingConsumer \<Rightarrow> bool" where
  "stop_signalled c \<longleftrightarrow> \<not> cq_isActive (bc_queue c) \<and>
     (bc_worker c = Finished \<or> bc_worker c = Leaving \<or>
      bc_worker c \<noteq> NotRun \<and> bc_state c = STOP_REQUESTED)"

definition steps_left :: "'a BatchingConsumer \<Rightarrow> nat" where
  "steps_left c = (case bc_worker c of
     Finished \<Rightarrow> 0 | Leaving \<Rightarrow> 1
   | Exchange \<Rightarrow> 2 | LoopTest \<Rightarrow> 2 | CheckWaited \<Rightarrow> 2 | CheckSlept \<Rightarrow> 2
   | Waiting \<Rightarrow> 3 | Sleeping \<Rightarrow> 3 | Flushing \<Rightarrow> 3 | Delivering _ \<Rightarrow> 3
   | NotRun \<Rightarrow> 4)"

lemma stop_worker:
  assumes "stop_signalled c" "bc_worker c \<noteq> Finished"
  shows "\<exists>d. runInternal_step c = Some d \<and> stop_signalled d \<and> steps_left d < steps_left c"
  using assms cq.flush_closed [of "bc_queue c"] cq.flush_open [of "bc_queue c"]
  by (cases "bc_worker c")
    (auto simp: stop_signalled_def runInternal_step_def steps_left_def waitForItems_returns_def
      split: prod.split)

lemma stop_env:
  assumes "stop_signalled c" "bc_step c d"
  shows "stop_signalled d \<and> steps_left d \<le> steps_left c"
  using assms(2)
proof cases
  case Worker
  moreover have "bc_worker c \<noteq> Finished" using Worker by (auto simp: runInternal_step_def)
  ultimately show ?thesis using stop_worker [OF assms(1)] by force
qed (use assms in \<open>auto simp: stop_signalled_def steps_left_def run_def requestStop_def cq.push_open cq.close_open\<close>)

text \<open>
  The destructor's \<open>requestStop\<close>, \<open>deactivate\<close>, \<open>waitStopped\<close> ends: once the stop is signalled to a
  started worker, it stays signalled whatever producers do, the worker is never blocked before it has
  returned, and each of its at most three remaining steps brings it closer to its end.
\<close>

theorem consumer_stops:
  assumes "bc_worker c \<noteq> NotRun" "c' = (requestStop c)\<lparr>bc_queue := deactivate (bc_queue c)\<rparr>"
  shows "stop_signalled c' \<and> steps_left c' \<le> 3 \<and>
     (\<forall>d. stop_signalled d \<longrightarrow>
        (\<forall>e. bc_step d e \<longrightarrow> stop_signalled e \<and> steps_left e \<le> steps_left d) \<and>
        (bc_worker d = Finished \<or>
         (\<exists>e. runInternal_step d = Some e \<and> steps_left e < steps_left d)))"
proof (intro conjI allI impI)
  show "stop_signalled c'" using assms by (simp add: stop_signalled_def requestStop_def cq.close_open)
  show "steps_left c' \<le> 3" using assms by (simp add: steps_left_def requestStop_def split: worker.split)
qed (use stop_env stop_worker in blast)+

theorem consumer_stops_witness:
  "stop_signalled ((requestStop demo_consumer)\<lparr>bc_queue := deactivate (bc_queue demo_consumer)\<rparr>)"
proof -
  have "bc_worker demo_consumer \<noteq> NotRun"
    by (simp add: demo_consumer_def new_consumer_def run_def Let_def)
  from consumer_stops [OF this refl] show ?thesis by blast
qed

end
