(* ===== verification/HalManager.thy ===== *)
theory HalManager
  imports Subscriptions EventQueue
begin

text \<open>
  VehicleHalManager (common/src/VehicleHalManager.cpp) and VehiclePropConfigIndex
  (common/include/vhal_v2_0/VehiclePropConfigIndex.h): the IVehicle service. It checks every request
  against the configurations, keeps the subscriptions and dispatches events to the clients.

  The vendor's \<open>VehicleHal\<close> is an abstract class: it is the record \<open>VehicleHal\<close> of its methods over a
  state of any type. What \<open>set\<close> and \<open>onCreate\<close> report through \<open>doHalEvent\<close> is the returned list.
  The binder's view of a callback (is it remote, the address of its proxy, does \<open>linkToDeath\<close> work) is
  the record \<open>BinderEnv\<close>. Calls the manager makes on clients and on the HAL are collected, in order, as
  a list of \<open>hm_call\<close>s. A KeyedVector is the ordered map; adding an existing key replaces its value.
  \<open>service.cpp\<close> gives the service four binder threads: what a thread does outside the lock of the
  subscription manager after changing the subscriptions is a task of its own, run in any order.
\<close>

subsection \<open>The configuration index\<close>

record VehiclePropConfigIndex =
  ci_configs :: "VehiclePropConfig list"
  ci_propToConfig :: "(i32, VehiclePropConfig) std_map"

definition ImmutablePropConfigMap :: "VehiclePropConfig list \<Rightarrow> (i32, VehiclePropConfig) std_map" where
  "ImmutablePropConfigMap configs = fold (\<lambda>config m. map_put (pc_prop config) config m) configs []"

definition new_index :: "VehiclePropConfig list \<Rightarrow> VehiclePropConfigIndex" where
  "new_index properties =
     \<lparr>ci_configs = properties, ci_propToConfig = ImmutablePropConfigMap properties\<rparr>"

definition hasConfig :: "VehiclePropConfigIndex \<Rightarrow> i32 \<Rightarrow> bool" where
  "hasConfig ix property \<longleftrightarrow> map_of (ci_propToConfig ix) property \<noteq> None"

text \<open>\<open>valueFor\<close> of a key that is not there aborts the process: \<open>None\<close>.\<close>

definition getConfig :: "VehiclePropConfigIndex \<Rightarrow> i32 \<Rightarrow> VehiclePropConfig option" where
  "getConfig ix property = map_of (ci_propToConfig ix) property"

definition index_getAllConfigs :: "VehiclePropConfigIndex \<Rightarrow> VehiclePropConfig list" where
  "index_getAllConfigs ix = ci_configs ix"

subsection \<open>State and environment\<close>

record 'h VehicleHal =
  hal_listProperties :: "'h \<Rightarrow> VehiclePropConfig list"
  hal_get :: "VehiclePropValue \<Rightarrow> 'h \<Rightarrow> VehiclePropValue option \<times> StatusCode \<times> 'h"
  hal_set :: "VehiclePropValue \<Rightarrow> 'h \<Rightarrow> StatusCode \<times> VehiclePropValue list \<times> 'h"
  hal_subscribe :: "i32 \<Rightarrow> f32 \<Rightarrow> 'h \<Rightarrow> StatusCode \<times> 'h"
  hal_unsubscribe :: "i32 \<Rightarrow> 'h \<Rightarrow> StatusCode \<times> 'h"
  hal_onCreate :: "'h \<Rightarrow> VehiclePropValue list \<times> 'h"

record BinderEnv =
  be_isRemote :: "callback \<Rightarrow> bool"
  be_onAsBinder :: "callback \<Rightarrow> ClientId"
  be_linkToDeath :: "callback \<Rightarrow> bool"

datatype hm_call =
    OnPropertyEvent callback "VehiclePropValue list"
  | OnPropertySet callback VehiclePropValue
  | OnPropertySetError callback StatusCode i32 i32
  | HalGet VehiclePropValue
  | HalSet VehiclePropValue
  | HalSubscribe i32 f32
  | HalUnsubscribe i32

text \<open>
  What a binder thread of the service still has to do after it released the lock of the subscription
  manager: a turn of the loop over \<open>updatedOptions\<close> in \<open>subscribe\<close>, which calls \<open>mHal->subscribe\<close>
  without any lock, or a turn of the loop over \<open>props\<close> in \<open>onCallbackDead\<close>, which takes the lock again.
\<close>

datatype hm_task =
    SubscribeTask SubscribeOptions
  | UnsubscribeTask ClientId i32

record 'h VehicleHalManager =
  hm_hal :: 'h
  hm_configIndex :: VehiclePropConfigIndex
  hm_subscriptions :: SubscriptionManager
  hm_valuePool :: "VehiclePropValue list"
  hm_eventQueue :: "VehiclePropValue ConcurrentQueue"

definition kMaxHidlVecOfVehiclPropValuePoolSize :: nat where
  "kMaxHidlVecOfVehiclPropValuePoolSize = 20"

subsection \<open>Checks\<close>

definition getPropConfigOrNull :: "'h VehicleHalManager \<Rightarrow> i32 \<Rightarrow> VehiclePropConfig option" where
  "getPropConfigOrNull m prop =
     (if hasConfig (hm_configIndex m) prop then getConfig (hm_configIndex m) prop else None)"

definition checkWritePermission :: "VehiclePropConfig \<Rightarrow> bool" where
  "checkWritePermission config \<longleftrightarrow> pc_access config AND ACCESS_WRITE \<noteq> 0"

definition checkReadPermission :: "VehiclePropConfig \<Rightarrow> bool" where
  "checkReadPermission config \<longleftrightarrow> pc_access config AND ACCESS_READ \<noteq> 0"

definition isSubscribable :: "VehiclePropConfig \<Rightarrow> i32 \<Rightarrow> bool" where
  "isSubscribable config flags =
     (let isReadable = pc_access config AND ACCESS_READ \<noteq> 0 in
      if \<not> isReadable \<and> EVENTS_FROM_CAR AND flags \<noteq> 0 then False
      else if pc_changeMode config = STATIC then False
      else True)"

definition isSampleRateFixed :: "i32 \<Rightarrow> bool" where
  "isSampleRateFixed mode \<longleftrightarrow> mode AND ON_CHANGE \<noteq> 0"

definition checkSampleRate :: "VehiclePropConfig \<Rightarrow> f32 \<Rightarrow> f32" where
  "checkSampleRate config sampleRate =
     (if isSampleRateFixed (pc_changeMode config) then 0
      else if f32_lt (pc_maxSampleRate config) sampleRate then pc_maxSampleRate config
      else if f32_lt sampleRate (pc_minSampleRate config) then pc_minSampleRate config
      else sampleRate)"

definition getClientId :: "BinderEnv \<Rightarrow> callback \<Rightarrow> ClientId" where
  "getClientId env cb = (if be_isRemote env cb then be_onAsBinder env cb else cb)"

definition callback_of :: "SubscriptionManager \<Rightarrow> client_addr \<Rightarrow> callback" where
  "callback_of s a = (case map_of (sm_heap s) a of None \<Rightarrow> 0 | Some c \<Rightarrow> hc_callback c)"

subsection \<open>IVehicle\<close>

definition getAllPropConfigs :: "'h VehicleHalManager \<Rightarrow> VehiclePropConfig list" where
  "getAllPropConfigs m = index_getAllConfigs (hm_configIndex m)"

text \<open>The result is the list of calls of \<open>_hidl_cb\<close>; the loop carries the configs found so far.\<close>

fun getPropConfigs_loop ::
  "VehiclePropConfigIndex \<Rightarrow> i32 list \<Rightarrow> VehiclePropConfig list \<Rightarrow> (StatusCode \<times> VehiclePropConfig list) list" where
  "getPropConfigs_loop ix [] configs = [(OK, configs)]"
| "getPropConfigs_loop ix (prop # properties) configs =
     (if hasConfig ix prop
      then getPropConfigs_loop ix properties
             (configs @ (case getConfig ix prop of None \<Rightarrow> [] | Some c \<Rightarrow> [c]))
      else (INVALID_ARG, []) # getPropConfigs_loop ix properties configs)"

definition getPropConfigs ::
  "i32 list \<Rightarrow> 'h VehicleHalManager \<Rightarrow> (StatusCode \<times> VehiclePropConfig list) list" where
  "getPropConfigs properties m = getPropConfigs_loop (hm_configIndex m) properties []"

definition hm_get ::
  "'h VehicleHal \<Rightarrow> VehiclePropValue \<Rightarrow> 'h VehicleHalManager \<Rightarrow>
   (StatusCode \<times> VehiclePropValue) \<times> hm_call list \<times> 'h VehicleHalManager" where
  "hm_get hal requestedPropValue m =
     (case getPropConfigOrNull m (pv_prop requestedPropValue) of
        None \<Rightarrow> ((INVALID_ARG, kEmptyValue), [], m)
      | Some config \<Rightarrow>
          (if \<not> checkReadPermission config then ((ACCESS_DENIED, kEmptyValue), [], m)
           else
             let (val, status, h) = hal_get hal requestedPropValue (hm_hal m)
             in ((status, case val of None \<Rightarrow> kEmptyValue | Some v \<Rightarrow> v),
                 [HalGet requestedPropValue], m\<lparr>hm_hal := h\<rparr>)))"

definition onHalEvent :: "VehiclePropValue \<Rightarrow> 'h VehicleHalManager \<Rightarrow> 'h VehicleHalManager" where
  "onHalEvent v m = m\<lparr>hm_eventQueue := push v (hm_eventQueue m)\<rparr>"

definition handlePropertySetEvent :: "VehiclePropValue \<Rightarrow> 'h VehicleHalManager \<Rightarrow> hm_call list" where
  "handlePropertySetEvent v m =
     map (\<lambda>client. OnPropertySet (callback_of (hm_subscriptions m) client) v)
       (getSubscribedClients (pv_prop v) EVENTS_FROM_ANDROID (hm_subscriptions m))"

definition hm_set ::
  "'h VehicleHal \<Rightarrow> VehiclePropValue \<Rightarrow> 'h VehicleHalManager \<Rightarrow>
   StatusCode \<times> hm_call list \<times> 'h VehicleHalManager" where
  "hm_set hal v m =
     (case getPropConfigOrNull m (pv_prop v) of
        None \<Rightarrow> (INVALID_ARG, [], m)
      | Some config \<Rightarrow>
          (if \<not> checkWritePermission config then (ACCESS_DENIED, [], m)
           else
             let notified = handlePropertySetEvent v m;
                 (status, events, h) = hal_set hal v (hm_hal m)
             in (status, notified @ [HalSet v], fold onHalEvent events (m\<lparr>hm_hal := h\<rparr>))))"

text \<open>The checking loop of \<open>subscribe\<close>: the first bad option ends it with \<open>INVALID_ARG\<close>.\<close>

fun verifyOptions ::
  "'h VehicleHalManager \<Rightarrow> SubscribeOptions list \<Rightarrow> StatusCode + SubscribeOptions list" where
  "verifyOptions m [] = Inr []"
| "verifyOptions m (ops # options) =
     (case getPropConfigOrNull m (so_propId ops) of
        None \<Rightarrow> Inl INVALID_ARG
      | Some config \<Rightarrow>
          (if so_flags ops = FLAGS_UNDEFINED then Inl INVALID_ARG
           else if \<not> isSubscribable config (so_flags ops) then Inl INVALID_ARG
           else
             (case verifyOptions m options of
                Inl e \<Rightarrow> Inl e
              | Inr verified \<Rightarrow>
                  Inr (ops\<lparr>so_sampleRate := checkSampleRate config (so_sampleRate ops)\<rparr> # verified))))"

text \<open>
  \<open>subscribe\<close> up to its last loop: the checks, and the registration under the lock of the subscription
  manager. The result holds the \<open>updatedOptions\<close> the loop has still to pass to the HAL, without the lock;
  \<open>hal_subscribe_one\<close> is one turn of that loop. Between two turns, and before the first, calls of the
  other binder threads can come.
\<close>

definition hm_subscribe ::
  "BinderEnv \<Rightarrow> callback \<Rightarrow> SubscribeOptions list \<Rightarrow> 'h VehicleHalManager \<Rightarrow>
   StatusCode \<times> SubscribeOptions list \<times> 'h VehicleHalManager" where
  "hm_subscribe env cb options m =
     (case verifyOptions m options of
        Inl e \<Rightarrow> (e, [], m)
      | Inr verifiedOptions \<Rightarrow>
          let (res, updatedOptions, s) =
                addOrUpdateSubscription (getClientId env cb) cb (be_linkToDeath env cb) verifiedOptions
                  (hm_subscriptions m);
              m1 = m\<lparr>hm_subscriptions := s\<rparr>
          in if OK \<noteq> res then (res, [], m1) else (OK, updatedOptions, m1))"

definition hal_subscribe_one ::
  "'h VehicleHal \<Rightarrow> SubscribeOptions \<Rightarrow> 'h VehicleHalManager \<Rightarrow> hm_call list \<times> 'h VehicleHalManager" where
  "hal_subscribe_one hal opt m =
     (let (_, h) = hal_subscribe hal (so_propId opt) (so_sampleRate opt) (hm_hal m)
      in ([HalSubscribe (so_propId opt) (so_sampleRate opt)], m\<lparr>hm_hal := h\<rparr>))"

text \<open>\<open>onAllClientsUnsubscribed\<close>, called once per property the subscription manager reports.\<close>

fun onAllClientsUnsubscribed :: "'h VehicleHal \<Rightarrow> i32 list \<Rightarrow> 'h \<Rightarrow> hm_call list \<times> 'h" where
  "onAllClientsUnsubscribed hal [] h = ([], h)"
| "onAllClientsUnsubscribed hal (propertyId # props) h =
     (let (_, h1) = hal_unsubscribe hal propertyId h;
          (calls, h2) = onAllClientsUnsubscribed hal props h1
      in (HalUnsubscribe propertyId # calls, h2))"

text \<open>
  \<open>SubscriptionManager::unsubscribe\<close> with the manager's callback: it calls \<open>mOnPropertyUnsubscribed\<close>, and
  so the HAL, while it holds the lock. It is one step.
\<close>

definition unsubscribe_client ::
  "'h VehicleHal \<Rightarrow> ClientId \<Rightarrow> i32 \<Rightarrow> 'h VehicleHalManager \<Rightarrow> hm_call list \<times> 'h VehicleHalManager" where
  "unsubscribe_client hal clientId propId m =
     (let (props, s) = unsubscribe clientId propId (hm_subscriptions m);
          (calls, h) = onAllClientsUnsubscribed hal props (hm_hal m)
      in (calls, m\<lparr>hm_subscriptions := s, hm_hal := h\<rparr>))"

definition hm_unsubscribe ::
  "'h VehicleHal \<Rightarrow> BinderEnv \<Rightarrow> callback \<Rightarrow> i32 \<Rightarrow> 'h VehicleHalManager \<Rightarrow>
   StatusCode \<times> hm_call list \<times> 'h VehicleHalManager" where
  "hm_unsubscribe hal env cb propId m = (OK, unsubscribe_client hal (getClientId env cb) propId m)"

text \<open>
  \<open>DeathRecipient::serviceDied\<close> with the cookie the client was linked with, up to the end of the first
  locked block of \<open>onCallbackDead\<close>: the properties whose subscriptions are then dropped one by one.
\<close>

definition hm_serviceDied :: "ClientId \<Rightarrow> 'h VehicleHalManager \<Rightarrow> i32 list" where
  "hm_serviceDied cookie m =
     (case map_of (sm_clients (hm_subscriptions m)) cookie of
        None \<Rightarrow> []
      | Some client \<Rightarrow>
          (case map_of (sm_heap (hm_subscriptions m)) client of
             None \<Rightarrow> []
           | Some c \<Rightarrow> getSubscribedProperties c))"

definition debugDump :: string where
  "debugDump = []"

subsection \<open>Events of the HAL\<close>

definition onHalPropertySetError ::
  "StatusCode \<Rightarrow> i32 \<Rightarrow> i32 \<Rightarrow> 'h VehicleHalManager \<Rightarrow> hm_call list" where
  "onHalPropertySetError errorCode property areaId m =
     map (\<lambda>client. OnPropertySetError (callback_of (hm_subscriptions m) client) errorCode property areaId)
       (getSubscribedClients property EVENTS_FROM_CAR (hm_subscriptions m))"

text \<open>
  One turn of the loop over \<open>clientValues\<close>. A short vector is laid over the reused pool, so the copies
  stay there; a long one is freshly allocated (\<open>fresh\<close> stands for its uninitialised elements).
\<close>

definition notify_client ::
  "VehiclePropValue \<Rightarrow> SubscriptionManager \<Rightarrow> client_addr \<times> VehiclePropValue list \<Rightarrow>
   VehiclePropValue list \<Rightarrow> hm_call \<times> VehiclePropValue list" where
  "notify_client fresh s cv pool =
     (let vecSize = length (snd cv);
          usePool = vecSize < kMaxHidlVecOfVehiclPropValuePoolSize;
          vec = (if usePool then take vecSize pool else replicate vecSize fresh);
          copied = map2 shallowCopy vec (snd cv)
      in (OnPropertyEvent (callback_of s (fst cv)) copied,
          if usePool then copied @ drop vecSize pool else pool))"

fun notify_clients ::
  "VehiclePropValue \<Rightarrow> SubscriptionManager \<Rightarrow> (client_addr \<times> VehiclePropValue list) list \<Rightarrow>
   VehiclePropValue list \<Rightarrow> hm_call list \<times> VehiclePropValue list" where
  "notify_clients fresh s [] pool = ([], pool)"
| "notify_clients fresh s (cv # clientValues) pool =
     (let (call, pool1) = notify_client fresh s cv pool;
          (calls, pool2) = notify_clients fresh s clientValues pool1
      in (call # calls, pool2))"

definition onBatchHalEvent ::
  "VehiclePropValue \<Rightarrow> VehiclePropValue list \<Rightarrow> 'h VehicleHalManager \<Rightarrow> hm_call list \<times> 'h VehicleHalManager" where
  "onBatchHalEvent fresh vs m =
     (let clientValues = distributeValuesToClients vs EVENTS_FROM_CAR (hm_subscriptions m);
          (calls, pool) = notify_clients fresh (hm_subscriptions m) clientValues (hm_valuePool m)
      in (calls, m\<lparr>hm_valuePool := pool\<rparr>))"

text \<open>The constructor and \<open>init\<close>; the HAL creates itself before its properties are listed.\<close>

definition hm_init :: "'h VehicleHal \<Rightarrow> VehiclePropValue \<Rightarrow> 'h \<Rightarrow> 'h VehicleHalManager" where
  "hm_init hal fresh h =
     (let (events, h1) = hal_onCreate hal h
      in \<lparr>hm_hal = h1,
          hm_configIndex = new_index (hal_listProperties hal h1),
          hm_subscriptions = empty_subscriptions,
          hm_valuePool = replicate kMaxHidlVecOfVehiclPropValuePoolSize fresh,
          hm_eventQueue = fold push events new_queue\<rparr>)"

subsection \<open>The index finds the configurations\<close>

lemma index_lookup:
  "map_of (ImmutablePropConfigMap configs) p =
     map_of (rev (map (\<lambda>c. (pc_prop c, c)) configs)) p"
proof -
  have "map_of (fold (\<lambda>config m. map_put (pc_prop config) config m) configs m) p =
      (map_of m ++ map_of (rev (map (\<lambda>c. (pc_prop c, c)) configs))) p" for m
    by (induction configs arbitrary: m) (auto simp: map_add_def split: option.split)
  then show ?thesis by (simp add: ImmutablePropConfigMap_def)
qed

lemma index_found: "getConfig (new_index configs) p = Some c \<Longrightarrow> c \<in> set configs \<and> pc_prop c = p"
  by (auto simp: getConfig_def new_index_def index_lookup dest: map_of_SomeD)

lemma getPropConfigOrNull_eq: "getPropConfigOrNull m p = getConfig (hm_configIndex m) p"
  by (simp add: getPropConfigOrNull_def hasConfig_def getConfig_def)

subsection \<open>Checked subscriptions\<close>

text \<open>What a verified option satisfies, and what a rate the HAL is asked for satisfies.\<close>

definition rate_ok :: "VehiclePropConfigIndex \<Rightarrow> i32 \<Rightarrow> f32 \<Rightarrow> bool" where
  "rate_ok ix p r \<longleftrightarrow> (\<exists>c x. getConfig ix p = Some c \<and> checkReadPermission c \<and>
     pc_changeMode c \<noteq> STATIC \<and> r = checkSampleRate c x)"

lemma checkSampleRate_bounds:
  "(isSampleRateFixed (pc_changeMode c) \<longrightarrow> checkSampleRate c x = 0) \<and>
   (\<not> isSampleRateFixed (pc_changeMode c) \<and> \<not> f32_isnan x \<and>
    \<not> f32_lt (pc_maxSampleRate c) (pc_minSampleRate c) \<longrightarrow>
      \<not> f32_lt (pc_maxSampleRate c) (checkSampleRate c x) \<and>
      \<not> f32_lt (checkSampleRate c x) (pc_minSampleRate c))"
  by (auto simp: checkSampleRate_def)

definition option_ok :: "VehiclePropConfigIndex \<Rightarrow> SubscribeOptions \<Rightarrow> bool" where
  "option_ok ix opts \<longleftrightarrow> (\<exists>c. getConfig ix (so_propId opts) = Some c \<and>
     so_flags opts \<noteq> FLAGS_UNDEFINED \<and> isSubscribable c (so_flags opts))"

definition clamped :: "VehiclePropConfigIndex \<Rightarrow> SubscribeOptions \<Rightarrow> SubscribeOptions" where
  "clamped ix opts = opts\<lparr>so_sampleRate :=
     checkSampleRate (the (getConfig ix (so_propId opts))) (so_sampleRate opts)\<rparr>"

lemma verifyOptions_eq:
  "verifyOptions m options =
     (if \<forall>opts \<in> set options. option_ok (hm_configIndex m) opts
      then Inr (map (clamped (hm_configIndex m)) options) else Inl INVALID_ARG)"
  by (induction options)
    (auto simp: getPropConfigOrNull_eq option_ok_def clamped_def split: option.splits)

lemma option_ok_rate:
  "option_ok ix opts \<Longrightarrow> EVENTS_FROM_CAR AND so_flags opts \<noteq> 0 \<Longrightarrow>
   rate_ok ix (so_propId (clamped ix opts)) (so_sampleRate (clamped ix opts))"
  by (auto simp: option_ok_def clamped_def rate_ok_def isSubscribable_def checkReadPermission_def Let_def
      split: if_splits)

subsection \<open>Calls to the HAL\<close>

lemma onAllClientsUnsubscribed_calls:
  "fst (onAllClientsUnsubscribed hal ps h) = map HalUnsubscribe ps"
  by (induction ps arbitrary: h) (auto simp: Let_def split: prod.splits dest: arg_cong [of _ _ fst])

text \<open>The properties a HAL delivers after a sequence of calls.\<close>

fun hal_told :: "hm_call \<Rightarrow> i32 set \<Rightarrow> i32 set" where
  "hal_told (HalSubscribe p r) S = insert p S"
| "hal_told (HalUnsubscribe p) S = S - {p}"
| "hal_told (HalGet v) S = S"
| "hal_told (HalSet v) S = S"
| "hal_told (OnPropertyEvent cb vs) S = S"
| "hal_told (OnPropertySet cb v) S = S"
| "hal_told (OnPropertySetError cb e p a) S = S"

lemma hal_told_unsubscribes: "fold hal_told (map HalUnsubscribe ps) S = S - set ps"
  by (induction ps arbitrary: S) auto

lemma hal_told_clients:
  "fold hal_told (map (\<lambda>a. OnPropertySet (f a) v) as) S = S"
  "fold hal_told (map (\<lambda>a. OnPropertySetError (f a) e p ar) as) S = S"
  by (induction as) auto

subsection \<open>Delivery of a batch\<close>

lemma map2_shallowCopy: "length vec = length vs \<Longrightarrow> map2 shallowCopy vec vs = vs"
  by (induction vec vs rule: list_induct2) simp_all

lemma notify_client_eq:
  assumes "length pool = kMaxHidlVecOfVehiclPropValuePoolSize"
  shows "fst (notify_client fresh s cv pool) = OnPropertyEvent (callback_of s (fst cv)) (snd cv)"
    and "length (snd (notify_client fresh s cv pool)) = kMaxHidlVecOfVehiclPropValuePoolSize"
  using assms by (simp_all add: notify_client_def Let_def map2_shallowCopy del: shallowCopy_eq)

lemma notify_clients_eq:
  "length pool = kMaxHidlVecOfVehiclPropValuePoolSize \<Longrightarrow>
   fst (notify_clients fresh s cvs pool) =
     map (\<lambda>cv. OnPropertyEvent (callback_of s (fst cv)) (snd cv)) cvs \<and>
   length (snd (notify_clients fresh s cvs pool)) = kMaxHidlVecOfVehiclPropValuePoolSize"
proof (induction cvs arbitrary: pool)
  case (Cons cv cvs)
  have l: "length (snd (notify_client fresh s cv pool)) = kMaxHidlVecOfVehiclPropValuePoolSize"
    by (rule notify_client_eq(2) [OF Cons.prems])
  show ?case
    using Cons.IH [OF l] notify_client_eq(1) [OF Cons.prems, of fresh s cv]
    by (auto simp: Let_def split: prod.splits)
qed simp

lemma hal_told_events: "fold hal_told (map (\<lambda>cv. OnPropertyEvent (f cv) (g cv)) cvs) S = S"
  by (induction cvs) auto

lemma distribute_map_inv: "map_inv (distributeValuesToClients vs flags s)"
proof -
  have "map_inv (fold (push_value v) as m)" if "map_inv m" for v as m
    using that by (induction as arbitrary: m) (simp_all add: push_value_def)
  then have "map_inv (fold (\<lambda>v m. fold (push_value v) (getSubscribedClientsLocked (pv_prop v) flags s) m) vs m)"
    if "map_inv m" for m
    using that by (induction vs arbitrary: m) simp_all
  then show ?thesis by (simp add: distributeValuesToClients_def)
qed

lemma distribute_entry:
  assumes "sub_inv s" "(a, ws) \<in> set (distributeValuesToClients vs flags s)"
  shows "ws \<noteq> [] \<and> ws = filter (\<lambda>v. listens s a (pv_prop v) flags) vs"
proof -
  have "map_of (distributeValuesToClients vs flags s) a = Some ws"
    by (rule map_of_mem [OF distribute_map_inv assms(2)])
  then show ?thesis
    using distribute_fold [OF assms(1), of flags vs "[]" a]
    by (auto simp: distributeValuesToClients_def Let_def split: if_splits)
qed

lemma distribute_clients:
  assumes "sub_inv s"
  shows "distinct (map fst (distributeValuesToClients vs flags s))"
    and "fst ` set (distributeValuesToClients vs flags s) =
         {a. \<exists>v \<in> set vs. a \<in> set (getSubscribedClients (pv_prop v) flags s)}"
proof -
  let ?d = "distributeValuesToClients vs flags s"
  show "distinct (map fst ?d)"
    using distribute_map_inv by (rule map_inv_distinct)
  have "a \<in> fst ` set ?d \<longleftrightarrow> (\<exists>v \<in> set vs. listens s a (pv_prop v) flags)" for a
    using distribute_fold [OF assms, of flags vs "[]" a]
    by (auto simp: dom_map_of_conv_image_fst [symmetric] distributeValuesToClients_def domIff Let_def
        filter_empty_conv split: if_splits)
  then show "fst ` set ?d = {a. \<exists>v \<in> set vs. a \<in> set (getSubscribedClients (pv_prop v) flags s)}"
    by (auto simp: listens_def)
qed

lemma serviceDied_props:
  "onCallbackDead cookie (hm_subscriptions m) =
     unsubscribe_all cookie (hm_serviceDied cookie m) (hm_subscriptions m)"
  by (simp add: onCallbackDead_def hm_serviceDied_def split: option.split)

subsection \<open>Runs of the service\<close>

text \<open>
  The service has several binder threads. Its state is the manager, the tasks the threads have still to
  do, one list per call in progress, and the calls made so far. \<open>TaskOp n\<close> runs the next task of the
  \<open>n\<close>-th list, so a run may interleave the tasks of several calls with each other and with new calls in
  every order, for any number of threads. The other operations touch the subscriptions at most once, under
  the lock, and are one step each.
\<close>

record 'h hm_service =
  sv_manager :: "'h VehicleHalManager"
  sv_threads :: "hm_task list list"
  sv_calls :: "hm_call list"

datatype hm_op =
    GetOp VehiclePropValue
  | SetOp VehiclePropValue
  | SubscribeOp callback "SubscribeOptions list"
  | UnsubscribeOp callback i32
  | DiedOp ClientId
  | TaskOp nat
  | HalEventOp VehiclePropValue
  | HalErrorOp StatusCode i32 i32
  | BatchOp

fun run_hm_task ::
  "'h VehicleHal \<Rightarrow> hm_task \<Rightarrow> 'h VehicleHalManager \<Rightarrow> hm_call list \<times> 'h VehicleHalManager" where
  "run_hm_task hal (SubscribeTask opt) m = hal_subscribe_one hal opt m"
| "run_hm_task hal (UnsubscribeTask clientId propId) m = unsubscribe_client hal clientId propId m"

definition next_task :: "nat \<Rightarrow> hm_task list list \<Rightarrow> (hm_task \<times> hm_task list list) option" where
  "next_task n ts =
     (if n < length ts then (case ts ! n of [] \<Rightarrow> None | t # rest \<Rightarrow> Some (t, ts[n := rest])) else None)"

text \<open>The calls an operation makes and the tasks it leaves to do. \<open>BatchOp\<close> is the worker's flush and delivery.\<close>

fun hm_calls ::
  "'h VehicleHal \<Rightarrow> BinderEnv \<Rightarrow> VehiclePropValue \<Rightarrow> hm_op \<Rightarrow> hm_task list list \<Rightarrow> 'h VehicleHalManager \<Rightarrow>
   (hm_call list \<times> 'h VehicleHalManager) \<times> hm_task list list" where
  "hm_calls hal env fresh (GetOp v) ts m = (snd (hm_get hal v m), ts)"
| "hm_calls hal env fresh (SetOp v) ts m = (snd (hm_set hal v m), ts)"
| "hm_calls hal env fresh (SubscribeOp cb os) ts m =
     (case hm_subscribe env cb os m of (_, updated, m1) \<Rightarrow> (([], m1), ts @ [map SubscribeTask updated]))"
| "hm_calls hal env fresh (UnsubscribeOp cb p) ts m = (snd (hm_unsubscribe hal env cb p m), ts)"
| "hm_calls hal env fresh (DiedOp cookie) ts m =
     (([], m), ts @ [map (UnsubscribeTask cookie) (hm_serviceDied cookie m)])"
| "hm_calls hal env fresh (TaskOp n) ts m =
     (case next_task n ts of None \<Rightarrow> (([], m), ts) | Some (t, ts1) \<Rightarrow> (run_hm_task hal t m, ts1))"
| "hm_calls hal env fresh (HalEventOp v) ts m = (([], onHalEvent v m), ts)"
| "hm_calls hal env fresh (HalErrorOp e p a) ts m = ((onHalPropertySetError e p a m, m), ts)"
| "hm_calls hal env fresh BatchOp ts m =
     (let (items, q) = flush (hm_eventQueue m); m1 = m\<lparr>hm_eventQueue := q\<rparr>
      in (if 0 < length items then onBatchHalEvent fresh items m1 else ([], m1), ts))"

definition hm_exec ::
  "'h VehicleHal \<Rightarrow> BinderEnv \<Rightarrow> VehiclePropValue \<Rightarrow> hm_op \<Rightarrow> 'h hm_service \<Rightarrow> 'h hm_service" where
  "hm_exec hal env fresh op s =
     (let ((calls, m), ts) = hm_calls hal env fresh op (sv_threads s) (sv_manager s)
      in \<lparr>sv_manager = m, sv_threads = ts, sv_calls = sv_calls s @ calls\<rparr>)"

definition hm_start :: "'h VehicleHal \<Rightarrow> VehiclePropValue \<Rightarrow> 'h \<Rightarrow> 'h hm_service" where
  "hm_start hal fresh h = \<lparr>sv_manager = hm_init hal fresh h, sv_threads = [], sv_calls = []\<rparr>"

definition hm_run ::
  "'h VehicleHal \<Rightarrow> BinderEnv \<Rightarrow> VehiclePropValue \<Rightarrow> 'h \<Rightarrow> hm_op list \<Rightarrow> 'h hm_service" where
  "hm_run hal env fresh h ops = fold (hm_exec hal env fresh) ops (hm_start hal fresh h)"

text \<open>The subscriptions registered but not yet passed to the HAL, and the property an operation drops.\<close>

definition pending_subs :: "hm_task list list \<Rightarrow> SubscribeOptions set" where
  "pending_subs ts = {opt. \<exists>l \<in> set ts. SubscribeTask opt \<in> set l}"

definition pending_props :: "hm_task list list \<Rightarrow> i32 list" where
  "pending_props ts =
     concat (map (\<lambda>t. case t of SubscribeTask opt \<Rightarrow> [so_propId opt] | _ \<Rightarrow> []) (concat ts))"

fun dropped_prop :: "hm_task list list \<Rightarrow> hm_op \<Rightarrow> i32 list" where
  "dropped_prop ts (UnsubscribeOp cb p) = [p]"
| "dropped_prop ts (TaskOp n) =
     (case next_task n ts of Some (UnsubscribeTask c p, _) \<Rightarrow> [p] | _ \<Rightarrow> [])"
| "dropped_prop ts op = []"

text \<open>A run in which no property is dropped while a call subscribing to it has still to tell the HAL.\<close>

fun undisturbed ::
  "'h VehicleHal \<Rightarrow> BinderEnv \<Rightarrow> VehiclePropValue \<Rightarrow> hm_op list \<Rightarrow> 'h hm_service \<Rightarrow> bool" where
  "undisturbed hal env fresh [] s \<longleftrightarrow> True"
| "undisturbed hal env fresh (op # ops) s \<longleftrightarrow>
     list_all (\<lambda>p. p \<notin> set (pending_props (sv_threads s))) (dropped_prop (sv_threads s) op) \<and>
     undisturbed hal env fresh ops (hm_exec hal env fresh op s)"

lemma pending_props_set: "set (pending_props ts) = so_propId ` pending_subs ts"
  by (force simp: pending_props_def pending_subs_def split: hm_task.splits)

lemma pending_subs_append [simp]:
  "pending_subs (ts @ [map SubscribeTask os]) = pending_subs ts \<union> set os"
  "pending_subs (ts @ [map (UnsubscribeTask c) ps]) = pending_subs ts"
  by (auto simp: pending_subs_def)

lemma set_list_update_Cons:
  "n < length ts \<Longrightarrow> ts ! n = t # rest \<Longrightarrow> \<Union> (set ` set ts) = insert t (\<Union> (set ` set (ts[n := rest])))"
proof (induction ts arbitrary: n)
  case (Cons l ts)
  then show ?case by (cases n) auto
qed simp

lemma pending_next:
  assumes "next_task n ts = Some (t, ts1)"
  shows "pending_subs ts = (case t of SubscribeTask opt \<Rightarrow> {opt} | _ \<Rightarrow> {}) \<union> pending_subs ts1"
proof -
  have u: "pending_subs us = {opt. SubscribeTask opt \<in> \<Union> (set ` set us)}" for us by (auto simp: pending_subs_def)
  obtain rest where "n < length ts" "ts ! n = t # rest" "ts1 = ts[n := rest]"
    using assms by (auto simp: next_task_def split: if_splits list.splits)
  from set_list_update_Cons [OF this(1,2)] show ?thesis
    unfolding u \<open>ts1 = ts[n := rest]\<close> by (auto split: hm_task.split)
qed

definition call_ok :: "VehiclePropConfigIndex \<Rightarrow> hm_call \<Rightarrow> bool" where
  "call_ok ix call = (case call of
     HalGet v \<Rightarrow> (\<exists>c. getConfig ix (pv_prop v) = Some c \<and> checkReadPermission c)
   | HalSet v \<Rightarrow> (\<exists>c. getConfig ix (pv_prop v) = Some c \<and> checkWritePermission c)
   | HalSubscribe p r \<Rightarrow> rate_ok ix p r
   | OnPropertyEvent cb vs \<Rightarrow> vs \<noteq> []
   | _ \<Rightarrow> True)"

definition hm_inv :: "VehiclePropConfigIndex \<Rightarrow> 'h VehicleHalManager \<Rightarrow> bool" where
  "hm_inv ix m \<longleftrightarrow> hm_configIndex m = ix \<and> sub_inv (hm_subscriptions m) \<and>
     hal_rates (rate_ok ix) (hm_subscriptions m) \<and>
     length (hm_valuePool m) = kMaxHidlVecOfVehiclPropValuePoolSize"

text \<open>The properties whose car events the manager wants.\<close>

definition wanted :: "'h VehicleHalManager \<Rightarrow> i32 set" where
  "wanted m = dom (map_of (sm_halEventSubscribeOptions (hm_subscriptions m)))"

text \<open>
  What every step but those of \<open>subscribe\<close> does: it keeps the manager's invariant, makes checked calls,
  and tells the HAL to stop exactly the properties it stops wanting, all of them among \<open>D\<close>.
\<close>

definition op_good ::
  "VehiclePropConfigIndex \<Rightarrow> i32 set \<Rightarrow> 'h VehicleHalManager \<Rightarrow> hm_call list \<times> 'h VehicleHalManager \<Rightarrow> bool" where
  "op_good ix D m r \<longleftrightarrow> hm_inv ix (snd r) \<and> (\<forall>call \<in> set (fst r). call_ok ix call) \<and>
     (\<exists>P \<subseteq> D. (\<forall>T. fold hal_told (fst r) T = T - P) \<and> wanted (snd r) = wanted m - P)"

lemma op_good_quiet:
  "hm_inv ix (snd r) \<Longrightarrow> \<forall>call \<in> set (fst r). call_ok ix call \<Longrightarrow> \<forall>T. fold hal_told (fst r) T = T \<Longrightarrow>
   wanted (snd r) = wanted m \<Longrightarrow> op_good ix D m r"
  by (auto simp: op_good_def intro!: exI [of _ "{}"])

lemma op_good_same:
  "hm_inv ix m \<Longrightarrow> hm_configIndex m' = hm_configIndex m \<Longrightarrow> hm_subscriptions m' = hm_subscriptions m \<Longrightarrow>
   hm_valuePool m' = hm_valuePool m \<Longrightarrow> op_good ix D m ([], m')"
  by (rule op_good_quiet) (simp_all add: hm_inv_def wanted_def)

lemma good_get: "hm_inv ix m \<Longrightarrow> op_good ix D m (snd (hm_get hal v m))"
  by (rule op_good_quiet)
    (auto simp: hm_get_def hm_inv_def wanted_def call_ok_def getPropConfigOrNull_eq Let_def
      split: option.split prod.split)

lemma onHalEvent_parts [simp]:
  "hm_configIndex (fold onHalEvent es m) = hm_configIndex m"
  "hm_subscriptions (fold onHalEvent es m) = hm_subscriptions m"
  "hm_valuePool (fold onHalEvent es m) = hm_valuePool m"
  by (induction es arbitrary: m) (simp_all add: onHalEvent_def)

lemma good_set:
  assumes "hm_inv ix m"
  shows "op_good ix D m (snd (hm_set hal v m))"
  using assms
  by (intro op_good_quiet)
    (auto simp: hm_inv_def wanted_def hm_set_def handlePropertySetEvent_def hal_told_clients
      getPropConfigOrNull_eq call_ok_def Let_def split: option.split prod.split)

lemma addOrUpdate_hal:
  assumes inv: "sub_inv s" and P: "hal_rates P s"
    and os: "\<And>opts. opts \<in> set os \<Longrightarrow> EVENTS_FROM_CAR AND so_flags opts \<noteq> 0 \<Longrightarrow> P (so_propId opts) (so_sampleRate opts)"
    and r: "addOrUpdateSubscription cl cb lk os s = (st, out, t)"
  shows "sub_inv t \<and> hal_rates P t \<and> (\<forall>u \<in> set out. P (so_propId u) (so_sampleRate u)) \<and>
    dom (map_of (sm_halEventSubscribeOptions t)) =
      so_propId ` set out \<union> dom (map_of (sm_halEventSubscribeOptions s))"
proof (cases "st = OK")
  case True
  with r have r': "addOrUpdateSubscription cl cb lk os s = (OK, out, t)" by simp
  obtain a u where u: "sub_inv u" "map_of (sm_clients u) cl = Some a"
      "(out, t) = subscribe_loop a os u"
      "sm_halEventSubscribeOptions u = sm_halEventSubscribeOptions s"
    by (rule subscribe_OK [OF inv r']) (rule that)
  have t: "t = snd (subscribe_loop a os u)" "out = fst (subscribe_loop a os u)"
    using u(3) by (metis snd_conv, metis fst_conv)
  have "hal_rates P u" using P by (simp add: hal_rates_def u(4))
  from subscribe_loop_rates [OF u(1,2) this os] sub_inv_subscribe_loop [OF u(1,2)]
    subscribe_loop_reports [OF u(1,2), of os]
  show ?thesis unfolding t by (auto simp: u(4) dom_map_of_conv_image_fst image_image)
next
  case False
  with addOrUpdate_unfold [OF r] inv P show ?thesis by auto
qed

lemma good_subscribe:
  assumes "hm_inv ix m" "hm_subscribe env cb os m = (st, out, m')"
  shows "hm_inv ix m' \<and> wanted m' = so_propId ` set out \<union> wanted m \<and>
    (\<forall>u \<in> set out. rate_ok ix (so_propId u) (so_sampleRate u))"
proof (cases "\<forall>opts \<in> set os. option_ok ix opts")
  case True
  have ix: "hm_configIndex m = ix" using assms by (simp add: hm_inv_def)
  let ?os = "map (clamped ix) os"
  obtain st' out' t where r:
    "addOrUpdateSubscription (getClientId env cb) cb (be_linkToDeath env cb) ?os (hm_subscriptions m) = (st', out', t)"
    by (metis prod.exhaust)
  have "rate_ok ix (so_propId opts) (so_sampleRate opts)"
    if "opts \<in> set ?os" "EVENTS_FROM_CAR AND so_flags opts \<noteq> 0" for opts
    using that True option_ok_rate by (auto simp: clamped_def)
  with addOrUpdate_hal [OF _ _ _ r, of "rate_ok ix"] assms(1)
  have h: "sub_inv t \<and> hal_rates (rate_ok ix) t \<and> (\<forall>u \<in> set out'. rate_ok ix (so_propId u) (so_sampleRate u)) \<and>
      dom (map_of (sm_halEventSubscribeOptions t)) =
        so_propId ` set out' \<union> dom (map_of (sm_halEventSubscribeOptions (hm_subscriptions m)))"
    by (simp add: hm_inv_def)
  have "st' \<noteq> OK \<Longrightarrow> out' = []" using addOrUpdate_unfold [OF r] by auto
  then have "out = out'" "m' = m\<lparr>hm_subscriptions := t\<rparr>"
    using assms(2) True by (auto simp: hm_subscribe_def verifyOptions_eq ix r Let_def split: if_splits)
  then show ?thesis
    using h assms(1) by (simp add: hm_inv_def wanted_def)
next
  case False
  have ix: "hm_configIndex m = ix" using assms by (simp add: hm_inv_def)
  have "out = [] \<and> m' = m"
    using assms(2) by (simp add: hm_subscribe_def verifyOptions_eq ix if_not_P [OF False])
  with assms(1) show ?thesis by simp
qed

lemma good_unsubscribe:
  assumes "hm_inv ix m"
  shows "op_good ix {p} m (unsubscribe_client hal cl p m)"
proof -
  have inv: "sub_inv (hm_subscriptions m)" using assms by (simp add: hm_inv_def)
  obtain props t where u: "unsubscribe cl p (hm_subscriptions m) = (props, t)"
    by fastforce
  have p: "set props \<subseteq> {p}"
    and o: "map_of (sm_halEventSubscribeOptions t) =
        map_of (sm_halEventSubscribeOptions (hm_subscriptions m)) |` (- set props)"
    using unsubscribe_notifies [OF inv, of cl p] u
    by (auto simp: restrict_map_def fun_eq_iff split: if_splits)
  have t: "sub_inv t" using sub_inv_unsubscribe [OF inv, of cl p] u by simp
  obtain calls h where c: "onAllClientsUnsubscribed hal props (hm_hal m) = (calls, h)" by fastforce
  then have calls: "calls = map HalUnsubscribe props"
    using onAllClientsUnsubscribed_calls [of hal props "hm_hal m"] by simp
  show ?thesis
    using assms p t unfolding op_good_def
    by (intro conjI exI [of _ "set props"])
      (auto simp: unsubscribe_client_def u c calls hal_told_unsubscribes call_ok_def hm_inv_def wanted_def
        hal_rates_def o restrict_map_def split: if_splits)
qed

lemma good_batch:
  assumes "hm_inv ix m"
  shows "op_good ix D m (onBatchHalEvent fresh vs m)"
proof -
  let ?cvs = "distributeValuesToClients vs EVENTS_FROM_CAR (hm_subscriptions m)"
  have "length (hm_valuePool m) = kMaxHidlVecOfVehiclPropValuePoolSize" "sub_inv (hm_subscriptions m)"
    using assms by (simp_all add: hm_inv_def)
  note n = notify_clients_eq [OF this(1), of fresh "hm_subscriptions m" ?cvs]
    and e = distribute_entry [OF this(2), of _ _ vs EVENTS_FROM_CAR]
  have "call_ok ix (OnPropertyEvent (callback_of (hm_subscriptions m) (fst cv)) (snd cv))" if "cv \<in> set ?cvs" for cv
  proof -
    have "snd cv \<noteq> []" using e [of "fst cv" "snd cv"] that by (metis prod.collapse)
    then show ?thesis by (simp add: call_ok_def)
  qed
  then show ?thesis
    using n assms
    by (intro op_good_quiet)
      (auto simp: onBatchHalEvent_def hm_inv_def wanted_def hal_told_events Let_def split: prod.split)
qed

lemma op_good_from:
  "op_good ix D m' r \<Longrightarrow> wanted m' = wanted m \<Longrightarrow> op_good ix D m r"
  by (simp add: op_good_def)

lemma good_BatchOp:
  assumes "hm_inv ix m"
  shows "op_good ix D m (fst (hm_calls hal env fresh BatchOp ts m))"
proof -
  obtain items q where f: "flush (hm_eventQueue m) = (items, q)" by fastforce
  have same: "hm_inv ix (m\<lparr>hm_eventQueue := q\<rparr>)" "wanted (m\<lparr>hm_eventQueue := q\<rparr>) = wanted m"
    using assms by (simp_all add: hm_inv_def wanted_def)
  show ?thesis
    using op_good_from [OF good_batch [OF same(1)] same(2)] op_good_same [OF assms] by (auto simp: f Let_def)
qed

lemma good_HalErrorOp:
  "hm_inv ix m \<Longrightarrow> op_good ix D m (onHalPropertySetError e p a m, m)"
  by (rule op_good_quiet) (auto simp: onHalPropertySetError_def hal_told_clients call_ok_def)

text \<open>The properties the HAL has been told to deliver.\<close>

definition told :: "'h hm_service \<Rightarrow> i32 set" where
  "told s = fold hal_told (sv_calls s) {}"

definition unfinished :: "'h hm_service \<Rightarrow> i32 set" where
  "unfinished s = so_propId ` pending_subs (sv_threads s)"

definition service_inv :: "VehiclePropConfigIndex \<Rightarrow> 'h hm_service \<Rightarrow> bool" where
  "service_inv ix s \<longleftrightarrow> hm_inv ix (sv_manager s) \<and> (\<forall>call \<in> set (sv_calls s). call_ok ix call) \<and>
     (\<forall>opt \<in> pending_subs (sv_threads s). rate_ok ix (so_propId opt) (so_sampleRate opt)) \<and>
     wanted (sv_manager s) \<subseteq> told s \<union> unfinished s"

text \<open>Steps that leave the pending subscriptions as they are.\<close>

lemma exec_good:
  assumes s: "service_inv ix s"
    and g: "op_good ix D (sv_manager s) (fst (hm_calls hal env fresh op (sv_threads s) (sv_manager s)))"
    and p: "pending_subs (snd (hm_calls hal env fresh op (sv_threads s) (sv_manager s))) = pending_subs (sv_threads s)"
  shows "service_inv ix (hm_exec hal env fresh op s) \<and>
    (told s \<union> unfinished s = wanted (sv_manager s) \<and> D \<inter> unfinished s = {} \<longrightarrow>
     (let t = hm_exec hal env fresh op s in told t \<union> unfinished t = wanted (sv_manager t)))"
proof -
  obtain calls m ts where r: "hm_calls hal env fresh op (sv_threads s) (sv_manager s) = ((calls, m), ts)"
    by (metis prod.exhaust)
  obtain P where P: "P \<subseteq> D" "\<And>T. fold hal_told calls T = T - P" "wanted m = wanted (sv_manager s) - P"
    using g by (auto simp: op_good_def r)
  have "told (hm_exec hal env fresh op s) = told s - P" "unfinished (hm_exec hal env fresh op s) = unfinished s"
    using p by (simp_all add: told_def unfinished_def hm_exec_def r P(2))
  moreover have "sv_manager (hm_exec hal env fresh op s) = m" "sv_calls (hm_exec hal env fresh op s) = sv_calls s @ calls"
      "pending_subs (sv_threads (hm_exec hal env fresh op s)) = pending_subs (sv_threads s)"
    using p by (simp_all add: hm_exec_def r)
  ultimately show ?thesis
    using s g P(1,3) by (auto simp: service_inv_def op_good_def r Let_def)
qed

lemma exec_subscribe:
  assumes s: "service_inv ix s"
  shows "service_inv ix (hm_exec hal env fresh (SubscribeOp cb os) s) \<and>
    (told s \<union> unfinished s = wanted (sv_manager s) \<longrightarrow>
     (let t = hm_exec hal env fresh (SubscribeOp cb os) s in told t \<union> unfinished t = wanted (sv_manager t)))"
proof -
  obtain st out m where r: "hm_subscribe env cb os (sv_manager s) = (st, out, m)" by (metis prod.exhaust)
  have "hm_inv ix (sv_manager s)" using s by (simp add: service_inv_def)
  note g = good_subscribe [OF this r]
  show ?thesis
    using s g by (auto simp: service_inv_def hm_exec_def r told_def unfinished_def)
qed

lemma exec_subscribe_task:
  assumes s: "service_inv ix s" and n: "next_task n (sv_threads s) = Some (SubscribeTask opt, ts)"
  shows "service_inv ix (hm_exec hal env fresh (TaskOp n) s) \<and>
    (told s \<union> unfinished s = wanted (sv_manager s) \<longrightarrow>
     (let t = hm_exec hal env fresh (TaskOp n) s in told t \<union> unfinished t = wanted (sv_manager t)))"
proof -
  have p: "pending_subs (sv_threads s) = insert opt (pending_subs ts)" using pending_next [OF n] by simp
  then have "rate_ok ix (so_propId opt) (so_sampleRate opt)" using s by (simp add: service_inv_def)
  then show ?thesis
    using s by (auto simp: service_inv_def hm_exec_def n told_def unfinished_def hal_subscribe_one_def p
        hm_inv_def wanted_def call_ok_def Let_def split: prod.split)
qed

lemma service_step:
  assumes s: "service_inv ix s"
  shows "service_inv ix (hm_exec hal env fresh op s) \<and>
    (told s \<union> unfinished s = wanted (sv_manager s) \<and>
     list_all (\<lambda>p. p \<notin> set (pending_props (sv_threads s))) (dropped_prop (sv_threads s) op) \<longrightarrow>
     (let t = hm_exec hal env fresh op s in told t \<union> unfinished t = wanted (sv_manager t)))"
proof -
  have m: "hm_inv ix (sv_manager s)" using s by (simp add: service_inv_def)
  note q = exec_good [OF s, of "{}"]
  show ?thesis
  proof (cases op)
    case (SubscribeOp cb os)
    then show ?thesis using exec_subscribe [OF s] by simp
  next
    case (UnsubscribeOp cb p)
    show ?thesis
      using exec_good [OF s, of "{p}" hal env fresh op] good_unsubscribe [OF m]
      by (simp add: UnsubscribeOp hm_unsubscribe_def pending_props_set unfinished_def)
  next
    case (TaskOp n)
    show ?thesis
    proof (cases "next_task n (sv_threads s)")
      case None
      then show ?thesis using q [of hal env fresh op] op_good_same [OF m] by (simp add: TaskOp)
    next
      case (Some tt)
      obtain t ts where tt: "tt = (t, ts)" by (cases tt)
      show ?thesis
      proof (cases t)
        case (SubscribeTask opt)
        then show ?thesis using exec_subscribe_task [OF s, of n opt ts hal env fresh] Some by (simp add: TaskOp tt)
      next
        case (UnsubscribeTask cl p)
        show ?thesis
          using exec_good [OF s, of "{p}" hal env fresh op] good_unsubscribe [OF m] pending_next [of n "sv_threads s" t ts]
          by (simp add: TaskOp Some tt UnsubscribeTask pending_props_set unfinished_def)
      qed
    qed
  next
    case BatchOp
    show ?thesis using q [of hal env fresh op] good_BatchOp [OF m] by (simp add: BatchOp Let_def split: prod.split)
  next
    case (HalErrorOp e p a)
    then show ?thesis using q [of hal env fresh op] good_HalErrorOp [OF m] by simp
  next
    case (GetOp v)
    then show ?thesis using q [of hal env fresh op] good_get [OF m] by simp
  next
    case (SetOp v)
    then show ?thesis using q [of hal env fresh op] good_set [OF m] by simp
  next
    case (DiedOp cookie)
    then show ?thesis using q [of hal env fresh op] op_good_same [OF m] by simp
  next
    case (HalEventOp v)
    then show ?thesis using q [of hal env fresh op] op_good_same [OF m] by (simp add: onHalEvent_def)
  qed
qed

interpretation service: op_system "service_inv ix" "hm_exec hal env fresh" for ix hal env fresh
  by unfold_locales (rule conjunct1 [OF service_step])

lemma service_init: "service_inv (hm_configIndex (hm_init hal fresh h)) (hm_start hal fresh h)"
  by (auto simp: service_inv_def hm_start_def hm_inv_def hm_init_def wanted_def sub_inv_empty hal_rates_def
      pending_subs_def empty_subscriptions_def sub_inv_defs split: prod.split)

lemma hm_run_inv: "service_inv (hm_configIndex (hm_init hal fresh h)) (hm_run hal env fresh h ops)"
  unfolding hm_run_def by (rule service.run_inv [OF service_init])

lemma undisturbed_exact:
  "service_inv ix s \<Longrightarrow> told s \<union> unfinished s = wanted (sv_manager s) \<Longrightarrow> undisturbed hal env fresh ops s \<Longrightarrow>
   told (fold (hm_exec hal env fresh) ops s) \<union> unfinished (fold (hm_exec hal env fresh) ops s) =
   wanted (sv_manager (fold (hm_exec hal env fresh) ops s))"
proof (induction ops arbitrary: s)
  case (Cons op ops)
  then show ?case
    using service_step [OF Cons.prems(1), of hal env fresh op] by (simp add: Let_def)
qed simp

lemma start_exact: "told (hm_start hal fresh h) \<union> unfinished (hm_start hal fresh h) = wanted (sv_manager (hm_start hal fresh h))"
  by (auto simp: told_def unfinished_def hm_start_def pending_subs_def wanted_def hm_init_def empty_subscriptions_def
      split: prod.split)

subsection \<open>Properties\<close>

text \<open>A HAL with one readable and writable on-change property, and a run of the service over it.\<close>

definition demo_config :: VehiclePropConfig where
  "demo_config = \<lparr>pc_prop = 5, pc_access = ACCESS_READ_WRITE, pc_changeMode = ON_CHANGE, pc_areaConfigs = [],
     pc_configArray = [], pc_configString = [], pc_minSampleRate = 0, pc_maxSampleRate = 0\<rparr>"

definition demo_hal :: "nat VehicleHal" where
  "demo_hal = \<lparr>hal_listProperties = \<lambda>_. [demo_config],
     hal_get = \<lambda>v n. (Some v, OK, n), hal_set = \<lambda>v n. (OK, [v], n + 1),
     hal_subscribe = \<lambda>p r n. (OK, n), hal_unsubscribe = \<lambda>p n. (OK, n), hal_onCreate = \<lambda>n. ([], n)\<rparr>"

definition demo_env :: BinderEnv where
  "demo_env = \<lparr>be_isRemote = \<lambda>_. False, be_onAsBinder = \<lambda>cb. cb, be_linkToDeath = \<lambda>_. True\<rparr>"

definition demo_event :: VehiclePropValue where
  "demo_event = kEmptyValue\<lparr>pv_prop := 5\<rparr>"

definition demo_ops :: "hm_op list" where
  "demo_ops = [SubscribeOp 3 [\<lparr>so_propId = 5, so_sampleRate = 0x40000000, so_flags = 3\<rparr>], TaskOp 0, SetOp demo_event,
               SetOp (demo_event\<lparr>pv_prop := 6\<rparr>), GetOp demo_event, BatchOp, UnsubscribeOp 3 5, BatchOp]"

definition demo_run :: "nat hm_service" where
  "demo_run = hm_run demo_hal demo_env kEmptyValue 0 demo_ops"

lemma demo_run_calls:
  "sv_calls demo_run = [HalSubscribe 5 0, OnPropertySet 3 demo_event, HalSet demo_event, HalGet demo_event,
                   OnPropertyEvent 3 [demo_event], HalUnsubscribe 5]"
  by code_simp

lemma demo_run_undisturbed: "undisturbed demo_hal demo_env kEmptyValue demo_ops (hm_start demo_hal kEmptyValue 0)"
  by code_simp

text \<open>
  C3: over every run of the service, for every vendor HAL and every interleaving of its threads. The HAL
  is only asked to get properties configured readable, to set properties configured writable, and to
  deliver readable, non-static properties at a rate clamped to the configured range; the subscriptions a
  thread has still to pass on are checked too. Every property the subscription manager holds options for
  is one the HAL has been told to deliver (the balance of its subscribe and unsubscribe calls), or one a
  thread is about to tell it. If in the run no property is dropped while a thread has still to tell the HAL
  to deliver it, the HAL delivers no other.
\<close>

theorem service_calls_checked:
  assumes "hm_run hal env fresh h ops = s"
  shows "sub_inv (hm_subscriptions (sv_manager s)) \<and>
    (\<forall>v. HalGet v \<in> set (sv_calls s) \<longrightarrow>
       (\<exists>c. getConfig (hm_configIndex (sv_manager s)) (pv_prop v) = Some c \<and> checkReadPermission c)) \<and>
    (\<forall>v. HalSet v \<in> set (sv_calls s) \<longrightarrow>
       (\<exists>c. getConfig (hm_configIndex (sv_manager s)) (pv_prop v) = Some c \<and> checkWritePermission c)) \<and>
    (\<forall>p r. HalSubscribe p r \<in> set (sv_calls s) \<or>
           (\<exists>opt \<in> pending_subs (sv_threads s). p = so_propId opt \<and> r = so_sampleRate opt) \<longrightarrow>
       (\<exists>c x. getConfig (hm_configIndex (sv_manager s)) p = Some c \<and> checkReadPermission c \<and>
              pc_changeMode c \<noteq> STATIC \<and> r = checkSampleRate c x)) \<and>
    dom (map_of (sm_halEventSubscribeOptions (hm_subscriptions (sv_manager s))))
      \<subseteq> fold hal_told (sv_calls s) {} \<union> so_propId ` pending_subs (sv_threads s) \<and>
    (undisturbed hal env fresh ops (hm_start hal fresh h) \<longrightarrow>
       fold hal_told (sv_calls s) {} \<union> so_propId ` pending_subs (sv_threads s) =
       dom (map_of (sm_halEventSubscribeOptions (hm_subscriptions (sv_manager s)))))"
proof -
  let ?ix = "hm_configIndex (sv_manager s)"
  have "service_inv ?ix s"
    using hm_run_inv [of hal fresh h env ops] assms by (auto simp: service_inv_def hm_inv_def)
  then have inv: "sub_inv (hm_subscriptions (sv_manager s))" "wanted (sv_manager s) \<subseteq> told s \<union> unfinished s"
      and ok: "\<And>call. call \<in> set (sv_calls s) \<Longrightarrow> call_ok ?ix call"
      and pend: "\<And>opt. opt \<in> pending_subs (sv_threads s) \<Longrightarrow> rate_ok ?ix (so_propId opt) (so_sampleRate opt)"
    by (simp_all add: service_inv_def hm_inv_def)
  have "told s \<union> unfinished s = wanted (sv_manager s)" if "undisturbed hal env fresh ops (hm_start hal fresh h)"
    unfolding assms [symmetric] hm_run_def by (rule undisturbed_exact [OF service_init start_exact that])
  then show ?thesis
    using inv ok [of "HalGet _"] ok [of "HalSet _"] ok [of "HalSubscribe _ _"] pend
    unfolding wanted_def told_def unfinished_def
    by (auto simp: call_ok_def rate_ok_def)
qed

theorem service_calls_checked_witness:
  "(\<exists>c. getConfig (hm_configIndex (sv_manager demo_run)) 5 = Some c \<and> checkReadPermission c) \<and>
   (\<exists>c. getConfig (hm_configIndex (sv_manager demo_run)) 5 = Some c \<and> checkWritePermission c) \<and>
   fold hal_told (sv_calls demo_run) {} \<union> so_propId ` pending_subs (sv_threads demo_run) =
     dom (map_of (sm_halEventSubscribeOptions (hm_subscriptions (sv_manager demo_run))))"
proof -
  have "hm_run demo_hal demo_env kEmptyValue 0 demo_ops = demo_run" by (simp add: demo_run_def)
  from service_calls_checked [OF this] demo_run_undisturbed show ?thesis
    by (auto simp: demo_run_calls demo_event_def)
qed

text \<open>
  The race that \<open>undisturbed\<close> leaves out. One thread registers a subscription; before it tells the HAL,
  another call drops it again and tells the HAL to stop; then the first thread tells the HAL to deliver.
  Nobody wants the property and no task is left, but the HAL goes on delivering it.
\<close>

definition race_ops :: "hm_op list" where
  "race_ops = [SubscribeOp 3 [\<lparr>so_propId = 5, so_sampleRate = 0, so_flags = 1\<rparr>], UnsubscribeOp 3 5, TaskOp 0]"

theorem late_subscribe_outlives_client:
  "fold hal_told (sv_calls (hm_run demo_hal demo_env kEmptyValue 0 race_ops)) {} = {5} \<and>
   sm_halEventSubscribeOptions (hm_subscriptions (sv_manager (hm_run demo_hal demo_env kEmptyValue 0 race_ops))) = [] \<and>
   concat (sv_threads (hm_run demo_hal demo_env kEmptyValue 0 race_ops)) = []"
proof -
  have "sv_calls (hm_run demo_hal demo_env kEmptyValue 0 race_ops) = [HalUnsubscribe 5, HalSubscribe 5 0]"
    and "sm_halEventSubscribeOptions (hm_subscriptions (sv_manager (hm_run demo_hal demo_env kEmptyValue 0 race_ops))) = []"
    and "concat (sv_threads (hm_run demo_hal demo_env kEmptyValue 0 race_ops)) = []"
    by code_simp+
  then show ?thesis by simp
qed

text \<open>
  \<open>subscribe\<close> is all or nothing. If one option names an unknown property, has no flags, asks for
  car events of an unreadable property or names a static one, nothing changes and nothing is called;
  otherwise the options are registered with their rates clamped and exactly the updates the subscription
  manager reports are left to be passed to the HAL.
\<close>

theorem subscribe_all_or_nothing:
  "if \<forall>opts \<in> set os. option_ok (hm_configIndex m) opts
   then case addOrUpdateSubscription (getClientId env cb) cb (be_linkToDeath env cb)
               (map (clamped (hm_configIndex m)) os) (hm_subscriptions m) of
          (res, out, s) \<Rightarrow> hm_subscribe env cb os m = (res, out, m\<lparr>hm_subscriptions := s\<rparr>)
   else hm_subscribe env cb os m = (INVALID_ARG, [], m)"
proof (cases "\<forall>opts \<in> set os. option_ok (hm_configIndex m) opts")
  case True
  obtain res out s where r: "addOrUpdateSubscription (getClientId env cb) cb (be_linkToDeath env cb)
      (map (clamped (hm_configIndex m)) os) (hm_subscriptions m) = (res, out, s)"
    by (metis prod.exhaust)
  have "res \<noteq> OK \<Longrightarrow> out = []" using addOrUpdate_unfold [OF r] by auto
  then show ?thesis
    using True r by (auto simp: hm_subscribe_def verifyOptions_eq Let_def)
next
  case False
  show ?thesis
    unfolding if_not_P [OF False] by (simp add: hm_subscribe_def verifyOptions_eq if_not_P [OF False])
qed

theorem subscribe_all_or_nothing_witness:
  "hm_subscribe demo_env 3 [\<lparr>so_propId = 5, so_sampleRate = 0, so_flags = 1\<rparr>,
      \<lparr>so_propId = 6, so_sampleRate = 0, so_flags = 1\<rparr>] (sv_manager demo_run) = (INVALID_ARG, [], sv_manager demo_run)"
proof -
  let ?os = "[\<lparr>so_propId = 5, so_sampleRate = 0, so_flags = 1\<rparr>, \<lparr>so_propId = 6, so_sampleRate = 0, so_flags = 1\<rparr>]"
  have "getConfig (hm_configIndex (sv_manager demo_run)) 6 = None" by code_simp
  then have "\<not> (\<forall>opts \<in> set ?os. option_ok (hm_configIndex (sv_manager demo_run)) opts)"
    by (simp add: option_ok_def)
  with subscribe_all_or_nothing [of ?os "sv_manager demo_run" demo_env 3] show ?thesis by (simp only: if_False)
qed

text \<open>
  C9: a batch makes one \<open>onPropertyEvent\<close> call for each client that listens to at least one of its values
  and no other call. The call holds exactly the values that client listens to, in their order, whatever
  the reused vector of the pool held before; nothing else of the service changes.
\<close>

theorem batch_delivers:
  assumes "sub_inv (hm_subscriptions m)"
    "length (hm_valuePool m) = kMaxHidlVecOfVehiclPropValuePoolSize"
    "onBatchHalEvent fresh vs m = (calls, m')"
  shows "\<exists>clients. distinct clients \<and>
    set clients = {a. \<exists>v \<in> set vs. a \<in> set (getSubscribedClients (pv_prop v) EVENTS_FROM_CAR (hm_subscriptions m))} \<and>
    calls = map (\<lambda>a. OnPropertyEvent (callback_of (hm_subscriptions m) a)
        (filter (\<lambda>v. a \<in> set (getSubscribedClients (pv_prop v) EVENTS_FROM_CAR (hm_subscriptions m))) vs)) clients \<and>
    m' = m\<lparr>hm_valuePool := hm_valuePool m'\<rparr> \<and>
    length (hm_valuePool m') = kMaxHidlVecOfVehiclPropValuePoolSize"
proof -
  let ?d = "distributeValuesToClients vs EVENTS_FROM_CAR (hm_subscriptions m)"
  have n: "calls = map (\<lambda>cv. OnPropertyEvent (callback_of (hm_subscriptions m) (fst cv)) (snd cv)) ?d"
      "m' = m\<lparr>hm_valuePool := hm_valuePool m'\<rparr>" "length (hm_valuePool m') = kMaxHidlVecOfVehiclPropValuePoolSize"
    using assms(3) notify_clients_eq [OF assms(2), of fresh "hm_subscriptions m" ?d]
    by (auto simp: onBatchHalEvent_def Let_def split: prod.splits)
  have e: "snd cv = filter (\<lambda>v. fst cv \<in> set (getSubscribedClients (pv_prop v) EVENTS_FROM_CAR (hm_subscriptions m))) vs"
    if "cv \<in> set ?d" for cv
    using distribute_entry [OF assms(1), of "fst cv" "snd cv" vs EVENTS_FROM_CAR] that by (simp add: listens_def)
  have "calls = map (\<lambda>a. OnPropertyEvent (callback_of (hm_subscriptions m) a)
      (filter (\<lambda>v. a \<in> set (getSubscribedClients (pv_prop v) EVENTS_FROM_CAR (hm_subscriptions m))) vs)) (map fst ?d)"
    unfolding n(1) map_map by (rule map_cong [OF refl]) (simp only: e o_apply)
  then show ?thesis
    using distribute_clients [OF assms(1), of vs EVENTS_FROM_CAR] n(2,3)
    by (intro exI [of _ "map fst ?d"]) simp
qed

theorem batch_delivers_witness:
  "\<exists>clients. distinct clients \<and> set clients = {1 :: client_addr} \<and>
     fst (onBatchHalEvent kEmptyValue [demo_event, demo_event\<lparr>pv_prop := 6\<rparr>]
       (sv_manager (hm_run demo_hal demo_env kEmptyValue 0 (take 1 demo_ops)))) =
     map (\<lambda>a. OnPropertyEvent 3 [demo_event]) clients"
proof -
  let ?m = "sv_manager (hm_run demo_hal demo_env kEmptyValue 0 (take 1 demo_ops))"
  let ?vs = "[demo_event, demo_event\<lparr>pv_prop := 6\<rparr>]"
  have inv: "sub_inv (hm_subscriptions ?m)" "length (hm_valuePool ?m) = kMaxHidlVecOfVehiclPropValuePoolSize"
    using hm_run_inv [of demo_hal kEmptyValue 0 demo_env "take 1 demo_ops"]
    by (simp_all add: service_inv_def hm_inv_def)
  have d: "getSubscribedClients 5 EVENTS_FROM_CAR (hm_subscriptions ?m) = [1]"
      "getSubscribedClients 6 EVENTS_FROM_CAR (hm_subscriptions ?m) = []"
      "callback_of (hm_subscriptions ?m) 1 = 3"
    by code_simp+
  have p: "pv_prop demo_event = 5" by (simp add: demo_event_def)
  have d6: "{a. \<exists>v \<in> set ?vs. a \<in> set (getSubscribedClients (pv_prop v) EVENTS_FROM_CAR (hm_subscriptions ?m))} = {1}"
    by (simp add: p d del: One_nat_def)
  obtain calls m' where r: "onBatchHalEvent kEmptyValue ?vs ?m = (calls, m')" by fastforce
  obtain clients where c: "distinct clients"
      "set clients = {a. \<exists>v \<in> set ?vs. a \<in> set (getSubscribedClients (pv_prop v) EVENTS_FROM_CAR (hm_subscriptions ?m))}"
      "calls = map (\<lambda>a. OnPropertyEvent (callback_of (hm_subscriptions ?m) a)
         (filter (\<lambda>v. a \<in> set (getSubscribedClients (pv_prop v) EVENTS_FROM_CAR (hm_subscriptions ?m))) ?vs)) clients"
    using batch_delivers [OF inv r] by (elim exE conjE) (rule that)
  have set: "set clients = {1}" unfolding c(2) by (rule d6)
  have "calls = map (\<lambda>a. OnPropertyEvent 3 [demo_event]) clients"
    unfolding c(3) by (rule map_cong [OF refl]) (use set in \<open>simp add: d p del: One_nat_def\<close>)
  with c(1) set show ?thesis unfolding r fst_conv by blast
qed

text \<open>
  \<open>getPropConfigs\<close> calls its callback once for every unknown property it is asked for, with
  \<open>INVALID_ARG\<close>, and then always once more with \<open>OK\<close> and the configurations it found: the reply is a
  single one only when every property is known.
\<close>

theorem getPropConfigs_replies:
  "getPropConfigs props m =
     map (\<lambda>_. (INVALID_ARG, [])) (filter (\<lambda>p. getConfig (hm_configIndex m) p = None) props) @
     [(OK, map (\<lambda>p. the (getConfig (hm_configIndex m) p))
             (filter (\<lambda>p. getConfig (hm_configIndex m) p \<noteq> None) props))]"
proof -
  have "getPropConfigs_loop ix props cs =
     map (\<lambda>_. (INVALID_ARG, [])) (filter (\<lambda>p. getConfig ix p = None) props) @
     [(OK, cs @ map (\<lambda>p. the (getConfig ix p)) (filter (\<lambda>p. getConfig ix p \<noteq> None) props))]" for ix cs
    by (induction props arbitrary: cs) (auto simp: hasConfig_def getConfig_def)
  then show ?thesis by (simp add: getPropConfigs_def)
qed

end
