(* ===== verification/Vms.thy ===== *)
theory Vms
  imports VehicleTypes
begin

text \<open>
  VmsUtils (common/include/vhal_v2_0/VmsUtils.h, common/src/VmsUtils.cpp): creating and parsing the
  messages of the Vehicle Map Service, which travel in the \<open>int32Values\<close> and \<open>bytes\<close> of a value of
  the property VEHICLE_MAP_SERVICE.

  A \<open>std::string\<close> of packet bytes is a list of bytes. A read of \<open>int32Values\<close> beyond its end is the
  outcome \<open>OutOfBounds\<close> of a parser, so that its absence can be proved. The positions in a message are
  32-bit \<open>int\<close>s: every addition to one is checked, and the outcome \<open>Overflow\<close> says that it left the range.
\<close>

subsection \<open>Data\<close>

record VmsLayer =
  vl_type :: i32
  vl_subtype :: i32
  vl_version :: i32

record VmsLayerAndPublisher =
  lp_layer :: VmsLayer
  lp_publisher_id :: i32

record VmsAssociatedLayer =
  al_layer :: VmsLayer
  al_publisher_ids :: "i32 list"

record VmsLayerOffering =
  lo_layer :: VmsLayer
  lo_dependencies :: "VmsLayer list"

record VmsOffers =
  of_publisher_id :: i32
  of_offerings :: "VmsLayerOffering list"

datatype VmsSessionStatus = kNewServerSession | kAckToCurrentSession | kInvalidMessage

text \<open>VmsMessageType and the positions of the fields\<close>

abbreviation "VMS_SUBSCRIBE \<equiv> 1 :: i32"
abbreviation "VMS_SUBSCRIBE_TO_PUBLISHER \<equiv> 2 :: i32"
abbreviation "VMS_UNSUBSCRIBE \<equiv> 3 :: i32"
abbreviation "VMS_UNSUBSCRIBE_TO_PUBLISHER \<equiv> 4 :: i32"
abbreviation "VMS_OFFERING \<equiv> 5 :: i32"
abbreviation "VMS_AVAILABILITY_REQUEST \<equiv> 6 :: i32"
abbreviation "VMS_SUBSCRIPTIONS_REQUEST \<equiv> 7 :: i32"
abbreviation "VMS_AVAILABILITY_RESPONSE \<equiv> 8 :: i32"
abbreviation "VMS_AVAILABILITY_CHANGE \<equiv> 9 :: i32"
abbreviation "VMS_SUBSCRIPTIONS_RESPONSE \<equiv> 10 :: i32"
abbreviation "VMS_SUBSCRIPTIONS_CHANGE \<equiv> 11 :: i32"
abbreviation "VMS_DATA \<equiv> 12 :: i32"
abbreviation "VMS_PUBLISHER_ID_REQUEST \<equiv> 13 :: i32"
abbreviation "VMS_PUBLISHER_ID_RESPONSE \<equiv> 14 :: i32"
abbreviation "VMS_START_SESSION \<equiv> 17 :: i32"

definition VEHICLE_MAP_SERVICE :: i32 where
  "VEHICLE_MAP_SERVICE = 0x0C00 OR GROUP_SYSTEM OR TYPE_MIXED OR AREA_GLOBAL"

text \<open>The message header has one integer; a layer has three, a layer with a publisher four.\<close>

definition kMessageTypeSize :: nat where "kMessageTypeSize = 1"
definition kPublisherIdSize :: nat where "kPublisherIdSize = 1"
definition kLayerNumberSize :: nat where "kLayerNumberSize = 1"
definition kLayerSize :: nat where "kLayerSize = 3"
definition kLayerAndPublisherSize :: nat where "kLayerAndPublisherSize = 4"
definition kSessionIdsSize :: nat where "kSessionIdsSize = 2"
definition kMessageIndex :: nat where "kMessageIndex = 0"
definition kPublisherIdIndex :: nat where "kPublisherIdIndex = 1"
definition kSubscriptionStateSequenceNumberIndex :: nat where
  "kSubscriptionStateSequenceNumberIndex = 1"
definition kAvailabilitySequenceNumberIndex :: nat where
  "kAvailabilitySequenceNumberIndex = 1"
definition kFirstMessageType :: i32 where "kFirstMessageType = VMS_SUBSCRIBE"
definition kLastMessageType :: i32 where "kLastMessageType = VMS_START_SESSION"

lemmas vms_sizes = kMessageTypeSize_def kPublisherIdSize_def kLayerNumberSize_def kLayerSize_def
  kLayerAndPublisherSize_def kSessionIdsSize_def kMessageIndex_def kPublisherIdIndex_def
  kSubscriptionStateSequenceNumberIndex_def kAvailabilitySequenceNumberIndex_def
  kFirstMessageType_def kLastMessageType_def

subsection \<open>Creating messages\<close>

definition createBaseVmsMessage :: "VehiclePropValue \<Rightarrow> nat \<Rightarrow> VehiclePropValue option" where
  "createBaseVmsMessage fresh message_size =
     map_option (\<lambda>result. result\<lparr>pv_prop := VEHICLE_MAP_SERVICE, pv_areaId := AREA_GLOBAL\<rparr>)
       (createVehiclePropValue fresh TYPE_INT32 message_size)"

text \<open>\<open>result->value.int32Values = ...\<close> and \<open>result->value.bytes = ...\<close>\<close>

definition set_ints :: "i32 list \<Rightarrow> VehiclePropValue \<Rightarrow> VehiclePropValue" where
  "set_ints vals v = v\<lparr>pv_value := (pv_value v)\<lparr>int32Values := vals\<rparr>\<rparr>"

definition set_bytes :: "u8 list \<Rightarrow> VehiclePropValue \<Rightarrow> VehiclePropValue" where
  "set_bytes bs v = v\<lparr>pv_value := (pv_value v)\<lparr>bytes := bs\<rparr>\<rparr>"

definition createSubscribeMessage :: "VehiclePropValue \<Rightarrow> VmsLayer \<Rightarrow> VehiclePropValue option" where
  "createSubscribeMessage fresh layer =
     map_option (set_ints [VMS_SUBSCRIBE, vl_type layer, vl_subtype layer, vl_version layer])
       (createBaseVmsMessage fresh (kMessageTypeSize + kLayerSize))"

definition createSubscribeToPublisherMessage ::
  "VehiclePropValue \<Rightarrow> VmsLayerAndPublisher \<Rightarrow> VehiclePropValue option" where
  "createSubscribeToPublisherMessage fresh lp =
     map_option (set_ints [VMS_SUBSCRIBE_TO_PUBLISHER, vl_type (lp_layer lp), vl_subtype (lp_layer lp),
                           vl_version (lp_layer lp), lp_publisher_id lp])
       (createBaseVmsMessage fresh (kMessageTypeSize + kLayerAndPublisherSize))"

definition createUnsubscribeMessage :: "VehiclePropValue \<Rightarrow> VmsLayer \<Rightarrow> VehiclePropValue option" where
  "createUnsubscribeMessage fresh layer =
     map_option (set_ints [VMS_UNSUBSCRIBE, vl_type layer, vl_subtype layer, vl_version layer])
       (createBaseVmsMessage fresh (kMessageTypeSize + kLayerSize))"

definition createUnsubscribeToPublisherMessage ::
  "VehiclePropValue \<Rightarrow> VmsLayerAndPublisher \<Rightarrow> VehiclePropValue option" where
  "createUnsubscribeToPublisherMessage fresh lp =
     map_option (set_ints [VMS_UNSUBSCRIBE_TO_PUBLISHER, vl_type (lp_layer lp), vl_subtype (lp_layer lp),
                           vl_version (lp_layer lp), lp_publisher_id lp])
       (createBaseVmsMessage fresh (kMessageTypeSize + kLayerAndPublisherSize))"

text \<open>\<open>static_cast<int>\<close> of a vector's size wraps.\<close>

definition offering_ints :: "VmsLayerOffering \<Rightarrow> i32 list" where
  "offering_ints offer =
     [vl_type (lo_layer offer), vl_subtype (lo_layer offer), vl_version (lo_layer offer),
      wrap32 (int (length (lo_dependencies offer)))] @
     concat (map (\<lambda>d. [vl_type d, vl_subtype d, vl_version d]) (lo_dependencies offer))"

definition offering_size :: "VmsOffers \<Rightarrow> nat" where
  "offering_size offers = fold (\<lambda>offer message_size.
       message_size + (kLayerSize + kLayerNumberSize + length (lo_dependencies offer) * kLayerSize))
     (of_offerings offers) (kMessageTypeSize + kPublisherIdSize + kLayerNumberSize)"

definition createOfferingMessage :: "VehiclePropValue \<Rightarrow> VmsOffers \<Rightarrow> VehiclePropValue option" where
  "createOfferingMessage fresh offers =
     map_option (set_ints (fold (\<lambda>offer offerings. offerings @ offering_ints offer) (of_offerings offers)
                  [VMS_OFFERING, of_publisher_id offers, wrap32 (int (length (of_offerings offers)))]))
       (createBaseVmsMessage fresh (offering_size offers))"

definition createAvailabilityRequest :: "VehiclePropValue \<Rightarrow> VehiclePropValue option" where
  "createAvailabilityRequest fresh =
     map_option (set_ints [VMS_AVAILABILITY_REQUEST]) (createBaseVmsMessage fresh kMessageTypeSize)"

definition createSubscriptionsRequest :: "VehiclePropValue \<Rightarrow> VehiclePropValue option" where
  "createSubscriptionsRequest fresh =
     map_option (set_ints [VMS_SUBSCRIPTIONS_REQUEST]) (createBaseVmsMessage fresh kMessageTypeSize)"

definition createDataMessageWithLayerPublisherInfo ::
  "VehiclePropValue \<Rightarrow> VmsLayerAndPublisher \<Rightarrow> u8 list \<Rightarrow> VehiclePropValue option" where
  "createDataMessageWithLayerPublisherInfo fresh lp vms_packet =
     map_option (\<lambda>result. set_bytes vms_packet
         (set_ints [VMS_DATA, vl_type (lp_layer lp), vl_subtype (lp_layer lp),
                    vl_version (lp_layer lp), lp_publisher_id lp] result))
       (createBaseVmsMessage fresh (kMessageTypeSize + kLayerAndPublisherSize))"

definition createPublisherIdRequest :: "VehiclePropValue \<Rightarrow> u8 list \<Rightarrow> VehiclePropValue option" where
  "createPublisherIdRequest fresh vms_provider_description =
     map_option (\<lambda>result. set_bytes vms_provider_description (set_ints [VMS_PUBLISHER_ID_REQUEST] result))
       (createBaseVmsMessage fresh kMessageTypeSize)"

definition createStartSessionMessage :: "VehiclePropValue \<Rightarrow> i32 \<Rightarrow> i32 \<Rightarrow> VehiclePropValue option" where
  "createStartSessionMessage fresh service_id client_id =
     map_option (set_ints [VMS_START_SESSION, service_id, client_id])
       (createBaseVmsMessage fresh (kMessageTypeSize + kSessionIdsSize))"

subsection \<open>Parsing messages\<close>

abbreviation ints :: "VehiclePropValue \<Rightarrow> i32 list" where
  "ints v \<equiv> int32Values (pv_value v)"

definition isValidVmsProperty :: "VehiclePropValue \<Rightarrow> bool" where
  "isValidVmsProperty v \<longleftrightarrow> pv_prop v = VEHICLE_MAP_SERVICE"

definition isValidVmsMessageType :: "VehiclePropValue \<Rightarrow> bool" where
  "isValidVmsMessageType v \<longleftrightarrow> 0 < length (ints v) \<and>
     kFirstMessageType \<le> ints v ! kMessageIndex \<and> ints v ! kMessageIndex \<le> kLastMessageType"

definition isValidVmsMessage :: "VehiclePropValue \<Rightarrow> bool" where
  "isValidVmsMessage v \<longleftrightarrow> isValidVmsProperty v \<and> isValidVmsMessageType v"

text \<open>Only called on values \<open>isValidVmsMessage\<close> accepts, which have a first integer.\<close>

definition parseMessageType :: "VehiclePropValue \<Rightarrow> i32" where
  "parseMessageType v = ints v ! kMessageIndex"

definition parseData :: "VehiclePropValue \<Rightarrow> u8 list" where
  "parseData v =
     (if isValidVmsMessage v \<and> parseMessageType v = VMS_DATA \<and> 0 < length (bytes (pv_value v))
      then bytes (pv_value v) else [])"

definition parsePublisherIdResponse :: "VehiclePropValue \<Rightarrow> i32" where
  "parsePublisherIdResponse v =
     (if isValidVmsMessage v \<and> parseMessageType v = VMS_PUBLISHER_ID_RESPONSE \<and>
         kPublisherIdIndex < length (ints v)
      then ints v ! kPublisherIdIndex else - 1)"

definition is_subscriptions_state :: "VehiclePropValue \<Rightarrow> bool" where
  "is_subscriptions_state v \<longleftrightarrow> isValidVmsMessage v \<and>
     (parseMessageType v = VMS_SUBSCRIPTIONS_CHANGE \<or> parseMessageType v = VMS_SUBSCRIPTIONS_RESPONSE)"

definition isSequenceNumberNewer :: "VehiclePropValue \<Rightarrow> i32 \<Rightarrow> bool" where
  "isSequenceNumberNewer v last_seen \<longleftrightarrow> is_subscriptions_state v \<and>
     kSubscriptionStateSequenceNumberIndex < length (ints v) \<and>
     last_seen < ints v ! kSubscriptionStateSequenceNumberIndex"

definition getSequenceNumberForSubscriptionsState :: "VehiclePropValue \<Rightarrow> i32" where
  "getSequenceNumberForSubscriptionsState v =
     (if is_subscriptions_state v \<and> kSubscriptionStateSequenceNumberIndex < length (ints v)
      then ints v ! kSubscriptionStateSequenceNumberIndex else - 1)"

text \<open>
  How a part of a parser ends: by a read outside the vector, by an \<open>int\<close> that overflows (undefined in
  C++), by \<open>return {}\<close>, or normally.
\<close>

datatype 'a parse = OutOfBounds | Overflow | ReturnEmpty | Go 'a

fun parse_bind :: "'a parse \<Rightarrow> ('a \<Rightarrow> 'b parse) \<Rightarrow> 'b parse" where
  "parse_bind OutOfBounds f = OutOfBounds"
| "parse_bind Overflow f = Overflow"
| "parse_bind ReturnEmpty f = ReturnEmpty"
| "parse_bind (Go x) f = f x"

text \<open>
  \<open>int32Values[i]\<close> with an \<open>int\<close> index, an addition to such an index, and the size as an \<open>int\<close>.
\<close>

definition index_at :: "i32 list \<Rightarrow> i32 \<Rightarrow> i32 parse" where
  "index_at vals i =
     (if i < 0 then OutOfBounds
      else (case vec_at vals (nat i) of None \<Rightarrow> OutOfBounds | Some x \<Rightarrow> Go x))"

definition index_add :: "i32 \<Rightarrow> i32 \<Rightarrow> i32 parse" where
  "index_add i n = (if i + n \<le> 0x7FFFFFFF then Go (i + n) else Overflow)"

definition int_size :: "i32 list \<Rightarrow> i32" where
  "int_size vals = wrap32 (int (length vals))"

definition read_layer :: "i32 list \<Rightarrow> i32 \<Rightarrow> VmsLayer parse" where
  "read_layer vals current_index =
     parse_bind (index_at vals current_index) (\<lambda>t.
     parse_bind (index_add current_index 1) (\<lambda>i1.
     parse_bind (index_at vals i1) (\<lambda>st.
     parse_bind (index_add current_index 2) (\<lambda>i2.
     parse_bind (index_at vals i2) (\<lambda>ver.
     Go \<lparr>vl_type = t, vl_subtype = st, vl_version = ver\<rparr>)))))"

fun layers_loop ::
  "nat \<Rightarrow> i32 list \<Rightarrow> VmsLayer set \<Rightarrow> i32 \<Rightarrow> VmsLayer list \<Rightarrow> (i32 \<times> VmsLayer list) parse" where
  "layers_loop 0 vals offered_layers current_index subscribed_layers = Go (current_index, subscribed_layers)"
| "layers_loop (Suc n) vals offered_layers current_index subscribed_layers =
     parse_bind (index_add current_index (int kLayerSize)) (\<lambda>index1.
     if int_size vals < index1 then ReturnEmpty
     else parse_bind (read_layer vals current_index) (\<lambda>layer.
          layers_loop n vals offered_layers index1
            (if layer \<in> offered_layers then subscribed_layers @ [layer] else subscribed_layers)))"

fun publisher_ids_loop ::
  "nat \<Rightarrow> i32 list \<Rightarrow> i32 \<Rightarrow> VmsLayer \<Rightarrow> i32 \<Rightarrow> VmsLayer list \<Rightarrow> (i32 \<times> VmsLayer list) parse" where
  "publisher_ids_loop 0 vals me layer current_index subscribed_layers = Go (current_index, subscribed_layers)"
| "publisher_ids_loop (Suc n) vals me layer current_index subscribed_layers =
     (if current_index < int_size vals
      then parse_bind (index_at vals current_index) (\<lambda>publisher_id.
           parse_bind (index_add current_index 1) (\<lambda>index1.
           publisher_ids_loop n vals me layer index1
             (if publisher_id = me then subscribed_layers @ [layer] else subscribed_layers)))
      else parse_bind (index_add current_index 1) (\<lambda>index1.
           publisher_ids_loop n vals me layer index1 subscribed_layers))"

fun associated_loop ::
  "nat \<Rightarrow> i32 list \<Rightarrow> VmsLayer set \<Rightarrow> i32 \<Rightarrow> i32 \<Rightarrow> VmsLayer list \<Rightarrow> (i32 \<times> VmsLayer list) parse" where
  "associated_loop 0 vals offered_layers me current_index subscribed_layers =
     Go (current_index, subscribed_layers)"
| "associated_loop (Suc n) vals offered_layers me current_index subscribed_layers =
     parse_bind (index_add current_index (int kLayerSize)) (\<lambda>index1.
     if int_size vals < index1 then ReturnEmpty
     else parse_bind (read_layer vals current_index) (\<lambda>layer.
          if layer \<in> offered_layers \<and> index1 < int_size vals
          then parse_bind (index_at vals index1) (\<lambda>num_of_publisher_ids.
               parse_bind (index_add index1 1) (\<lambda>index2.
               parse_bind (publisher_ids_loop (nat num_of_publisher_ids) vals me layer index2 subscribed_layers)
                 (\<lambda>(index3, subscribed2). associated_loop n vals offered_layers me index3 subscribed2)))
          else associated_loop n vals offered_layers me index1 subscribed_layers))"

text \<open>\<open>return {}\<close> ends the function: with the empty vector.\<close>

definition returned :: "'a list parse \<Rightarrow> 'a list parse" where
  "returned r = (case r of ReturnEmpty \<Rightarrow> Go [] | _ \<Rightarrow> r)"

text \<open>\<open>NUMBER_OF_LAYERS\<close> is 2, \<open>NUMBER_OF_ASSOCIATED_LAYERS\<close> 3 and \<open>SUBSCRIPTIONS_START\<close> 4.\<close>

definition getSubscribedLayers :: "VehiclePropValue \<Rightarrow> VmsOffers \<Rightarrow> VmsLayer list parse" where
  "getSubscribedLayers v offers =
     (if is_subscriptions_state v \<and> 2 < length (ints v)
      then
        let offered_layers = set (map lo_layer (of_offerings offers)) in
        returned (
          parse_bind (index_at (ints v) 2) (\<lambda>num_of_layers.
          parse_bind (layers_loop (nat num_of_layers) (ints v) offered_layers 4 []) (\<lambda>(index1, subscribed1).
          if 3 < int_size (ints v)
          then parse_bind (index_at (ints v) 3) (\<lambda>num_of_associated_layers.
               parse_bind (associated_loop (nat num_of_associated_layers) (ints v) offered_layers
                   (of_publisher_id offers) index1 subscribed1) (\<lambda>(_, subscribed2).
               Go subscribed2))
          else Go subscribed1)))
      else Go [])"

definition hasServiceNewlyStarted :: "VehiclePropValue \<Rightarrow> bool" where
  "hasServiceNewlyStarted v \<longleftrightarrow> isValidVmsMessage v \<and> parseMessageType v = VMS_AVAILABILITY_CHANGE \<and>
     kAvailabilitySequenceNumberIndex < length (ints v) \<and>
     ints v ! kAvailabilitySequenceNumberIndex = 0"

text \<open>The status, and what \<open>*new_service_id\<close> is set to.\<close>

definition parseStartSessionMessage :: "VehiclePropValue \<Rightarrow> i32 \<Rightarrow> i32 \<Rightarrow> VmsSessionStatus \<times> i32" where
  "parseStartSessionMessage v current_service_id current_client_id =
     (if isValidVmsMessage v \<and> parseMessageType v = VMS_START_SESSION \<and>
         length (ints v) = kSessionIdsSize + 1
      then
        let new_service_id = ints v ! 1; new_client_id = ints v ! 2
        in if new_client_id \<noteq> current_client_id then (kNewServerSession, new_service_id)
           else (kAckToCurrentSession, new_service_id)
      else (kInvalidMessage, current_service_id))"

definition is_availability_state :: "VehiclePropValue \<Rightarrow> bool" where
  "is_availability_state v \<longleftrightarrow> isValidVmsMessage v \<and>
     (parseMessageType v = VMS_AVAILABILITY_CHANGE \<or> parseMessageType v = VMS_AVAILABILITY_RESPONSE)"

definition isAvailabilitySequenceNumberNewer :: "VehiclePropValue \<Rightarrow> i32 \<Rightarrow> bool" where
  "isAvailabilitySequenceNumberNewer v last_seen \<longleftrightarrow> is_availability_state v \<and>
     kAvailabilitySequenceNumberIndex < length (ints v) \<and>
     last_seen < ints v ! kAvailabilitySequenceNumberIndex"

definition getSequenceNumberForAvailabilityState :: "VehiclePropValue \<Rightarrow> i32" where
  "getSequenceNumberForAvailabilityState v =
     (if is_availability_state v \<and> kAvailabilitySequenceNumberIndex < length (ints v)
      then ints v ! kAvailabilitySequenceNumberIndex else - 1)"

fun available_ids_loop :: "nat \<Rightarrow> i32 list \<Rightarrow> i32 \<Rightarrow> i32 list \<Rightarrow> (i32 \<times> i32 list) parse" where
  "available_ids_loop 0 vals current_index publisher_ids = Go (current_index, publisher_ids)"
| "available_ids_loop (Suc n) vals current_index publisher_ids =
     (if current_index < int_size vals
      then parse_bind (index_at vals current_index) (\<lambda>publisher_id.
           parse_bind (index_add current_index 1) (\<lambda>index1.
           available_ids_loop n vals index1 (publisher_ids @ [publisher_id])))
      else available_ids_loop n vals current_index publisher_ids)"

fun available_loop ::
  "nat \<Rightarrow> i32 list \<Rightarrow> i32 \<Rightarrow> VmsAssociatedLayer list \<Rightarrow> VmsAssociatedLayer list parse" where
  "available_loop 0 vals current_index available_layers = Go available_layers"
| "available_loop (Suc n) vals current_index available_layers =
     parse_bind (index_add current_index (int kLayerSize)) (\<lambda>index1.
     if int_size vals < index1 then ReturnEmpty
     else parse_bind (read_layer vals current_index) (\<lambda>layer.
          if index1 < int_size vals
          then parse_bind (index_at vals index1) (\<lambda>num_of_publisher_ids.
               parse_bind (index_add index1 1) (\<lambda>index2.
               parse_bind (available_ids_loop (nat num_of_publisher_ids) vals index2 []) (\<lambda>(index3, publisher_ids).
               available_loop n vals index3
                 (available_layers @ [\<lparr>al_layer = layer, al_publisher_ids = publisher_ids\<rparr>]))))
          else available_loop n vals index1
                 (available_layers @ [\<lparr>al_layer = layer, al_publisher_ids = []\<rparr>])))"

text \<open>\<open>NUMBER_OF_ASSOCIATED_LAYERS\<close> is 2 here and \<open>LAYERS_START\<close> 3.\<close>

definition getAvailableLayers :: "VehiclePropValue \<Rightarrow> VmsAssociatedLayer list parse" where
  "getAvailableLayers v =
     (if is_availability_state v \<and> 2 < length (ints v)
      then returned (
        parse_bind (index_at (ints v) 2) (\<lambda>num_of_associated_layers.
        available_loop (nat num_of_associated_layers) (ints v) 3 []))
      else Go [])"

subsection \<open>Reads and overflows of the parsers\<close>


text \<open>A message with fewer than \<open>2^31 - 3\<close> integers: its size is an \<open>int\<close> and so are the indices just behind it.\<close>

definition fits :: "i32 list \<Rightarrow> bool" where
  "fits vals \<longleftrightarrow> int (length vals) + 3 \<le> 0x7FFFFFFF"

lemma int_size_fits: "fits vals \<Longrightarrow> int_size vals = int (length vals)"
  by (simp add: int_size_def fits_def in_i32_def)


lemma returned_eq [simp]:
  "returned r = OutOfBounds \<longleftrightarrow> r = OutOfBounds"
  "returned r = Overflow \<longleftrightarrow> r = Overflow"
  by (cases r; simp add: returned_def)+



lemma index_add_eq [simp]:
  "index_add i n \<noteq> OutOfBounds"
  "index_add i n = Overflow \<longleftrightarrow> 0x7FFFFFFF < i + n"
  "index_add i n = Go j \<longleftrightarrow> i + n \<le> 0x7FFFFFFF \<and> j = i + n"
  by (auto simp: index_add_def)











subsection \<open>Messages as the protocol lays them out\<close>

definition layer_ints :: "VmsLayer \<Rightarrow> i32 list" where
  "layer_ints l = [vl_type l, vl_subtype l, vl_version l]"

definition associated_ints :: "VmsAssociatedLayer \<Rightarrow> i32 list" where
  "associated_ints a =
     layer_ints (al_layer a) @ int (length (al_publisher_ids a)) # al_publisher_ids a"

definition subscriptions_ints ::
  "i32 \<Rightarrow> i32 \<Rightarrow> VmsLayer list \<Rightarrow> VmsAssociatedLayer list \<Rightarrow> i32 list" where
  "subscriptions_ints type seq layers assoc =
     [type, seq, int (length layers), int (length assoc)] @
     concat (map layer_ints layers) @ concat (map associated_ints assoc)"

definition availability_ints :: "i32 \<Rightarrow> i32 \<Rightarrow> VmsAssociatedLayer list \<Rightarrow> i32 list" where
  "availability_ints type seq assoc =
     [type, seq, int (length assoc)] @ concat (map associated_ints assoc)"

definition vms_message :: "i32 list \<Rightarrow> VehiclePropValue" where
  "vms_message vals = set_ints vals (kEmptyValue\<lparr>pv_prop := VEHICLE_MAP_SERVICE\<rparr>)"

lemma vms_message_simps [simp]:
  "ints (vms_message vals) = vals"
  "isValidVmsProperty (vms_message vals)"
  by (simp_all add: vms_message_def set_ints_def isValidVmsProperty_def)

lemma index_at_append:
  "index_at (pre @ x # post) (int (length pre)) = Go x"
  using vec_at_append [of pre "x # post" 0] by (simp add: index_at_def)

lemma read_layer_at:
  assumes "int (length pre) + 3 \<le> 0x7FFFFFFF"
  shows "read_layer (pre @ layer_ints l @ post) (int (length pre)) = Go l"
proof -
  have "index_at (pre @ layer_ints l @ post) (int (length pre)) = Go (vl_type l)"
      "index_at (pre @ layer_ints l @ post) (int (length pre) + 1) = Go (vl_subtype l)"
      "index_at (pre @ layer_ints l @ post) (int (length pre) + 2) = Go (vl_version l)"
    using index_at_append [of pre] index_at_append [of "pre @ [vl_type l]"]
      index_at_append [of "pre @ [vl_type l, vl_subtype l]"]
    by (simp_all add: layer_ints_def add.commute)
  then show ?thesis using assms by (simp add: read_layer_def index_add_def)
qed

lemma layer_ints_length [simp]: "length (layer_ints l) = kLayerSize"
  by (simp add: layer_ints_def kLayerSize_def)

lemma layers_loop_decodes:
  "fits (pre @ concat (map layer_ints ls) @ post) \<Longrightarrow>
   layers_loop (length ls) (pre @ concat (map layer_ints ls) @ post) off (int (length pre)) acc =
     Go (int (length pre + kLayerSize * length ls), acc @ filter (\<lambda>l. l \<in> off) ls)"
proof (induction ls arbitrary: pre acc)
  case (Cons l ls)
  note size = int_size_fits [OF Cons.prems]
  have "int (length pre) + 3 \<le> 0x7FFFFFFF" using Cons.prems by (simp add: fits_def kLayerSize_def)
  then show ?case
    using Cons.IH [of "pre @ layer_ints l"] Cons.prems size read_layer_at [of pre l "concat (map layer_ints ls) @ post"]
    by (simp add: index_add_def kLayerSize_def algebra_simps)
qed simp

lemma publisher_ids_loop_decodes:
  "fits (pre @ ids @ post) \<Longrightarrow>
   publisher_ids_loop (length ids) (pre @ ids @ post) me l (int (length pre)) acc =
     Go (int (length pre + length ids), acc @ replicate (count_list ids me) l)"
proof (induction ids arbitrary: pre acc)
  case (Cons i ids)
  then show ?case
    using Cons.IH [of "pre @ [i]"] int_size_fits [OF Cons.prems] index_at_append [of pre i "ids @ post"]
    by (auto simp: index_add_def fits_def replicate_append_same [symmetric] algebra_simps)
qed simp

lemma available_ids_loop_decodes:
  "fits (pre @ ids @ post) \<Longrightarrow>
   available_ids_loop (length ids) (pre @ ids @ post) (int (length pre)) acc =
     Go (int (length pre + length ids), acc @ ids)"
proof (induction ids arbitrary: pre acc)
  case (Cons i ids)
  then show ?case
    using Cons.IH [of "pre @ [i]"] int_size_fits [OF Cons.prems] index_at_append [of pre i "ids @ post"]
    by (auto simp: index_add_def fits_def algebra_simps)
qed simp

lemma ids_of_associated:
  "pre @ associated_ints a @ post =
     (pre @ layer_ints (al_layer a) @ [int (length (al_publisher_ids a))]) @ al_publisher_ids a @ post"
  by (simp add: associated_ints_def)

lemma associated_ints_length:
  "length (associated_ints a) = kLayerSize + 1 + length (al_publisher_ids a)"
  by (simp add: associated_ints_def)

text \<open>What the loops find at the start of an associated layer.\<close>

lemma associated_at:
  assumes "fits (pre @ associated_ints a @ post)"
  shows "int_size (pre @ associated_ints a @ post) = int (length pre) + 4 + int (length (al_publisher_ids a) + length post)"
    "int (length pre) + 4 \<le> 0x7FFFFFFF"
    "read_layer (pre @ associated_ints a @ post) (int (length pre)) = Go (al_layer a)"
    "index_at (pre @ associated_ints a @ post) (int (length pre) + 3) = Go (int (length (al_publisher_ids a)))"
    "publisher_ids_loop (length (al_publisher_ids a)) (pre @ associated_ints a @ post) me (al_layer a)
       (int (length pre) + 4) acc =
       Go (int (length (pre @ associated_ints a)), acc @ replicate (count_list (al_publisher_ids a) me) (al_layer a))"
    "available_ids_loop (length (al_publisher_ids a)) (pre @ associated_ints a @ post) (int (length pre) + 4) [] =
       Go (int (length (pre @ associated_ints a)), al_publisher_ids a)"
proof -
  let ?hd = "pre @ layer_ints (al_layer a) @ [int (length (al_publisher_ids a))]"
  show s: "int_size (pre @ associated_ints a @ post) = int (length pre) + 4 + int (length (al_publisher_ids a) + length post)"
    using int_size_fits [OF assms] by (simp add: associated_ints_length kLayerSize_def)
  show "int (length pre) + 4 \<le> 0x7FFFFFFF" using assms by (simp add: fits_def associated_ints_length kLayerSize_def)
  then show "read_layer (pre @ associated_ints a @ post) (int (length pre)) = Go (al_layer a)"
    using read_layer_at [of pre "al_layer a"] by (simp add: associated_ints_def)
  show "index_at (pre @ associated_ints a @ post) (int (length pre) + 3) = Go (int (length (al_publisher_ids a)))"
    using index_at_append [of "pre @ layer_ints (al_layer a)"] by (simp add: associated_ints_def kLayerSize_def add.commute)
  have f: "fits (?hd @ al_publisher_ids a @ post)" using assms by (simp only: ids_of_associated)
  have l: "int (length ?hd) = int (length pre) + 4" by (simp add: kLayerSize_def)
  show "publisher_ids_loop (length (al_publisher_ids a)) (pre @ associated_ints a @ post) me (al_layer a)
       (int (length pre) + 4) acc =
       Go (int (length (pre @ associated_ints a)), acc @ replicate (count_list (al_publisher_ids a) me) (al_layer a))"
    using publisher_ids_loop_decodes [OF f, of me "al_layer a" acc] unfolding l ids_of_associated
    by (simp add: associated_ints_length kLayerSize_def)
  show "available_ids_loop (length (al_publisher_ids a)) (pre @ associated_ints a @ post) (int (length pre) + 4) [] =
       Go (int (length (pre @ associated_ints a)), al_publisher_ids a)"
    using available_ids_loop_decodes [OF f, of "[]"] unfolding l ids_of_associated
    by (simp add: associated_ints_length kLayerSize_def)
qed

lemma associated_loop_decodes:
  "(\<forall>a \<in> set as. al_layer a \<in> off) \<Longrightarrow> fits (pre @ concat (map associated_ints as)) \<Longrightarrow>
   associated_loop (length as) (pre @ concat (map associated_ints as)) off me (int (length pre)) acc =
     Go (int (length pre + length (concat (map associated_ints as))),
         acc @ concat (map (\<lambda>a. replicate (count_list (al_publisher_ids a) me) (al_layer a)) as))"
proof (induction as arbitrary: pre acc)
  case (Cons a as)
  have f: "fits (pre @ associated_ints a @ concat (map associated_ints as))" using Cons.prems by simp
  show ?case
    using Cons.IH [of "pre @ associated_ints a"] Cons.prems associated_at [OF f]
    by (simp add: index_add_def kLayerSize_def add.assoc)
qed simp

lemma available_loop_decodes:
  "fits (pre @ concat (map associated_ints as)) \<Longrightarrow>
   available_loop (length as) (pre @ concat (map associated_ints as)) (int (length pre)) acc = Go (acc @ as)"
proof (induction as arbitrary: pre acc)
  case (Cons a as)
  have f: "fits (pre @ associated_ints a @ concat (map associated_ints as))" using Cons.prems by simp
  show ?case
    using Cons.IH [of "pre @ associated_ints a"] Cons.prems associated_at [OF f]
    by (simp add: index_add_def kLayerSize_def add.assoc)
qed simp


definition is_subscriptions_type :: "i32 \<Rightarrow> bool" where
  "is_subscriptions_type type \<longleftrightarrow> type = VMS_SUBSCRIPTIONS_CHANGE \<or> type = VMS_SUBSCRIPTIONS_RESPONSE"

definition is_availability_type :: "i32 \<Rightarrow> bool" where
  "is_availability_type type \<longleftrightarrow> type = VMS_AVAILABILITY_CHANGE \<or> type = VMS_AVAILABILITY_RESPONSE"

lemma subscriptions_message:
  "is_subscriptions_type type \<Longrightarrow> is_subscriptions_state (vms_message (subscriptions_ints type seq layers assoc))"
  by (auto simp: is_subscriptions_type_def is_subscriptions_state_def isValidVmsMessage_def
      isValidVmsMessageType_def parseMessageType_def subscriptions_ints_def vms_sizes)

lemma availability_message:
  "is_availability_type type \<Longrightarrow> is_availability_state (vms_message (availability_ints type seq assoc))"
  by (auto simp: is_availability_type_def is_availability_state_def isValidVmsMessage_def
      isValidVmsMessageType_def parseMessageType_def availability_ints_def vms_sizes)

text \<open>
  On a well-formed subscriptions message (of fewer than \<open>2^31 - 3\<close> integers) whose associated layers are
  all offered by this publisher, \<open>getSubscribedLayers\<close> returns the subscribed layers it offers, then each
  associated layer once per occurrence of its own publisher id.
\<close>

theorem getSubscribedLayers_correct:
  assumes "is_subscriptions_type type"
    and "\<forall>a \<in> set assoc. al_layer a \<in> set (map lo_layer (of_offerings offers))"
    and "fits (subscriptions_ints type seq layers assoc)"
  shows "getSubscribedLayers (vms_message (subscriptions_ints type seq layers assoc)) offers =
    Go (filter (\<lambda>l. l \<in> set (map lo_layer (of_offerings offers))) layers @
        concat (map (\<lambda>a. replicate (count_list (al_publisher_ids a) (of_publisher_id offers)) (al_layer a)) assoc))"
proof -
  let ?pre = "[type, seq, int (length layers), int (length assoc)]"
  let ?off = "lo_layer ` set (of_offerings offers)"
  let ?vals = "?pre @ concat (map layer_ints layers) @ concat (map associated_ints assoc)"
  have f: "fits ?vals" using assms(3) by (simp add: subscriptions_ints_def)
  have "length (concat (map layer_ints layers)) = kLayerSize * length layers"
    by (induction layers) simp_all
  then have l: "length (?pre @ concat (map layer_ints layers)) = 4 + kLayerSize * length layers" by simp
  have "layers_loop (length layers) ?vals ?off 4 [] =
      Go (int (4 + kLayerSize * length layers), filter (\<lambda>l. l \<in> ?off) layers)"
    using layers_loop_decodes [OF f, of ?off "[]"] by (simp add: eval_nat_numeral)
  moreover obtain i where "associated_loop (length assoc) ?vals ?off (of_publisher_id offers)
      (int (4 + kLayerSize * length layers)) (filter (\<lambda>l. l \<in> ?off) layers) =
      Go (i, filter (\<lambda>l. l \<in> ?off) layers @
        concat (map (\<lambda>a. replicate (count_list (al_publisher_ids a) (of_publisher_id offers)) (al_layer a)) assoc))"
    using associated_loop_decodes [of assoc ?off "?pre @ concat (map layer_ints layers)" "of_publisher_id offers"
        "filter (\<lambda>l. l \<in> ?off) layers"] assms(2) f
    unfolding l by simp
  moreover have "3 < int_size ?vals" unfolding int_size_fits [OF f] by simp
  ultimately show ?thesis
    using subscriptions_message [OF assms(1), of seq layers assoc]
    by (simp add: getSubscribedLayers_def subscriptions_ints_def index_at_def vec_at_def returned_def)
qed

text \<open>
  \<open>getAvailableLayers\<close> inverts the layout of an availability message.
\<close>

theorem getAvailableLayers_roundtrip:
  assumes "is_availability_type type" "fits (availability_ints type seq assoc)"
  shows "getAvailableLayers (vms_message (availability_ints type seq assoc)) = Go assoc"
proof -
  have "available_loop (length assoc) ([type, seq, int (length assoc)] @ concat (map associated_ints assoc)) 3 [] = Go assoc"
    using available_loop_decodes [of "[type, seq, int (length assoc)]" assoc "[]"] assms(2)
    by (simp add: availability_ints_def)
  then show ?thesis
    using availability_message [OF assms(1), of seq assoc]
    by (simp add: getAvailableLayers_def availability_ints_def index_at_def vec_at_def returned_def)
qed

text \<open>Two layers, an offer of one of them by publisher 9, and subscriptions to both.\<close>

definition demo_layer :: "i32 \<Rightarrow> VmsLayer" where
  "demo_layer n = \<lparr>vl_type = n, vl_subtype = 0, vl_version = 1\<rparr>"

definition demo_offers :: VmsOffers where
  "demo_offers = \<lparr>of_publisher_id = 9,
     of_offerings = [\<lparr>lo_layer = demo_layer 20, lo_dependencies = []\<rparr>]\<rparr>"


theorem getSubscribedLayers_correct_witness:
  "getSubscribedLayers (vms_message (subscriptions_ints VMS_SUBSCRIPTIONS_CHANGE 3 [demo_layer 30]
       [\<lparr>al_layer = demo_layer 20, al_publisher_ids = [4, 9]\<rparr>])) demo_offers = Go [demo_layer 20]"
proof -
  have "is_subscriptions_type VMS_SUBSCRIPTIONS_CHANGE" by (simp add: is_subscriptions_type_def)
  moreover have "\<forall>a \<in> set [\<lparr>al_layer = demo_layer 20, al_publisher_ids = [4, 9]\<rparr>].
      al_layer a \<in> set (map lo_layer (of_offerings demo_offers))"
    by (simp add: demo_offers_def)
  moreover have "fits (subscriptions_ints VMS_SUBSCRIPTIONS_CHANGE 3 [demo_layer 30]
      [\<lparr>al_layer = demo_layer 20, al_publisher_ids = [4, 9]\<rparr>])"
    by (simp add: fits_def subscriptions_ints_def associated_ints_length kLayerSize_def)
  ultimately show ?thesis
    using getSubscribedLayers_correct [of VMS_SUBSCRIPTIONS_CHANGE
        "[\<lparr>al_layer = demo_layer 20, al_publisher_ids = [4, 9]\<rparr>]" demo_offers 3 "[demo_layer 30]"]
    by (simp add: demo_offers_def demo_layer_def)
qed

theorem getAvailableLayers_roundtrip_witness:
  "getAvailableLayers (vms_message (availability_ints VMS_AVAILABILITY_CHANGE 0
     [\<lparr>al_layer = demo_layer 20, al_publisher_ids = [4, 9]\<rparr>])) =
   Go [\<lparr>al_layer = demo_layer 20, al_publisher_ids = [4, 9]\<rparr>]"
  by (rule getAvailableLayers_roundtrip)
    (simp_all add: is_availability_type_def fits_def availability_ints_def associated_ints_length kLayerSize_def)

text \<open>
  An associated layer this publisher does not offer derails \<open>getSubscribedLayers\<close>: its publisher
  ids are not skipped, so the layers after it are read at the wrong place and a subscription to an
  offered layer of this very publisher is lost, although the same subscription alone is found.
\<close>

theorem unoffered_layer_derails_parser:
  "getSubscribedLayers (vms_message (subscriptions_ints VMS_SUBSCRIPTIONS_CHANGE 3 []
       [\<lparr>al_layer = demo_layer 30, al_publisher_ids = [9]\<rparr>, \<lparr>al_layer = demo_layer 20, al_publisher_ids = [9]\<rparr>]))
     demo_offers = Go [] \<and>
   getSubscribedLayers (vms_message (subscriptions_ints VMS_SUBSCRIPTIONS_CHANGE 3 []
       [\<lparr>al_layer = demo_layer 20, al_publisher_ids = [9]\<rparr>])) demo_offers = Go [demo_layer 20]"
  by (intro conjI) code_simp+

lemma createBaseVmsMessage_known:
  "createBaseVmsMessage fresh n \<noteq> None"
  using createVehiclePropValue_known [of fresh TYPE_INT32 n] by (simp add: createBaseVmsMessage_def)

lemma offering_size_length:
  "length (fold (\<lambda>offer offerings. offerings @ offering_ints offer) os acc) =
   fold (\<lambda>offer n. n + (kLayerSize + kLayerNumberSize + length (lo_dependencies offer) * kLayerSize)) os (length acc)"
proof (induction os arbitrary: acc)
  case (Cons x os)
  have "length (concat (map (\<lambda>d. [vl_type d, vl_subtype d, vl_version d]) ds)) = length ds * kLayerSize" for ds
    by (induction ds) (simp_all add: kLayerSize_def)
  then have "length (offering_ints x) = kLayerSize + kLayerNumberSize + length (lo_dependencies x) * kLayerSize"
    by (simp add: offering_ints_def vms_sizes)
  then show ?case by (simp add: Cons.IH)
qed simp

lemma createBaseVmsMessage_Some:
  "\<exists>v. createBaseVmsMessage fresh n = Some v \<and> pv_prop v = VEHICLE_MAP_SERVICE"
  using createBaseVmsMessage_known [of fresh n] by (auto simp: createBaseVmsMessage_def)

text \<open>
  What the message creators write, the parsers read back: a data packet, a session start with its
  verdict for the client id the receiver expects, and an offering whose vector has exactly the size
  computed for it.
\<close>

theorem vms_messages_roundtrip:
  "map_option parseData (createDataMessageWithLayerPublisherInfo fresh lp packet) = Some packet \<and>
   map_option (\<lambda>v. parseStartSessionMessage v current_service current_client)
     (createStartSessionMessage fresh service client) =
     Some (if client = current_client then kAckToCurrentSession else kNewServerSession, service) \<and>
   map_option (\<lambda>v. length (ints v)) (createOfferingMessage fresh offers) = Some (offering_size offers)"
proof (intro conjI)
  obtain v where "createBaseVmsMessage fresh (kMessageTypeSize + kLayerAndPublisherSize) = Some v"
      "pv_prop v = VEHICLE_MAP_SERVICE"
    using createBaseVmsMessage_Some by blast
  then show "map_option parseData (createDataMessageWithLayerPublisherInfo fresh lp packet) = Some packet"
    by (simp add: createDataMessageWithLayerPublisherInfo_def parseData_def set_bytes_def set_ints_def
        isValidVmsMessage_def isValidVmsProperty_def isValidVmsMessageType_def parseMessageType_def vms_sizes)
  obtain v where "createBaseVmsMessage fresh (kMessageTypeSize + kSessionIdsSize) = Some v"
      "pv_prop v = VEHICLE_MAP_SERVICE"
    using createBaseVmsMessage_Some by blast
  then show "map_option (\<lambda>v. parseStartSessionMessage v current_service current_client)
     (createStartSessionMessage fresh service client) =
     Some (if client = current_client then kAckToCurrentSession else kNewServerSession, service)"
    by (simp add: createStartSessionMessage_def parseStartSessionMessage_def set_ints_def Let_def
        isValidVmsMessage_def isValidVmsProperty_def isValidVmsMessageType_def parseMessageType_def vms_sizes)
  obtain v where "createBaseVmsMessage fresh (offering_size offers) = Some v"
    using createBaseVmsMessage_Some by blast
  then show "map_option (\<lambda>v. length (ints v)) (createOfferingMessage fresh offers) = Some (offering_size offers)"
    by (simp add: createOfferingMessage_def set_ints_def offering_size_length)
      (simp add: offering_size_def vms_sizes)
qed

end
