(* ===== verification/Obd2.thy ===== *)
theory Obd2
  imports VehicleTypes
begin

text \<open>
  Obd2SensorStore (common/include/vhal_v2_0/Obd2SensorStore.h, common/src/Obd2SensorStore.cpp): the
  integer and float sensors of an OBD2 frame and the bit mask that says which of them are present.
  An access beyond the end of a vector is the result \<open>None\<close>.
\<close>

subsection \<open>The bit mask\<close>

type_synonym BitmaskInVector = "u8 list"

definition bitmask_resize :: "nat \<Rightarrow> BitmaskInVector" where
  "bitmask_resize numBits = replicate ((numBits + 7) div 8) 0"

definition bitmask_set :: "nat \<Rightarrow> bool \<Rightarrow> BitmaskInVector \<Rightarrow> BitmaskInVector option" where
  "bitmask_set index val storage =
     (let byteIndex = index div 8; bitIndex = index mod 8 in
      case vec_at storage byteIndex of
        None \<Rightarrow> None
      | Some byte \<Rightarrow>
          let newValue = (if val then byte OR push_bit bitIndex 1 else byte AND NOT (push_bit bitIndex 1))
          in Some (storage[byteIndex := newValue]))"

definition bitmask_get :: "nat \<Rightarrow> BitmaskInVector \<Rightarrow> bool option" where
  "bitmask_get index storage =
     (let byteIndex = index div 8; bitIndex = index mod 8 in
      case vec_at storage byteIndex of
        None \<Rightarrow> None
      | Some byte \<Rightarrow> Some (byte AND push_bit bitIndex 1 \<noteq> 0))"

subsection \<open>The store\<close>

record Obd2SensorStore =
  os_integerSensors :: "i32 list"
  os_floatSensors :: "f32 list"
  os_sensorsBitmask :: BitmaskInVector

text \<open>\<open>DiagnosticIntegerSensorIndex::LAST_SYSTEM_INDEX\<close>, \<open>DiagnosticFloatSensorIndex::LAST_SYSTEM_INDEX\<close>\<close>

definition LAST_SYSTEM_INTEGER_INDEX :: nat where "LAST_SYSTEM_INTEGER_INDEX = 31"
definition LAST_SYSTEM_FLOAT_INDEX :: nat where "LAST_SYSTEM_FLOAT_INDEX = 70"

definition new_sensor_store :: "nat \<Rightarrow> nat \<Rightarrow> Obd2SensorStore" where
  "new_sensor_store numVendorIntegerSensors numVendorFloatSensors =
     (let numSystemIntegerSensors = LAST_SYSTEM_INTEGER_INDEX + 1;
          numSystemFloatSensors = LAST_SYSTEM_FLOAT_INDEX + 1;
          integers = replicate (numSystemIntegerSensors + numVendorIntegerSensors) 0;
          floats = replicate (numSystemFloatSensors + numVendorFloatSensors) 0
      in \<lparr>os_integerSensors = integers, os_floatSensors = floats,
          os_sensorsBitmask = bitmask_resize (length integers + length floats)\<rparr>)"

definition setIntegerSensor :: "nat \<Rightarrow> i32 \<Rightarrow> Obd2SensorStore \<Rightarrow> (StatusCode \<times> Obd2SensorStore) option" where
  "setIntegerSensor index val st =
     (if index < length (os_integerSensors st)
      then (case bitmask_set index True (os_sensorsBitmask st) of
              None \<Rightarrow> None
            | Some bm \<Rightarrow> Some (OK, st\<lparr>os_integerSensors := (os_integerSensors st)[index := val],
                                      os_sensorsBitmask := bm\<rparr>))
      else None)"

definition setFloatSensor :: "nat \<Rightarrow> f32 \<Rightarrow> Obd2SensorStore \<Rightarrow> (StatusCode \<times> Obd2SensorStore) option" where
  "setFloatSensor index val st =
     (if index < length (os_floatSensors st)
      then (case bitmask_set (index + length (os_integerSensors st)) True (os_sensorsBitmask st) of
              None \<Rightarrow> None
            | Some bm \<Rightarrow> Some (OK, st\<lparr>os_floatSensors := (os_floatSensors st)[index := val],
                                      os_sensorsBitmask := bm\<rparr>))
      else None)"

definition getIntegerSensors :: "Obd2SensorStore \<Rightarrow> i32 list" where
  "getIntegerSensors st = os_integerSensors st"

definition getFloatSensors :: "Obd2SensorStore \<Rightarrow> f32 list" where
  "getFloatSensors st = os_floatSensors st"

definition getSensorsBitmask :: "Obd2SensorStore \<Rightarrow> u8 list" where
  "getSensorsBitmask st = os_sensorsBitmask st"

text \<open>\<open>now\<close> is what \<open>elapsedRealtimeNano()\<close> returns.\<close>

definition fillPropValue :: "i64 \<Rightarrow> string \<Rightarrow> Obd2SensorStore \<Rightarrow> VehiclePropValue \<Rightarrow> VehiclePropValue" where
  "fillPropValue now dtc st propValue =
     propValue\<lparr>pv_timestamp := now,
               pv_value := (pv_value propValue)\<lparr>int32Values := getIntegerSensors st,
                 floatValues := getFloatSensors st, bytes := getSensorsBitmask st, stringValue := dtc\<rparr>\<rparr>"

subsection \<open>Bits\<close>

lemma byte_and_bit: "(byte :: u8) AND push_bit n 1 \<noteq> 0 \<longleftrightarrow> n < 8 \<and> bit byte n"
proof
  assume "byte AND push_bit n 1 \<noteq> 0"
  then obtain k where "bit (byte AND push_bit n 1) k"
    by (metis bit_0_eq bit_eq_iff bot_apply bot_bool_def)
  then show "n < 8 \<and> bit byte n"
    by (auto simp: bit_simps dest: bit_imp_le_length)
next
  assume "n < 8 \<and> bit byte n"
  then have "bit (byte AND push_bit n 1) n" by (simp add: bit_simps)
  then show "byte AND push_bit n 1 \<noteq> 0" by auto
qed

lemma bitmask_get_eq:
  "bitmask_get index storage =
     (if index div 8 < length storage then Some (bit (storage ! (index div 8)) (index mod 8)) else None)"
  unfolding bitmask_get_def Let_def byte_and_bit by (simp add: vec_at_def)

lemma bitmask_set_defined:
  "index div 8 < length storage \<Longrightarrow> \<exists>s. bitmask_set index val storage = Some s \<and> length s = length storage"
  by (simp add: bitmask_set_def Let_def vec_at_def)

lemma bitmask_get_set:
  assumes "bitmask_set index val storage = Some s"
  shows "bitmask_get j s = (if j = index then Some val else bitmask_get j storage)"
proof -
  have len: "index div 8 < length storage"
    using assms by (auto simp: bitmask_set_def Let_def vec_at_def split: if_splits)
  then have s: "s = storage[index div 8 := (if val then storage ! (index div 8) OR push_bit (index mod 8) 1
      else storage ! (index div 8) AND NOT (push_bit (index mod 8) 1))]"
    using assms by (auto simp: bitmask_set_def Let_def vec_at_def)
  have same: "j = index" if "j div 8 = index div 8" "j mod 8 = index mod 8"
    using that by (metis div_mult_mod_eq)
  show ?thesis
  proof (cases "j div 8 = index div 8")
    case True
    then show ?thesis
      using len same by (auto simp: s bitmask_get_eq bit_simps)
  next
    case False
    then show ?thesis by (auto simp: s bitmask_get_eq)
  qed
qed

subsection \<open>The store as two maps\<close>

text \<open>The sensors a reader of the frame sees: those whose bit is set.\<close>

definition integer_view :: "Obd2SensorStore \<Rightarrow> nat \<Rightarrow> i32 option" where
  "integer_view st i =
     (if i < length (os_integerSensors st) \<and> bitmask_get i (os_sensorsBitmask st) = Some True
      then Some (os_integerSensors st ! i) else None)"

definition float_view :: "Obd2SensorStore \<Rightarrow> nat \<Rightarrow> f32 option" where
  "float_view st i =
     (if i < length (os_floatSensors st) \<and>
         bitmask_get (i + length (os_integerSensors st)) (os_sensorsBitmask st) = Some True
      then Some (os_floatSensors st ! i) else None)"

definition obd_inv :: "Obd2SensorStore \<Rightarrow> bool" where
  "obd_inv st \<longleftrightarrow> length (os_sensorsBitmask st) =
     (length (os_integerSensors st) + length (os_floatSensors st) + 7) div 8"

lemma obd_bit_exists:
  "obd_inv st \<Longrightarrow> i < length (os_integerSensors st) + length (os_floatSensors st) \<Longrightarrow>
   i div 8 < length (os_sensorsBitmask st)"
  by (simp add: obd_inv_def)

text \<open>
  C10: a new store shows no sensor; setting a sensor whose index exists succeeds, never touches memory
  outside the vectors, and makes exactly that sensor visible with exactly that value, leaving every other
  integer and float sensor as it was.
\<close>

theorem obd2_store_refines_maps:
  "obd_inv (new_sensor_store ni nf) \<and> integer_view (new_sensor_store ni nf) = (\<lambda>_. None) \<and>
   float_view (new_sensor_store ni nf) = (\<lambda>_. None) \<and>
   (obd_inv st \<longrightarrow>
     (i < length (os_integerSensors st) \<longrightarrow>
        (\<exists>st'. setIntegerSensor i n st = Some (OK, st') \<and> obd_inv st' \<and>
           integer_view st' = (integer_view st)(i \<mapsto> n) \<and> float_view st' = float_view st)) \<and>
     (i < length (os_floatSensors st) \<longrightarrow>
        (\<exists>st'. setFloatSensor i f st = Some (OK, st') \<and> obd_inv st' \<and>
           float_view st' = (float_view st)(i \<mapsto> f) \<and> integer_view st' = integer_view st)))"
proof (intro conjI impI)
  show "obd_inv (new_sensor_store ni nf)"
    by (simp add: obd_inv_def new_sensor_store_def bitmask_resize_def Let_def)
  have "bitmask_get j (replicate m 0) \<noteq> Some True" for j m by (simp add: bitmask_get_eq)
  then show "integer_view (new_sensor_store ni nf) = (\<lambda>_. None)" "float_view (new_sensor_store ni nf) = (\<lambda>_. None)"
    by (auto simp: integer_view_def float_view_def new_sensor_store_def bitmask_resize_def Let_def fun_eq_iff)
next
  assume inv: "obd_inv st" and i: "i < length (os_integerSensors st)"
  then obtain s where s: "bitmask_set i True (os_sensorsBitmask st) = Some s" "length s = length (os_sensorsBitmask st)"
    using bitmask_set_defined obd_bit_exists by (metis trans_less_add1)
  then show "\<exists>st'. setIntegerSensor i n st = Some (OK, st') \<and> obd_inv st' \<and>
           integer_view st' = (integer_view st)(i \<mapsto> n) \<and> float_view st' = float_view st"
    using i inv
    by (auto simp: setIntegerSensor_def obd_inv_def integer_view_def float_view_def bitmask_get_set [OF s(1)] fun_eq_iff)
next
  assume inv: "obd_inv st" and i: "i < length (os_floatSensors st)"
  then obtain s where s: "bitmask_set (i + length (os_integerSensors st)) True (os_sensorsBitmask st) = Some s"
      "length s = length (os_sensorsBitmask st)"
    using bitmask_set_defined obd_bit_exists by (metis add.commute nat_add_left_cancel_less)
  then show "\<exists>st'. setFloatSensor i f st = Some (OK, st') \<and> obd_inv st' \<and>
           float_view st' = (float_view st)(i \<mapsto> f) \<and> integer_view st' = integer_view st"
    using i inv
    by (auto simp: setFloatSensor_def obd_inv_def integer_view_def float_view_def bitmask_get_set [OF s(1)] fun_eq_iff)
qed

theorem obd2_store_refines_maps_witness:
  "\<exists>st'. setIntegerSensor 31 (-7) (new_sensor_store 0 0) = Some (OK, st') \<and> integer_view st' 31 = Some (-7)"
proof -
  have "31 < length (os_integerSensors (new_sensor_store 0 0))"
    by (simp add: new_sensor_store_def LAST_SYSTEM_INTEGER_INDEX_def Let_def)
  then show ?thesis
    using obd2_store_refines_maps [of 0 0 "new_sensor_store 0 0" 31 "-7" 0] by auto
qed

end
