(* ===== verification/ObjectPool.thy ===== *)
theory ObjectPool
  imports VehicleTypes
begin

text \<open>
  VehiclePropValuePool (common/include/vhal_v2_0/VehicleObjectPool.h, common/src/VehicleObjectPool.cpp):
  recycled VehiclePropValue objects, one internal pool per value type and vector size.

  A \<open>recyclable_ptr\<close> is the object it owns (\<open>None\<close> for a null pointer) and its deleter, which either
  frees the object or hands it back to the internal pool it came from. Dereferencing a null pointer and
  reading past the end of a vector are the errors of \<open>pool_fault\<close>. \<open>fresh\<close> stands for the uninitialised
  scalar fields of a newly allocated object. Each public method is one atomic step.
\<close>

subsection \<open>State\<close>

record PoolStats =
  Obtained :: u32
  Created :: u32
  Recycled :: u32

record InternalPool =
  ip_propType :: i32
  ip_vectorSize :: nat
  ip_objects :: "VehiclePropValue list"

record VehiclePropValuePool =
  vp_maxRecyclableVectorSize :: nat
  vp_valueTypePools :: "(i32, InternalPool) std_map"
  vp_stats :: PoolStats

datatype Deleter = Dispose | RecycleInto i32

type_synonym recyclable_ptr = "VehiclePropValue option \<times> Deleter"

datatype pool_fault = NullDereference | VectorOutOfRange

definition new_pool :: "nat \<Rightarrow> VehiclePropValuePool" where
  "new_pool maxRecyclableVectorSize =
     \<lparr>vp_maxRecyclableVectorSize = maxRecyclableVectorSize, vp_valueTypePools = [],
      vp_stats = \<lparr>Obtained = 0, Created = 0, Recycled = 0\<rparr>\<rparr>"

subsection \<open>One internal pool\<close>

definition is_int32_type :: "i32 \<Rightarrow> bool" where
  "is_int32_type t \<longleftrightarrow> t = TYPE_INT32 \<or> t = TYPE_INT32_VEC \<or> t = TYPE_BOOLEAN"

definition is_float_type :: "i32 \<Rightarrow> bool" where
  "is_float_type t \<longleftrightarrow> t = TYPE_FLOAT \<or> t = TYPE_FLOAT_VEC"

definition is_int64_type :: "i32 \<Rightarrow> bool" where
  "is_int64_type t \<longleftrightarrow> t = TYPE_INT64 \<or> t = TYPE_INT64_VEC"

definition check_vec :: "nat \<Rightarrow> 'a list \<Rightarrow> bool \<Rightarrow> bool" where
  "check_vec vectorSize vec expected \<longleftrightarrow> length vec = (if expected then vectorSize else 0)"

definition check :: "i32 \<Rightarrow> nat \<Rightarrow> RawValue \<Rightarrow> bool" where
  "check propType vectorSize v \<longleftrightarrow>
     check_vec vectorSize (int32Values v) (is_int32_type propType) \<and>
     check_vec vectorSize (floatValues v) (is_float_type propType) \<and>
     check_vec vectorSize (int64Values v) (is_int64_type propType) \<and>
     check_vec vectorSize (bytes v) (propType = TYPE_BYTES) \<and> length (stringValue v) = 0"

definition createObject :: "VehiclePropValue \<Rightarrow> InternalPool \<Rightarrow> VehiclePropValue option" where
  "createObject fresh p = createVehiclePropValue fresh (ip_propType p) (ip_vectorSize p)"

definition ObjectPool_obtain ::
  "VehiclePropValue \<Rightarrow> InternalPool \<times> PoolStats \<Rightarrow> VehiclePropValue option \<times> InternalPool \<times> PoolStats" where
  "ObjectPool_obtain fresh ps =
     (let (p, st) = ps; st1 = st\<lparr>Obtained := Obtained st + 1\<rparr> in
      case ip_objects p of
        [] \<Rightarrow> (createObject fresh p, p, st1\<lparr>Created := Created st1 + 1\<rparr>)
      | obj # objects \<Rightarrow> (Some obj, p\<lparr>ip_objects := objects\<rparr>, st1))"

definition ObjectPool_recycle ::
  "VehiclePropValue \<Rightarrow> InternalPool \<times> PoolStats \<Rightarrow> InternalPool \<times> PoolStats" where
  "ObjectPool_recycle obj ps =
     (let (p, st) = ps
      in (p\<lparr>ip_objects := ip_objects p @ [obj]\<rparr>, st\<lparr>Recycled := Recycled st + 1\<rparr>))"

definition InternalPool_recycle ::
  "VehiclePropValue option \<Rightarrow> InternalPool \<times> PoolStats \<Rightarrow> InternalPool \<times> PoolStats" where
  "InternalPool_recycle ptr ps =
     (case ptr of
        None \<Rightarrow> ps
      | Some obj \<Rightarrow>
          (if \<not> check (ip_propType (fst ps)) (ip_vectorSize (fst ps)) (pv_value obj) then ps
           else ObjectPool_recycle obj ps))"

subsection \<open>The pool of pools\<close>

definition isDisposable :: "i32 \<Rightarrow> nat \<Rightarrow> VehiclePropValuePool \<Rightarrow> bool" where
  "isDisposable type vecSize pool \<longleftrightarrow>
     vp_maxRecyclableVectorSize pool < vecSize \<or> TYPE_STRING = type \<or> TYPE_MIXED = type"

definition obtainDisposable :: "VehiclePropValue \<Rightarrow> i32 \<Rightarrow> nat \<Rightarrow> recyclable_ptr" where
  "obtainDisposable fresh valueType vectorSize =
     (createVehiclePropValue fresh valueType vectorSize, Dispose)"

definition pool_key :: "i32 \<Rightarrow> nat \<Rightarrow> i32" where
  "pool_key type vecSize = type OR wrap32 (int vecSize)"

definition obtainRecylable ::
  "VehiclePropValue \<Rightarrow> i32 \<Rightarrow> nat \<Rightarrow> VehiclePropValuePool \<Rightarrow> recyclable_ptr \<times> VehiclePropValuePool" where
  "obtainRecylable fresh type vecSize pool =
     (let key = pool_key type vecSize;
          p = (case map_of (vp_valueTypePools pool) key of
                 None \<Rightarrow> \<lparr>ip_propType = type, ip_vectorSize = vecSize, ip_objects = []\<rparr>
               | Some p \<Rightarrow> p);
          (obj, p', st) = ObjectPool_obtain fresh (p, vp_stats pool)
      in ((obj, RecycleInto key),
          pool\<lparr>vp_valueTypePools := map_put key p' (vp_valueTypePools pool), vp_stats := st\<rparr>))"

definition obtain_sized ::
  "VehiclePropValue \<Rightarrow> i32 \<Rightarrow> nat \<Rightarrow> VehiclePropValuePool \<Rightarrow> recyclable_ptr \<times> VehiclePropValuePool" where
  "obtain_sized fresh type vecSize pool =
     (if isDisposable type vecSize pool then (obtainDisposable fresh type vecSize, pool)
      else obtainRecylable fresh type vecSize pool)"

definition obtain_type ::
  "VehiclePropValue \<Rightarrow> i32 \<Rightarrow> VehiclePropValuePool \<Rightarrow> recyclable_ptr \<times> VehiclePropValuePool" where
  "obtain_type fresh type pool = obtain_sized fresh type 1 pool"

text \<open>Dereferencing the pointer just obtained, to write through it.\<close>

definition modify ::
  "(VehiclePropValue \<Rightarrow> pool_fault + VehiclePropValue) \<Rightarrow> recyclable_ptr \<times> VehiclePropValuePool \<Rightarrow>
   pool_fault + (recyclable_ptr \<times> VehiclePropValuePool)" where
  "modify f r = (case r of ((ptr, d), pool) \<Rightarrow>
     (case ptr of
        None \<Rightarrow> Inl NullDereference
      | Some v \<Rightarrow> (case f v of Inl e \<Rightarrow> Inl e | Inr v' \<Rightarrow> Inr ((Some v', d), pool))))"

definition obtain_src ::
  "VehiclePropValue \<Rightarrow> VehiclePropValue \<Rightarrow> VehiclePropValuePool \<Rightarrow>
   pool_fault + (recyclable_ptr \<times> VehiclePropValuePool)" where
  "obtain_src fresh src pool =
     (if pv_prop src = 0 then Inr ((None, Dispose), pool)
      else
        let type = getPropType (pv_prop src);
            vecSize = getVehicleRawValueVectorSize (pv_value src) type
        in modify (\<lambda>dest. Inr (dest\<lparr>pv_prop := pv_prop src, pv_areaId := pv_areaId src,
                     pv_status := pv_status src, pv_timestamp := pv_timestamp src,
                     pv_value := copyVehicleRawValue (pv_value dest) (pv_value src)\<rparr>))
             (obtain_sized fresh type vecSize pool))"

text \<open>\<open>vec[0] = value\<close>\<close>

definition set_first :: "'a \<Rightarrow> 'a list \<Rightarrow> pool_fault + 'a list" where
  "set_first x vec = (case vec of [] \<Rightarrow> Inl VectorOutOfRange | _ # ys \<Rightarrow> Inr (x # ys))"

definition obtainInt32 ::
  "VehiclePropValue \<Rightarrow> i32 \<Rightarrow> VehiclePropValuePool \<Rightarrow> pool_fault + (recyclable_ptr \<times> VehiclePropValuePool)" where
  "obtainInt32 fresh x pool =
     modify (\<lambda>v. case set_first x (int32Values (pv_value v)) of
         Inl e \<Rightarrow> Inl e | Inr vec \<Rightarrow> Inr (v\<lparr>pv_value := (pv_value v)\<lparr>int32Values := vec\<rparr>\<rparr>))
       (obtain_type fresh TYPE_INT32 pool)"

definition obtainInt64 ::
  "VehiclePropValue \<Rightarrow> i64 \<Rightarrow> VehiclePropValuePool \<Rightarrow> pool_fault + (recyclable_ptr \<times> VehiclePropValuePool)" where
  "obtainInt64 fresh x pool =
     modify (\<lambda>v. case set_first x (int64Values (pv_value v)) of
         Inl e \<Rightarrow> Inl e | Inr vec \<Rightarrow> Inr (v\<lparr>pv_value := (pv_value v)\<lparr>int64Values := vec\<rparr>\<rparr>))
       (obtain_type fresh TYPE_INT64 pool)"

definition obtainFloat ::
  "VehiclePropValue \<Rightarrow> f32 \<Rightarrow> VehiclePropValuePool \<Rightarrow> pool_fault + (recyclable_ptr \<times> VehiclePropValuePool)" where
  "obtainFloat fresh x pool =
     modify (\<lambda>v. case set_first x (floatValues (pv_value v)) of
         Inl e \<Rightarrow> Inl e | Inr vec \<Rightarrow> Inr (v\<lparr>pv_value := (pv_value v)\<lparr>floatValues := vec\<rparr>\<rparr>))
       (obtain_type fresh TYPE_FLOAT pool)"

definition obtainBoolean ::
  "VehiclePropValue \<Rightarrow> bool \<Rightarrow> VehiclePropValuePool \<Rightarrow> pool_fault + (recyclable_ptr \<times> VehiclePropValuePool)" where
  "obtainBoolean fresh b pool = obtainInt32 fresh (if b then 1 else 0) pool"

definition obtainString ::
  "VehiclePropValue \<Rightarrow> string \<Rightarrow> VehiclePropValuePool \<Rightarrow> pool_fault + (recyclable_ptr \<times> VehiclePropValuePool)" where
  "obtainString fresh cstr pool =
     modify (\<lambda>v. Inr (v\<lparr>pv_value := (pv_value v)\<lparr>stringValue := cstr\<rparr>\<rparr>))
       (obtain_type fresh TYPE_STRING pool)"

definition obtainComplex ::
  "VehiclePropValue \<Rightarrow> VehiclePropValuePool \<Rightarrow> recyclable_ptr \<times> VehiclePropValuePool" where
  "obtainComplex fresh pool = obtain_type fresh TYPE_MIXED pool"

text \<open>The end of a \<open>recyclable_ptr\<close>: a null pointer runs no deleter.\<close>

definition release :: "recyclable_ptr \<Rightarrow> VehiclePropValuePool \<Rightarrow> VehiclePropValuePool" where
  "release ptr pool =
     (case ptr of
        (None, d) \<Rightarrow> pool
      | (Some obj, Dispose) \<Rightarrow> pool
      | (Some obj, RecycleInto key) \<Rightarrow>
          (case map_of (vp_valueTypePools pool) key of
             None \<Rightarrow> pool
           | Some p \<Rightarrow>
               (let (p', st) = InternalPool_recycle (Some obj) (p, vp_stats pool)
                in pool\<lparr>vp_valueTypePools := map_put key p' (vp_valueTypePools pool), vp_stats := st\<rparr>)))"

subsection \<open>The key of a pool determines its type and size\<close>

definition low16_clear :: "i32 \<Rightarrow> bool" where
  "low16_clear type \<longleftrightarrow> type AND 0xffff = 0"

lemma low16_clear_getPropType [simp]: "low16_clear (getPropType prop)"
proof -
  have "(prop AND TYPE_MASK) AND 0xffff = prop AND (TYPE_MASK AND 0xffff)" by (simp only: and.assoc)
  then show ?thesis by (simp add: low16_clear_def getPropType_def)
qed

lemma pool_key_parts:
  assumes "low16_clear type" "n < 2 ^ 16"
  shows "pool_key type n AND 0xffff = int n" "pool_key type n AND NOT 0xffff = type"
proof -
  have w: "wrap32 (int n) = int n" using assms(2) by (intro wrap32_id) (simp add: in_i32_def)
  have "(0xffff :: int) = mask 16" by (simp add: mask_eq_exp_minus_1)
  moreover have "take_bit 16 (int n) = int n" using assms(2) by (simp add: take_bit_int_eq_self)
  ultimately have low: "int n AND 0xffff = int n" by (simp only: take_bit_eq_mask)
  then have none: "int n AND NOT 0xffff = 0"
    by (metis and.assoc and.right_neutral bit.conj_cancel_right and_zero_eq)
  have t: "type = (type AND 0xffff) OR (type AND NOT 0xffff)"
    by (metis bit.conj_disj_distrib bit.disj_cancel_right and.right_neutral)
  then have t': "type AND NOT 0xffff = type" using assms(1) by (simp add: low16_clear_def)
  show "pool_key type n AND 0xffff = int n"
    using assms(1) low by (simp add: pool_key_def w bit.conj_disj_distrib2 low16_clear_def)
  show "pool_key type n AND NOT 0xffff = type"
    unfolding pool_key_def w bit.conj_disj_distrib2 none t' by simp
qed

lemma pool_key_inj:
  assumes "low16_clear t" "n < 2 ^ 16" "low16_clear t'" "n' < 2 ^ 16" "pool_key t n = pool_key t' n'"
  shows "t = t' \<and> n = n'"
  using pool_key_parts [OF assms(1,2)] pool_key_parts [OF assms(3,4)] assms(5) by simp

subsection \<open>Invariant\<close>

definition pool_inv :: "VehiclePropValuePool \<Rightarrow> bool" where
  "pool_inv pool \<longleftrightarrow> vp_maxRecyclableVectorSize pool < 2 ^ 16 \<and> map_inv (vp_valueTypePools pool) \<and>
     (\<forall>key p. map_of (vp_valueTypePools pool) key = Some p \<longrightarrow>
        key = pool_key (ip_propType p) (ip_vectorSize p) \<and> low16_clear (ip_propType p) \<and>
        ip_vectorSize p \<le> vp_maxRecyclableVectorSize pool \<and>
        (\<forall>obj \<in> set (ip_objects p). check (ip_propType p) (ip_vectorSize p) (pv_value obj)))"

lemma pool_inv_pool:
  assumes "pool_inv pool" "map_of (vp_valueTypePools pool) key = Some p"
  shows "key = pool_key (ip_propType p) (ip_vectorSize p)" "low16_clear (ip_propType p)"
    "ip_vectorSize p \<le> vp_maxRecyclableVectorSize pool" "ip_vectorSize p < 2 ^ 16"
    "\<And>obj. obj \<in> set (ip_objects p) \<Longrightarrow> check (ip_propType p) (ip_vectorSize p) (pv_value obj)"
  using assms unfolding pool_inv_def by (blast intro: le_less_trans)+

lemma pool_inv_put:
  assumes "pool_inv pool" "low16_clear (ip_propType p)" "ip_vectorSize p \<le> vp_maxRecyclableVectorSize pool"
    "\<And>obj. obj \<in> set (ip_objects p) \<Longrightarrow> check (ip_propType p) (ip_vectorSize p) (pv_value obj)"
  shows "pool_inv (pool\<lparr>vp_valueTypePools :=
           map_put (pool_key (ip_propType p) (ip_vectorSize p)) p (vp_valueTypePools pool), vp_stats := st\<rparr>)"
  using assms by (auto simp: pool_inv_def)

text \<open>An object made for a pool passes that pool's check.\<close>

lemma created_checks:
  assumes "createVehiclePropValue fresh type n = Some v" "type \<noteq> TYPE_STRING" "type \<noteq> TYPE_MIXED"
  shows "check type n (pv_value v)"
proof -
  have "type \<in> {TYPE_BOOLEAN, TYPE_INT32, TYPE_INT32_VEC, TYPE_INT64, TYPE_INT64_VEC, TYPE_FLOAT, TYPE_FLOAT_VEC, TYPE_BYTES}"
    using assms createVehiclePropValue_known [of fresh type n] by blast
  with assms(1) show ?thesis
    by (elim insertE emptyE)
      (hypsubst, force simp: createVehiclePropValue_def check_def check_vec_def empty_raw_def
        is_int32_type_def is_float_type_def is_int64_type_def)+
qed

lemma check_size:
  assumes "check type n v" "createVehiclePropValue fresh type n \<noteq> None" "type \<noteq> TYPE_STRING" "type \<noteq> TYPE_MIXED"
  shows "getVehicleRawValueVectorSize v type = n"
  using assms unfolding createVehiclePropValue_known
  by (auto simp: check_def check_vec_def getVehicleRawValueVectorSize_def
      is_int32_type_def is_float_type_def is_int64_type_def)

lemma ObjectPool_obtain_result:
  assumes "ObjectPool_obtain fresh (p, st) = (obj, p', st')"
    and objs: "\<forall>v \<in> set (ip_objects p). check type n (pv_value v)"
    and kind: "type \<noteq> TYPE_STRING" "type \<noteq> TYPE_MIXED"
    and p: "ip_propType p = type" "ip_vectorSize p = n"
  shows "ip_propType p' = type \<and> ip_vectorSize p' = n \<and> set (ip_objects p') \<subseteq> set (ip_objects p) \<and>
    (\<forall>v. obj = Some v \<longrightarrow> check type n (pv_value v)) \<and>
    (createVehiclePropValue fresh type n \<noteq> None \<longrightarrow> obj \<noteq> None)"
proof (cases "ip_objects p")
  case Nil
  then have "obj = createVehiclePropValue fresh type n" "p' = p"
    using assms by (simp_all add: ObjectPool_obtain_def createObject_def)
  with p created_checks [OF _ kind, of fresh n] show ?thesis by simp
next
  case (Cons v vs)
  then have "obj = Some v" "p' = p\<lparr>ip_objects := vs\<rparr>"
    using assms by (simp_all add: ObjectPool_obtain_def)
  with p objs Cons show ?thesis by auto
qed

lemma obtainRecylable_shape:
  assumes inv: "pool_inv pool" and low: "low16_clear type" and n: "n \<le> vp_maxRecyclableVectorSize pool"
    and kind: "type \<noteq> TYPE_STRING" "type \<noteq> TYPE_MIXED"
    and r: "obtainRecylable fresh type n pool = ((ptr, d), pool')"
  shows "pool_inv pool' \<and> (\<forall>v. ptr = Some v \<longrightarrow> check type n (pv_value v)) \<and>
    (createVehiclePropValue fresh type n \<noteq> None \<longrightarrow> ptr \<noteq> None)"
proof -
  have n16: "n < 2 ^ 16" using inv n by (simp add: pool_inv_def)
  let ?p = "case map_of (vp_valueTypePools pool) (pool_key type n) of
      None \<Rightarrow> \<lparr>ip_propType = type, ip_vectorSize = n, ip_objects = []\<rparr> | Some p \<Rightarrow> p"
  have p: "ip_propType ?p = type \<and> ip_vectorSize ?p = n \<and> (\<forall>obj \<in> set (ip_objects ?p). check type n (pv_value obj))"
  proof (cases "map_of (vp_valueTypePools pool) (pool_key type n)")
    case (Some p)
    note ip = pool_inv_pool [OF inv Some]
    have "type = ip_propType p \<and> n = ip_vectorSize p"
      using pool_key_inj [OF low n16 ip(2,4,1)] .
    with Some ip(5) show ?thesis by simp
  qed simp
  obtain p' st where o: "ObjectPool_obtain fresh (?p, vp_stats pool) = (ptr, p', st)"
      and d: "d = RecycleInto (pool_key type n)"
      and pool': "pool' = pool\<lparr>vp_valueTypePools := map_put (pool_key type n) p' (vp_valueTypePools pool), vp_stats := st\<rparr>"
    using r by (auto simp: obtainRecylable_def Let_def split: prod.splits)
  from ObjectPool_obtain_result [OF o _ kind] p
  have res: "ip_propType p' = type" "ip_vectorSize p' = n" "set (ip_objects p') \<subseteq> set (ip_objects ?p)"
    "\<And>v. ptr = Some v \<Longrightarrow> check type n (pv_value v)" "createVehiclePropValue fresh type n \<noteq> None \<Longrightarrow> ptr \<noteq> None"
    by metis+
  have "\<And>obj. obj \<in> set (ip_objects p') \<Longrightarrow> check type n (pv_value obj)" using res(3) p by blast
  with pool_inv_put [OF inv, of p' st] res(1,2) low n have "pool_inv pool'" unfolding pool' by simp
  with res(4,5) show ?thesis by blast
qed

text \<open>Whatever the pool held before, an object obtained for a valid type has the requested shape.\<close>

definition has_shape :: "i32 \<Rightarrow> nat \<Rightarrow> VehiclePropValue \<Rightarrow> bool" where
  "has_shape type n v \<longleftrightarrow>
     (type \<noteq> TYPE_STRING \<longrightarrow> type \<noteq> TYPE_MIXED \<longrightarrow> check type n (pv_value v))"

lemma obtain_sized_shape:
  assumes inv: "pool_inv pool" and low: "low16_clear type"
    and r: "obtain_sized fresh type n pool = ((ptr, d), pool')"
  shows "pool_inv pool' \<and> (\<forall>v. ptr = Some v \<longrightarrow> has_shape type n v) \<and>
    (createVehiclePropValue fresh type n \<noteq> None \<longrightarrow> ptr \<noteq> None)"
proof (cases "isDisposable type n pool")
  case True
  then show ?thesis
    using r inv created_checks [of fresh type n]
    by (auto simp: obtain_sized_def obtainDisposable_def has_shape_def)
next
  case False
  then have "n \<le> vp_maxRecyclableVectorSize pool" "type \<noteq> TYPE_STRING" "type \<noteq> TYPE_MIXED"
    by (auto simp: isDisposable_def)
  moreover have "obtainRecylable fresh type n pool = ((ptr, d), pool')"
    using r False by (simp add: obtain_sized_def)
  ultimately show ?thesis
    using obtainRecylable_shape [OF inv low] by (simp add: has_shape_def)
qed

lemma release_inv: "pool_inv pool \<Longrightarrow> pool_inv (release ptr pool)"
proof -
  assume inv: "pool_inv pool"
  show ?thesis
  proof (cases "\<exists>obj key p. ptr = (Some obj, RecycleInto key) \<and> map_of (vp_valueTypePools pool) key = Some p")
    case True
    then obtain obj key p where ptr: "ptr = (Some obj, RecycleInto key)"
        and p: "map_of (vp_valueTypePools pool) key = Some p"
      by blast
    note ip = pool_inv_pool [OF inv p]
    obtain p' st where rec: "InternalPool_recycle (Some obj) (p, vp_stats pool) = (p', st)" by fastforce
    have p': "ip_propType p' = ip_propType p" "ip_vectorSize p' = ip_vectorSize p"
        "\<And>o'. o' \<in> set (ip_objects p') \<Longrightarrow> check (ip_propType p) (ip_vectorSize p) (pv_value o')"
      using rec ip(5) by (auto simp: InternalPool_recycle_def ObjectPool_recycle_def split: if_splits)
    then show ?thesis
      using pool_inv_put [OF inv, of p' st] ip rec p by (simp add: release_def ptr)
  qed (use inv in \<open>auto simp: release_def split: prod.split option.split Deleter.split\<close>)
qed

datatype pool_op = ObtainOp VehiclePropValue i32 nat | ReleaseOp recyclable_ptr

text \<open>A type is the type field of some property id; what a released pointer holds is arbitrary.\<close>

fun pool_exec :: "pool_op \<Rightarrow> VehiclePropValuePool \<Rightarrow> VehiclePropValuePool" where
  "pool_exec (ObtainOp fresh prop n) pool = snd (obtain_sized fresh (getPropType prop) n pool)"
| "pool_exec (ReleaseOp ptr) pool = release ptr pool"

interpretation pool: op_system pool_inv pool_exec
proof
  fix op and pool :: VehiclePropValuePool
  assume "pool_inv pool"
  then show "pool_inv (pool_exec op pool)"
  proof (cases op)
    case (ObtainOp fresh p n)
    then show ?thesis
      using obtain_sized_shape [OF \<open>pool_inv pool\<close> low16_clear_getPropType, of fresh p n]
      by (metis pool_exec.simps(1) prod.collapse)
  qed (simp add: release_inv)
qed

definition pool_run :: "nat \<Rightarrow> pool_op list \<Rightarrow> VehiclePropValuePool" where
  "pool_run maxSize ops = fold pool_exec ops (new_pool maxSize)"

lemma pool_run_inv: "maxSize < 2 ^ 16 \<Longrightarrow> pool_inv (pool_run maxSize ops)"
  unfolding pool_run_def by (rule pool.run_inv) (simp add: pool_inv_def new_pool_def)

text \<open>A copy of a value of a known type is that value, whatever object the pool hands out for it.\<close>

lemma obtain_src_copies:
  assumes inv: "pool_inv pool" and "pv_prop src \<noteq> 0"
    and known: "createVehiclePropValue fresh (getPropType (pv_prop src)) 0 \<noteq> None"
  obtains d pool' where "obtain_src fresh src pool = Inr ((Some src, d), pool')" "pool_inv pool'"
proof -
  let ?t = "getPropType (pv_prop src)" and ?n = "getVehicleRawValueVectorSize (pv_value src) (getPropType (pv_prop src))"
  obtain ptr d pool' where r: "obtain_sized fresh ?t ?n pool = ((ptr, d), pool')"
    by (metis prod.exhaust)
  note shape = obtain_sized_shape [OF inv low16_clear_getPropType r]
  have "createVehiclePropValue fresh ?t ?n \<noteq> None"
    using known unfolding createVehiclePropValue_known .
  with shape obtain v where "ptr = Some v" by auto
  with r shape that assms(2) show ?thesis by (simp add: obtain_src_def modify_def Let_def)
qed

lemma obtain_src_inv:
  assumes "pool_inv pool" "obtain_src fresh src pool = Inr (p, pool')"
  shows "pool_inv pool'"
proof (cases "pv_prop src = 0")
  case False
  let ?t = "getPropType (pv_prop src)" and ?n = "getVehicleRawValueVectorSize (pv_value src) (getPropType (pv_prop src))"
  obtain ptr d q where r: "obtain_sized fresh ?t ?n pool = ((ptr, d), q)" by (metis prod.exhaust)
  with assms(2) False have "pool' = q"
    by (auto simp: obtain_src_def modify_def Let_def split: option.splits)
  with obtain_sized_shape [OF assms(1) low16_clear_getPropType r] show ?thesis by simp
qed (use assms in \<open>simp add: obtain_src_def\<close>)

subsection \<open>Properties\<close>

text \<open>
  after any history of obtaining objects and releasing pointers with arbitrarily modified contents,
  an object obtained for a known property type has exactly the vector sizes asked for (a disposable
  string or mixed value excepted, which has none), and obtaining a copy of a value of a known type
  returns exactly that value: nothing of a recycled object's old content shows.
\<close>

theorem pool_objects_well_formed:
  assumes "maxSize < 2 ^ 16" "createVehiclePropValue fresh (getPropType prop) n \<noteq> None"
    and "pv_prop src \<noteq> 0" "createVehiclePropValue fresh (getPropType (pv_prop src)) 0 \<noteq> None"
  shows "(\<exists>v d pool'. obtain_sized fresh (getPropType prop) n (pool_run maxSize ops) = ((Some v, d), pool') \<and>
            has_shape (getPropType prop) n v) \<and>
         (\<exists>d pool'. obtain_src fresh src (pool_run maxSize ops) = Inr ((Some src, d), pool'))"
proof (intro conjI)
  note inv = pool_run_inv [OF assms(1), of ops]
  obtain ptr d pool' where r: "obtain_sized fresh (getPropType prop) n (pool_run maxSize ops) = ((ptr, d), pool')"
    by (metis prod.exhaust)
  from obtain_sized_shape [OF inv low16_clear_getPropType r] assms(2) r
  show "\<exists>v d pool'. obtain_sized fresh (getPropType prop) n (pool_run maxSize ops) = ((Some v, d), pool') \<and>
            has_shape (getPropType prop) n v"
    by auto
  show "\<exists>d pool'. obtain_src fresh src (pool_run maxSize ops) = Inr ((Some src, d), pool')"
    by (rule obtain_src_copies [OF inv assms(3,4)]) blast
qed

lemma obtain_type_one:
  assumes "pool_inv pool" "type \<in> {TYPE_INT32, TYPE_INT64, TYPE_FLOAT, TYPE_STRING}"
  shows "\<exists>v d pool'. obtain_type fresh type pool = ((Some v, d), pool') \<and> has_shape type 1 v"
proof -
  obtain ptr d pool' where r: "obtain_sized fresh type 1 pool = ((ptr, d), pool')" by (metis prod.exhaust)
  have "low16_clear type" using assms(2) by (auto simp: low16_clear_def)
  moreover have "createVehiclePropValue fresh type 1 \<noteq> None"
    using assms(2) unfolding createVehiclePropValue_known by auto
  ultimately show ?thesis
    using obtain_sized_shape [OF assms(1) _ r] r by (auto simp: obtain_type_def)
qed

text \<open>
  The typed shortcuts never write past a vector and never dereference null, whatever was recycled:
  the object they return holds exactly the given value.
\<close>

theorem pool_shortcuts_total:
  assumes "maxSize < 2 ^ 16" "pool = pool_run maxSize ops"
  shows "(\<exists>v d p. obtainInt32 fresh n pool = Inr ((Some v, d), p) \<and> int32Values (pv_value v) = [n]) \<and>
    (\<exists>v d p. obtainInt64 fresh n pool = Inr ((Some v, d), p) \<and> int64Values (pv_value v) = [n]) \<and>
    (\<exists>v d p. obtainFloat fresh f pool = Inr ((Some v, d), p) \<and> floatValues (pv_value v) = [f]) \<and>
    (\<exists>v d p. obtainBoolean fresh b pool = Inr ((Some v, d), p) \<and>
             int32Values (pv_value v) = [if b then 1 else 0]) \<and>
    (\<exists>v d p. obtainString fresh str pool = Inr ((Some v, d), p) \<and> stringValue (pv_value v) = str)"
proof -
  have inv: "pool_inv pool" using pool_run_inv assms by simp
  have i32: "\<exists>v d p. obtainInt32 fresh m pool = Inr ((Some v, d), p) \<and> int32Values (pv_value v) = [m]" for m
    using obtain_type_one [OF inv, of TYPE_INT32 fresh]
    by (auto simp: obtainInt32_def modify_def set_first_def has_shape_def check_def check_vec_def
        is_int32_type_def length_Suc_conv)
  moreover have "\<exists>v d p. obtainInt64 fresh n pool = Inr ((Some v, d), p) \<and> int64Values (pv_value v) = [n]"
    using obtain_type_one [OF inv, of TYPE_INT64 fresh]
    by (auto simp: obtainInt64_def modify_def set_first_def has_shape_def check_def check_vec_def
        is_int64_type_def length_Suc_conv)
  moreover have "\<exists>v d p. obtainFloat fresh f pool = Inr ((Some v, d), p) \<and> floatValues (pv_value v) = [f]"
    using obtain_type_one [OF inv, of TYPE_FLOAT fresh]
    by (auto simp: obtainFloat_def modify_def set_first_def has_shape_def check_def check_vec_def
        is_float_type_def length_Suc_conv)
  moreover have "\<exists>v d p. obtainString fresh str pool = Inr ((Some v, d), p) \<and> stringValue (pv_value v) = str"
    using obtain_type_one [OF inv, of TYPE_STRING fresh] by (auto simp: obtainString_def modify_def)
  ultimately show ?thesis by (simp add: obtainBoolean_def)
qed

theorem pool_objects_well_formed_witness:
  "\<exists>d pool'. obtain_src kEmptyValue (kEmptyValue\<lparr>pv_prop := TYPE_INT32\<rparr>) (pool_run 4 []) =
     Inr ((Some (kEmptyValue\<lparr>pv_prop := TYPE_INT32\<rparr>), d), pool')"
proof -
  have t: "getPropType TYPE_INT32 = TYPE_INT32" by (simp add: getPropType_def)
  then have "createVehiclePropValue kEmptyValue (getPropType TYPE_INT32) 1 \<noteq> None"
      "createVehiclePropValue kEmptyValue (getPropType (pv_prop (kEmptyValue\<lparr>pv_prop := TYPE_INT32\<rparr>))) 0 \<noteq> None"
    by (simp_all add: createVehiclePropValue_def Let_def)
  from pool_objects_well_formed [OF _ this(1) _ this(2), of 4] show ?thesis by simp
qed

theorem pool_shortcuts_total_witness:
  "\<exists>v d p. obtainInt32 kEmptyValue 42 (pool_run 4 []) = Inr ((Some v, d), p) \<and> int32Values (pv_value v) = [42]"
  using pool_shortcuts_total [of 4 "pool_run 4 []" "[]" kEmptyValue 42 0 True "[]"] by simp

end
