(* ===== verification/Timer.thy ===== *)
theory Timer
  imports Prelude
begin

text \<open>
  RecurrentTimer (common/include/vhal_v2_0/RecurrentTimer.h): recurrent events with their intervals,
  fired by one thread. Times and intervals are nanoseconds. Registering and unregistering hold the
  mutex, and so does the scan of \<open>loop\<close>; each is one step. The events of an \<open>unordered_map\<close> are visited
  here in the order of their cookies; the order is not specified by the language. \<open>interval\<close> is assumed
  positive where a lemma says so (the code divides by it).
\<close>

record RecurrentEvent =
  re_interval :: i64
  re_cookie :: i32
  re_absoluteTime :: i64

record RecurrentTimer =
  rt_events :: "(i32, RecurrentEvent) std_map"
  rt_stopRequested :: bool

definition new_timer :: RecurrentTimer where
  "new_timer = \<lparr>rt_events = [], rt_stopRequested = False\<rparr>"

definition kInvalidTime :: i64 where
  "kInvalidTime = 2 ^ 63 - 1"

text \<open>C++ division of integers truncates towards zero.\<close>

definition cpp_div :: "int \<Rightarrow> int \<Rightarrow> int" where
  "cpp_div a b = sgn a * sgn b * (\<bar>a\<bar> div \<bar>b\<bar>)"

definition cpp_mod :: "int \<Rightarrow> int \<Rightarrow> int" where
  "cpp_mod a b = a - cpp_div a b * b"

definition registerRecurrentEvent :: "i64 \<Rightarrow> i64 \<Rightarrow> i32 \<Rightarrow> RecurrentTimer \<Rightarrow> RecurrentTimer" where
  "registerRecurrentEvent now interval cookie t =
     (let absoluteTime = now - cpp_mod now interval
      in t\<lparr>rt_events := map_put cookie
             \<lparr>re_interval = interval, re_cookie = cookie, re_absoluteTime = absoluteTime\<rparr> (rt_events t)\<rparr>)"

definition unregisterRecurrentEvent :: "i32 \<Rightarrow> RecurrentTimer \<Rightarrow> RecurrentTimer" where
  "unregisterRecurrentEvent cookie t = t\<lparr>rt_events := map_erase cookie (rt_events t)\<rparr>"

text \<open>The multiplier is an \<open>int\<close>: the quotient is converted to 32 bits.\<close>

definition updateNextEventTime :: "i64 \<Rightarrow> RecurrentEvent \<Rightarrow> RecurrentEvent" where
  "updateNextEventTime now e =
     (let intervalMultiplier = wrap32 (cpp_div (now - re_absoluteTime e) (re_interval e));
          intervalMultiplier = (if intervalMultiplier \<le> 0 then 1 else intervalMultiplier)
      in e\<lparr>re_absoluteTime := re_absoluteTime e + intervalMultiplier * re_interval e\<rparr>)"

text \<open>The loop over the map: the updated events, the cookies to report, the next wake-up time.\<close>

fun scan_events ::
  "i64 \<Rightarrow> (i32, RecurrentEvent) std_map \<Rightarrow> i64 \<Rightarrow> (i32, RecurrentEvent) std_map \<times> i32 list \<times> i64" where
  "scan_events now [] nextEventTime = ([], [], nextEventTime)"
| "scan_events now ((c, event) # events) nextEventTime =
     (let (event', fired) = (if re_absoluteTime event \<le> now
                             then (updateNextEventTime now event, [re_cookie event]) else (event, []));
          next' = (if re_absoluteTime event' < nextEventTime then re_absoluteTime event' else nextEventTime);
          (events', cookies, n) = scan_events now events next'
      in ((c, event') # events', fired @ cookies, n))"

text \<open>
  One turn of \<open>loop\<close> at time \<open>now\<close>: what \<open>action\<close> is called with (not called when empty) and the time
  until which the thread then waits; \<open>None\<close> when the loop has ended.
\<close>

definition loop_turn :: "i64 \<Rightarrow> RecurrentTimer \<Rightarrow> (i32 list \<times> i64 \<times> RecurrentTimer) option" where
  "loop_turn now t =
     (if rt_stopRequested t then None
      else (case scan_events now (rt_events t) kInvalidTime of
              (events, cookies, nextEventTime) \<Rightarrow>
                Some (cookies, nextEventTime, t\<lparr>rt_events := events\<rparr>)))"

definition stop :: "RecurrentTimer \<Rightarrow> RecurrentTimer" where
  "stop t = t\<lparr>rt_stopRequested := True, rt_events := []\<rparr>"

subsection \<open>Lemmas\<close>

definition advance :: "i64 \<Rightarrow> RecurrentEvent \<Rightarrow> RecurrentEvent" where
  "advance now e = (if re_absoluteTime e \<le> now then updateNextEventTime now e else e)"

lemma scan_events_eq:
  "scan_events now events next =
     (map (\<lambda>(c, e). (c, advance now e)) events,
      map (\<lambda>(c, e). re_cookie e) (filter (\<lambda>(c, e). re_absoluteTime e \<le> now) events),
      fold min (map (\<lambda>(c, e). re_absoluteTime (advance now e)) events) next)"
  by (induction now events "next" rule: scan_events.induct)
    (auto simp: advance_def Let_def min_def split: prod.split)

lemma advance_time:
  assumes "0 < re_interval e"
  shows "\<exists>k > 0. re_absoluteTime (updateNextEventTime now e) = re_absoluteTime e + k * re_interval e"
  unfolding updateNextEventTime_def Let_def
  by (intro exI [of _ "if wrap32 (cpp_div (now - re_absoluteTime e) (re_interval e)) \<le> 0 then 1
        else wrap32 (cpp_div (now - re_absoluteTime e) (re_interval e))"]) simp

lemma cpp_div_pos: "0 \<le> a \<Longrightarrow> 0 < b \<Longrightarrow> cpp_div a b = a div b"
  by (cases "a = 0") (simp_all add: cpp_div_def)

text \<open>
  The times are 64-bit counts in the code and unbounded here. No sum or product of the two loops leaves
  the 64 bits before the clock does: the next time is at most one interval after the present one, and
  the clock, in nanoseconds since the start of the system, has 292 years.
\<close>

lemma wrap32_le: "0 \<le> q \<Longrightarrow> wrap32 q \<le> q"
  using zmod_le_nonneg_dividend [of "q + 2 ^ 31" "2 ^ 32"] by (simp add: wrap32_def)

lemma updateNextEventTime_fits:
  assumes "0 < re_interval e" "0 \<le> re_absoluteTime e" "re_absoluteTime e \<le> now" "now + re_interval e < 2 ^ 63"
  shows "re_absoluteTime e < re_absoluteTime (updateNextEventTime now e)"
    "re_absoluteTime (updateNextEventTime now e) < 2 ^ 63"
proof -
  define d q where "d = now - re_absoluteTime e" and "q = wrap32 (d div re_interval e)"
  have d: "0 \<le> d" using assms(3) by (simp add: d_def)
  have next_time: "re_absoluteTime (updateNextEventTime now e) = re_absoluteTime e + (if q \<le> 0 then 1 else q) * re_interval e"
    using cpp_div_pos [OF d assms(1)] by (simp add: updateNextEventTime_def Let_def d_def q_def)
  have "q \<le> d div re_interval e"
    unfolding q_def using wrap32_le [of "d div re_interval e"] pos_imp_zdiv_nonneg_iff [of "re_interval e" d] assms(1) d by simp
  then have "q * re_interval e \<le> d div re_interval e * re_interval e" using assms(1) by (intro mult_right_mono) simp_all
  also have "\<dots> \<le> d" using pos_mod_sign [OF assms(1), of d] div_mult_mod_eq [of d "re_interval e"] by linarith
  finally have "q * re_interval e \<le> d" .
  then show "re_absoluteTime (updateNextEventTime now e) < 2 ^ 63" using assms(1,3,4) by (auto simp: next_time d_def)
  show "re_absoluteTime e < re_absoluteTime (updateNextEventTime now e)" using assms(1) by (simp add: next_time)
qed

lemma updateNextEventTime_on_time:
  assumes "re_absoluteTime e \<le> now" "now < re_absoluteTime e + re_interval e"
  shows "re_absoluteTime (updateNextEventTime now e) = re_absoluteTime e + re_interval e"
proof -
  have "cpp_div (now - re_absoluteTime e) (re_interval e) = 0"
    using assms by (subst cpp_div_pos) (auto intro: div_pos_pos_trivial)
  then show ?thesis by (simp add: updateNextEventTime_def wrap32_def Let_def)
qed

lemma updateNextEventTime_late:
  assumes "0 < re_interval e" "re_absoluteTime e + re_interval e \<le> now"
    and "now - re_absoluteTime e < 2 ^ 31 * re_interval e"
  shows "re_absoluteTime (updateNextEventTime now e) =
           now - (now - re_absoluteTime e) mod re_interval e"
proof -
  let ?q = "(now - re_absoluteTime e) div re_interval e"
  have q: "cpp_div (now - re_absoluteTime e) (re_interval e) = ?q"
    using assms by (intro cpp_div_pos) auto
  have split: "now - re_absoluteTime e = ?q * re_interval e + (now - re_absoluteTime e) mod re_interval e"
    by simp
  have "0 \<le> (now - re_absoluteTime e) mod re_interval e" using assms(1) by simp
  with split assms(3) have "?q * re_interval e < 2 ^ 31 * re_interval e" by linarith
  then have "?q < 2 ^ 31" using assms(1) by (simp add: mult_less_cancel_right)
  moreover have "re_interval e div re_interval e \<le> ?q"
    using assms(1,2) by (intro zdiv_mono1) auto
  ultimately have "wrap32 ?q = ?q" "\<not> ?q \<le> 0" using assms(1) by (auto intro!: wrap32_id simp: in_i32_def)
  then have "re_absoluteTime (updateNextEventTime now e) = re_absoluteTime e + ?q * re_interval e"
    by (simp add: updateNextEventTime_def q Let_def)
  then show ?thesis using split by linarith
qed

subsection \<open>Properties\<close>

definition timer_ok :: "RecurrentTimer \<Rightarrow> bool" where
  "timer_ok t \<longleftrightarrow> map_inv (rt_events t) \<and>
     (\<forall>c e. map_of (rt_events t) c = Some e \<longrightarrow> re_cookie e = c \<and> 0 < re_interval e)"

lemma fold_min_int: "fold min (xs :: int list) n \<le> n \<and> (\<forall>x \<in> set xs. fold min xs n \<le> x) \<and>
    (fold min xs n = n \<or> fold min xs n \<in> set xs)"
  by (induction xs arbitrary: n) (auto simp: min_def split: if_splits, fastforce+)

text \<open>
  C12: one turn of the timer thread reports exactly the events that are due, each once, moves each of
  them by a positive whole number of its intervals and no other event, and then sleeps until the
  earliest event that is left (or for ever).
\<close>

theorem timer_turn_correct:
  assumes "timer_ok t" "loop_turn now t = Some (cookies, next, t')"
  shows "timer_ok t' \<and> distinct cookies \<and>
    (\<forall>c. c \<in> set cookies \<longleftrightarrow> (\<exists>e. map_of (rt_events t) c = Some e \<and> re_absoluteTime e \<le> now)) \<and>
    (\<forall>c e. map_of (rt_events t) c = Some e \<longrightarrow>
       (\<exists>e'. map_of (rt_events t') c = Some e' \<and> re_interval e' = re_interval e \<and>
          (if re_absoluteTime e \<le> now
           then \<exists>k > 0. re_absoluteTime e' = re_absoluteTime e + k * re_interval e else e' = e))) \<and>
    next \<le> kInvalidTime \<and>
    (\<forall>c e. map_of (rt_events t') c = Some e \<longrightarrow> next \<le> re_absoluteTime e) \<and>
    (next = kInvalidTime \<or> (\<exists>c e. map_of (rt_events t') c = Some e \<and> re_absoluteTime e = next))"
proof -
  let ?es = "rt_events t"
  have es': "rt_events t' = map (\<lambda>(c, e). (c, advance now e)) ?es"
    and cookies: "cookies = map (\<lambda>(c, e). re_cookie e) (filter (\<lambda>(c, e). re_absoluteTime e \<le> now) ?es)"
    and nxt: "next = fold min (map (\<lambda>(c, e). re_absoluteTime (advance now e)) ?es) kInvalidTime"
    using assms(2) by (auto simp: loop_turn_def scan_events_eq split: if_splits)
  have inv: "map_inv ?es" and ok: "\<And>c e. map_of ?es c = Some e \<Longrightarrow> re_cookie e = c \<and> 0 < re_interval e"
    using assms(1) by (auto simp: timer_ok_def)
  have mem: "(c, e) \<in> set ?es \<longleftrightarrow> map_of ?es c = Some e" for c e
    using map_of_mem [OF inv] map_of_SomeD by fastforce
  have look: "map_of (rt_events t') c = map_option (advance now) (map_of ?es c)" for c
    unfolding es' by (simp add: map_of_map)
  have key: "cookies = map fst (filter (\<lambda>(c, e). re_absoluteTime e \<le> now) ?es)"
    unfolding cookies using ok mem by (auto intro!: map_cong)
  have adv: "re_cookie (advance now e) = re_cookie e \<and> re_interval (advance now e) = re_interval e" for e
    by (simp add: advance_def updateNextEventTime_def Let_def)
  have "map_inv (rt_events t')" using inv unfolding es' map_inv_def by (simp add: case_prod_unfold comp_def)
  then have "timer_ok t'" using ok adv by (auto simp: timer_ok_def look)
  moreover have "distinct cookies"
    unfolding key using map_inv_distinct [OF map_inv_filter [OF inv]] by (simp add: case_prod_unfold)
  moreover have "c \<in> set cookies \<longleftrightarrow> (\<exists>e. map_of ?es c = Some e \<and> re_absoluteTime e \<le> now)" for c
    unfolding key using mem by force
  moreover have "\<exists>e'. map_of (rt_events t') c = Some e' \<and> re_interval e' = re_interval e \<and>
      (if re_absoluteTime e \<le> now
       then \<exists>k > 0. re_absoluteTime e' = re_absoluteTime e + k * re_interval e else e' = e)"
    if e: "map_of ?es c = Some e" for c e
    using advance_time [of e now] ok [OF e] by (auto simp: look e adv advance_def updateNextEventTime_def Let_def)
  moreover have times: "set (map (\<lambda>(c, e). re_absoluteTime (advance now e)) ?es) =
      {re_absoluteTime e |c e. map_of (rt_events t') c = Some e}"
    using mem by (force simp: look)
  have "next \<le> kInvalidTime"
      "\<And>c e. map_of (rt_events t') c = Some e \<Longrightarrow> next \<le> re_absoluteTime e"
      "next = kInvalidTime \<or> (\<exists>c e. map_of (rt_events t') c = Some e \<and> re_absoluteTime e = next)"
    using fold_min_int [of "map (\<lambda>(c, e). re_absoluteTime (advance now e)) ?es" kInvalidTime, folded nxt, unfolded times]
    by blast+
  ultimately show ?thesis by blast
qed

text \<open>
  An event that is less than one interval late moves exactly one interval, into the future; one that
  is later than that is only moved to a time not after \<open>now\<close>, so the very next turn reports it again.
\<close>

theorem late_event_fires_twice:
  assumes "0 < re_interval e" "re_absoluteTime e \<le> now"
  shows "(now < re_absoluteTime e + re_interval e \<longrightarrow>
            re_absoluteTime (updateNextEventTime now e) = re_absoluteTime e + re_interval e \<and>
            now < re_absoluteTime (updateNextEventTime now e)) \<and>
         (re_absoluteTime e + re_interval e \<le> now \<and> now - re_absoluteTime e < 2 ^ 31 * re_interval e \<longrightarrow>
            re_absoluteTime (updateNextEventTime now e) \<le> now)"
  using updateNextEventTime_on_time [OF assms(2)] updateNextEventTime_late [OF assms(1), of now] assms(1)
  by auto

definition demo_timer :: RecurrentTimer where
  "demo_timer = registerRecurrentEvent 1050 100 7 (registerRecurrentEvent 1050 200 8 new_timer)"

lemma demo_timer_ok: "timer_ok demo_timer"
  by (auto simp: timer_ok_def demo_timer_def registerRecurrentEvent_def new_timer_def Let_def split: if_splits)

theorem timer_turn_correct_witness:
  "loop_turn 1060 demo_timer = Some ([7, 8], 1100, (demo_timer\<lparr>rt_events :=
     [(7, \<lparr>re_interval = 100, re_cookie = 7, re_absoluteTime = 1100\<rparr>),
      (8, \<lparr>re_interval = 200, re_cookie = 8, re_absoluteTime = 1200\<rparr>)]\<rparr>)) \<and> distinct [7 :: i32, 8]"
proof -
  have r: "loop_turn 1060 demo_timer = Some ([7, 8], 1100, (demo_timer\<lparr>rt_events :=
     [(7, \<lparr>re_interval = 100, re_cookie = 7, re_absoluteTime = 1100\<rparr>),
      (8, \<lparr>re_interval = 200, re_cookie = 8, re_absoluteTime = 1200\<rparr>)]\<rparr>))"
    by code_simp
  with timer_turn_correct [OF demo_timer_ok r] show ?thesis by simp
qed

theorem late_event_fires_twice_witness:
  "re_absoluteTime (updateNextEventTime 350 \<lparr>re_interval = 100, re_cookie = 7, re_absoluteTime = 100\<rparr>) \<le> 350"
  using late_event_fires_twice [of "\<lparr>re_interval = 100, re_cookie = 7, re_absoluteTime = 100\<rparr>" 350] by simp

end
