(* ===== verification/Floats.thy ===== *)
theory Floats
  imports Prelude
begin

text \<open>
  The IEEE single-precision arithmetic the fake value generators and the emulated HAL use, on bit
  patterns. Every finite \<open>float\<close> is an integer multiple of \<open>2^-149\<close>; sums and quotients are computed
  exactly in that unit and rounded to nearest, ties to even. A NaN result is the default quiet NaN. A
  conversion to an integer truncates towards zero and is undefined (\<open>None\<close>) when the value does not fit.
\<close>

subsection \<open>Reading a pattern\<close>

definition f32_sign :: "f32 \<Rightarrow> bool" where
  "f32_sign x \<longleftrightarrow> bit x 31"

definition f32_isinf :: "f32 \<Rightarrow> bool" where
  "f32_isinf x \<longleftrightarrow> f32_magnitude x = 0x7F800000"

definition f32_nan :: f32 where "f32_nan = 0x7FC00000"

definition f32_inf :: "bool \<Rightarrow> f32" where
  "f32_inf neg = (if neg then 0xFF800000 else 0x7F800000)"

text \<open>The magnitude of a finite number in units of \<open>2^-149\<close>, and the signed value.\<close>

definition f32_abs_units :: "f32 \<Rightarrow> int" where
  "f32_abs_units x =
     (let e = f32_magnitude x div 2 ^ 23; frac = f32_magnitude x mod 2 ^ 23
      in if e = 0 then frac else (frac + 2 ^ 23) * 2 ^ nat (e - 1))"

definition f32_units :: "f32 \<Rightarrow> int" where
  "f32_units x = (if f32_sign x then - f32_abs_units x else f32_abs_units x)"

subsection \<open>Rounding\<close>

fun bit_length_fuel :: "nat \<Rightarrow> int \<Rightarrow> nat" where
  "bit_length_fuel 0 n = 0"
| "bit_length_fuel (Suc k) n = (if n \<le> 0 then 0 else Suc (bit_length_fuel k (n div 2)))"

text \<open>Numerators below have fewer than \<open>2^9\<close> bits.\<close>

definition bit_len :: "int \<Rightarrow> nat" where
  "bit_len n = bit_length_fuel 512 n"

text \<open>
  The magnitude nearest to \<open>num / den\<close> units (\<open>0 \<le> num\<close>, \<open>0 < den\<close>) as a pattern without sign: \<open>q\<close> has
  at most 24 bits and exponent \<open>s\<close>; a significand that rounds up to \<open>2^24\<close> carries into the exponent by
  the layout of the pattern.
\<close>

definition f32_round_abs :: "int \<Rightarrow> int \<Rightarrow> int" where
  "f32_round_abs num den =
     (let s = bit_len (num div den) - 24;
          d = den * 2 ^ s;
          q = num div d;
          r = num - q * d;
          q' = (if 2 * r < d then q else if d < 2 * r then q + 1 else if q mod 2 = 0 then q else q + 1);
          pattern = (if s = 0 then q' else int s * 2 ^ 23 + q')
      in if 0x7F800000 \<le> pattern then 0x7F800000 else pattern)"

definition f32_round :: "bool \<Rightarrow> int \<Rightarrow> int \<Rightarrow> f32" where
  "f32_round neg num den =
     (let m = word_of_int (f32_round_abs num den) in if neg then m OR 0x80000000 else m)"

subsection \<open>Arithmetic\<close>

definition f32_neg :: "f32 \<Rightarrow> f32" where
  "f32_neg x = x XOR 0x80000000"

definition f32_add :: "f32 \<Rightarrow> f32 \<Rightarrow> f32" where
  "f32_add a b =
     (if f32_isnan a \<or> f32_isnan b then f32_nan
      else if f32_isinf a then (if f32_isinf b \<and> f32_sign a \<noteq> f32_sign b then f32_nan else a)
      else if f32_isinf b then b
      else
        let n = f32_units a + f32_units b
        in if n = 0 then (if f32_sign a \<and> f32_sign b then 0x80000000 else 0)
           else f32_round (n < 0) \<bar>n\<bar> 1)"

definition f32_sub :: "f32 \<Rightarrow> f32 \<Rightarrow> f32" where
  "f32_sub a b = (if f32_isnan a \<or> f32_isnan b then f32_nan else f32_add a (f32_neg b))"

definition f32_div :: "f32 \<Rightarrow> f32 \<Rightarrow> f32" where
  "f32_div a b =
     (let neg = (f32_sign a \<noteq> f32_sign b) in
      if f32_isnan a \<or> f32_isnan b then f32_nan
      else if f32_isinf a then (if f32_isinf b then f32_nan else f32_inf neg)
      else if f32_isinf b then (if neg then 0x80000000 else 0)
      else if f32_abs_units b = 0 then (if f32_abs_units a = 0 then f32_nan else f32_inf neg)
      else if f32_abs_units a = 0 then (if neg then 0x80000000 else 0)
      else f32_round neg (f32_abs_units a * 2 ^ 149) (f32_abs_units b))"

definition f32_of_int :: "int \<Rightarrow> f32" where
  "f32_of_int n = (if n = 0 then 0 else f32_round (n < 0) (\<bar>n\<bar> * 2 ^ 149) 1)"

definition f32_trunc :: "f32 \<Rightarrow> int" where
  "f32_trunc x = (let m = f32_abs_units x div 2 ^ 149 in if f32_sign x then - m else m)"

definition f32_to_i32 :: "f32 \<Rightarrow> i32 option" where
  "f32_to_i32 x =
     (if f32_isnan x \<or> f32_isinf x then None
      else if - (2 ^ 31) \<le> f32_trunc x \<and> f32_trunc x < 2 ^ 31 then Some (f32_trunc x) else None)"

definition f32_to_i64 :: "f32 \<Rightarrow> i64 option" where
  "f32_to_i64 x =
     (if f32_isnan x \<or> f32_isinf x then None
      else if - (2 ^ 63) \<le> f32_trunc x \<and> f32_trunc x < 2 ^ 63 then Some (f32_trunc x) else None)"

end
