(* ===== verification/FloatBounds.thy ===== *)
theory FloatBounds
  imports Floats
begin

text \<open>
  Bounds of the rounded arithmetic of Floats: a rounded quotient is within one unit in the last place of
  the exact one. This is what makes the conversion of a sample rate to an interval defined.
\<close>

lemma bit_length_fuel_bounds:
  "0 < n \<Longrightarrow> n < 2 ^ k \<Longrightarrow>
   0 < bit_length_fuel k n \<and> 2 ^ (bit_length_fuel k n - 1) \<le> n \<and> n < 2 ^ bit_length_fuel k n"
proof (induction k n rule: bit_length_fuel.induct)
  case (2 k n)
  show ?case
  proof (cases "n div 2 = 0")
    case True
    with "2.prems"(1) have "n = 1" by presburger
    moreover have "bit_length_fuel k 0 = 0" by (cases k) simp_all
    ultimately show ?thesis by simp
  next
    case False
    with "2.prems" have p: "0 < n div 2" "n div 2 < 2 ^ k" by auto
    let ?b = "bit_length_fuel k (n div 2)"
    have ih: "0 < ?b" "2 ^ (?b - 1) \<le> n div 2" "n div 2 < 2 ^ ?b"
      using "2.IH" p "2.prems"(1) by auto
    have "(2 :: int) ^ ?b = 2 * 2 ^ (?b - 1)"
      using ih(1) by (metis Suc_pred' power_Suc)
    then have "2 ^ ?b \<le> n" "n < 2 * 2 ^ ?b" using ih(2,3) by linarith+
    then show ?thesis using "2.prems"(1) by simp
  qed
qed simp

lemma bit_len_bounds:
  assumes "0 < n" "n < 2 ^ 512"
  shows "0 < bit_len n" "2 ^ (bit_len n - 1) \<le> n" "n < 2 ^ bit_len n"
  using bit_length_fuel_bounds [OF assms] by (simp_all add: bit_len_def)

text \<open>The pattern of significand \<open>q\<close> and exponent \<open>s\<close> denotes \<open>q * 2^s\<close> units.\<close>

lemma magnitude_of_int:
  assumes "0 \<le> p" "p < 2 ^ 31"
  shows "f32_magnitude (word_of_int p) = p"
proof -
  have "f32_magnitude (word_of_int p) = take_bit 32 p AND 0x7FFFFFFF"
    by (simp add: f32_magnitude_def uint_and uint_word_of_int_eq)
  also have "take_bit 32 p = p" using assms by (simp add: take_bit_int_eq_self)
  also have "p AND 0x7FFFFFFF = p"
  proof -
    have "(0x7FFFFFFF :: int) = mask 31" by (simp add: mask_eq_exp_minus_1)
    then have "p AND 0x7FFFFFFF = take_bit 31 p" by (simp only: take_bit_eq_mask)
    then show ?thesis using assms by (simp add: take_bit_int_eq_self)
  qed
  finally show ?thesis .
qed

lemma sign_of_int: "0 \<le> p \<Longrightarrow> p < 2 ^ 31 \<Longrightarrow> \<not> f32_sign (word_of_int p)"
proof -
  assume "0 \<le> p" "p < 2 ^ 31"
  then have "p div 2 ^ 31 = 0" by (rule div_pos_pos_trivial)
  then have "\<not> bit p 31" by (simp only: bit_iff_odd) simp
  then show ?thesis by (simp add: f32_sign_def bit_word_of_int_iff)
qed

lemma pattern_units:
  assumes "2 ^ 23 \<le> q" "q \<le> 2 ^ 24" "s < 250"
  shows "f32_abs_units (word_of_int (int s * 2 ^ 23 + q)) = q * 2 ^ s"
    "f32_magnitude (word_of_int (int s * 2 ^ 23 + q)) = int s * 2 ^ 23 + q"
proof -
  let ?p = "int s * 2 ^ 23 + q"
  have lt: "0 \<le> ?p" "?p < 2 ^ 31" using assms by auto
  show m: "f32_magnitude (word_of_int ?p) = ?p" by (rule magnitude_of_int [OF lt])
  show "f32_abs_units (word_of_int ?p) = q * 2 ^ s"
  proof (cases "q = 2 ^ 24")
    case True
    then have "?p div 2 ^ 23 = int s + 2" "?p mod 2 ^ 23 = 0" by simp_all
    then show ?thesis unfolding f32_abs_units_def m Let_def using True by (simp add: nat_add_distrib)
  next
    case False
    then have "?p = (int s + 1) * 2 ^ 23 + (q - 2 ^ 23)" "0 \<le> q - 2 ^ 23" "q - 2 ^ 23 < 2 ^ 23"
      using assms by auto
    then have "?p div 2 ^ 23 = int s + 1" "?p mod 2 ^ 23 = q - 2 ^ 23"
      by (simp_all add: int_div_pos_eq int_mod_pos_eq)
    then show ?thesis unfolding f32_abs_units_def m Let_def by simp
  qed
qed

text \<open>Rounding a quotient of at least 24 bits: within \<open>2^s\<close> of the exact value.\<close>

lemma round_abs_units:
  assumes "0 < den" "2 ^ 24 \<le> num div den" "num div den < 2 ^ 200"
  defines "Q \<equiv> num div den" and "u \<equiv> f32_abs_units (word_of_int (f32_round_abs num den))"
  shows "2 ^ 23 * \<bar>u - Q\<bar> \<le> Q" "f32_magnitude (word_of_int (f32_round_abs num den)) < 0x7F800000"
    "\<not> f32_sign (word_of_int (f32_round_abs num den))"
proof -
  define s where "s = bit_len Q - 24"
  have Q: "0 < Q" "2 ^ 24 \<le> Q" "Q < 2 ^ 200" using assms by (auto simp: Q_def)
  have b: "0 < bit_len Q" "2 ^ (bit_len Q - 1) \<le> Q" "Q < 2 ^ bit_len Q"
    using Q(3) by (intro bit_len_bounds [OF Q(1)]; simp)+
  have "(2 :: int) ^ 24 < 2 ^ bit_len Q" using Q(2) b(3) by linarith
  then have "24 < bit_len Q" by (simp only: power_strict_increasing_iff)
  have "(2 :: int) ^ (bit_len Q - 1) < 2 ^ 200" using b(2) Q(3) by linarith
  then have "bit_len Q \<le> 200" by (simp only: power_strict_increasing_iff)
  then have s: "s < 250" "bit_len Q = s + 24" "0 < s" using \<open>24 < bit_len Q\<close> by (simp_all add: s_def)
  have Qs: "2 ^ 23 * 2 ^ s \<le> Q" "Q < 2 ^ 24 * 2 ^ s"
    using b(2,3) unfolding s(2) by (simp_all add: power_add mult.commute)
  define q where "q = num div (den * 2 ^ s)"
  have q: "q = Q div 2 ^ s" by (simp add: q_def Q_def zdiv_zmult2_eq)
  have qQ: "q * 2 ^ s \<le> Q" "Q < (q + 1) * 2 ^ s"
  proof -
    have "Q = q * 2 ^ s + Q mod 2 ^ s" unfolding q by (rule div_mult_mod_eq [symmetric])
    moreover have "0 \<le> Q mod 2 ^ s" "Q mod 2 ^ s < 2 ^ s" by simp_all
    ultimately
    show "q * 2 ^ s \<le> Q" "Q < (q + 1) * 2 ^ s" unfolding distrib_right by linarith+
  qed
  have "2 ^ 23 \<le> q"
    unfolding q using zdiv_mono1 [OF Qs(1), of "2 ^ s"] by simp
  have "q < 2 ^ 24" using mult_less_cancel_right_pos [of "2 ^ s" q "2 ^ 24"] le_less_trans [OF qQ(1) Qs(2)] by simp
  define q' where "q' = (if 2 * (num - q * (den * 2 ^ s)) < den * 2 ^ s then q
     else if den * 2 ^ s < 2 * (num - q * (den * 2 ^ s)) then q + 1 else if q mod 2 = 0 then q else q + 1)"
  have q': "q \<le> q'" "q' \<le> q + 1" by (auto simp: q'_def)
  then have q'b: "2 ^ 23 \<le> q'" "q' \<le> 2 ^ 24" using \<open>2 ^ 23 \<le> q\<close> \<open>q < 2 ^ 24\<close> by linarith+
  have small: "int s * 2 ^ 23 + q' < 0x7F800000" using \<open>bit_len Q \<le> 200\<close> s(2) q'b(2) by simp
  have r: "f32_round_abs num den = int s * 2 ^ 23 + q'"
  proof -
    have "f32_round_abs num den =
        (if 0x7F800000 \<le> (if s = 0 then q' else int s * 2 ^ 23 + q') then 0x7F800000
         else if s = 0 then q' else int s * 2 ^ 23 + q')"
      by (simp only: f32_round_abs_def Let_def Q_def [symmetric] s_def [symmetric] q_def [symmetric]
          q'_def [symmetric])
    with s(3) small show ?thesis by simp
  qed
  have u: "u = q' * 2 ^ s" unfolding u_def r by (rule pattern_units(1) [OF q'b s(1)])
  have "q * 2 ^ s \<le> u" "u \<le> q * 2 ^ s + 2 ^ s"
    unfolding u using mult_right_mono [OF q'(2), of "2 ^ s"] q'(1)
    by (simp_all add: distrib_right)
  then have "\<bar>u - Q\<bar> \<le> 2 ^ s" using qQ unfolding distrib_right by linarith
  then show "2 ^ 23 * \<bar>u - Q\<bar> \<le> Q" using Qs(1) mult_left_mono [of "\<bar>u - Q\<bar>" "2 ^ s" "2 ^ 23"] by simp
  show "f32_magnitude (word_of_int (f32_round_abs num den)) < 0x7F800000"
    unfolding r pattern_units(2) [OF q'b s(1)] by (rule small)
  show "\<not> f32_sign (word_of_int (f32_round_abs num den))"
    unfolding r using small q'b(1) by (intro sign_of_int) simp_all
qed

subsection \<open>Sample rates\<close>

lemma f32_of_billion: "f32_of_int 1000000000 = 0x4E6E6B28"
  by code_simp

lemma billion_units: "f32_abs_units 0x4E6E6B28 = 1000000000 * 2 ^ 149" "\<not> f32_sign 0x4E6E6B28"
  "\<not> f32_isnan 0x4E6E6B28" "\<not> f32_isinf 0x4E6E6B28"
  by code_simp+

text \<open>A rate that is not below 0.1 and not above 10, in units.\<close>

lemma rate_units:
  assumes "\<not> f32_isnan x" "\<not> f32_lt x 0x3DCCCCCD" "\<not> f32_lt 0x41200000 x"
  shows "2 ^ 145 \<le> f32_abs_units x \<and> f32_abs_units x \<le> 10 * 2 ^ 149 \<and> \<not> f32_sign x \<and> \<not> f32_isinf x"
proof -
  have k: "f32_key 0x3DCCCCCD = 0x3DCCCCCD" "f32_key 0x41200000 = 0x41200000"
      "\<not> f32_isnan 0x3DCCCCCD" "\<not> f32_isnan 0x41200000"
    by code_simp+
  with assms have key: "0x3DCCCCCD \<le> f32_key x" "f32_key x \<le> 0x41200000"
    by (auto simp: f32_lt_def not_less)
  have nn: "0 \<le> f32_magnitude x" by (simp add: f32_magnitude_def)
  with key have sign: "\<not> bit x 31" by (auto simp: f32_key_def split: if_splits)
  with key have m: "0x3DCCCCCD \<le> f32_magnitude x" "f32_magnitude x \<le> 0x41200000" by (simp_all add: f32_key_def)
  define e f where "e = f32_magnitude x div 2 ^ 23" and "f = f32_magnitude x mod 2 ^ 23"
  have ef: "f32_magnitude x = e * 8388608 + f" "0 \<le> f" "f < 8388608"
    by (simp_all add: e_def f_def)
  have "123 \<le> e" "e \<le> 130" using m ef by linarith+
  then consider "e = 123" | "e = 124" | "e = 125" | "e = 126" | "e = 127" | "e = 128" | "e = 129" | "e = 130"
    by linarith
  then have "2 ^ 145 \<le> f32_abs_units x \<and> f32_abs_units x \<le> 10 * 2 ^ 149"
    unfolding f32_abs_units_def Let_def e_def [symmetric] f_def [symmetric]
    using ef m by cases simp_all
  moreover have "\<not> f32_isinf x" using m(2) by (simp add: f32_isinf_def)
  ultimately show ?thesis using sign by (simp add: f32_sign_def)
qed

lemma near_bounds:
  fixes u q p :: int
  assumes "8388608 * (u - q) \<le> q" "8388608 * (q - u) \<le> q" "100000000 * p \<le> q" "q \<le> 16000000000 * p" "0 < p"
  shows "99999980 * p \<le> u" "u \<le> 16000002000 * p"
proof -
  have "8388608 * (99999980 * p) \<le> 8388608 * u"
    using mult_left_mono [OF assms(3), of 8388607] assms(2,5) by (simp add: right_diff_distrib)
  then show "99999980 * p \<le> u" by simp
  have "8388608 * u \<le> 8388608 * (16000002000 * p)"
    using mult_left_mono [OF assms(4), of 8388609] assms(1,5) by (simp add: right_diff_distrib)
  then show "u \<le> 16000002000 * p" by simp
qed

text \<open>The period of such a rate in nanoseconds is defined and positive.\<close>

lemma period_defined:
  assumes "\<not> f32_isnan x" "\<not> f32_lt x 0x3DCCCCCD" "\<not> f32_lt 0x41200000 x"
  shows "\<exists>n. f32_to_i64 (f32_div (f32_of_int 1000000000) x) = Some n \<and> 99999980 \<le> n \<and> n \<le> 16000002000"
proof -
  let ?num = "1000000000 * 2 ^ 149 * 2 ^ 149 :: int" and ?den = "f32_abs_units x"
  let ?Q = "?num div ?den"
  let ?r = "word_of_int (f32_round_abs ?num ?den) :: f32"
  note x = rate_units [OF assms]
  have "0 < ?den" using x by (smt (verit) zero_less_power)
  have Q: "100000000 * 2 ^ 149 \<le> ?Q" "?Q \<le> 16000000000 * 2 ^ 149"
  proof -
    have "?num div (10 * 2 ^ 149) \<le> ?Q" "?Q \<le> ?num div 2 ^ 145"
      using x \<open>0 < ?den\<close> by (intro zdiv_mono2; simp)+
    then show "100000000 * 2 ^ 149 \<le> ?Q" "?Q \<le> 16000000000 * 2 ^ 149" by simp_all
  qed
  have "2 ^ 24 \<le> ?Q" "?Q < 2 ^ 200" using Q by simp_all
  note r = round_abs_units [OF \<open>0 < ?den\<close> this]
  have div: "f32_div (f32_of_int 1000000000) x = ?r"
    unfolding f32_of_billion f32_div_def Let_def
    using x billion_units assms(1) \<open>0 < ?den\<close> by (simp add: f32_round_def Let_def)
  have mag: "f32_magnitude ?r < 0x7F800000" by (rule r(2))
  then have fin: "\<not> f32_isnan ?r" "\<not> f32_isinf ?r" by (simp_all add: f32_isnan_def f32_isinf_def)
  have sign: "\<not> f32_sign ?r" by (rule r(3))
  have "8388608 * (f32_abs_units ?r - ?Q) \<le> ?Q" "8388608 * (?Q - f32_abs_units ?r) \<le> ?Q"
    using r(1) by (simp_all only: abs_if split: if_splits) simp_all
  from near_bounds [OF this Q]
  have u: "99999980 * 2 ^ 149 \<le> f32_abs_units ?r" "f32_abs_units ?r \<le> 16000002000 * 2 ^ 149"
    by simp_all
  have "99999980 \<le> f32_abs_units ?r div 2 ^ 149" "f32_abs_units ?r div 2 ^ 149 \<le> 16000002000"
    using zdiv_mono1 [OF u(1), of "2 ^ 149"] zdiv_mono1 [OF u(2), of "2 ^ 149"] by simp_all
  then have t: "99999980 \<le> f32_trunc ?r" "f32_trunc ?r \<le> 16000002000"
    using sign by (simp_all add: f32_trunc_def)
  then have "f32_to_i64 ?r = Some (f32_trunc ?r)" using fin by (simp add: f32_to_i64_def)
  with div t show ?thesis by auto
qed

lemma period_of_nan: "f32_isnan x \<Longrightarrow> f32_to_i64 (f32_div a x) = None"
proof -
  assume "f32_isnan x"
  moreover have "f32_isnan f32_nan" by code_simp
  ultimately show ?thesis by (simp add: f32_div_def f32_to_i64_def)
qed

end
