(* ===== verification/Generators.thy ===== *)
theory Generators
  imports Obd2 Floats
begin

text \<open>
  The fake value generators of the emulated HAL (impl/vhal_v2_0): LinearFakeValueGenerator,
  JsonFakeValueGenerator, and GeneratorHub, the scheduler that fires their events in time order.

  \<open>now\<close> is what \<open>Clock::now()\<close> returns. A request that lacks the vector elements a constructor reads
  is the result \<open>None\<close>, as is a float that does not fit the integer it is converted to. The JSON library
  is a parameter: the record \<open>JsonLib\<close> of the methods of \<open>Json::Value\<close> the code calls. In a priority
  queue the order of events with equal timestamps is not specified; here the one pushed first comes
  first. \<open>fresh\<close> is an uninitialised value.
\<close>

subsection \<open>LinearFakeValueGenerator\<close>

record LinearFakeValueGenerator =
  lg_propId :: i32
  lg_initialValue :: f32
  lg_currentValue :: f32
  lg_dispersion :: f32
  lg_increment :: f32
  lg_interval :: i64

definition new_linear :: "VehiclePropValue \<Rightarrow> LinearFakeValueGenerator option" where
  "new_linear request =
     (let v = pv_value request in
      case (vec_at (int32Values v) 1, vec_at (floatValues v) 0, vec_at (floatValues v) 1,
            vec_at (floatValues v) 2, vec_at (int64Values v) 0) of
        (Some propId, Some initial, Some disp, Some inc, Some interval) \<Rightarrow>
          Some \<lparr>lg_propId = propId, lg_initialValue = initial, lg_currentValue = initial,
                lg_dispersion = disp, lg_increment = inc, lg_interval = interval\<rparr>
      | _ \<Rightarrow> None)"

definition linear_step :: "LinearFakeValueGenerator \<Rightarrow> LinearFakeValueGenerator" where
  "linear_step g =
     (let current = f32_add (lg_currentValue g) (lg_increment g);
          current = (if f32_lt (f32_add (lg_initialValue g) (lg_dispersion g)) current
                     then f32_sub (lg_initialValue g) (lg_dispersion g) else current)
      in g\<lparr>lg_currentValue := current\<rparr>)"

definition linear_value :: "LinearFakeValueGenerator \<Rightarrow> RawValue option" where
  "linear_value g =
     (let type = getPropType (lg_propId g) in
      if type = TYPE_INT32 then
        map_option (\<lambda>n. empty_raw\<lparr>int32Values := [n]\<rparr>) (f32_to_i32 (lg_currentValue g))
      else if type = TYPE_INT64 then
        map_option (\<lambda>n. empty_raw\<lparr>int64Values := [n]\<rparr>) (f32_to_i64 (lg_currentValue g))
      else if type = TYPE_FLOAT then Some (empty_raw\<lparr>floatValues := [lg_currentValue g]\<rparr>)
      else Some empty_raw)"

definition linear_nextEvent ::
  "i64 \<Rightarrow> LinearFakeValueGenerator \<Rightarrow> (VehiclePropValue \<times> LinearFakeValueGenerator) option" where
  "linear_nextEvent now g =
     (let g' = linear_step g in
      map_option (\<lambda>raw. (kEmptyValue\<lparr>pv_prop := lg_propId g', pv_value := raw,
                            pv_timestamp := now + lg_interval g'\<rparr>, g'))
        (linear_value g'))"

definition linear_hasNext :: "LinearFakeValueGenerator \<Rightarrow> bool" where
  "linear_hasNext g = True"

subsection \<open>JsonFakeValueGenerator: parsing\<close>

record 'j JsonLib =
  js_size :: "'j \<Rightarrow> nat"
  js_elem :: "'j \<Rightarrow> nat \<Rightarrow> 'j"
  js_isObject :: "'j \<Rightarrow> bool"
  js_member :: "'j \<Rightarrow> string \<Rightarrow> 'j"
  js_empty :: "'j \<Rightarrow> bool"
  js_asInt :: "'j \<Rightarrow> i32"
  js_asInt64 :: "'j \<Rightarrow> i64"
  js_asFloat :: "'j \<Rightarrow> f32"
  js_asString :: "'j \<Rightarrow> string"

definition OBD2_LIVE_FRAME :: i32 where
  "OBD2_LIVE_FRAME = 0x0D00 OR GROUP_SYSTEM OR TYPE_MIXED OR AREA_GLOBAL"

definition OBD2_FREEZE_FRAME :: i32 where
  "OBD2_FREEZE_FRAME = 0x0D01 OR GROUP_SYSTEM OR TYPE_MIXED OR AREA_GLOBAL"

definition json_isDiagnosticProperty :: "i32 \<Rightarrow> bool" where
  "json_isDiagnosticProperty p \<longleftrightarrow> p = OBD2_LIVE_FRAME \<or> p = OBD2_FREEZE_FRAME"

definition copyJsonArray :: "'j JsonLib \<Rightarrow> ('j \<Rightarrow> 'a) \<Rightarrow> 'j \<Rightarrow> 'a list" where
  "copyJsonArray js conv jsonArray = map (\<lambda>i. conv (js_elem js jsonArray i)) [0..<js_size js jsonArray]"

definition copyMixedValueJson :: "'j JsonLib \<Rightarrow> RawValue \<Rightarrow> 'j \<Rightarrow> RawValue" where
  "copyMixedValueJson js dest jsonValue =
     dest\<lparr>int32Values := copyJsonArray js (js_asInt js) (js_member js jsonValue ''int32Values''),
          int64Values := copyJsonArray js (js_asInt64 js) (js_member js jsonValue ''int64Values''),
          floatValues := copyJsonArray js (js_asFloat js) (js_member js jsonValue ''floatValues''),
          stringValue := js_asString js (js_member js jsonValue ''stringValue'')\<rparr>"

definition setBit :: "nat \<Rightarrow> u8 list \<Rightarrow> u8 list option" where
  "setBit idx bs =
     (case vec_at bs (idx div 8) of
        None \<Rightarrow> None
      | Some byte \<Rightarrow> Some (bs[idx div 8 := byte OR push_bit (idx mod 8) 1]))"

text \<open>The two loops set the bit of every sensor whose value is not zero.\<close>

fun set_nonzero_bits :: "('a \<Rightarrow> bool) \<Rightarrow> nat \<Rightarrow> 'a list \<Rightarrow> u8 list \<Rightarrow> u8 list option" where
  "set_nonzero_bits nonzero idx [] bs = Some bs"
| "set_nonzero_bits nonzero idx (x # xs) bs =
     (if nonzero x
      then (case setBit idx bs of None \<Rightarrow> None | Some bs' \<Rightarrow> set_nonzero_bits nonzero (idx + 1) xs bs')
      else set_nonzero_bits nonzero (idx + 1) xs bs)"

definition generateDiagnosticBytes :: "RawValue \<Rightarrow> u8 list option" where
  "generateDiagnosticBytes diagnosticValue =
     (let byteSize = 31 + 70 + 2;
          bs = replicate (if byteSize mod 8 = 0 then byteSize div 8 else byteSize div 8 + 1) 0
      in case set_nonzero_bits (\<lambda>n. n \<noteq> 0) 0 (int32Values diagnosticValue) bs of
           None \<Rightarrow> None
         | Some bs1 \<Rightarrow> set_nonzero_bits (\<lambda>f. f32_magnitude f \<noteq> 0) (31 + 1) (floatValues diagnosticValue) bs1)"

text \<open>
  One element of the array: \<open>Inl ()\<close> when it is skipped, \<open>None\<close> when the diagnostic bytes would be
  written out of bounds.
\<close>

definition parse_event :: "'j JsonLib \<Rightarrow> 'j \<Rightarrow> (unit + VehiclePropValue) option" where
  "parse_event js rawEvent =
     (if \<not> js_isObject js rawEvent then Some (Inl ())
      else if js_empty js (js_member js rawEvent ''prop'') \<or> js_empty js (js_member js rawEvent ''areaId'') \<or>
              js_empty js (js_member js rawEvent ''value'') \<or> js_empty js (js_member js rawEvent ''timestamp'')
      then Some (Inl ())
      else
        let event = kEmptyValue\<lparr>pv_prop := js_asInt js (js_member js rawEvent ''prop''),
                                pv_areaId := js_asInt js (js_member js rawEvent ''areaId''),
                                pv_timestamp := js_asInt64 js (js_member js rawEvent ''timestamp'')\<rparr>;
            rawEventValue = js_member js rawEvent ''value'';
            type = getPropType (pv_prop event)
        in if type = TYPE_BOOLEAN \<or> type = TYPE_INT32 then
             Some (Inr (event\<lparr>pv_value := empty_raw\<lparr>int32Values := [js_asInt js rawEventValue]\<rparr>\<rparr>))
           else if type = TYPE_INT64 then
             Some (Inr (event\<lparr>pv_value := empty_raw\<lparr>int64Values := [js_asInt64 js rawEventValue]\<rparr>\<rparr>))
           else if type = TYPE_FLOAT then
             Some (Inr (event\<lparr>pv_value := empty_raw\<lparr>floatValues := [js_asFloat js rawEventValue]\<rparr>\<rparr>))
           else if type = TYPE_STRING then
             Some (Inr (event\<lparr>pv_value := empty_raw\<lparr>stringValue := js_asString js rawEventValue\<rparr>\<rparr>))
           else if type = TYPE_MIXED then
             (let raw = copyMixedValueJson js empty_raw rawEventValue in
              if json_isDiagnosticProperty (pv_prop event)
              then map_option (\<lambda>bs. Inr (event\<lparr>pv_value := raw\<lparr>bytes := bs\<rparr>\<rparr>)) (generateDiagnosticBytes raw)
              else Some (Inr (event\<lparr>pv_value := raw\<rparr>)))
           else Some (Inl ()))"

text \<open>\<open>parsed\<close> is the result of \<open>Json::Reader::parse\<close>, \<open>None\<close> for malformed input.\<close>

fun parse_events :: "'j JsonLib \<Rightarrow> 'j list \<Rightarrow> VehiclePropValue list option" where
  "parse_events js [] = Some []"
| "parse_events js (rawEvent # rest) =
     (case parse_event js rawEvent of
        None \<Rightarrow> None
      | Some (Inl _) \<Rightarrow> parse_events js rest
      | Some (Inr event) \<Rightarrow> map_option (\<lambda>events. event # events) (parse_events js rest))"

definition parseFakeValueJson :: "'j JsonLib \<Rightarrow> 'j option \<Rightarrow> VehiclePropValue list option" where
  "parseFakeValueJson js parsed =
     (case parsed of
        None \<Rightarrow> Some []
      | Some rawEvents \<Rightarrow> parse_events js (map (js_elem js rawEvents) [0..<js_size js rawEvents]))"

subsection \<open>JsonFakeValueGenerator: replay\<close>

record JsonFakeValueGenerator =
  jg_index :: nat
  jg_events :: "VehiclePropValue list"
  jg_numOfIterations :: i32

definition new_json :: "VehiclePropValue \<Rightarrow> VehiclePropValue list \<Rightarrow> JsonFakeValueGenerator" where
  "new_json request events =
     \<lparr>jg_index = 0, jg_events = events,
      jg_numOfIterations = (if length (int32Values (pv_value request)) < 2 then - 1
                            else int32Values (pv_value request) ! 1)\<rparr>"

definition json_hasNext :: "JsonFakeValueGenerator \<Rightarrow> bool" where
  "json_hasNext g \<longleftrightarrow> jg_numOfIterations g \<noteq> 0 \<and> 0 < length (jg_events g)"

definition json_nextEvent ::
  "VehiclePropValue \<Rightarrow> i64 \<Rightarrow> JsonFakeValueGenerator \<Rightarrow> VehiclePropValue \<times> JsonFakeValueGenerator" where
  "json_nextEvent fresh now g =
     (if \<not> json_hasNext g then (fresh, g)
      else
        let i = jg_index g;
            eventTime = (if i \<noteq> 0 then now + (pv_timestamp (jg_events g ! i) - pv_timestamp (jg_events g ! (i - 1)))
                         else now);
            generatedValue = (jg_events g ! i)\<lparr>pv_timestamp := eventTime\<rparr>;
            i' = i + 1
        in (generatedValue,
            if i' = length (jg_events g)
            then g\<lparr>jg_index := 0,
                   jg_numOfIterations := (if 0 < jg_numOfIterations g then jg_numOfIterations g - 1
                                          else jg_numOfIterations g)\<rparr>
            else g\<lparr>jg_index := i'\<rparr>))"

subsection \<open>GeneratorHub\<close>

datatype FakeValueGenerator = Linear LinearFakeValueGenerator | Json JsonFakeValueGenerator

fun gen_hasNext :: "FakeValueGenerator \<Rightarrow> bool" where
  "gen_hasNext (Linear g) = linear_hasNext g"
| "gen_hasNext (Json g) = json_hasNext g"

fun gen_nextEvent ::
  "VehiclePropValue \<Rightarrow> i64 \<Rightarrow> FakeValueGenerator \<Rightarrow> (VehiclePropValue \<times> FakeValueGenerator) option" where
  "gen_nextEvent fresh now (Linear g) = map_option (\<lambda>(v, g'). (v, Linear g')) (linear_nextEvent now g)"
| "gen_nextEvent fresh now (Json g) = (let (v, g') = json_nextEvent fresh now g in Some (v, Json g'))"

record VhalEvent =
  ve_cookie :: i32
  ve_val :: VehiclePropValue

record GeneratorHub =
  gh_eventQueue :: "VhalEvent list"
  gh_generators :: "(i32, FakeValueGenerator) std_map"

definition new_hub :: GeneratorHub where
  "new_hub = \<lparr>gh_eventQueue = [], gh_generators = []\<rparr>"

text \<open>\<open>mEventQueue.push\<close>: the head of the list is \<open>top()\<close>, the event with the least timestamp.\<close>

fun queue_push :: "VhalEvent \<Rightarrow> VhalEvent list \<Rightarrow> VhalEvent list" where
  "queue_push e [] = [e]"
| "queue_push e (f # q) =
     (if pv_timestamp (ve_val e) < pv_timestamp (ve_val f) then e # f # q else f # queue_push e q)"

definition hub_hasNext :: "i32 \<Rightarrow> GeneratorHub \<Rightarrow> bool" where
  "hub_hasNext cookie h =
     (case map_of (gh_generators h) cookie of None \<Rightarrow> False | Some g \<Rightarrow> gen_hasNext g)"

definition registerGenerator ::
  "VehiclePropValue \<Rightarrow> i64 \<Rightarrow> i32 \<Rightarrow> FakeValueGenerator \<Rightarrow> GeneratorHub \<Rightarrow> GeneratorHub option" where
  "registerGenerator fresh now cookie generator h =
     (if gen_hasNext generator
      then (if map_of (gh_generators h) cookie = None
            then (case gen_nextEvent fresh now generator of
                    None \<Rightarrow> None
                  | Some (v, generator') \<Rightarrow>
                      Some (h\<lparr>gh_eventQueue := queue_push \<lparr>ve_cookie = cookie, ve_val = v\<rparr> (gh_eventQueue h),
                              gh_generators := map_put cookie generator' (gh_generators h)\<rparr>))
            else Some (h\<lparr>gh_generators := map_put cookie generator (gh_generators h)\<rparr>))
      else Some h)"

definition unregisterGenerator :: "i32 \<Rightarrow> GeneratorHub \<Rightarrow> GeneratorHub" where
  "unregisterGenerator cookie h = h\<lparr>gh_generators := map_erase cookie (gh_generators h)\<rparr>"

text \<open>The first loop of \<open>run\<close>: events at the top whose generator is gone are dropped.\<close>

definition hub_prune :: "GeneratorHub \<Rightarrow> GeneratorHub" where
  "hub_prune h = h\<lparr>gh_eventQueue :=
     dropWhile (\<lambda>e. map_of (gh_generators h) (ve_cookie e) = None) (gh_eventQueue h)\<rparr>"

text \<open>The rest of a turn of \<open>run\<close> after \<open>wait_until\<close> timed out at the time of the top event.\<close>

definition hub_fire ::
  "VehiclePropValue \<Rightarrow> i64 \<Rightarrow> GeneratorHub \<Rightarrow> (VehiclePropValue \<times> GeneratorHub) option" where
  "hub_fire fresh now h =
     (case gh_eventQueue h of
        [] \<Rightarrow> None
      | curEvent # q \<Rightarrow>
          (let cookie = ve_cookie curEvent; h1 = h\<lparr>gh_eventQueue := q\<rparr> in
           if hub_hasNext cookie h1
           then (case map_of (gh_generators h1) cookie of
                   None \<Rightarrow> None
                 | Some g \<Rightarrow>
                     (case gen_nextEvent fresh now g of
                        None \<Rightarrow> None
                      | Some (v, g') \<Rightarrow>
                          Some (ve_val curEvent,
                                h1\<lparr>gh_eventQueue := queue_push \<lparr>ve_cookie = cookie, ve_val = v\<rparr> q,
                                   gh_generators := map_put cookie g' (gh_generators h1)\<rparr>)))
           else Some (ve_val curEvent, h1\<lparr>gh_generators := map_erase cookie (gh_generators h1)\<rparr>)))"

subsection \<open>Replaying a file\<close>

fun json_run :: "VehiclePropValue \<Rightarrow> i64 list \<Rightarrow> JsonFakeValueGenerator \<Rightarrow> VehiclePropValue list \<times> JsonFakeValueGenerator" where
  "json_run fresh [] g = ([], g)"
| "json_run fresh (now # nows) g =
     (let (v, g1) = json_nextEvent fresh now g; (vs, g2) = json_run fresh nows g1 in (v # vs, g2))"

definition json_at :: "nat \<Rightarrow> nat \<Rightarrow> VehiclePropValue list \<Rightarrow> JsonFakeValueGenerator" where
  "json_at n k events = \<lparr>jg_index = k mod length events, jg_events = events,
                         jg_numOfIterations = int n - int (k div length events)\<rparr>"

lemma json_step:
  assumes "events \<noteq> []" "k < n * length events"
  shows "snd (json_nextEvent fresh now (json_at n k events)) = json_at n (Suc k) events"
    and "(fst (json_nextEvent fresh now (json_at n k events)))\<lparr>pv_timestamp := 0\<rparr> =
         (events ! (k mod length events))\<lparr>pv_timestamp := 0\<rparr>"
    and "json_hasNext (json_at n k events)"
proof -
  have d: "k div length events < n" using assms by (simp add: div_less_iff_less_mult)
  then show h: "json_hasNext (json_at n k events)"
    using assms(1) by (simp add: json_hasNext_def json_at_def)
  show "(fst (json_nextEvent fresh now (json_at n k events)))\<lparr>pv_timestamp := 0\<rparr> =
         (events ! (k mod length events))\<lparr>pv_timestamp := 0\<rparr>"
    using h by (simp add: json_nextEvent_def Let_def json_at_def)
  have wrap: "Suc k mod length events = (if Suc (k mod length events) = length events then 0 else Suc (k mod length events))"
      "Suc k div length events = (if Suc (k mod length events) = length events then Suc (k div length events) else k div length events)"
    by (auto simp: mod_Suc div_Suc)
  show "snd (json_nextEvent fresh now (json_at n k events)) = json_at n (Suc k) events"
    using h d by (auto simp: json_nextEvent_def Let_def json_at_def wrap)
qed

lemma json_run_at:
  assumes "events \<noteq> []" "k + length nows \<le> n * length events"
  shows "snd (json_run fresh nows (json_at n k events)) = json_at n (k + length nows) events \<and>
    map (\<lambda>v. v\<lparr>pv_timestamp := 0\<rparr>) (fst (json_run fresh nows (json_at n k events))) =
      map (\<lambda>i. (events ! (i mod length events))\<lparr>pv_timestamp := 0\<rparr>) [k..<k + length nows]"
  using assms(2)
proof (induction nows arbitrary: k)
  case (Cons now nows)
  have k: "k < n * length events" using Cons.prems by simp
  have u: "[k..<k + length (now # nows)] = k # [Suc k..<Suc k + length nows]"
    by (simp add: upt_conv_Cons del: upt_Suc)
  show ?case
    unfolding u using Cons.IH [of "Suc k"] Cons.prems json_step(1,2) [OF assms(1) k, of fresh now]
    by (auto simp: Let_def simp del: upt_Suc split: prod.splits)
qed simp

text \<open>
  C13: a JSON generator asked for \<open>n\<close> iterations of a non-empty file always has a next event until it has
  produced every event of the file \<open>n\<close> times, in file order, and then has none.
\<close>

theorem json_replays_n_times:
  assumes "events \<noteq> []" "int32Values (pv_value request) = [cookie, int n]" "length nows \<le> n * length events"
  shows "json_hasNext (snd (json_run fresh nows (new_json request events))) = (length nows < n * length events) \<and>
    map (\<lambda>v. v\<lparr>pv_timestamp := 0\<rparr>) (fst (json_run fresh nows (new_json request events))) =
      map (\<lambda>i. (events ! (i mod length events))\<lparr>pv_timestamp := 0\<rparr>) [0..<length nows]"
proof -
  have g: "new_json request events = json_at n 0 events"
    using assms(1,2) by (simp add: new_json_def json_at_def)
  have "json_hasNext (json_at n k events) = (k < n * length events)" if "k \<le> n * length events" for k
  proof (cases "k < n * length events")
    case False
    with that assms(1) have "k div length events = n" by simp
    then show ?thesis using False by (simp add: json_hasNext_def json_at_def)
  qed (use json_step(3) [OF assms(1)] in simp)
  then show ?thesis using json_run_at [OF assms(1), of 0 nows n fresh] assms(3) by (simp add: g)
qed

theorem json_replays_n_times_witness:
  "\<not> json_hasNext (snd (json_run kEmptyValue [5, 6]
     (new_json (kEmptyValue\<lparr>pv_value := empty_raw\<lparr>int32Values := [1, 2]\<rparr>\<rparr>) [kEmptyValue])))"
  using json_replays_n_times [of "[kEmptyValue]" "kEmptyValue\<lparr>pv_value := empty_raw\<lparr>int32Values := [1, 2]\<rparr>\<rparr>" 1 2
      "[5, 6]" kEmptyValue]
  by (simp add: empty_raw_def)

subsection \<open>Diagnostic bytes\<close>

lemma setBit_bitmask: "setBit idx bs = bitmask_set idx True bs"
  by (simp add: setBit_def bitmask_set_def Let_def vec_at_def)

lemma set_nonzero_bits_get:
  "idx + length xs \<le> 8 * length bs \<Longrightarrow>
   \<exists>bs'. set_nonzero_bits nz idx xs bs = Some bs' \<and> length bs' = length bs \<and>
     (\<forall>j. bitmask_get j bs' = (if idx \<le> j \<and> j < idx + length xs \<and> nz (xs ! (j - idx)) then Some True
                              else bitmask_get j bs))"
proof (induction xs arbitrary: idx bs)
  case (Cons x xs)
  have at: "(x # xs) ! (j - idx) = (if j = idx then x else xs ! (j - Suc idx))" if "idx \<le> j" for j
  proof (cases "j = idx")
    case False
    with that have "j - idx = Suc (j - Suc idx)" by simp
    then show ?thesis using False by simp
  qed simp
  show ?case
  proof (cases "nz x")
    case True
    obtain b where b: "setBit idx bs = Some b" "length b = length bs"
      using bitmask_set_defined [of idx bs True] Cons.prems unfolding setBit_bitmask by fastforce
    from Cons.IH [of "Suc idx" b] Cons.prems b(2) obtain bs' where
      bs': "set_nonzero_bits nz (Suc idx) xs b = Some bs'" "length bs' = length b"
        "\<forall>j. bitmask_get j bs' = (if Suc idx \<le> j \<and> j < Suc idx + length xs \<and> nz (xs ! (j - Suc idx)) then Some True
                              else bitmask_get j b)"
      by auto
    have "bitmask_get j b = (if j = idx then Some True else bitmask_get j bs)" for j
      using bitmask_get_set b(1) unfolding setBit_bitmask by blast
    then show ?thesis using True b bs' at by (auto simp: Suc_le_eq less_le)
  next
    case False
    from Cons.IH [of "Suc idx" bs] Cons.prems show ?thesis
      using False at by (auto simp: Suc_le_eq less_le)
  qed
qed auto

text \<open>
  For a frame with at most the system's 32 integer and 71 float sensors, the bytes are written in
  bounds and their bits say exactly which sensors are not zero, the floats after the integers.
\<close>

theorem diagnostic_bytes_correct:
  assumes "length (int32Values raw) \<le> 32" "length (floatValues raw) \<le> 71"
  shows "\<exists>bs. generateDiagnosticBytes raw = Some bs \<and> length bs = 13 \<and>
    (\<forall>i < length (int32Values raw). bitmask_get i bs = Some (int32Values raw ! i \<noteq> 0)) \<and>
    (\<forall>i < length (floatValues raw). bitmask_get (32 + i) bs = Some (f32_magnitude (floatValues raw ! i) \<noteq> 0))"
proof -
  let ?bs = "replicate 13 0 :: u8 list"
  have zero: "bitmask_get j ?bs = Some False" if "j < 104" for j
    using that by (simp add: bitmask_get_eq)
  from set_nonzero_bits_get [of 0 "int32Values raw" ?bs "\<lambda>n. n \<noteq> 0"] assms(1) obtain b1 where
    b1: "set_nonzero_bits (\<lambda>n. n \<noteq> 0) 0 (int32Values raw) ?bs = Some b1" "length b1 = 13"
      "\<forall>j. bitmask_get j b1 = (if j < length (int32Values raw) \<and> int32Values raw ! j \<noteq> 0 then Some True
                              else bitmask_get j ?bs)"
    by auto
  from set_nonzero_bits_get [of 32 "floatValues raw" b1 "\<lambda>f. f32_magnitude f \<noteq> 0"] assms(2) b1(2) obtain b2 where
    b2: "set_nonzero_bits (\<lambda>f. f32_magnitude f \<noteq> 0) 32 (floatValues raw) b1 = Some b2" "length b2 = 13"
      "\<forall>j. bitmask_get j b2 = (if 32 \<le> j \<and> j < 32 + length (floatValues raw) \<and> f32_magnitude (floatValues raw ! (j - 32)) \<noteq> 0
                              then Some True else bitmask_get j b1)"
    by auto
  have "generateDiagnosticBytes raw = Some b2"
    using b1(1) b2(1) by (simp add: generateDiagnosticBytes_def Let_def)
  moreover have "bitmask_get i b2 = Some (int32Values raw ! i \<noteq> 0)" if "i < length (int32Values raw)" for i
    using that assms(1) b1(3) b2(3) zero [of i] by auto
  moreover have "bitmask_get (32 + i) b2 = Some (f32_magnitude (floatValues raw ! i) \<noteq> 0)"
    if "i < length (floatValues raw)" for i
    using that assms b1(3) b2(3) zero [of "32 + i"] by auto
  ultimately show ?thesis using b2(2) by blast
qed

theorem diagnostic_bytes_correct_witness:
  "\<exists>bs. generateDiagnosticBytes (empty_raw\<lparr>int32Values := [0, 9]\<rparr>) = Some bs \<and>
        bitmask_get 0 bs = Some False \<and> bitmask_get 1 bs = Some True"
proof -
  let ?raw = "empty_raw\<lparr>int32Values := [0, 9]\<rparr>"
  have "length (int32Values ?raw) \<le> 32" "length (floatValues ?raw) \<le> 71" by (simp_all add: empty_raw_def)
  from diagnostic_bytes_correct [OF this] obtain bs where bs: "generateDiagnosticBytes ?raw = Some bs"
      "\<forall>i < length (int32Values ?raw). bitmask_get i bs = Some (int32Values ?raw ! i \<noteq> 0)"
    by blast
  from bs(2)[rule_format, of 0] bs(2)[rule_format, of 1] bs(1) show ?thesis by simp
qed

subsection \<open>The scheduler\<close>

definition event_time :: "VhalEvent \<Rightarrow> i64" where
  "event_time e = pv_timestamp (ve_val e)"

definition hub_inv :: "GeneratorHub \<Rightarrow> bool" where
  "hub_inv h \<longleftrightarrow> sorted (map event_time (gh_eventQueue h)) \<and>
     (\<forall>c g. map_of (gh_generators h) c = Some g \<longrightarrow> c \<in> ve_cookie ` set (gh_eventQueue h))"

lemma queue_push_set [simp]: "set (queue_push e q) = insert e (set q)"
  by (induction e q rule: queue_push.induct) auto

lemma queue_push_sorted: "sorted (map event_time q) \<Longrightarrow> sorted (map event_time (queue_push e q))"
  by (induction e q rule: queue_push.induct) (auto simp: event_time_def)

lemma queue_push_filter:
  "length (filter P (queue_push e q)) = length (filter P q) + (if P e then 1 else 0)"
  by (induction e q rule: queue_push.induct) auto

lemma hub_inv_register:
  assumes "hub_inv h" "registerGenerator fresh now c g h = Some h'"
  shows "hub_inv h'"
  using assms queue_push_sorted
  by (auto simp: registerGenerator_def hub_inv_def split: if_splits option.splits)

lemma hub_inv_unregister: "hub_inv h \<Longrightarrow> hub_inv (unregisterGenerator c h)"
  by (auto simp: unregisterGenerator_def hub_inv_def split: if_splits)

lemma sorted_dropWhile: "sorted (map f xs) \<Longrightarrow> sorted (map f (dropWhile P xs))"
  by (induction xs) auto

lemma hub_inv_prune: "hub_inv h \<Longrightarrow> hub_inv (hub_prune h)"
proof -
  assume inv: "hub_inv h"
  have keep: "e \<in> set (dropWhile P xs)" if "e \<in> set xs" "\<not> P e" for e and P :: "VhalEvent \<Rightarrow> bool" and xs
    using that by (induction xs) auto
  show ?thesis
    unfolding hub_inv_def hub_prune_def
  proof (intro conjI allI impI)
    show "sorted (map event_time (gh_eventQueue (h\<lparr>gh_eventQueue := dropWhile
        (\<lambda>e. map_of (gh_generators h) (ve_cookie e) = None) (gh_eventQueue h)\<rparr>)))"
      using inv by (simp add: hub_inv_def sorted_dropWhile)
    fix c g assume "map_of (gh_generators (h\<lparr>gh_eventQueue := dropWhile
        (\<lambda>e. map_of (gh_generators h) (ve_cookie e) = None) (gh_eventQueue h)\<rparr>)) c = Some g"
    then obtain e where "e \<in> set (gh_eventQueue h)" "ve_cookie e = c" "map_of (gh_generators h) (ve_cookie e) \<noteq> None"
      using inv by (auto simp: hub_inv_def)
    with keep [of e "gh_eventQueue h" "\<lambda>e. map_of (gh_generators h) (ve_cookie e) = None"]
    show "c \<in> ve_cookie ` set (gh_eventQueue (h\<lparr>gh_eventQueue := dropWhile
        (\<lambda>e. map_of (gh_generators h) (ve_cookie e) = None) (gh_eventQueue h)\<rparr>))"
      by auto
  qed
qed

lemma hub_inv_fire:
  assumes "hub_inv h" "hub_fire fresh now h = Some (v, h')"
  shows "hub_inv h'"
  using assms queue_push_sorted
  by (fastforce simp: hub_fire_def hub_inv_def Let_def split: list.splits if_splits option.splits)

datatype hub_op =
    RegisterGen i64 i32 FakeValueGenerator
  | UnregisterGen i32
  | Prune
  | Fire i64

text \<open>A run keeps the values given to \<open>mOnHalEvent\<close>; \<open>None\<close> once a generator has faulted.\<close>

fun hub_exec ::
  "VehiclePropValue \<Rightarrow> hub_op \<Rightarrow> (VehiclePropValue list \<times> GeneratorHub) option \<Rightarrow>
   (VehiclePropValue list \<times> GeneratorHub) option" where
  "hub_exec fresh op None = None"
| "hub_exec fresh (RegisterGen now c g) (Some (out, h)) =
     map_option (\<lambda>h'. (out, h')) (registerGenerator fresh now c g h)"
| "hub_exec fresh (UnregisterGen c) (Some (out, h)) = Some (out, unregisterGenerator c h)"
| "hub_exec fresh Prune (Some (out, h)) = Some (out, hub_prune h)"
| "hub_exec fresh (Fire now) (Some (out, h)) = map_option (\<lambda>(v, h'). (out @ [v], h')) (hub_fire fresh now h)"

definition hub_ok :: "(VehiclePropValue list \<times> GeneratorHub) option \<Rightarrow> bool" where
  "hub_ok r \<longleftrightarrow> (\<forall>out h. r = Some (out, h) \<longrightarrow> hub_inv h)"

interpretation hub: op_system hub_ok "hub_exec fresh" for fresh
proof
  fix op and r :: "(VehiclePropValue list \<times> GeneratorHub) option"
  assume "hub_ok r"
  then show "hub_ok (hub_exec fresh op r)"
    by (cases "(fresh, op, r)" rule: hub_exec.cases)
      (auto simp: hub_ok_def intro: hub_inv_register hub_inv_unregister hub_inv_prune hub_inv_fire)
qed

definition hub_run :: "VehiclePropValue \<Rightarrow> hub_op list \<Rightarrow> (VehiclePropValue list \<times> GeneratorHub) option" where
  "hub_run fresh ops = fold (hub_exec fresh) ops (Some ([], new_hub))"

lemma hub_run_inv: "hub_run fresh ops = Some (out, h) \<Longrightarrow> hub_inv h"
  using hub.run_inv [of "Some ([], new_hub)" fresh ops]
  by (simp add: hub_run_def hub_ok_def hub_inv_def new_hub_def)

text \<open>
  After any history of registrations, unregistrations and firings, the event the scheduler would fire
  next is the earliest of the queue, and every registered generator has an event in the queue, so none is
  forgotten.
\<close>

theorem hub_fires_in_time_order:
  assumes "hub_run fresh ops = Some (out, h)"
  shows "(\<forall>e q. gh_eventQueue h = e # q \<longrightarrow> (\<forall>f \<in> set q. event_time e \<le> event_time f)) \<and>
    (\<forall>c g. map_of (gh_generators h) c = Some g \<longrightarrow> (\<exists>e \<in> set (gh_eventQueue h). ve_cookie e = c)) \<and>
    (\<forall>now v h'. hub_fire fresh now h = Some (v, h') \<longrightarrow> v = ve_val (hd (gh_eventQueue h)))"
proof (intro conjI allI impI)
  note inv = hub_run_inv [OF assms]
  show "\<forall>f \<in> set q. event_time e \<le> event_time f" if "gh_eventQueue h = e # q" for e q
    using inv that by (auto simp: hub_inv_def)
  show "\<exists>e \<in> set (gh_eventQueue h). ve_cookie e = c" if "map_of (gh_generators h) c = Some g" for c g
    using inv that by (auto simp: hub_inv_def)
  show "v = ve_val (hd (gh_eventQueue h))" if "hub_fire fresh now h = Some (v, h')" for now v h'
    using that by (auto simp: hub_fire_def Let_def split: list.splits if_splits option.splits)
qed

text \<open>A linear generator of a float property, and a hub it is registered with twice.\<close>

definition demo_linear :: FakeValueGenerator where
  "demo_linear = Linear \<lparr>lg_propId = TYPE_FLOAT, lg_initialValue = 0, lg_currentValue = 0,
     lg_dispersion = 0x3F800000, lg_increment = 0xBF800000, lg_interval = 100\<rparr>"

theorem hub_fires_in_time_order_witness:
  "\<exists>out h. hub_run kEmptyValue [RegisterGen 5 1 demo_linear, RegisterGen 3 2 demo_linear] = Some (out, h) \<and>
     map ve_cookie (gh_eventQueue h) = [2, 1] \<and>
     (\<forall>c g. map_of (gh_generators h) c = Some g \<longrightarrow> (\<exists>e \<in> set (gh_eventQueue h). ve_cookie e = c))"
proof -
  let ?r = "hub_run kEmptyValue [RegisterGen 5 1 demo_linear, RegisterGen 3 2 demo_linear]"
  have s: "map_option (\<lambda>(out, h). map ve_cookie (gh_eventQueue h)) ?r = Some [2, 1]" by code_simp
  then obtain out h where r: "?r = Some (out, h)" by auto
  with s hub_fires_in_time_order [OF r] show ?thesis by simp
qed

definition pending :: "i32 \<Rightarrow> GeneratorHub \<Rightarrow> nat" where
  "pending c h = length (filter (\<lambda>e. ve_cookie e = c) (gh_eventQueue h))"

lemma pending_fire:
  "hub_fire fresh now h = Some (v, h') \<Longrightarrow> hub_hasNext (ve_cookie (hd (gh_eventQueue h))) h \<Longrightarrow>
   pending c h' = pending c h"
  by (auto simp: hub_fire_def hub_hasNext_def pending_def queue_push_filter Let_def
      split: list.splits option.splits if_splits)

text \<open>
  Unregistering a generator leaves its pending event in the queue, and registering its cookie again
  queues a second one. From then on each firing replaces the event it takes, so the cookie keeps two
  chains of events.
\<close>

theorem reregistration_doubles_events:
  assumes "pending c h = 0" "gen_hasNext g" "gen_hasNext g'" "map_of (gh_generators h) c = None"
    and "registerGenerator fresh t1 c g h = Some h1"
    and "registerGenerator fresh t2 c g' (unregisterGenerator c h1) = Some h2"
  shows "pending c h2 = 2 \<and>
    (\<forall>now v h3. hub_fire fresh now h2 = Some (v, h3) \<and> hub_hasNext (ve_cookie (hd (gh_eventQueue h2))) h2 \<longrightarrow>
       pending c h3 = 2)"
proof -
  have "pending c h1 = 1"
    using assms by (auto simp: registerGenerator_def pending_def queue_push_filter split: option.splits)
  then have "pending c h2 = 2"
    using assms by (auto simp: registerGenerator_def unregisterGenerator_def pending_def queue_push_filter
        split: option.splits if_splits)
  with pending_fire show ?thesis by metis
qed

theorem reregistration_doubles_events_witness:
  "\<exists>h1 h2. registerGenerator kEmptyValue 5 1 demo_linear new_hub = Some h1 \<and>
     registerGenerator kEmptyValue 6 1 demo_linear (unregisterGenerator 1 h1) = Some h2 \<and> pending 1 h2 = 2"
proof -
  obtain h1 where h1: "registerGenerator kEmptyValue 5 1 demo_linear new_hub = Some h1"
    by (auto simp: registerGenerator_def demo_linear_def new_hub_def linear_hasNext_def linear_nextEvent_def
        linear_value_def getPropType_def linear_step_def Let_def)
  obtain h2 where h2: "registerGenerator kEmptyValue 6 1 demo_linear (unregisterGenerator 1 h1) = Some h2"
    by (auto simp: registerGenerator_def demo_linear_def unregisterGenerator_def linear_hasNext_def
        linear_nextEvent_def linear_value_def getPropType_def linear_step_def Let_def)
  have "pending 1 new_hub = 0" "gen_hasNext demo_linear" "map_of (gh_generators new_hub) 1 = None"
    by (simp_all add: pending_def new_hub_def demo_linear_def linear_hasNext_def)
  with reregistration_doubles_events [OF this(1,2,2,3) h1 h2] h1 h2 show ?thesis by blast
qed

text \<open>
  The value a linear generator moves to is not above \<open>initialValue + dispersion\<close>, except that a step
  beyond it restarts at \<open>initialValue - dispersion\<close>.
\<close>

lemma linear_step_range:
  "lg_currentValue (linear_step g) = f32_sub (lg_initialValue g) (lg_dispersion g) \<or>
   \<not> f32_lt (f32_add (lg_initialValue g) (lg_dispersion g)) (lg_currentValue (linear_step g))"
  by (simp add: linear_step_def Let_def)

end
