(* ===== verification/DefaultConfig.thy ===== *)
theory DefaultConfig
  imports Generators Vms
begin

text \<open>
  The default configuration of the emulated HAL (impl/vhal_v2_0/DefaultConfig.h): the table
  \<open>kVehicleProperties\<close> of property configurations with their initial values. A field that a designated
  initializer leaves out is zero or empty. Constants carry the names of types.hal or of the header, with
  the enumeration in front where the bare name would be ambiguous; floats are bit patterns. The table is
  split in five consecutive parts, in the order of the source.
\<close>

subsection \<open>Constants\<close>

abbreviation "INFO_FUEL_CAPACITY \<equiv> 0x11600104 :: i32"
abbreviation "INFO_FUEL_TYPE \<equiv> 0x11410105 :: i32"
abbreviation "INFO_EV_BATTERY_CAPACITY \<equiv> 0x11600106 :: i32"
abbreviation "INFO_EV_CONNECTOR_TYPE \<equiv> 0x11410107 :: i32"
abbreviation "INFO_DRIVER_SEAT \<equiv> 0x1540010A :: i32"
abbreviation "SEAT_1_LEFT \<equiv> 1 :: i32"
abbreviation "INFO_FUEL_DOOR_LOCATION \<equiv> 0x11400108 :: i32"
abbreviation "FUEL_DOOR_REAR_LEFT \<equiv> 4 :: i32"
abbreviation "INFO_EV_PORT_LOCATION \<equiv> 0x11400109 :: i32"
abbreviation "CHARGE_PORT_FRONT_LEFT \<equiv> 1 :: i32"
abbreviation "INFO_MAKE \<equiv> 0x11100101 :: i32"
abbreviation "PERF_VEHICLE_SPEED \<equiv> 0x11600207 :: i32"
abbreviation "VehicleUnit_METER_PER_SEC \<equiv> 1 :: i32"
abbreviation "VehicleUnit_MILES_PER_HOUR \<equiv> 144 :: i32"
abbreviation "VehicleUnit_KILOMETERS_PER_HOUR \<equiv> 145 :: i32"
abbreviation "VEHICLE_SPEED_DISPLAY_UNITS \<equiv> 0x11400605 :: i32"
abbreviation "PERF_ODOMETER \<equiv> 0x11600204 :: i32"
abbreviation "ENGINE_RPM \<equiv> 0x11600305 :: i32"
abbreviation "FUEL_LEVEL \<equiv> 0x11600307 :: i32"
abbreviation "FUEL_DOOR_OPEN \<equiv> 0x11200308 :: i32"
abbreviation "EV_BATTERY_LEVEL \<equiv> 0x11600309 :: i32"
abbreviation "EV_CHARGE_PORT_OPEN \<equiv> 0x1120030A :: i32"
abbreviation "EV_CHARGE_PORT_CONNECTED \<equiv> 0x1120030B :: i32"
abbreviation "EV_BATTERY_INSTANTANEOUS_CHARGE_RATE \<equiv> 0x1160030C :: i32"
abbreviation "RANGE_REMAINING \<equiv> 0x11600308 :: i32"
abbreviation "WHEEL_FRONT_LEFT \<equiv> 1 :: i32"
abbreviation "WHEEL_FRONT_RIGHT \<equiv> 2 :: i32"
abbreviation "WHEEL_REAR_LEFT \<equiv> 4 :: i32"
abbreviation "WHEEL_REAR_RIGHT \<equiv> 8 :: i32"
abbreviation "TIRE_PRESSURE \<equiv> 0x17600309 :: i32"
abbreviation "CURRENT_GEAR \<equiv> 0x11400401 :: i32"
abbreviation "VehicleGear_GEAR_PARK \<equiv> 4 :: i32"
abbreviation "PARKING_BRAKE_ON \<equiv> 0x11200402 :: i32"
abbreviation "FUEL_LEVEL_LOW \<equiv> 0x11200405 :: i32"
abbreviation "HW_KEY_INPUT \<equiv> 0x11410A10 :: i32"
abbreviation "HVAC_ALL \<equiv> 117 :: i32"
abbreviation "HVAC_FAN_SPEED \<equiv> 0x15400500 :: i32"
abbreviation "HVAC_FAN_DIRECTION \<equiv> 0x15400501 :: i32"
abbreviation "HVAC_POWER_ON \<equiv> 0x15200510 :: i32"
abbreviation "VehicleAreaWindow_FRONT_WINDSHIELD \<equiv> 1 :: i32"
abbreviation "VehicleAreaWindow_REAR_WINDSHIELD \<equiv> 2 :: i32"
abbreviation "HVAC_DEFROSTER \<equiv> 0x13200504 :: i32"
abbreviation "HVAC_MAX_DEFROST_ON \<equiv> 0x15200507 :: i32"
abbreviation "HVAC_RECIRC_ON \<equiv> 0x15200508 :: i32"
abbreviation "HVAC_AUTO_RECIRC_ON \<equiv> 0x15200512 :: i32"
abbreviation "HVAC_AC_ON \<equiv> 0x15200505 :: i32"
abbreviation "HVAC_MAX_AC_ON \<equiv> 0x15200506 :: i32"
abbreviation "HVAC_AUTO_ON \<equiv> 0x1520050A :: i32"
abbreviation "HVAC_DUAL_ON \<equiv> 0x15200509 :: i32"
abbreviation "VehicleHvacFanDirection_FACE \<equiv> 1 :: i32"
abbreviation "HVAC_FAN_DIRECTION_AVAILABLE \<equiv> 0x15410511 :: i32"
abbreviation "FAN_DIRECTION_FACE \<equiv> 1 :: i32"
abbreviation "FAN_DIRECTION_FLOOR \<equiv> 2 :: i32"
abbreviation "SEAT_1_RIGHT \<equiv> 4 :: i32"
abbreviation "HVAC_SEAT_VENTILATION \<equiv> 0x15400513 :: i32"
abbreviation "HVAC_STEERING_WHEEL_HEAT \<equiv> 0x1140050D :: i32"
abbreviation "HVAC_SEAT_TEMPERATURE \<equiv> 0x1540050B :: i32"
abbreviation "HVAC_LEFT \<equiv> 49 :: i32"
abbreviation "HVAC_RIGHT \<equiv> 68 :: i32"
abbreviation "HVAC_TEMPERATURE_SET \<equiv> 0x15600503 :: i32"
abbreviation "ENV_OUTSIDE_TEMPERATURE \<equiv> 0x11600703 :: i32"
abbreviation "VehicleUnit_FAHRENHEIT \<equiv> 49 :: i32"
abbreviation "VehicleUnit_CELSIUS \<equiv> 48 :: i32"
abbreviation "HVAC_TEMPERATURE_DISPLAY_UNITS \<equiv> 0x1140050E :: i32"
abbreviation "VehicleUnit_KILOMETER \<equiv> 35 :: i32"
abbreviation "VehicleUnit_MILE \<equiv> 36 :: i32"
abbreviation "DISTANCE_DISPLAY_UNITS \<equiv> 0x11400600 :: i32"
abbreviation "NIGHT_MODE \<equiv> 0x11200407 :: i32"
abbreviation "GEAR_SELECTION \<equiv> 0x11400400 :: i32"
abbreviation "IGNITION_STATE \<equiv> 0x11400409 :: i32"
abbreviation "VehicleIgnitionState_ON \<equiv> 4 :: i32"
abbreviation "ENGINE_OIL_LEVEL \<equiv> 0x11400303 :: i32"
abbreviation "VehicleOilLevel_NORMAL \<equiv> 2 :: i32"
abbreviation "ENGINE_OIL_TEMP \<equiv> 0x11600304 :: i32"
abbreviation "DOOR_1_LEFT \<equiv> 1 :: i32"
abbreviation "DOOR_1_RIGHT \<equiv> 4 :: i32"
abbreviation "DOOR_2_LEFT \<equiv> 16 :: i32"
abbreviation "DOOR_2_RIGHT \<equiv> 64 :: i32"
abbreviation "DOOR_LOCK \<equiv> 0x16200B02 :: i32"
abbreviation "DOOR_REAR \<equiv> 0x20000000 :: i32"
abbreviation "DOOR_POS \<equiv> 0x16400B00 :: i32"
abbreviation "WINDOW_1_RIGHT \<equiv> 64 :: i32"
abbreviation "WINDOW_2_LEFT \<equiv> 0x100 :: i32"
abbreviation "WINDOW_2_RIGHT \<equiv> 0x400 :: i32"
abbreviation "WINDOW_LOCK \<equiv> 0x13200BC4 :: i32"
abbreviation "WINDOW_1_LEFT \<equiv> 16 :: i32"
abbreviation "WINDOW_ROOF_TOP_1 \<equiv> 0x10000 :: i32"
abbreviation "WINDOW_POS \<equiv> 0x13400BC0 :: i32"
abbreviation "ALL_WHEELS \<equiv> 15 :: i32"
abbreviation "WHEEL_TICK \<equiv> 0x11510306 :: i32"
abbreviation "ABS_ACTIVE \<equiv> 0x1120040A :: i32"
abbreviation "TRACTION_CONTROL_ACTIVE \<equiv> 0x1120040B :: i32"
abbreviation "AP_POWER_STATE_REQ \<equiv> 0x11410A00 :: i32"
abbreviation "VehicleApPowerStateReq_ON \<equiv> 0 :: i32"
abbreviation "AP_POWER_STATE_REPORT \<equiv> 0x11410A01 :: i32"
abbreviation "VehicleApPowerStateReport_WAIT_FOR_VHAL \<equiv> 1 :: i32"
abbreviation "DISPLAY_BRIGHTNESS \<equiv> 0x11400A03 :: i32"
abbreviation "HEADLIGHTS_STATE \<equiv> 0x11400E00 :: i32"
abbreviation "LIGHT_STATE_ON \<equiv> 1 :: i32"
abbreviation "HIGH_BEAM_LIGHTS_STATE \<equiv> 0x11400E01 :: i32"
abbreviation "FOG_LIGHTS_STATE \<equiv> 0x11400E02 :: i32"
abbreviation "HAZARD_LIGHTS_STATE \<equiv> 0x11400E03 :: i32"
abbreviation "HEADLIGHTS_SWITCH \<equiv> 0x11400E10 :: i32"
abbreviation "LIGHT_SWITCH_AUTO \<equiv> 0x100 :: i32"
abbreviation "HIGH_BEAM_LIGHTS_SWITCH \<equiv> 0x11400E11 :: i32"
abbreviation "FOG_LIGHTS_SWITCH \<equiv> 0x11400E12 :: i32"
abbreviation "HAZARD_LIGHTS_SWITCH \<equiv> 0x11400E13 :: i32"
abbreviation "VENDOR_EXTENSION_BOOLEAN_PROPERTY \<equiv> 0x26200101 :: i32"
abbreviation "VENDOR_EXTENSION_FLOAT_PROPERTY \<equiv> 0x25600102 :: i32"
abbreviation "VehicleAreaWindow_ROOF_TOP_1 \<equiv> 0x10000 :: i32"
abbreviation "VENDOR_EXTENSION_INT_PROPERTY \<equiv> 0x23400103 :: i32"
abbreviation "VENDOR_EXTENSION_STRING_PROPERTY \<equiv> 0x21100104 :: i32"

definition OBD2_FREEZE_FRAME_INFO :: i32 where
  "OBD2_FREEZE_FRAME_INFO = 0x0D02 OR GROUP_SYSTEM OR TYPE_MIXED OR AREA_GLOBAL"

definition OBD2_FREEZE_FRAME_CLEAR :: i32 where
  "OBD2_FREEZE_FRAME_CLEAR = 0x0D03 OR GROUP_SYSTEM OR TYPE_MIXED OR AREA_GLOBAL"

definition kGenerateFakeDataControllingProperty :: i32 where
  "kGenerateFakeDataControllingProperty = 0x0666 OR GROUP_VENDOR OR AREA_GLOBAL OR TYPE_MIXED"

datatype FakeDataCommand = StartLinear | StopLinear | StartJson | StopJson | KeyPress | UnknownCommand i32

definition to_FakeDataCommand :: "i32 \<Rightarrow> FakeDataCommand" where
  "to_FakeDataCommand n =
     (if n = 0 then StartLinear else if n = 1 then StopLinear else if n = 2 then StartJson
      else if n = 3 then StopJson else if n = 100 then KeyPress else UnknownCommand n)"

definition kHvacPowerProperties :: "i32 list" where
  "kHvacPowerProperties = [HVAC_FAN_SPEED, HVAC_FAN_DIRECTION]"

subsection \<open>The table\<close>

record ConfigDeclaration =
  cd_config :: VehiclePropConfig
  cd_initialValue :: RawValue
  cd_initialAreaValues :: "(i32, RawValue) std_map"

definition config :: "i32 \<Rightarrow> i32 \<Rightarrow> i32 \<Rightarrow> VehiclePropConfig" where
  "config p access changeMode =
     \<lparr>pc_prop = p, pc_access = access, pc_changeMode = changeMode, pc_areaConfigs = [],
      pc_configArray = [], pc_configString = [], pc_minSampleRate = 0, pc_maxSampleRate = 0\<rparr>"

definition area :: "i32 \<Rightarrow> VehicleAreaConfig" where
  "area a = \<lparr>ac_areaId = a, ac_minInt32Value = 0, ac_maxInt32Value = 0, ac_minInt64Value = 0,
             ac_maxInt64Value = 0, ac_minFloatValue = 0, ac_maxFloatValue = 0\<rparr>"

definition kVehicleProperties_1 :: "ConfigDeclaration list" where
  "kVehicleProperties_1 =
    [\<lparr>cd_config = (config INFO_FUEL_CAPACITY ACCESS_READ STATIC)\<lparr>pc_areaConfigs := [area 0]\<rparr>,
      cd_initialValue = empty_raw\<lparr>floatValues := [0x466A6000]\<rparr>,
      cd_initialAreaValues = []\<rparr>,
     \<lparr>cd_config = (config INFO_FUEL_TYPE ACCESS_READ STATIC),
      cd_initialValue = empty_raw\<lparr>int32Values := [1]\<rparr>,
      cd_initialAreaValues = []\<rparr>,
     \<lparr>cd_config = (config INFO_EV_BATTERY_CAPACITY ACCESS_READ STATIC)\<lparr>pc_areaConfigs := [area 0]\<rparr>,
      cd_initialValue = empty_raw\<lparr>floatValues := [0x48127C00]\<rparr>,
      cd_initialAreaValues = []\<rparr>,
     \<lparr>cd_config = (config INFO_EV_CONNECTOR_TYPE ACCESS_READ STATIC),
      cd_initialValue = empty_raw\<lparr>int32Values := [1]\<rparr>,
      cd_initialAreaValues = []\<rparr>,
     \<lparr>cd_config = (config INFO_DRIVER_SEAT ACCESS_READ STATIC)\<lparr>pc_areaConfigs := [area 0]\<rparr>,
      cd_initialValue = empty_raw\<lparr>int32Values := [SEAT_1_LEFT]\<rparr>,
      cd_initialAreaValues = []\<rparr>,
     \<lparr>cd_config = (config INFO_FUEL_DOOR_LOCATION ACCESS_READ STATIC)\<lparr>pc_areaConfigs := [area 0]\<rparr>,
      cd_initialValue = empty_raw\<lparr>int32Values := [FUEL_DOOR_REAR_LEFT]\<rparr>,
      cd_initialAreaValues = []\<rparr>,
     \<lparr>cd_config = (config INFO_EV_PORT_LOCATION ACCESS_READ STATIC)\<lparr>pc_areaConfigs := [area 0]\<rparr>,
      cd_initialValue = empty_raw\<lparr>int32Values := [CHARGE_PORT_FRONT_LEFT]\<rparr>,
      cd_initialAreaValues = []\<rparr>,
     \<lparr>cd_config = (config INFO_MAKE ACCESS_READ STATIC),
      cd_initialValue = empty_raw\<lparr>stringValue := ''Toy Vehicle''\<rparr>,
      cd_initialAreaValues = []\<rparr>,
     \<lparr>cd_config = (config PERF_VEHICLE_SPEED ACCESS_READ ON_CHANGE)\<lparr>pc_minSampleRate := 0x3F800000,
       pc_maxSampleRate := 0x41200000\<rparr>,
      cd_initialValue = empty_raw\<lparr>floatValues := [0]\<rparr>,
      cd_initialAreaValues = []\<rparr>,
     \<lparr>cd_config = (config VEHICLE_SPEED_DISPLAY_UNITS ACCESS_READ_WRITE ON_CHANGE)\<lparr>pc_configArray := [VehicleUnit_METER_PER_SEC, VehicleUnit_MILES_PER_HOUR, VehicleUnit_KILOMETERS_PER_HOUR]\<rparr>,
      cd_initialValue = empty_raw\<lparr>int32Values := [VehicleUnit_KILOMETERS_PER_HOUR]\<rparr>,
      cd_initialAreaValues = []\<rparr>,
     \<lparr>cd_config = (config INFO_DRIVER_SEAT ACCESS_READ STATIC)\<lparr>pc_areaConfigs := [area 0]\<rparr>,
      cd_initialValue = empty_raw\<lparr>int32Values := [SEAT_1_LEFT]\<rparr>,
      cd_initialAreaValues = []\<rparr>,
     \<lparr>cd_config = (config PERF_ODOMETER ACCESS_READ ON_CHANGE),
      cd_initialValue = empty_raw\<lparr>floatValues := [0]\<rparr>,
      cd_initialAreaValues = []\<rparr>,
     \<lparr>cd_config = (config ENGINE_RPM ACCESS_READ CONTINUOUS)\<lparr>pc_minSampleRate := 0x3F800000,
       pc_maxSampleRate := 0x41200000\<rparr>,
      cd_initialValue = empty_raw\<lparr>floatValues := [0]\<rparr>,
      cd_initialAreaValues = []\<rparr>,
     \<lparr>cd_config = (config FUEL_LEVEL ACCESS_READ ON_CHANGE)\<lparr>pc_areaConfigs := [area 0]\<rparr>,
      cd_initialValue = empty_raw\<lparr>floatValues := [0x466A6000]\<rparr>,
      cd_initialAreaValues = []\<rparr>,
     \<lparr>cd_config = (config FUEL_DOOR_OPEN ACCESS_READ_WRITE ON_CHANGE)\<lparr>pc_areaConfigs := [area 0]\<rparr>,
      cd_initialValue = empty_raw\<lparr>int32Values := [0]\<rparr>,
      cd_initialAreaValues = []\<rparr>]"

definition kVehicleProperties_2 :: "ConfigDeclaration list" where
  "kVehicleProperties_2 =
    [\<lparr>cd_config = (config EV_BATTERY_LEVEL ACCESS_READ ON_CHANGE)\<lparr>pc_areaConfigs := [area 0]\<rparr>,
      cd_initialValue = empty_raw\<lparr>floatValues := [0x48127C00]\<rparr>,
      cd_initialAreaValues = []\<rparr>,
     \<lparr>cd_config = (config EV_CHARGE_PORT_OPEN ACCESS_READ_WRITE ON_CHANGE)\<lparr>pc_areaConfigs := [area 0]\<rparr>,
      cd_initialValue = empty_raw\<lparr>int32Values := [0]\<rparr>,
      cd_initialAreaValues = []\<rparr>,
     \<lparr>cd_config = (config EV_CHARGE_PORT_CONNECTED ACCESS_READ ON_CHANGE)\<lparr>pc_areaConfigs := [area 0]\<rparr>,
      cd_initialValue = empty_raw\<lparr>int32Values := [0]\<rparr>,
      cd_initialAreaValues = []\<rparr>,
     \<lparr>cd_config = (config EV_BATTERY_INSTANTANEOUS_CHARGE_RATE ACCESS_READ ON_CHANGE)\<lparr>pc_areaConfigs := [area 0]\<rparr>,
      cd_initialValue = empty_raw\<lparr>floatValues := [0]\<rparr>,
      cd_initialAreaValues = []\<rparr>,
     \<lparr>cd_config = (config RANGE_REMAINING ACCESS_READ CONTINUOUS)\<lparr>pc_areaConfigs := [area 0],
       pc_minSampleRate := 0x3F800000,
       pc_maxSampleRate := 0x40000000\<rparr>,
      cd_initialValue = empty_raw\<lparr>floatValues := [0x42C80000]\<rparr>,
      cd_initialAreaValues = []\<rparr>,
     \<lparr>cd_config = (config TIRE_PRESSURE ACCESS_READ CONTINUOUS)\<lparr>pc_areaConfigs := [(area WHEEL_FRONT_LEFT)\<lparr>ac_minFloatValue := 0x42C80000, ac_maxFloatValue := 0x43960000\<rparr>,
         (area WHEEL_FRONT_RIGHT)\<lparr>ac_minFloatValue := 0x42C80000, ac_maxFloatValue := 0x43960000\<rparr>,
         (area WHEEL_REAR_LEFT)\<lparr>ac_minFloatValue := 0x42C80000, ac_maxFloatValue := 0x43960000\<rparr>,
         (area WHEEL_REAR_RIGHT)\<lparr>ac_minFloatValue := 0x42C80000, ac_maxFloatValue := 0x43960000\<rparr>],
       pc_minSampleRate := 0x3F800000,
       pc_maxSampleRate := 0x40000000\<rparr>,
      cd_initialValue = empty_raw\<lparr>floatValues := [0x43480000]\<rparr>,
      cd_initialAreaValues = []\<rparr>,
     \<lparr>cd_config = (config CURRENT_GEAR ACCESS_READ ON_CHANGE),
      cd_initialValue = empty_raw\<lparr>int32Values := [VehicleGear_GEAR_PARK]\<rparr>,
      cd_initialAreaValues = []\<rparr>,
     \<lparr>cd_config = (config PARKING_BRAKE_ON ACCESS_READ ON_CHANGE),
      cd_initialValue = empty_raw\<lparr>int32Values := [1]\<rparr>,
      cd_initialAreaValues = []\<rparr>,
     \<lparr>cd_config = (config FUEL_LEVEL_LOW ACCESS_READ ON_CHANGE)\<lparr>pc_areaConfigs := [area 0]\<rparr>,
      cd_initialValue = empty_raw\<lparr>int32Values := [0]\<rparr>,
      cd_initialAreaValues = []\<rparr>,
     \<lparr>cd_config = (config HW_KEY_INPUT ACCESS_READ ON_CHANGE),
      cd_initialValue = empty_raw\<lparr>int32Values := [0, 0, 0]\<rparr>,
      cd_initialAreaValues = []\<rparr>,
     \<lparr>cd_config = (config HVAC_POWER_ON ACCESS_READ_WRITE ON_CHANGE)\<lparr>pc_areaConfigs := [area HVAC_ALL],
       pc_configArray := [HVAC_FAN_SPEED, HVAC_FAN_DIRECTION]\<rparr>,
      cd_initialValue = empty_raw\<lparr>int32Values := [1]\<rparr>,
      cd_initialAreaValues = []\<rparr>,
     \<lparr>cd_config = (config HVAC_DEFROSTER ACCESS_READ_WRITE ON_CHANGE)\<lparr>pc_areaConfigs := [area VehicleAreaWindow_FRONT_WINDSHIELD,
         area VehicleAreaWindow_REAR_WINDSHIELD]\<rparr>,
      cd_initialValue = empty_raw\<lparr>int32Values := [0]\<rparr>,
      cd_initialAreaValues = []\<rparr>,
     \<lparr>cd_config = (config HVAC_MAX_DEFROST_ON ACCESS_READ_WRITE ON_CHANGE)\<lparr>pc_areaConfigs := [area HVAC_ALL]\<rparr>,
      cd_initialValue = empty_raw\<lparr>int32Values := [0]\<rparr>,
      cd_initialAreaValues = []\<rparr>,
     \<lparr>cd_config = (config HVAC_RECIRC_ON ACCESS_READ_WRITE ON_CHANGE)\<lparr>pc_areaConfigs := [area HVAC_ALL]\<rparr>,
      cd_initialValue = empty_raw\<lparr>int32Values := [1]\<rparr>,
      cd_initialAreaValues = []\<rparr>,
     \<lparr>cd_config = (config HVAC_AUTO_RECIRC_ON ACCESS_READ_WRITE ON_CHANGE)\<lparr>pc_areaConfigs := [area HVAC_ALL]\<rparr>,
      cd_initialValue = empty_raw\<lparr>int32Values := [0]\<rparr>,
      cd_initialAreaValues = []\<rparr>]"

definition kVehicleProperties_3 :: "ConfigDeclaration list" where
  "kVehicleProperties_3 =
    [\<lparr>cd_config = (config HVAC_AC_ON ACCESS_READ_WRITE ON_CHANGE)\<lparr>pc_areaConfigs := [area HVAC_ALL]\<rparr>,
      cd_initialValue = empty_raw\<lparr>int32Values := [1]\<rparr>,
      cd_initialAreaValues = []\<rparr>,
     \<lparr>cd_config = (config HVAC_MAX_AC_ON ACCESS_READ_WRITE ON_CHANGE)\<lparr>pc_areaConfigs := [area HVAC_ALL]\<rparr>,
      cd_initialValue = empty_raw\<lparr>int32Values := [0]\<rparr>,
      cd_initialAreaValues = []\<rparr>,
     \<lparr>cd_config = (config HVAC_AUTO_ON ACCESS_READ_WRITE ON_CHANGE)\<lparr>pc_areaConfigs := [area HVAC_ALL]\<rparr>,
      cd_initialValue = empty_raw\<lparr>int32Values := [1]\<rparr>,
      cd_initialAreaValues = []\<rparr>,
     \<lparr>cd_config = (config HVAC_DUAL_ON ACCESS_READ_WRITE ON_CHANGE)\<lparr>pc_areaConfigs := [area HVAC_ALL]\<rparr>,
      cd_initialValue = empty_raw\<lparr>int32Values := [0]\<rparr>,
      cd_initialAreaValues = []\<rparr>,
     \<lparr>cd_config = (config HVAC_FAN_SPEED ACCESS_READ_WRITE ON_CHANGE)\<lparr>pc_areaConfigs := [(area HVAC_ALL)\<lparr>ac_minInt32Value := 1, ac_maxInt32Value := 7\<rparr>]\<rparr>,
      cd_initialValue = empty_raw\<lparr>int32Values := [3]\<rparr>,
      cd_initialAreaValues = []\<rparr>,
     \<lparr>cd_config = (config HVAC_FAN_DIRECTION ACCESS_READ_WRITE ON_CHANGE)\<lparr>pc_areaConfigs := [area HVAC_ALL]\<rparr>,
      cd_initialValue = empty_raw\<lparr>int32Values := [VehicleHvacFanDirection_FACE]\<rparr>,
      cd_initialAreaValues = []\<rparr>,
     \<lparr>cd_config = (config HVAC_FAN_DIRECTION_AVAILABLE ACCESS_READ STATIC)\<lparr>pc_areaConfigs := [area HVAC_ALL]\<rparr>,
      cd_initialValue = empty_raw\<lparr>int32Values := [FAN_DIRECTION_FACE, FAN_DIRECTION_FLOOR, FAN_DIRECTION_FACE OR FAN_DIRECTION_FLOOR]\<rparr>,
      cd_initialAreaValues = []\<rparr>,
     \<lparr>cd_config = (config HVAC_SEAT_VENTILATION ACCESS_READ_WRITE ON_CHANGE)\<lparr>pc_areaConfigs := [(area SEAT_1_LEFT)\<lparr>ac_minInt32Value := 0, ac_maxInt32Value := 3\<rparr>,
         (area SEAT_1_RIGHT)\<lparr>ac_minInt32Value := 0, ac_maxInt32Value := 3\<rparr>]\<rparr>,
      cd_initialValue = empty_raw\<lparr>int32Values := [0]\<rparr>,
      cd_initialAreaValues = []\<rparr>,
     \<lparr>cd_config = (config HVAC_STEERING_WHEEL_HEAT ACCESS_READ_WRITE ON_CHANGE)\<lparr>pc_areaConfigs := [(area 0)\<lparr>ac_minInt32Value := - 2, ac_maxInt32Value := 2\<rparr>]\<rparr>,
      cd_initialValue = empty_raw\<lparr>int32Values := [0]\<rparr>,
      cd_initialAreaValues = []\<rparr>,
     \<lparr>cd_config = (config HVAC_SEAT_TEMPERATURE ACCESS_READ_WRITE ON_CHANGE)\<lparr>pc_areaConfigs := [(area SEAT_1_LEFT)\<lparr>ac_minInt32Value := - 2, ac_maxInt32Value := 2\<rparr>,
         (area SEAT_1_RIGHT)\<lparr>ac_minInt32Value := - 2, ac_maxInt32Value := 2\<rparr>]\<rparr>,
      cd_initialValue = empty_raw\<lparr>int32Values := [0]\<rparr>,
      cd_initialAreaValues = []\<rparr>,
     \<lparr>cd_config = (config HVAC_TEMPERATURE_SET ACCESS_READ_WRITE ON_CHANGE)\<lparr>pc_areaConfigs := [(area HVAC_LEFT)\<lparr>ac_minFloatValue := 0x41800000, ac_maxFloatValue := 0x42000000\<rparr>,
         (area HVAC_RIGHT)\<lparr>ac_minFloatValue := 0x41800000, ac_maxFloatValue := 0x42000000\<rparr>]\<rparr>,
      cd_initialValue = empty_raw,
      cd_initialAreaValues = [(HVAC_LEFT, empty_raw\<lparr>floatValues := [0x41800000]\<rparr>),
       (HVAC_RIGHT, empty_raw\<lparr>floatValues := [0x41A00000]\<rparr>)]\<rparr>,
     \<lparr>cd_config = (config ENV_OUTSIDE_TEMPERATURE ACCESS_READ CONTINUOUS)\<lparr>pc_minSampleRate := 0x3F800000,
       pc_maxSampleRate := 0x40000000\<rparr>,
      cd_initialValue = empty_raw\<lparr>floatValues := [0x41C80000]\<rparr>,
      cd_initialAreaValues = []\<rparr>,
     \<lparr>cd_config = (config HVAC_TEMPERATURE_DISPLAY_UNITS ACCESS_READ_WRITE ON_CHANGE)\<lparr>pc_areaConfigs := [area 0],
       pc_configArray := [VehicleUnit_FAHRENHEIT, VehicleUnit_CELSIUS]\<rparr>,
      cd_initialValue = empty_raw\<lparr>int32Values := [VehicleUnit_FAHRENHEIT]\<rparr>,
      cd_initialAreaValues = []\<rparr>,
     \<lparr>cd_config = (config DISTANCE_DISPLAY_UNITS ACCESS_READ_WRITE ON_CHANGE)\<lparr>pc_areaConfigs := [area 0],
       pc_configArray := [VehicleUnit_KILOMETER, VehicleUnit_MILE]\<rparr>,
      cd_initialValue = empty_raw\<lparr>int32Values := [VehicleUnit_MILE]\<rparr>,
      cd_initialAreaValues = []\<rparr>,
     \<lparr>cd_config = (config NIGHT_MODE ACCESS_READ ON_CHANGE),
      cd_initialValue = empty_raw\<lparr>int32Values := [0]\<rparr>,
      cd_initialAreaValues = []\<rparr>,
     \<lparr>cd_config = (config GEAR_SELECTION ACCESS_READ ON_CHANGE),
      cd_initialValue = empty_raw\<lparr>int32Values := [VehicleGear_GEAR_PARK]\<rparr>,
      cd_initialAreaValues = []\<rparr>,
     \<lparr>cd_config = (config IGNITION_STATE ACCESS_READ ON_CHANGE),
      cd_initialValue = empty_raw\<lparr>int32Values := [VehicleIgnitionState_ON]\<rparr>,
      cd_initialAreaValues = []\<rparr>]"

definition kVehicleProperties_4 :: "ConfigDeclaration list" where
  "kVehicleProperties_4 =
    [\<lparr>cd_config = (config ENGINE_OIL_LEVEL ACCESS_READ ON_CHANGE),
      cd_initialValue = empty_raw\<lparr>int32Values := [VehicleOilLevel_NORMAL]\<rparr>,
      cd_initialAreaValues = []\<rparr>,
     \<lparr>cd_config = (config ENGINE_OIL_TEMP ACCESS_READ CONTINUOUS)\<lparr>pc_minSampleRate := 0x3DCCCCCD,
       pc_maxSampleRate := 0x41200000\<rparr>,
      cd_initialValue = empty_raw\<lparr>floatValues := [0x42CA0000]\<rparr>,
      cd_initialAreaValues = []\<rparr>,
     \<lparr>cd_config = (config kGenerateFakeDataControllingProperty ACCESS_WRITE ON_CHANGE),
      cd_initialValue = empty_raw,
      cd_initialAreaValues = []\<rparr>,
     \<lparr>cd_config = (config DOOR_LOCK ACCESS_READ_WRITE ON_CHANGE)\<lparr>pc_areaConfigs := [area DOOR_1_LEFT,
         area DOOR_1_RIGHT,
         area DOOR_2_LEFT,
         area DOOR_2_RIGHT]\<rparr>,
      cd_initialValue = empty_raw,
      cd_initialAreaValues = [(DOOR_1_LEFT, empty_raw\<lparr>int32Values := [1]\<rparr>),
       (DOOR_1_RIGHT, empty_raw\<lparr>int32Values := [1]\<rparr>),
       (DOOR_2_LEFT, empty_raw\<lparr>int32Values := [1]\<rparr>),
       (DOOR_2_RIGHT, empty_raw\<lparr>int32Values := [1]\<rparr>)]\<rparr>,
     \<lparr>cd_config = (config DOOR_POS ACCESS_READ_WRITE ON_CHANGE)\<lparr>pc_areaConfigs := [(area DOOR_1_LEFT)\<lparr>ac_minInt32Value := 0, ac_maxInt32Value := 1\<rparr>,
         (area DOOR_1_RIGHT)\<lparr>ac_minInt32Value := 0, ac_maxInt32Value := 1\<rparr>,
         (area DOOR_2_LEFT)\<lparr>ac_minInt32Value := 0, ac_maxInt32Value := 1\<rparr>,
         (area DOOR_2_RIGHT)\<lparr>ac_minInt32Value := 0, ac_maxInt32Value := 1\<rparr>,
         (area DOOR_REAR)\<lparr>ac_minInt32Value := 0, ac_maxInt32Value := 1\<rparr>]\<rparr>,
      cd_initialValue = empty_raw\<lparr>int32Values := [0]\<rparr>,
      cd_initialAreaValues = []\<rparr>,
     \<lparr>cd_config = (config WINDOW_LOCK ACCESS_READ_WRITE ON_CHANGE)\<lparr>pc_areaConfigs := [area (WINDOW_1_RIGHT OR WINDOW_2_LEFT OR WINDOW_2_RIGHT)]\<rparr>,
      cd_initialValue = empty_raw,
      cd_initialAreaValues = [(WINDOW_1_RIGHT OR WINDOW_2_LEFT OR WINDOW_2_RIGHT, empty_raw\<lparr>int32Values := [0]\<rparr>)]\<rparr>,
     \<lparr>cd_config = (config WINDOW_POS ACCESS_READ_WRITE ON_CHANGE)\<lparr>pc_areaConfigs := [(area WINDOW_1_LEFT)\<lparr>ac_minInt32Value := 0, ac_maxInt32Value := 10\<rparr>,
         (area WINDOW_1_RIGHT)\<lparr>ac_minInt32Value := 0, ac_maxInt32Value := 10\<rparr>,
         (area WINDOW_2_LEFT)\<lparr>ac_minInt32Value := 0, ac_maxInt32Value := 10\<rparr>,
         (area WINDOW_2_RIGHT)\<lparr>ac_minInt32Value := 0, ac_maxInt32Value := 10\<rparr>,
         (area WINDOW_ROOF_TOP_1)\<lparr>ac_minInt32Value := - 10, ac_maxInt32Value := 10\<rparr>]\<rparr>,
      cd_initialValue = empty_raw\<lparr>int32Values := [0]\<rparr>,
      cd_initialAreaValues = []\<rparr>,
     \<lparr>cd_config = (config WHEEL_TICK ACCESS_READ CONTINUOUS)\<lparr>pc_configArray := [ALL_WHEELS, 50000, 50000, 50000, 50000],
       pc_minSampleRate := 0x3F800000,
       pc_maxSampleRate := 0x41200000\<rparr>,
      cd_initialValue = empty_raw\<lparr>int64Values := [0, 100000, 200000, 300000, 400000]\<rparr>,
      cd_initialAreaValues = []\<rparr>,
     \<lparr>cd_config = (config ABS_ACTIVE ACCESS_READ ON_CHANGE),
      cd_initialValue = empty_raw\<lparr>int32Values := [0]\<rparr>,
      cd_initialAreaValues = []\<rparr>,
     \<lparr>cd_config = (config TRACTION_CONTROL_ACTIVE ACCESS_READ ON_CHANGE),
      cd_initialValue = empty_raw\<lparr>int32Values := [0]\<rparr>,
      cd_initialAreaValues = []\<rparr>,
     \<lparr>cd_config = (config AP_POWER_STATE_REQ ACCESS_READ ON_CHANGE)\<lparr>pc_configArray := [3]\<rparr>,
      cd_initialValue = empty_raw\<lparr>int32Values := [VehicleApPowerStateReq_ON, 0]\<rparr>,
      cd_initialAreaValues = []\<rparr>,
     \<lparr>cd_config = (config AP_POWER_STATE_REPORT ACCESS_WRITE ON_CHANGE),
      cd_initialValue = empty_raw\<lparr>int32Values := [VehicleApPowerStateReport_WAIT_FOR_VHAL, 0]\<rparr>,
      cd_initialAreaValues = []\<rparr>,
     \<lparr>cd_config = (config DISPLAY_BRIGHTNESS ACCESS_READ_WRITE ON_CHANGE)\<lparr>pc_areaConfigs := [(area 0)\<lparr>ac_minInt32Value := 0, ac_maxInt32Value := 100\<rparr>]\<rparr>,
      cd_initialValue = empty_raw\<lparr>int32Values := [100]\<rparr>,
      cd_initialAreaValues = []\<rparr>,
     \<lparr>cd_config = (config OBD2_LIVE_FRAME ACCESS_READ ON_CHANGE)\<lparr>pc_configArray := [0, 0]\<rparr>,
      cd_initialValue = empty_raw,
      cd_initialAreaValues = []\<rparr>,
     \<lparr>cd_config = (config OBD2_FREEZE_FRAME ACCESS_READ ON_CHANGE)\<lparr>pc_configArray := [0, 0]\<rparr>,
      cd_initialValue = empty_raw,
      cd_initialAreaValues = []\<rparr>,
     \<lparr>cd_config = (config OBD2_FREEZE_FRAME_INFO ACCESS_READ ON_CHANGE),
      cd_initialValue = empty_raw,
      cd_initialAreaValues = []\<rparr>,
     \<lparr>cd_config = (config OBD2_FREEZE_FRAME_CLEAR ACCESS_WRITE ON_CHANGE)\<lparr>pc_configArray := [1]\<rparr>,
      cd_initialValue = empty_raw,
      cd_initialAreaValues = []\<rparr>]"

definition kVehicleProperties_5 :: "ConfigDeclaration list" where
  "kVehicleProperties_5 =
    [\<lparr>cd_config = (config HEADLIGHTS_STATE ACCESS_READ ON_CHANGE)\<lparr>pc_areaConfigs := [area 0]\<rparr>,
      cd_initialValue = empty_raw\<lparr>int32Values := [LIGHT_STATE_ON]\<rparr>,
      cd_initialAreaValues = []\<rparr>,
     \<lparr>cd_config = (config HIGH_BEAM_LIGHTS_STATE ACCESS_READ ON_CHANGE)\<lparr>pc_areaConfigs := [area 0]\<rparr>,
      cd_initialValue = empty_raw\<lparr>int32Values := [LIGHT_STATE_ON]\<rparr>,
      cd_initialAreaValues = []\<rparr>,
     \<lparr>cd_config = (config FOG_LIGHTS_STATE ACCESS_READ ON_CHANGE)\<lparr>pc_areaConfigs := [area 0]\<rparr>,
      cd_initialValue = empty_raw\<lparr>int32Values := [LIGHT_STATE_ON]\<rparr>,
      cd_initialAreaValues = []\<rparr>,
     \<lparr>cd_config = (config HAZARD_LIGHTS_STATE ACCESS_READ ON_CHANGE)\<lparr>pc_areaConfigs := [area 0]\<rparr>,
      cd_initialValue = empty_raw\<lparr>int32Values := [LIGHT_STATE_ON]\<rparr>,
      cd_initialAreaValues = []\<rparr>,
     \<lparr>cd_config = (config HEADLIGHTS_SWITCH ACCESS_READ_WRITE ON_CHANGE)\<lparr>pc_areaConfigs := [area 0]\<rparr>,
      cd_initialValue = empty_raw\<lparr>int32Values := [LIGHT_SWITCH_AUTO]\<rparr>,
      cd_initialAreaValues = []\<rparr>,
     \<lparr>cd_config = (config HIGH_BEAM_LIGHTS_SWITCH ACCESS_READ_WRITE ON_CHANGE)\<lparr>pc_areaConfigs := [area 0]\<rparr>,
      cd_initialValue = empty_raw\<lparr>int32Values := [LIGHT_SWITCH_AUTO]\<rparr>,
      cd_initialAreaValues = []\<rparr>,
     \<lparr>cd_config = (config FOG_LIGHTS_SWITCH ACCESS_READ_WRITE ON_CHANGE)\<lparr>pc_areaConfigs := [area 0]\<rparr>,
      cd_initialValue = empty_raw\<lparr>int32Values := [LIGHT_SWITCH_AUTO]\<rparr>,
      cd_initialAreaValues = []\<rparr>,
     \<lparr>cd_config = (config HAZARD_LIGHTS_SWITCH ACCESS_READ_WRITE ON_CHANGE)\<lparr>pc_areaConfigs := [area 0]\<rparr>,
      cd_initialValue = empty_raw\<lparr>int32Values := [LIGHT_SWITCH_AUTO]\<rparr>,
      cd_initialAreaValues = []\<rparr>,
     \<lparr>cd_config = (config VEHICLE_MAP_SERVICE ACCESS_READ_WRITE ON_CHANGE),
      cd_initialValue = empty_raw,
      cd_initialAreaValues = []\<rparr>,
     \<lparr>cd_config = (config VENDOR_EXTENSION_BOOLEAN_PROPERTY ACCESS_READ_WRITE ON_CHANGE)\<lparr>pc_areaConfigs := [area DOOR_1_LEFT,
         area DOOR_1_RIGHT,
         area DOOR_2_LEFT,
         area DOOR_2_RIGHT]\<rparr>,
      cd_initialValue = empty_raw,
      cd_initialAreaValues = [(DOOR_1_LEFT, empty_raw\<lparr>int32Values := [1]\<rparr>),
       (DOOR_1_RIGHT, empty_raw\<lparr>int32Values := [1]\<rparr>),
       (DOOR_2_LEFT, empty_raw\<lparr>int32Values := [0]\<rparr>),
       (DOOR_2_RIGHT, empty_raw\<lparr>int32Values := [0]\<rparr>)]\<rparr>,
     \<lparr>cd_config = (config VENDOR_EXTENSION_FLOAT_PROPERTY ACCESS_READ_WRITE ON_CHANGE)\<lparr>pc_areaConfigs := [(area HVAC_LEFT)\<lparr>ac_minFloatValue := 0xC1200000, ac_maxFloatValue := 0x41200000\<rparr>,
         (area HVAC_RIGHT)\<lparr>ac_minFloatValue := 0xC1200000, ac_maxFloatValue := 0x41200000\<rparr>]\<rparr>,
      cd_initialValue = empty_raw,
      cd_initialAreaValues = [(HVAC_LEFT, empty_raw\<lparr>floatValues := [0x3F800000]\<rparr>),
       (HVAC_RIGHT, empty_raw\<lparr>floatValues := [0x40000000]\<rparr>)]\<rparr>,
     \<lparr>cd_config = (config VENDOR_EXTENSION_INT_PROPERTY ACCESS_READ_WRITE ON_CHANGE)\<lparr>pc_areaConfigs := [(area VehicleAreaWindow_FRONT_WINDSHIELD)\<lparr>ac_minInt32Value := - 100, ac_maxInt32Value := 100\<rparr>,
         (area VehicleAreaWindow_REAR_WINDSHIELD)\<lparr>ac_minInt32Value := - 100, ac_maxInt32Value := 100\<rparr>,
         (area VehicleAreaWindow_ROOF_TOP_1)\<lparr>ac_minInt32Value := - 100, ac_maxInt32Value := 100\<rparr>]\<rparr>,
      cd_initialValue = empty_raw,
      cd_initialAreaValues = [(VehicleAreaWindow_FRONT_WINDSHIELD, empty_raw\<lparr>int32Values := [1]\<rparr>),
       (VehicleAreaWindow_REAR_WINDSHIELD, empty_raw\<lparr>int32Values := [0]\<rparr>),
       (VehicleAreaWindow_ROOF_TOP_1, empty_raw\<lparr>int32Values := [- 1]\<rparr>)]\<rparr>,
     \<lparr>cd_config = (config VENDOR_EXTENSION_STRING_PROPERTY ACCESS_READ_WRITE ON_CHANGE),
      cd_initialValue = empty_raw\<lparr>stringValue := ''Vendor String Property''\<rparr>,
      cd_initialAreaValues = []\<rparr>]"

definition kVehicleProperties :: "ConfigDeclaration list" where
  "kVehicleProperties = kVehicleProperties_1 @ kVehicleProperties_2 @ kVehicleProperties_3 @ kVehicleProperties_4 @ kVehicleProperties_5"

subsection \<open>The table is consistent\<close>

definition declared :: "i32 \<Rightarrow> ConfigDeclaration list" where
  "declared p = filter (\<lambda>d. pc_prop (cd_config d) = p) kVehicleProperties"

definition rates_ok :: "VehiclePropConfig \<Rightarrow> bool" where
  "rates_ok c \<longleftrightarrow> f32_lt 0 (pc_minSampleRate c) \<and> \<not> f32_isnan (pc_maxSampleRate c) \<and>
     \<not> f32_lt (pc_maxSampleRate c) (pc_minSampleRate c) \<and> \<not> f32_lt 0x41200000 (pc_maxSampleRate c)"

lemma continuous_rates:
  "list_all (\<lambda>d. pc_changeMode (cd_config d) \<noteq> CONTINUOUS \<or> rates_ok (cd_config d)) kVehicleProperties"
  by code_simp

lemma area_values:
  "list_all (\<lambda>d. cd_initialAreaValues d = [] \<or>
     map fst (cd_initialAreaValues d) = map ac_areaId (pc_areaConfigs (cd_config d))) kVehicleProperties"
  by code_simp

lemma declared_once:
  "distinct (map (\<lambda>d. pc_prop (cd_config d))
     (filter (\<lambda>d. pc_prop (cd_config d) \<noteq> INFO_DRIVER_SEAT) kVehicleProperties))"
  by code_simp

lemma declared_twice:
  "length (declared INFO_DRIVER_SEAT) = 2 \<and> declared INFO_DRIVER_SEAT ! 0 = declared INFO_DRIVER_SEAT ! 1"
  by code_simp

end
