(* ===== verification/EmulatedHal.thy ===== *)
theory EmulatedHal
  imports PropertyStore ObjectPool Timer DefaultConfig HalManager "HOL-Library.Monad_Syntax"
begin

text \<open>
  EmulatedVehicleHal (impl/vhal_v2_0/EmulatedVehicleHal.cpp, EmulatedVehicleHal.h): the vehicle HAL that
  is connected to an emulator. It owns a property store, a recurrent timer for the continuous
  properties, a hub of fake value generators and a pool of value objects.

  An operation returns \<open>None\<close> when the code aborts or does something undefined (a read out of bounds, a
  null dereference, a float that does not fit the integer it is converted to). The record \<open>HalEnv\<close>
  stands for what is outside: the JSON library and the files, \<open>std::hash\<close>, the system properties, the
  clocks (the \<open>n\<close>-th reading; every call of a timer or generator registration reserves one) and the
  uninitialised fields of a new object. \<open>eh_events\<close> collects what is given to \<open>doHalEvent\<close> and
  \<open>eh_sent\<close> what is given to \<open>doSetValueFromClient\<close>, both in order.
\<close>

subsection \<open>State and environment\<close>

record 'j HalEnv =
  env_json :: "'j JsonLib"
  env_parseFile :: "string \<Rightarrow> 'j option"
  env_hash :: "string \<Rightarrow> int"
  env_property_get :: "string \<Rightarrow> string"
  env_clock :: "nat \<Rightarrow> i64"
  env_fresh :: VehiclePropValue

record EmulatedVehicleHal =
  eh_propStore :: VehiclePropertyStore
  eh_hvacPowerProps :: "i32 list"
  eh_recurrentTimer :: RecurrentTimer
  eh_generatorHub :: GeneratorHub
  eh_inEmulator :: bool
  eh_valuePool :: VehiclePropValuePool
  eh_emulator :: bool
  eh_tick :: nat
  eh_events :: "recyclable_ptr list"
  eh_sent :: "VehiclePropValue list"

definition read_clock :: "'j HalEnv \<Rightarrow> EmulatedVehicleHal \<Rightarrow> i64 \<times> EmulatedVehicleHal" where
  "read_clock env h = (env_clock env (eh_tick h), h\<lparr>eh_tick := eh_tick h + 1\<rparr>)"

definition doHalEvent :: "recyclable_ptr \<Rightarrow> EmulatedVehicleHal \<Rightarrow> EmulatedVehicleHal" where
  "doHalEvent v h = h\<lparr>eh_events := eh_events h @ [v]\<rparr>"

definition pool_obtain ::
  "'j HalEnv \<Rightarrow> VehiclePropValue \<Rightarrow> EmulatedVehicleHal \<Rightarrow> (recyclable_ptr \<times> EmulatedVehicleHal) option" where
  "pool_obtain env src h =
     (case obtain_src (env_fresh env) src (eh_valuePool h) of
        Inl _ \<Rightarrow> None
      | Inr (ptr, pool) \<Rightarrow> Some (ptr, h\<lparr>eh_valuePool := pool\<rparr>))"

definition release_ptr :: "recyclable_ptr \<Rightarrow> EmulatedVehicleHal \<Rightarrow> EmulatedVehicleHal" where
  "release_ptr ptr h = h\<lparr>eh_valuePool := release ptr (eh_valuePool h)\<rparr>"

definition write_store :: "VehiclePropValue \<Rightarrow> bool \<Rightarrow> EmulatedVehicleHal \<Rightarrow> bool \<times> EmulatedVehicleHal" where
  "write_store v updateStatus h =
     (let (r, s) = writeValue v updateStatus (eh_propStore h) in (r, h\<lparr>eh_propStore := s\<rparr>))"

subsection \<open>The default OBD2 frame\<close>

fun set_integer_sensors :: "(nat \<times> i32) list \<Rightarrow> Obd2SensorStore \<Rightarrow> Obd2SensorStore option" where
  "set_integer_sensors [] st = Some st"
| "set_integer_sensors ((i, x) # xs) st =
     do { (_, st1) \<leftarrow> setIntegerSensor i x st; set_integer_sensors xs st1 }"

fun set_float_sensors :: "(nat \<times> f32) list \<Rightarrow> Obd2SensorStore \<Rightarrow> Obd2SensorStore option" where
  "set_float_sensors [] st = Some st"
| "set_float_sensors ((i, x) # xs) st =
     do { (_, st1) \<leftarrow> setFloatSensor i x st; set_float_sensors xs st1 }"

text \<open>The sensors in the order they are set, by their DiagnosticIntegerSensorIndex and DiagnosticFloatSensorIndex.\<close>

definition default_integer_sensors :: "(nat \<times> i32) list" where
  "default_integer_sensors =
     [(0, 2), (1, 0), (2, 0), (3, 0x1 OR 0x10 OR 0x1000 OR 0x10000), (4, 35), (5, 4), (6, 1), (7, 500),
      (8, 0), (9, 51), (10, 365), (11, 30), (12, 12), (13, 18), (16, 1), (21, 1)]"

definition default_float_sensors :: "(nat \<times> f32) list" where
  "default_float_sensors =
     [(0, 0x3E1CAC08), (2, 0xBE23D70A), (3, 0xBE23D70A), (4, 0xBE23D70A), (5, 0xBE23D70A), (7, 0x40F00000),
      (8, 0x449C4000), (9, 0x42200000), (10, 0x40200000), (12, 0x419E0000), (13, 0x3E87AE14),
      (42, 0x3F52F1AA), (43, 0xBEBEF9DB), (44, 0x433E0000), (50, 0x40400000), (51, 0x3E9CAC08),
      (53, 0x3E408312), (54, 0x3DC08312), (56, 0x3CC49BA6)]"

definition fillDefaultObd2Frame :: "nat \<Rightarrow> nat \<Rightarrow> Obd2SensorStore option" where
  "fillDefaultObd2Frame numVendorIntegerSensors numVendorFloatSensors =
     do { st \<leftarrow> set_integer_sensors default_integer_sensors
            (new_sensor_store numVendorIntegerSensors numVendorFloatSensors);
          set_float_sensors default_float_sensors st }"

text \<open>A negative \<open>int\<close> cast to \<open>size_t\<close> asks for more memory than there is.\<close>

definition to_size :: "i32 \<Rightarrow> nat option" where
  "to_size n = (if 0 \<le> n then Some (nat n) else None)"

definition config_frame :: "VehiclePropConfig \<Rightarrow> Obd2SensorStore option" where
  "config_frame propConfig =
     do { i \<leftarrow> vec_at (pc_configArray propConfig) 0; ni \<leftarrow> to_size i;
          f \<leftarrow> vec_at (pc_configArray propConfig) 1; nf \<leftarrow> to_size f;
          fillDefaultObd2Frame ni nf }"

definition initObd2LiveFrame ::
  "'j HalEnv \<Rightarrow> VehiclePropConfig \<Rightarrow> EmulatedVehicleHal \<Rightarrow> EmulatedVehicleHal option" where
  "initObd2LiveFrame env propConfig h =
     do { liveObd2Frame \<leftarrow> createVehiclePropValue (env_fresh env) TYPE_MIXED 0;
          sensorStore \<leftarrow> config_frame propConfig;
          let (now, h1) = read_clock env h;
              frame = (fillPropValue now [] sensorStore liveObd2Frame)\<lparr>pv_prop := OBD2_LIVE_FRAME\<rparr>
          in Some (snd (write_store frame True h1)) }"

fun write_freeze_frames ::
  "'j HalEnv \<Rightarrow> Obd2SensorStore \<Rightarrow> string list \<Rightarrow> EmulatedVehicleHal \<Rightarrow> EmulatedVehicleHal option" where
  "write_freeze_frames env sensorStore [] h = Some h"
| "write_freeze_frames env sensorStore (dtc # dtcs) h =
     do { freezeFrame \<leftarrow> createVehiclePropValue (env_fresh env) TYPE_MIXED 0;
          let (now, h1) = read_clock env h;
              frame = (fillPropValue now dtc sensorStore freezeFrame)\<lparr>pv_prop := OBD2_FREEZE_FRAME\<rparr>
          in write_freeze_frames env sensorStore dtcs (snd (write_store frame True h1)) }"

text \<open>Two adjacent string literals are one: there are two codes, not three.\<close>

definition sampleDtcs :: "string list" where
  "sampleDtcs = [''P0070'', ''P0102'' @ ''P0123'']"

definition initObd2FreezeFrame ::
  "'j HalEnv \<Rightarrow> VehiclePropConfig \<Rightarrow> EmulatedVehicleHal \<Rightarrow> EmulatedVehicleHal option" where
  "initObd2FreezeFrame env propConfig h =
     do { sensorStore \<leftarrow> config_frame propConfig; write_freeze_frames env sensorStore sampleDtcs h }"

subsection \<open>Construction\<close>

definition token_of :: "VehiclePropConfig \<Rightarrow> TokenFunction option" where
  "token_of cfg = (if pc_prop cfg = OBD2_FREEZE_FRAME then Some pv_timestamp else None)"

definition initStaticConfig :: "VehiclePropertyStore \<Rightarrow> VehiclePropertyStore" where
  "initStaticConfig s =
     fold (\<lambda>it s. registerProperty (cd_config it) (token_of (cd_config it)) s) kVehicleProperties s"

text \<open>
  The constructor; the second loop registers every property again, without a token function, which
  leaves the first registration in place. \<open>mInEmulator\<close> is not set before \<open>onCreate\<close>, and
  \<open>emulator\<close> tells whether a VehicleEmulator has been registered.
\<close>

definition new_emulated_hal ::
  "VehiclePropertyStore \<Rightarrow> VehiclePropValuePool \<Rightarrow> bool \<Rightarrow> bool \<Rightarrow> EmulatedVehicleHal" where
  "new_emulated_hal propStore pool inEmulator emulator =
     \<lparr>eh_propStore = fold (\<lambda>it s. registerProperty (cd_config it) None s) kVehicleProperties
        (initStaticConfig propStore),
      eh_hvacPowerProps = kHvacPowerProperties, eh_recurrentTimer = new_timer,
      eh_generatorHub = new_hub, eh_inEmulator = inEmulator, eh_valuePool = pool,
      eh_emulator = emulator, eh_tick = 0, eh_events = [], eh_sent = []\<rparr>"

definition isDiagnosticProperty :: "VehiclePropConfig \<Rightarrow> bool" where
  "isDiagnosticProperty propConfig \<longleftrightarrow> pc_prop propConfig = OBD2_LIVE_FRAME \<or>
     pc_prop propConfig = OBD2_FREEZE_FRAME \<or> pc_prop propConfig = OBD2_FREEZE_FRAME_CLEAR \<or>
     pc_prop propConfig = OBD2_FREEZE_FRAME_INFO"

text \<open>\<open>__system_property_get\<close> returns the length of the value it copies.\<close>

definition isInEmulator :: "'j HalEnv \<Rightarrow> bool" where
  "isInEmulator env \<longleftrightarrow>
     length (env_property_get env ''ro.kernel.qemu'') \<noteq> 0 \<or>
     (length (env_property_get env ''ro.hardware'') \<noteq> 0 \<and>
      (env_property_get env ''ro.hardware'' = ''ranchu'' \<or> env_property_get env ''ro.hardware'' = ''goldfish''))"

text \<open>The values \<open>onCreate\<close> writes for one entry of the table, one per area.\<close>

definition initial_area_value :: "ConfigDeclaration \<Rightarrow> i32 \<Rightarrow> VehiclePropValue" where
  "initial_area_value it curArea =
     kEmptyValue\<lparr>pv_prop := pc_prop (cd_config it), pv_areaId := curArea,
       pv_value := (if 0 < length (cd_initialAreaValues it)
                    then (case map_of (cd_initialAreaValues it) curArea of None \<Rightarrow> empty_raw | Some v \<Rightarrow> v)
                    else cd_initialValue it)\<rparr>"

definition initial_values :: "ConfigDeclaration \<Rightarrow> VehiclePropValue list" where
  "initial_values it =
     (let cfg = cd_config it in
      if isDiagnosticProperty cfg then []
      else map (initial_area_value it)
             (if isGlobalProp (pc_prop cfg) then [0] else map ac_areaId (pc_areaConfigs cfg)))"

definition onCreate :: "'j HalEnv \<Rightarrow> EmulatedVehicleHal \<Rightarrow> EmulatedVehicleHal option" where
  "onCreate env h =
     (let h1 = fold (\<lambda>v h. snd (write_store v True h)) (concat (map initial_values kVehicleProperties)) h in
      case getConfigOrDie (eh_propStore h1) OBD2_LIVE_FRAME of
        Inl _ \<Rightarrow> None
      | Inr live \<Rightarrow>
          do { h2 \<leftarrow> initObd2LiveFrame env live h1;
               case getConfigOrDie (eh_propStore h2) OBD2_FREEZE_FRAME of
                 Inl _ \<Rightarrow> None
               | Inr freeze \<Rightarrow>
                   do { h3 \<leftarrow> initObd2FreezeFrame env freeze h2;
                        Some (h3\<lparr>eh_inEmulator := isInEmulator env\<rparr>) } })"

definition eh_listProperties :: "EmulatedVehicleHal \<Rightarrow> VehiclePropConfig list" where
  "eh_listProperties h = getAllConfigs (eh_propStore h)"

definition getAllProperties :: "EmulatedVehicleHal \<Rightarrow> VehiclePropValue list" where
  "getAllProperties h = readAllValues (eh_propStore h)"

subsection \<open>Reading\<close>

definition fillObd2FreezeFrame ::
  "VehiclePropValue \<Rightarrow> VehiclePropValue \<Rightarrow> VehiclePropertyStore \<Rightarrow> StatusCode \<times> VehiclePropValue" where
  "fillObd2FreezeFrame requestedPropValue outValue s =
     (if length (int64Values (pv_value requestedPropValue)) \<noteq> 1 then (INVALID_ARG, outValue)
      else
        let timestamp = int64Values (pv_value requestedPropValue) ! 0 in
        case readValueOrNull_at s OBD2_FREEZE_FRAME 0 timestamp of
          None \<Rightarrow> (INVALID_ARG, outValue)
        | Some freezeFrame \<Rightarrow>
            (OK, outValue\<lparr>pv_prop := OBD2_FREEZE_FRAME,
                   pv_value := (pv_value outValue)\<lparr>int32Values := int32Values (pv_value freezeFrame),
                     floatValues := floatValues (pv_value freezeFrame), bytes := bytes (pv_value freezeFrame),
                     stringValue := stringValue (pv_value freezeFrame)\<rparr>,
                   pv_timestamp := pv_timestamp freezeFrame\<rparr>))"

definition fillObd2DtcInfo :: "VehiclePropValue \<Rightarrow> VehiclePropertyStore \<Rightarrow> StatusCode \<times> VehiclePropValue" where
  "fillObd2DtcInfo outValue s =
     (let timestamps = map pv_timestamp (readValuesForProperty s OBD2_FREEZE_FRAME)
      in (OK, outValue\<lparr>pv_value := (pv_value outValue)\<lparr>int64Values := timestamps\<rparr>,
                       pv_prop := OBD2_FREEZE_FRAME_INFO\<rparr>))"

text \<open>\<open>v = pool.obtainComplex()\<close>, filled through the pointer.\<close>

definition get_complex ::
  "'j HalEnv \<Rightarrow> (VehiclePropValue \<Rightarrow> VehiclePropertyStore \<Rightarrow> StatusCode \<times> VehiclePropValue) \<Rightarrow>
   EmulatedVehicleHal \<Rightarrow> ((recyclable_ptr \<times> StatusCode) \<times> EmulatedVehicleHal) option" where
  "get_complex env fill h =
     (case obtainComplex (env_fresh env) (eh_valuePool h) of
        ((None, _), _) \<Rightarrow> None
      | ((Some v, d), pool) \<Rightarrow>
          let (status, v') = fill v (eh_propStore h)
          in Some (((Some v', d), status), h\<lparr>eh_valuePool := pool\<rparr>))"

definition eh_get ::
  "'j HalEnv \<Rightarrow> VehiclePropValue \<Rightarrow> EmulatedVehicleHal \<Rightarrow>
   ((recyclable_ptr \<times> StatusCode) \<times> EmulatedVehicleHal) option" where
  "eh_get env requestedPropValue h =
     (let propId = pv_prop requestedPropValue in
      if propId = OBD2_FREEZE_FRAME then get_complex env (fillObd2FreezeFrame requestedPropValue) h
      else if propId = OBD2_FREEZE_FRAME_INFO then get_complex env fillObd2DtcInfo h
      else
        do { (v, h1) \<leftarrow> (case readValueOrNull (eh_propStore h) requestedPropValue of
               None \<Rightarrow> Some ((None, Dispose), h)
             | Some internalPropValue \<Rightarrow> pool_obtain env internalPropValue h);
             Some ((v, if fst v \<noteq> None then OK else INVALID_ARG), h1) })"

subsection \<open>Events the HAL makes up\<close>

text \<open>\<open>vec[i] = x\<close>\<close>

definition vec_set :: "nat \<Rightarrow> 'a \<Rightarrow> 'a list \<Rightarrow> 'a list option" where
  "vec_set i x vec = (if i < length vec then Some (vec[i := x]) else None)"

fun vec_sets :: "nat \<Rightarrow> 'a list \<Rightarrow> 'a list \<Rightarrow> 'a list option" where
  "vec_sets i [] vec = Some vec"
| "vec_sets i (x # xs) vec = do { vec1 \<leftarrow> vec_set i x vec; vec_sets (i + 1) xs vec1 }"

text \<open>An INT32_VEC from the pool with its fields set and its elements written from the first on.\<close>

definition make_int32_event ::
  "'j HalEnv \<Rightarrow> i32 \<Rightarrow> i32 list \<Rightarrow> EmulatedVehicleHal \<Rightarrow> (recyclable_ptr \<times> EmulatedVehicleHal) option" where
  "make_int32_event env prop xs h =
     (case obtain_sized (env_fresh env) TYPE_INT32_VEC (length xs) (eh_valuePool h) of
        ((None, _), _) \<Rightarrow> None
      | ((Some req, d), pool) \<Rightarrow>
          let (now, h1) = read_clock env (h\<lparr>eh_valuePool := pool\<rparr>) in
          do { vec \<leftarrow> vec_sets 0 xs (int32Values (pv_value req));
               Some ((Some (req\<lparr>pv_prop := prop, pv_areaId := 0, pv_timestamp := now,
                               pv_status := STATUS_AVAILABLE,
                               pv_value := (pv_value req)\<lparr>int32Values := vec\<rparr>\<rparr>), d), h1) })"

definition createApPowerStateReq ::
  "'j HalEnv \<Rightarrow> i32 \<Rightarrow> i32 \<Rightarrow> EmulatedVehicleHal \<Rightarrow> (recyclable_ptr \<times> EmulatedVehicleHal) option" where
  "createApPowerStateReq env state param h = make_int32_event env AP_POWER_STATE_REQ [state, param] h"

definition createHwInputKeyProp ::
  "'j HalEnv \<Rightarrow> i32 \<Rightarrow> i32 \<Rightarrow> i32 \<Rightarrow> EmulatedVehicleHal \<Rightarrow> (recyclable_ptr \<times> EmulatedVehicleHal) option" where
  "createHwInputKeyProp env action keyCode targetDisplay h =
     make_int32_event env HW_KEY_INPUT [action, keyCode, targetDisplay] h"

abbreviation "ACTION_DOWN \<equiv> 0 :: i32"
abbreviation "ACTION_UP \<equiv> 1 :: i32"

subsection \<open>Fake data requests\<close>

definition register_generator ::
  "'j HalEnv \<Rightarrow> i32 \<Rightarrow> FakeValueGenerator \<Rightarrow> EmulatedVehicleHal \<Rightarrow> EmulatedVehicleHal option" where
  "register_generator env cookie g h =
     (let (now, h1) = read_clock env h in
      map_option (\<lambda>hub. h1\<lparr>eh_generatorHub := hub\<rparr>)
        (registerGenerator (env_fresh env) now cookie g (eh_generatorHub h1)))"

definition unregister_generator :: "i32 \<Rightarrow> EmulatedVehicleHal \<Rightarrow> EmulatedVehicleHal" where
  "unregister_generator cookie h =
     h\<lparr>eh_generatorHub := unregisterGenerator cookie (eh_generatorHub h)\<rparr>"

definition handleGenerateFakeDataRequest ::
  "'j HalEnv \<Rightarrow> VehiclePropValue \<Rightarrow> EmulatedVehicleHal \<Rightarrow> (StatusCode \<times> EmulatedVehicleHal) option" where
  "handleGenerateFakeDataRequest env request h =
     (let v = pv_value request in
      case int32Values v of
        [] \<Rightarrow> Some (INVALID_ARG, h)
      | command # _ \<Rightarrow>
          (case to_FakeDataCommand command of
             StartLinear \<Rightarrow>
               if length (int32Values v) < 2 then Some (INVALID_ARG, h)
               else if length (int64Values v) = 0 then Some (INVALID_ARG, h)
               else if length (floatValues v) < 3 then Some (INVALID_ARG, h)
               else do { generator \<leftarrow> new_linear request;
                         h1 \<leftarrow> register_generator env (int32Values v ! 1) (Linear generator) h;
                         Some (OK, h1) }
           | StartJson \<Rightarrow>
               if stringValue v = [] then Some (INVALID_ARG, h)
               else do { events \<leftarrow> parseFakeValueJson (env_json env) (env_parseFile env (stringValue v));
                         h1 \<leftarrow> register_generator env (wrap32 (env_hash env (stringValue v)))
                                 (Json (new_json request events)) h;
                         Some (OK, h1) }
           | StopLinear \<Rightarrow>
               if length (int32Values v) < 2 then Some (INVALID_ARG, h)
               else Some (OK, unregister_generator (int32Values v ! 1) h)
           | StopJson \<Rightarrow>
               if stringValue v = [] then Some (INVALID_ARG, h)
               else Some (OK, unregister_generator (wrap32 (env_hash env (stringValue v))) h)
           | KeyPress \<Rightarrow>
               do { keyCode \<leftarrow> vec_at (int32Values v) 2;
                    display \<leftarrow> vec_at (int32Values v) 3;
                    (down, h1) \<leftarrow> createHwInputKeyProp env ACTION_DOWN keyCode display h;
                    (up, h2) \<leftarrow> createHwInputKeyProp env ACTION_UP keyCode display (doHalEvent down h1);
                    Some (OK, doHalEvent up h2) }
           | UnknownCommand _ \<Rightarrow> Some (INVALID_ARG, h)))"

subsection \<open>Writing\<close>

text \<open>The loop over the timestamps removes frames until one is not there.\<close>

fun clear_frames :: "i64 list \<Rightarrow> VehiclePropertyStore \<Rightarrow> StatusCode \<times> VehiclePropertyStore" where
  "clear_frames [] s = (OK, s)"
| "clear_frames (timestamp # timestamps) s =
     (case readValueOrNull_at s OBD2_FREEZE_FRAME 0 timestamp of
        None \<Rightarrow> (INVALID_ARG, s)
      | Some freezeFrame \<Rightarrow> clear_frames timestamps (removeValue freezeFrame s))"

definition clearObd2FreezeFrames ::
  "VehiclePropValue \<Rightarrow> VehiclePropertyStore \<Rightarrow> StatusCode \<times> VehiclePropertyStore" where
  "clearObd2FreezeFrames propValue s =
     (if length (int64Values (pv_value propValue)) = 0
      then (OK, removeValuesForProperty OBD2_FREEZE_FRAME s)
      else clear_frames (int64Values (pv_value propValue)) s)"

abbreviation "REPORT_DEEP_SLEEP_ENTRY \<equiv> 2 :: i32"
abbreviation "REPORT_DEEP_SLEEP_EXIT \<equiv> 3 :: i32"
abbreviation "REPORT_SHUTDOWN_START \<equiv> 5 :: i32"
abbreviation "REPORT_SHUTDOWN_CANCELLED \<equiv> 8 :: i32"
abbreviation "REQ_ON \<equiv> 0 :: i32"
abbreviation "REQ_FINISHED \<equiv> 3 :: i32"

definition handle_power_report ::
  "'j HalEnv \<Rightarrow> VehiclePropValue \<Rightarrow> EmulatedVehicleHal \<Rightarrow> EmulatedVehicleHal option" where
  "handle_power_report env propValue h =
     do { report \<leftarrow> vec_at (int32Values (pv_value propValue)) 0;
          (if report = REPORT_DEEP_SLEEP_EXIT \<or> report = REPORT_SHUTDOWN_CANCELLED \<or>
              report = VehicleApPowerStateReport_WAIT_FOR_VHAL
           then do { (req, h1) \<leftarrow> createApPowerStateReq env REQ_ON 0 h; Some (doHalEvent req h1) }
           else if report = REPORT_DEEP_SLEEP_ENTRY \<or> report = REPORT_SHUTDOWN_START
           then do { (req, h1) \<leftarrow> createApPowerStateReq env REQ_FINISHED 0 h; Some (doHalEvent req h1) }
           else Some h) }"

definition HVAC_POWER_AREA :: i32 where
  "HVAC_POWER_AREA = 0x1 OR 0x4 OR 0x10 OR 0x20 OR 0x40"

definition hvac_off :: "EmulatedVehicleHal \<Rightarrow> bool" where
  "hvac_off h \<longleftrightarrow>
     (case readValueOrNull_at (eh_propStore h) HVAC_POWER_ON HVAC_POWER_AREA 0 of
        None \<Rightarrow> False
      | Some hvacPowerOn \<Rightarrow>
          length (int32Values (pv_value hvacPowerOn)) = 1 \<and> int32Values (pv_value hvacPowerOn) ! 0 = 0)"

text \<open>The property specific part of \<open>set\<close>: \<open>Some status\<close> is an early return.\<close>

definition set_specific ::
  "'j HalEnv \<Rightarrow> VehiclePropValue \<Rightarrow> EmulatedVehicleHal \<Rightarrow> (StatusCode option \<times> EmulatedVehicleHal) option" where
  "set_specific env propValue h =
     (if pv_prop propValue = kGenerateFakeDataControllingProperty then
        do { (status, h1) \<leftarrow> handleGenerateFakeDataRequest env propValue h;
             Some (if status \<noteq> OK then Some status else None, h1) }
      else if pv_prop propValue \<in> set (eh_hvacPowerProps h) then
        Some (if hvac_off h then Some NOT_AVAILABLE else None, h)
      else if pv_prop propValue = OBD2_FREEZE_FRAME_CLEAR then
        let (status, s) = clearObd2FreezeFrames propValue (eh_propStore h)
        in Some (Some status, h\<lparr>eh_propStore := s\<rparr>)
      else if pv_prop propValue = VEHICLE_MAP_SERVICE then Some (Some OK, h)
      else if pv_prop propValue = AP_POWER_STATE_REPORT then
        do { h1 \<leftarrow> handle_power_report env propValue h; Some (None, h1) }
      else Some (None, h))"

text \<open>The end of \<open>set\<close>, from the write on.\<close>

definition set_tail ::
  "'j HalEnv \<Rightarrow> VehiclePropValue \<Rightarrow> EmulatedVehicleHal \<Rightarrow> (StatusCode \<times> EmulatedVehicleHal) option" where
  "set_tail env v h =
     (let (written, h2) = write_store v False h in
      if \<not> written then Some (INVALID_ARG, h2)
      else if \<not> eh_emulator h2 then None
      else
        let h3 = h2\<lparr>eh_sent := eh_sent h2 @ [v]\<rparr> in
        if eh_inEmulator h3 \<and> pv_prop v = DISPLAY_BRIGHTNESS then Some (OK, h3)
        else do { (p, h4) \<leftarrow> pool_obtain env v h3; Some (OK, doHalEvent p h4) })"

definition eh_set ::
  "'j HalEnv \<Rightarrow> VehiclePropValue \<Rightarrow> EmulatedVehicleHal \<Rightarrow> (StatusCode \<times> EmulatedVehicleHal) option" where
  "eh_set env v h =
     do { (early, h1) \<leftarrow> set_specific env v h;
          (case early of
             Some status \<Rightarrow> Some (status, h1)
           | None \<Rightarrow>
               if pv_status v \<noteq> STATUS_AVAILABLE then Some (INVALID_ARG, h1)
               else
                 (case readValueOrNull (eh_propStore h1) v of
                    None \<Rightarrow> Some (INVALID_ARG, h1)
                  | Some cur \<Rightarrow>
                      if pv_status cur \<noteq> STATUS_AVAILABLE then Some (NOT_AVAILABLE, h1) else set_tail env v h1)) }"

definition setPropertyFromVehicle ::
  "'j HalEnv \<Rightarrow> VehiclePropValue \<Rightarrow> EmulatedVehicleHal \<Rightarrow> (bool \<times> EmulatedVehicleHal) option" where
  "setPropertyFromVehicle env propValue h =
     do { (status, h1) \<leftarrow> (if pv_prop propValue = kGenerateFakeDataControllingProperty
                           then handleGenerateFakeDataRequest env propValue h else Some (OK, h));
          (if status \<noteq> OK then Some (False, h1)
           else
             let (written, h2) = write_store propValue True h1 in
             if written then do { (v, h3) \<leftarrow> pool_obtain env propValue h2; Some (True, doHalEvent v h3) }
             else Some (False, h2)) }"

subsection \<open>Subscriptions and timers\<close>

definition isContinuousProperty :: "i32 \<Rightarrow> EmulatedVehicleHal \<Rightarrow> bool" where
  "isContinuousProperty propId h =
     (case getConfigOrNull (eh_propStore h) propId of
        None \<Rightarrow> False
      | Some cfg \<Rightarrow> pc_changeMode cfg = CONTINUOUS)"

definition hertzToNanoseconds :: "f32 \<Rightarrow> i64 option" where
  "hertzToNanoseconds hz = f32_to_i64 (f32_div (f32_of_int 1000000000) hz)"

text \<open>Registering takes a remainder by the interval: an interval of zero is undefined.\<close>

definition eh_subscribe ::
  "'j HalEnv \<Rightarrow> i32 \<Rightarrow> f32 \<Rightarrow> EmulatedVehicleHal \<Rightarrow> (StatusCode \<times> EmulatedVehicleHal) option" where
  "eh_subscribe env property sampleRate h =
     (if isContinuousProperty property h then
        do { interval \<leftarrow> hertzToNanoseconds sampleRate;
             let (now, h1) = read_clock env h in
             if interval = 0 then None
             else Some (OK, h1\<lparr>eh_recurrentTimer :=
                              registerRecurrentEvent now interval property (eh_recurrentTimer h1)\<rparr>) }
      else Some (OK, h))"

definition eh_unsubscribe :: "i32 \<Rightarrow> EmulatedVehicleHal \<Rightarrow> StatusCode \<times> EmulatedVehicleHal" where
  "eh_unsubscribe property h =
     (if isContinuousProperty property h
      then (OK, h\<lparr>eh_recurrentTimer := unregisterRecurrentEvent property (eh_recurrentTimer h)\<rparr>)
      else (OK, h))"

text \<open>\<open>v\<close> is null at the start of every turn: \<open>doHalEvent(std::move(v))\<close> takes what a turn obtained.\<close>

definition timer_turn :: "'j HalEnv \<Rightarrow> i32 \<Rightarrow> EmulatedVehicleHal \<Rightarrow> EmulatedVehicleHal option" where
  "timer_turn env property h =
     do { (v, h1) \<leftarrow> (if isContinuousProperty property h
                      then (case readValueOrNull_at (eh_propStore h) property 0 0 of
                              None \<Rightarrow> Some ((None, Dispose), h)
                            | Some internalPropValue \<Rightarrow> pool_obtain env internalPropValue h)
                      else Some ((None, Dispose), h));
          (case v of
             (None, _) \<Rightarrow> Some h1
           | (Some val, d) \<Rightarrow>
               let (now, h2) = read_clock env h1
               in Some (doHalEvent (Some (val\<lparr>pv_timestamp := now\<rparr>), d) h2)) }"

fun onContinuousPropertyTimer ::
  "'j HalEnv \<Rightarrow> i32 list \<Rightarrow> EmulatedVehicleHal \<Rightarrow> EmulatedVehicleHal option" where
  "onContinuousPropertyTimer env [] h = Some h"
| "onContinuousPropertyTimer env (property # properties) h =
     do { h1 \<leftarrow> timer_turn env property h; onContinuousPropertyTimer env properties h1 }"

definition onFakeValueGenerated ::
  "'j HalEnv \<Rightarrow> VehiclePropValue \<Rightarrow> EmulatedVehicleHal \<Rightarrow> EmulatedVehicleHal option" where
  "onFakeValueGenerated env val h =
     do { (p, h1) \<leftarrow> pool_obtain env val h;
          (case p of
             (None, _) \<Rightarrow> Some h1
           | (Some v, d) \<Rightarrow>
               let (now, h2) = read_clock env h1;
                   updatedPropValue = v\<lparr>pv_timestamp := now, pv_status := STATUS_AVAILABLE\<rparr>;
                   (_, h3) = write_store updatedPropValue False h2
               in case getConfigOrDie (eh_propStore h3) (pv_prop val) of
                    Inl _ \<Rightarrow> None
                  | Inr cfg \<Rightarrow>
                      if ON_CHANGE = pc_changeMode cfg then Some (doHalEvent (Some updatedPropValue, d) h3)
                      else Some (release_ptr (Some updatedPropValue, d) h3)) }"

subsection \<open>Invariant\<close>

definition eh_inv :: "EmulatedVehicleHal \<Rightarrow> bool" where
  "eh_inv h \<longleftrightarrow> store_inv (eh_propStore h) \<and> pool_inv (eh_valuePool h) \<and> hub_inv (eh_generatorHub h)"

text \<open>Ids of a type the pool has objects for.\<close>

definition known_prop :: "i32 \<Rightarrow> bool" where
  "known_prop p \<longleftrightarrow> p \<noteq> 0 \<and> getPropType p \<in> {TYPE_STRING, TYPE_BOOLEAN, TYPE_INT32, TYPE_INT32_VEC,
     TYPE_INT64, TYPE_INT64_VEC, TYPE_FLOAT, TYPE_FLOAT_VEC, TYPE_BYTES, TYPE_MIXED}"

lemma pool_obtain_copies:
  assumes "eh_inv h" "known_prop (pv_prop v)"
  obtains d pool where "pool_obtain env v h = Some ((Some v, d), h\<lparr>eh_valuePool := pool\<rparr>)" "pool_inv pool"
proof -
  from assms have "createVehiclePropValue (env_fresh env) (getPropType (pv_prop v)) 0 \<noteq> None" "pv_prop v \<noteq> 0"
    unfolding createVehiclePropValue_known by (simp_all add: known_prop_def)
  with obtain_src_copies [of "eh_valuePool h" v "env_fresh env"] assms(1) obtain d pool where
    "obtain_src (env_fresh env) v (eh_valuePool h) = Inr ((Some v, d), pool)" "pool_inv pool"
    by (metis eh_inv_def)
  with that show ?thesis by (simp add: pool_obtain_def)
qed

lemma pool_obtain_state:
  "pool_obtain env v h = Some (ptr, h') \<Longrightarrow>
   h' = h\<lparr>eh_valuePool := eh_valuePool h'\<rparr> \<and> (pool_inv (eh_valuePool h) \<longrightarrow> pool_inv (eh_valuePool h'))"
  by (auto simp: pool_obtain_def dest: obtain_src_inv split: sum.splits)

lemma eh_inv_pool_obtain [keeps_inv]:
  "eh_inv h \<Longrightarrow> pool_obtain env v h = Some (ptr, h') \<Longrightarrow> eh_inv h'"
  using pool_obtain_state [of env v h ptr h'] by (cases h') (auto simp: eh_inv_def)

lemma write_store_eq:
  "write_store v u h = (fst (writeValue v u (eh_propStore h)),
     h\<lparr>eh_propStore := snd (writeValue v u (eh_propStore h))\<rparr>)"
  by (simp add: write_store_def Let_def case_prod_unfold)

lemma eh_inv_write_store [keeps_inv]: "eh_inv h \<Longrightarrow> eh_inv (snd (write_store v u h))"
  using store_inv_write [of "eh_propStore h" v u] by (simp add: eh_inv_def write_store_eq)

lemma eh_inv_updates [simp]:
  "eh_inv (doHalEvent p h) \<longleftrightarrow> eh_inv h" "eh_inv (h\<lparr>eh_sent := x\<rparr>) \<longleftrightarrow> eh_inv h"
  "eh_inv (h\<lparr>eh_tick := n\<rparr>) \<longleftrightarrow> eh_inv h" "eh_inv (h\<lparr>eh_inEmulator := b\<rparr>) \<longleftrightarrow> eh_inv h"
  "eh_inv (h\<lparr>eh_recurrentTimer := t\<rparr>) \<longleftrightarrow> eh_inv h"
  by (simp_all add: eh_inv_def doHalEvent_def)

lemma obtain_sized_inv:
  assumes "pool_inv pool" "obtain_sized fresh TYPE_INT32_VEC n pool = ((ptr, d), pool')"
  shows "pool_inv pool' \<and> (\<exists>v. ptr = Some v \<and> length (int32Values (pv_value v)) = n)"
proof -
  have low: "low16_clear TYPE_INT32_VEC" by (simp add: low16_clear_def)
  have "createVehiclePropValue fresh TYPE_INT32_VEC n \<noteq> None" unfolding createVehiclePropValue_known by simp
  with obtain_sized_shape [OF assms(1) low assms(2)] show ?thesis
    by (auto simp: has_shape_def check_def check_vec_def is_int32_type_def)
qed

lemma vec_sets_all: "length pre + length xs = length vec \<Longrightarrow> take (length pre) vec = pre \<Longrightarrow>
   vec_sets (length pre) xs vec = Some (pre @ xs)"
proof (induction xs arbitrary: pre vec)
  case (Cons x xs)
  have "take (Suc (length pre)) (vec[length pre := x]) = pre @ [x]"
    using Cons.prems by (simp add: take_Suc_conv_app_nth take_update_swap)
  with Cons.IH [of "pre @ [x]" "vec[length pre := x]"] Cons.prems
  show ?case by (simp add: vec_set_def)
qed simp

text \<open>An event made up by the HAL carries exactly its elements and the next clock reading.\<close>

lemma make_int32_event_result:
  assumes "eh_inv h"
  obtains d v pool where
    "make_int32_event env prop xs h =
       Some ((Some v, d), h\<lparr>eh_valuePool := pool, eh_tick := eh_tick h + 1\<rparr>)" "pool_inv pool"
    "pv_prop v = prop" "pv_areaId v = 0" "pv_timestamp v = env_clock env (eh_tick h)"
    "pv_status v = STATUS_AVAILABLE" "int32Values (pv_value v) = xs"
proof -
  obtain pd pool where "obtain_sized (env_fresh env) TYPE_INT32_VEC (length xs) (eh_valuePool h) = (pd, pool)"
    by (cases "obtain_sized (env_fresh env) TYPE_INT32_VEC (length xs) (eh_valuePool h)")
  moreover obtain ptr d where "pd = (ptr, d)" by (cases pd)
  ultimately have r: "obtain_sized (env_fresh env) TYPE_INT32_VEC (length xs) (eh_valuePool h) = ((ptr, d), pool)"
    by simp
  have "pool_inv (eh_valuePool h)" using assms by (simp add: eh_inv_def)
  from obtain_sized_inv [OF this r] obtain v where v: "ptr = Some v"
      "length (int32Values (pv_value v)) = length xs" "pool_inv pool" by blast
  have "vec_sets 0 xs (int32Values (pv_value v)) = Some xs"
    using vec_sets_all [of "[]" xs] v(2) by simp
  then have "make_int32_event env prop xs h =
      Some ((Some (v\<lparr>pv_prop := prop, pv_areaId := 0, pv_timestamp := env_clock env (eh_tick h),
                     pv_status := STATUS_AVAILABLE, pv_value := (pv_value v)\<lparr>int32Values := xs\<rparr>\<rparr>), d),
            h\<lparr>eh_valuePool := pool, eh_tick := eh_tick h + 1\<rparr>)"
    using v r by (simp add: make_int32_event_def read_clock_def)
  from that [OF this v(3)] show ?thesis by simp
qed

lemma eh_inv_release [keeps_inv]: "eh_inv h \<Longrightarrow> eh_inv (release_ptr p h)"
  by (simp add: eh_inv_def release_ptr_def release_inv)

lemma eh_inv_read_clock [keeps_inv]: "eh_inv h \<Longrightarrow> eh_inv (snd (read_clock env h))"
  by (simp add: read_clock_def)

lemma eh_inv_store [simp]:
  "eh_inv h \<Longrightarrow> store_inv s \<Longrightarrow> eh_inv (h\<lparr>eh_propStore := s\<rparr>)"
  by (simp add: eh_inv_def)

text \<open>What every operation keeps: the invariant, the registered properties, the emulator.\<close>

definition kept :: "EmulatedVehicleHal \<Rightarrow> EmulatedVehicleHal \<Rightarrow> bool" where
  "kept h h' \<longleftrightarrow> eh_inv h' \<and> ps_configs (eh_propStore h') = ps_configs (eh_propStore h) \<and>
     eh_emulator h' = eh_emulator h \<and> eh_hvacPowerProps h' = eh_hvacPowerProps h"

lemma kept_refl: "eh_inv h \<Longrightarrow> kept h h"
  by (simp add: kept_def)

lemma kept_trans [trans]: "kept h h1 \<Longrightarrow> kept h1 h2 \<Longrightarrow> kept h h2"
  by (simp add: kept_def)

lemma kept_inv: "kept h h' \<Longrightarrow> eh_inv h'"
  by (simp add: kept_def)

lemma kept_updates [simp]:
  "kept h (doHalEvent p h') \<longleftrightarrow> kept h h'" "kept h (h'\<lparr>eh_sent := x\<rparr>) \<longleftrightarrow> kept h h'"
  "kept h (h'\<lparr>eh_tick := n\<rparr>) \<longleftrightarrow> kept h h'" "kept h (h'\<lparr>eh_recurrentTimer := t\<rparr>) \<longleftrightarrow> kept h h'"
  by (simp_all add: kept_def) (simp_all add: doHalEvent_def)

lemma kept_pool: "eh_inv h \<Longrightarrow> pool_inv pool \<Longrightarrow> kept h (h\<lparr>eh_valuePool := pool\<rparr>)"
  by (simp add: kept_def eh_inv_def)

lemma kept_pool_obtain: "eh_inv h \<Longrightarrow> pool_obtain env v h = Some (p, h') \<Longrightarrow> kept h h'"
  using pool_obtain_state [of env v h p h'] kept_pool [of h "eh_valuePool h'"] by (simp add: eh_inv_def)

lemma kept_write: "eh_inv h \<Longrightarrow> kept h (snd (write_store v u h))"
  using eh_inv_write_store [of h v u] by (simp add: kept_def) (simp add: write_store_eq)

lemma kept_release: "eh_inv h \<Longrightarrow> kept h (release_ptr p h)"
  using eh_inv_release [of h p] by (simp add: kept_def) (simp add: release_ptr_def)

lemma kept_store: "eh_inv h \<Longrightarrow> store_inv s \<Longrightarrow> ps_configs s = ps_configs (eh_propStore h) \<Longrightarrow>
   kept h (h\<lparr>eh_propStore := s\<rparr>)"
  by (simp add: kept_def)

lemma kept_make_event:
  assumes "eh_inv h" "make_int32_event env prop xs h = Some (p, h')"
  shows "kept h h'"
proof -
  obtain d v pool where "make_int32_event env prop xs h =
      Some ((Some v, d), h\<lparr>eh_valuePool := pool, eh_tick := eh_tick h + 1\<rparr>)" "pool_inv pool"
    by (rule make_int32_event_result [OF assms(1)])
  with assms show ?thesis by (auto simp: kept_pool)
qed

lemma kept_register_generator:
  "eh_inv h \<Longrightarrow> register_generator env c g h = Some h' \<Longrightarrow> kept h h'"
  by (auto simp: register_generator_def read_clock_def eh_inv_def kept_def intro: hub_inv_register)

lemma kept_unregister_generator: "eh_inv h \<Longrightarrow> kept h (unregister_generator c h)"
  by (simp add: unregister_generator_def eh_inv_def kept_def hub_inv_unregister)

lemma kept_fake_request:
  assumes "eh_inv h" "handleGenerateFakeDataRequest env v h = Some (status, h')"
  shows "kept h h'"
proof (cases "int32Values (pv_value v)")
  case (Cons command rest)
  note unf = handleGenerateFakeDataRequest_def Let_def Cons bind_eq_Some_conv
  show ?thesis
  proof (cases "to_FakeDataCommand command")
    case KeyPress
    with assms obtain k d down h1 up h2 where
      "make_int32_event env HW_KEY_INPUT [ACTION_DOWN, k, d] h = Some (down, h1)"
      "make_int32_event env HW_KEY_INPUT [ACTION_UP, k, d] (doHalEvent down h1) = Some (up, h2)"
      "h' = doHalEvent up h2"
      by (auto simp: unf createHwInputKeyProp_def)
    then show ?thesis
      using kept_make_event [OF assms(1)] kept_make_event kept_trans kept_inv kept_updates(1) by meson
  qed (use assms kept_register_generator kept_unregister_generator in
      \<open>auto simp: unf kept_refl split: if_splits\<close>)
qed (use assms in \<open>simp add: handleGenerateFakeDataRequest_def Let_def kept_refl\<close>)

lemma clear_frames_inv:
  "store_inv s \<Longrightarrow> clear_frames ts s = (status, s') \<Longrightarrow> store_inv s' \<and> ps_configs s' = ps_configs s"
  by (induction ts s rule: clear_frames.induct) (auto simp: store_inv_remove split: option.splits)

lemma freeze_frame_id: "in_i32 OBD2_FREEZE_FRAME" "OBD2_FREEZE_FRAME < INT32_MAX"
    "isGlobalProp OBD2_FREEZE_FRAME" "isGlobalProp (OBD2_FREEZE_FRAME + 1)"
  by (simp_all add: OBD2_FREEZE_FRAME_def in_i32_def isGlobalProp_def getPropArea_def)

lemma store_inv_filter:
  assumes "store_inv s"
  shows "store_inv (s\<lparr>ps_values := filter P (ps_values s)\<rparr>)"
proof -
  have "map_of (ps_values s) r = Some v" if "map_of (filter P (ps_values s)) r = Some v" for r v
    using map_of_mem [OF store_inv_values [OF assms]] map_of_SomeD [OF that] by simp
  then have "map_of (ps_configs s) (pv_prop v) \<noteq> None \<and> getRecordIdLocked s v = r"
    if "map_of (filter P (ps_values s)) r = Some v" for r v
    using store_inv_record [OF assms] that by blast
  with assms show ?thesis
    unfolding store_inv_def by (simp add: store_inv_def)
qed

lemma remove_range_inv:
  assumes "store_inv s" "in_i32 p" "p < INT32_MAX"
  shows "store_inv (removeValuesForProperty p s) \<and> ps_configs (removeValuesForProperty p s) = ps_configs s"
  using assms store_inv_filter [OF assms(1)]
  by (simp add: removeValuesForProperty_def findRangeLocked_def map_erase_range_filter store_inv_values
      prop_range_le)

lemma kept_clear:
  "eh_inv h \<Longrightarrow> clearObd2FreezeFrames v (eh_propStore h) = (status, s) \<Longrightarrow> kept h (h\<lparr>eh_propStore := s\<rparr>)"
  using remove_range_inv [OF _ freeze_frame_id(1,2)] clear_frames_inv
  by (auto simp: clearObd2FreezeFrames_def eh_inv_def intro!: kept_store split: if_splits)

lemma kept_power_report:
  assumes "eh_inv h" "handle_power_report env v h = Some h'"
  shows "kept h h'"
  using assms kept_make_event [OF assms(1)]
  by (auto simp: handle_power_report_def createApPowerStateReq_def bind_eq_Some_conv kept_refl
      split: if_splits)

lemma kept_set_specific:
  assumes "eh_inv h" "set_specific env v h = Some (r, h')"
  shows "kept h h'"
proof -
  consider status where "handleGenerateFakeDataRequest env v h = Some (status, h')"
    | "handle_power_report env v h = Some h'" | "h' = h"
    | "h' = h\<lparr>eh_propStore := snd (clearObd2FreezeFrames v (eh_propStore h))\<rparr>"
    using assms(2)
    by (auto simp: set_specific_def bind_eq_Some_conv Let_def case_prod_unfold split: if_splits)
  then show ?thesis
  proof cases
    case 4
    then show ?thesis using kept_clear [OF assms(1)] by (metis prod.collapse)
  qed (auto intro: kept_fake_request kept_power_report kept_refl assms(1))
qed

lemma kept_set_tail:
  assumes "eh_inv h" "set_tail env v h = Some (status, h')"
  shows "kept h h'"
proof -
  let ?h2 = "snd (write_store v False h)"
  let ?h3 = "?h2\<lparr>eh_sent := eh_sent ?h2 @ [v]\<rparr>"
  have k: "kept h ?h3" using kept_write [OF assms(1), of v False] by simp
  consider "h' = ?h2" | "h' = ?h3" | p h4 where "pool_obtain env v ?h3 = Some (p, h4)" "h' = doHalEvent p h4"
    using assms(2)
    by (auto simp: set_tail_def Let_def case_prod_unfold bind_eq_Some_conv split: if_splits)
  then show ?thesis
  proof cases
    case (3 p h4)
    then show ?thesis using kept_trans [OF k kept_pool_obtain [OF kept_inv [OF k] 3(1)]] by simp
  qed (use k kept_write [OF assms(1)] in simp_all)
qed

lemma kept_set:
  assumes "eh_inv h" "eh_set env v h = Some (status, h')"
  shows "kept h h'"
proof -
  from assms obtain early h1 where h1: "set_specific env v h = Some (early, h1)"
    by (auto simp: eh_set_def bind_eq_Some_conv)
  note k = kept_set_specific [OF assms(1) h1]
  from assms(2) h1 have "h' = h1 \<or> set_tail env v h1 = Some (status, h')"
    by (auto simp: eh_set_def split: option.splits if_splits)
  then show ?thesis using k kept_trans [OF k kept_set_tail [OF kept_inv [OF k]]] by blast
qed

lemma kept_get:
  assumes "eh_inv h" "eh_get env v h = Some (r, h')"
  shows "kept h h' \<and> eh_propStore h' = eh_propStore h"
proof -
  have c: "kept h h1 \<and> eh_propStore h1 = eh_propStore h" if "get_complex env fill h = Some (r1, h1)" for fill r1 h1
  proof -
    from that have h1: "h1 = h\<lparr>eh_valuePool := snd (obtainComplex (env_fresh env) (eh_valuePool h))\<rparr>"
      by (auto simp: get_complex_def Let_def case_prod_unfold split: option.splits prod.splits)
    have "obtainComplex (env_fresh env) (eh_valuePool h) = (obtainDisposable (env_fresh env) TYPE_MIXED 1, eh_valuePool h)"
      by (simp add: obtainComplex_def obtain_type_def obtain_sized_def isDisposable_def)
    with h1 show ?thesis by (simp add: kept_refl assms(1))
  qed
  have p: "kept h h1 \<and> eh_propStore h1 = eh_propStore h" if "pool_obtain env x h = Some (q, h1)" for x q h1
    using kept_pool_obtain [OF assms(1) that] pool_obtain_state [OF that] by (cases h1) simp
  show ?thesis
    using assms c p
    by (auto simp: eh_get_def Let_def bind_eq_Some_conv kept_refl split: if_splits option.splits)
qed

lemma kept_write_then_event:
  assumes "eh_inv h" "pool_obtain env v (snd (write_store v u h)) = Some (p, h')"
  shows "kept h (doHalEvent p h')"
  using kept_trans [OF kept_write [OF assms(1)] kept_pool_obtain [OF kept_inv [OF kept_write [OF assms(1)]] assms(2)]]
  by simp

lemma kept_from_vehicle:
  assumes "eh_inv h" "setPropertyFromVehicle env v h = Some (r, h')"
  shows "kept h h'"
proof -
  let ?pre = "if pv_prop v = kGenerateFakeDataControllingProperty
     then handleGenerateFakeDataRequest env v h else Some (OK, h)"
  from assms obtain status h1 where h1: "?pre = Some (status, h1)"
    by (auto simp: setPropertyFromVehicle_def bind_eq_Some_conv)
  have k: "kept h h1"
    using h1 kept_fake_request [OF assms(1)] kept_refl [OF assms(1)] by (auto split: if_splits)
  have "kept h1 h'"
    using assms(2) h1 kept_refl [OF kept_inv [OF k]] kept_write [OF kept_inv [OF k]]
      kept_write_then_event [OF kept_inv [OF k]]
    by (auto simp: setPropertyFromVehicle_def bind_eq_Some_conv Let_def case_prod_unfold
        simp del: kept_updates split: if_splits)
  with k show ?thesis by (rule kept_trans)
qed

lemma kept_subscribe: "eh_inv h \<Longrightarrow> eh_subscribe env p r h = Some (status, h') \<Longrightarrow> kept h h'"
  by (auto simp: eh_subscribe_def bind_eq_Some_conv read_clock_def kept_refl split: if_splits)

lemma kept_unsubscribe: "eh_inv h \<Longrightarrow> kept h (snd (eh_unsubscribe p h))"
  by (simp add: eh_unsubscribe_def kept_refl)

lemma timer_turn_eq:
  "timer_turn env p h =
     (case (if isContinuousProperty p h then readValueOrNull_at (eh_propStore h) p 0 0 else None) of
        None \<Rightarrow> Some h
      | Some v \<Rightarrow>
          (case pool_obtain env v h of
             None \<Rightarrow> None
           | Some ((None, d), h1) \<Rightarrow> Some h1
           | Some ((Some val, d), h1) \<Rightarrow>
               Some (doHalEvent (Some (val\<lparr>pv_timestamp := env_clock env (eh_tick h1)\<rparr>), d)
                 (h1\<lparr>eh_tick := eh_tick h1 + 1\<rparr>))))"
  by (auto simp: timer_turn_def read_clock_def split: option.split)

lemma kept_timer_turn:
  assumes "eh_inv h" "timer_turn env p h = Some h'"
  shows "kept h h'"
proof -
  have "h' = h \<or> (\<exists>v q h1. pool_obtain env v h = Some (q, h1) \<and>
      (h' = h1 \<or> (\<exists>t. h' = doHalEvent t (h1\<lparr>eh_tick := eh_tick h1 + 1\<rparr>))))"
    using assms(2) unfolding timer_turn_eq by (auto split: option.splits prod.splits if_splits) blast+
  then show ?thesis using assms(1) kept_refl kept_pool_obtain by auto
qed

lemma kept_timer: "eh_inv h \<Longrightarrow> onContinuousPropertyTimer env ps h = Some h' \<Longrightarrow> kept h h'"
proof (induction ps arbitrary: h)
  case (Cons p ps)
  then obtain h1 where h1: "timer_turn env p h = Some h1" "onContinuousPropertyTimer env ps h1 = Some h'"
    by (auto simp: bind_eq_Some_conv)
  note k = kept_timer_turn [OF Cons.prems(1) h1(1)]
  from kept_trans [OF k Cons.IH [OF kept_inv [OF k] h1(2)]] show ?case .
qed (simp add: kept_refl)

lemma kept_fake_value:
  assumes "eh_inv h" "onFakeValueGenerated env v h = Some h'"
  shows "kept h h'"
proof -
  from assms obtain q h1 where q: "pool_obtain env v h = Some (q, h1)"
    by (auto simp: onFakeValueGenerated_def bind_eq_Some_conv)
  note k = kept_pool_obtain [OF assms(1) q]
  let ?w = "\<lambda>u. snd (write_store u False (h1\<lparr>eh_tick := eh_tick h1 + 1\<rparr>))"
  have kw: "kept h1 (?w u)" for u
    using kept_write [of "h1\<lparr>eh_tick := eh_tick h1 + 1\<rparr>" u False] kept_inv [OF k] by (simp add: kept_def)
  have "h' = h1 \<or> (\<exists>u p. h' = doHalEvent p (?w u) \<or> h' = release_ptr p (?w u))"
    using assms(2) q
    by (cases q; cases "fst q")
      (auto simp: onFakeValueGenerated_def read_clock_def Let_def case_prod_unfold split: sum.splits if_splits)
  then show ?thesis
    using k kept_trans [OF k kw] kept_trans [OF kept_trans [OF k kw] kept_release [OF kept_inv [OF kw]]]
    by auto
qed

subsection \<open>Runs\<close>

datatype eh_op =
    EhGet VehiclePropValue
  | EhSet VehiclePropValue
  | EhSubscribe i32 f32
  | EhUnsubscribe i32
  | EhFromVehicle VehiclePropValue
  | EhTimer "i32 list"
  | EhFakeValue VehiclePropValue
  | EhRelease recyclable_ptr

text \<open>The state after one call, from whatever thread; \<open>None\<close> once the process is gone.\<close>

fun eh_exec1 :: "'j HalEnv \<Rightarrow> eh_op \<Rightarrow> EmulatedVehicleHal \<Rightarrow> EmulatedVehicleHal option" where
  "eh_exec1 env (EhGet v) h = map_option snd (eh_get env v h)"
| "eh_exec1 env (EhSet v) h = map_option snd (eh_set env v h)"
| "eh_exec1 env (EhSubscribe p r) h = map_option snd (eh_subscribe env p r h)"
| "eh_exec1 env (EhUnsubscribe p) h = Some (snd (eh_unsubscribe p h))"
| "eh_exec1 env (EhFromVehicle v) h = map_option snd (setPropertyFromVehicle env v h)"
| "eh_exec1 env (EhTimer ps) h = onContinuousPropertyTimer env ps h"
| "eh_exec1 env (EhFakeValue v) h = onFakeValueGenerated env v h"
| "eh_exec1 env (EhRelease ptr) h = Some (release_ptr ptr h)"

definition eh_exec :: "'j HalEnv \<Rightarrow> eh_op \<Rightarrow> EmulatedVehicleHal option \<Rightarrow> EmulatedVehicleHal option" where
  "eh_exec env op r = Option.bind r (eh_exec1 env op)"

lemma kept_exec1: "eh_inv h \<Longrightarrow> eh_exec1 env op h = Some h' \<Longrightarrow> kept h h'"
  by (cases op) (auto intro: kept_set kept_subscribe kept_unsubscribe kept_from_vehicle kept_timer
      kept_fake_value kept_release dest: kept_get)

definition eh_ok :: "EmulatedVehicleHal \<Rightarrow> EmulatedVehicleHal option \<Rightarrow> bool" where
  "eh_ok h0 r \<longleftrightarrow> (\<forall>h. r = Some h \<longrightarrow> kept h0 h)"

interpretation emulated: op_system "eh_ok h0" "eh_exec env" for h0 env
  by unfold_locales (auto simp: eh_ok_def eh_exec_def bind_eq_Some_conv
      intro: kept_trans [OF _ kept_exec1 [OF kept_inv]])

lemma kept_run: "eh_inv h \<Longrightarrow> fold (eh_exec env) ops (Some h) = Some h' \<Longrightarrow> kept h h'"
  using emulated.run_inv [of h "Some h" env ops] by (simp add: eh_ok_def kept_refl)

end
