(* ===== verification/HalBehaviour.thy ===== *)
theory HalBehaviour
  imports EmulatedHal FloatBounds
begin

text \<open>
  What the emulated HAL guarantees: the state it is created in, what \<open>set\<close> and \<open>get\<close> do to each other,
  the OBD2 freeze frames, the answers to power reports, the events of continuous properties and of the
  fake value generators.
\<close>

subsection \<open>Creation\<close>

lemma declared_unique:
  assumes "a \<in> set kVehicleProperties" "b \<in> set kVehicleProperties"
    "pc_prop (cd_config a) = pc_prop (cd_config b)"
  shows "a = b"
proof (cases "pc_prop (cd_config a) = INFO_DRIVER_SEAT")
  case True
  have "a \<in> set (declared INFO_DRIVER_SEAT)" "b \<in> set (declared INFO_DRIVER_SEAT)"
    using assms True by (simp_all add: declared_def)
  with declared_twice show ?thesis
    by (auto simp: in_set_conv_nth numeral_2_eq_2 less_Suc_eq)
next
  case False
  from declared_once have "inj_on (\<lambda>d. pc_prop (cd_config d))
      (set (filter (\<lambda>d. pc_prop (cd_config d) \<noteq> INFO_DRIVER_SEAT) kVehicleProperties))"
    by (rule distinct_map [THEN iffD1, THEN conjunct2])
  with assms False show ?thesis by (simp add: inj_on_def)
qed

lemma registered_by_fold:
  "map_of (ps_configs (fold (\<lambda>it s. registerProperty (cd_config it) (f (cd_config it)) s) its s)) p =
     (case map_of (ps_configs s) p of
        Some rc \<Rightarrow> Some rc
      | None \<Rightarrow> map_of (map (\<lambda>it. (pc_prop (cd_config it),
          \<lparr>rc_propConfig = cd_config it, rc_tokenFunction = f (cd_config it)\<rparr>)) its) p)"
proof (induction its arbitrary: s)
  case (Cons it its)
  show ?case
    by (simp add: Cons.IH configs_register split: option.split)
qed (simp split: option.split)

lemma token_of_ok: "token_ok \<lparr>rc_propConfig = c, rc_tokenFunction = token_of d\<rparr>"
    "token_ok \<lparr>rc_propConfig = c, rc_tokenFunction = None\<rparr>"
  by (simp_all add: token_ok_def token_of_def)

lemma store_inv_register_fold:
  "store_inv s \<Longrightarrow> (\<And>c. token_ok \<lparr>rc_propConfig = c, rc_tokenFunction = f c\<rparr>) \<Longrightarrow>
   store_inv (fold (\<lambda>it s. registerProperty (cd_config it) (f (cd_config it)) s) its s)"
  by (induction its arbitrary: s) (auto intro: store_inv_register)

lemma values_register_fold [simp]:
  "ps_values (fold (\<lambda>it s. registerProperty (cd_config it) (f (cd_config it)) s) its s) = ps_values s"
  by (induction its arbitrary: s) (auto simp: registerProperty_def)

definition created :: "VehiclePropValuePool \<Rightarrow> bool \<Rightarrow> EmulatedVehicleHal" where
  "created pool b = new_emulated_hal empty_store pool b True"

lemma created_store:
  "eh_propStore (created pool b) =
     fold (\<lambda>it s. registerProperty (cd_config it) None s) kVehicleProperties
       (fold (\<lambda>it s. registerProperty (cd_config it) (token_of (cd_config it)) s) kVehicleProperties empty_store)"
  by (simp add: created_def new_emulated_hal_def initStaticConfig_def)

lemma map_of_keyed:
  assumes "it \<in> set its" "\<And>d. d \<in> set its \<Longrightarrow> key d = key it \<Longrightarrow> d = it"
  shows "map_of (map (\<lambda>d. (key d, f d)) its) (key it) = Some (f it)"
  using assms by (induction its) (auto, blast)

lemma created_configs:
  assumes "it \<in> set kVehicleProperties"
  shows "map_of (ps_configs (eh_propStore (created pool b))) (pc_prop (cd_config it)) =
    Some \<lparr>rc_propConfig = cd_config it, rc_tokenFunction = token_of (cd_config it)\<rparr>"
proof -
  have "map_of (map (\<lambda>it. (pc_prop (cd_config it),
      \<lparr>rc_propConfig = cd_config it, rc_tokenFunction = token_of (cd_config it)\<rparr>)) kVehicleProperties)
      (pc_prop (cd_config it)) =
    Some \<lparr>rc_propConfig = cd_config it, rc_tokenFunction = token_of (cd_config it)\<rparr>"
    by (rule map_of_keyed [where key = "\<lambda>it. pc_prop (cd_config it)", OF assms declared_unique [OF _ assms]])
  then show ?thesis
    unfolding created_store registered_by_fold [where f = "\<lambda>_. None"] registered_by_fold [where f = token_of]
    by (simp add: empty_store_def)
qed

lemma created_inv:
  assumes "pool_inv pool"
  shows "eh_inv (created pool b)"
proof -
  have "store_inv (eh_propStore (created pool b))"
    unfolding created_store
    by (intro store_inv_register_fold [where f = "\<lambda>_. None"] store_inv_register_fold [where f = token_of]
        store_inv_empty token_of_ok)
  then show ?thesis
    using assms by (simp add: eh_inv_def created_def new_emulated_hal_def hub_inv_def new_hub_def)
qed

lemma created_values: "ps_values (eh_propStore (created pool b)) = []"
  unfolding created_store values_register_fold [where f = "\<lambda>_. None"] values_register_fold [where f = token_of]
  by (simp add: empty_store_def)

subsection \<open>Values written at creation\<close>

text \<open>Writes from the HAL side to identifiers that are free, or that hold the same value, are all found.\<close>

lemma written_values_found:
  assumes "store_inv s" "\<And>v. v \<in> set vs \<Longrightarrow> map_of (ps_configs s) (pv_prop v) \<noteq> None"
    and "\<And>v w. v \<in> set vs \<Longrightarrow> w \<in> set vs \<Longrightarrow> getRecordIdLocked s v = getRecordIdLocked s w \<Longrightarrow> v = w"
    and "\<And>v. v \<in> set vs \<Longrightarrow> readValueOrNull s v \<in> {None, Some v}"
    and "v \<in> set vs"
  shows "readValueOrNull (fold (\<lambda>v s. snd (writeValue v True s)) vs s) v = Some v"
proof -
  have keep: "readValueOrNull (fold (\<lambda>v s. snd (writeValue v True s)) ws t) v = Some v"
    if "readValueOrNull t v = Some v" "set ws \<subseteq> set vs" "ps_configs t = ps_configs s" for ws t
    using that
  proof (induction ws arbitrary: t)
    case (Cons w ws)
    have ids: "getRecordIdLocked t = getRecordIdLocked s" using Cons.prems(3) by (rule getRecordId_configs)
    have "readValueOrNull (snd (writeValue w True t)) v = Some v"
    proof (cases "getRecordIdLocked s w = getRecordIdLocked s v")
      case True
      with assms(3,5) Cons.prems(2) have "w = v" by simp
      with Cons.prems(1) show ?thesis
        by (simp add: readValueOrNull_def db.wr_lookup db.wr_ident updated_record_def)
    qed (use Cons.prems(1) ids in \<open>simp add: readValueOrNull_def db.wr_lookup db.wr_ident\<close>)
    then show ?case using Cons.IH [of "snd (writeValue w True t)"] Cons.prems by simp
  qed simp
  have main: "readValueOrNull (fold (\<lambda>v s. snd (writeValue v True s)) ws t) v = Some v"
    if "v \<in> set ws" "set ws \<subseteq> set vs" "ps_configs t = ps_configs s" "readValueOrNull t v \<in> {None, Some v}" for ws t
    using that
  proof (induction ws arbitrary: t)
    case (Cons w ws)
    have ids: "getRecordIdLocked t = getRecordIdLocked s" using Cons.prems(3) by (rule getRecordId_configs)
    let ?t = "snd (writeValue w True t)"
    show ?case
    proof (cases "w = v")
      case True
      have "readValueOrNull ?t v = Some v"
        using Cons.prems(3,4) True assms(2) [OF assms(5)]
        by (auto simp: readValueOrNull_def db.wr_lookup db.wr_ident updated_record_def)
      then show ?thesis using keep [of ?t ws] Cons.prems by simp
    next
      case False
      with assms(3,5) Cons.prems(2) have "getRecordIdLocked s w \<noteq> getRecordIdLocked s v" by auto
      then have "readValueOrNull ?t v = readValueOrNull t v"
        using ids by (simp add: readValueOrNull_def db.wr_lookup db.wr_ident)
      then show ?thesis using Cons.IH [of ?t] Cons.prems False by simp
    qed
  qed simp
  show ?thesis using main [of vs s] assms(4,5) by simp
qed

lemma store_after_writes:
  "eh_propStore (fold (\<lambda>v h. snd (write_store v True h)) vs h) =
     fold (\<lambda>v s. snd (writeValue v True s)) vs (eh_propStore h)"
  by (induction vs arbitrary: h) (simp_all add: write_store_eq)

lemma kept_writes: "eh_inv h \<Longrightarrow> kept h (fold (\<lambda>v h. snd (write_store v True h)) vs h)"
proof (induction vs arbitrary: h)
  case (Cons v vs)
  note k = kept_write [OF Cons.prems, of v True]
  from kept_trans [OF k Cons.IH [OF kept_inv [OF k]]] show ?case by simp
qed (simp add: kept_refl)

lemma initial_value_in:
  assumes "v \<in> set (initial_values it)"
  shows "pv_prop v = pc_prop (cd_config it)" "v = initial_area_value it (pv_areaId v)"
    "isGlobalProp (pv_prop v) \<longrightarrow> pv_areaId v = 0" "\<not> isDiagnosticProperty (cd_config it)"
  using assms by (auto simp: initial_values_def initial_area_value_def Let_def split: if_splits)

lemma created_ids:
  assumes "it \<in> set kVehicleProperties" "v \<in> set (initial_values it)"
  shows "getRecordIdLocked (eh_propStore (created pool b)) v = RecordId (pv_prop v) (pv_areaId v) 0"
  using created_configs [OF assms(1), of pool b] initial_value_in [OF assms(2)]
  by (simp add: getRecordIdLocked_def record_area_def record_token_def token_of_def isDiagnosticProperty_def)

abbreviation all_initial_values :: "VehiclePropValue list" where
  "all_initial_values \<equiv> concat (map initial_values kVehicleProperties)"

abbreviation with_initial_values :: "VehiclePropValuePool \<Rightarrow> bool \<Rightarrow> EmulatedVehicleHal" where
  "with_initial_values pool b \<equiv> fold (\<lambda>v h. snd (write_store v True h)) all_initial_values (created pool b)"

lemma initial_values_found:
  assumes "pool_inv pool" "it \<in> set kVehicleProperties" "v \<in> set (initial_values it)"
  shows "readValueOrNull (eh_propStore (with_initial_values pool b)) v = Some v"
  unfolding store_after_writes
proof (rule written_values_found)
  let ?s = "eh_propStore (created pool b)"
  show "store_inv ?s" using created_inv [OF assms(1)] by (simp add: eh_inv_def)
  show "v \<in> set all_initial_values" using assms(2,3) by auto
  fix v assume "v \<in> set all_initial_values"
  then obtain it where it: "it \<in> set kVehicleProperties" "v \<in> set (initial_values it)" by auto
  then show "map_of (ps_configs ?s) (pv_prop v) \<noteq> None"
    using created_configs [OF it(1)] initial_value_in(1) [OF it(2)] by simp
  show "readValueOrNull ?s v \<in> {None, Some v}"
    by (simp add: readValueOrNull_def getValueOrNullLocked_def created_values)
  fix w assume "w \<in> set all_initial_values"
  then obtain it' where it': "it' \<in> set kVehicleProperties" "w \<in> set (initial_values it')" by auto
  assume "getRecordIdLocked ?s v = getRecordIdLocked ?s w"
  then have "pv_prop v = pv_prop w" "pv_areaId v = pv_areaId w"
    using created_ids [OF it] created_ids [OF it'] by simp_all
  moreover from this have "it = it'"
    using declared_unique [OF it(1) it'(1)] initial_value_in(1) [OF it(2)] initial_value_in(1) [OF it'(2)] by simp
  ultimately show "v = w"
    using initial_value_in(2) [OF it(2)] initial_value_in(2) [OF it'(2)] by metis
qed

subsection \<open>The OBD2 frames\<close>

lemma default_frame: "fillDefaultObd2Frame 0 0 \<noteq> None"
  by code_simp

lemma obd2_declared:
  "list_ex (\<lambda>d. pc_prop (cd_config d) = OBD2_LIVE_FRAME \<and> pc_configArray (cd_config d) = [0, 0]) kVehicleProperties"
  "list_ex (\<lambda>d. pc_prop (cd_config d) = OBD2_FREEZE_FRAME \<and> pc_configArray (cd_config d) = [0, 0]) kVehicleProperties"
  by code_simp+

lemma config_frame_default: "pc_configArray c = [0, 0] \<Longrightarrow> config_frame c = fillDefaultObd2Frame 0 0"
  by (simp add: config_frame_def to_size_def vec_at_def)

lemma created_obd2:
  assumes "p = OBD2_LIVE_FRAME \<or> p = OBD2_FREEZE_FRAME"
  obtains c where
    "map_of (ps_configs (eh_propStore (created pool b))) p = Some \<lparr>rc_propConfig = c, rc_tokenFunction = token_of c\<rparr>"
    "pc_prop c = p" "config_frame c = fillDefaultObd2Frame 0 0"
proof -
  from assms obd2_declared obtain it where
    "it \<in> set kVehicleProperties" "pc_prop (cd_config it) = p" "pc_configArray (cd_config it) = [0, 0]"
    by (auto simp: list_ex_iff)
  with created_configs [of it pool b] that show ?thesis by (simp add: config_frame_default)
qed

text \<open>A frame written for the HAL keeps every record of another property.\<close>

lemma read_after_other_write:
  assumes "pv_prop v \<noteq> pv_prop w" "map_of (ps_configs s) (pv_prop v) \<noteq> None" "map_of (ps_configs s) (pv_prop w) \<noteq> None"
  shows "readValueOrNull (snd (writeValue w u s)) v = readValueOrNull s v"
  using assms by (auto simp: readValueOrNull_def db.wr_lookup db.wr_ident getRecordIdLocked_def)

lemma initObd2LiveFrame_result:
  assumes "config_frame c \<noteq> None"
  obtains w where "initObd2LiveFrame env c h = Some (snd (write_store w True (h\<lparr>eh_tick := eh_tick h + 1\<rparr>)))"
    "pv_prop w = OBD2_LIVE_FRAME"
proof -
  have "createVehiclePropValue (env_fresh env) TYPE_MIXED 0 \<noteq> None"
    unfolding createVehiclePropValue_known by simp
  with assms that show ?thesis by (auto simp: initObd2LiveFrame_def read_clock_def Let_def)
qed

definition dtc_frame :: "'j HalEnv \<Rightarrow> Obd2SensorStore \<Rightarrow> nat \<Rightarrow> string \<Rightarrow> VehiclePropValue" where
  "dtc_frame env st n dtc = (fillPropValue (env_clock env n) dtc st
     (the (createVehiclePropValue (env_fresh env) TYPE_MIXED 0)))\<lparr>pv_prop := OBD2_FREEZE_FRAME\<rparr>"

lemma dtc_frame_fields [simp]:
  "pv_prop (dtc_frame env st n dtc) = OBD2_FREEZE_FRAME"
  "pv_timestamp (dtc_frame env st n dtc) = env_clock env n"
  "stringValue (pv_value (dtc_frame env st n dtc)) = dtc"
  by (simp_all add: dtc_frame_def fillPropValue_def)

lemma initObd2FreezeFrame_result:
  assumes "config_frame c = Some st"
  shows "\<exists>h'. initObd2FreezeFrame env c h = Some h' \<and>
    eh_propStore h' = snd (writeValue (dtc_frame env st (eh_tick h + 1) (''P0102'' @ ''P0123'')) True
      (snd (writeValue (dtc_frame env st (eh_tick h) ''P0070'') True (eh_propStore h))))"
proof -
  have "createVehiclePropValue (env_fresh env) TYPE_MIXED 0 \<noteq> None"
    unfolding createVehiclePropValue_known by simp
  then obtain f where "createVehiclePropValue (env_fresh env) TYPE_MIXED 0 = Some f" by auto
  with assms show ?thesis
    by (simp add: initObd2FreezeFrame_def sampleDtcs_def read_clock_def Let_def write_store_eq dtc_frame_def)
qed

lemma freeze_ids:
  assumes "map_of (ps_configs s) OBD2_FREEZE_FRAME = Some rc" "rc_tokenFunction rc = Some pv_timestamp"
    and "pv_prop v = OBD2_FREEZE_FRAME"
  shows "getRecordIdLocked s v = RecordId OBD2_FREEZE_FRAME 0 (pv_timestamp v)"
  using assms freeze_frame_id by (simp add: getRecordIdLocked_def record_area_def record_token_def)

definition freeze_registered :: "VehiclePropertyStore \<Rightarrow> bool" where
  "freeze_registered s \<longleftrightarrow> (\<exists>rc. map_of (ps_configs s) OBD2_FREEZE_FRAME = Some rc \<and> rc_tokenFunction rc = Some pv_timestamp)"

lemma freeze_registered_ids:
  assumes "freeze_registered s" "pv_prop v = OBD2_FREEZE_FRAME"
  shows "getRecordIdLocked s v = RecordId OBD2_FREEZE_FRAME 0 (pv_timestamp v)"
  using assms freeze_ids by (auto simp: freeze_registered_def)

text \<open>The range of the freeze frames needs no assumption on areas: both bounding properties are global.\<close>

lemma freeze_range:
  assumes "store_inv s" "q \<in> set (ps_values s)"
  shows "(RecordId OBD2_FREEZE_FRAME INT32_MIN 0 \<le> fst q \<and>
          fst q < RecordId (wrap32 (OBD2_FREEZE_FRAME + 1)) INT32_MIN 0) \<longleftrightarrow> ri_prop (fst q) = OBD2_FREEZE_FRAME"
proof -
  have "map_of (ps_values s) (fst q) = Some (snd q)"
    using assms store_inv_values by (simp add: map_of_mem)
  from store_inv_record [OF assms(1) this]
  have "isGlobalProp (ri_prop (fst q)) \<Longrightarrow> ri_area (fst q) = 0"
    by (cases "fst q") (auto simp: getRecordIdLocked_def record_area_def)
  then show ?thesis
    using freeze_frame_id
    by (cases "fst q") (auto simp: wrap32_succ less_RecordId_def less_eq_RecordId_def)
qed

lemma freeze_values:
  assumes "store_inv s"
  shows "readValuesForProperty s OBD2_FREEZE_FRAME =
      map snd (filter (\<lambda>q. ri_prop (fst q) = OBD2_FREEZE_FRAME) (ps_values s))"
    "ps_values (removeValuesForProperty OBD2_FREEZE_FRAME s) =
      filter (\<lambda>q. ri_prop (fst q) \<noteq> OBD2_FREEZE_FRAME) (ps_values s)"
proof -
  have le: "RecordId OBD2_FREEZE_FRAME INT32_MIN 0 \<le> RecordId (wrap32 (OBD2_FREEZE_FRAME + 1)) INT32_MIN 0"
    using freeze_frame_id by (intro prop_range_le)
  show "readValuesForProperty s OBD2_FREEZE_FRAME =
      map snd (filter (\<lambda>q. ri_prop (fst q) = OBD2_FREEZE_FRAME) (ps_values s))"
    using freeze_range [OF assms] store_inv_values [OF assms] le
    by (auto simp: readValuesForProperty_def findRangeLocked_def map_range_filter intro!: arg_cong [where f = "map snd"] filter_cong)
  show "ps_values (removeValuesForProperty OBD2_FREEZE_FRAME s) =
      filter (\<lambda>q. ri_prop (fst q) \<noteq> OBD2_FREEZE_FRAME) (ps_values s)"
    using freeze_range [OF assms] store_inv_values [OF assms] le
    by (auto simp: removeValuesForProperty_def findRangeLocked_def map_erase_range_filter intro!: filter_cong)
qed

definition frame_at :: "VehiclePropertyStore \<Rightarrow> i64 \<Rightarrow> VehiclePropValue option" where
  "frame_at s t = map_of (ps_values s) (RecordId OBD2_FREEZE_FRAME 0 t)"

definition frame_times :: "VehiclePropertyStore \<Rightarrow> i64 list" where
  "frame_times s = map pv_timestamp (readValuesForProperty s OBD2_FREEZE_FRAME)"

lemma frame_at_read: "readValueOrNull_at s OBD2_FREEZE_FRAME 0 t = frame_at s t"
  by (simp add: readValueOrNull_at_def getValueOrNullLocked_def frame_at_def)

lemma frame_at_fields:
  assumes "store_inv s" "freeze_registered s" "frame_at s t = Some v"
  shows "pv_prop v = OBD2_FREEZE_FRAME \<and> pv_timestamp v = t"
  using store_inv_record [OF assms(1), of "RecordId OBD2_FREEZE_FRAME 0 t" v] assms
    freeze_registered_ids [OF assms(2), of v]
  by (auto simp: frame_at_def)

text \<open>The timestamps reported for the frames are sorted, without duplicates, and those of the records.\<close>

lemma frame_times_spec:
  assumes "store_inv s" "freeze_registered s"
  shows "sorted_wrt (<) (frame_times s)" "t \<in> set (frame_times s) \<longleftrightarrow> frame_at s t \<noteq> None"
proof -
  let ?m = "filter (\<lambda>q. ri_prop (fst q) = OBD2_FREEZE_FRAME) (ps_values s)"
  have inv: "map_inv ?m" using store_inv_values [OF assms(1)] by simp
  have rec: "fst q = RecordId OBD2_FREEZE_FRAME 0 (pv_timestamp (snd q))" if "q \<in> set ?m" for q
  proof -
    have "map_of (ps_values s) (fst q) = Some (snd q)"
      using that store_inv_values [OF assms(1)] by (simp add: map_of_mem)
    from store_inv_record [OF assms(1) this] that freeze_registered_ids [OF assms(2), of "snd q"]
    show ?thesis by simp
  qed
  then have ids: "map fst ?m = map (RecordId OBD2_FREEZE_FRAME 0) (frame_times s)"
    by (simp add: frame_times_def freeze_values [OF assms(1)])
  have "sorted_wrt (<) (map (RecordId OBD2_FREEZE_FRAME 0) (frame_times s))"
    using inv unfolding map_inv_def ids .
  then show "sorted_wrt (<) (frame_times s)"
    by (simp add: sorted_wrt_map less_RecordId_def)
  have "t \<in> set (frame_times s) \<longleftrightarrow> RecordId OBD2_FREEZE_FRAME 0 t \<in> set (map fst ?m)"
    unfolding ids by auto
  also have "\<dots> \<longleftrightarrow> frame_at s t \<noteq> None"
    by (auto simp: frame_at_def map_of_eq_None_iff image_iff) (metis RecordId.sel(1) fst_conv)+
  finally show "t \<in> set (frame_times s) \<longleftrightarrow> frame_at s t \<noteq> None" .
qed

lemma freeze_frames_written:
  assumes "freeze_registered s" "pv_prop v = OBD2_FREEZE_FRAME"
  shows "frame_at (snd (writeValue v True s)) t \<noteq> None \<longleftrightarrow> t = pv_timestamp v \<or> frame_at s t \<noteq> None"
    "frame_at s (pv_timestamp v) = None \<Longrightarrow> frame_at (snd (writeValue v True s)) (pv_timestamp v) = Some v"
    "t \<noteq> pv_timestamp v \<Longrightarrow> frame_at (snd (writeValue v True s)) t = frame_at s t"
  using assms(1) freeze_registered_ids [OF assms]
  by (auto simp: writeValue_cases frame_at_def assms(2) freeze_registered_def split: option.splits)

lemma freeze_frame_value:
  assumes "freeze_registered s" "pv_prop v = OBD2_FREEZE_FRAME"
  shows "\<exists>w. frame_at (snd (writeValue v True s)) (pv_timestamp v) = Some w \<and> pv_value w = pv_value v"
  using assms(1) freeze_registered_ids [OF assms]
  by (auto simp: writeValue_cases updated_record_def frame_at_def assms(2) freeze_registered_def split: option.splits)

lemma frame_at_other_write:
  "pv_prop v \<noteq> OBD2_FREEZE_FRAME \<Longrightarrow> frame_at (snd (writeValue v u s)) t = frame_at s t"
  by (auto simp: writeValue_cases frame_at_def getRecordIdLocked_def)

lemma frame_at_other_writes:
  "(\<And>v. v \<in> set vs \<Longrightarrow> pv_prop v \<noteq> OBD2_FREEZE_FRAME) \<Longrightarrow>
   frame_at (fold (\<lambda>v s. snd (writeValue v True s)) vs s) t = frame_at s t"
  by (induction vs arbitrary: s) (simp_all add: frame_at_other_write)

lemma freeze_registered_configs: "ps_configs s' = ps_configs s \<Longrightarrow> freeze_registered s' = freeze_registered s"
  by (simp add: freeze_registered_def)

lemma sorted_wrt_pair:
  "sorted_wrt (<) xs \<Longrightarrow> set xs = {a, b} \<Longrightarrow> a < b \<Longrightarrow> xs = [a, b :: int]"
  by (rule strict_sorted_equal) auto

subsection \<open>The created HAL\<close>

lemma kept_freeze:
  assumes "initObd2FreezeFrame env c h = Some h'" "eh_inv h"
  shows "kept h h'"
proof -
  have frames: "kept h h'" if "write_freeze_frames env st dtcs h = Some h'" "eh_inv h" for st dtcs h h'
    using that
  proof (induction dtcs arbitrary: h)
    case (Cons dtc dtcs)
    from Cons.prems(1) obtain w where
      w: "write_freeze_frames env st dtcs (snd (write_store w True (h\<lparr>eh_tick := eh_tick h + 1\<rparr>))) = Some h'"
      by (auto simp: bind_eq_Some_conv read_clock_def Let_def)
    have k: "kept h (snd (write_store w True (h\<lparr>eh_tick := eh_tick h + 1\<rparr>)))"
      using kept_write [of "h\<lparr>eh_tick := eh_tick h + 1\<rparr>" w True] Cons.prems(2) by (simp add: kept_def)
    from kept_trans [OF k Cons.IH [OF w kept_inv [OF k]]] show ?case .
  qed (simp add: kept_refl)
  from assms show ?thesis by (auto simp: initObd2FreezeFrame_def bind_eq_Some_conv intro: frames)
qed

lemma onCreate_result:
  fixes env :: "'j HalEnv"
  assumes "pool_inv pool"
  obtains h w st where "onCreate env (created pool b) = Some h" "eh_inv h" "pv_prop w = OBD2_LIVE_FRAME"
    "eh_propStore h = snd (writeValue (dtc_frame env st 2 (''P0102'' @ ''P0123'')) True
       (snd (writeValue (dtc_frame env st 1 ''P0070'') True
       (snd (writeValue w True (eh_propStore (with_initial_values pool b)))))))"
    "eh_inEmulator h = isInEmulator env" "eh_emulator h"
proof -
  let ?h1 = "with_initial_values pool b"
  note k1 = kept_writes [OF created_inv [OF assms], of b all_initial_values]
  then have cfgs: "ps_configs (eh_propStore ?h1) = ps_configs (eh_propStore (created pool b))"
    by (simp add: kept_def)
  have tick: "eh_tick (fold (\<lambda>v h. snd (write_store v True h)) vs h) = eh_tick h" for vs h
    by (induction vs arbitrary: h) (simp_all add: write_store_eq)
  obtain live where live: "map_of (ps_configs (eh_propStore (created pool b))) OBD2_LIVE_FRAME =
      Some \<lparr>rc_propConfig = live, rc_tokenFunction = token_of live\<rparr>" "config_frame live = fillDefaultObd2Frame 0 0"
    using created_obd2 by blast
  obtain fr where fr: "map_of (ps_configs (eh_propStore (created pool b))) OBD2_FREEZE_FRAME =
      Some \<lparr>rc_propConfig = fr, rc_tokenFunction = token_of fr\<rparr>" "config_frame fr = fillDefaultObd2Frame 0 0"
    using created_obd2 by blast
  obtain st where st: "fillDefaultObd2Frame 0 0 = Some st" using default_frame by blast
  from st live(2) obtain w where w: "initObd2LiveFrame env live ?h1 =
      Some (snd (write_store w True (?h1\<lparr>eh_tick := eh_tick ?h1 + 1\<rparr>)))" "pv_prop w = OBD2_LIVE_FRAME"
    using initObd2LiveFrame_result [of live env ?h1] by auto
  let ?h2 = "snd (write_store w True (?h1\<lparr>eh_tick := eh_tick ?h1 + 1\<rparr>))"
  have t1: "eh_tick ?h1 = 0" unfolding tick by (simp add: created_def new_emulated_hal_def)
  have t2: "eh_tick ?h2 = 1" unfolding write_store_eq [of w] by (simp add: t1)
  have k2: "kept ?h1 ?h2" using kept_write [of "?h1\<lparr>eh_tick := eh_tick ?h1 + 1\<rparr>" w True] kept_inv [OF k1]
    by (simp add: kept_def)
  from initObd2FreezeFrame_result [of fr st env ?h2] st fr(2) obtain h3 where
    h3: "initObd2FreezeFrame env fr ?h2 = Some h3"
      "eh_propStore h3 = snd (writeValue (dtc_frame env st 2 (''P0102'' @ ''P0123'')) True
         (snd (writeValue (dtc_frame env st 1 ''P0070'') True (eh_propStore ?h2))))"
    unfolding t2 by (auto simp: numeral_2_eq_2)
  have k3: "kept ?h2 h3" using h3(1) kept_inv [OF k2] by (rule kept_freeze)
  have "getConfigOrDie (eh_propStore ?h1) OBD2_LIVE_FRAME = Inr live"
    using live(1) by (simp add: getConfigOrDie_def getConfigOrNull_def cfgs)
  moreover have "getConfigOrDie (eh_propStore ?h2) OBD2_FREEZE_FRAME = Inr fr"
    using fr(1) k2 by (simp add: getConfigOrDie_def getConfigOrNull_def cfgs kept_def)
  ultimately have res: "onCreate env (created pool b) = Some (h3\<lparr>eh_inEmulator := isInEmulator env\<rparr>)"
    using w(1) h3(1) by (simp add: onCreate_def Let_def)
  have s2: "eh_propStore ?h2 = snd (writeValue w True (eh_propStore ?h1))" by (simp add: write_store_eq)
  have "eh_emulator (created pool b)" by (simp add: created_def new_emulated_hal_def)
  with k1 k2 k3 have "eh_emulator h3" "eh_inv h3" by (simp_all add: kept_def)
  with res w(2) h3(2) that [of "h3\<lparr>eh_inEmulator := isInEmulator env\<rparr>" w st] show ?thesis
    unfolding s2 by simp
qed

text \<open>
  C5: creating the HAL never aborts, whatever the clock, the system properties and a sound value pool.
  Afterwards every declared property that is not a diagnostic (OBD2 live or freeze frame) one answers, in
  each of its areas, with the initial value of the table. The freeze frames held are, in the order of time,
  those of the two times read while they were written: the second sample at the second time and, if the
  clock moved on between the two readings, the first sample at the first. With a clock that did not move
  the second sample replaces the first.
\<close>

theorem created_hal_has_initial_values:
  assumes "pool_inv pool"
  shows "\<exists>h. onCreate env (new_emulated_hal empty_store pool b True) = Some h \<and> eh_inv h \<and>
    (\<forall>it \<in> set kVehicleProperties. \<forall>v \<in> set (initial_values it). readValueOrNull (eh_propStore h) v = Some v) \<and>
    sorted_wrt (<) (frame_times (eh_propStore h)) \<and>
    set (frame_times (eh_propStore h)) = {env_clock env 1, env_clock env 2} \<and>
    (\<exists>g. frame_at (eh_propStore h) (env_clock env 2) = Some g \<and> stringValue (pv_value g) = ''P0102P0123'') \<and>
    (env_clock env 1 \<noteq> env_clock env 2 \<longrightarrow>
       (\<exists>f. frame_at (eh_propStore h) (env_clock env 1) = Some f \<and> stringValue (pv_value f) = ''P0070''))"
proof -
  obtain h w st where h: "onCreate env (created pool b) = Some h" "eh_inv h" "pv_prop w = OBD2_LIVE_FRAME"
    "eh_propStore h = snd (writeValue (dtc_frame env st 2 (''P0102'' @ ''P0123'')) True
       (snd (writeValue (dtc_frame env st 1 ''P0070'') True
       (snd (writeValue w True (eh_propStore (with_initial_values pool b)))))))"
    by (rule onCreate_result [OF assms, of env b]) blast
  let ?s1 = "eh_propStore (with_initial_values pool b)"
  have cfgs: "ps_configs ?s1 = ps_configs (eh_propStore (created pool b))"
    using kept_writes [OF created_inv [OF assms], of b all_initial_values] by (simp add: kept_def)
  obtain lc where lc: "map_of (ps_configs ?s1) OBD2_LIVE_FRAME = Some lc"
    using created_obd2 [of OBD2_LIVE_FRAME] unfolding cfgs by blast
  obtain fc where fc: "map_of (ps_configs ?s1) OBD2_FREEZE_FRAME = Some fc" "rc_tokenFunction fc = Some pv_timestamp"
  proof -
    obtain c where "map_of (ps_configs (eh_propStore (created pool b))) OBD2_FREEZE_FRAME =
        Some \<lparr>rc_propConfig = c, rc_tokenFunction = token_of c\<rparr>" "pc_prop c = OBD2_FREEZE_FRAME"
      using created_obd2 [of OBD2_FREEZE_FRAME pool b] by blast
    with that [of "\<lparr>rc_propConfig = c, rc_tokenFunction = token_of c\<rparr>"] show thesis
      by (simp add: token_of_def cfgs)
  qed
  have "readValueOrNull (eh_propStore h) v = Some v"
    if "it \<in> set kVehicleProperties" "v \<in> set (initial_values it)" for it v
  proof -
    have "pv_prop v \<noteq> OBD2_LIVE_FRAME" "pv_prop v \<noteq> OBD2_FREEZE_FRAME"
      using initial_value_in [OF that(2)] by (auto simp: isDiagnosticProperty_def)
    moreover have "map_of (ps_configs ?s1) (pv_prop v) \<noteq> None"
      using created_configs [OF that(1)] initial_value_in(1) [OF that(2)] unfolding cfgs by simp
    ultimately show ?thesis
      using initial_values_found [OF assms that, of b] h(3) lc fc(1)
      unfolding h(4) by (simp add: read_after_other_write)
  qed
  moreover have "set all_initial_values \<subseteq> {v. pv_prop v \<noteq> OBD2_FREEZE_FRAME}"
    using initial_value_in by (fastforce simp: isDiagnosticProperty_def)
  then have none: "frame_at ?s1 t = None" for t
    unfolding store_after_writes
    by (subst frame_at_other_writes) (auto simp: frame_at_def created_values)
  let ?s2 = "snd (writeValue w True ?s1)"
  let ?f = "dtc_frame env st 1 ''P0070''" and ?g = "dtc_frame env st 2 (''P0102'' @ ''P0123'')"
  let ?s3 = "snd (writeValue ?f True ?s2)"
  have fr: "freeze_registered ?s2" "freeze_registered ?s3" "freeze_registered (eh_propStore h)"
    using fc unfolding h(4) by (simp_all add: freeze_registered_def)
  have w: "frame_at ?s2 t = None" for t
    using none h(3) by (subst frame_at_other_write) (auto simp: OBD2_LIVE_FRAME_def OBD2_FREEZE_FRAME_def)
  have f: "frame_at ?s3 t = (if t = env_clock env 1 then Some ?f else None)" for t
    using freeze_frames_written(2,3) [OF fr(1), of ?f] w by simp
  have g: "frame_at (eh_propStore h) t = frame_at ?s3 t" if "t \<noteq> env_clock env 2" for t
    using freeze_frames_written(3) [OF fr(2), of ?g] that unfolding h(4) by simp
  have some: "frame_at (eh_propStore h) t \<noteq> None \<longleftrightarrow> t = env_clock env 2 \<or> t = env_clock env 1" for t
    using freeze_frames_written(1) [OF fr(2), of ?g t] f unfolding h(4) by auto
  have last: "\<exists>g. frame_at (eh_propStore h) (env_clock env 2) = Some g \<and> stringValue (pv_value g) = ''P0102P0123''"
    using freeze_frame_value [OF fr(2), of ?g] unfolding h(4) by auto
  have "store_inv (eh_propStore h)" using h(2) by (simp add: eh_inv_def)
  note times = frame_times_spec [OF this fr(3)]
  have "set (frame_times (eh_propStore h)) = {env_clock env 1, env_clock env 2}"
    unfolding set_eq_iff times(2) some by auto
  ultimately show ?thesis
    using h(1,2) times(1) last g f unfolding created_def [symmetric] by (intro exI [of _ h]) simp
qed

subsection \<open>Setting and getting a property\<close>

text \<open>Properties whose \<open>set\<close> and \<open>get\<close> do nothing of their own, except the check of the HVAC power.\<close>

definition ordinary :: "i32 \<Rightarrow> bool" where
  "ordinary p \<longleftrightarrow> p \<notin> {kGenerateFakeDataControllingProperty, OBD2_FREEZE_FRAME_CLEAR, VEHICLE_MAP_SERVICE,
     AP_POWER_STATE_REPORT, OBD2_FREEZE_FRAME, OBD2_FREEZE_FRAME_INFO}"

lemma set_specific_ordinary:
  "ordinary (pv_prop v) \<Longrightarrow> set_specific env v h =
     Some (if pv_prop v \<in> set (eh_hvacPowerProps h) \<and> hvac_off h then Some NOT_AVAILABLE else None, h)"
  by (simp add: set_specific_def ordinary_def)

lemma eh_get_ordinary:
  assumes "eh_inv h" "ordinary (pv_prop req)" "readValueOrNull (eh_propStore h) req = Some v"
    "known_prop (pv_prop v)"
  shows "\<exists>d h'. eh_get env req h = Some (((Some v, d), OK), h')"
proof -
  obtain d pool where "pool_obtain env v h = Some ((Some v, d), h\<lparr>eh_valuePool := pool\<rparr>)"
    by (rule pool_obtain_copies [OF assms(1,4)])
  with assms(2,3) show ?thesis by (simp add: eh_get_def ordinary_def)
qed

text \<open>The value is written, forwarded and reported.\<close>

lemma set_tail_accepts:
  assumes inv: "eh_inv h" and known: "known_prop (pv_prop v)" and "eh_emulator h"
    and cur: "map_of (ps_configs (eh_propStore h)) (pv_prop v) \<noteq> None"
      "readValueOrNull (eh_propStore h) v = Some cur"
  obtains h' evs where "set_tail env v h = Some (OK, h')" "eh_inv h'" "eh_sent h' = eh_sent h @ [v]"
    "eh_events h' = eh_events h @ evs"
    "map fst evs = (if eh_inEmulator h \<and> pv_prop v = DISPLAY_BRIGHTNESS then [] else [Some v])"
    "readValueOrNull (eh_propStore h') v = Some (updated_record cur v False)" "pv_prop cur = pv_prop v"
proof -
  let ?s = "eh_propStore h" and ?t = "snd (writeValue v False (eh_propStore h))"
  have si: "store_inv ?s" using inv by (simp add: eh_inv_def)
  have w: "fst (writeValue v False ?s)" "readValueOrNull ?t v = Some (updated_record cur v False)"
    using cur by (simp_all add: db.wr_result readValueOrNull_def db.wr_lookup db.wr_ident)
  have same: "pv_prop cur = pv_prop v"
    using store_inv_record [OF si, of "getRecordIdLocked ?s v" cur] cur
    by (simp add: readValueOrNull_def getValueOrNullLocked_def)
  let ?h3 = "h\<lparr>eh_propStore := ?t, eh_sent := eh_sent h @ [v]\<rparr>"
  have i3: "eh_inv ?h3" using eh_inv_write_store [OF inv, of v False] by (simp add: write_store_eq)
  obtain d pool where po: "pool_obtain env v ?h3 = Some ((Some v, d), ?h3\<lparr>eh_valuePool := pool\<rparr>)" "pool_inv pool"
    by (rule pool_obtain_copies [OF i3 known])
  let ?h4 = "doHalEvent (Some v, d) (?h3\<lparr>eh_valuePool := pool\<rparr>)"
  have tail: "set_tail env v h = Some (OK, if eh_inEmulator h \<and> pv_prop v = DISPLAY_BRIGHTNESS then ?h3 else ?h4)"
    using assms(3) w(1) po(1) by (simp add: set_tail_def write_store_eq Let_def)
  have i4: "eh_inv ?h4" using kept_pool [OF i3 po(2)] by (simp add: kept_def)
  show thesis
  proof (cases "eh_inEmulator h \<and> pv_prop v = DISPLAY_BRIGHTNESS")
    case True
    with that [of ?h3 "[]"] tail i3 w(2) same show ?thesis by simp
  next
    case False
    then have t: "set_tail env v h = Some (OK, ?h4)"
      and m: "map fst [(Some v, d)] = (if eh_inEmulator h \<and> pv_prop v = DISPLAY_BRIGHTNESS then [] else [Some v])"
      using tail by auto
    from that [of ?h4 "[(Some v, d)]", OF t i4 _ _ m] w(2) same show ?thesis by (simp add: doHalEvent_def)
  qed
qed

text \<open>
  C4: when the HAL accepts a value for an ordinary available property, exactly that value is forwarded to the
  emulator and reported as an event (no event for the display brightness inside the Android emulator), and
  reading the property back returns its value and timestamp, still available.
\<close>

theorem set_then_get:
  assumes inv: "eh_inv h" and "ordinary (pv_prop v)" "known_prop (pv_prop v)"
    and "\<not> (pv_prop v \<in> set (eh_hvacPowerProps h) \<and> hvac_off h)"
    and "eh_emulator h" "pv_status v = STATUS_AVAILABLE"
    and cur: "map_of (ps_configs (eh_propStore h)) (pv_prop v) \<noteq> None"
      "readValueOrNull (eh_propStore h) v = Some cur" "pv_status cur = STATUS_AVAILABLE"
  shows "\<exists>h' evs. eh_set env v h = Some (OK, h') \<and> eh_sent h' = eh_sent h @ [v] \<and>
    eh_events h' = eh_events h @ evs \<and>
    map fst evs = (if eh_inEmulator h \<and> pv_prop v = DISPLAY_BRIGHTNESS then [] else [Some v]) \<and>
    (\<exists>w d h''. eh_get env v h' = Some (((Some w, d), OK), h'') \<and> pv_prop w = pv_prop v \<and>
       pv_value w = pv_value v \<and> pv_timestamp w = pv_timestamp v \<and> pv_status w = STATUS_AVAILABLE)"
proof -
  let ?w = "updated_record cur v False"
  obtain h' evs where h': "set_tail env v h = Some (OK, h')" "eh_inv h'" "eh_sent h' = eh_sent h @ [v]"
    "eh_events h' = eh_events h @ evs"
    "map fst evs = (if eh_inEmulator h \<and> pv_prop v = DISPLAY_BRIGHTNESS then [] else [Some v])"
    "readValueOrNull (eh_propStore h') v = Some ?w" "pv_prop cur = pv_prop v"
    by (rule set_tail_accepts [OF inv assms(3,5) cur(1,2), of env]) blast
  have "set_specific env v h = Some (None, h)"
    using assms(2,4) by (subst set_specific_ordinary) auto
  then have "eh_set env v h = Some (OK, h')"
    using assms(6) cur(2,3) h'(1) by (simp add: eh_set_def)
  moreover have "pv_prop ?w = pv_prop v" "pv_value ?w = pv_value v" "pv_timestamp ?w = pv_timestamp v"
      "pv_status ?w = STATUS_AVAILABLE"
    using cur(3) h'(7) by (simp_all add: updated_record_def)
  moreover from this have "\<exists>d h''. eh_get env v h' = Some (((Some ?w, d), OK), h'')"
    using eh_get_ordinary [OF h'(2) assms(2) h'(6)] assms(3) by simp
  ultimately show ?thesis using h'(3-5) by blast
qed

text \<open>
  For an ordinary registered property \<open>set\<close> refuses exactly when the fan is changed while the
  HVAC is off or the property is disabled (NOT_AVAILABLE), or when the client sets a status or there is no
  such area (INVALID_ARG); a refused request changes nothing and reports nothing.
\<close>

theorem set_refused_changes_nothing:
  assumes "ordinary (pv_prop v)" "map_of (ps_configs (eh_propStore h)) (pv_prop v) \<noteq> None"
    and "eh_set env v h = Some (status, h')"
  shows "(status = NOT_AVAILABLE \<longleftrightarrow> (pv_prop v \<in> set (eh_hvacPowerProps h) \<and> hvac_off h) \<or>
            (pv_status v = STATUS_AVAILABLE \<and>
             (\<exists>cur. readValueOrNull (eh_propStore h) v = Some cur \<and> pv_status cur \<noteq> STATUS_AVAILABLE))) \<and>
    (status = INVALID_ARG \<longleftrightarrow> \<not> (pv_prop v \<in> set (eh_hvacPowerProps h) \<and> hvac_off h) \<and>
            (pv_status v \<noteq> STATUS_AVAILABLE \<or> readValueOrNull (eh_propStore h) v = None)) \<and>
    (status \<noteq> OK \<longrightarrow> h' = h)"
proof -
  have tail: "s = OK" if "set_tail env v h = Some (s, k)" for s k
    using that assms(2)
    by (auto simp: set_tail_def write_store_eq db.wr_result bind_eq_Some_conv Let_def split: if_splits)
  show ?thesis
  proof (cases "pv_prop v \<in> set (eh_hvacPowerProps h) \<and> hvac_off h")
    case True
    with assms(1,3) show ?thesis by (auto simp: eh_set_def set_specific_ordinary)
  next
    case False
    with assms(1,3) have "(if pv_status v \<noteq> STATUS_AVAILABLE then Some (INVALID_ARG, h)
        else (case readValueOrNull (eh_propStore h) v of None \<Rightarrow> Some (INVALID_ARG, h)
          | Some cur \<Rightarrow> if pv_status cur \<noteq> STATUS_AVAILABLE then Some (NOT_AVAILABLE, h) else set_tail env v h)) =
        Some (status, h')"
      by (simp add: eh_set_def set_specific_ordinary)
    with False tail [of status h'] show ?thesis by (auto split: if_splits option.splits)
  qed
qed

subsection \<open>Freeze frames by timestamp\<close>

lemma obtainComplex_fresh:
  "\<exists>v. obtainComplex fresh pool = ((Some v, Dispose), pool) \<and> pv_value v = empty_raw"
proof -
  have "obtainComplex fresh pool = (obtainDisposable fresh TYPE_MIXED 1, pool)"
    by (simp add: obtainComplex_def obtain_type_def obtain_sized_def isDisposable_def)
  then show ?thesis by (simp add: obtainDisposable_def createVehiclePropValue_def)
qed

lemma get_complex_result:
  obtains v where "pv_value v = empty_raw"
    "\<And>fill. get_complex env fill h = Some (((Some (snd (fill v (eh_propStore h))), Dispose), fst (fill v (eh_propStore h))), h)"
proof -
  obtain v where "obtainComplex (env_fresh env) (eh_valuePool h) = ((Some v, Dispose), eh_valuePool h)"
      "pv_value v = empty_raw"
    using obtainComplex_fresh by blast
  with that [of v] show ?thesis by (simp add: get_complex_def case_prod_unfold Let_def)
qed

text \<open>
  the trouble code info lists the times of the stored freeze frames, in increasing order and without
  duplicates, and asking for a freeze frame by timestamp succeeds exactly for the listed times, with that
  frame's data.
\<close>

theorem freeze_frames_by_timestamp:
  assumes "eh_inv h" "freeze_registered (eh_propStore h)" "pv_prop info = OBD2_FREEZE_FRAME_INFO"
    and "pv_prop req = OBD2_FREEZE_FRAME" "int64Values (pv_value req) = [t]"
  shows "\<exists>v d w d' status. eh_get env info h = Some (((Some v, d), OK), h) \<and>
    sorted_wrt (<) (int64Values (pv_value v)) \<and>
    eh_get env req h = Some (((Some w, d'), status), h) \<and>
    status = (if t \<in> set (int64Values (pv_value v)) then OK else INVALID_ARG) \<and>
    (status = OK \<longrightarrow> (\<exists>f. frame_at (eh_propStore h) t = Some f \<and> pv_timestamp w = t \<and>
       pv_value w = (pv_value f)\<lparr>int64Values := []\<rparr>))"
proof -
  let ?s = "eh_propStore h"
  have si: "store_inv ?s" using assms(1) by (simp add: eh_inv_def)
  obtain v where v: "pv_value v = empty_raw"
    "\<And>fill. get_complex env fill h = Some (((Some (snd (fill v ?s)), Dispose), fst (fill v ?s)), h)"
    by (rule get_complex_result [of env h]) blast
  have ne: "OBD2_FREEZE_FRAME_INFO \<noteq> OBD2_FREEZE_FRAME"
    by (simp add: OBD2_FREEZE_FRAME_INFO_def OBD2_FREEZE_FRAME_def)
  have info: "eh_get env info h = Some (((Some (snd (fillObd2DtcInfo v ?s)), Dispose), OK), h)"
    using assms(3) ne v(2) by (simp add: eh_get_def fillObd2DtcInfo_def)
  have times: "int64Values (pv_value (snd (fillObd2DtcInfo v ?s))) = frame_times ?s"
    by (simp add: fillObd2DtcInfo_def frame_times_def)
  have get: "eh_get env req h = Some (((Some (snd (fillObd2FreezeFrame req v ?s)), Dispose),
      fst (fillObd2FreezeFrame req v ?s)), h)"
    using assms(4) v(2) by (simp add: eh_get_def)
  note spec = frame_times_spec [OF si assms(2)]
  show ?thesis
  proof (cases "frame_at ?s t")
    case None
    then show ?thesis
      using info get spec assms(5) unfolding times [symmetric]
      by (auto simp: fillObd2FreezeFrame_def frame_at_read)
  next
    case (Some f)
    then have "t \<in> set (frame_times ?s)" using spec(2) by simp
    moreover have "pv_timestamp f = t" using frame_at_fields [OF si assms(2) Some] by simp
    ultimately show ?thesis
      using info get spec(1) assms(5) Some v(1) unfolding times [symmetric]
      by (auto simp: fillObd2FreezeFrame_def frame_at_read empty_raw_def)
  qed
qed

lemma clear_frames_spec:
  assumes "store_inv s" "freeze_registered s" "clear_frames ts s = (status, s')"
  shows "(status = OK \<longleftrightarrow> distinct ts \<and> (\<forall>t \<in> set ts. frame_at s t \<noteq> None)) \<and>
    (status = OK \<longrightarrow> (\<forall>t. frame_at s' t = (if t \<in> set ts then None else frame_at s t))) \<and>
    (\<forall>k. ri_prop k \<noteq> OBD2_FREEZE_FRAME \<longrightarrow> map_of (ps_values s') k = map_of (ps_values s) k)"
  using assms
proof (induction ts arbitrary: s)
  case (Cons t ts)
  show ?case
  proof (cases "frame_at s t")
    case None
    with Cons.prems(3) show ?thesis by (auto simp: frame_at_read)
  next
    case (Some f)
    let ?s = "removeValue f s"
    note f = frame_at_fields [OF Cons.prems(1,2) Some]
    have look: "map_of (ps_values ?s) k = (if k = RecordId OBD2_FREEZE_FRAME 0 t then None else map_of (ps_values s) k)" for k
      using db.rm_lookup [of f s k] freeze_registered_ids [OF Cons.prems(2)] f
      by (simp add: getValueOrNullLocked_def)
    have "store_inv ?s" "freeze_registered ?s" "clear_frames ts ?s = (status, s')"
      using Cons.prems Some by (simp_all add: store_inv_remove freeze_registered_def frame_at_read)
    from Cons.IH [OF this] Some look show ?thesis
      by (auto simp: frame_at_def)
  qed
qed auto

text \<open>
  Clearing the freeze frames without timestamps removes all of them; with timestamps it succeeds exactly
  when these are distinct times of stored frames, and then removes just those. No other property's record
  is touched in any case.
\<close>

theorem freeze_frames_cleared:
  assumes "eh_inv h" "freeze_registered (eh_propStore h)" "pv_prop v = OBD2_FREEZE_FRAME_CLEAR"
    and "OBD2_FREEZE_FRAME_CLEAR \<notin> set (eh_hvacPowerProps h)" "ts = int64Values (pv_value v)"
  shows "\<exists>status h'. eh_set env v h = Some (status, h') \<and>
    (status = OK \<longleftrightarrow> distinct ts \<and> set ts \<subseteq> set (frame_times (eh_propStore h))) \<and>
    (status = OK \<longrightarrow> set (frame_times (eh_propStore h')) =
       (if ts = [] then {} else set (frame_times (eh_propStore h)) - set ts)) \<and>
    (\<forall>w. pv_prop w \<noteq> OBD2_FREEZE_FRAME \<and> map_of (ps_configs (eh_propStore h)) (pv_prop w) \<noteq> None \<longrightarrow>
       readValueOrNull (eh_propStore h') w = readValueOrNull (eh_propStore h) w)"
proof -
  let ?s = "eh_propStore h"
  have si: "store_inv ?s" using assms(1) by (simp add: eh_inv_def)
  obtain status s where c: "clearObd2FreezeFrames v ?s = (status, s)" by force
  have ne: "OBD2_FREEZE_FRAME_CLEAR \<noteq> kGenerateFakeDataControllingProperty"
    by (simp add: OBD2_FREEZE_FRAME_CLEAR_def kGenerateFakeDataControllingProperty_def)
  then have set: "eh_set env v h = Some (status, h\<lparr>eh_propStore := s\<rparr>)"
    using assms(3,4) c by (simp add: eh_set_def set_specific_def)
  have k: "store_inv s" "ps_configs s = ps_configs ?s"
    using kept_clear [OF assms(1) c] by (simp_all add: kept_def eh_inv_def)
  then have fr: "freeze_registered s" using assms(2) by (simp add: freeze_registered_def)
  have other: "readValueOrNull s w = readValueOrNull ?s w"
    if "\<And>k. ri_prop k \<noteq> OBD2_FREEZE_FRAME \<Longrightarrow> map_of (ps_values s) k = map_of (ps_values ?s) k"
      "pv_prop w \<noteq> OBD2_FREEZE_FRAME" "map_of (ps_configs ?s) (pv_prop w) \<noteq> None" for w
    using that k(2)
    by (auto simp: readValueOrNull_def getValueOrNullLocked_def getRecordIdLocked_def)
  show ?thesis
  proof (cases "ts = []")
    case True
    then have s: "status = OK" "s = removeValuesForProperty OBD2_FREEZE_FRAME ?s"
      using c assms(5) by (auto simp: clearObd2FreezeFrames_def)
    have vals: "map_of (ps_values s) k = (if ri_prop k \<noteq> OBD2_FREEZE_FRAME then map_of (ps_values ?s) k else None)" for k
      unfolding s freeze_values [OF si] using store_inv_values [OF si] by (rule map_of_filter_keys)
    have "t \<notin> set (frame_times s)" for t
      using frame_times_spec(2) [OF k(1) fr, of t] vals by (simp add: frame_at_def)
    then have "set (frame_times s) = {}" by (simp only: set_eq_iff empty_iff not_False_eq_True simp_thms)
    moreover have "readValueOrNull s w = readValueOrNull ?s w"
      if "pv_prop w \<noteq> OBD2_FREEZE_FRAME" "map_of (ps_configs ?s) (pv_prop w) \<noteq> None" for w
      using that vals by (intro other) simp_all
    ultimately show ?thesis using True s(1) set by simp
  next
    case False
    then have "clear_frames ts ?s = (status, s)" using c assms(5) by (simp add: clearObd2FreezeFrames_def)
    note spec = clear_frames_spec [OF si assms(2) this]
    have "set (frame_times s) = set (frame_times ?s) - set ts" if "status = OK"
    proof (rule set_eqI)
      fix t
      have "frame_at s t = (if t \<in> set ts then None else frame_at ?s t)" using spec that by blast
      then show "t \<in> set (frame_times s) \<longleftrightarrow> t \<in> set (frame_times ?s) - set ts"
        unfolding frame_times_spec(2) [OF k(1) fr] by (simp add: frame_times_spec(2) [OF si assms(2)])
    qed
    moreover have "(status = OK) = (distinct ts \<and> set ts \<subseteq> set (frame_times ?s))"
      using spec frame_times_spec(2) [OF si assms(2)] by auto
    moreover have "readValueOrNull s w = readValueOrNull ?s w"
      if "pv_prop w \<noteq> OBD2_FREEZE_FRAME" "map_of (ps_configs ?s) (pv_prop w) \<noteq> None" for w
      using that spec by (intro other) simp_all
    ultimately show ?thesis using False set by simp
  qed
qed

subsection \<open>Power reports and key presses\<close>

lemma handle_power_report_result:
  assumes "eh_inv h" "int32Values (pv_value v) = r # rest"
  obtains h1 evs where "handle_power_report env v h = Some h1" "eh_events h1 = eh_events h @ evs"
    "eh_propStore h1 = eh_propStore h" "eh_inEmulator h1 = eh_inEmulator h" "eh_sent h1 = eh_sent h"
    "map (\<lambda>e. map_option (\<lambda>x. (pv_prop x, int32Values (pv_value x))) (fst e)) evs =
       (if r \<in> {1, 3, 8} then [Some (AP_POWER_STATE_REQ, [REQ_ON, 0])]
        else if r \<in> {2, 5} then [Some (AP_POWER_STATE_REQ, [REQ_FINISHED, 0])] else [])"
proof -
  have req: "\<exists>d x p. createApPowerStateReq env state 0 h =
      Some ((Some x, d), h\<lparr>eh_valuePool := p, eh_tick := eh_tick h + 1\<rparr>) \<and>
      pv_prop x = AP_POWER_STATE_REQ \<and> int32Values (pv_value x) = [state, 0]" for state
    unfolding createApPowerStateReq_def
    by (rule make_int32_event_result [OF assms(1), of env AP_POWER_STATE_REQ "[state, 0]"]) blast
  note unf = handle_power_report_def assms(2) doHalEvent_def
  consider "r \<in> {1, 3, 8}" | "r \<in> {2, 5}" | "r \<notin> {1, 2, 3, 5, 8}" by blast
  then show thesis
  proof cases
    case 1
    from req [of REQ_ON] obtain d x p where x: "createApPowerStateReq env REQ_ON 0 h =
      Some ((Some x, d), h\<lparr>eh_valuePool := p, eh_tick := eh_tick h + 1\<rparr>)"
      "pv_prop x = AP_POWER_STATE_REQ" "int32Values (pv_value x) = [REQ_ON, 0]" by blast
    have "handle_power_report env v h = Some (doHalEvent (Some x, d) (h\<lparr>eh_valuePool := p, eh_tick := eh_tick h + 1\<rparr>))"
      using 1 x(1) by (auto simp: unf)
    from that [OF this, of "[(Some x, d)]"] 1 x(2,3) show ?thesis by (simp add: doHalEvent_def)
  next
    case 2
    from req [of REQ_FINISHED] obtain d x p where x: "createApPowerStateReq env REQ_FINISHED 0 h =
      Some ((Some x, d), h\<lparr>eh_valuePool := p, eh_tick := eh_tick h + 1\<rparr>)"
      "pv_prop x = AP_POWER_STATE_REQ" "int32Values (pv_value x) = [REQ_FINISHED, 0]" by blast
    have "handle_power_report env v h = Some (doHalEvent (Some x, d) (h\<lparr>eh_valuePool := p, eh_tick := eh_tick h + 1\<rparr>))"
      using 2 x(1) by (auto simp: unf)
    from that [OF this, of "[(Some x, d)]"] 2 x(2,3) show ?thesis by (auto simp: doHalEvent_def)
  next
    case 3
    then have "handle_power_report env v h = Some h" by (simp add: unf)
    from that [OF this, of "[]"] 3 show ?thesis by simp
  qed
qed

text \<open>
  A power report of the client is answered, before the report itself is stored and reported, with the
  request ON when the car comes back (deep sleep left, shutdown cancelled, waiting for the HAL), with
  the request FINISHED when it goes down (deep sleep entered, shutdown started), and with nothing otherwise;
  a report without its first value is undefined.
\<close>

theorem power_report_answered:
  assumes inv: "eh_inv h" and pr: "pv_prop v = AP_POWER_STATE_REPORT" "AP_POWER_STATE_REPORT \<notin> set (eh_hvacPowerProps h)"
    and "eh_emulator h" "pv_status v = STATUS_AVAILABLE"
    and cur: "map_of (ps_configs (eh_propStore h)) (pv_prop v) \<noteq> None"
      "readValueOrNull (eh_propStore h) v = Some cur" "pv_status cur = STATUS_AVAILABLE"
  shows "(int32Values (pv_value v) = [] \<longrightarrow> eh_set env v h = None) \<and>
    (\<forall>r rest. int32Values (pv_value v) = r # rest \<longrightarrow>
      (\<exists>h' evs. eh_set env v h = Some (OK, h') \<and> eh_sent h' = eh_sent h @ [v] \<and> eh_events h' = eh_events h @ evs \<and>
         map (\<lambda>e. map_option (\<lambda>x. (pv_prop x, int32Values (pv_value x))) (fst e)) evs =
           (if r \<in> {1, 3, 8} then [Some (AP_POWER_STATE_REQ, [REQ_ON, 0])]
            else if r \<in> {2, 5} then [Some (AP_POWER_STATE_REQ, [REQ_FINISHED, 0])] else []) @
           [Some (AP_POWER_STATE_REPORT, r # rest)]))"
proof (intro conjI allI impI)
  have ne: "AP_POWER_STATE_REPORT \<noteq> kGenerateFakeDataControllingProperty"
      "AP_POWER_STATE_REPORT \<noteq> OBD2_FREEZE_FRAME_CLEAR" "AP_POWER_STATE_REPORT \<noteq> VEHICLE_MAP_SERVICE"
    by (simp_all add: kGenerateFakeDataControllingProperty_def OBD2_FREEZE_FRAME_CLEAR_def VEHICLE_MAP_SERVICE_def)
  have spec: "set_specific env v h = Option.bind (handle_power_report env v h) (\<lambda>h1. Some (None, h1))"
    using pr ne by (simp add: set_specific_def)
  show "eh_set env v h = None" if "int32Values (pv_value v) = []"
    using that by (simp add: eh_set_def spec handle_power_report_def vec_at_def)
  fix r rest assume r: "int32Values (pv_value v) = r # rest"
  obtain h1 evs where h1: "handle_power_report env v h = Some h1" "eh_events h1 = eh_events h @ evs"
    "eh_propStore h1 = eh_propStore h" "eh_inEmulator h1 = eh_inEmulator h" "eh_sent h1 = eh_sent h"
    "map (\<lambda>e. map_option (\<lambda>x. (pv_prop x, int32Values (pv_value x))) (fst e)) evs =
       (if r \<in> {1, 3, 8} then [Some (AP_POWER_STATE_REQ, [REQ_ON, 0])]
        else if r \<in> {2, 5} then [Some (AP_POWER_STATE_REQ, [REQ_FINISHED, 0])] else [])"
    by (rule handle_power_report_result [OF inv r, of env]) blast
  note k = kept_power_report [OF inv h1(1)]
  have known: "known_prop (pv_prop v)"
    by (simp add: pr known_prop_def getPropType_def)
  have em: "eh_emulator h1" using k assms(4) by (simp add: kept_def)
  obtain h2 evs2 where h2: "set_tail env v h1 = Some (OK, h2)" "eh_sent h2 = eh_sent h1 @ [v]"
    "eh_events h2 = eh_events h1 @ evs2"
    "map fst evs2 = (if eh_inEmulator h1 \<and> pv_prop v = DISPLAY_BRIGHTNESS then [] else [Some v])"
    by (rule set_tail_accepts [OF kept_inv [OF k] known em cur(1,2) [folded h1(3)], of env]) blast
  have "eh_set env v h = Some (OK, h2)"
    using assms(5) cur(2,3) h1(1,3) h2(1) by (simp add: eh_set_def spec)
  moreover have "map (\<lambda>e. map_option (\<lambda>x. (pv_prop x, int32Values (pv_value x))) (fst e)) evs2 =
      map (map_option (\<lambda>x. (pv_prop x, int32Values (pv_value x)))) (map fst evs2)"
    by simp
  then have "map (\<lambda>e. map_option (\<lambda>x. (pv_prop x, int32Values (pv_value x))) (fst e)) evs2 =
      [Some (AP_POWER_STATE_REPORT, r # rest)]"
    unfolding h2(4) by (simp add: pr r)
  ultimately show "\<exists>h' evs. eh_set env v h = Some (OK, h') \<and> eh_sent h' = eh_sent h @ [v] \<and> eh_events h' = eh_events h @ evs \<and>
         map (\<lambda>e. map_option (\<lambda>x. (pv_prop x, int32Values (pv_value x))) (fst e)) evs =
           (if r \<in> {1, 3, 8} then [Some (AP_POWER_STATE_REQ, [REQ_ON, 0])]
            else if r \<in> {2, 5} then [Some (AP_POWER_STATE_REQ, [REQ_FINISHED, 0])] else []) @
           [Some (AP_POWER_STATE_REPORT, r # rest)]"
    using h1(2,5,6) h2(2,3) by (intro exI [of _ h2] exI [of _ "evs @ evs2"]) simp
qed

subsection \<open>Continuous properties\<close>

definition timer_value :: "EmulatedVehicleHal \<Rightarrow> i32 \<Rightarrow> VehiclePropValue option" where
  "timer_value h p = (if isContinuousProperty p h then readValueOrNull_at (eh_propStore h) p 0 0 else None)"

lemma timer_value_cong:
  "eh_propStore h' = eh_propStore h \<Longrightarrow> timer_value h' = timer_value h"
  by (simp add: timer_value_def isContinuousProperty_def fun_eq_iff)

lemma timer_turn_result:
  assumes "eh_inv h" "\<And>v. timer_value h p = Some v \<Longrightarrow> known_prop (pv_prop v)"
  obtains h' evs where "timer_turn env p h = Some h'" "eh_propStore h' = eh_propStore h"
    "eh_events h' = eh_events h @ evs"
    "map (\<lambda>e. map_option (\<lambda>v. (pv_prop v, pv_areaId v, pv_value v)) (fst e)) evs =
       (case timer_value h p of None \<Rightarrow> [] | Some v \<Rightarrow> [Some (pv_prop v, pv_areaId v, pv_value v)])"
proof (cases "timer_value h p")
  case None
  then have "timer_turn env p h = Some h" unfolding timer_turn_eq timer_value_def by simp
  from that [OF this, of "[]"] None show ?thesis by simp
next
  case (Some v)
  obtain d pool where po: "pool_obtain env v h = Some ((Some v, d), h\<lparr>eh_valuePool := pool\<rparr>)"
    by (rule pool_obtain_copies [OF assms(1) assms(2) [OF Some]])
  let ?e = "(Some (v\<lparr>pv_timestamp := env_clock env (eh_tick h)\<rparr>), d)"
  have "timer_turn env p h = Some (doHalEvent ?e (h\<lparr>eh_valuePool := pool, eh_tick := eh_tick h + 1\<rparr>))"
    unfolding timer_turn_eq Some [unfolded timer_value_def] using po by simp
  from that [OF this, of "[?e]"] Some show ?thesis by (simp add: doHalEvent_def)
qed

text \<open>
  When the timer fires for some properties, the HAL reports, in their order, the stored value of each
  continuous one that has a record for area 0, and nothing else; no stored value changes.
\<close>

theorem timer_reports_continuous:
  assumes "eh_inv h" "\<forall>p \<in> set ps. \<forall>v. timer_value h p = Some v \<longrightarrow> known_prop (pv_prop v)"
  shows "\<exists>h' evs. onContinuousPropertyTimer env ps h = Some h' \<and> eh_propStore h' = eh_propStore h \<and>
    eh_events h' = eh_events h @ evs \<and>
    map (\<lambda>e. map_option (\<lambda>v. (pv_prop v, pv_areaId v, pv_value v)) (fst e)) evs =
      map (\<lambda>v. Some (pv_prop v, pv_areaId v, pv_value v)) (List.map_filter (timer_value h) ps)"
  using assms
proof (induction ps arbitrary: h)
  case (Cons p ps)
  obtain h1 evs where h1: "timer_turn env p h = Some h1" "eh_propStore h1 = eh_propStore h"
    "eh_events h1 = eh_events h @ evs"
    "map (\<lambda>e. map_option (\<lambda>v. (pv_prop v, pv_areaId v, pv_value v)) (fst e)) evs =
       (case timer_value h p of None \<Rightarrow> [] | Some v \<Rightarrow> [Some (pv_prop v, pv_areaId v, pv_value v)])"
    by (rule timer_turn_result [OF Cons.prems(1), of p env]) (use Cons.prems(2) in auto)
  note tv = timer_value_cong [OF h1(2)]
  have "eh_inv h1" using kept_inv [OF kept_timer_turn [OF Cons.prems(1) h1(1)]] .
  moreover have "\<forall>p \<in> set ps. \<forall>v. timer_value h1 p = Some v \<longrightarrow> known_prop (pv_prop v)"
    using Cons.prems(2) by (simp add: tv)
  ultimately obtain h' evs' where h': "onContinuousPropertyTimer env ps h1 = Some h'" "eh_propStore h' = eh_propStore h1"
    "eh_events h' = eh_events h1 @ evs'"
    "map (\<lambda>e. map_option (\<lambda>v. (pv_prop v, pv_areaId v, pv_value v)) (fst e)) evs' =
      map (\<lambda>v. Some (pv_prop v, pv_areaId v, pv_value v)) (List.map_filter (timer_value h) ps)"
    using Cons.IH [of h1] unfolding tv by blast
  show ?case
    using h1 h' by (intro exI [of _ h'] exI [of _ "evs @ evs'"])
      (simp add: map_filter_simps split: option.splits)
qed (simp add: map_filter_simps)

lemma db_writes_fold: "fold (\<lambda>v s. snd (writeValue v True s)) vs s = db.writes (map (\<lambda>v. (v, True)) vs) s"
  by (induction vs arbitrary: s) simp_all

lemma tire_pressure_declared:
  "list_all (\<lambda>d. pc_prop (cd_config d) \<noteq> TIRE_PRESSURE \<or>
     (0 \<notin> set (map ac_areaId (pc_areaConfigs (cd_config d))) \<and> pc_changeMode (cd_config d) = CONTINUOUS)) kVehicleProperties"
  "list_ex (\<lambda>d. pc_prop (cd_config d) = TIRE_PRESSURE) kVehicleProperties"
  by code_simp+

lemma not_global_tire: "\<not> isGlobalProp TIRE_PRESSURE"
  by (simp add: isGlobalProp_def getPropArea_def)

text \<open>
  The tire pressure is declared continuous, but only per wheel; the timer looks up area 0, so in
  the created HAL a client subscribed to it never receives an event.
\<close>

theorem tire_pressure_never_reported:
  assumes "pool_inv pool" "onCreate env (created pool b) = Some h"
  shows "isContinuousProperty TIRE_PRESSURE h \<and> onContinuousPropertyTimer env [TIRE_PRESSURE] h = Some h"
proof -
  obtain h0 w st where h0: "onCreate env (created pool b) = Some h0" "eh_inv h0" "pv_prop w = OBD2_LIVE_FRAME"
    "eh_propStore h0 = snd (writeValue (dtc_frame env st 2 (''P0102'' @ ''P0123'')) True
       (snd (writeValue (dtc_frame env st 1 ''P0070'') True
       (snd (writeValue w True (eh_propStore (with_initial_values pool b)))))))"
    by (rule onCreate_result [OF assms(1), of env b]) blast
  then have h: "h = h0" using assms(2) by simp
  let ?s0 = "eh_propStore (created pool b)" and ?s1 = "eh_propStore (with_initial_values pool b)"
  let ?k = "RecordId TIRE_PRESSURE 0 0"
  have other: "map_of (ps_values (snd (writeValue v True s))) ?k = map_of (ps_values s) ?k"
    if "pv_prop v \<noteq> TIRE_PRESSURE" for v s
    using that by (auto simp: writeValue_cases getRecordIdLocked_def)
  have "map_of (ps_values ?s1) ?k = map_of (ps_values ?s0) ?k"
    unfolding store_after_writes db_writes_fold
  proof (rule db.writes_frame [unfolded getValueOrNullLocked_def])
    fix v u assume "(v, u) \<in> set (map (\<lambda>v. (v, True)) all_initial_values)"
    then obtain it where it: "it \<in> set kVehicleProperties" "v \<in> set (initial_values it)" by auto
    show "getRecordIdLocked ?s0 v \<noteq> ?k"
    proof
      assume "getRecordIdLocked ?s0 v = ?k"
      then have v: "pv_prop v = TIRE_PRESSURE" "pv_areaId v = 0" using created_ids [OF it] by simp_all
      with it tire_pressure_declared(1) initial_value_in(1) [OF it(2)]
      have "0 \<notin> set (map ac_areaId (pc_areaConfigs (cd_config it)))" by (auto simp: list_all_iff)
      with v not_global_tire it(2) show False
        by (auto simp: initial_values_def initial_area_value_def Let_def split: if_splits)
    qed
  qed
  then have none: "readValueOrNull_at (eh_propStore h) TIRE_PRESSURE 0 0 = None"
    unfolding h h0(4) readValueOrNull_at_def getValueOrNullLocked_def
    using not_global_tire h0(3)
    by (simp add: other created_values OBD2_LIVE_FRAME_def OBD2_FREEZE_FRAME_def)
  obtain it where it: "it \<in> set kVehicleProperties" "pc_prop (cd_config it) = TIRE_PRESSURE"
    using tire_pressure_declared(2) by (auto simp: list_ex_iff)
  with tire_pressure_declared(1) have cm: "pc_changeMode (cd_config it) = CONTINUOUS"
    by (auto simp: list_all_iff)
  have "ps_configs (eh_propStore h) = ps_configs ?s0"
    unfolding h h0(4) using kept_writes [OF created_inv [OF assms(1)], of b all_initial_values] by (simp add: kept_def)
  then have cont: "isContinuousProperty TIRE_PRESSURE h"
    using created_configs [OF it(1), of pool b] it(2) cm
    by (simp add: isContinuousProperty_def getConfigOrNull_def)
  then show ?thesis using none by (simp add: timer_turn_eq)
qed

subsection \<open>Fake values\<close>

text \<open>
  A generated value of a property that is not registered (which a JSON file can name) aborts the
  process; one of a registered property is stored with the current time, and reported only when the
  property changes on change.
\<close>

theorem fake_value_effect:
  assumes inv: "eh_inv h" and "known_prop (pv_prop v)"
  shows "(getConfigOrNull (eh_propStore h) (pv_prop v) = None \<longrightarrow> onFakeValueGenerated env v h = None) \<and>
    (\<forall>cfg. getConfigOrNull (eh_propStore h) (pv_prop v) = Some cfg \<longrightarrow>
      (let v' = v\<lparr>pv_timestamp := env_clock env (eh_tick h), pv_status := STATUS_AVAILABLE\<rparr> in
       \<exists>h' evs w. onFakeValueGenerated env v h = Some h' \<and> eh_events h' = eh_events h @ evs \<and>
         map fst evs = (if pc_changeMode cfg = ON_CHANGE then [Some v'] else []) \<and>
         readValueOrNull (eh_propStore h') v' = Some w \<and> pv_value w = pv_value v \<and>
         pv_timestamp w = env_clock env (eh_tick h)))"
proof -
  obtain d pool where po: "pool_obtain env v h = Some ((Some v, d), h\<lparr>eh_valuePool := pool\<rparr>)"
    by (rule pool_obtain_copies [OF assms])
  let ?v = "v\<lparr>pv_timestamp := env_clock env (eh_tick h), pv_status := STATUS_AVAILABLE\<rparr>"
  let ?t = "snd (writeValue ?v False (eh_propStore h))"
  let ?h3 = "h\<lparr>eh_valuePool := pool, eh_tick := eh_tick h + 1, eh_propStore := ?t\<rparr>"
  have cfg: "getConfigOrNull ?t p = getConfigOrNull (eh_propStore h) p" for p
    by (simp add: getConfigOrNull_def)
  have run: "onFakeValueGenerated env v h =
      (case getConfigOrNull (eh_propStore h) (pv_prop v) of None \<Rightarrow> None
       | Some cfg \<Rightarrow> if pc_changeMode cfg = ON_CHANGE then Some (doHalEvent (Some ?v, d) ?h3)
                    else Some (release_ptr (Some ?v, d) ?h3))"
    using po by (auto simp: onFakeValueGenerated_def read_clock_def write_store_eq getConfigOrDie_def cfg
        Let_def split: option.split)
  show ?thesis
  proof (cases "getConfigOrNull (eh_propStore h) (pv_prop v)")
    case (Some c)
    then have "map_of (ps_configs (eh_propStore h)) (pv_prop ?v) \<noteq> None"
      by (auto simp: getConfigOrNull_def)
    then obtain w where w: "readValueOrNull ?t ?v = Some w" "pv_value w = pv_value v"
        "pv_timestamp w = env_clock env (eh_tick h)"
      using db.read_written [of "eh_propStore h" ?v False thesis] by (auto simp: readValueOrNull_def)
    let ?h' = "if pc_changeMode c = ON_CHANGE then doHalEvent (Some ?v, d) ?h3 else release_ptr (Some ?v, d) ?h3"
    let ?evs = "if pc_changeMode c = ON_CHANGE then [(Some ?v, d)] else []"
    have "onFakeValueGenerated env v h = Some ?h'" using run Some by simp
    moreover have "eh_events ?h' = eh_events h @ ?evs" "eh_propStore ?h' = ?t"
      by (simp_all add: doHalEvent_def release_ptr_def)
    moreover have "map fst ?evs = (if pc_changeMode c = ON_CHANGE then [Some ?v] else [])" by simp
    ultimately show ?thesis
      using Some w unfolding Let_def
      by (intro conjI allI impI, simp) (intro exI [of _ ?h'] exI [of _ ?evs] exI [of _ w], simp)
  qed (simp add: run)
qed

subsection \<open>Sample rates\<close>

lemma continuous_rate_limits:
  "list_all (\<lambda>d. pc_changeMode (cd_config d) \<noteq> CONTINUOUS \<or>
     (\<not> f32_isnan (pc_minSampleRate (cd_config d)) \<and> \<not> f32_isnan (pc_maxSampleRate (cd_config d)) \<and>
      \<not> f32_lt (pc_maxSampleRate (cd_config d)) (pc_minSampleRate (cd_config d)) \<and>
      \<not> f32_lt (pc_minSampleRate (cd_config d)) 0x3DCCCCCD \<and>
      \<not> f32_lt 0x41200000 (pc_maxSampleRate (cd_config d)))) kVehicleProperties"
  by code_simp

lemma f32_lt_le_trans: "\<not> f32_lt b a \<Longrightarrow> \<not> f32_lt c b \<Longrightarrow> \<not> f32_isnan b \<Longrightarrow> \<not> f32_lt c a"
  by (auto simp: f32_lt_def)

text \<open>
  C11: whatever sample rate a client asks for, the rate the manager passes on for a continuous property of
  the default table gives the timer a defined interval between a tenth of a second and 16 seconds (so
  subscribing does not divide by zero and the timer's events have a positive period), unless the
  client's rate is a NaN: that one passes the checks, and converting its period is undefined.
\<close>

theorem subscription_rates_safe:
  assumes "it \<in> set kVehicleProperties" "pc_changeMode (cd_config it) = CONTINUOUS"
  shows "(\<not> f32_isnan x \<longrightarrow> (\<exists>n. hertzToNanoseconds (checkSampleRate (cd_config it) x) = Some n \<and>
            99999980 \<le> n \<and> n \<le> 16000002000)) \<and>
    (f32_isnan x \<longrightarrow> checkSampleRate (cd_config it) x = x \<and>
       hertzToNanoseconds (checkSampleRate (cd_config it) x) = None)"
proof (intro conjI impI)
  let ?c = "cd_config it" and ?r = "checkSampleRate (cd_config it) x"
  have lim: "\<not> f32_isnan (pc_minSampleRate ?c)" "\<not> f32_isnan (pc_maxSampleRate ?c)"
      "\<not> f32_lt (pc_maxSampleRate ?c) (pc_minSampleRate ?c)" "\<not> f32_lt (pc_minSampleRate ?c) 0x3DCCCCCD"
      "\<not> f32_lt 0x41200000 (pc_maxSampleRate ?c)"
    using continuous_rate_limits assms by (auto simp: list_all_iff)
  have fixed: "\<not> isSampleRateFixed (pc_changeMode ?c)" using assms(2) by (simp add: isSampleRateFixed_def)
  {
    assume nan: "\<not> f32_isnan x"
    have "\<not> f32_isnan ?r" using nan lim(1,2) fixed by (simp add: checkSampleRate_def)
    moreover have "\<not> f32_lt (pc_maxSampleRate ?c) ?r" "\<not> f32_lt ?r (pc_minSampleRate ?c)"
      using checkSampleRate_bounds [of ?c x] fixed nan lim(3) by blast+
    then have "\<not> f32_lt ?r 0x3DCCCCCD" "\<not> f32_lt 0x41200000 ?r"
      using lim f32_lt_le_trans by blast+
    ultimately show "\<exists>n. hertzToNanoseconds ?r = Some n \<and> 99999980 \<le> n \<and> n \<le> 16000002000"
      unfolding hertzToNanoseconds_def by (rule period_defined)
  }
  assume nan: "f32_isnan x"
  then show "?r = x" using fixed by (simp add: checkSampleRate_def f32_lt_def)
  then show "hertzToNanoseconds ?r = None" using nan by (simp add: hertzToNanoseconds_def period_of_nan)
qed

subsection \<open>Witnesses\<close>

definition demo_json :: "unit JsonLib" where
  "demo_json = \<lparr>js_size = (\<lambda>_. 0), js_elem = (\<lambda>_ _. ()), js_isObject = (\<lambda>_. False), js_member = (\<lambda>_ _. ()),
     js_empty = (\<lambda>_. True), js_asInt = (\<lambda>_. 0), js_asInt64 = (\<lambda>_. 0), js_asFloat = (\<lambda>_. 0), js_asString = (\<lambda>_. [])\<rparr>"

definition demo_env :: "unit HalEnv" where
  "demo_env = \<lparr>env_json = demo_json, env_parseFile = (\<lambda>_. None), env_hash = int \<circ> length,
     env_property_get = (\<lambda>_. []), env_clock = int, env_fresh = kEmptyValue\<rparr>"

text \<open>A HAL with one property, registered with one record of time 9.\<close>

definition demo_hal :: "i32 \<Rightarrow> EmulatedVehicleHal" where
  "demo_hal p = \<lparr>eh_propStore = edge_store p 0 9, eh_hvacPowerProps = kHvacPowerProperties,
     eh_recurrentTimer = new_timer, eh_generatorHub = new_hub, eh_inEmulator = False,
     eh_valuePool = new_pool 4, eh_emulator = True, eh_tick = 0, eh_events = [], eh_sent = []\<rparr>"

lemma new_pool_inv: "pool_inv (new_pool 4)"
  by (simp add: pool_inv_def new_pool_def)

lemma demo_hal_inv: "eh_inv (demo_hal p)"
  by (simp add: eh_inv_def demo_hal_def store_inv_edge new_pool_inv hub_inv_def new_hub_def)

lemma demo_hal_configs: "map_of (ps_configs (eh_propStore (demo_hal p))) p \<noteq> None"
  by (simp add: demo_hal_def edge_store_configs)

lemma demo_freeze: "freeze_registered (eh_propStore (demo_hal OBD2_FREEZE_FRAME))"
  by (simp add: freeze_registered_def demo_hal_def edge_store_def configs_register edge_config_def empty_store_def)

theorem created_hal_has_initial_values_witness:
  "\<exists>h. onCreate demo_env (new_emulated_hal empty_store (new_pool 4) False True) = Some h \<and>
     frame_times (eh_propStore h) = [1, 2]"
proof -
  obtain h where h: "onCreate demo_env (new_emulated_hal empty_store (new_pool 4) False True) = Some h"
      "sorted_wrt (<) (frame_times (eh_propStore h))" "set (frame_times (eh_propStore h)) = {1, 2}"
    using created_hal_has_initial_values [OF new_pool_inv, of demo_env False] by (auto simp: demo_env_def)
  show ?thesis using h(1) sorted_wrt_pair [OF h(2,3)] by simp
qed

abbreviation "DEMO_PROP \<equiv> 0x11400001 :: i32"

definition demo_value :: VehiclePropValue where
  "demo_value = kEmptyValue\<lparr>pv_prop := DEMO_PROP, pv_timestamp := 9, pv_value := empty_raw\<lparr>int32Values := [7]\<rparr>\<rparr>"

lemma demo_ordinary: "ordinary DEMO_PROP" "known_prop DEMO_PROP"
    "readValueOrNull (eh_propStore (demo_hal DEMO_PROP)) demo_value =
       Some (kEmptyValue\<lparr>pv_prop := DEMO_PROP, pv_timestamp := 9\<rparr>)"
    "DEMO_PROP \<notin> set (eh_hvacPowerProps (demo_hal p))"
  by code_simp+

theorem set_then_get_witness:
  "\<exists>h' evs. eh_set demo_env demo_value (demo_hal DEMO_PROP) = Some (OK, h') \<and> eh_events h' = evs \<and>
     map fst evs = [Some demo_value]"
proof -
  have v: "pv_prop demo_value = DEMO_PROP" "pv_status demo_value = STATUS_AVAILABLE"
    by (simp_all add: demo_value_def kEmptyValue_def)
  have h: "eh_emulator (demo_hal p)" "\<not> eh_inEmulator (demo_hal p)" "eh_events (demo_hal p) = []" for p
    by (simp_all add: demo_hal_def)
  have "\<exists>h' evs. eh_set demo_env demo_value (demo_hal DEMO_PROP) = Some (OK, h') \<and>
      eh_sent h' = eh_sent (demo_hal DEMO_PROP) @ [demo_value] \<and> eh_events h' = eh_events (demo_hal DEMO_PROP) @ evs \<and>
      map fst evs = (if eh_inEmulator (demo_hal DEMO_PROP) \<and> pv_prop demo_value = DISPLAY_BRIGHTNESS
        then [] else [Some demo_value]) \<and>
      (\<exists>w d h''. eh_get demo_env demo_value h' = Some (((Some w, d), OK), h'') \<and> pv_prop w = pv_prop demo_value \<and>
         pv_value w = pv_value demo_value \<and> pv_timestamp w = pv_timestamp demo_value \<and> pv_status w = STATUS_AVAILABLE)"
    using demo_ordinary h v demo_hal_configs
    by (intro set_then_get [OF demo_hal_inv _ _ _ _ _ _ demo_ordinary(3)]) (simp_all add: kEmptyValue_def)
  then show ?thesis using h by auto
qed

theorem set_refused_changes_nothing_witness:
  "eh_set demo_env (demo_value\<lparr>pv_status := STATUS_ERROR\<rparr>) (demo_hal DEMO_PROP) = Some (INVALID_ARG, demo_hal DEMO_PROP)"
proof -
  let ?v = "demo_value\<lparr>pv_status := STATUS_ERROR\<rparr>" and ?h = "demo_hal DEMO_PROP"
  have v: "pv_prop ?v = DEMO_PROP" by (simp add: demo_value_def kEmptyValue_def)
  obtain s h' where r: "eh_set demo_env ?v ?h = Some (s, h')"
    using set_specific_ordinary [of ?v demo_env ?h] demo_ordinary by (auto simp: eh_set_def v)
  have "(s = INVALID_ARG \<longleftrightarrow> True) \<and> (s \<noteq> OK \<longrightarrow> h' = ?h)"
    using set_refused_changes_nothing [OF _ _ r] demo_ordinary demo_hal_configs v by auto
  with r show ?thesis by simp
qed

theorem freeze_frames_by_timestamp_witness:
  "\<exists>v d. eh_get demo_env (kEmptyValue\<lparr>pv_prop := OBD2_FREEZE_FRAME_INFO\<rparr>) (demo_hal OBD2_FREEZE_FRAME) =
     Some (((Some v, d), OK), demo_hal OBD2_FREEZE_FRAME) \<and> sorted_wrt (<) (int64Values (pv_value v))"
  using freeze_frames_by_timestamp [OF demo_hal_inv demo_freeze, of "kEmptyValue\<lparr>pv_prop := OBD2_FREEZE_FRAME_INFO\<rparr>"
      "kEmptyValue\<lparr>pv_prop := OBD2_FREEZE_FRAME, pv_value := empty_raw\<lparr>int64Values := [9]\<rparr>\<rparr>" 9 demo_env]
  by auto

theorem freeze_frames_cleared_witness:
  "\<exists>h'. eh_set demo_env (kEmptyValue\<lparr>pv_prop := OBD2_FREEZE_FRAME_CLEAR\<rparr>) (demo_hal OBD2_FREEZE_FRAME) = Some (OK, h') \<and>
     set (frame_times (eh_propStore h')) = {}"
proof -
  have "OBD2_FREEZE_FRAME_CLEAR \<notin> set (eh_hvacPowerProps (demo_hal p))" for p
    by (simp add: demo_hal_def kHvacPowerProperties_def OBD2_FREEZE_FRAME_CLEAR_def)
  from freeze_frames_cleared [OF demo_hal_inv demo_freeze, of "kEmptyValue\<lparr>pv_prop := OBD2_FREEZE_FRAME_CLEAR\<rparr>", OF _ this refl]
  show ?thesis by (simp add: kEmptyValue_def empty_raw_def) blast
qed

definition demo_report :: VehiclePropValue where
  "demo_report = kEmptyValue\<lparr>pv_prop := AP_POWER_STATE_REPORT, pv_timestamp := 9,
     pv_value := empty_raw\<lparr>int32Values := [REPORT_SHUTDOWN_START, 0]\<rparr>\<rparr>"

lemma demo_report_read:
  "readValueOrNull (eh_propStore (demo_hal AP_POWER_STATE_REPORT)) demo_report =
     Some (kEmptyValue\<lparr>pv_prop := AP_POWER_STATE_REPORT, pv_timestamp := 9\<rparr>)"
  "AP_POWER_STATE_REPORT \<notin> set (eh_hvacPowerProps (demo_hal p))"
  by code_simp+

theorem power_report_answered_witness:
  "\<exists>h'. eh_set demo_env demo_report (demo_hal AP_POWER_STATE_REPORT) = Some (OK, h') \<and>
     map (\<lambda>e. map_option (\<lambda>x. (pv_prop x, int32Values (pv_value x))) (fst e)) (eh_events h') =
       [Some (AP_POWER_STATE_REQ, [REQ_FINISHED, 0]), Some (AP_POWER_STATE_REPORT, [REPORT_SHUTDOWN_START, 0])]"
proof -
  let ?h = "demo_hal AP_POWER_STATE_REPORT"
  have v: "pv_prop demo_report = AP_POWER_STATE_REPORT" "pv_status demo_report = STATUS_AVAILABLE"
      "int32Values (pv_value demo_report) = REPORT_SHUTDOWN_START # [0]"
    by (simp_all add: demo_report_def kEmptyValue_def)
  have h: "eh_emulator ?h" "eh_events ?h = []" by (simp_all add: demo_hal_def)
  have c: "map_of (ps_configs (eh_propStore ?h)) (pv_prop demo_report) \<noteq> None"
    unfolding v(1) by (rule demo_hal_configs)
  have st: "pv_status (kEmptyValue\<lparr>pv_prop := AP_POWER_STATE_REPORT, pv_timestamp := 9\<rparr>) = STATUS_AVAILABLE"
    by (simp add: kEmptyValue_def)
  from power_report_answered [OF demo_hal_inv v(1) demo_report_read(2) h(1) v(2) c demo_report_read(1) st,
    THEN conjunct2, rule_format, OF v(3), of demo_env]
  obtain h' evs where h': "eh_set demo_env demo_report ?h = Some (OK, h')" "eh_events h' = eh_events ?h @ evs"
    "map (\<lambda>e. map_option (\<lambda>x. (pv_prop x, int32Values (pv_value x))) (fst e)) evs =
       (if REPORT_SHUTDOWN_START \<in> {1, 3, 8} then [Some (AP_POWER_STATE_REQ, [REQ_ON, 0])]
        else if REPORT_SHUTDOWN_START \<in> {2, 5} then [Some (AP_POWER_STATE_REQ, [REQ_FINISHED, 0])] else []) @
       [Some (AP_POWER_STATE_REPORT, REPORT_SHUTDOWN_START # [0])]"
    by blast
  from h'(2,3) h(2) h'(1) show ?thesis by (intro exI [of _ h']) simp
qed

definition demo_store :: VehiclePropertyStore where
  "demo_store = snd (writeValue demo_value True
     (registerProperty ((edge_config DEMO_PROP)\<lparr>pc_changeMode := CONTINUOUS\<rparr>) None empty_store))"

theorem timer_reports_continuous_witness:
  "\<exists>h'. onContinuousPropertyTimer demo_env [DEMO_PROP, 5] ((demo_hal 5)\<lparr>eh_propStore := demo_store\<rparr>) = Some h' \<and>
     length (eh_events h') = 1"
proof -
  let ?h = "(demo_hal 5)\<lparr>eh_propStore := demo_store\<rparr>"
  have inv: "eh_inv ?h"
    unfolding demo_store_def
    by (intro eh_inv_store demo_hal_inv store_inv_write store_inv_register store_inv_empty) (simp add: token_ok_def)
  have tv: "timer_value ?h DEMO_PROP = Some demo_value" "timer_value ?h 5 = None"
    by code_simp+
  have tv_prop: "pv_prop demo_value = DEMO_PROP" by (simp add: demo_value_def)
  have "\<forall>p \<in> set [DEMO_PROP, 5]. \<forall>v. timer_value ?h p = Some v \<longrightarrow> known_prop (pv_prop v)"
    unfolding list.set ball_simps tv using demo_ordinary(2) tv_prop by simp
  from timer_reports_continuous [OF inv this, of demo_env] obtain h' evs where
    h': "onContinuousPropertyTimer demo_env [DEMO_PROP, 5] ?h = Some h'" "eh_events h' = eh_events ?h @ evs"
    "map (\<lambda>e. map_option (\<lambda>v. (pv_prop v, pv_areaId v, pv_value v)) (fst e)) evs =
      map (\<lambda>v. Some (pv_prop v, pv_areaId v, pv_value v)) (List.map_filter (timer_value ?h) [DEMO_PROP, 5])"
    by blast
  have "List.map_filter (timer_value ?h) [DEMO_PROP, 5] = [demo_value]"
    unfolding map_filter_simps tv option.case by (rule refl)
  with arg_cong [OF h'(3), of length] have "length evs = 1" by simp
  moreover have "eh_events ?h = []" by (simp add: demo_hal_def)
  ultimately have "length (eh_events h') = 1" unfolding h'(2) by simp
  with h'(1) show ?thesis by blast
qed

theorem tire_pressure_never_reported_witness:
  "\<exists>h. onCreate demo_env (created (new_pool 4) False) = Some h \<and> isContinuousProperty TIRE_PRESSURE h"
proof -
  obtain h where h: "onCreate demo_env (created (new_pool 4) False) = Some h"
    by (rule onCreate_result [OF new_pool_inv, of demo_env False]) blast
  with tire_pressure_never_reported [OF new_pool_inv h] show ?thesis by blast
qed

theorem fake_value_effect_witness:
  "onFakeValueGenerated demo_env demo_value (demo_hal 5) = None"
proof -
  have "getConfigOrNull (eh_propStore (demo_hal 5)) (pv_prop demo_value) = None" "known_prop (pv_prop demo_value)"
    by code_simp+
  with fake_value_effect [OF demo_hal_inv [of 5] this(2), of demo_env] show ?thesis by blast
qed

theorem subscription_rates_safe_witness:
  "\<exists>it \<in> set kVehicleProperties. \<exists>n. hertzToNanoseconds (checkSampleRate (cd_config it) 0x42C80000) = Some n \<and> 0 < n"
proof -
  have "list_ex (\<lambda>d. pc_prop (cd_config d) = TIRE_PRESSURE) kVehicleProperties"
    by (rule tire_pressure_declared(2))
  then obtain it where "it \<in> set kVehicleProperties" "pc_prop (cd_config it) = TIRE_PRESSURE"
    by (auto simp: list_ex_iff)
  moreover from this tire_pressure_declared(1) have "pc_changeMode (cd_config it) = CONTINUOUS"
    by (auto simp: list_all_iff)
  moreover have "\<not> f32_isnan 0x42C80000" by code_simp
  ultimately show ?thesis using subscription_rates_safe [of it "0x42C80000"] by force
qed

end
