(* ===== verification/VehicleEmulator.thy ===== *)
theory VehicleEmulator
  imports HalBehaviour
begin

text \<open>
  VehicleEmulator (impl/vhal_v2_0/VehicleEmulator.cpp): the requests a host sends to the emulated HAL,
  and the protocol buffer messages (proto/VehicleHalProto.proto) they travel in.

  A message is a record of its fields; an optional or required scalar that has not been set is
  \<open>None\<close>, and reading it gives the default value. \<open>initialized\<close> is the library's \<open>IsInitialized\<close>: all
  required fields are set. A message that is not initialised cannot be parsed by the receiver. A
  request handler returns \<open>None\<close> where the code reads an element a repeated field does not have, or
  where the HAL aborts.
\<close>

subsection \<open>Messages\<close>

record ProtoAreaConfig =
  pa_area_id :: "i32 option"
  pa_min_int32 :: "i32 option"
  pa_max_int32 :: "i32 option"
  pa_min_int64 :: "i64 option"
  pa_max_int64 :: "i64 option"
  pa_min_float :: "f32 option"
  pa_max_float :: "f32 option"

record ProtoPropConfig =
  pg_prop :: "i32 option"
  pg_access :: "i32 option"
  pg_change_mode :: "i32 option"
  pg_value_type :: "i32 option"
  pg_area_configs :: "ProtoAreaConfig list"
  pg_config_array :: "i32 list"
  pg_config_string :: "string option"
  pg_min_sample_rate :: "f32 option"
  pg_max_sample_rate :: "f32 option"

record ProtoPropValue =
  pp_prop :: "i32 option"
  pp_value_type :: "i32 option"
  pp_timestamp :: "i64 option"
  pp_status :: "i32 option"
  pp_area_id :: "i32 option"
  pp_int32_values :: "i32 list"
  pp_int64_values :: "i64 list"
  pp_float_values :: "f32 list"
  pp_string_value :: "string option"
  pp_bytes_value :: "u8 list option"

record ProtoPropGet =
  pr_prop :: "i32 option"
  pr_area_id :: "i32 option"

datatype MsgType = GET_CONFIG_CMD | GET_CONFIG_RESP | GET_CONFIG_ALL_CMD | GET_CONFIG_ALL_RESP
  | GET_PROPERTY_CMD | GET_PROPERTY_RESP | GET_PROPERTY_ALL_CMD | GET_PROPERTY_ALL_RESP
  | SET_PROPERTY_CMD | SET_PROPERTY_RESP | SET_PROPERTY_ASYNC

datatype EmulatorStatus = RESULT_OK | ERROR_UNKNOWN | ERROR_UNIMPLEMENTED_CMD | ERROR_INVALID_PROPERTY
  | ERROR_INVALID_AREA_ID | ERROR_PROPERTY_UNINITIALIZED | ERROR_WRITE_ONLY_PROPERTY
  | ERROR_MEMORY_ALLOC_FAILED | ERROR_INVALID_OPERATION

record EmulatorMessage =
  em_msg_type :: "MsgType option"
  em_status :: "EmulatorStatus option"
  em_prop :: "ProtoPropGet list"
  em_config :: "ProtoPropConfig list"
  em_value :: "ProtoPropValue list"

definition empty_message :: EmulatorMessage where
  "empty_message = \<lparr>em_msg_type = None, em_status = None, em_prop = [], em_config = [], em_value = []\<rparr>"

definition initialized :: "EmulatorMessage \<Rightarrow> bool" where
  "initialized m \<longleftrightarrow> em_msg_type m \<noteq> None \<and> (\<forall>g\<in>set (em_prop m). pr_prop g \<noteq> None) \<and>
     (\<forall>c\<in>set (em_config m). pg_prop c \<noteq> None \<and> (\<forall>a\<in>set (pg_area_configs c). pa_area_id a \<noteq> None)) \<and>
     (\<forall>v\<in>set (em_value m). pp_prop v \<noteq> None)"

text \<open>Reading a scalar: its value or the default.\<close>

definition or_zero :: "int option \<Rightarrow> int" where
  "or_zero x = (case x of None \<Rightarrow> 0 | Some n \<Rightarrow> n)"

subsection \<open>Values and configurations as messages\<close>

definition populateProtoVehiclePropValue :: "VehiclePropValue \<Rightarrow> ProtoPropValue" where
  "populateProtoVehiclePropValue v =
     \<lparr>pp_prop = Some (pv_prop v), pp_value_type = Some (getPropType (pv_prop v)),
      pp_timestamp = Some (pv_timestamp v), pp_status = Some (pv_status v),
      pp_area_id = Some (pv_areaId v),
      pp_int32_values = int32Values (pv_value v), pp_int64_values = int64Values (pv_value v),
      pp_float_values = floatValues (pv_value v),
      pp_string_value = (if length (stringValue (pv_value v)) > 0 then Some (stringValue (pv_value v)) else None),
      pp_bytes_value = (if length (bytes (pv_value v)) > 0 then Some (bytes (pv_value v)) else None)\<rparr>"

definition empty_area_config :: ProtoAreaConfig where
  "empty_area_config = \<lparr>pa_area_id = None, pa_min_int32 = None, pa_max_int32 = None, pa_min_int64 = None,
     pa_max_int64 = None, pa_min_float = None, pa_max_float = None\<rparr>"

definition proto_area_configs :: "VehiclePropConfig \<Rightarrow> ProtoAreaConfig list" where
  "proto_area_configs cfg = (let t = getPropType (pc_prop cfg) in
     case pc_areaConfigs cfg of [] \<Rightarrow> []
     | a # _ \<Rightarrow>
         if t = TYPE_INT64 then [empty_area_config\<lparr>pa_min_int64 := Some (ac_minInt64Value a),
                                   pa_max_int64 := Some (ac_maxInt64Value a)\<rparr>]
         else if t = TYPE_FLOAT then [empty_area_config\<lparr>pa_min_float := Some (ac_minFloatValue a),
                                   pa_max_float := Some (ac_maxFloatValue a)\<rparr>]
         else if t = TYPE_INT32 then [empty_area_config\<lparr>pa_min_int32 := Some (ac_minInt32Value a),
                                   pa_max_int32 := Some (ac_maxInt32Value a)\<rparr>]
         else [])"

definition populateProtoVehicleConfig :: "VehiclePropConfig \<Rightarrow> ProtoPropConfig" where
  "populateProtoVehicleConfig cfg =
     \<lparr>pg_prop = Some (pc_prop cfg), pg_access = Some (pc_access cfg),
      pg_change_mode = Some (pc_changeMode cfg), pg_value_type = Some (getPropType (pc_prop cfg)),
      pg_area_configs = proto_area_configs cfg, pg_config_array = pc_configArray cfg,
      pg_config_string = (if length (pc_configString cfg) > 0 then Some (pc_configString cfg) else None),
      pg_min_sample_rate = Some (pc_minSampleRate cfg), pg_max_sample_rate = Some (pc_maxSampleRate cfg)\<rparr>"

text \<open>A string as the C string \<open>c_str()\<close> gives it: up to the first NUL.\<close>

definition c_str :: "string \<Rightarrow> string" where
  "c_str s = takeWhile (\<lambda>c. c \<noteq> CHR 0x00) s"

definition value_from_proto :: "i64 \<Rightarrow> ProtoPropValue \<Rightarrow> VehiclePropValue" where
  "value_from_proto now p =
     \<lparr>pv_timestamp = now, pv_areaId = or_zero (pp_area_id p), pv_prop = or_zero (pp_prop p),
      pv_status = or_zero (pp_status p),
      pv_value = \<lparr>int32Values = pp_int32_values p, floatValues = pp_float_values p,
        int64Values = pp_int64_values p,
        bytes = (case pp_bytes_value p of None \<Rightarrow> [] | Some bs \<Rightarrow> bs),
        stringValue = (case pp_string_value p of None \<Rightarrow> [] | Some s \<Rightarrow> c_str s)\<rparr>\<rparr>"

subsection \<open>Requests\<close>

definition doSetValueFromClient :: "VehiclePropValue \<Rightarrow> EmulatorMessage" where
  "doSetValueFromClient v = empty_message\<lparr>em_value := [populateProtoVehiclePropValue v],
     em_status := Some RESULT_OK, em_msg_type := Some SET_PROPERTY_ASYNC\<rparr>"

definition doGetConfig ::
  "EmulatorMessage \<Rightarrow> EmulatorMessage \<Rightarrow> EmulatedVehicleHal \<Rightarrow> (EmulatorMessage \<times> EmulatedVehicleHal) option" where
  "doGetConfig rx resp h =
     do { getProp \<leftarrow> vec_at (em_prop rx) 0;
          let resp = resp\<lparr>em_msg_type := Some GET_CONFIG_RESP, em_status := Some ERROR_INVALID_PROPERTY\<rparr>;
          Some (case find (\<lambda>cfg. pc_prop cfg = or_zero (pr_prop getProp)) (eh_listProperties h) of
                  None \<Rightarrow> resp
                | Some cfg \<Rightarrow> resp\<lparr>em_config := em_config resp @ [populateProtoVehicleConfig cfg],
                                      em_status := Some RESULT_OK\<rparr>, h) }"

definition doGetConfigAll ::
  "EmulatorMessage \<Rightarrow> EmulatorMessage \<Rightarrow> EmulatedVehicleHal \<Rightarrow> (EmulatorMessage \<times> EmulatedVehicleHal) option" where
  "doGetConfigAll rx resp h =
     Some (resp\<lparr>em_msg_type := Some GET_CONFIG_ALL_RESP, em_status := Some RESULT_OK,
                em_config := em_config resp @ map populateProtoVehicleConfig (eh_listProperties h)\<rparr>, h)"

definition doGetProperty ::
  "'j HalEnv \<Rightarrow> EmulatorMessage \<Rightarrow> EmulatorMessage \<Rightarrow> EmulatedVehicleHal \<Rightarrow>
   (EmulatorMessage \<times> EmulatedVehicleHal) option" where
  "doGetProperty env rx resp h =
     do { getProp \<leftarrow> vec_at (em_prop rx) 0;
          let request = kEmptyValue\<lparr>pv_prop := or_zero (pr_prop getProp), pv_areaId := or_zero (pr_area_id getProp)\<rparr>;
          ((val, halStatus), h) \<leftarrow> eh_get env request h;
          let resp = resp\<lparr>em_msg_type := Some GET_PROPERTY_RESP\<rparr>;
          Some (case fst val of
                  None \<Rightarrow> (resp\<lparr>em_status := Some ERROR_INVALID_PROPERTY\<rparr>, h)
                | Some v \<Rightarrow> (resp\<lparr>em_value := em_value resp @ [populateProtoVehiclePropValue v],
                                  em_status := Some RESULT_OK\<rparr>, release_ptr val h)) }"

definition doGetPropertyAll ::
  "EmulatorMessage \<Rightarrow> EmulatorMessage \<Rightarrow> EmulatedVehicleHal \<Rightarrow> (EmulatorMessage \<times> EmulatedVehicleHal) option" where
  "doGetPropertyAll rx resp h =
     Some (resp\<lparr>em_msg_type := Some GET_PROPERTY_ALL_RESP, em_status := Some RESULT_OK,
                em_value := em_value resp @ map populateProtoVehiclePropValue (getAllProperties h)\<rparr>, h)"

definition doSetProperty ::
  "'j HalEnv \<Rightarrow> EmulatorMessage \<Rightarrow> EmulatorMessage \<Rightarrow> EmulatedVehicleHal \<Rightarrow>
   (EmulatorMessage \<times> EmulatedVehicleHal) option" where
  "doSetProperty env rx resp h =
     do { protoVal \<leftarrow> vec_at (em_value rx) 0;
          let (now, h) = read_clock env h;
          (halRes, h) \<leftarrow> setPropertyFromVehicle env (value_from_proto now protoVal) h;
          Some (resp\<lparr>em_msg_type := Some SET_PROPERTY_RESP,
                     em_status := Some (if halRes then RESULT_OK else ERROR_INVALID_PROPERTY)\<rparr>, h) }"

definition processMessage ::
  "'j HalEnv \<Rightarrow> EmulatorMessage \<Rightarrow> EmulatorMessage \<Rightarrow> EmulatedVehicleHal \<Rightarrow>
   (EmulatorMessage \<times> EmulatedVehicleHal) option" where
  "processMessage env rx resp h = (case em_msg_type rx of
     Some GET_CONFIG_CMD \<Rightarrow> doGetConfig rx resp h
   | Some GET_CONFIG_ALL_CMD \<Rightarrow> doGetConfigAll rx resp h
   | Some GET_PROPERTY_CMD \<Rightarrow> doGetProperty env rx resp h
   | Some GET_PROPERTY_ALL_CMD \<Rightarrow> doGetPropertyAll rx resp h
   | Some SET_PROPERTY_CMD \<Rightarrow> doSetProperty env rx resp h
   | None \<Rightarrow> doGetConfig rx resp h
   | _ \<Rightarrow> Some (resp\<lparr>em_status := Some ERROR_UNIMPLEMENTED_CMD\<rparr>, h))"

subsection \<open>Properties\<close>

text \<open>A value survives the trip to the host and back, stamped with the current time; of the string only
  the part before the first NUL arrives.\<close>

lemma emulator_value_trip:
  "value_from_proto now (populateProtoVehiclePropValue v) =
     v\<lparr>pv_timestamp := now, pv_value := (pv_value v)\<lparr>stringValue := c_str (stringValue (pv_value v))\<rparr>\<rparr>"
  by (cases v; cases "pv_value v")
    (auto simp: value_from_proto_def populateProtoVehiclePropValue_def or_zero_def c_str_def)

lemma c_str_id: "CHR 0x00 \<notin> set s \<Longrightarrow> c_str s = s"
  by (auto simp: c_str_def takeWhile_eq_all_conv)

text \<open>Which replies are complete.\<close>

definition needs_area :: "VehiclePropConfig \<Rightarrow> bool" where
  "needs_area cfg \<longleftrightarrow> pc_areaConfigs cfg \<noteq> [] \<and> getPropType (pc_prop cfg) \<in> {TYPE_INT32, TYPE_INT64, TYPE_FLOAT}"

lemma config_complete:
  "pg_prop (populateProtoVehicleConfig cfg) = Some (pc_prop cfg)"
  "(\<forall>a\<in>set (pg_area_configs (populateProtoVehicleConfig cfg)). \<exists>n. pa_area_id a = Some n) \<longleftrightarrow>
     \<not> needs_area cfg"
  by (cases "pc_areaConfigs cfg"; simp add: populateProtoVehicleConfig_def proto_area_configs_def
      needs_area_def empty_area_config_def Let_def)+

lemma initialized_configs:
  "em_msg_type m \<noteq> None \<Longrightarrow> em_prop m = [] \<Longrightarrow> em_value m = [] \<Longrightarrow>
   em_config m = map populateProtoVehicleConfig cfgs \<Longrightarrow>
   initialized m \<longleftrightarrow> (\<forall>cfg\<in>set cfgs. \<not> needs_area cfg)"
  by (simp add: initialized_def config_complete)

lemma value_complete: "pp_prop (populateProtoVehiclePropValue v) = Some (pv_prop v)"
  by (simp add: populateProtoVehiclePropValue_def)

text \<open>
  Which replies the host can parse. A reply to a request for values, or to a set, always has all
  required fields. A reply with the configuration of an \<open>INT32\<close>, \<open>INT64\<close> or \<open>FLOAT\<close> property that has
  area configurations never has: its area has no \<open>area_id\<close>. So \<open>GET_CONFIG_ALL\<close> cannot be answered
  as soon as one such property exists. A reply to an unknown command has no message type.
\<close>

theorem emulator_replies_complete:
  assumes "processMessage env rx empty_message h = Some (resp, h')" "em_msg_type rx = Some t"
  shows "initialized resp \<longleftrightarrow>
    (case t of
       GET_CONFIG_CMD \<Rightarrow> (\<forall>g cfg. vec_at (em_prop rx) 0 = Some g \<and>
         find (\<lambda>c. pc_prop c = or_zero (pr_prop g)) (eh_listProperties h) = Some cfg \<longrightarrow> \<not> needs_area cfg)
     | GET_CONFIG_ALL_CMD \<Rightarrow> (\<forall>cfg\<in>set (eh_listProperties h). \<not> needs_area cfg)
     | _ \<Rightarrow> t \<in> {GET_PROPERTY_CMD, GET_PROPERTY_ALL_CMD, SET_PROPERTY_CMD})"
proof (cases t)
  case GET_CONFIG_CMD
  then obtain g where g: "vec_at (em_prop rx) 0 = Some g" and resp: "resp =
      (case find (\<lambda>c. pc_prop c = or_zero (pr_prop g)) (eh_listProperties h) of
         None \<Rightarrow> empty_message\<lparr>em_msg_type := Some GET_CONFIG_RESP, em_status := Some ERROR_INVALID_PROPERTY\<rparr>
       | Some cfg \<Rightarrow> empty_message\<lparr>em_msg_type := Some GET_CONFIG_RESP, em_status := Some RESULT_OK,
           em_config := [populateProtoVehicleConfig cfg]\<rparr>)"
    using assms by (cases "vec_at (em_prop rx) 0")
      (auto simp: processMessage_def doGetConfig_def empty_message_def Let_def split: option.splits)
  show ?thesis
    using GET_CONFIG_CMD g initialized_configs [of resp]
    by (cases "find (\<lambda>c. pc_prop c = or_zero (pr_prop g)) (eh_listProperties h)")
      (simp_all add: resp empty_message_def initialized_def config_complete)
next
  case GET_CONFIG_ALL_CMD
  then have "resp = empty_message\<lparr>em_msg_type := Some GET_CONFIG_ALL_RESP, em_status := Some RESULT_OK,
      em_config := map populateProtoVehicleConfig (eh_listProperties h)\<rparr>"
    using assms by (auto simp: processMessage_def doGetConfigAll_def empty_message_def)
  then show ?thesis
    using GET_CONFIG_ALL_CMD initialized_configs [of resp "eh_listProperties h"] by (simp add: empty_message_def)
next
  case GET_PROPERTY_CMD
  then show ?thesis using assms
    by (auto simp: processMessage_def doGetProperty_def initialized_def empty_message_def value_complete Let_def
        split: option.splits Option.bind_splits prod.splits)
next
  case GET_PROPERTY_ALL_CMD
  then show ?thesis using assms
    by (auto simp: processMessage_def doGetPropertyAll_def initialized_def empty_message_def value_complete)
next
  case SET_PROPERTY_CMD
  then show ?thesis using assms
    by (auto simp: processMessage_def doSetProperty_def initialized_def empty_message_def Let_def
        split: option.splits Option.bind_splits prod.splits)
qed (use assms in \<open>auto simp: processMessage_def initialized_def empty_message_def\<close>)

text \<open>A host asks for the configuration of the demonstration property, once as it is and once as it
  would be with an area configuration.\<close>

definition emulated_demo :: "VehicleAreaConfig list \<Rightarrow> EmulatedVehicleHal" where
  "emulated_demo areas = (demo_hal DEMO_PROP)\<lparr>eh_propStore := registerProperty
     \<lparr>pc_prop = DEMO_PROP, pc_access = 3, pc_changeMode = 1, pc_areaConfigs = areas, pc_configArray = [],
      pc_configString = [], pc_minSampleRate = 0, pc_maxSampleRate = 0\<rparr> None empty_store\<rparr>"

definition get_config_request :: EmulatorMessage where
  "get_config_request = empty_message\<lparr>em_msg_type := Some GET_CONFIG_CMD,
     em_prop := [\<lparr>pr_prop = Some DEMO_PROP, pr_area_id = None\<rparr>]\<rparr>"

theorem emulator_replies_complete_witness:
  "\<exists>resp. processMessage demo_env get_config_request empty_message
       (emulated_demo [\<lparr>ac_areaId = 1, ac_minInt32Value = 0, ac_maxInt32Value = 9, ac_minInt64Value = 0,
          ac_maxInt64Value = 0, ac_minFloatValue = 0, ac_maxFloatValue = 0\<rparr>]) =
     Some (resp, emulated_demo [\<lparr>ac_areaId = 1, ac_minInt32Value = 0, ac_maxInt32Value = 9, ac_minInt64Value = 0,
          ac_maxInt64Value = 0, ac_minFloatValue = 0, ac_maxFloatValue = 0\<rparr>]) \<and> \<not> initialized resp"
proof -
  define area where "area = \<lparr>ac_areaId = 1, ac_minInt32Value = 0, ac_maxInt32Value = 9, ac_minInt64Value = 0,
          ac_maxInt64Value = 0, ac_minFloatValue = 0, ac_maxFloatValue = 0 :: f32\<rparr>"
  define cfg where "cfg = \<lparr>pc_prop = DEMO_PROP, pc_access = 3, pc_changeMode = 1, pc_areaConfigs = [area],
      pc_configArray = [], pc_configString = [], pc_minSampleRate = 0, pc_maxSampleRate = 0\<rparr>"
  have list: "eh_listProperties (emulated_demo [area]) = [cfg]"
    by (simp add: emulated_demo_def eh_listProperties_def registerProperty_def map_emplace_def getAllConfigs_def
        empty_store_def cfg_def)
  obtain resp where run: "processMessage demo_env get_config_request empty_message (emulated_demo [area]) =
      Some (resp, emulated_demo [area])"
    by (simp add: processMessage_def doGetConfig_def get_config_request_def Let_def empty_message_def)
  have "needs_area cfg"
    by (simp add: needs_area_def cfg_def getPropType_def)
  then have "\<not> initialized resp"
    using emulator_replies_complete [OF run, of GET_CONFIG_CMD] list
    by (simp add: get_config_request_def or_zero_def cfg_def)
  then show ?thesis using run unfolding area_def by blast
qed

text \<open>
  What the host sets, the host gets. For an ordinary property without record tokens, a
  \<open>SET_PROPERTY\<close> message made from a value is answered \<open>RESULT_OK\<close>, exactly one event with that value
  at the current time is reported to the HAL's client, and a following \<open>GET_PROPERTY\<close> of the same
  property and area is answered with the value, its status and that time.
\<close>

theorem emulator_set_then_get:
  fixes env :: "'j HalEnv"
  assumes inv: "eh_inv h" and "ordinary (pv_prop v)" "known_prop (pv_prop v)"
    and cfg: "map_of (ps_configs (eh_propStore h)) (pv_prop v) = Some rc" "rc_tokenFunction rc = None"
    and str: "CHR 0x00 \<notin> set (stringValue (pv_value v))"
    and rx: "em_msg_type rx = Some SET_PROPERTY_CMD" "em_value rx = [populateProtoVehiclePropValue v]"
    and get: "em_msg_type ask = Some GET_PROPERTY_CMD"
      "em_prop ask = [\<lparr>pr_prop = Some (pv_prop v), pr_area_id = Some (pv_areaId v)\<rparr>]"
  defines "now \<equiv> env_clock env (eh_tick h)"
  shows "\<exists>resp h' d. processMessage env rx empty_message h = Some (resp, h') \<and>
      em_status resp = Some RESULT_OK \<and> eh_events h' = eh_events h @ [(Some (v\<lparr>pv_timestamp := now\<rparr>), d)] \<and>
      (\<exists>resp2 h2 p. processMessage env ask empty_message h' = Some (resp2, h2) \<and>
         em_status resp2 = Some RESULT_OK \<and> em_value resp2 = [p] \<and>
         pp_prop p = Some (pv_prop v) \<and> pp_status p = Some (pv_status v) \<and> pp_timestamp p = Some now \<and>
         pv_value (value_from_proto now p) = pv_value v)"
proof -
  define w where "w = v\<lparr>pv_timestamp := now\<rparr>"
  have w: "value_from_proto now (populateProtoVehiclePropValue v) = w" "pv_prop w = pv_prop v"
    "pv_areaId w = pv_areaId v" "pv_value w = pv_value v" "pv_status w = pv_status v" "pv_timestamp w = now"
    using c_str_id [OF str] by (simp_all add: w_def emulator_value_trip)
  define h1 where "h1 = h\<lparr>eh_tick := eh_tick h + 1\<rparr>"
  define t where "t = snd (writeValue w True (eh_propStore h1))"
  have i1: "eh_inv h1" using inv by (simp add: eh_inv_def h1_def)
  have c1: "map_of (ps_configs (eh_propStore h1)) (pv_prop w) \<noteq> None" using cfg by (simp add: h1_def w)
  define h2 where "h2 = h1\<lparr>eh_propStore := t\<rparr>"
  have i2: "eh_inv h2" using eh_inv_write_store [OF i1, of w True] by (simp add: write_store_eq h2_def t_def)
  have "known_prop (pv_prop w)" using assms(3) w by simp
  then obtain d pool where po: "pool_obtain env w h2 = Some ((Some w, d), h2\<lparr>eh_valuePool := pool\<rparr>)" "pool_inv pool"
    by (rule pool_obtain_copies [OF i2])
  define h3 where "h3 = doHalEvent (Some w, d) (h2\<lparr>eh_valuePool := pool\<rparr>)"
  have i3: "eh_inv h3" using kept_pool [OF i2 po(2)] by (simp add: kept_def h3_def)
  have written: "fst (writeValue w True (eh_propStore h1))" using c1 by (simp add: db.wr_result)
  have "setPropertyFromVehicle env w h1 = Some (True, h3)"
    using assms(2) written po(1) w(2)
    by (simp add: setPropertyFromVehicle_def ordinary_def write_store_eq h2_def t_def h3_def Let_def)
  then have set: "processMessage env rx empty_message h =
      Some (empty_message\<lparr>em_msg_type := Some SET_PROPERTY_RESP, em_status := Some RESULT_OK\<rparr>, h3)"
    using rx w(1) by (simp add: processMessage_def doSetProperty_def read_clock_def h1_def now_def Let_def)
  define ask_value where "ask_value = kEmptyValue\<lparr>pv_prop := pv_prop v, pv_areaId := pv_areaId v\<rparr>"
  have same: "getRecordIdLocked (eh_propStore h1) ask_value = getRecordIdLocked (eh_propStore h1) w"
    using cfg w by (simp add: getRecordIdLocked_def record_area_def record_token_def ask_value_def h1_def)
  obtain u where u: "readValueOrNull t ask_value = Some u" "pv_value u = pv_value v" "pv_status u = pv_status v"
    "pv_timestamp u = now"
    using db.wr_lookup [of w True "eh_propStore h1" "getRecordIdLocked (eh_propStore h1) w"] c1 same w
    by (auto simp: readValueOrNull_def t_def db.wr_ident updated_record_def split: option.splits)
  have pu: "pv_prop u = pv_prop v"
    using store_inv_record [of t "getRecordIdLocked t ask_value" u] i2 u(1) cfg
    by (auto simp: eh_inv_def h2_def readValueOrNull_def getValueOrNullLocked_def getRecordIdLocked_def t_def h1_def
        ask_value_def split: option.splits)
  have "eh_propStore h3 = t" by (simp add: h3_def h2_def doHalEvent_def)
  then obtain d' h4 where read: "eh_get env ask_value h3 = Some (((Some u, d'), OK), h4)"
    using eh_get_ordinary [OF i3, of ask_value u env] assms(2,3) u(1) pu by (auto simp: ask_value_def)
  have "processMessage env ask empty_message h3 = Some (empty_message\<lparr>em_msg_type := Some GET_PROPERTY_RESP,
      em_value := [populateProtoVehiclePropValue u], em_status := Some RESULT_OK\<rparr>, release_ptr (Some u, d') h4)"
    using get read by (simp add: processMessage_def doGetProperty_def or_zero_def ask_value_def empty_message_def Let_def)
  moreover have "pv_value (value_from_proto now (populateProtoVehiclePropValue u)) = pv_value v"
    using u(2) c_str_id [OF str] by (simp add: emulator_value_trip)
  moreover have "eh_events h3 = eh_events h @ [(Some w, d)]"
    by (simp add: h3_def h2_def h1_def doHalEvent_def)
  ultimately show ?thesis
    using set u pu by (auto simp: populateProtoVehiclePropValue_def w_def)
qed

text \<open>The host sets the demonstration property to 7.\<close>

definition set_seven :: EmulatorMessage where
  "set_seven = empty_message\<lparr>em_msg_type := Some SET_PROPERTY_CMD,
     em_value := [populateProtoVehiclePropValue demo_value]\<rparr>"

definition get_seven :: EmulatorMessage where
  "get_seven = empty_message\<lparr>em_msg_type := Some GET_PROPERTY_CMD,
     em_prop := [\<lparr>pr_prop = Some DEMO_PROP, pr_area_id = Some 0\<rparr>]\<rparr>"

theorem emulator_set_then_get_witness:
  "\<exists>resp h' d. processMessage demo_env set_seven empty_message (emulated_demo []) = Some (resp, h') \<and>
     eh_events h' = [(Some (demo_value\<lparr>pv_timestamp := env_clock demo_env 0\<rparr>), d)] \<and>
     (\<exists>resp2 h2 p. processMessage demo_env get_seven empty_message h' = Some (resp2, h2) \<and>
        em_value resp2 = [p] \<and> int32Values (pv_value (value_from_proto 0 p)) = [7])"
proof -
  let ?h = "emulated_demo []"
  have v: "pv_prop demo_value = DEMO_PROP" "pv_areaId demo_value = 0" "stringValue (pv_value demo_value) = []"
    "int32Values (pv_value demo_value) = [7]"
    by (simp_all add: demo_value_def kEmptyValue_def empty_raw_def)
  have tick: "eh_tick ?h = 0" "eh_events ?h = []" by (simp_all add: emulated_demo_def demo_hal_def)
  have "store_inv (eh_propStore ?h)"
    by (simp add: emulated_demo_def registerProperty_def map_emplace_def empty_store_def store_inv_def token_ok_def)
  then have inv: "eh_inv ?h" using demo_hal_inv [of DEMO_PROP] by (simp add: eh_inv_def emulated_demo_def)
  obtain rc where rc: "map_of (ps_configs (eh_propStore ?h)) (pv_prop demo_value) = Some rc" "rc_tokenFunction rc = None"
    by (simp add: emulated_demo_def registerProperty_def map_emplace_def empty_store_def v)
  have names: "ordinary (pv_prop demo_value)" "known_prop (pv_prop demo_value)" "CHR 0x00 \<notin> set (stringValue (pv_value demo_value))"
    using demo_ordinary v by simp_all
  have rx: "em_msg_type set_seven = Some SET_PROPERTY_CMD" "em_value set_seven = [populateProtoVehiclePropValue demo_value]"
    "em_msg_type get_seven = Some GET_PROPERTY_CMD"
    "em_prop get_seven = [\<lparr>pr_prop = Some (pv_prop demo_value), pr_area_id = Some (pv_areaId demo_value)\<rparr>]"
    by (simp_all add: set_seven_def get_seven_def empty_message_def v)
  obtain resp h' d resp2 h2 p where
    set: "processMessage demo_env set_seven empty_message ?h = Some (resp, h')"
      "eh_events h' = [(Some (demo_value\<lparr>pv_timestamp := env_clock demo_env 0\<rparr>), d)]" and
    get: "processMessage demo_env get_seven empty_message h' = Some (resp2, h2)" "em_value resp2 = [p]"
      "pv_value (value_from_proto (env_clock demo_env 0) p) = pv_value demo_value"
    using emulator_set_then_get [OF inv names(1,2) rc names(3) rx, of demo_env] tick by auto
  have "int32Values (pv_value (value_from_proto 0 p)) = [7]"
    using arg_cong [OF get(3), of int32Values] v(4) by (simp add: value_from_proto_def)
  then show ?thesis using set get(1,2) by blast
qed

end
