(* ===== verification/EmulatorComm.thy ===== *)
theory EmulatorComm
  imports Prelude
begin

text \<open>
  The connection of the vehicle emulator to its host (\<open>SocketComm.cpp\<close> and \<open>CommConn.cpp\<close> in
  \<open>src/automotive/vehicle/2.0/default/impl/vhal_v2_0\<close>): messages on a socket behind a four-byte
  length, and the loop that answers them.

  Each call of \<open>read\<close> has an outcome: so many bytes have arrived, or an error. A result \<open>None\<close> means
  that the outcomes ran out while the code still waits. Serialising and parsing a message belong to
  the protocol buffer library and are parameters.
\<close>

datatype read_outcome = Got nat | Read_Error

text \<open>The loop of \<open>readExactly\<close>, with \<open>buffer\<close>, \<open>totalRead\<close> (an \<open>int\<close>, and \<open>-1\<close> is added on an
  error) and \<open>offset\<close>, which keeps the value zero.\<close>

function readExactly_loop ::
  "nat \<Rightarrow> u8 list \<Rightarrow> int \<Rightarrow> nat \<Rightarrow> read_outcome list \<Rightarrow> u8 list \<Rightarrow> (u8 list \<times> read_outcome list \<times> u8 list) option" where
  "readExactly_loop numBytes buffer totalRead offset outcomes inp =
     (if int numBytes \<le> totalRead then Some (buffer, outcomes, inp)
      else case outcomes of [] \<Rightarrow> None
       | Read_Error # os \<Rightarrow> readExactly_loop numBytes buffer (totalRead - 1) offset os inp
       | Got avail # os \<Rightarrow>
           (case read_bytes (numBytes - offset) avail inp of (bs, inp') \<Rightarrow>
              if bs = [] then Some ([], os, inp')
              else readExactly_loop numBytes (write_at offset bs buffer) (totalRead + int (length bs)) offset os inp'))"
  by pat_completeness auto
termination by (relation "measure (\<lambda>(_, _, _, _, os, _). length os)") auto

declare readExactly_loop.simps [simp del]

definition readExactly :: "nat \<Rightarrow> read_outcome list \<Rightarrow> u8 list \<Rightarrow> (u8 list \<times> read_outcome list \<times> u8 list) option" where
  "readExactly numBytes outcomes inp = readExactly_loop numBytes (replicate numBytes 0) 0 0 outcomes inp"

text \<open>\<open>ntohl\<close> of four bytes, as an \<open>int32_t\<close>; \<open>readInt\<close> is \<open>-1\<close> when the connection is closed.\<close>

definition big_endian :: "u8 list \<Rightarrow> int" where
  "big_endian bs = foldl (\<lambda>n b. n * 256 + uint b) 0 bs"

definition readInt :: "read_outcome list \<Rightarrow> u8 list \<Rightarrow> (i32 \<times> read_outcome list \<times> u8 list) option" where
  "readInt outcomes inp = (case readExactly 4 outcomes inp of None \<Rightarrow> None
     | Some (buffer, os, inp) \<Rightarrow>
         Some (if buffer = [] then -1 else wrap32 (big_endian buffer), os, inp))"

definition SocketConn_read :: "read_outcome list \<Rightarrow> u8 list \<Rightarrow> (u8 list \<times> read_outcome list \<times> u8 list) option" where
  "SocketConn_read outcomes inp = (case readInt outcomes inp of None \<Rightarrow> None
     | Some (msgSize, os, inp) \<Rightarrow>
         if msgSize \<le> 0 then Some ([], os, inp) else readExactly (nat msgSize) os inp)"

text \<open>The bytes \<open>SocketConn::write\<close> sends when both writes take everything.\<close>

definition length_bytes :: "nat \<Rightarrow> u8 list" where
  "length_bytes n = [of_nat (n div 2 ^ 24), of_nat (n div 2 ^ 16), of_nat (n div 2 ^ 8), of_nat n]"

definition SocketConn_write :: "u8 list \<Rightarrow> u8 list" where
  "SocketConn_write msg = length_bytes (length msg) @ msg"

text \<open>The loop of \<open>CommConn::readThread\<close>: it ends with an empty message. The parse function is the
  library's, \<open>answer\<close> is \<open>processMessage\<close> and the serialisation of its reply; a reply that cannot be
  serialised is not sent. The first argument bounds the number of messages read.\<close>

fun readThread ::
  "nat \<Rightarrow> (u8 list \<Rightarrow> 'm option) \<Rightarrow> ('m \<Rightarrow> 's \<Rightarrow> u8 list option \<times> 's) \<Rightarrow> 's \<Rightarrow> read_outcome list \<Rightarrow> u8 list \<Rightarrow>
   (u8 list list \<times> 's) option" where
  "readThread 0 parse answer s outcomes inp = None"
| "readThread (Suc n) parse answer s outcomes inp =
     (case SocketConn_read outcomes inp of None \<Rightarrow> None
      | Some (buffer, os, inp) \<Rightarrow>
          if buffer = [] then Some ([], s)
          else case parse buffer of None \<Rightarrow> readThread n parse answer s os inp
            | Some rxMsg \<Rightarrow> (case answer rxMsg s of (resp, s) \<Rightarrow>
                map_option (\<lambda>(sent, s). (case resp of None \<Rightarrow> sent | Some b \<Rightarrow> SocketConn_write b # sent, s))
                  (readThread n parse answer s os inp)))"

lemma loop_done: "int n \<le> t \<Longrightarrow> readExactly_loop n buffer t off os inp = Some (buffer, os, inp)"
  by (subst readExactly_loop.simps) simp

lemma loop_waits: "t < int n \<Longrightarrow> readExactly_loop n buffer t off [] inp = None"
  by (subst readExactly_loop.simps) simp

lemma loop_error:
  "t < int n \<Longrightarrow> readExactly_loop n buffer t off (Read_Error # os) inp = readExactly_loop n buffer (t - 1) off os inp"
  by (subst readExactly_loop.simps) simp

lemma loop_got:
  "t < int n \<Longrightarrow> readExactly_loop n buffer t off (Got a # os) inp =
     (case read_bytes (n - off) a inp of (bs, inp') \<Rightarrow>
        if bs = [] then Some ([], os, inp')
        else readExactly_loop n (write_at off bs buffer) (t + int (length bs)) off os inp')"
  by (subst readExactly_loop.simps) simp

lemmas loop_steps = loop_done loop_waits loop_error loop_got

subsection \<open>Reads that are not cut short\<close>

text \<open>When each read returns all the bytes asked for, \<open>readExactly\<close> takes them off the stream.\<close>

lemma readExactly_whole:
  assumes "0 < n" "n \<le> a" "n \<le> length inp"
  shows "readExactly n (Got a # os) inp = Some (take n inp, os, drop n inp)"
proof -
  have read: "read_bytes n a inp = (take n inp, drop n inp)" using assms by (simp add: read_bytes_def)
  have ne: "take n inp \<noteq> []" using assms by (cases inp) auto
  have wr: "write_at 0 (take n inp) (replicate n 0) = take n inp" using assms by (simp add: write_at_def)
  show ?thesis
    using assms read ne wr
    by (simp add: readExactly_def loop_steps min_def)
qed

lemma readExactly_closed: "0 < n \<Longrightarrow> readExactly n (Got a # os) [] = Some ([], os, [])"
  by (simp add: readExactly_def loop_got read_bytes_def)

lemma big_endian_length_bytes:
  assumes "n < 2 ^ 31"
  shows "wrap32 (big_endian (length_bytes n)) = int n"
proof -
  define a b c where "a = n div 256" and "b = a div 256" and "c = b div 256"
  have split: "n = a * 256 + n mod 256" "a = b * 256 + a mod 256" "b = c * 256 + b mod 256"
    by (simp_all add: a_def b_def c_def)
  have divs: "n div 2 ^ 24 = c" "n div 2 ^ 16 = b" "n div 2 ^ 8 = a"
    by (simp_all add: a_def b_def c_def div_mult2_eq [symmetric])
  have "c < 256" using assms by (simp add: a_def b_def c_def div_mult2_eq [symmetric] less_mult_imp_div_less)
  then have c: "c mod 256 = c" by simp
  have "big_endian (length_bytes n) = ((int (c mod 256) * 256 + int (b mod 256)) * 256 + int (a mod 256)) * 256 +
      int (n mod 256)"
    unfolding big_endian_def length_bytes_def divs by (simp add: unsigned_of_nat take_bit_eq_mod of_nat_mod)
  also have "\<dots> = int (((c * 256 + b mod 256) * 256 + a mod 256) * 256 + n mod 256)" using c by simp
  also have "((c * 256 + b mod 256) * 256 + a mod 256) * 256 + n mod 256 = n"
    by (simp only: split (3) [symmetric] split (2) [symmetric] split (1) [symmetric])
  finally show ?thesis using assms by (simp add: in_i32_def)
qed

subsection \<open>Messages on the socket\<close>

lemma SocketConn_read_message:
  assumes "msg \<noteq> []" "length msg < 2 ^ 31" "4 \<le> a" "length msg \<le> b"
  shows "SocketConn_read (Got a # Got b # os) (SocketConn_write msg @ inp) = Some (msg, os, inp)"
proof -
  have four: "length (length_bytes (length msg)) = 4" by (simp add: length_bytes_def)
  have "readInt (Got a # Got b # os) (SocketConn_write msg @ inp) = Some (int (length msg), Got b # os, msg @ inp)"
    using readExactly_whole [of 4 a "SocketConn_write msg @ inp" "Got b # os"] assms (3) four
      big_endian_length_bytes [OF assms (2)]
    by (auto simp: readInt_def SocketConn_write_def)
  then show ?thesis
    using readExactly_whole [of "length msg" b "msg @ inp" os] assms (1,4) by (simp add: SocketConn_read_def)
qed

lemma SocketConn_read_closed: "SocketConn_read (Got a # os) [] = Some ([], os, [])"
  using readExactly_closed [of 4 a os] by (simp add: SocketConn_read_def readInt_def)

text \<open>What the answering loop should do with a list of messages.\<close>

fun answers :: "(u8 list \<Rightarrow> 'm option) \<Rightarrow> ('m \<Rightarrow> 's \<Rightarrow> u8 list option \<times> 's) \<Rightarrow> 's \<Rightarrow> u8 list list \<Rightarrow> u8 list list \<times> 's" where
  "answers parse answer s [] = ([], s)"
| "answers parse answer s (m # ms) = (case parse m of None \<Rightarrow> answers parse answer s ms
     | Some rx \<Rightarrow> (case answer rx s of (resp, s) \<Rightarrow> (case answers parse answer s ms of (sent, s) \<Rightarrow>
         ((case resp of None \<Rightarrow> sent | Some b \<Rightarrow> SocketConn_write b # sent), s))))"

text \<open>
  C19: Over a socket whose reads are never cut short, every message of the host is read as it was
  sent, answered in order, and the loop ends when the host closes the connection: the replies and
  the final state are those of answering the messages one after the other.
\<close>

theorem socket_messages_answered:
  assumes "\<forall>m\<in>set msgs. m \<noteq> [] \<and> length m < 2 ^ 31 \<and> length m \<le> a" "4 \<le> a"
  shows "readThread (Suc (length msgs)) parse answer s (replicate (2 * length msgs + 1) (Got a))
      (concat (map SocketConn_write msgs)) = Some (answers parse answer s msgs)"
  using assms
proof (induction msgs arbitrary: s)
  case Nil
  then show ?case by (simp add: SocketConn_read_closed)
next
  case (Cons m msgs)
  have "SocketConn_read (replicate (2 * length (m # msgs) + 1) (Got a)) (concat (map SocketConn_write (m # msgs))) =
      Some (m, replicate (2 * length msgs + 1) (Got a), concat (map SocketConn_write msgs))"
    using SocketConn_read_message [of m a a] Cons.prems by simp
  moreover have "m \<noteq> []" using Cons.prems by simp
  moreover note Cons.IH Cons.prems
  ultimately show ?case by (auto split: option.splits prod.splits)
qed

text \<open>Two requests of a host that the loop answers by counting their bytes.\<close>

theorem socket_messages_answered_witness:
  "let msgs = [[1, 2], [3]]; count = (\<lambda>m n. (Some [of_nat (length m)], n + length m)) in
   readThread (Suc (length msgs)) Some count (0 :: nat) (replicate (2 * length msgs + 1) (Got 9))
     (concat (map SocketConn_write msgs)) = Some ([[0, 0, 0, 1, 2], [0, 0, 0, 1, 1]], 3)"
  unfolding Let_def
  by (rule trans [OF socket_messages_answered]) (auto simp: SocketConn_write_def length_bytes_def)

text \<open>
  When the bytes of a message arrive in two parts, \<open>readExactly\<close> does not put it together. The
  offset is never advanced: the second read asks for the whole length again, so it may take bytes
  of the next message, and what it returns is written over the first part. What comes out starts
  with the second part, and the rest of the buffer is stale or zero.
\<close>

theorem fragmented_read_corrupts:
  assumes "xs \<noteq> []" "ys \<noteq> []" "n = length xs + length ys"
  shows "readExactly n (Got (length xs) # Got a # os) (xs @ ys @ next_msg) =
    (let k = min (min n a) (length ys + length next_msg);
         second = take k (ys @ next_msg);
         buffer = second @ drop k (xs @ replicate (length ys) 0) in
     if k = 0 then Some ([], os, ys @ next_msg)
     else readExactly_loop n buffer (int (length xs + k)) 0 os (drop k (ys @ next_msg)))"
proof -
  define k where "k = min (min n a) (length ys + length next_msg)"
  define sec where "sec = take k (ys @ next_msg)"
  define rest where "rest = drop k (ys @ next_msg)"
  have len: "length sec = k" by (simp add: sec_def k_def)
  then have nil: "sec = [] \<longleftrightarrow> k = 0" by auto
  have first: "read_bytes n (length xs) (xs @ ys @ next_msg) = (xs, ys @ next_msg)"
    using assms by (simp add: read_bytes_def min_def)
  have second: "read_bytes n a (ys @ next_msg) = (sec, rest)"
    by (simp add: read_bytes_def k_def min_def sec_def rest_def)
  have w1: "write_at 0 xs (replicate n 0) = xs @ replicate (length ys) 0" using assms by (simp add: write_at_def)
  have w2: "write_at 0 sec (xs @ replicate (length ys) 0) = sec @ drop k (xs @ replicate (length ys) 0)"
    unfolding write_at_def add_0 len by simp
  have pos: "0 < n" "length xs < n" using assms by simp_all
  have "readExactly n (Got (length xs) # Got a # os) (xs @ ys @ next_msg) =
      readExactly_loop n (xs @ replicate (length ys) 0) (int (length xs)) 0 (Got a # os) (ys @ next_msg)"
    using pos assms (1) by (simp add: readExactly_def loop_got first w1)
  also have "\<dots> = (if k = 0 then Some ([], os, rest)
     else readExactly_loop n (sec @ drop k (xs @ replicate (length ys) 0)) (int (length xs + k)) 0 os rest)"
    using pos by (simp add: loop_got second w2 len nil del: drop_append)
  finally show ?thesis by (simp add: Let_def k_def [symmetric] sec_def rest_def)
qed

text \<open>Of the message 1 2 3 4 that arrives in two halves, the second half and two zeros come out.\<close>

theorem fragmented_read_corrupts_witness:
  "readExactly 4 [Got 2, Got 2] ([1, 2] @ [3, 4] @ [9]) = Some ([3, 4, 0, 0], [], [9])"
  using fragmented_read_corrupts [of "[1, 2]" "[3, 4]" 4 2 "[]" "[9]"]
  by (simp add: Let_def loop_done eval_nat_numeral)

end
