(* ===== verification/EvsTypes.thy ===== *)
theory EvsTypes
  imports Prelude
begin

text \<open>
  The data of the exterior view system HAL (\<open>src/automotive/evs/1.0/types.hal\<close>) and the two
  parties outside the source that its default implementation calls: the gralloc allocator and the
  memory of a graphics buffer.

  \<^item> An allocation is a call with a number: \<open>alloc n\<close> is what the \<open>n\<close>-th call to
    \<open>GraphicBufferAllocator::allocate\<close> replies (status, handle, stride). Every run of the HAL is
    a run for some such function.
  \<^item> A handle is a number, \<open>None\<close> is the null handle. The image behind a handle is the list of its
    32-bit pixels; an access outside it is \<open>None\<close>.
\<close>

datatype EvsResult = OK | INVALID_ARG | STREAM_ALREADY_RUNNING | BUFFER_NOT_AVAILABLE
  | OWNERSHIP_LOST | UNDERLYING_SERVICE_ERROR

type_synonym handle = nat

record camera_desc =
  cd_cameraId :: string
  cd_vendorFlags :: u32

record display_desc =
  dd_displayId :: string
  dd_vendorFlags :: u32

record buffer_desc =
  bd_width :: u32
  bd_height :: u32
  bd_stride :: u32
  bd_pixelSize :: u32
  bd_format :: u32
  bd_usage :: u32
  bd_bufferId :: u32
  bd_memHandle :: "handle option"

text \<open>\<open>BufferDesc nullBuff = {}\<close>: everything zero, the handle null.\<close>

definition null_buffer :: buffer_desc where
  "null_buffer = \<lparr>bd_width = 0, bd_height = 0, bd_stride = 0, bd_pixelSize = 0, bd_format = 0,
     bd_usage = 0, bd_bufferId = 0, bd_memHandle = None\<rparr>"

subsection \<open>The allocator\<close>

type_synonym alloc_reply = "int \<times> handle option \<times> u32"
type_synonym allocator = "nat \<Rightarrow> alloc_reply"

record gralloc =
  ga_calls :: nat
  ga_freed :: "handle option list"

definition gralloc_free :: "handle option list \<Rightarrow> gralloc \<Rightarrow> gralloc" where
  "gralloc_free hs g = g\<lparr>ga_freed := ga_freed g @ hs\<rparr>"

text \<open>The handles the first \<open>n\<close> calls handed out: status zero and a handle that is not null.\<close>

fun reply_handles :: "alloc_reply \<Rightarrow> handle list" where
  "reply_handles (status, Some h, stride) = (if status = 0 then [h] else [])"
| "reply_handles (status, None, stride) = []"

primrec obtained :: "allocator \<Rightarrow> nat \<Rightarrow> handle list" where
  "obtained alloc 0 = []"
| "obtained alloc (Suc n) = obtained alloc n @ reply_handles (alloc n)"

text \<open>The handles among a list that are not null.\<close>

definition live :: "handle option list \<Rightarrow> handle list" where
  "live hs = List.map_filter id hs"

lemma live_simps [simp]:
  "live [] = []"
  "live (None # hs) = live hs"
  "live (Some h # hs) = h # live hs"
  "live (hs @ hs') = live hs @ live hs'"
  by (simp_all add: live_def List.map_filter_def)

subsection \<open>The test image\<close>

text \<open>The pixel both the camera and the display expect at a row and a column.\<close>

definition test_pixel :: "nat \<Rightarrow> nat \<Rightarrow> u32" where
  "test_pixel row col =
     0xFF0000FF OR push_bit 8 (of_nat row AND 0xFF) OR push_bit 16 (of_nat col AND 0xFF)"

end
