(* ===== verification/EvsCamera.thy ===== *)
theory EvsCamera
  imports EvsTypes "HOL-Library.Multiset"
begin

text \<open>
  The exterior view camera (\<open>src/automotive/evs/1.0/default/EvsCamera.cpp\<close>): the chain of graphics
  buffers, the stream state machine and the capture thread.

  The service runs with a thread pool of one (\<open>configureRpcThreadpool(1, true)\<close> in
  \<open>service.cpp\<close>), so there are two threads: the service thread and the capture thread. Each
  critical section under \<open>mAccessLock\<close> is one step; \<open>camera_step\<close> interleaves them.
  \<open>stopVideoStream\<close> is two steps of the service thread, before and after it joins the capture
  thread, and no other call is served in between.

  Between its critical sections the capture thread reads \<open>mStride\<close> and the record it has marked busy
  without the lock (lines 424 and 430): that reading is a step of its own. The model takes it as atomic. The
  program has a data race there: \<open>setMaxFramesInFlight\<close> can write \<open>mStride\<close> and grow the vector, which
  moves its records, during the reading (\<open>unlocked_read_races\<close>).
\<close>

subsection \<open>State\<close>

record buffer_record =
  br_handle :: "handle option"
  br_inUse :: bool

datatype StreamState = STOPPED | RUNNING | STOPPING | DEAD

record evs_camera =
  cam_description :: camera_desc
  cam_width :: u32
  cam_height :: u32
  cam_format :: u32
  cam_usage :: u32
  cam_stride :: u32
  cam_stream :: "nat option"
  cam_buffers :: "buffer_record list"
  cam_framesAllowed :: u32
  cam_framesInUse :: u32
  cam_streamState :: StreamState

abbreviation MAX_BUFFERS_IN_FLIGHT :: u32 where
  "MAX_BUFFERS_IN_FLIGHT \<equiv> 100"

definition kCameraName_Backup :: string where
  "kCameraName_Backup = ''backup''"

text \<open>\<open>HAL_PIXEL_FORMAT_RGBA_8888\<close> and the \<open>GRALLOC_USAGE_*\<close> bits of \<open>hardware/gralloc.h\<close>.\<close>

definition camera_format :: u32 where "camera_format = 1"

definition camera_usage :: u32 where
  "camera_usage = 0x100 OR 0x20000 OR 0x2 OR 0x20"

definition new_EvsCamera :: "string \<Rightarrow> evs_camera" where
  "new_EvsCamera name =
     (let backup = (name = kCameraName_Backup) in
      \<lparr>cam_description = \<lparr>cd_cameraId = name, cd_vendorFlags = (if backup then 0xFFFFFFFF else 0)\<rparr>,
       cam_width = (if backup then 640 else 320),
       cam_height = (if backup then 480 else 240),
       cam_format = camera_format, cam_usage = camera_usage, cam_stride = 0, cam_stream = None,
       cam_buffers = [], cam_framesAllowed = 0, cam_framesInUse = 0, cam_streamState = STOPPED\<rparr>)"

subsection \<open>The buffer chain\<close>

text \<open>The search for an empty record of \<open>increaseAvailableFrames_Locked\<close>, with the
  \<open>emplace_back\<close> when there is none.\<close>

fun store_handle :: "handle \<Rightarrow> buffer_record list \<Rightarrow> buffer_record list" where
  "store_handle h [] = [\<lparr>br_handle = Some h, br_inUse = False\<rparr>]"
| "store_handle h (r # rs) =
     (if br_handle r = None then r\<lparr>br_handle := Some h, br_inUse := False\<rparr> # rs
      else r # store_handle h rs)"

text \<open>The \<open>while (added < numToAdd)\<close> loop; the first argument is what is still to be added.\<close>

fun increase_loop ::
  "nat \<Rightarrow> allocator \<Rightarrow> u32 \<Rightarrow> evs_camera \<times> gralloc \<Rightarrow> u32 \<times> evs_camera \<times> gralloc" where
  "increase_loop 0 alloc added (c, g) = (added, c, g)"
| "increase_loop (Suc n) alloc added (c, g) =
     (case alloc (ga_calls g) of (status, h, stride) \<Rightarrow>
        let c = c\<lparr>cam_stride := stride\<rparr>; g = g\<lparr>ga_calls := ga_calls g + 1\<rparr> in
        if status \<noteq> 0 then (added, c, g)
        else case h of None \<Rightarrow> (added, c, g)
           | Some memHandle \<Rightarrow> increase_loop n alloc (added + 1)
               (c\<lparr>cam_buffers := store_handle memHandle (cam_buffers c),
                  cam_framesAllowed := cam_framesAllowed c + 1\<rparr>, g))"

definition increaseAvailableFrames_Locked ::
  "allocator \<Rightarrow> u32 \<Rightarrow> evs_camera \<times> gralloc \<Rightarrow> u32 \<times> evs_camera \<times> gralloc" where
  "increaseAvailableFrames_Locked alloc numToAdd cg = increase_loop (unat numToAdd) alloc 0 cg"

text \<open>The loop of \<open>decreaseAvailableFrames_Locked\<close>: what is left of the records, the new
  \<open>mFramesAllowed\<close>, the number removed and the handles freed. The test for the end comes after a
  removal, so \<open>numToRemove = 0\<close> does not stop it.\<close>

fun decrease_loop ::
  "u32 \<Rightarrow> u32 \<Rightarrow> u32 \<Rightarrow> buffer_record list \<Rightarrow> buffer_record list \<times> u32 \<times> u32 \<times> handle option list" where
  "decrease_loop numToRemove allowed removed [] = ([], allowed, removed, [])"
| "decrease_loop numToRemove allowed removed (r # rs) =
     (if br_inUse r = False \<and> br_handle r \<noteq> None then
        let r' = r\<lparr>br_handle := None\<rparr> in
        if removed + 1 = numToRemove then (r' # rs, allowed - 1, removed + 1, [br_handle r])
        else case decrease_loop numToRemove (allowed - 1) (removed + 1) rs of
          (rs', a, n, fs) \<Rightarrow> (r' # rs', a, n, br_handle r # fs)
      else case decrease_loop numToRemove allowed removed rs of
          (rs', a, n, fs) \<Rightarrow> (r # rs', a, n, fs))"

definition decreaseAvailableFrames_Locked ::
  "u32 \<Rightarrow> evs_camera \<times> gralloc \<Rightarrow> u32 \<times> evs_camera \<times> gralloc" where
  "decreaseAvailableFrames_Locked numToRemove cg = (case cg of (c, g) \<Rightarrow>
     case decrease_loop numToRemove (cam_framesAllowed c) 0 (cam_buffers c) of (rs, a, n, fs) \<Rightarrow>
       (n, c\<lparr>cam_buffers := rs, cam_framesAllowed := a\<rparr>, gralloc_free fs g))"

definition setAvailableFrames_Locked ::
  "allocator \<Rightarrow> u32 \<Rightarrow> evs_camera \<times> gralloc \<Rightarrow> bool \<times> evs_camera \<times> gralloc" where
  "setAvailableFrames_Locked alloc bufferCount cg = (case cg of (c, g) \<Rightarrow>
     if bufferCount < 1 then (False, c, g)
     else if bufferCount > MAX_BUFFERS_IN_FLIGHT then (False, c, g)
     else if cam_framesAllowed c < bufferCount then
       (let needed = bufferCount - cam_framesAllowed c in
        case increaseAvailableFrames_Locked alloc needed (c, g) of (added, c, g) \<Rightarrow>
          if added \<noteq> needed
          then (case decreaseAvailableFrames_Locked added (c, g) of (_, c, g) \<Rightarrow> (False, c, g))
          else (True, c, g))
     else if cam_framesAllowed c > bufferCount then
       (case decreaseAvailableFrames_Locked (cam_framesAllowed c - bufferCount) (c, g) of
          (_, c, g) \<Rightarrow> (True, c, g))
     else (True, c, g))"

subsection \<open>Calls of the client\<close>

definition setMaxFramesInFlight ::
  "allocator \<Rightarrow> u32 \<Rightarrow> evs_camera \<times> gralloc \<Rightarrow> EvsResult \<times> evs_camera \<times> gralloc" where
  "setMaxFramesInFlight alloc bufferCount cg = (case cg of (c, g) \<Rightarrow>
     if cam_streamState c = DEAD then (OWNERSHIP_LOST, c, g)
     else if bufferCount < 1 then (INVALID_ARG, c, g)
     else case setAvailableFrames_Locked alloc bufferCount (c, g) of (ok, c, g) \<Rightarrow>
       if ok then (OK, c, g) else (BUFFER_NOT_AVAILABLE, c, g))"

text \<open>\<open>startVideoStream\<close> up to the construction of the thread; the flag says whether the capture
  thread was started.\<close>

definition startVideoStream ::
  "allocator \<Rightarrow> nat option \<Rightarrow> evs_camera \<times> gralloc \<Rightarrow> EvsResult \<times> bool \<times> evs_camera \<times> gralloc" where
  "startVideoStream alloc stream cg = (case cg of (c, g) \<Rightarrow>
     if cam_streamState c = DEAD then (OWNERSHIP_LOST, False, c, g)
     else if cam_streamState c \<noteq> STOPPED then (STREAM_ALREADY_RUNNING, False, c, g)
     else case (if cam_framesAllowed c < 1 then setAvailableFrames_Locked alloc 1 (c, g)
                else (True, c, g)) of (ok, c, g) \<Rightarrow>
       if \<not> ok then (BUFFER_NOT_AVAILABLE, False, c, g)
       else (OK, True, c\<lparr>cam_stream := stream, cam_streamState := RUNNING\<rparr>, g))"

text \<open>The search of \<open>doneWithFrame\<close> for an empty record to move the handle of record \<open>i\<close> to.\<close>

fun first_empty :: "buffer_record list \<Rightarrow> nat option" where
  "first_empty [] = None"
| "first_empty (r # rs) = (if br_handle r = None then Some 0 else map_option Suc (first_empty rs))"

definition move_handle_down :: "nat \<Rightarrow> buffer_record list \<Rightarrow> buffer_record list" where
  "move_handle_down i rs = (case first_empty rs of None \<Rightarrow> rs
     | Some j \<Rightarrow> let rs = rs[j := (rs ! j)\<lparr>br_handle := br_handle (rs ! i)\<rparr>] in
                rs[i := (rs ! i)\<lparr>br_handle := None\<rparr>])"

definition doneWithFrame :: "buffer_desc \<Rightarrow> evs_camera \<Rightarrow> evs_camera" where
  "doneWithFrame buffer c =
     (let i = unat (bd_bufferId buffer); rs = cam_buffers c in
      if bd_memHandle buffer = None then c
      else if i \<ge> length rs then c
      else if \<not> br_inUse (rs ! i) then c
      else
        let rs = rs[i := (rs ! i)\<lparr>br_inUse := False\<rparr>];
            c = c\<lparr>cam_framesInUse := cam_framesInUse c - 1\<rparr> in
        if bd_bufferId buffer \<ge> cam_framesAllowed c then c\<lparr>cam_buffers := move_handle_down i rs\<rparr>
        else c\<lparr>cam_buffers := rs\<rparr>)"

definition getExtendedInfo :: "u32 \<Rightarrow> i32" where
  "getExtendedInfo opaqueIdentifier =
     (if opaqueIdentifier \<le> 9 then sint opaqueIdentifier else 0)"

definition setExtendedInfo :: "u32 \<Rightarrow> i32 \<Rightarrow> evs_camera \<Rightarrow> EvsResult" where
  "setExtendedInfo opaqueIdentifier opaqueValue c =
     (if cam_streamState c = DEAD then OWNERSHIP_LOST else INVALID_ARG)"

subsection \<open>The capture thread\<close>

text \<open>Where the capture thread is: before it takes the lock at the top of its loop, about to read the
  record it has marked busy, filling and delivering the frame it assembled, after a failed delivery
  and before it takes the lock to give the record back, before the end-of-stream frame, or done.\<close>

datatype capture_pc =
  No_Thread | At_Top | Holding nat | Sending nat buffer_desc | Undelivered nat | Ending | Exited

text \<open>The record the thread has marked busy and not yet parted with.\<close>

fun held_index :: "capture_pc \<Rightarrow> nat option" where
  "held_index (Holding i) = Some i"
| "held_index (Sending i b) = Some i"
| "held_index (Undelivered i) = Some i"
| "held_index _ = None"

text \<open>What the service thread does: it is free, or it is in \<open>stopVideoStream\<close> waiting for the
  capture thread (for \<open>forceShutdown\<close> when the flag is set).\<close>

datatype service_pc = Serving | Joining bool

record camera_system =
  cs_camera :: evs_camera
  cs_gralloc :: gralloc
  cs_thread :: capture_pc
  cs_service :: service_pc
  cs_delivered :: "(nat \<times> buffer_desc) list"

definition new_camera_system :: "string \<Rightarrow> camera_system" where
  "new_camera_system name = \<lparr>cs_camera = new_EvsCamera name,
     cs_gralloc = \<lparr>ga_calls = 0, ga_freed = []\<rparr>, cs_thread = No_Thread, cs_service = Serving,
     cs_delivered = []\<rparr>"

text \<open>\<open>idx\<close> after the search for an available buffer; the length when there is none.\<close>

fun find_available :: "buffer_record list \<Rightarrow> nat" where
  "find_available [] = 0"
| "find_available (r # rs) =
     (if \<not> br_inUse r \<and> br_handle r \<noteq> None then 0 else Suc (find_available rs))"

definition capture_top :: "evs_camera \<Rightarrow> evs_camera \<times> capture_pc" where
  "capture_top c =
     (let rs = cam_buffers c; idx = find_available rs in
      if cam_streamState c \<noteq> RUNNING then (c, Ending)
      else if cam_framesInUse c \<ge> cam_framesAllowed c then (c, At_Top)
      else if idx \<ge> length rs then (c, At_Top)
      else (c\<lparr>cam_buffers := rs[idx := (rs ! idx)\<lparr>br_inUse := True\<rparr>],
              cam_framesInUse := cam_framesInUse c + 1\<rparr>, Holding idx))"

definition frame_desc :: "nat \<Rightarrow> evs_camera \<Rightarrow> buffer_desc" where
  "frame_desc idx c = \<lparr>bd_width = cam_width c, bd_height = cam_height c,
     bd_stride = cam_stride c, bd_pixelSize = 0, bd_format = cam_format c,
     bd_usage = cam_usage c, bd_bufferId = of_nat idx,
     bd_memHandle = br_handle (cam_buffers c ! idx)\<rparr>"

definition give_back :: "nat \<Rightarrow> evs_camera \<Rightarrow> evs_camera" where
  "give_back idx c =
     c\<lparr>cam_buffers := (cam_buffers c)[idx := (cam_buffers c ! idx)\<lparr>br_inUse := False\<rparr>],
       cam_framesInUse := cam_framesInUse c - 1\<rparr>"

text \<open>One step of \<open>generateFrames\<close>; \<open>ok\<close> is what \<open>mStream->deliverFrame\<close> reports. A delivery to
  a null stream is a null dereference and has no step.\<close>

definition capture_step :: "bool \<Rightarrow> camera_system \<Rightarrow> camera_system" where
  "capture_step ok s = (case cs_thread s of
     At_Top \<Rightarrow> (case capture_top (cs_camera s) of (c, pc) \<Rightarrow> s\<lparr>cs_camera := c, cs_thread := pc\<rparr>)
   | Holding idx \<Rightarrow> s\<lparr>cs_thread := Sending idx (frame_desc idx (cs_camera s))\<rparr>
   | Sending idx buff \<Rightarrow> (case cam_stream (cs_camera s) of None \<Rightarrow> s
       | Some st \<Rightarrow>
         if ok then s\<lparr>cs_delivered := cs_delivered s @ [(st, buff)], cs_thread := At_Top\<rparr>
         else s\<lparr>cs_thread := Undelivered idx\<rparr>)
   | Undelivered idx \<Rightarrow> s\<lparr>cs_camera := give_back idx (cs_camera s), cs_thread := Ending\<rparr>
   | Ending \<Rightarrow> (case cam_stream (cs_camera s) of None \<Rightarrow> s
       | Some st \<Rightarrow> s\<lparr>cs_delivered := cs_delivered s @ [(st, null_buffer)], cs_thread := Exited\<rparr>)
   | _ \<Rightarrow> s)"

subsection \<open>Stopping\<close>

text \<open>\<open>forceShutdown\<close> after its call of \<open>stopVideoStream\<close>: every record's handle is freed, the null
  ones of emptied records too, and the counters keep their values.\<close>

definition shutdown_locked :: "camera_system \<Rightarrow> camera_system" where
  "shutdown_locked s =
     s\<lparr>cs_gralloc := gralloc_free (map br_handle (cam_buffers (cs_camera s))) (cs_gralloc s),
       cs_camera := (cs_camera s)\<lparr>cam_buffers := [], cam_streamState := DEAD\<rparr>\<rparr>"

definition after_stop :: "bool \<Rightarrow> camera_system \<Rightarrow> camera_system" where
  "after_stop shutdown s = (if shutdown then shutdown_locked s else s)"

definition stop_begin :: "bool \<Rightarrow> camera_system \<Rightarrow> camera_system" where
  "stop_begin shutdown s =
     (if cam_streamState (cs_camera s) = RUNNING
      then s\<lparr>cs_camera := (cs_camera s)\<lparr>cam_streamState := STOPPING\<rparr>, cs_service := Joining shutdown\<rparr>
      else after_stop shutdown s)"

text \<open>\<open>mCaptureThread.join()\<close> has returned.\<close>

definition stop_end :: "bool \<Rightarrow> camera_system \<Rightarrow> camera_system" where
  "stop_end shutdown s = after_stop shutdown
     (s\<lparr>cs_camera := (cs_camera s)\<lparr>cam_streamState := STOPPED, cam_stream := None\<rparr>,
        cs_thread := No_Thread, cs_service := Serving\<rparr>)"

subsection \<open>All interleavings\<close>

text \<open>
  \<open>camera_move\<close> has every step but the calls of \<open>doneWithFrame\<close>, which \<open>camera_step\<close> adds: the client
  may name any buffer at any time. A careful client returns a frame only after it has been delivered to
  it: not while the capture thread still holds its record.
\<close>

inductive camera_move :: "allocator \<Rightarrow> camera_system \<Rightarrow> camera_system \<Rightarrow> bool"
  for alloc where
  move_set_max: "cs_service s = Serving \<Longrightarrow>
    setMaxFramesInFlight alloc n (cs_camera s, cs_gralloc s) = (res, c, g) \<Longrightarrow>
    camera_move alloc s (s\<lparr>cs_camera := c, cs_gralloc := g\<rparr>)"
| move_start: "cs_service s = Serving \<Longrightarrow>
    startVideoStream alloc stream (cs_camera s, cs_gralloc s) = (res, started, c, g) \<Longrightarrow>
    camera_move alloc s (s\<lparr>cs_camera := c, cs_gralloc := g,
      cs_thread := (if started then At_Top else cs_thread s)\<rparr>)"
| move_stop: "cs_service s = Serving \<Longrightarrow> camera_move alloc s (stop_begin shutdown s)"
| move_join: "cs_service s = Joining shutdown \<Longrightarrow> cs_thread s = Exited \<Longrightarrow>
    camera_move alloc s (stop_end shutdown s)"
| move_capture: "camera_move alloc s (capture_step ok s)"

inductive_cases camera_moveE: "camera_move alloc s t"

inductive camera_step :: "allocator \<Rightarrow> camera_system \<Rightarrow> camera_system \<Rightarrow> bool"
  for alloc where
  step_move: "camera_move alloc s t \<Longrightarrow> camera_step alloc s t"
| step_done: "cs_service s = Serving \<Longrightarrow>
    camera_step alloc s (s\<lparr>cs_camera := doneWithFrame b (cs_camera s)\<rparr>)"

inductive_cases camera_stepE: "camera_step alloc s t"

lemmas step_set_max = step_move [OF move_set_max]
lemmas step_start = step_move [OF move_start]
lemmas step_stop = step_move [OF move_stop]
lemmas step_join = step_move [OF move_join]
lemmas step_capture = step_move [OF move_capture]

inductive camera_reachable :: "allocator \<Rightarrow> string \<Rightarrow> camera_system \<Rightarrow> bool"
  for alloc name where
  reach_new: "camera_reachable alloc name (new_camera_system name)"
| reach_step: "camera_reachable alloc name s \<Longrightarrow> camera_step alloc s t \<Longrightarrow>
    camera_reachable alloc name t"

inductive careful_reachable :: "allocator \<Rightarrow> string \<Rightarrow> camera_system \<Rightarrow> bool"
  for alloc name where
  careful_new: "careful_reachable alloc name (new_camera_system name)"
| careful_move: "careful_reachable alloc name s \<Longrightarrow> camera_move alloc s t \<Longrightarrow>
    careful_reachable alloc name t"
| careful_done: "careful_reachable alloc name s \<Longrightarrow> cs_service s = Serving \<Longrightarrow>
    held_index (cs_thread s) \<noteq> Some (unat (bd_bufferId b)) \<Longrightarrow>
    careful_reachable alloc name (s\<lparr>cs_camera := doneWithFrame b (cs_camera s)\<rparr>)"

lemma careful_is_reachable: "careful_reachable alloc name s \<Longrightarrow> camera_reachable alloc name s"
  by (induction rule: careful_reachable.induct) (auto intro: camera_reachable.intros camera_step.intros)

subsection \<open>Counting records\<close>

definition held :: "buffer_record list \<Rightarrow> nat" where
  "held rs = length (filter (\<lambda>r. br_handle r \<noteq> None) rs)"

definition busy :: "buffer_record list \<Rightarrow> nat" where
  "busy rs = length (filter br_inUse rs)"

definition idle :: "buffer_record list \<Rightarrow> nat" where
  "idle rs = length (filter (\<lambda>r. \<not> br_inUse r \<and> br_handle r \<noteq> None) rs)"

definition handles :: "buffer_record list \<Rightarrow> handle list" where
  "handles rs = live (map br_handle rs)"

definition records_ok :: "buffer_record list \<Rightarrow> bool" where
  "records_ok rs \<longleftrightarrow> (\<forall>r\<in>set rs. br_inUse r \<longrightarrow> br_handle r \<noteq> None)"

lemma count_simps [simp]:
  "held [] = 0" "busy [] = 0" "idle [] = 0" "handles [] = []" "records_ok []"
  "held (r # rs) = (if br_handle r \<noteq> None then 1 else 0) + held rs"
  "busy (r # rs) = (if br_inUse r then 1 else 0) + busy rs"
  "idle (r # rs) = (if \<not> br_inUse r \<and> br_handle r \<noteq> None then 1 else 0) + idle rs"
  "handles (r # rs) = live [br_handle r] @ handles rs"
  "records_ok (r # rs) \<longleftrightarrow> (br_inUse r \<longrightarrow> br_handle r \<noteq> None) \<and> records_ok rs"
  by (cases "br_handle r"; simp add: held_def busy_def idle_def handles_def records_ok_def)+

lemma held_le: "held rs \<le> length rs"
  by (simp add: held_def)

lemma idle_held: "records_ok rs \<Longrightarrow> idle rs + busy rs = held rs"
  by (induction rs) auto

lemma length_handles: "length (handles rs) = held rs"
proof (induction rs)
  case (Cons r rs)
  then show ?case by (cases "br_handle r") auto
qed simp

text \<open>Storing a new handle.\<close>

lemma held_store [simp]: "held (store_handle h rs) = Suc (held rs)"
  by (induction rs) auto

lemma busy_store [simp]: "records_ok rs \<Longrightarrow> busy (store_handle h rs) = busy rs"
  by (induction rs) auto

lemma records_ok_store [simp]: "records_ok rs \<Longrightarrow> records_ok (store_handle h rs)"
  by (induction rs) auto

lemma handles_store [simp]: "mset (handles (store_handle h rs)) = add_mset h (mset (handles rs))"
  by (induction rs) auto

lemma length_store: "length (store_handle h rs) \<le> max (length rs) (Suc (held rs))"
proof (induction rs)
  case (Cons r rs)
  then show ?case by auto
qed simp

lemma length_store_ge: "length rs \<le> length (store_handle h rs)"
  by (induction rs) auto

lemma store_keeps_busy:
  "records_ok rs \<Longrightarrow> i < length rs \<Longrightarrow> br_inUse (rs ! i) \<Longrightarrow>
   i < length (store_handle h rs) \<and> store_handle h rs ! i = rs ! i"
proof (induction rs arbitrary: i)
  case (Cons r rs)
  then show ?case by (cases i) auto
qed simp

text \<open>Freeing idle records.\<close>

definition freed_from :: "buffer_record list \<Rightarrow> buffer_record list \<Rightarrow> handle option list \<Rightarrow> bool" where
  "freed_from rs rs' fs \<longleftrightarrow> length rs' = length rs \<and> busy rs' = busy rs \<and>
     held rs' + length fs = held rs \<and> (records_ok rs \<longrightarrow> records_ok rs') \<and>
     length (live fs) = length fs \<and> mset (handles rs) = mset (handles rs') + mset (live fs) \<and>
     (\<forall>i < length rs. br_inUse (rs ! i) \<longrightarrow> rs' ! i = rs ! i)"

lemma freed_from_Nil [simp]: "freed_from rs rs []"
  by (simp add: freed_from_def)

lemma freed_from_keep: "freed_from rs rs' fs \<Longrightarrow> freed_from (r # rs) (r # rs') fs"
  by (auto simp: freed_from_def nth_Cons split: nat.splits)

lemma freed_from_free:
  "freed_from rs rs' fs \<Longrightarrow> \<not> br_inUse r \<Longrightarrow> br_handle r \<noteq> None \<Longrightarrow>
   freed_from (r # rs) (r\<lparr>br_handle := None\<rparr> # rs') (br_handle r # fs)"
  by (auto simp: freed_from_def nth_Cons split: nat.splits)

lemma decrease_loop_spec:
  assumes "decrease_loop n allowed removed rs = (rs', a, k, fs)"
  shows "freed_from rs rs' fs \<and> a = allowed - of_nat (length fs) \<and>
    k = removed + of_nat (length fs)"
  using assms
proof (induction n allowed removed rs arbitrary: rs' a k fs rule: decrease_loop.induct)
  case (2 n allowed removed r rs)
  show ?case
  proof (cases "br_inUse r = False \<and> br_handle r \<noteq> None")
    case idle: True
    show ?thesis
    proof (cases "removed + 1 = n")
      case True
      with idle 2 show ?thesis using freed_from_free [OF freed_from_Nil] by auto
    next
      case False
      obtain rs1 a1 k1 fs1 where rec: "decrease_loop n (allowed - 1) (removed + 1) rs = (rs1, a1, k1, fs1)"
        by (metis prod_cases4)
      from "2.IH" (1) [OF idle refl False rec] rec idle False "2.prems" show ?thesis
        by (auto intro: freed_from_free)
    qed
  next
    case kept: False
    obtain rs1 a1 k1 fs1 where rec: "decrease_loop n allowed removed rs = (rs1, a1, k1, fs1)"
      by (metis prod_cases4)
    from "2.IH" (2) [OF kept rec] rec kept "2.prems" show ?thesis
      by (auto intro: freed_from_keep)
  qed
qed simp

text \<open>How many it frees: at most the number asked for, and every idle record when that number is
  zero.\<close>

lemma decrease_loop_count:
  assumes "decrease_loop n allowed removed rs = (rs', a, k, fs)"
    and "unat removed + idle rs < 2 ^ 32"
  shows "length fs = (if unat removed < unat n then min (idle rs) (unat n - unat removed) else idle rs)"
  using assms
proof (induction n allowed removed rs arbitrary: rs' a k fs rule: decrease_loop.induct)
  case (2 n allowed removed r rs)
  show ?case
  proof (cases "br_inUse r = False \<and> br_handle r \<noteq> None")
    case idle: True
    with "2.prems" have room: "unat removed + 1 < 2 ^ 32" by simp
    have nxt: "unat (removed + 1) = unat removed + 1"
      using room by (simp add: unat_word_ariths)
    show ?thesis
    proof (cases "removed + 1 = n")
      case True
      with idle 2 nxt show ?thesis by auto
    next
      case False
      then have ne: "unat removed + 1 \<noteq> unat n" using nxt by (metis unsigned_word_eqI)
      obtain rs1 a1 k1 fs1 where rec: "decrease_loop n (allowed - 1) (removed + 1) rs = (rs1, a1, k1, fs1)"
        by (metis prod_cases4)
      have room': "unat (removed + 1) + idle rs < 2 ^ 32" using "2.prems" idle nxt by simp
      from "2.IH" (1) [OF idle refl False rec room'] rec idle False "2.prems" nxt ne show ?thesis
        by (auto simp: min_def split: if_splits)
    qed
  next
    case kept: False
    obtain rs1 a1 k1 fs1 where rec: "decrease_loop n allowed removed rs = (rs1, a1, k1, fs1)"
      by (metis prod_cases4)
    from "2.IH" (2) [OF kept rec] rec kept "2.prems" show ?thesis
      by (auto simp: min_def split: if_splits)
  qed
qed simp

subsection \<open>The chain keeps its books\<close>

text \<open>\<open>mFramesAllowed\<close> is the number of records with a handle, and every handle the allocator gave out
  is held or has been freed.\<close>

definition chain_ok :: "allocator \<Rightarrow> evs_camera \<times> gralloc \<Rightarrow> bool" where
  "chain_ok alloc cg = (case cg of (c, g) \<Rightarrow>
     unat (cam_framesAllowed c) = held (cam_buffers c) \<and>
     records_ok (cam_buffers c) \<and>
     held (cam_buffers c) \<le> 100 \<and> length (cam_buffers c) \<le> 100 \<and>
     mset (obtained alloc (ga_calls g)) = mset (handles (cam_buffers c)) + mset (live (ga_freed g)))"

text \<open>What an operation on the chain leaves alone: the stream, the busy records and their count.\<close>

definition chain_step :: "evs_camera \<Rightarrow> evs_camera \<Rightarrow> bool" where
  "chain_step c c' \<longleftrightarrow> cam_streamState c' = cam_streamState c \<and> cam_stream c' = cam_stream c \<and>
     cam_framesInUse c' = cam_framesInUse c \<and> busy (cam_buffers c') = busy (cam_buffers c) \<and>
     length (cam_buffers c) \<le> length (cam_buffers c') \<and>
     (\<forall>i < length (cam_buffers c). br_inUse (cam_buffers c ! i) \<longrightarrow>
        i < length (cam_buffers c') \<and> cam_buffers c' ! i = cam_buffers c ! i)"

lemma chain_step_refl [simp]: "chain_step c c"
  by (simp add: chain_step_def)

lemma chain_step_trans: "chain_step a b \<Longrightarrow> chain_step b c \<Longrightarrow> chain_step a c"
  by (auto simp: chain_step_def)

definition alloc_succeeds :: "alloc_reply \<Rightarrow> bool" where
  "alloc_succeeds r \<longleftrightarrow> reply_handles r \<noteq> []"

lemma alloc_succeeds_simp [simp]:
  "alloc_succeeds (status, h, stride) \<longleftrightarrow> status = 0 \<and> h \<noteq> None"
  by (cases h) (auto simp: alloc_succeeds_def)

lemma chain_ok_store:
  assumes "chain_ok alloc (c, g)" "held (cam_buffers c) < 100" "alloc (ga_calls g) = (0, Some h, st)"
  shows "chain_ok alloc (c\<lparr>cam_stride := st, cam_buffers := store_handle h (cam_buffers c),
      cam_framesAllowed := cam_framesAllowed c + 1\<rparr>, g\<lparr>ga_calls := Suc (ga_calls g)\<rparr>)"
    "chain_step c (c\<lparr>cam_stride := st, cam_buffers := store_handle h (cam_buffers c),
      cam_framesAllowed := cam_framesAllowed c + 1\<rparr>)"
proof -
  have "unat (cam_framesAllowed c + 1) = unat (cam_framesAllowed c) + 1"
    using assms by (simp add: chain_ok_def unat_word_ariths)
  then show "chain_ok alloc (c\<lparr>cam_stride := st, cam_buffers := store_handle h (cam_buffers c),
      cam_framesAllowed := cam_framesAllowed c + 1\<rparr>, g\<lparr>ga_calls := Suc (ga_calls g)\<rparr>)"
    using assms length_store [of h "cam_buffers c"]
    by (auto simp: chain_ok_def max_def split: if_splits)
  show "chain_step c (c\<lparr>cam_stride := st, cam_buffers := store_handle h (cam_buffers c),
      cam_framesAllowed := cam_framesAllowed c + 1\<rparr>)"
    using assms store_keeps_busy length_store_ge by (auto simp: chain_step_def chain_ok_def)
qed

lemma chain_ok_failed_alloc:
  assumes "chain_ok alloc (c, g)" "\<not> alloc_succeeds (alloc (ga_calls g))"
  shows "chain_ok alloc (c\<lparr>cam_stride := st\<rparr>, g\<lparr>ga_calls := Suc (ga_calls g)\<rparr>)"
  using assms by (simp add: chain_ok_def alloc_succeeds_def)

definition grown :: "allocator \<Rightarrow> nat \<Rightarrow> evs_camera \<times> gralloc \<Rightarrow> evs_camera \<times> gralloc \<Rightarrow> nat \<Rightarrow> bool" where
  "grown alloc n cg cg' j \<longleftrightarrow> chain_ok alloc cg' \<and> chain_step (fst cg) (fst cg') \<and> j \<le> n \<and>
     held (cam_buffers (fst cg')) = held (cam_buffers (fst cg)) + j \<and>
     (j = n \<longleftrightarrow> (\<forall>i < n. alloc_succeeds (alloc (ga_calls (snd cg) + i)))) \<and>
     (j = 0 \<longleftrightarrow> n = 0 \<or> \<not> alloc_succeeds (alloc (ga_calls (snd cg))))"

lemma increase_loop_grown:
  assumes "chain_ok alloc (c, g)" "held (cam_buffers c) + n \<le> 100"
    "increase_loop n alloc added (c, g) = (k, c', g')"
  shows "\<exists>j. k = added + of_nat j \<and> grown alloc n (c, g) (c', g') j"
  using assms
proof (induction n arbitrary: added c g)
  case 0
  then show ?case by (auto simp: grown_def)
next
  case (Suc n)
  obtain status h st where reply: "alloc (ga_calls g) = (status, h, st)" by (metis prod_cases3)
  show ?case
  proof (cases "status = 0 \<and> h \<noteq> None")
    case False
    then have "k = added \<and> c' = c\<lparr>cam_stride := st\<rparr> \<and> g' = g\<lparr>ga_calls := Suc (ga_calls g)\<rparr>"
      using Suc.prems (3) reply by (auto simp: Let_def split: if_splits option.splits)
    moreover have "\<not> alloc_succeeds (alloc (ga_calls g))" using reply False by simp
    ultimately have "k = added + of_nat 0 \<and> grown alloc (Suc n) (c, g) (c', g') 0"
      using chain_ok_failed_alloc [OF Suc.prems (1)]
      by (auto simp: grown_def chain_step_def intro!: exI [where x = 0])
    then show ?thesis by blast
  next
    case True
    then obtain h' where h: "status = 0" "h = Some h'" by blast
    define c1 where "c1 = c\<lparr>cam_stride := st, cam_buffers := store_handle h' (cam_buffers c),
      cam_framesAllowed := cam_framesAllowed c + 1\<rparr>"
    define g1 where "g1 = g\<lparr>ga_calls := Suc (ga_calls g)\<rparr>"
    note st = chain_ok_store [of alloc c g h' st, folded c1_def g1_def]
    have room: "held (cam_buffers c) < 100" using Suc.prems (2) by simp
    have ok1: "chain_ok alloc (c1, g1)" and step1: "chain_step c c1"
      using st Suc.prems (1) room reply h by simp_all
    have "increase_loop n alloc (added + 1) (c1, g1) = (k, c', g')"
      using Suc.prems (3) reply h by (simp add: c1_def g1_def Let_def)
    moreover have "held (cam_buffers c1) + n \<le> 100" using Suc.prems (2) by (simp add: c1_def)
    ultimately obtain j where j: "k = added + 1 + of_nat j" "grown alloc n (c1, g1) (c', g') j"
      using Suc.IH [OF ok1] by blast
    have here: "alloc_succeeds (alloc (ga_calls g))" using reply h by simp
    have "(\<forall>i < Suc n. alloc_succeeds (alloc (ga_calls g + i))) \<longleftrightarrow>
        (\<forall>i < n. alloc_succeeds (alloc (Suc (ga_calls g) + i)))"
      using reply h by (auto simp: less_Suc_eq_0_disj)
    then have "grown alloc (Suc n) (c, g) (c', g') (Suc j)"
      using j (2) chain_step_trans [OF step1] here
      by (simp add: grown_def) (auto simp: c1_def g1_def)
    then show ?thesis using j (1) by (intro exI [where x = "Suc j"]) (simp add: add_ac)
  qed
qed

lemma unat_of_nat_100: "n \<le> 100 \<Longrightarrow> unat (of_nat n :: u32) = n"
  by (simp add: unat_of_nat)

lemma decrease_spec:
  assumes ok: "chain_ok alloc (c, g)" and run: "decreaseAvailableFrames_Locked n (c, g) = (k, c', g')"
  defines "freed \<equiv> if n = 0 then idle (cam_buffers c) else min (idle (cam_buffers c)) (unat n)"
  shows "chain_ok alloc (c', g')" "chain_step c c'" "k = of_nat freed"
    "held (cam_buffers c') + freed = held (cam_buffers c)"
proof -
  obtain rs a m fs where loop: "decrease_loop n (cam_framesAllowed c) 0 (cam_buffers c) = (rs, a, m, fs)"
    by (metis prod_cases4)
  have c': "c' = c\<lparr>cam_buffers := rs, cam_framesAllowed := a\<rparr>" "g' = gralloc_free fs g" "k = m"
    using run loop by (simp_all add: decreaseAvailableFrames_Locked_def)
  note spec = decrease_loop_spec [OF loop]
  have ff: "freed_from (cam_buffers c) rs fs" and a: "a = cam_framesAllowed c - of_nat (length fs)"
    and m: "m = of_nat (length fs)" using spec by simp_all
  have bound: "idle (cam_buffers c) \<le> 100" using ok idle_held by (fastforce simp: chain_ok_def)
  have len: "length fs = freed"
    using decrease_loop_count [OF loop] bound by (auto simp: freed_def unat_eq_0 unat_gt_0)
  have le: "length fs \<le> unat (cam_framesAllowed c)" "length fs \<le> 100"
    using ff ok by (simp_all add: freed_from_def chain_ok_def)
  then have "of_nat (length fs) \<le> cam_framesAllowed c" by (simp add: word_le_nat_alt unat_of_nat_100)
  then have "unat a = unat (cam_framesAllowed c) - length fs"
    unfolding a using le by (simp add: unat_sub unat_of_nat_100)
  then show "chain_ok alloc (c', g')"
    using ok ff by (auto simp: chain_ok_def c' freed_from_def gralloc_free_def)
  show "chain_step c c'" using ff by (auto simp: chain_step_def c' freed_from_def)
  show "k = of_nat freed" "held (cam_buffers c') + freed = held (cam_buffers c)"
    using m len ff by (simp_all add: c' freed_from_def)
qed

definition set_frames_result ::
  "allocator \<Rightarrow> u32 \<Rightarrow> evs_camera \<times> gralloc \<Rightarrow> bool \<Rightarrow> evs_camera \<times> gralloc \<Rightarrow> bool" where
  "set_frames_result alloc n cg ok cg' \<longleftrightarrow>
     (let c = fst cg; old = unat (cam_framesAllowed c); new = unat (cam_framesAllowed (fst cg')) in
      (ok \<longleftrightarrow> 0 < n \<and> n \<le> 100 \<and> (\<forall>i < unat n - old. alloc_succeeds (alloc (ga_calls (snd cg) + i)))) \<and>
      (ok \<longrightarrow> new = max (unat n) (busy (cam_buffers c))) \<and>
      (\<not> ok \<longrightarrow> (if n = 0 \<or> 100 < n then cg' = cg
                 else new = (if alloc_succeeds (alloc (ga_calls (snd cg))) then old
                             else busy (cam_buffers c)))))"

lemma setAvailableFrames_spec:
  assumes ok: "chain_ok alloc (c, g)" and run: "setAvailableFrames_Locked alloc n (c, g) = (b, c', g')"
  shows "chain_ok alloc (c', g') \<and> chain_step c c' \<and> set_frames_result alloc n (c, g) b (c', g')"
proof -
  note count = ok [unfolded chain_ok_def split_conv]
  have idle: "idle (cam_buffers c) + busy (cam_buffers c) = held (cam_buffers c)"
    using count idle_held by blast
  consider (bad) "n < 1 \<or> 100 < n" | (grow) "\<not> (n < 1 \<or> 100 < n)" "cam_framesAllowed c < n"
    | (shrink) "\<not> (n < 1 \<or> 100 < n)" "n < cam_framesAllowed c"
    | (same) "\<not> (n < 1 \<or> 100 < n)" "n = cam_framesAllowed c"
    by (meson linorder_cases)
  then show ?thesis
  proof cases
    case bad
    then have "b = False \<and> c' = c \<and> g' = g"
      using run by (auto simp: setAvailableFrames_Locked_def split: if_splits)
    then show ?thesis using ok bad
      by (auto simp: set_frames_result_def word_less_1 word_gt_0 Let_def)
  next
    case same
    then have "b = True \<and> c' = c \<and> g' = g"
      using run by (simp add: setAvailableFrames_Locked_def)
    then show ?thesis using ok same count idle
      by (auto simp: set_frames_result_def word_gt_0 linorder_not_less Let_def)
  next
    case shrink
    define m where "m = cam_framesAllowed c - n"
    obtain k c1 g1 where dec: "decreaseAvailableFrames_Locked m (c, g) = (k, c1, g1)"
      by (metis prod_cases3)
    have b: "b = True \<and> c' = c1 \<and> g' = g1"
      using run shrink dec less_not_sym [OF shrink (2)]
      by (simp add: setAvailableFrames_Locked_def m_def)
    have m: "unat m = unat (cam_framesAllowed c) - unat n" "m \<noteq> 0"
      using shrink by (auto simp: m_def unat_sub word_less_nat_alt word_le_nat_alt)
    note spec = decrease_spec [OF ok dec]
    have "held (cam_buffers c1) = max (unat n) (busy (cam_buffers c))"
      using spec (4) m idle count shrink
      by (cases "unat n \<le> busy (cam_buffers c)") (simp_all add: word_less_nat_alt)
    then have "unat (cam_framesAllowed c') = max (unat n) (busy (cam_buffers c))"
      using spec (1) b count by (simp add: chain_ok_def)
    then show ?thesis using spec b shrink
      by (auto simp: set_frames_result_def word_gt_0 linorder_not_less word_less_nat_alt
          word_le_nat_alt Let_def)
  next
    case grow
    define m where "m = n - cam_framesAllowed c"
    have m: "unat m = unat n - unat (cam_framesAllowed c)" "0 < unat m"
      using grow by (simp_all add: m_def unat_sub word_less_nat_alt word_le_nat_alt)
    have n100: "unat n \<le> 100" using grow by (simp add: word_less_nat_alt)
    obtain k c1 g1 where inc: "increase_loop (unat m) alloc 0 (c, g) = (k, c1, g1)"
      by (metis prod_cases3)
    have "held (cam_buffers c) + unat m \<le> 100" using m count n100 grow
      by (simp add: word_less_nat_alt)
    then obtain j where j: "k = of_nat j" "grown alloc (unat m) (c, g) (c1, g1) j"
      using increase_loop_grown [OF ok _ inc] by auto
    have j100: "j \<le> 100" "j \<le> unat m" using j (2) m n100 by (auto simp: grown_def)
    have km: "k = m \<longleftrightarrow> j = unat m"
      using j (1) unat_of_nat_100 [OF j100 (1)] by (auto intro: unsigned_word_eqI)
    have ok1: "chain_ok alloc (c1, g1)" and step1: "chain_step c c1" using j (2) by (simp_all add: grown_def)
    have pos: "0 < n" "n \<le> 100" using grow by (auto simp: word_gt_0 linorder_not_less)
    show ?thesis
    proof (cases "k = m")
      case True
      then have b: "b = True \<and> c' = c1 \<and> g' = g1"
        using run grow inc
        by (simp add: setAvailableFrames_Locked_def increaseAvailableFrames_Locked_def m_def Let_def)
      have "unat (cam_framesAllowed c1) = unat n" "busy (cam_buffers c) \<le> unat n"
        using True km j (2) ok1 count m idle by (auto simp: grown_def chain_ok_def)
      then show ?thesis using b ok1 step1 pos True km j (2) m count
        by (auto simp: set_frames_result_def grown_def Let_def)
    next
      case False
      obtain k2 c2 g2 where dec: "decreaseAvailableFrames_Locked k (c1, g1) = (k2, c2, g2)"
        by (metis prod_cases3)
      have b: "b = False \<and> c' = c2 \<and> g' = g2"
        using run grow inc dec False
        by (simp add: setAvailableFrames_Locked_def increaseAvailableFrames_Locked_def m_def Let_def)
      note spec = decrease_spec [OF ok1 dec]
      have idle1: "idle (cam_buffers c1) + busy (cam_buffers c1) = held (cam_buffers c1)"
        using ok1 idle_held by (auto simp: chain_ok_def)
      have busy1: "busy (cam_buffers c1) = busy (cam_buffers c)"
        using ok1 count step1 by (simp add: chain_ok_def chain_step_def)
      have k0: "k = 0 \<longleftrightarrow> j = 0" using j (1) unat_of_nat_100 [OF j100 (1)] by (auto simp: unat_eq_0)
      have first: "j \<noteq> 0 \<longrightarrow> alloc_succeeds (alloc (ga_calls g))"
        "alloc_succeeds (alloc (ga_calls g)) \<longrightarrow> j \<noteq> 0"
        using j (2) m by (auto simp: grown_def)
      have "unat (cam_framesAllowed c2) = (if j = 0 then busy (cam_buffers c) else held (cam_buffers c))"
        using spec (1,4) idle1 busy1 k0 j j100 m idle
        by (auto simp: chain_ok_def grown_def unat_of_nat_100 min_def split: if_splits)
      then show ?thesis
        using spec (1) chain_step_trans [OF step1 spec (2)] b pos False km j (2) m count first
        by (auto simp: set_frames_result_def grown_def Let_def)
    qed
  qed
qed

subsection \<open>Returning a frame\<close>

lemma filter_update:
  "i < length xs \<Longrightarrow> length (filter P (xs[i := x])) + (if P (xs ! i) then 1 else 0) =
     length (filter P xs) + (if P x then 1 else 0)"
proof (induction xs arbitrary: i)
  case (Cons y ys)
  then show ?case by (cases i) auto
qed simp

lemma handles_update:
  "i < length rs \<Longrightarrow> mset (handles (rs[i := r])) + mset (live [br_handle (rs ! i)]) =
     mset (handles rs) + mset (live [br_handle r])"
proof (induction rs arbitrary: i)
  case (Cons y ys)
  then show ?case by (cases i) (auto simp: ac_simps)
qed simp

lemma records_ok_update:
  "records_ok rs \<Longrightarrow> (br_inUse r \<longrightarrow> br_handle r \<noteq> None) \<Longrightarrow> records_ok (rs[i := r])"
  unfolding records_ok_def using set_update_subset_insert [of rs i r] by blast

lemma first_empty_Some:
  "first_empty rs = Some j \<Longrightarrow>
   j < length rs \<and> br_handle (rs ! j) = None \<and> (\<forall>k < j. br_handle (rs ! k) \<noteq> None)"
proof (induction rs arbitrary: j)
  case (Cons r rs)
  show ?case
  proof (cases "br_handle r = None")
    case False
    then obtain j' where "j = Suc j'" "first_empty rs = Some j'" using Cons.prems by auto
    with Cons.IH False show ?thesis by (auto simp: nth_Cons split: nat.splits)
  qed (use Cons.prems in auto)
qed simp

lemma first_empty_None: "first_empty rs = None \<Longrightarrow> held rs = length rs"
  by (induction rs) (auto split: if_splits)

text \<open>Fewer handles than a position: some record below it is empty.\<close>

lemma empty_below:
  "held rs \<le> i \<Longrightarrow> i < length rs \<Longrightarrow> br_handle (rs ! i) \<noteq> None \<Longrightarrow>
   \<exists>j < i. first_empty rs = Some j"
proof (induction rs arbitrary: i)
  case (Cons r rs)
  show ?case
  proof (cases "br_handle r = None")
    case True
    with Cons.prems show ?thesis by (cases i) auto
  next
    case False
    with Cons.prems obtain i' where i: "i = Suc i'" by (cases i) auto
    have "\<exists>j < i'. first_empty rs = Some j"
      by (rule Cons.IH) (use Cons.prems False i in auto)
    with False i show ?thesis by auto
  qed
qed simp

lemma move_handle_down_spec:
  assumes "records_ok rs" "i < length rs" "br_handle (rs ! i) \<noteq> None" "\<not> br_inUse (rs ! i)"
  defines "rs' \<equiv> move_handle_down i rs"
  shows "length rs' = length rs" "held rs' = held rs" "busy rs' = busy rs"
    "mset (handles rs') = mset (handles rs)" "records_ok rs'"
    "k < length rs \<Longrightarrow> br_inUse (rs ! k) \<Longrightarrow> rs' ! k = rs ! k"
proof -
  have all: "length rs' = length rs \<and> held rs' = held rs \<and> busy rs' = busy rs \<and>
    mset (handles rs') = mset (handles rs) \<and> records_ok rs' \<and>
    (k < length rs \<longrightarrow> br_inUse (rs ! k) \<longrightarrow> rs' ! k = rs ! k)"
  proof (cases "first_empty rs")
    case None
    then show ?thesis using assms by (simp add: move_handle_down_def)
  next
    case (Some j)
    note j = first_empty_Some [OF Some]
    define r1 where "r1 = (rs ! j)\<lparr>br_handle := br_handle (rs ! i)\<rparr>"
    define r2 where "r2 = (rs ! i)\<lparr>br_handle := None\<rparr>"
    have ij: "i \<noteq> j" using j assms by auto
    have free: "\<not> br_inUse (rs ! j)" using j assms (1) by (auto simp: records_ok_def)
    have rs': "rs' = rs[j := r1, i := r2]"
      using Some ij by (simp add: rs'_def move_handle_down_def r1_def r2_def)
    have i1: "i < length (rs[j := r1])" "rs[j := r1] ! i = rs ! i" using assms (2) ij by simp_all
    have H: "length (filter P rs') + (if P (rs ! j) then 1 else 0) + (if P (rs ! i) then 1 else 0) =
        length (filter P rs) + (if P r1 then 1 else 0) + (if P r2 then 1 else 0)" for P
      using filter_update [of j rs P r1] filter_update [OF i1(1), of P r2] j i1 (2)
      unfolding rs' by simp
    have "held rs' = held rs" "busy rs' = busy rs"
      using H [of "\<lambda>r. br_handle r \<noteq> None"] H [of br_inUse] j assms (3,4) free
      by (simp_all add: held_def busy_def r1_def r2_def)
    moreover have "mset (handles rs') = mset (handles rs)"
      using handles_update [of j rs r1] handles_update [OF i1(1), of r2] j i1 (2)
      unfolding rs' by (auto simp: r1_def r2_def)
    moreover have "records_ok rs'"
      unfolding rs' using assms (1,4) free
      by (intro records_ok_update) (auto simp: r1_def r2_def)
    moreover have "br_inUse (rs ! k) \<longrightarrow> rs' ! k = rs ! k"
      using free assms (4) by (cases "k = i"; cases "k = j") (auto simp: rs')
    ultimately show ?thesis by (simp add: rs')
  qed
  then show "length rs' = length rs" "held rs' = held rs" "busy rs' = busy rs"
    "mset (handles rs') = mset (handles rs)" "records_ok rs'"
    "k < length rs \<Longrightarrow> br_inUse (rs ! k) \<Longrightarrow> rs' ! k = rs ! k" by blast+
qed

text \<open>Marking a busy record free.\<close>

lemma mark_free_spec:
  assumes "records_ok rs" "i < length rs" "br_inUse (rs ! i)"
  defines "rs' \<equiv> rs[i := (rs ! i)\<lparr>br_inUse := False\<rparr>]"
  shows "length rs' = length rs" "held rs' = held rs" "Suc (busy rs') = busy rs"
    "mset (handles rs') = mset (handles rs)" "records_ok rs'"
    "br_handle (rs' ! i) = br_handle (rs ! i)" "br_handle (rs ! i) \<noteq> None" "\<not> br_inUse (rs' ! i)"
    "k < length rs \<Longrightarrow> br_inUse (rs' ! k) \<Longrightarrow> rs' ! k = rs ! k"
  using assms filter_update [of i rs br_inUse "(rs ! i)\<lparr>br_inUse := False\<rparr>"]
    filter_update [of i rs "\<lambda>r. br_handle r \<noteq> None" "(rs ! i)\<lparr>br_inUse := False\<rparr>"]
    handles_update [of i rs "(rs ! i)\<lparr>br_inUse := False\<rparr>"]
    records_ok_update [of rs "(rs ! i)\<lparr>br_inUse := False\<rparr>" i]
  by (auto simp: held_def busy_def records_ok_def nth_list_update split: if_splits)

definition returns_frame :: "buffer_desc \<Rightarrow> evs_camera \<Rightarrow> bool" where
  "returns_frame b c \<longleftrightarrow> bd_memHandle b \<noteq> None \<and>
     unat (bd_bufferId b) < length (cam_buffers c) \<and> br_inUse (cam_buffers c ! unat (bd_bufferId b))"

lemma doneWithFrame_ignored: "\<not> returns_frame b c \<Longrightarrow> doneWithFrame b c = c"
  by (auto simp: doneWithFrame_def returns_frame_def Let_def)

definition done_buffers :: "nat \<Rightarrow> evs_camera \<Rightarrow> buffer_record list" where
  "done_buffers i c = (let rs = (cam_buffers c)[i := (cam_buffers c ! i)\<lparr>br_inUse := False\<rparr>] in
     if unat (cam_framesAllowed c) \<le> i then move_handle_down i rs else rs)"

lemma doneWithFrame_returns:
  "returns_frame b c \<Longrightarrow> doneWithFrame b c = c\<lparr>cam_framesInUse := cam_framesInUse c - 1,
     cam_buffers := done_buffers (unat (bd_bufferId b)) c\<rparr>"
  by (auto simp: doneWithFrame_def returns_frame_def done_buffers_def Let_def word_le_nat_alt)

lemma done_buffers_spec:
  assumes "records_ok (cam_buffers c)" "i < length (cam_buffers c)" "br_inUse (cam_buffers c ! i)"
  defines "rs \<equiv> cam_buffers c" and "rs' \<equiv> done_buffers i c"
  shows "length rs' = length rs" "held rs' = held rs" "Suc (busy rs') = busy rs"
    "mset (handles rs') = mset (handles rs)" "records_ok rs'"
    "k < length rs \<Longrightarrow> k \<noteq> i \<Longrightarrow> br_inUse (rs ! k) \<Longrightarrow> rs' ! k = rs ! k"
proof -
  define rs1 where "rs1 = rs[i := (rs ! i)\<lparr>br_inUse := False\<rparr>]"
  note free = mark_free_spec [OF assms (1-3), folded rs_def, folded rs1_def]
  have i1: "i < length rs1" using free (1) assms (2) by (simp add: rs_def)
  have nn: "br_handle (rs1 ! i) \<noteq> None" using free (6,7) by simp
  note move = move_handle_down_spec [OF free (5) i1 nn free (8)]
  have rs': "rs' = (if unat (cam_framesAllowed c) \<le> i then move_handle_down i rs1 else rs1)"
    by (simp add: rs'_def done_buffers_def rs1_def rs_def)
  show "length rs' = length rs" "held rs' = held rs" "Suc (busy rs') = busy rs"
    "mset (handles rs') = mset (handles rs)" "records_ok rs'"
    using free move by (simp_all add: rs')
  assume k: "k < length rs" "k \<noteq> i" "br_inUse (rs ! k)"
  then have "rs1 ! k = rs ! k" by (simp add: rs1_def)
  then show "rs' ! k = rs ! k" using k move (6) [of k] free (1) by (simp add: rs')
qed

lemma unat_minus_1: "unat (x :: u32) = Suc n \<Longrightarrow> unat (x - 1) = n"
  by (metis Suc_eq_plus1 add_diff_cancel_right' nat.distinct(1) unat_0 unat_minus_one)

lemma chain_ok_done:
  assumes "chain_ok alloc (c, g)"
  shows "chain_ok alloc (doneWithFrame b c, g)" "length (cam_buffers (doneWithFrame b c)) = length (cam_buffers c)"
    "unat (cam_framesInUse c) = busy (cam_buffers c) \<Longrightarrow>
     unat (cam_framesInUse (doneWithFrame b c)) = busy (cam_buffers (doneWithFrame b c))"
proof -
  have "chain_ok alloc (doneWithFrame b c, g) \<and> length (cam_buffers (doneWithFrame b c)) = length (cam_buffers c) \<and>
    (unat (cam_framesInUse c) = busy (cam_buffers c) \<longrightarrow>
     unat (cam_framesInUse (doneWithFrame b c)) = busy (cam_buffers (doneWithFrame b c)))"
  proof (cases "returns_frame b c")
    case True
    have ok: "records_ok (cam_buffers c)" using assms by (simp add: chain_ok_def)
    have i: "unat (bd_bufferId b) < length (cam_buffers c)" "br_inUse (cam_buffers c ! unat (bd_bufferId b))"
      using True by (simp_all add: returns_frame_def)
    note spec = done_buffers_spec [OF ok i]
    have "unat (cam_framesInUse c) = busy (cam_buffers c) \<Longrightarrow>
        unat (cam_framesInUse c - 1) = busy (done_buffers (unat (bd_bufferId b)) c)"
      using spec (3) unat_minus_1 by simp
    then show ?thesis using spec assms by (simp add: chain_ok_def doneWithFrame_returns [OF True])
  qed (simp add: doneWithFrame_ignored assms)
  then show "chain_ok alloc (doneWithFrame b c, g)" "length (cam_buffers (doneWithFrame b c)) = length (cam_buffers c)"
    "unat (cam_framesInUse c) = busy (cam_buffers c) \<Longrightarrow>
     unat (cam_framesInUse (doneWithFrame b c)) = busy (cam_buffers (doneWithFrame b c))" by simp_all
qed

lemma done_keeps_busy:
  assumes "chain_ok alloc (c, g)" "k < length (cam_buffers c)" "br_inUse (cam_buffers c ! k)"
    "k \<noteq> unat (bd_bufferId b)"
  shows "k < length (cam_buffers (doneWithFrame b c)) \<and>
    cam_buffers (doneWithFrame b c) ! k = cam_buffers c ! k"
proof (cases "returns_frame b c")
  case True
  have ok: "records_ok (cam_buffers c)" using assms by (simp add: chain_ok_def)
  have i: "unat (bd_bufferId b) < length (cam_buffers c)" "br_inUse (cam_buffers c ! unat (bd_bufferId b))"
    using True by (simp_all add: returns_frame_def)
  show ?thesis using done_buffers_spec (1,6) [OF ok i] assms
    by (simp add: doneWithFrame_returns [OF True])
qed (simp add: doneWithFrame_ignored assms)

lemma done_keeps_stream [simp]:
  "cam_streamState (doneWithFrame b c) = cam_streamState c"
  "cam_stream (doneWithFrame b c) = cam_stream c"
  by (cases "returns_frame b c"; simp add: doneWithFrame_returns doneWithFrame_ignored)+

subsection \<open>The invariant of the two threads\<close>

definition thread_ok :: "camera_system \<Rightarrow> bool" where
  "thread_ok s \<longleftrightarrow> (let c = cs_camera s in
     (\<forall>i. held_index (cs_thread s) = Some i \<longrightarrow> i < length (cam_buffers c)) \<and>
     (cs_thread s = No_Thread \<longleftrightarrow> cam_streamState c \<in> {STOPPED, DEAD}) \<and>
     (cs_service s = Serving \<longleftrightarrow> cam_streamState c \<noteq> STOPPING))"

text \<open>After \<open>forceShutdown\<close> the counters are stale, but there is no record left.\<close>

definition camera_inv :: "allocator \<Rightarrow> camera_system \<Rightarrow> bool" where
  "camera_inv alloc s \<longleftrightarrow> thread_ok s \<and>
     (if cam_streamState (cs_camera s) = DEAD
      then cam_buffers (cs_camera s) = [] \<and>
        mset (obtained alloc (ga_calls (cs_gralloc s))) = mset (live (ga_freed (cs_gralloc s)))
      else chain_ok alloc (cs_camera s, cs_gralloc s))"

text \<open>What a careful client keeps as well: the count of the busy records, and that the record of the
  capture thread is one of them.\<close>

definition careful_inv :: "camera_system \<Rightarrow> bool" where
  "careful_inv s \<longleftrightarrow> cam_streamState (cs_camera s) \<noteq> DEAD \<longrightarrow>
     unat (cam_framesInUse (cs_camera s)) = busy (cam_buffers (cs_camera s)) \<and>
     (\<forall>i. held_index (cs_thread s) = Some i \<longrightarrow> br_inUse (cam_buffers (cs_camera s) ! i))"

lemma camera_inv_new: "camera_inv alloc (new_camera_system name)"
  by (simp add: camera_inv_def thread_ok_def new_camera_system_def new_EvsCamera_def chain_ok_def
      Let_def)

lemma careful_inv_new: "careful_inv (new_camera_system name)"
  by (simp add: careful_inv_def new_camera_system_def new_EvsCamera_def Let_def)

lemma thread_ok_chain_step:
  "thread_ok s \<Longrightarrow> chain_step (cs_camera s) c \<Longrightarrow> thread_ok (s\<lparr>cs_camera := c, cs_gralloc := g\<rparr>)"
  by (force simp: thread_ok_def chain_step_def Let_def)

lemma careful_chain_step:
  "thread_ok s \<Longrightarrow> careful_inv s \<Longrightarrow> chain_step (cs_camera s) c \<Longrightarrow> careful_inv (s\<lparr>cs_camera := c, cs_gralloc := g\<rparr>)"
  by (auto simp: careful_inv_def thread_ok_def chain_step_def Let_def)

lemma setMax_chain:
  assumes "setMaxFramesInFlight alloc n (c, g) = (res, c', g')"
  shows "cam_streamState c = DEAD \<Longrightarrow> c' = c \<and> g' = g"
    "chain_ok alloc (c, g) \<Longrightarrow> chain_ok alloc (c', g') \<and> chain_step c c'"
proof -
  show "cam_streamState c = DEAD \<Longrightarrow> c' = c \<and> g' = g"
    using assms by (simp add: setMaxFramesInFlight_def)
  assume ok: "chain_ok alloc (c, g)"
  obtain b c1 g1 where set: "setAvailableFrames_Locked alloc n (c, g) = (b, c1, g1)"
    by (metis prod_cases3)
  show "chain_ok alloc (c', g') \<and> chain_step c c'"
    using setAvailableFrames_spec [OF ok set] assms set ok
    by (auto simp: setMaxFramesInFlight_def split: if_splits)
qed

lemma inv_set_max:
  assumes inv: "camera_inv alloc s"
    and run: "setMaxFramesInFlight alloc n (cs_camera s, cs_gralloc s) = (res, c, g)"
  defines "t \<equiv> s\<lparr>cs_camera := c, cs_gralloc := g\<rparr>"
  shows "camera_inv alloc t" "careful_inv s \<Longrightarrow> careful_inv t"
proof -
  have "camera_inv alloc t \<and> (careful_inv s \<longrightarrow> careful_inv t)"
  proof (cases "cam_streamState (cs_camera s) = DEAD")
    case True
    then show ?thesis using inv setMax_chain (1) [OF run] by (simp add: camera_inv_def t_def)
  next
    case False
    then have ok: "chain_ok alloc (cs_camera s, cs_gralloc s)" "thread_ok s"
      using inv by (simp_all add: camera_inv_def)
    have c: "chain_ok alloc (c, g)" "chain_step (cs_camera s) c"
      using setMax_chain (2) [OF run ok (1)] by simp_all
    with False have "cam_streamState c \<noteq> DEAD" by (simp add: chain_step_def)
    then show ?thesis
      using c thread_ok_chain_step [OF ok (2) c (2)] careful_chain_step [OF ok (2) _ c (2)]
      by (simp add: camera_inv_def t_def)
  qed
  then show "camera_inv alloc t" "careful_inv s \<Longrightarrow> careful_inv t" by simp_all
qed

lemma chain_ok_stream [simp]:
  "chain_ok alloc (c\<lparr>cam_stream := st\<rparr>, g) = chain_ok alloc (c, g)"
  "chain_ok alloc (c\<lparr>cam_streamState := v\<rparr>, g) = chain_ok alloc (c, g)"
  by (simp_all add: chain_ok_def)

text \<open>\<open>startVideoStream\<close>: either nothing is started and the state stays, or the camera was stopped
  and runs now.\<close>

lemma start_cases:
  assumes "startVideoStream alloc stream (c, g) = (res, started, c', g')" "cam_streamState c \<noteq> DEAD"
    "chain_ok alloc (c, g)"
  shows "chain_ok alloc (c', g')"
    "\<not> started \<Longrightarrow> chain_step c c'"
    "started \<Longrightarrow> cam_streamState c = STOPPED \<and> cam_streamState c' = RUNNING \<and> cam_stream c' = stream \<and>
       cam_framesInUse c' = cam_framesInUse c \<and> busy (cam_buffers c') = busy (cam_buffers c)"
    "started \<longleftrightarrow> res = OK"
proof -
  define t where "t = (if cam_framesAllowed c < 1 then setAvailableFrames_Locked alloc 1 (c, g)
                       else (True, c, g))"
  obtain b c1 g1 where t1: "t = (b, c1, g1)" by (metis prod_cases3)
  have "chain_ok alloc (c1, g1) \<and> chain_step c c1"
    using setAvailableFrames_spec [OF assms (3)] t1 assms (3) by (auto simp: t_def split: if_splits)
  moreover have "startVideoStream alloc stream (c, g) =
    (if cam_streamState c \<noteq> STOPPED then (STREAM_ALREADY_RUNNING, False, c, g)
     else if \<not> b then (BUFFER_NOT_AVAILABLE, False, c1, g1)
     else (OK, True, c1\<lparr>cam_stream := stream, cam_streamState := RUNNING\<rparr>, g1))"
    using assms (2) t1
    by (cases "cam_framesAllowed c < 1") (auto simp: startVideoStream_def t_def)
  ultimately show "chain_ok alloc (c', g')" "\<not> started \<Longrightarrow> chain_step c c'"
    "started \<Longrightarrow> cam_streamState c = STOPPED \<and> cam_streamState c' = RUNNING \<and> cam_stream c' = stream \<and>
       cam_framesInUse c' = cam_framesInUse c \<and> busy (cam_buffers c') = busy (cam_buffers c)"
    "started \<longleftrightarrow> res = OK"
    using assms (1,3) by (auto simp: chain_step_def split: if_splits)
qed

lemma inv_start:
  assumes inv: "camera_inv alloc s"
    and run: "startVideoStream alloc stream (cs_camera s, cs_gralloc s) = (res, started, c, g)"
  defines "t \<equiv> s\<lparr>cs_camera := c, cs_gralloc := g, cs_thread := (if started then At_Top else cs_thread s)\<rparr>"
  shows "camera_inv alloc t" "careful_inv s \<Longrightarrow> careful_inv t"
proof -
  have "camera_inv alloc t \<and> (careful_inv s \<longrightarrow> careful_inv t)"
  proof (cases "cam_streamState (cs_camera s) = DEAD")
    case True
    then have "c = cs_camera s \<and> g = cs_gralloc s \<and> \<not> started"
      using run by (simp add: startVideoStream_def)
    then show ?thesis using inv True by (simp add: t_def)
  next
    case alive: False
    then have ok: "chain_ok alloc (cs_camera s, cs_gralloc s)" "thread_ok s"
      using inv by (simp_all add: camera_inv_def)
    note start = start_cases [OF run alive ok (1)]
    show ?thesis
    proof (cases started)
      case True
      then show ?thesis using start (1,3) ok (2) alive
        by (auto simp: camera_inv_def thread_ok_def careful_inv_def t_def Let_def)
    next
      case False
      then have step: "chain_step (cs_camera s) c" using start (2) by simp
      with alive have "cam_streamState c \<noteq> DEAD" by (simp add: chain_step_def)
      then show ?thesis
        using thread_ok_chain_step [OF ok (2) step] careful_chain_step [OF ok (2) _ step] start (1) False
        by (simp add: camera_inv_def t_def)
    qed
  qed
  then show "camera_inv alloc t" "careful_inv s \<Longrightarrow> careful_inv t" by simp_all
qed

lemma inv_done:
  assumes inv: "camera_inv alloc s"
  defines "t \<equiv> \<lambda>b. s\<lparr>cs_camera := doneWithFrame b (cs_camera s)\<rparr>"
  shows "camera_inv alloc (t b)"
    "careful_inv s \<Longrightarrow> held_index (cs_thread s) \<noteq> Some (unat (bd_bufferId b)) \<Longrightarrow> careful_inv (t b)"
proof -
  have "camera_inv alloc (t b) \<and>
    (careful_inv s \<and> held_index (cs_thread s) \<noteq> Some (unat (bd_bufferId b)) \<longrightarrow> careful_inv (t b))"
  proof (cases "cam_streamState (cs_camera s) = DEAD")
    case True
    then have "\<not> returns_frame b (cs_camera s)" using inv by (simp add: camera_inv_def returns_frame_def)
    then show ?thesis using inv by (simp add: doneWithFrame_ignored t_def)
  next
    case False
    then have ok: "chain_ok alloc (cs_camera s, cs_gralloc s)" "thread_ok s"
      using inv by (simp_all add: camera_inv_def)
    note d = chain_ok_done [OF ok (1), of b]
    have th: "thread_ok (t b)" using ok (2) d(2) by (simp add: thread_ok_def t_def Let_def)
    have "careful_inv (t b)" if c: "careful_inv s" "held_index (cs_thread s) \<noteq> Some (unat (bd_bufferId b))"
      unfolding careful_inv_def
    proof (intro impI conjI allI)
      show "unat (cam_framesInUse (cs_camera (t b))) = busy (cam_buffers (cs_camera (t b)))"
        using c(1) False d(3) by (simp add: careful_inv_def t_def)
      fix i assume i: "held_index (cs_thread (t b)) = Some i"
      then have "i < length (cam_buffers (cs_camera s))" "br_inUse (cam_buffers (cs_camera s) ! i)"
          "i \<noteq> unat (bd_bufferId b)"
        using c False ok(2) by (auto simp: careful_inv_def thread_ok_def t_def Let_def)
      then show "br_inUse (cam_buffers (cs_camera (t b)) ! i)"
        using done_keeps_busy [OF ok (1), of i b] by (simp add: t_def)
    qed
    then show ?thesis using th d(1) False by (simp add: camera_inv_def t_def)
  qed
  then show "camera_inv alloc (t b)"
    "careful_inv s \<Longrightarrow> held_index (cs_thread s) \<noteq> Some (unat (bd_bufferId b)) \<Longrightarrow> careful_inv (t b)"
    by simp_all
qed

lemma find_available_spec:
  "find_available rs < length rs \<Longrightarrow>
   \<not> br_inUse (rs ! find_available rs) \<and> br_handle (rs ! find_available rs) \<noteq> None"
  by (induction rs) (auto split: if_splits)

lemma find_available_exists: "0 < idle rs \<Longrightarrow> find_available rs < length rs"
  by (induction rs) (auto split: if_splits)

text \<open>Marking an available record busy.\<close>

lemma mark_busy_spec:
  assumes "records_ok rs" "i < length rs" "\<not> br_inUse (rs ! i)" "br_handle (rs ! i) \<noteq> None"
  defines "rs' \<equiv> rs[i := (rs ! i)\<lparr>br_inUse := True\<rparr>]"
  shows "length rs' = length rs" "held rs' = held rs" "busy rs' = Suc (busy rs)"
    "mset (handles rs') = mset (handles rs)" "records_ok rs'" "br_inUse (rs' ! i)"
  using assms filter_update [of i rs br_inUse "(rs ! i)\<lparr>br_inUse := True\<rparr>"]
    filter_update [of i rs "\<lambda>r. br_handle r \<noteq> None" "(rs ! i)\<lparr>br_inUse := True\<rparr>"]
    handles_update [of i rs "(rs ! i)\<lparr>br_inUse := True\<rparr>"]
    records_ok_update [of rs "(rs ! i)\<lparr>br_inUse := True\<rparr>" i]
  by (auto simp: held_def busy_def split: if_splits)

lemma busy_le_held: "records_ok rs \<Longrightarrow> busy rs \<le> held rs"
  using idle_held [of rs] by simp

lemma capture_top_spec:
  assumes "chain_ok alloc (c, g)" "capture_top c = (c', pc)"
  shows "chain_ok alloc (c', g)" "cam_streamState c' = cam_streamState c"
    "pc = Ending \<longleftrightarrow> cam_streamState c \<noteq> RUNNING" "pc \<in> {Ending, At_Top} \<or>
     (\<exists>i. pc = Holding i \<and> i < length (cam_buffers c') \<and> br_inUse (cam_buffers c' ! i))"
    "cam_stream c' = cam_stream c"
    "unat (cam_framesInUse c) = busy (cam_buffers c) \<Longrightarrow> unat (cam_framesInUse c') = busy (cam_buffers c')"
proof -
  define i where "i = find_available (cam_buffers c)"
  have skip: "c' = c \<and> pc \<in> {Ending, At_Top} \<and> (pc = Ending \<longleftrightarrow> cam_streamState c \<noteq> RUNNING)"
    if "\<not> (cam_streamState c = RUNNING \<and> cam_framesInUse c < cam_framesAllowed c \<and> i < length (cam_buffers c))"
    using that assms (2) by (auto simp: capture_top_def Let_def i_def split: if_splits)
  have take: "chain_ok alloc (c', g) \<and> cam_streamState c' = cam_streamState c \<and> pc = Holding i \<and>
      i < length (cam_buffers c') \<and> br_inUse (cam_buffers c' ! i) \<and> cam_stream c' = cam_stream c \<and>
      (unat (cam_framesInUse c) = busy (cam_buffers c) \<longrightarrow> unat (cam_framesInUse c') = busy (cam_buffers c'))"
    if "cam_streamState c = RUNNING" "cam_framesInUse c < cam_framesAllowed c" "i < length (cam_buffers c)"
  proof -
    have c': "pc = Holding i" "c' = c\<lparr>cam_buffers := (cam_buffers c)[i := (cam_buffers c ! i)\<lparr>br_inUse := True\<rparr>],
        cam_framesInUse := cam_framesInUse c + 1\<rparr>"
      using assms (2) that by (simp_all add: capture_top_def Let_def i_def split: if_splits)
    have ok: "records_ok (cam_buffers c)" using assms (1) by (simp add: chain_ok_def)
    have "unat (cam_framesInUse c) < unat (cam_framesAllowed c)" "unat (cam_framesAllowed c) \<le> 100"
      using that(2) assms (1) by (simp_all add: chain_ok_def word_less_nat_alt)
    then have "unat (cam_framesInUse c + 1) = Suc (unat (cam_framesInUse c))"
      by (simp add: unat_word_ariths)
    moreover have free: "\<not> br_inUse (cam_buffers c ! i)" "br_handle (cam_buffers c ! i) \<noteq> None"
      using find_available_spec that (3) by (auto simp: i_def)
    note mark = mark_busy_spec [OF ok that (3) free]
    ultimately show ?thesis using mark assms (1) that by (simp add: c' chain_ok_def)
  qed
  show "chain_ok alloc (c', g)" "cam_streamState c' = cam_streamState c"
    "pc = Ending \<longleftrightarrow> cam_streamState c \<noteq> RUNNING" "pc \<in> {Ending, At_Top} \<or>
     (\<exists>i. pc = Holding i \<and> i < length (cam_buffers c') \<and> br_inUse (cam_buffers c' ! i))"
    "cam_stream c' = cam_stream c"
    "unat (cam_framesInUse c) = busy (cam_buffers c) \<Longrightarrow> unat (cam_framesInUse c') = busy (cam_buffers c')"
    using skip take assms (1) by blast+
qed

text \<open>Giving a record back: it need not be busy any more.\<close>

lemma chain_ok_give_back:
  assumes "chain_ok alloc (c, g)" "i < length (cam_buffers c)"
  shows "chain_ok alloc (give_back i c, g)"
    "br_inUse (cam_buffers c ! i) \<Longrightarrow> unat (cam_framesInUse c) = busy (cam_buffers c) \<Longrightarrow>
     unat (cam_framesInUse (give_back i c)) = busy (cam_buffers (give_back i c))"
proof -
  have ok: "records_ok (cam_buffers c)" using assms by (simp add: chain_ok_def)
  have "chain_ok alloc (give_back i c, g) \<and> (br_inUse (cam_buffers c ! i) \<longrightarrow>
      unat (cam_framesInUse c) = busy (cam_buffers c) \<longrightarrow>
      unat (cam_framesInUse (give_back i c)) = busy (cam_buffers (give_back i c)))"
  proof (cases "br_inUse (cam_buffers c ! i)")
    case True
    note free = mark_free_spec [OF ok assms (2) True]
    have "unat (cam_framesInUse c) = busy (cam_buffers c) \<Longrightarrow>
        unat (cam_framesInUse c - 1) = busy (cam_buffers (give_back i c))"
      using free (3) unat_minus_1 by (simp add: give_back_def)
    then show ?thesis using free assms (1) by (simp add: chain_ok_def give_back_def)
  next
    case False
    then have "(cam_buffers c ! i)\<lparr>br_inUse := False\<rparr> = cam_buffers c ! i" by simp
    then have "(cam_buffers c)[i := (cam_buffers c ! i)\<lparr>br_inUse := False\<rparr>] = cam_buffers c"
      by (simp only: list_update_id)
    then show ?thesis using False assms (1) unfolding chain_ok_def give_back_def by simp
  qed
  then show "chain_ok alloc (give_back i c, g)"
    "br_inUse (cam_buffers c ! i) \<Longrightarrow> unat (cam_framesInUse c) = busy (cam_buffers c) \<Longrightarrow>
     unat (cam_framesInUse (give_back i c)) = busy (cam_buffers (give_back i c))" by simp_all
qed

lemma give_back_stream [simp]:
  "cam_streamState (give_back i c) = cam_streamState c" "cam_stream (give_back i c) = cam_stream c"
  by (simp_all add: give_back_def)

lemma inv_capture:
  assumes inv: "camera_inv alloc s"
  shows "camera_inv alloc (capture_step ok s)" "careful_inv s \<Longrightarrow> careful_inv (capture_step ok s)"
proof -
  have "camera_inv alloc (capture_step ok s) \<and> (careful_inv s \<longrightarrow> careful_inv (capture_step ok s))"
  proof (cases "cs_thread s = No_Thread")
    case True
    then show ?thesis using inv by (simp add: capture_step_def)
  next
    case False
    then have st: "cam_streamState (cs_camera s) \<noteq> DEAD" "cam_streamState (cs_camera s) \<noteq> STOPPED"
      using inv by (auto simp: camera_inv_def thread_ok_def Let_def)
    then have chain: "chain_ok alloc (cs_camera s, cs_gralloc s)" and th: "thread_ok s"
      using inv by (simp_all add: camera_inv_def)
    show ?thesis
    proof (cases "cs_thread s")
      case At_Top
      obtain c pc where top: "capture_top (cs_camera s) = (c, pc)" by (metis prod.exhaust)
      note spec = capture_top_spec [OF chain top]
      have "held_index pc = None \<or> (\<exists>i. held_index pc = Some i \<and> i < length (cam_buffers c) \<and> br_inUse (cam_buffers c ! i))"
          "pc \<noteq> No_Thread"
        using spec(4) by auto
      then show ?thesis using spec(1,2,6) At_Top top st th
        by (auto simp: capture_step_def camera_inv_def careful_inv_def thread_ok_def Let_def)
    next
      case (Undelivered i)
      then have i: "i < length (cam_buffers (cs_camera s))" using th by (simp add: thread_ok_def Let_def)
      show ?thesis using chain_ok_give_back [OF chain i] Undelivered st th
        by (simp add: capture_step_def camera_inv_def careful_inv_def thread_ok_def Let_def)
    qed (use False st chain th in \<open>auto simp: capture_step_def camera_inv_def careful_inv_def thread_ok_def Let_def
          split: option.splits\<close>)
  qed
  then show "camera_inv alloc (capture_step ok s)" "careful_inv s \<Longrightarrow> careful_inv (capture_step ok s)" by simp_all
qed

lemma live_handles: "mset (live (map br_handle rs)) = mset (handles rs)"
  by (simp add: handles_def)

lemma camera_inv_shutdown:
  assumes "camera_inv alloc s" "cam_streamState (cs_camera s) \<in> {STOPPED, DEAD}"
  shows "camera_inv alloc (shutdown_locked s)"
  using assms
  by (auto simp: camera_inv_def shutdown_locked_def thread_ok_def gralloc_free_def chain_ok_def
      live_handles Let_def split: if_splits capture_pc.splits)

lemma careful_inv_stop:
  "careful_inv s \<Longrightarrow> careful_inv (stop_begin b s)" "careful_inv s \<Longrightarrow> cam_streamState (cs_camera s) \<noteq> DEAD \<Longrightarrow> careful_inv (stop_end b s)"
  by (auto simp: careful_inv_def stop_begin_def stop_end_def after_stop_def shutdown_locked_def)

lemma camera_inv_stop_begin:
  assumes inv: "camera_inv alloc s" and serving: "cs_service s = Serving"
  shows "camera_inv alloc (stop_begin b s)"
proof (cases "cam_streamState (cs_camera s) = RUNNING")
  case True
  then show ?thesis using inv serving
    by (auto simp: stop_begin_def camera_inv_def thread_ok_def Let_def)
next
  case False
  then have "cam_streamState (cs_camera s) \<in> {STOPPED, DEAD}"
    using inv serving by (cases "cam_streamState (cs_camera s)") (auto simp: camera_inv_def thread_ok_def Let_def)
  then show ?thesis using camera_inv_shutdown [OF inv] inv False by (simp add: stop_begin_def after_stop_def)
qed

lemma camera_inv_stop_end:
  assumes inv: "camera_inv alloc s" and joining: "cs_service s = Joining b"
  shows "camera_inv alloc (stop_end b s)" "cam_streamState (cs_camera s) \<noteq> DEAD"
proof -
  have st: "cam_streamState (cs_camera s) = STOPPING"
    using inv joining by (auto simp: camera_inv_def thread_ok_def Let_def)
  then show "cam_streamState (cs_camera s) \<noteq> DEAD" by simp
  from st have "camera_inv alloc
    (s\<lparr>cs_camera := (cs_camera s)\<lparr>cam_streamState := STOPPED, cam_stream := None\<rparr>,
       cs_thread := No_Thread, cs_service := Serving\<rparr>)"
    using inv by (simp add: camera_inv_def thread_ok_def Let_def)
  from this camera_inv_shutdown [OF this] show "camera_inv alloc (stop_end b s)"
    by (simp add: stop_end_def after_stop_def)
qed

lemma inv_move:
  assumes "camera_move alloc s t" "camera_inv alloc s"
  shows "camera_inv alloc t \<and> (careful_inv s \<longrightarrow> careful_inv t)"
  using assms(1)
proof cases
  case (move_set_max n res c g)
  show ?thesis unfolding move_set_max(1) using inv_set_max [OF assms(2) move_set_max(3)] by blast
next
  case (move_start stream res started c g)
  show ?thesis unfolding move_start(1) using inv_start [OF assms(2) move_start(3)] by blast
next
  case (move_stop shutdown)
  show ?thesis unfolding move_stop(1)
    using camera_inv_stop_begin [OF assms(2) move_stop(2)] careful_inv_stop(1) by blast
next
  case (move_join shutdown)
  show ?thesis unfolding move_join(1)
    using camera_inv_stop_end [OF assms(2) move_join(2)] careful_inv_stop(2) by blast
next
  case (move_capture ok)
  show ?thesis unfolding move_capture using inv_capture [OF assms(2)] by blast
qed

lemma camera_inv_step: "camera_step alloc s t \<Longrightarrow> camera_inv alloc s \<Longrightarrow> camera_inv alloc t"
  by (elim camera_stepE) (use inv_move inv_done(1) in blast)+

lemma camera_inv_reachable: "camera_reachable alloc name s \<Longrightarrow> camera_inv alloc s"
  by (induction rule: camera_reachable.induct) (auto intro: camera_inv_new camera_inv_step)

lemma careful_inv_reachable: "careful_reachable alloc name s \<Longrightarrow> careful_inv s"
proof (induction rule: careful_reachable.induct)
  case (careful_move s t)
  then show ?case using inv_move camera_inv_reachable [OF careful_is_reachable] by blast
next
  case (careful_done s b)
  then show ?case using inv_done(2) camera_inv_reachable [OF careful_is_reachable] by blast
qed (rule careful_inv_new)

subsection \<open>Properties\<close>

lemma reachable_chain:
  assumes "camera_reachable alloc name s" "cam_streamState (cs_camera s) \<noteq> DEAD"
  shows "chain_ok alloc (cs_camera s, cs_gralloc s)" "thread_ok s"
  using camera_inv_reachable [OF assms (1)] assms (2) by (simp_all add: camera_inv_def)

lemma careful_count:
  assumes "careful_reachable alloc name s" "cam_streamState (cs_camera s) \<noteq> DEAD"
  shows "unat (cam_framesInUse (cs_camera s)) = busy (cam_buffers (cs_camera s))"
  using careful_inv_reachable [OF assms (1)] assms (2) by (simp add: careful_inv_def)

text \<open>
  C14: In every interleaving of the client's calls and the capture thread, whatever the allocator replies
  and whatever frames the client returns, \<open>mFramesAllowed\<close> of a live camera is the number of records that
  hold a buffer and at most 100, and a record in use holds a buffer. No buffer leaks and none is freed
  twice: the handles the allocator gave out are exactly those still held and those freed. The record the
  capture thread works on exists, and a stopped camera has no capture thread, so \<open>startVideoStream\<close> never
  assigns to a thread that has not been joined. If the client returns only frames it has been sent (never
  the one the capture thread still holds), \<open>mFramesInUse\<close> is moreover the number of records in use, and
  the record of the capture thread is in use. The unlocked reading of that record is taken as atomic.
\<close>

theorem camera_books_balance:
  assumes "camera_reachable alloc name s"
  defines "c \<equiv> cs_camera s" and "g \<equiv> cs_gralloc s"
  shows "(cam_streamState c \<noteq> DEAD \<longrightarrow>
      unat (cam_framesAllowed c) = held (cam_buffers c) \<and> held (cam_buffers c) \<le> 100) \<and>
    (\<forall>r\<in>set (cam_buffers c). br_inUse r \<longrightarrow> br_handle r \<noteq> None) \<and>
    mset (obtained alloc (ga_calls g)) = mset (handles (cam_buffers c)) + mset (live (ga_freed g)) \<and>
    (\<forall>i. held_index (cs_thread s) = Some i \<longrightarrow> i < length (cam_buffers c)) \<and>
    (cs_thread s = No_Thread \<longleftrightarrow> cam_streamState c \<in> {STOPPED, DEAD}) \<and>
    (cam_streamState c = DEAD \<longrightarrow> cam_buffers c = []) \<and>
    (careful_reachable alloc name s \<and> cam_streamState c \<noteq> DEAD \<longrightarrow>
      unat (cam_framesInUse c) = busy (cam_buffers c) \<and>
      (\<forall>i. held_index (cs_thread s) = Some i \<longrightarrow> br_inUse (cam_buffers c ! i)))"
  using camera_inv_reachable [OF assms (1)] careful_inv_reachable [of alloc name s]
  by (auto simp: camera_inv_def careful_inv_def thread_ok_def chain_ok_def records_ok_def c_def g_def Let_def
      split: if_splits)

definition numbered_alloc :: allocator where
  "numbered_alloc n = (0, Some n, 320)"

definition call_set_max :: "allocator \<Rightarrow> u32 \<Rightarrow> camera_system \<Rightarrow> camera_system" where
  "call_set_max alloc n s = (case setMaxFramesInFlight alloc n (cs_camera s, cs_gralloc s) of
     (_, c, g) \<Rightarrow> s\<lparr>cs_camera := c, cs_gralloc := g\<rparr>)"

definition call_start :: "allocator \<Rightarrow> nat option \<Rightarrow> camera_system \<Rightarrow> camera_system" where
  "call_start alloc stream s = (case startVideoStream alloc stream (cs_camera s, cs_gralloc s) of
     (_, started, c, g) \<Rightarrow> s\<lparr>cs_camera := c, cs_gralloc := g,
        cs_thread := (if started then At_Top else cs_thread s)\<rparr>)"

lemma reach_set_max:
  "careful_reachable alloc name s \<Longrightarrow> cs_service s = Serving \<Longrightarrow>
   careful_reachable alloc name (call_set_max alloc n s)"
  unfolding call_set_max_def by (auto split: prod.splits intro: careful_move move_set_max)

lemma reach_start:
  assumes "careful_reachable alloc name s" "cs_service s = Serving"
  shows "careful_reachable alloc name (call_start alloc stream s)"
proof -
  obtain r b c g where run: "startVideoStream alloc stream (cs_camera s, cs_gralloc s) = (r, b, c, g)"
    by (metis prod_cases4)
  show ?thesis unfolding call_start_def run using move_start [OF assms (2) run] careful_move [OF assms (1)]
    by simp
qed

lemma call_service [simp]:
  "cs_service (call_set_max alloc n s) = cs_service s"
  "cs_service (call_start alloc stream s) = cs_service s"
  by (simp_all add: call_set_max_def call_start_def split: prod.splits)

lemma reach_capture: "careful_reachable alloc name s \<Longrightarrow> careful_reachable alloc name (capture_step ok s)"
  by (rule careful_move [OF _ move_capture])

lemma reach_done:
  "careful_reachable alloc name s \<Longrightarrow> cs_service s = Serving \<Longrightarrow>
   held_index (cs_thread s) \<noteq> Some (unat (bd_bufferId b)) \<Longrightarrow>
   careful_reachable alloc name (s\<lparr>cs_camera := doneWithFrame b (cs_camera s)\<rparr>)"
  by (rule careful_done)

text \<open>A camera with two buffers whose stream has started and whose capture thread holds frame 0.\<close>

definition streaming_camera :: camera_system where
  "streaming_camera = capture_step True (call_start numbered_alloc (Some 7)
     (call_set_max numbered_alloc 2 (new_camera_system ''LaneView'')))"

lemma streaming_camera_reachable: "careful_reachable numbered_alloc ''LaneView'' streaming_camera"
  unfolding streaming_camera_def
  by (intro reach_capture reach_start reach_set_max careful_new) (simp_all add: new_camera_system_def)

lemma streaming_camera_value:
  "streaming_camera = \<lparr>cs_camera = (new_EvsCamera ''LaneView'')
       \<lparr>cam_stride := 320, cam_stream := Some 7, cam_streamState := RUNNING,
        cam_buffers := [\<lparr>br_handle = Some 0, br_inUse = True\<rparr>, \<lparr>br_handle = Some 1, br_inUse = False\<rparr>],
        cam_framesAllowed := 2, cam_framesInUse := 1\<rparr>,
     cs_gralloc = \<lparr>ga_calls = 2, ga_freed = []\<rparr>, cs_thread = Holding 0, cs_service = Serving,
     cs_delivered = []\<rparr>"
  by code_simp

theorem camera_books_balance_witness:
  "cs_thread streaming_camera = Holding 0 \<and>
   unat (cam_framesInUse (cs_camera streaming_camera)) = busy (cam_buffers (cs_camera streaming_camera)) \<and>
   busy (cam_buffers (cs_camera streaming_camera)) = 1"
  using camera_books_balance [OF careful_is_reachable [OF streaming_camera_reachable]] streaming_camera_reachable
  by (simp add: streaming_camera_value)

text \<open>
  What \<open>setMaxFramesInFlight\<close> answers and does on a camera that is alive. It succeeds exactly
  when the count is between 1 and 100 and every additional buffer can be allocated; then the chain
  has the size asked for, or as many buffers as are in use when that is more (the buffers in use are
  not taken away, and the call still answers \<open>OK\<close>). When the allocator fails after at least one
  buffer, the size is what it was. When it fails on the first buffer, there is nothing to roll back,
  but \<open>decreaseAvailableFrames_Locked(0)\<close> frees every idle buffer: only the buffers in use are left.
\<close>

theorem max_frames_set:
  assumes "careful_reachable alloc name s" "cam_streamState (cs_camera s) \<noteq> DEAD"
    and "setMaxFramesInFlight alloc n (cs_camera s, cs_gralloc s) = (res, c', g')"
  defines "old \<equiv> unat (cam_framesAllowed (cs_camera s))"
    and "used \<equiv> unat (cam_framesInUse (cs_camera s))"
    and "succeeds \<equiv> \<lambda>i. alloc_succeeds (alloc (ga_calls (cs_gralloc s) + i))"
  shows "res = (if n = 0 then INVALID_ARG
                else if n \<le> 100 \<and> (\<forall>i < unat n - old. succeeds i) then OK
                else BUFFER_NOT_AVAILABLE) \<and>
    unat (cam_framesAllowed c') = (if res = OK then max (unat n) used
      else if 0 < n \<and> n \<le> 100 \<and> \<not> succeeds 0 then used else old) \<and>
    unat (cam_framesInUse c') = used \<and>
    (\<forall>i < length (cam_buffers (cs_camera s)). br_inUse (cam_buffers (cs_camera s) ! i) \<longrightarrow>
       cam_buffers c' ! i = cam_buffers (cs_camera s) ! i)"
proof -
  obtain b c1 g1 where set: "setAvailableFrames_Locked alloc n (cs_camera s, cs_gralloc s) = (b, c1, g1)"
    by (metis prod_cases3)
  have call: "(res, c', g') = (if n < 1 then (INVALID_ARG, cs_camera s, cs_gralloc s)
      else if b then (OK, c1, g1) else (BUFFER_NOT_AVAILABLE, c1, g1))"
    using assms (2,3) set by (cases "n = 0") (auto simp: setMaxFramesInFlight_def)
  note spec = setAvailableFrames_spec [OF reachable_chain (1) [OF careful_is_reachable [OF assms (1)] assms (2)] set]
  have "used = busy (cam_buffers (cs_camera s))" using careful_count [OF assms (1,2)] by (simp add: used_def)
  then show ?thesis using spec call
    by (auto simp: set_frames_result_def chain_step_def old_def used_def succeeds_def word_gt_0
        linorder_not_less linorder_not_le Let_def split: if_splits)
qed

theorem max_frames_set_witness:
  "let s = streaming_camera; failing = (\<lambda>n. if n < 2 then numbered_alloc n else (-12, None, 0)) in
   case setMaxFramesInFlight failing 5 (cs_camera s, cs_gralloc s) of (res, c', g') \<Rightarrow>
     res = BUFFER_NOT_AVAILABLE \<and> unat (cam_framesAllowed c') = 1"
proof -
  define failing :: allocator where
    "failing = (\<lambda>n. if n < 2 then numbered_alloc n else (-12, None, 0))"
  define s where "s = capture_step True (call_start failing (Some 7)
     (call_set_max failing 2 (new_camera_system ''LaneView'')))"
  have reach: "careful_reachable failing ''LaneView'' s"
    unfolding s_def by (intro reach_capture reach_start reach_set_max careful_new)
      (simp_all add: new_camera_system_def)
  have s: "s = streaming_camera"
    unfolding s_def failing_def streaming_camera_value by code_simp
  obtain res c' g' where run: "setMaxFramesInFlight failing 5 (cs_camera s, cs_gralloc s) = (res, c', g')"
    by (metis prod_cases3)
  have "cam_streamState (cs_camera s) \<noteq> DEAD" by (simp add: s streaming_camera_value)
  moreover have "\<not> (\<forall>i. \<not> i < (3::nat))" by (auto intro: exI [where x = 0])
  ultimately have "res = BUFFER_NOT_AVAILABLE \<and> unat (cam_framesAllowed c') = 1"
    using max_frames_set [OF reach _ run]
    by (simp add: s streaming_camera_value failing_def)
  then show ?thesis using run by (simp add: s failing_def Let_def)
qed

text \<open>
  Returning a frame makes its record free again and takes one off \<open>mFramesInUse\<close>. When the chain
  has shrunk below the position of the frame, an empty record lower in the array always exists, as
  the comment in \<open>doneWithFrame\<close> claims, and the buffer moves there.
\<close>

theorem returned_frame_moves_down:
  assumes "careful_reachable alloc name s" "returns_frame b (cs_camera s)"
  defines "c \<equiv> cs_camera s" and "i \<equiv> unat (bd_bufferId b)"
    and "c' \<equiv> doneWithFrame b (cs_camera s)"
  shows "Suc (unat (cam_framesInUse c')) = unat (cam_framesInUse c) \<and> cam_framesAllowed c' = cam_framesAllowed c \<and>
    \<not> br_inUse (cam_buffers c' ! i) \<and>
    (if i < unat (cam_framesAllowed c) then br_handle (cam_buffers c' ! i) = br_handle (cam_buffers c ! i)
     else br_handle (cam_buffers c' ! i) = None \<and>
       (\<exists>j < i. br_handle (cam_buffers c ! j) = None \<and> \<not> br_inUse (cam_buffers c' ! j) \<and>
          br_handle (cam_buffers c' ! j) = br_handle (cam_buffers c ! i)))"
proof -
  have i: "i < length (cam_buffers c)" "br_inUse (cam_buffers c ! i)"
    using assms (2) by (simp_all add: returns_frame_def c_def i_def)
  then have "cam_streamState c \<noteq> DEAD"
    using camera_inv_reachable [OF careful_is_reachable [OF assms (1)]] by (auto simp: camera_inv_def c_def)
  then have chain: "chain_ok alloc (c, cs_gralloc s)" and busy: "unat (cam_framesInUse c) = busy (cam_buffers c)"
    using reachable_chain [OF careful_is_reachable [OF assms (1)]] careful_count [OF assms (1)] by (simp_all add: c_def)
  then have ok: "records_ok (cam_buffers c)" and held: "unat (cam_framesAllowed c) = held (cam_buffers c)"
    by (simp_all add: chain_ok_def)
  define rs1 where "rs1 = (cam_buffers c)[i := (cam_buffers c ! i)\<lparr>br_inUse := False\<rparr>]"
  note free = mark_free_spec [OF ok i, folded rs1_def]
  have c': "c' = c\<lparr>cam_framesInUse := cam_framesInUse c - 1, cam_buffers := done_buffers i c\<rparr>"
    using doneWithFrame_returns [OF assms (2)] by (simp add: c'_def c_def i_def)
  have "Suc (unat (cam_framesInUse c')) = unat (cam_framesInUse c)"
    using unat_minus_1 [of "cam_framesInUse c" "busy rs1"] free (3) busy by (simp add: c')
  moreover have "?thesis" if "i < unat (cam_framesAllowed c)"
    using that free i calculation by (simp add: c' done_buffers_def rs1_def [symmetric])
  moreover have "?thesis" if low: "\<not> i < unat (cam_framesAllowed c)"
  proof -
    have "\<exists>j < i. first_empty rs1 = Some j"
      by (rule empty_below) (use free low held i in auto)
    then obtain j where j: "j < i" "first_empty rs1 = Some j" by blast
    note fe = first_empty_Some [OF j (2)]
    have "br_handle (cam_buffers c ! j) = None" using fe j (1) by (simp add: rs1_def)
    moreover have "\<not> br_inUse (cam_buffers c ! j)"
      using calculation ok j (1) i (1) by (auto simp: records_ok_def)
    ultimately show ?thesis
      using low j fe free i \<open>Suc (unat (cam_framesInUse c')) = unat (cam_framesInUse c)\<close>
      by (auto simp: c' done_buffers_def rs1_def [symmetric] move_handle_down_def nth_list_update Let_def
          intro!: exI [where x = j])
  qed
  ultimately show ?thesis by blast
qed

text \<open>A run in which frame 1 is out when the chain shrinks to one buffer: the idle buffer 0 is
  freed, and returning frame 1 moves its buffer down.\<close>

definition shrunk_camera :: camera_system where
  "shrunk_camera =
     (let s = fold capture_step [True, True, True, True, True] streaming_camera;
          b = frame_desc 0 (cs_camera s);
          s = s\<lparr>cs_camera := doneWithFrame b (cs_camera s)\<rparr>
      in call_set_max numbered_alloc 1 s)"

lemma shrunk_camera_reachable: "careful_reachable numbered_alloc ''LaneView'' shrunk_camera"
proof -
  define s where "s = fold capture_step [True, True, True, True, True] streaming_camera"
  have "careful_reachable numbered_alloc ''LaneView'' s"
    unfolding s_def by (simp only: fold.simps comp_apply id_apply) (intro reach_capture streaming_camera_reachable)
  moreover have "cs_service s = Serving \<and> cs_thread s = At_Top"
    unfolding s_def streaming_camera_value by code_simp
  ultimately show ?thesis
    unfolding shrunk_camera_def Let_def s_def [symmetric]
    by (intro reach_set_max reach_done) simp_all
qed

theorem returned_frame_moves_down_witness:
  "let c = cs_camera shrunk_camera; b = frame_desc 1 c in
   returns_frame b c \<and> unat (cam_framesAllowed c) = 1 \<and>
   br_handle (cam_buffers (doneWithFrame b c) ! 0) = Some 1"
proof -
  define b where "b = frame_desc 1 (cs_camera shrunk_camera)"
  have v: "returns_frame b (cs_camera shrunk_camera)"
    "unat (cam_framesAllowed (cs_camera shrunk_camera)) = 1" "unat (bd_bufferId b) = 1"
    "br_handle (cam_buffers (cs_camera shrunk_camera) ! 1) = Some 1"
    unfolding b_def shrunk_camera_def streaming_camera_value by code_simp+
  have "br_handle (cam_buffers (doneWithFrame b (cs_camera shrunk_camera)) ! 0) = Some 1"
    using returned_frame_moves_down [OF shrunk_camera_reachable v(1)] v by auto
  then show ?thesis using v unfolding b_def Let_def by simp
qed

text \<open>
  C17: Stopping a stream ends. Once the service thread waits in \<open>stopVideoStream\<close>, the capture thread
  is done after at most four of its own steps (reading the record it holds, delivering the frame, seeing
  the new state and delivering the end), whatever becomes of its deliveries; it delivers at
  most the frame it was filling, then one null frame as the end of the stream, and nothing after it.
  The join then completes and leaves the camera stopped, or dead when it was a shutdown.
\<close>

theorem stop_ends_stream:
  assumes "camera_reachable alloc name s" "cs_service s = Joining shutdown"
    and "cam_stream (cs_camera s) = Some st" "cs_thread s \<noteq> Exited" "length oks = 4"
  defines "s' \<equiv> fold capture_step oks s"
  shows "cs_thread s' = Exited \<and>
    (\<exists>frames. length frames \<le> 1 \<and>
       cs_delivered s' = cs_delivered s @ frames @ [(st, null_buffer)]) \<and>
    cs_service (stop_end shutdown s') = Serving \<and>
    cam_streamState (cs_camera (stop_end shutdown s')) = (if shutdown then DEAD else STOPPED)"
proof -
  have st: "cam_streamState (cs_camera s) = STOPPING" and pc: "cs_thread s \<noteq> No_Thread"
    using camera_inv_reachable [OF assms (1)] assms (2)
    by (auto simp: camera_inv_def thread_ok_def Let_def)
  obtain a b c d where oks: "oks = [a, b, c, d]"
    using assms (5) by (auto simp: eval_nat_numeral length_Suc_conv)
  have top: "capture_top x = (x, Ending)" if "cam_streamState x = STOPPING" for x
    using that by (simp add: capture_top_def)
  have run: "cs_thread s' = Exited \<and> (\<exists>frames. length frames \<le> 1 \<and>
       cs_delivered s' = cs_delivered s @ frames @ [(st, null_buffer)])"
    using pc assms (3,4) st
    by (cases "cs_thread s"; cases a; cases b) (auto simp: s'_def oks capture_step_def top)
  then show ?thesis by (simp add: stop_end_def after_stop_def shutdown_locked_def)
qed

theorem stop_ends_stream_witness:
  "let s = stop_begin False streaming_camera; s' = fold capture_step [True, True, False, True] s in
   cs_thread s' = Exited \<and> last (cs_delivered s') = (7, null_buffer)"
proof -
  define s where "s = stop_begin False streaming_camera"
  have v: "cs_service s = Joining False" "cam_stream (cs_camera s) = Some 7" "cs_thread s \<noteq> Exited"
    by (simp_all add: s_def stop_begin_def streaming_camera_value)
  have "camera_reachable numbered_alloc ''LaneView'' s"
    unfolding s_def by (rule reach_step [OF careful_is_reachable [OF streaming_camera_reachable] step_stop])
      (simp add: streaming_camera_value)
  from stop_ends_stream [OF this v, of "[True, True, False, True]"] show ?thesis
    by (auto simp: s_def Let_def)
qed

text \<open>
  A frame that is returned before its delivery failed is counted twice: \<open>mFramesInUse\<close> wraps around
  to its largest value, and the camera skips every frame from then on. The run: the capture thread holds
  frame 0, the client names that frame, and the delivery fails.
\<close>

definition stalled_camera :: camera_system where
  "stalled_camera =
     (let s = streaming_camera; b = frame_desc 0 (cs_camera s);
          s = s\<lparr>cs_camera := doneWithFrame b (cs_camera s)\<rparr>
      in fold capture_step [True, False, True] s)"

theorem early_return_stalls_camera:
  "camera_reachable numbered_alloc ''LaneView'' stalled_camera \<and>
   cam_framesInUse (cs_camera stalled_camera) = 0xFFFFFFFF \<and> busy (cam_buffers (cs_camera stalled_camera)) = 0 \<and>
   cam_framesAllowed (cs_camera stalled_camera) = 2"
proof -
  have "camera_reachable numbered_alloc ''LaneView'' streaming_camera"
    by (rule careful_is_reachable [OF streaming_camera_reachable])
  then have "camera_reachable numbered_alloc ''LaneView'' (streaming_camera\<lparr>cs_camera :=
      doneWithFrame (frame_desc 0 (cs_camera streaming_camera)) (cs_camera streaming_camera)\<rparr>)"
    by (rule reach_step [OF _ step_done]) (simp add: streaming_camera_value)
  then have "camera_reachable numbered_alloc ''LaneView'' stalled_camera"
    unfolding stalled_camera_def Let_def by (simp only: fold.simps comp_apply id_apply) (intro reach_step [OF _ step_capture])
  moreover have "cam_framesInUse (cs_camera stalled_camera) = 0xFFFFFFFF" "busy (cam_buffers (cs_camera stalled_camera)) = 0"
      "cam_framesAllowed (cs_camera stalled_camera) = 2"
    unfolding stalled_camera_def streaming_camera_value by code_simp+
  ultimately show ?thesis by simp
qed

text \<open>
  The reading of the busy record is not under the lock. While the capture thread is at it, a call of
  \<open>setMaxFramesInFlight\<close> can be served that grows the vector of records, and with it moves the record.
\<close>

theorem unlocked_read_races:
  "camera_reachable numbered_alloc ''LaneView'' streaming_camera \<and> cs_thread streaming_camera = Holding 0 \<and>
   camera_step numbered_alloc streaming_camera (call_set_max numbered_alloc 3 streaming_camera) \<and>
   length (cam_buffers (cs_camera streaming_camera)) <
     length (cam_buffers (cs_camera (call_set_max numbered_alloc 3 streaming_camera)))"
proof -
  obtain r c g where run: "setMaxFramesInFlight numbered_alloc 3 (cs_camera streaming_camera, cs_gralloc streaming_camera) = (r, c, g)"
    by (metis prod_cases3)
  have "camera_step numbered_alloc streaming_camera (call_set_max numbered_alloc 3 streaming_camera)"
    unfolding call_set_max_def run prod.case using step_set_max [OF _ run] by (simp add: streaming_camera_value)
  moreover have "length (cam_buffers (cs_camera streaming_camera)) <
      length (cam_buffers (cs_camera (call_set_max numbered_alloc 3 streaming_camera)))"
    unfolding streaming_camera_value by code_simp
  ultimately show ?thesis
    using careful_is_reachable [OF streaming_camera_reachable] by (simp add: streaming_camera_value)
qed

end
