(* ===== verification/EvsDisplay.thy ===== *)
theory EvsDisplay
  imports EvsTypes "HOL-Library.Multiset"
begin

text \<open>
  The exterior view display (\<open>src/automotive/evs/1.0/default/EvsDisplay.cpp\<close>), and the test image
  the camera draws (\<open>EvsCamera::fillTestFrame\<close>) and the display checks.

  The display owns one buffer, lends it to one client at a time, and compares the pixels of a
  returned buffer with the image the test camera draws. The pixels behind a handle are a list of
  words; \<open>None\<close> as a result is a read or write outside of it.
\<close>

subsection \<open>Drawing the test image\<close>

text \<open>The loop over the columns of one row; \<open>base\<close> is where \<open>pixels\<close> points, \<open>t\<close> is
  \<open>sFrameTicker\<close>.\<close>

primrec fill_cols :: "nat \<Rightarrow> nat \<Rightarrow> nat list \<Rightarrow> u32 \<times> u32 list \<Rightarrow> (u32 \<times> u32 list) option" where
  "fill_cols base row [] st = Some st"
| "fill_cols base row (col # cols) st = (case st of (t, m) \<Rightarrow>
     let first = (row = 0 \<and> col = 0);
         pixel = (if first then t AND 0xFF else test_pixel row col);
         t = (if first then t + 1 else t) in
     if base + col < length m then fill_cols base row cols (t, m[base + col := pixel]) else None)"

primrec fill_rows :: "nat \<Rightarrow> nat \<Rightarrow> nat list \<Rightarrow> nat \<Rightarrow> u32 \<times> u32 list \<Rightarrow> (u32 \<times> u32 list) option" where
  "fill_rows stride width [] base st = Some st"
| "fill_rows stride width (row # rows) base st =
     (case fill_cols base row [0..<width] st of None \<Rightarrow> None
      | Some st \<Rightarrow> fill_rows stride width rows (base + stride) st)"

definition fillTestFrame :: "buffer_desc \<Rightarrow> u32 \<times> u32 list \<Rightarrow> (u32 \<times> u32 list) option" where
  "fillTestFrame buff st =
     fill_rows (unat (bd_stride buff)) (unat (bd_width buff)) [0..<unat (bd_height buff)] 0 st"

subsection \<open>Checking it\<close>

primrec check_cols :: "nat \<Rightarrow> nat \<Rightarrow> nat list \<Rightarrow> u32 list \<Rightarrow> bool option" where
  "check_cols base row [] m = Some True"
| "check_cols base row (col # cols) m =
     (if row = 0 \<and> col = 0 then check_cols base row cols m
      else case vec_at m (base + col) of None \<Rightarrow> None
         | Some receivedPixel \<Rightarrow>
             if receivedPixel \<noteq> test_pixel row col then Some False
             else check_cols base row cols m)"

text \<open>The loop over the rows, with where \<open>pixels\<close> points when it ends.\<close>

primrec check_rows :: "nat \<Rightarrow> nat \<Rightarrow> nat list \<Rightarrow> nat \<Rightarrow> u32 list \<Rightarrow> (bool \<times> nat) option" where
  "check_rows stride width [] base m = Some (True, base)"
| "check_rows stride width (row # rows) base m =
     (case check_cols base row [0..<width] m of None \<Rightarrow> None
      | Some False \<Rightarrow> Some (False, base)
      | Some True \<Rightarrow> check_rows stride width rows (base + stride) m)"

text \<open>\<open>static uint32_t prevSignature = ~0\<close>; nothing assigns to it.\<close>

definition prevSignature :: u32 where
  "prevSignature = NOT 0"

definition frame_looks_good :: "buffer_desc \<Rightarrow> u32 list \<Rightarrow> bool option" where
  "frame_looks_good buff m =
     (case check_rows (unat (bd_stride buff)) (unat (bd_width buff)) [0..<unat (bd_height buff)] 0 m of
        None \<Rightarrow> None
      | Some (frameLooksGood, base) \<Rightarrow>
          (case vec_at m base of None \<Rightarrow> None
           | Some p \<Rightarrow> let signature = p AND 0xFF in
               Some (if prevSignature = signature then False else frameLooksGood)))"

subsection \<open>The display\<close>

type_synonym DisplayState = u32

abbreviation DS_NOT_OPEN :: DisplayState where "DS_NOT_OPEN \<equiv> 0"
abbreviation DS_NOT_VISIBLE :: DisplayState where "DS_NOT_VISIBLE \<equiv> 1"
abbreviation DS_VISIBLE_ON_NEXT_FRAME :: DisplayState where "DS_VISIBLE_ON_NEXT_FRAME \<equiv> 2"
abbreviation DS_VISIBLE :: DisplayState where "DS_VISIBLE \<equiv> 3"
abbreviation DS_DEAD :: DisplayState where "DS_DEAD \<equiv> 4"
abbreviation DS_NUM_STATES :: DisplayState where "DS_NUM_STATES \<equiv> 5"

record evs_display =
  disp_info :: display_desc
  disp_buffer :: buffer_desc
  disp_frameBusy :: bool
  disp_requestedState :: DisplayState

definition new_EvsDisplay :: evs_display where
  "new_EvsDisplay =
     \<lparr>disp_info = \<lparr>dd_displayId = ''Mock Display'', dd_vendorFlags = 3870\<rparr>,
      disp_buffer = null_buffer\<lparr>bd_width := 320, bd_height := 240, bd_format := 1,
        bd_usage := 0x200 OR 0x800, bd_bufferId := 0x3870, bd_pixelSize := 4\<rparr>,
      disp_frameBusy = False, disp_requestedState = DS_NOT_VISIBLE\<rparr>"

definition disp_forceShutdown :: "evs_display \<times> gralloc \<Rightarrow> evs_display \<times> gralloc" where
  "disp_forceShutdown dg = (case dg of (d, g) \<Rightarrow>
     (case bd_memHandle (disp_buffer d) of
        None \<Rightarrow> (d\<lparr>disp_requestedState := DS_DEAD\<rparr>, g)
      | Some h \<Rightarrow> (d\<lparr>disp_buffer := (disp_buffer d)\<lparr>bd_memHandle := None\<rparr>,
                     disp_requestedState := DS_DEAD\<rparr>, gralloc_free [Some h] g)))"

definition setDisplayState :: "DisplayState \<Rightarrow> evs_display \<Rightarrow> EvsResult \<times> evs_display" where
  "setDisplayState state d =
     (if disp_requestedState d = DS_DEAD then (OWNERSHIP_LOST, d)
      else if state < DS_NUM_STATES then (OK, d\<lparr>disp_requestedState := state\<rparr>)
      else (INVALID_ARG, d\<lparr>disp_requestedState := DS_NOT_VISIBLE\<rparr>))"

definition disp_getDisplayState :: "evs_display \<Rightarrow> DisplayState" where
  "disp_getDisplayState d = disp_requestedState d"

text \<open>The second half of \<open>getTargetBuffer\<close>: the buffer exists, is it free?\<close>

definition lend_buffer :: "evs_display \<Rightarrow> buffer_desc \<times> evs_display" where
  "lend_buffer d =
     (if disp_frameBusy d then (null_buffer, d)
      else (disp_buffer d, d\<lparr>disp_frameBusy := True\<rparr>))"

definition getTargetBuffer ::
  "allocator \<Rightarrow> evs_display \<times> gralloc \<Rightarrow> buffer_desc \<times> evs_display \<times> gralloc" where
  "getTargetBuffer alloc dg = (case dg of (d, g) \<Rightarrow>
     if disp_requestedState d = DS_DEAD then (null_buffer, d, g)
     else if bd_memHandle (disp_buffer d) = None then
       (case alloc (ga_calls g) of (status, handle, stride) \<Rightarrow>
          let d = d\<lparr>disp_buffer := (disp_buffer d)\<lparr>bd_stride := stride\<rparr>\<rparr>;
              g = g\<lparr>ga_calls := ga_calls g + 1\<rparr> in
          if status \<noteq> 0 then (null_buffer, d, g)
          else if handle = None then (null_buffer, d, g)
          else case lend_buffer (d\<lparr>disp_buffer := (disp_buffer d)\<lparr>bd_memHandle := handle\<rparr>,
                                   disp_frameBusy := False\<rparr>) of (b, d) \<Rightarrow> (b, d, g))
     else case lend_buffer d of (b, d) \<Rightarrow> (b, d, g))"

text \<open>\<open>returnTargetBufferForDisplay\<close>; \<open>mem\<close> is the memory behind the handles.\<close>

definition returnTargetBufferForDisplay ::
  "(handle \<Rightarrow> u32 list) \<Rightarrow> buffer_desc \<Rightarrow> evs_display \<Rightarrow> EvsResult option \<times> evs_display" where
  "returnTargetBufferForDisplay mem buffer d =
     (if bd_memHandle buffer = None then (Some INVALID_ARG, d)
      else if bd_bufferId buffer \<noteq> bd_bufferId (disp_buffer d) then (Some INVALID_ARG, d)
      else if \<not> disp_frameBusy d then (Some BUFFER_NOT_AVAILABLE, d)
      else
        let d = d\<lparr>disp_frameBusy := False\<rparr> in
        if disp_requestedState d = DS_DEAD then (Some OWNERSHIP_LOST, d)
        else
          let d = (if disp_requestedState d = DS_VISIBLE_ON_NEXT_FRAME
                   then d\<lparr>disp_requestedState := DS_VISIBLE\<rparr> else d) in
          if disp_requestedState d \<noteq> DS_VISIBLE then (Some OK, d)
          else case bd_memHandle (disp_buffer d) of None \<Rightarrow> (None, d)
             | Some h \<Rightarrow> (case frame_looks_good (disp_buffer d) (mem h) of
                  None \<Rightarrow> (None, d)
                | Some good \<Rightarrow> (Some (if good then OK else UNDERLYING_SERVICE_ERROR), d)))"

subsection \<open>The check compares the whole image\<close>

definition image_matches :: "nat \<Rightarrow> nat \<Rightarrow> nat \<Rightarrow> u32 list \<Rightarrow> bool" where
  "image_matches stride width height m \<longleftrightarrow> (\<forall>row < height. \<forall>col < width.
     row = 0 \<and> col = 0 \<or> m ! (row * stride + col) = test_pixel row col)"

lemma check_cols_spec:
  "\<forall>col\<in>set cols. base + col < length m \<Longrightarrow>
   check_cols base row cols m =
     Some (\<forall>col\<in>set cols. row = 0 \<and> col = 0 \<or> m ! (base + col) = test_pixel row col)"
  by (induction cols) (auto simp: vec_at_def)

lemma check_rows_spec:
  assumes "base + length rows * stride \<le> length m" "width \<le> stride" "rows = [k..<k + length rows]"
  shows "\<exists>b. check_rows stride width rows base m =
     Some (\<forall>i < length rows. \<forall>col < width. k + i = 0 \<and> col = 0 \<or>
        m ! (base + i * stride + col) = test_pixel (k + i) col, b) \<and> b \<le> base + length rows * stride"
  using assms
proof (induction rows arbitrary: base k)
  case (Cons row rows)
  define good where "good = (\<forall>col < width. row = 0 \<and> col = 0 \<or> m ! (base + col) = test_pixel row col)"
  define ref where "ref base k n = (\<forall>i < n. \<forall>col < width. k + i = 0 \<and> col = 0 \<or>
        m ! (base + i * stride + col) = test_pixel (k + i) col)" for base k n
  have row: "row = k" and rows: "rows = [Suc k..<Suc k + length rows]"
    using Cons.prems (3) by (simp_all add: upt_rec)
  have "base + col < length m" if "col < width" for col
    using that Cons.prems (1,2) by simp
  then have cols: "check_cols base row [0..<width] m = Some good"
    using check_cols_spec [of "[0..<width]" base m row] by (simp add: good_def Ball_def)
  have split: "ref base k (Suc (length rows)) \<longleftrightarrow> good \<and> ref (base + stride) (Suc k) (length rows)"
    unfolding ref_def good_def row by (auto simp: All_less_Suc2 ac_simps)
  have "\<exists>b. check_rows stride width rows (base + stride) m =
      Some (ref (base + stride) (Suc k) (length rows), b) \<and> b \<le> base + stride + length rows * stride"
    unfolding ref_def by (rule Cons.IH) (use Cons.prems rows in \<open>simp_all add: ac_simps\<close>)
  then have "\<exists>b. check_rows stride width (row # rows) base m =
      Some (ref base k (Suc (length rows)), b) \<and> b \<le> base + length (row # rows) * stride"
    using cols split Cons.prems (1) by (cases good) auto
  then show ?case by (simp add: ref_def)
qed auto

lemma check_rows_end:
  "check_rows stride width rows base m = Some (True, b) \<Longrightarrow> b = base + length rows * stride"
  by (induction rows arbitrary: base) (fastforce simp: add.assoc split: option.splits bool.splits)+

lemma low_byte_signature: "(p :: u32) AND 0xFF \<noteq> prevSignature"
proof
  assume "p AND 0xFF = prevSignature"
  then have "bit (p AND 0xFF) 31 \<longleftrightarrow> bit prevSignature 31" by simp
  then show False by (simp add: prevSignature_def bit_simps)
qed

lemma frame_looks_good_spec:
  assumes "unat (bd_height buff) * unat (bd_stride buff) < length m" "bd_width buff \<le> bd_stride buff"
  shows "frame_looks_good buff m =
    Some (image_matches (unat (bd_stride buff)) (unat (bd_width buff)) (unat (bd_height buff)) m)"
proof -
  obtain b where b: "check_rows (unat (bd_stride buff)) (unat (bd_width buff)) [0..<unat (bd_height buff)] 0 m =
      Some (image_matches (unat (bd_stride buff)) (unat (bd_width buff)) (unat (bd_height buff)) m, b)"
    "b \<le> unat (bd_height buff) * unat (bd_stride buff)"
    using check_rows_spec [of 0 "[0..<unat (bd_height buff)]" "unat (bd_stride buff)" m
        "unat (bd_width buff)" 0] assms
    by (auto simp: image_matches_def word_le_nat_alt)
  then show ?thesis using low_byte_signature [of "m ! b"] assms (1)
    by (simp add: frame_looks_good_def vec_at_def Let_def)
qed

text \<open>When the image is right, \<open>pixels\<close> has been moved past the last row, and that is where the
  signature is read.\<close>

lemma frame_looks_good_overrun:
  assumes "unat (bd_height buff) * unat (bd_stride buff) = length m" "bd_width buff \<le> bd_stride buff"
    "image_matches (unat (bd_stride buff)) (unat (bd_width buff)) (unat (bd_height buff)) m"
  shows "frame_looks_good buff m = None"
proof -
  obtain b where b: "check_rows (unat (bd_stride buff)) (unat (bd_width buff)) [0..<unat (bd_height buff)] 0 m =
      Some (True, b)"
    using check_rows_spec [of 0 "[0..<unat (bd_height buff)]" "unat (bd_stride buff)" m
        "unat (bd_width buff)" 0] assms
    by (auto simp: image_matches_def word_le_nat_alt)
  then show ?thesis using check_rows_end [OF b] assms (1) by (simp add: frame_looks_good_def vec_at_def)
qed

subsection \<open>The camera draws what the display expects\<close>

lemma fill_cols_spec:
  assumes "\<forall>col\<in>set cols. base + col < length m" "distinct cols"
  shows "\<exists>t' m'. fill_cols base row cols (t, m) = Some (t', m') \<and> length m' = length m \<and>
     (\<forall>j. (\<forall>col\<in>set cols. j \<noteq> base + col) \<longrightarrow> m' ! j = m ! j) \<and>
     (\<forall>col\<in>set cols. row = 0 \<and> col = 0 \<or> m' ! (base + col) = test_pixel row col)"
  using assms
proof (induction cols arbitrary: t m)
  case (Cons col cols)
  define px where "px = (if row = 0 \<and> col = 0 then t AND 0xFF else test_pixel row col)"
  define t1 where "t1 = (if row = 0 \<and> col = 0 then t + 1 else t)"
  have "\<exists>t' m'. fill_cols base row cols (t1, m[base + col := px]) = Some (t', m') \<and>
     length m' = length (m[base + col := px]) \<and>
     (\<forall>j. (\<forall>col\<in>set cols. j \<noteq> base + col) \<longrightarrow> m' ! j = m[base + col := px] ! j) \<and>
     (\<forall>col\<in>set cols. row = 0 \<and> col = 0 \<or> m' ! (base + col) = test_pixel row col)"
    by (rule Cons.IH) (use Cons.prems in auto)
  then obtain t' m' where rec: "fill_cols base row cols (t1, m[base + col := px]) = Some (t', m')"
    "length m' = length (m[base + col := px])"
    "\<forall>j. (\<forall>col\<in>set cols. j \<noteq> base + col) \<longrightarrow> m' ! j = m[base + col := px] ! j"
    "\<forall>col\<in>set cols. row = 0 \<and> col = 0 \<or> m' ! (base + col) = test_pixel row col"
    by blast
  have "fill_cols base row (col # cols) (t, m) = Some (t', m')"
    using rec (1) Cons.prems by (simp add: px_def t1_def Let_def)
  moreover have "m' ! (base + col) = px"
    using spec [OF rec (3), of "base + col"] Cons.prems by auto
  ultimately show ?case using rec (2-4) by (auto simp: px_def)
qed simp

lemma fill_rows_spec:
  assumes "base + length rows * stride \<le> length m" "width \<le> stride" "rows = [k..<k + length rows]"
  shows "\<exists>t' m'. fill_rows stride width rows base (t, m) = Some (t', m') \<and> length m' = length m \<and>
     (\<forall>j < base. m' ! j = m ! j) \<and>
     (\<forall>i < length rows. \<forall>col < width. k + i = 0 \<and> col = 0 \<or>
        m' ! (base + i * stride + col) = test_pixel (k + i) col)"
  using assms
proof (induction rows arbitrary: base k t m)
  case (Cons row rows)
  have row: "row = k" and rows: "rows = [Suc k..<Suc k + length rows]"
    using Cons.prems (3) by (simp_all add: upt_rec)
  have "base + col < length m" if "col < width" for col
    using that Cons.prems (1,2) by simp
  then obtain t1 m1 where cols: "fill_cols base row [0..<width] (t, m) = Some (t1, m1)"
    "length m1 = length m" "\<And>j. j < base \<Longrightarrow> m1 ! j = m ! j"
    "\<And>col. col < width \<Longrightarrow> row = 0 \<and> col = 0 \<or> m1 ! (base + col) = test_pixel row col"
    using fill_cols_spec [of "[0..<width]" base m row t] by fastforce
  obtain t' m' where rec: "fill_rows stride width rows (base + stride) (t1, m1) = Some (t', m')"
    "length m' = length m1" "\<And>j. j < base + stride \<Longrightarrow> m' ! j = m1 ! j"
    "\<And>i col. i < length rows \<Longrightarrow> col < width \<Longrightarrow> m' ! (base + stride + i * stride + col) = test_pixel (Suc k + i) col"
    using Cons.IH [of "base + stride" m1 "Suc k" t1] Cons.prems (1,2) rows cols (2) by (auto simp: ac_simps)
  have first: "col < width \<Longrightarrow> k = 0 \<and> col = 0 \<or> m' ! (base + col) = test_pixel k col" for col
    using rec (3) [of "base + col"] cols (4) [of col] Cons.prems (2) row by auto
  have "\<forall>i < length (row # rows). \<forall>col < width. k + i = 0 \<and> col = 0 \<or>
      m' ! (base + i * stride + col) = test_pixel (k + i) col"
    using first rec (4) by (auto simp: All_less_Suc2 ac_simps)
  moreover have "\<forall>j < base. m' ! j = m ! j" using rec (3) cols (3) by simp
  ultimately show ?case using cols (1,2) rec (1,2) by auto
qed auto

lemma fillTestFrame_spec:
  assumes "unat (bd_height buff) * unat (bd_stride buff) \<le> length m" "bd_width buff \<le> bd_stride buff"
  shows "\<exists>t' m'. fillTestFrame buff (t, m) = Some (t', m') \<and> length m' = length m \<and>
    image_matches (unat (bd_stride buff)) (unat (bd_width buff)) (unat (bd_height buff)) m'"
  using fill_rows_spec [of 0 "[0..<unat (bd_height buff)]" "unat (bd_stride buff)" m
      "unat (bd_width buff)" 0 t] assms
  by (auto simp: fillTestFrame_def image_matches_def word_le_nat_alt)

subsection \<open>Runs of the display\<close>

datatype display_op = Set_State DisplayState | Get_Buffer | Return_Buffer "handle \<Rightarrow> u32 list" buffer_desc
  | Shut_Down

fun display_exec :: "allocator \<Rightarrow> display_op \<Rightarrow> evs_display \<times> gralloc \<Rightarrow> evs_display \<times> gralloc" where
  "display_exec alloc (Set_State v) (d, g) = (snd (setDisplayState v d), g)"
| "display_exec alloc Get_Buffer dg = snd (getTargetBuffer alloc dg)"
| "display_exec alloc (Return_Buffer mem b) (d, g) = (snd (returnTargetBufferForDisplay mem b d), g)"
| "display_exec alloc Shut_Down dg = disp_forceShutdown dg"

definition display_inv :: "allocator \<Rightarrow> evs_display \<times> gralloc \<Rightarrow> bool" where
  "display_inv alloc dg \<longleftrightarrow> (case dg of (d, g) \<Rightarrow>
     (disp_requestedState d \<noteq> DS_DEAD \<and> disp_frameBusy d \<longrightarrow> bd_memHandle (disp_buffer d) \<noteq> None) \<and>
     bd_width (disp_buffer d) = 320 \<and> bd_height (disp_buffer d) = 240 \<and>
     bd_bufferId (disp_buffer d) = 0x3870 \<and>
     mset (obtained alloc (ga_calls g)) = mset (live [bd_memHandle (disp_buffer d)]) + mset (live (ga_freed g)))"

lemma display_inv_new: "display_inv alloc (new_EvsDisplay, \<lparr>ga_calls = 0, ga_freed = []\<rparr>)"
  by (simp add: display_inv_def new_EvsDisplay_def null_buffer_def)

lemma display_inv_exec: "display_inv alloc dg \<Longrightarrow> display_inv alloc (display_exec alloc op dg)"
proof (cases dg)
  case (Pair d g)
  assume inv: "display_inv alloc dg"
  show ?thesis
  proof (cases op)
    case (Set_State v)
    then show ?thesis using inv Pair by (auto simp: setDisplayState_def display_inv_def)
  next
    case Get_Buffer
    obtain status h st where reply: "alloc (ga_calls g) = (status, h, st)" by (metis prod_cases3)
    then show ?thesis using inv Pair Get_Buffer
      by (cases h) (auto simp: getTargetBuffer_def lend_buffer_def display_inv_def Let_def)
  next
    case (Return_Buffer mem b)
    then show ?thesis using inv Pair
      by (auto simp: returnTargetBufferForDisplay_def display_inv_def Let_def split: option.splits)
  next
    case Shut_Down
    then show ?thesis using inv Pair
      by (auto simp: disp_forceShutdown_def display_inv_def gralloc_free_def split: option.splits)
  qed
qed

interpretation display: op_system "display_inv alloc" "display_exec alloc" for alloc
  by unfold_locales (rule display_inv_exec)

definition run_display :: "allocator \<Rightarrow> display_op list \<Rightarrow> evs_display \<times> gralloc" where
  "run_display alloc ops = fold (display_exec alloc) ops (new_EvsDisplay, \<lparr>ga_calls = 0, ga_freed = []\<rparr>)"

lemma run_display_inv: "display_inv alloc (run_display alloc ops)"
  unfolding run_display_def by (rule display.run_inv) (rule display_inv_new)

subsection \<open>Properties\<close>

text \<open>
  The display lends its buffer to one client at a time. After every sequence of calls,
  \<open>getTargetBuffer\<close> hands out a buffer exactly when the display is not dead, the buffer is not out
  already and it exists or can be allocated; the buffer it hands out is the display's own, which is
  out from then on. At every moment each handle the allocator gave to the display is either its
  buffer or has been freed, once.
\<close>

theorem display_lends_one_buffer:
  assumes "run_display alloc ops = (d, g)" "getTargetBuffer alloc (d, g) = (b, d', g')"
  shows "(bd_memHandle b \<noteq> None \<longleftrightarrow> disp_requestedState d \<noteq> DS_DEAD \<and> \<not> disp_frameBusy d \<and>
      (bd_memHandle (disp_buffer d) \<noteq> None \<or> reply_handles (alloc (ga_calls g)) \<noteq> [])) \<and>
    (bd_memHandle b \<noteq> None \<longrightarrow> b = disp_buffer d' \<and> disp_frameBusy d' \<and> bd_bufferId b = 0x3870) \<and>
    (bd_memHandle b = None \<longrightarrow> disp_frameBusy d' = disp_frameBusy d) \<and>
    mset (obtained alloc (ga_calls g')) =
      mset (live [bd_memHandle (disp_buffer d')]) + mset (live (ga_freed g'))"
proof -
  have inv: "display_inv alloc (d, g)" using run_display_inv [of alloc ops] assms (1) by simp
  have inv': "display_inv alloc (d', g')"
    using display_inv_exec [OF inv, of Get_Buffer] assms (2) by simp
  obtain status h st where reply: "alloc (ga_calls g) = (status, h, st)" by (metis prod_cases3)
  show ?thesis
    using inv inv' assms (2) reply
    by (cases h) (auto simp: getTargetBuffer_def lend_buffer_def display_inv_def null_buffer_def Let_def
        split: if_splits)
qed

text \<open>The display after the client asked for it to become visible and got its buffer.\<close>

definition lent_ops :: "display_op list" where
  "lent_ops = [Set_State DS_VISIBLE_ON_NEXT_FRAME, Get_Buffer]"

definition row_alloc :: allocator where
  "row_alloc n = (0, Some n, 320)"

lemma lent_display:
  "run_display row_alloc lent_ops =
     (new_EvsDisplay\<lparr>disp_buffer := (disp_buffer new_EvsDisplay)\<lparr>bd_stride := 320, bd_memHandle := Some 0\<rparr>,
        disp_frameBusy := True, disp_requestedState := DS_VISIBLE_ON_NEXT_FRAME\<rparr>,
      \<lparr>ga_calls = 1, ga_freed = []\<rparr>)"
  by code_simp

theorem display_lends_one_buffer_witness:
  "case run_display row_alloc lent_ops of (d, g) \<Rightarrow>
     bd_memHandle (fst (getTargetBuffer row_alloc (d, g))) = None"
proof -
  obtain d g where run: "run_display row_alloc lent_ops = (d, g)" by (metis prod.exhaust)
  obtain b d' g' where get: "getTargetBuffer row_alloc (d, g) = (b, d', g')" by (metis prod_cases3)
  have "disp_frameBusy d" using run by (auto simp: lent_display)
  then show ?thesis using display_lends_one_buffer [OF run get] run get by simp
qed

text \<open>
  C18: The camera and the display agree on the test image. A buffer of the display that
  \<open>fillTestFrame\<close> has drawn is accepted when it is returned, whatever the frame ticker; any other
  contents are accepted exactly when every pixel but the first is the camera's. The display shows
  the frame and its buffer is free again. This needs one more pixel of memory than the image has:
  the signature is read after the row loop, from behind the last row, so with a buffer of exactly
  \<open>height * stride\<close> pixels a correct frame makes the display read outside it. As that value is
  masked to eight bits and the previous signature stays \<open>~0\<close>, a stale frame is never detected.
\<close>

theorem camera_frame_passes_display:
  assumes "disp_frameBusy d" "disp_requestedState d \<in> {DS_VISIBLE_ON_NEXT_FRAME, DS_VISIBLE}"
    and "bd_memHandle b \<noteq> None" "bd_bufferId b = bd_bufferId (disp_buffer d)"
    and "bd_memHandle (disp_buffer d) = Some h" "bd_width (disp_buffer d) \<le> bd_stride (disp_buffer d)"
    and "returnTargetBufferForDisplay mem b d = (res, d')"
  defines "w \<equiv> unat (bd_width (disp_buffer d))" and "n \<equiv> unat (bd_height (disp_buffer d))"
    and "st \<equiv> unat (bd_stride (disp_buffer d))"
  shows "d' = d\<lparr>disp_frameBusy := False, disp_requestedState := DS_VISIBLE\<rparr> \<and>
    (n * st < length (mem h) \<longrightarrow> res = Some (if \<forall>row < n. \<forall>col < w.
        row = 0 \<and> col = 0 \<or> mem h ! (row * st + col) = test_pixel row col
      then OK else UNDERLYING_SERVICE_ERROR)) \<and>
    (\<forall>t m t'. n * st < length m \<and> fillTestFrame (disp_buffer d) (t, m) = Some (t', mem h) \<longrightarrow> res = Some OK) \<and>
    (\<forall>t m t'. n * st = length m \<and> fillTestFrame (disp_buffer d) (t, m) = Some (t', mem h) \<longrightarrow> res = None)"
proof -
  have call: "d' = d\<lparr>disp_frameBusy := False, disp_requestedState := DS_VISIBLE\<rparr> \<and>
      res = map_option (\<lambda>good. if good then OK else UNDERLYING_SERVICE_ERROR)
        (frame_looks_good (disp_buffer d) (mem h))"
    using assms (1-7) by (auto simp: returnTargetBufferForDisplay_def Let_def split: option.splits)
  have check: "n * st < length (mem h) \<Longrightarrow>
      frame_looks_good (disp_buffer d) (mem h) = Some (image_matches st w n (mem h))"
    using frame_looks_good_spec assms (6) by (simp add: w_def n_def st_def)
  have drawn: "length (mem h) = length m \<and> image_matches st w n (mem h)"
    if "n * st \<le> length m" "fillTestFrame (disp_buffer d) (t, m) = Some (t', mem h)" for t m t'
    using fillTestFrame_spec [of "disp_buffer d" m t] assms (6) that by (auto simp: w_def n_def st_def)
  have over: "n * st = length (mem h) \<Longrightarrow> image_matches st w n (mem h) \<Longrightarrow>
      frame_looks_good (disp_buffer d) (mem h) = None"
    using frame_looks_good_overrun assms (6) by (simp add: w_def n_def st_def)
  have accepted: "res = Some OK" if "n * st < length m" "fillTestFrame (disp_buffer d) (t, m) = Some (t', mem h)" for t m t'
    using call check drawn [of m t t'] that by simp
  have overrun: "res = None" if "n * st = length m" "fillTestFrame (disp_buffer d) (t, m) = Some (t', mem h)" for t m t'
    using call over drawn [of m t t'] that by simp
  have compared: "n * st < length (mem h) \<Longrightarrow> res = Some (if \<forall>row < n. \<forall>col < w.
        row = 0 \<and> col = 0 \<or> mem h ! (row * st + col) = test_pixel row col
      then OK else UNDERLYING_SERVICE_ERROR)"
    using call check by (simp add: image_matches_def)
  show ?thesis
    by (intro conjI allI impI; (elim conjE)?)
      (rule conjunct1 [OF call], erule compared, erule (1) accepted, erule (1) overrun)
qed

theorem camera_frame_passes_display_witness:
  "\<exists>t m. let d = fst (run_display row_alloc lent_ops) in
     fillTestFrame (disp_buffer d) (7, replicate 76801 0) = Some (t, m) \<and>
     fst (returnTargetBufferForDisplay (\<lambda>_. m) (disp_buffer d) d) = Some OK"
proof -
  define d where "d = fst (run_display row_alloc lent_ops)"
  have d: "disp_frameBusy d" "disp_requestedState d \<in> {DS_VISIBLE_ON_NEXT_FRAME, DS_VISIBLE}"
    "bd_memHandle (disp_buffer d) \<noteq> None" "bd_bufferId (disp_buffer d) = bd_bufferId (disp_buffer d)"
    "bd_memHandle (disp_buffer d) = Some 0" "bd_width (disp_buffer d) \<le> bd_stride (disp_buffer d)"
    and size: "unat (bd_height (disp_buffer d)) * unat (bd_stride (disp_buffer d)) = 76800"
    by (simp_all add: d_def lent_display new_EvsDisplay_def null_buffer_def)
  obtain t m where fill: "fillTestFrame (disp_buffer d) (7, replicate 76801 0) = Some (t, m)"
    using fillTestFrame_spec [of "disp_buffer d" "replicate 76801 0" 7] d (6) size by auto
  obtain res d' where ret: "returnTargetBufferForDisplay (\<lambda>_. m) (disp_buffer d) d = (res, d')"
    by (metis prod.exhaust)
  have "res = Some OK"
    using camera_frame_passes_display [OF d ret] fill size by auto
  then show ?thesis using fill ret unfolding d_def Let_def by auto
qed

end
