(* ===== verification/EvsEnumerator.thy ===== *)
theory EvsEnumerator
  imports EvsCamera EvsDisplay
begin

text \<open>
  The enumerator of the exterior view system (\<open>src/automotive/evs/1.0/default/EvsEnumerator.cpp\<close>):
  it hands out camera and display objects and takes them away from their previous owner.

  An object has a number; a number is never used again. A weak pointer is the number of an object,
  and \<open>promote\<close> finds the object as long as somebody keeps it: an object that its client has dropped
  is gone from the table. The calls of the enumerator run on the one service thread, so they happen
  while no camera waits in \<open>stopVideoStream\<close>. Where they join a capture thread, the boolean list says
  how that thread's last deliveries went; \<open>None\<close> is the crash of a capture thread whose client
  passed a null stream.
\<close>

text \<open>A display object with its use of the allocator.\<close>

datatype display_object = Display_Object (display_of: "evs_display \<times> gralloc")

record camera_record =
  cr_desc :: camera_desc
  cr_active :: "nat option"

record evs_enumerator =
  en_cameraList :: "camera_record list"
  en_activeDisplay :: "nat option"
  en_cameras :: "nat \<Rightarrow> camera_system option"
  en_displays :: "nat \<Rightarrow> display_object option"
  en_next :: nat

definition new_record :: "string \<Rightarrow> camera_record" where
  "new_record name = \<lparr>cr_desc = \<lparr>cd_cameraId = name, cd_vendorFlags = 0\<rparr>, cr_active = None\<rparr>"

definition new_EvsEnumerator :: evs_enumerator where
  "new_EvsEnumerator =
     \<lparr>en_cameraList = map new_record [kCameraName_Backup, ''LaneView'', ''right turn''],
      en_activeDisplay = None, en_cameras = Map.empty, en_displays = Map.empty, en_next = 0\<rparr>"

definition getCameraList :: "evs_enumerator \<Rightarrow> camera_desc list" where
  "getCameraList e = map cr_desc (en_cameraList e)"

definition promote :: "(nat \<Rightarrow> 'a option) \<Rightarrow> nat option \<Rightarrow> nat option" where
  "promote objects w = (case w of None \<Rightarrow> None | Some x \<Rightarrow> if objects x = None then None else Some x)"

text \<open>The search for the record of a camera id.\<close>

fun find_record :: "string \<Rightarrow> camera_record list \<Rightarrow> nat option" where
  "find_record cameraId [] = None"
| "find_record cameraId (r # rs) =
     (if cd_cameraId (cr_desc r) = cameraId then Some 0 else map_option Suc (find_record cameraId rs))"

text \<open>\<open>EvsCamera::forceShutdown\<close> as one call: \<open>stopVideoStream\<close>, with the capture thread joined, and
  the locked rest.\<close>

definition cam_forceShutdown :: "bool list \<Rightarrow> camera_system \<Rightarrow> camera_system option" where
  "cam_forceShutdown oks s =
     (let s = stop_begin True s in
      case cs_service s of Serving \<Rightarrow> Some s
      | Joining b \<Rightarrow> let s = fold capture_step oks s in
          if cs_thread s = Exited then Some (stop_end b s) else None)"

definition cameraId_of :: "camera_system \<Rightarrow> string" where
  "cameraId_of s = cd_cameraId (cam_description (cs_camera s))"

definition set_active :: "nat \<Rightarrow> nat option \<Rightarrow> camera_record list \<Rightarrow> camera_record list" where
  "set_active k w rs = rs[k := (rs ! k)\<lparr>cr_active := w\<rparr>]"

definition closeCamera :: "bool list \<Rightarrow> nat option \<Rightarrow> evs_enumerator \<Rightarrow> evs_enumerator option" where
  "closeCamera oks pCamera e = (case pCamera of None \<Rightarrow> Some e
   | Some x \<Rightarrow> (case en_cameras e x of None \<Rightarrow> Some e
     | Some s \<Rightarrow> (case find_record (cameraId_of s) (en_cameraList e) of None \<Rightarrow> Some e
       | Some k \<Rightarrow> (case promote (en_cameras e) (cr_active (en_cameraList e ! k)) of None \<Rightarrow> Some e
         | Some a \<Rightarrow>
             if a \<noteq> x then Some e
             else map_option (\<lambda>s'. e\<lparr>en_cameraList := set_active k None (en_cameraList e),
                    en_cameras := (en_cameras e)(a \<mapsto> s')\<rparr>) (cam_forceShutdown oks s)))))"

definition openCamera ::
  "bool list \<Rightarrow> string \<Rightarrow> evs_enumerator \<Rightarrow> (nat option \<times> evs_enumerator) option" where
  "openCamera oks cameraId e = (case find_record cameraId (en_cameraList e) of None \<Rightarrow> Some (None, e)
   | Some k \<Rightarrow>
       (case (case promote (en_cameras e) (cr_active (en_cameraList e ! k)) of None \<Rightarrow> Some e
              | Some a \<Rightarrow> closeCamera oks (Some a) e) of None \<Rightarrow> None
        | Some e \<Rightarrow> let x = en_next e in
            Some (Some x, e\<lparr>en_cameraList := set_active k (Some x) (en_cameraList e),
              en_cameras := (en_cameras e)(x \<mapsto> new_camera_system cameraId), en_next := x + 1\<rparr>)))"

definition new_display :: display_object where
  "new_display = Display_Object (new_EvsDisplay, \<lparr>ga_calls = 0, ga_freed = []\<rparr>)"

definition shut_display :: "display_object \<Rightarrow> display_object" where
  "shut_display x = Display_Object (disp_forceShutdown (display_of x))"

definition closeDisplay :: "nat option \<Rightarrow> evs_enumerator \<Rightarrow> evs_enumerator" where
  "closeDisplay pDisplay e = (case promote (en_displays e) (en_activeDisplay e) of None \<Rightarrow> e
   | Some a \<Rightarrow> if Some a \<noteq> pDisplay then e
       else e\<lparr>en_displays := (en_displays e)(a := map_option shut_display (en_displays e a)),
              en_activeDisplay := None\<rparr>)"

definition openDisplay :: "evs_enumerator \<Rightarrow> nat \<times> evs_enumerator" where
  "openDisplay e =
     (let e = (case promote (en_displays e) (en_activeDisplay e) of None \<Rightarrow> e
               | Some a \<Rightarrow> closeDisplay (Some a) e);
          x = en_next e in
      (x, e\<lparr>en_displays := (en_displays e)(x \<mapsto> new_display),
            en_activeDisplay := Some x, en_next := x + 1\<rparr>))"

definition en_getDisplayState :: "evs_enumerator \<Rightarrow> DisplayState" where
  "en_getDisplayState e = (case promote (en_displays e) (en_activeDisplay e) of None \<Rightarrow> DS_NOT_OPEN
   | Some a \<Rightarrow> (case en_displays e a of None \<Rightarrow> DS_NOT_OPEN | Some x \<Rightarrow> disp_getDisplayState (fst (display_of x))))"

text \<open>A client drops its last reference: the destructor shuts the camera down.\<close>

definition dropCamera :: "bool list \<Rightarrow> nat \<Rightarrow> evs_enumerator \<Rightarrow> evs_enumerator option" where
  "dropCamera oks x e = (case en_cameras e x of None \<Rightarrow> Some e
   | Some s \<Rightarrow> map_option (\<lambda>_. e\<lparr>en_cameras := (en_cameras e)(x := None)\<rparr>) (cam_forceShutdown oks s))"

definition dropDisplay :: "nat \<Rightarrow> evs_enumerator \<Rightarrow> evs_enumerator" where
  "dropDisplay x e = e\<lparr>en_displays := (en_displays e)(x := None)\<rparr>"

subsection \<open>Runs\<close>

definition exec_display :: "allocator \<Rightarrow> display_op \<Rightarrow> display_object \<Rightarrow> display_object" where
  "exec_display alloc op x = Display_Object (display_exec alloc op (display_of x))"

definition all_serving :: "evs_enumerator \<Rightarrow> bool" where
  "all_serving e \<longleftrightarrow> (\<forall>x s. en_cameras e x = Some s \<longrightarrow> cs_service s = Serving)"

inductive enum_step :: "(nat \<Rightarrow> allocator) \<Rightarrow> evs_enumerator \<Rightarrow> evs_enumerator \<Rightarrow> bool"
  for alloc where
  es_open: "all_serving e \<Longrightarrow> openCamera oks name e = Some (r, e') \<Longrightarrow> enum_step alloc e e'"
| es_close: "all_serving e \<Longrightarrow> closeCamera oks x e = Some e' \<Longrightarrow> enum_step alloc e e'"
| es_drop: "all_serving e \<Longrightarrow> dropCamera oks x e = Some e' \<Longrightarrow> enum_step alloc e e'"
| es_camera: "en_cameras e x = Some s \<Longrightarrow> camera_step (alloc x) s s' \<Longrightarrow>
    enum_step alloc e (e\<lparr>en_cameras := (en_cameras e)(x \<mapsto> s')\<rparr>)"
| es_open_display: "enum_step alloc e (snd (openDisplay e))"
| es_close_display: "enum_step alloc e (closeDisplay p e)"
| es_drop_display: "enum_step alloc e (dropDisplay x e)"
| es_display: "en_displays e x = Some dg \<Longrightarrow>
    enum_step alloc e (e\<lparr>en_displays := (en_displays e)(x \<mapsto> exec_display (alloc x) op dg)\<rparr>)"

inductive_cases enum_stepE: "enum_step alloc e e'"

inductive enum_reachable :: "(nat \<Rightarrow> allocator) \<Rightarrow> evs_enumerator \<Rightarrow> bool"
  for alloc where
  er_new: "enum_reachable alloc new_EvsEnumerator"
| er_step: "enum_reachable alloc e \<Longrightarrow> enum_step alloc e e' \<Longrightarrow> enum_reachable alloc e'"

subsection \<open>What the cameras keep\<close>

lemma increase_loop_description:
  "increase_loop n alloc added (c, g) = (k, c', g') \<Longrightarrow> cam_description c' = cam_description c"
  by (induction n arbitrary: added c g)
    (fastforce simp: Let_def split: prod.splits if_splits option.splits)+

lemma decrease_description:
  "decreaseAvailableFrames_Locked n (c, g) = (k, c', g') \<Longrightarrow> cam_description c' = cam_description c"
  by (auto simp: decreaseAvailableFrames_Locked_def split: prod.splits)

lemma setAvailableFrames_description:
  "setAvailableFrames_Locked alloc n (c, g) = (b, c', g') \<Longrightarrow> cam_description c' = cam_description c"
  by (auto simp: setAvailableFrames_Locked_def increaseAvailableFrames_Locked_def Let_def
      dest!: increase_loop_description decrease_description split: prod.splits if_splits)

lemma setMax_description:
  "setMaxFramesInFlight alloc n (c, g) = (r, c', g') \<Longrightarrow> cam_description c' = cam_description c"
  by (auto simp: setMaxFramesInFlight_def dest!: setAvailableFrames_description
      split: prod.splits if_splits)

lemma start_description:
  "startVideoStream alloc st (c, g) = (r, b, c', g') \<Longrightarrow> cam_description c' = cam_description c"
  by (auto simp: startVideoStream_def dest!: setAvailableFrames_description
      split: prod.splits if_splits)

lemma done_description: "cam_description (doneWithFrame b c) = cam_description c"
  by (simp add: doneWithFrame_def Let_def)

lemma capture_description: "cam_description (cs_camera (capture_step ok s)) = cam_description (cs_camera s)"
  by (simp add: capture_step_def capture_top_def give_back_def Let_def split: capture_pc.splits option.splits)

lemma stop_description:
  "cam_description (cs_camera (stop_begin b s)) = cam_description (cs_camera s)"
  "cam_description (cs_camera (stop_end b s)) = cam_description (cs_camera s)"
  by (simp_all add: stop_begin_def stop_end_def after_stop_def shutdown_locked_def)

lemma camera_step_id: "camera_step alloc s t \<Longrightarrow> cameraId_of t = cameraId_of s"
  by (erule camera_stepE, erule camera_moveE)
    (auto simp: cameraId_of_def done_description capture_description stop_description
      dest!: setMax_description start_description)

lemma reachable_id: "camera_reachable alloc name s \<Longrightarrow> cameraId_of s = name"
  by (induction rule: camera_reachable.induct)
    (simp_all add: camera_step_id, simp add: cameraId_of_def new_camera_system_def new_EvsCamera_def Let_def)

definition dead :: "camera_system \<Rightarrow> bool" where
  "dead s \<longleftrightarrow> cam_streamState (cs_camera s) = DEAD"

text \<open>A dead camera stays dead.\<close>

lemma dead_step:
  assumes reach: "camera_reachable alloc name s" and step: "camera_step alloc s t" and dead: "dead s"
  shows "dead t"
proof -
  have inv: "cs_thread s = No_Thread" "cs_service s = Serving"
    using camera_inv_reachable [OF reach] dead by (auto simp: camera_inv_def thread_ok_def dead_def Let_def)
  from step show ?thesis
    by (rule camera_stepE, elim camera_moveE)
      (use dead inv in \<open>auto simp: dead_def setMaxFramesInFlight_def startVideoStream_def capture_step_def
        stop_begin_def after_stop_def shutdown_locked_def\<close>)
qed

lemma reach_captures:
  "camera_reachable alloc name s \<Longrightarrow> camera_reachable alloc name (fold capture_step oks s)"
  by (induction oks arbitrary: s) (auto intro: reach_step step_capture)

text \<open>A forced shutdown is a run of the camera, and leaves it dead.\<close>

lemma forceShutdown_spec:
  assumes reach: "camera_reachable alloc name s" and serving: "cs_service s = Serving"
    and run: "cam_forceShutdown oks s = Some t"
  shows "camera_reachable alloc name t" "dead t" "cs_service t = Serving"
proof -
  define s1 where "s1 = stop_begin True s"
  have r1: "camera_reachable alloc name s1"
    unfolding s1_def by (rule reach_step [OF reach step_stop [OF serving]])
  have all: "camera_reachable alloc name t \<and> dead t \<and> cs_service t = Serving"
  proof (cases "cs_service s1")
    case Serving
    then have "t = s1" using run by (simp add: cam_forceShutdown_def s1_def [symmetric])
    moreover have "dead s1" using Serving
      by (auto simp: s1_def stop_begin_def after_stop_def shutdown_locked_def dead_def split: if_splits)
    ultimately show ?thesis using r1 Serving by simp
  next
    case (Joining b)
    define s2 where "s2 = fold capture_step oks s1"
    have b: "b" using Joining serving
      by (auto simp: s1_def stop_begin_def after_stop_def shutdown_locked_def split: if_splits)
    have fin: "cs_thread s2 = Exited" "t = stop_end b s2"
      using run Joining
      by (auto simp: cam_forceShutdown_def s1_def [symmetric] s2_def [symmetric] Let_def split: if_splits)
    have svc: "cs_service (fold capture_step os u) = cs_service u" for os u
      by (induction os arbitrary: u)
        (simp_all add: capture_step_def capture_top_def Let_def split: capture_pc.splits option.splits)
    have "camera_reachable alloc name t"
      unfolding fin by (rule reach_step [OF reach_captures [OF r1, of oks, folded s2_def] step_join])
        (use fin Joining svc in \<open>simp_all add: s2_def\<close>)
    then show ?thesis using b by (simp add: fin stop_end_def after_stop_def shutdown_locked_def dead_def)
  qed
  then show "camera_reachable alloc name t" "dead t" "cs_service t = Serving" by simp_all
qed

subsection \<open>The invariant\<close>

definition ids :: "camera_record list \<Rightarrow> string list" where
  "ids rs = map (\<lambda>r. cd_cameraId (cr_desc r)) rs"

lemma find_record_Some:
  "find_record name rs = Some k \<Longrightarrow> k < length rs \<and> ids rs ! k = name"
  by (induction rs arbitrary: k) (auto simp: ids_def split: if_splits)

lemma find_record_distinct:
  "distinct (ids rs) \<Longrightarrow> k < length rs \<Longrightarrow> find_record (ids rs ! k) rs = Some k"
proof (induction rs arbitrary: k)
  case (Cons r rs)
  then show ?case by (cases k) (force simp: ids_def)+
qed simp

lemma ids_set_active [simp]: "k < length rs \<Longrightarrow> ids (set_active k w rs) = ids rs"
  by (simp add: ids_def set_active_def map_update) (metis length_map list_update_id nth_map)

lemma length_set_active [simp]: "length (set_active k w rs) = length rs"
  by (simp add: set_active_def)

lemma active_set_active:
  "k < length rs \<Longrightarrow> cr_active (set_active k w rs ! i) = (if i = k then w else cr_active (rs ! i))"
  by (simp add: set_active_def nth_list_update)

text \<open>The camera that a record points to is the only one of its id that may be alive.\<close>

definition owner_ok :: "camera_record list \<Rightarrow> nat \<Rightarrow> camera_system \<Rightarrow> bool" where
  "owner_ok rs x s \<longleftrightarrow> dead s \<or>
     (\<exists>k < length rs. ids rs ! k = cameraId_of s \<and> cr_active (rs ! k) = Some x)"

definition display_dead :: "display_object \<Rightarrow> bool" where
  "display_dead dg \<longleftrightarrow> disp_requestedState (fst (display_of dg)) = DS_DEAD"

definition enum_inv :: "(nat \<Rightarrow> allocator) \<Rightarrow> evs_enumerator \<Rightarrow> bool" where
  "enum_inv alloc e \<longleftrightarrow> distinct (ids (en_cameraList e)) \<and>
     (\<forall>x s. en_cameras e x = Some s \<longrightarrow> x < en_next e \<and> owner_ok (en_cameraList e) x s \<and>
        camera_reachable (alloc x) (cameraId_of s) s) \<and>
     (\<forall>k < length (en_cameraList e). \<forall>x. cr_active (en_cameraList e ! k) = Some x \<longrightarrow> x < en_next e \<and>
        (\<forall>s. en_cameras e x = Some s \<longrightarrow> cameraId_of s = ids (en_cameraList e) ! k)) \<and>
     (\<forall>x dg. en_displays e x = Some dg \<longrightarrow> x < en_next e \<and>
        (display_dead dg \<or> en_activeDisplay e = Some x))"

lemma enum_inv_camera:
  "enum_inv alloc e \<Longrightarrow> en_cameras e x = Some s \<Longrightarrow>
   x < en_next e \<and> owner_ok (en_cameraList e) x s \<and> camera_reachable (alloc x) (cameraId_of s) s"
  by (simp add: enum_inv_def)

lemma enum_inv_record:
  "enum_inv alloc e \<Longrightarrow> k < length (en_cameraList e) \<Longrightarrow> cr_active (en_cameraList e ! k) = Some x \<Longrightarrow>
   x < en_next e \<and> (\<forall>s. en_cameras e x = Some s \<longrightarrow> cameraId_of s = ids (en_cameraList e) ! k)"
  by (simp add: enum_inv_def)

lemma enum_inv_distinct: "enum_inv alloc e \<Longrightarrow> distinct (ids (en_cameraList e))"
  by (simp add: enum_inv_def)

lemma enum_inv_new: "enum_inv alloc new_EvsEnumerator"
  by (simp add: enum_inv_def new_EvsEnumerator_def ids_def new_record_def kCameraName_Backup_def
      nth_Cons split: nat.splits)

lemma promote_Some: "promote objects w = Some x \<longleftrightarrow> w = Some x \<and> objects x \<noteq> None"
  by (auto simp: promote_def split: option.splits)

lemma owner_ok_update:
  "owner_ok rs x s \<Longrightarrow> cameraId_of s' = cameraId_of s \<Longrightarrow> (dead s \<Longrightarrow> dead s') \<Longrightarrow> owner_ok rs x s'"
  by (auto simp: owner_ok_def)

lemma close_cases:
  assumes "enum_inv alloc e" "all_serving e" "closeCamera oks p e = Some e'"
  shows "e' = e \<or> (\<exists>x s s' k. p = Some x \<and> en_cameras e x = Some s \<and> cam_forceShutdown oks s = Some s' \<and>
      find_record (cameraId_of s) (en_cameraList e) = Some k \<and> cr_active (en_cameraList e ! k) = Some x \<and>
      e' = e\<lparr>en_cameraList := set_active k None (en_cameraList e), en_cameras := (en_cameras e)(x \<mapsto> s')\<rparr>)"
  using assms (3) by (auto simp: closeCamera_def promote_Some split: option.splits if_splits)

lemma enum_inv_close:
  assumes inv: "enum_inv alloc e" and serving: "all_serving e" and run: "closeCamera oks p e = Some e'"
  shows "enum_inv alloc e'" "all_serving e'" "en_next e' = en_next e" "ids (en_cameraList e') = ids (en_cameraList e)"
proof -
  have all: "enum_inv alloc e' \<and> all_serving e' \<and> en_next e' = en_next e \<and>
    ids (en_cameraList e') = ids (en_cameraList e)"
    using close_cases [OF assms]
  proof (elim disjE exE conjE)
    fix x s s' k
    assume s: "en_cameras e x = Some s" "cam_forceShutdown oks s = Some s'"
      and k: "find_record (cameraId_of s) (en_cameraList e) = Some k" "cr_active (en_cameraList e ! k) = Some x"
      and e': "e' = e\<lparr>en_cameraList := set_active k None (en_cameraList e), en_cameras := (en_cameras e)(x \<mapsto> s')\<rparr>"
    have "camera_reachable (alloc x) (cameraId_of s) s" "cs_service s = Serving"
      using inv serving s by (simp_all add: enum_inv_def all_serving_def)
    note down = forceShutdown_spec [OF this s (2)]
    have id: "cameraId_of s' = cameraId_of s" using reachable_id down (1) by blast
    have kl: "k < length (en_cameraList e)" using find_record_Some [OF k (1)] by simp
    have keep: "owner_ok (set_active k None (en_cameraList e)) y t"
      if "en_cameras e y = Some t" "y \<noteq> x" for y t
    proof -
      have "owner_ok (en_cameraList e) y t" using inv that by (simp add: enum_inv_def)
      then show ?thesis unfolding owner_ok_def
        using that (2) kl k (2) by (fastforce simp: active_set_active)
    qed
    have own: "owner_ok (set_active k None (en_cameraList e)) x s'" using down (2) by (simp add: owner_ok_def)
    have recs: "y < en_next e \<and> (\<forall>t. (if y = x then t = s' else en_cameras e y = Some t) \<longrightarrow>
        cameraId_of t = ids (en_cameraList e) ! j)"
      if "j < length (en_cameraList e)" "j \<noteq> k" "cr_active (en_cameraList e ! j) = Some y" for j y
      using enum_inv_record [OF inv that (1,3)] s (1) id by auto
    show ?thesis using inv serving keep own down (1,3) id kl s (1) recs
      by (auto simp: e' enum_inv_def all_serving_def active_set_active)
  qed (use assms in simp)
  then show "enum_inv alloc e'" "all_serving e'" "en_next e' = en_next e"
    "ids (en_cameraList e') = ids (en_cameraList e)" by simp_all
qed

text \<open>After the close that \<open>openCamera\<close> makes, nobody alive owns the camera.\<close>

definition closed_first :: "bool list \<Rightarrow> nat \<Rightarrow> evs_enumerator \<Rightarrow> evs_enumerator option" where
  "closed_first oks k e = (case promote (en_cameras e) (cr_active (en_cameraList e ! k)) of
     None \<Rightarrow> Some e | Some a \<Rightarrow> closeCamera oks (Some a) e)"

lemma openCamera_closed_first:
  "openCamera oks name e = (case find_record name (en_cameraList e) of None \<Rightarrow> Some (None, e)
   | Some k \<Rightarrow> (case closed_first oks k e of None \<Rightarrow> None
      | Some e \<Rightarrow> Some (Some (en_next e), e\<lparr>en_cameraList := set_active k (Some (en_next e)) (en_cameraList e),
          en_cameras := (en_cameras e)(en_next e \<mapsto> new_camera_system name), en_next := en_next e + 1\<rparr>)))"
  by (simp add: openCamera_def closed_first_def Let_def cong: option.case_cong)

lemma closed_first_spec:
  assumes inv: "enum_inv alloc e" and serving: "all_serving e"
    and k: "find_record name (en_cameraList e) = Some k" and run: "closed_first oks k e = Some e1"
  shows "enum_inv alloc e1" "all_serving e1" "en_next e1 = en_next e"
    "ids (en_cameraList e1) = ids (en_cameraList e)"
    "en_cameras e1 x = Some s \<Longrightarrow> cameraId_of s = name \<Longrightarrow> dead s"
proof -
  show inv1: "enum_inv alloc e1" "all_serving e1" "en_next e1 = en_next e"
    "ids (en_cameraList e1) = ids (en_cameraList e)"
    using run enum_inv_close [OF inv serving] inv serving
    by (auto simp: closed_first_def split: option.splits)
  assume s: "en_cameras e1 x = Some s" "cameraId_of s = name"
  have name: "ids (en_cameraList e) ! k = name" and kl: "k < length (en_cameraList e)"
    using find_record_Some [OF k] by simp_all
  have len: "length (en_cameraList e1) = length (en_cameraList e)"
    using arg_cong [OF inv1 (4), of length] by (simp add: ids_def)
  show "dead s"
  proof (rule ccontr)
    assume alive: "\<not> dead s"
    then obtain j where j: "j < length (en_cameraList e1)" "ids (en_cameraList e1) ! j = name"
      "cr_active (en_cameraList e1 ! j) = Some x"
      using enum_inv_camera [OF inv1 (1) s (1)] s (2) by (auto simp: owner_ok_def)
    have "j = k"
      using j name kl len inv1 (4) inv
      by (metis enum_inv_def find_record_distinct option.inject)
    then have act: "cr_active (en_cameraList e1 ! k) = Some x" using j by simp
    show False
    proof (cases "promote (en_cameras e) (cr_active (en_cameraList e ! k))")
      case None
      then have "e1 = e" using run by (simp add: closed_first_def)
      then show False using None act s (1) by (simp add: promote_def)
    next
      case (Some a)
      then have close: "closeCamera oks (Some a) e = Some e1" using run by (simp add: closed_first_def)
      have a: "cr_active (en_cameraList e ! k) = Some a" "en_cameras e a \<noteq> None"
        using Some by (simp_all add: promote_Some)
      from a obtain t where t: "en_cameras e a = Some t" by blast
      have "cameraId_of t = name" using enum_inv_record [OF inv kl a (1)] t name by simp
      then show False using close t k a act kl
        by (auto simp: closeCamera_def promote_def active_set_active split: option.splits if_splits)
    qed
  qed
qed

definition displays_ok :: "evs_enumerator \<Rightarrow> bool" where
  "displays_ok e \<longleftrightarrow> (\<forall>x dg. en_displays e x = Some dg \<longrightarrow> x < en_next e \<and>
     (display_dead dg \<or> en_activeDisplay e = Some x))"

lemma displays_ok_inv: "enum_inv alloc e \<Longrightarrow> displays_ok e"
  by (simp add: enum_inv_def displays_ok_def)

lemma displays_okD:
  "displays_ok e \<Longrightarrow> en_displays e x = Some dg \<Longrightarrow>
   x < en_next e \<and> (display_dead dg \<or> en_activeDisplay e = Some x)"
  unfolding displays_ok_def by blast

lemma enum_inv_open:
  assumes inv: "enum_inv alloc e" and serving: "all_serving e" and run: "openCamera oks name e = Some (r, e')"
  shows "enum_inv alloc e'"
proof (cases "find_record name (en_cameraList e)")
  case None
  then show ?thesis using run inv by (simp add: openCamera_def)
next
  case (Some k)
  then obtain e1 where first: "closed_first oks k e = Some e1"
    and e': "e' = e1\<lparr>en_cameraList := set_active k (Some (en_next e1)) (en_cameraList e1),
          en_cameras := (en_cameras e1)(en_next e1 \<mapsto> new_camera_system name), en_next := en_next e1 + 1\<rparr>"
    using run by (auto simp: openCamera_closed_first split: option.splits)
  note spec = closed_first_spec [OF inv serving Some first]
  have kl: "k < length (en_cameraList e1)" "ids (en_cameraList e1) ! k = name"
    using find_record_Some [OF Some] arg_cong [OF spec (4), of length] spec (4) by (simp_all add: ids_def)
  let ?x = "en_next e1"
  have new: "camera_reachable (alloc ?x) name (new_camera_system name)" by (rule reach_new)
  have id: "cameraId_of (new_camera_system name) = name" by (rule reachable_id [OF new])
  have own: "owner_ok (set_active k (Some ?x) (en_cameraList e1)) y s"
    if s: "en_cameras e1 y = Some s" for y s
  proof (cases "cameraId_of s = name")
    case True
    then show ?thesis using spec (5) s by (simp add: owner_ok_def)
  next
    case False
    then show ?thesis using enum_inv_camera [OF spec (1) s] kl unfolding owner_ok_def
      by (fastforce simp: active_set_active)
  qed
  have own_new: "owner_ok (set_active k (Some ?x) (en_cameraList e1)) ?x (new_camera_system name)"
    using kl id by (auto simp: owner_ok_def active_set_active intro!: exI [where x = k])
  show ?thesis
    unfolding enum_inv_def
  proof (intro conjI allI impI)
    show "distinct (ids (en_cameraList e'))" using enum_inv_distinct [OF spec (1)] kl by (simp add: e')
  next
    fix y s assume "en_cameras e' y = Some s"
    then show "y < en_next e'" "owner_ok (en_cameraList e') y s" "camera_reachable (alloc y) (cameraId_of s) s"
      using enum_inv_camera [OF spec (1)] own own_new new id
      by (auto simp: e' less_SucI split: if_splits)
  next
    fix j y assume j: "j < length (en_cameraList e')" "cr_active (en_cameraList e' ! j) = Some y"
    show "y < en_next e'"
      using j kl enum_inv_record [OF spec (1), of j y]
      by (auto simp: e' active_set_active less_SucI split: if_splits)
    fix s assume "en_cameras e' y = Some s"
    then show "cameraId_of s = ids (en_cameraList e') ! j"
      using j kl enum_inv_record [OF spec (1), of j y] id
      by (auto simp: e' active_set_active split: if_splits)
  next
    fix y dg assume "en_displays e' y = Some dg"
    then show "y < en_next e'" "display_dead dg \<or> en_activeDisplay e' = Some y"
      using displays_okD [OF displays_ok_inv [OF spec (1)], of y dg] by (simp_all add: e')
  qed
qed

lemma enum_inv_drop:
  assumes inv: "enum_inv alloc e" and run: "dropCamera oks x e = Some e'"
  shows "enum_inv alloc e'"
proof -
  have "e' = e \<or> e' = e\<lparr>en_cameras := (en_cameras e)(x := None)\<rparr>"
    using run by (auto simp: dropCamera_def split: option.splits)
  then show ?thesis
  proof
    assume e': "e' = e\<lparr>en_cameras := (en_cameras e)(x := None)\<rparr>"
    show ?thesis unfolding enum_inv_def
    proof (intro conjI allI impI)
      show "distinct (ids (en_cameraList e'))" using enum_inv_distinct [OF inv] by (simp add: e')
    next
      fix y s assume "en_cameras e' y = Some s"
      then have "en_cameras e y = Some s" by (simp add: e' split: if_splits)
      from enum_inv_camera [OF inv this]
      show "y < en_next e'" "owner_ok (en_cameraList e') y s" "camera_reachable (alloc y) (cameraId_of s) s"
        by (simp_all add: e')
    next
      fix j y assume "j < length (en_cameraList e')" "cr_active (en_cameraList e' ! j) = Some y"
      then have rec: "y < en_next e" "\<And>s. en_cameras e y = Some s \<Longrightarrow> cameraId_of s = ids (en_cameraList e) ! j"
        using enum_inv_record [OF inv, of j y] by (simp_all add: e')
      then show "y < en_next e'" by (simp add: e')
      fix s assume "en_cameras e' y = Some s"
      then show "cameraId_of s = ids (en_cameraList e') ! j"
        using rec (2) by (simp add: e' split: if_splits)
    next
      fix y dg assume "en_displays e' y = Some dg"
      then show "y < en_next e'" "display_dead dg \<or> en_activeDisplay e' = Some y"
        using displays_okD [OF displays_ok_inv [OF inv], of y dg] by (simp_all add: e')
    qed
  qed (use inv in simp)
qed

lemma enum_inv_camera_step:
  assumes inv: "enum_inv alloc e" and s: "en_cameras e x = Some s" and step: "camera_step (alloc x) s t"
  shows "enum_inv alloc (e\<lparr>en_cameras := (en_cameras e)(x \<mapsto> t)\<rparr>)"
proof -
  note cam = enum_inv_camera [OF inv s]
  have reach: "camera_reachable (alloc x) (cameraId_of s) s" using cam by simp
  have t: "cameraId_of t = cameraId_of s" by (rule camera_step_id [OF step])
  have "camera_reachable (alloc x) (cameraId_of t) t" using reach_step [OF reach step] t by simp
  moreover have "owner_ok (en_cameraList e) x t"
    using cam dead_step [OF reach step] t by (auto simp: owner_ok_def)
  ultimately show ?thesis using inv s t by (auto simp: enum_inv_def)
qed

lemma display_dead_exec: "display_dead dg \<Longrightarrow> display_dead (exec_display alloc op dg)"
  by (cases "display_of dg"; cases op) (auto simp: display_dead_def exec_display_def setDisplayState_def getTargetBuffer_def
      returnTargetBufferForDisplay_def disp_forceShutdown_def Let_def split: option.splits)

lemma display_dead_shutdown: "display_dead (shut_display dg)"
  by (cases "display_of dg") (auto simp: display_dead_def shut_display_def disp_forceShutdown_def split: option.splits)

lemma enum_inv_displays:
  "enum_inv alloc e \<Longrightarrow> en_cameraList e' = en_cameraList e \<Longrightarrow> en_cameras e' = en_cameras e \<Longrightarrow>
   en_next e \<le> en_next e' \<Longrightarrow> displays_ok e' \<Longrightarrow> enum_inv alloc e'"
  by (fastforce simp: enum_inv_def displays_ok_def)

lemma displays_okI:
  "(\<And>x dg. en_displays e x = Some dg \<Longrightarrow>
     x < en_next e \<and> (display_dead dg \<or> en_activeDisplay e = Some x)) \<Longrightarrow> displays_ok e"
  unfolding displays_ok_def by blast

lemma closeDisplay_keeps [simp]:
  "en_cameraList (closeDisplay p e) = en_cameraList e" "en_cameras (closeDisplay p e) = en_cameras e"
  "en_next (closeDisplay p e) = en_next e"
  by (simp_all add: closeDisplay_def split: option.splits)

lemma closeDisplay_cases:
  "closeDisplay p e = e \<or> (\<exists>a dg. p = Some a \<and> en_activeDisplay e = Some a \<and> en_displays e a = Some dg \<and>
     closeDisplay p e = e\<lparr>en_displays := (en_displays e)(a \<mapsto> shut_display dg), en_activeDisplay := None\<rparr>)"
proof (cases "en_activeDisplay e")
  case (Some a)
  then show ?thesis
    by (cases "en_displays e a"; cases "p = Some a") (simp_all add: closeDisplay_def promote_def)
qed (simp add: closeDisplay_def promote_def)

lemma displays_ok_close:
  assumes ok: "displays_ok e"
  shows "displays_ok (closeDisplay p e)"
  using closeDisplay_cases [of p e]
proof (elim disjE exE conjE)
  fix a dg
  assume a: "en_activeDisplay e = Some a" "en_displays e a = Some dg"
    and e': "closeDisplay p e = e\<lparr>en_displays := (en_displays e)(a \<mapsto> shut_display dg), en_activeDisplay := None\<rparr>"
  show ?thesis
  proof (rule displays_okI)
    fix x dh assume "en_displays (closeDisplay p e) x = Some dh"
    then show "x < en_next (closeDisplay p e) \<and> (display_dead dh \<or> en_activeDisplay (closeDisplay p e) = Some x)"
      using displays_okD [OF ok, of x] a display_dead_shutdown [of dg] by (cases "x = a") (simp_all add: e')
  qed
qed (use ok in simp)

definition display_closed_first :: "evs_enumerator \<Rightarrow> evs_enumerator" where
  "display_closed_first e = (case promote (en_displays e) (en_activeDisplay e) of None \<Rightarrow> e
     | Some a \<Rightarrow> closeDisplay (Some a) e)"

lemma display_closed_first_spec:
  assumes ok: "displays_ok e"
  shows "displays_ok (display_closed_first e)"
    "en_displays (display_closed_first e) x = Some dg \<Longrightarrow> display_dead dg"
proof -
  show "displays_ok (display_closed_first e)"
    using ok displays_ok_close by (auto simp: display_closed_first_def split: option.splits)
  assume dg: "en_displays (display_closed_first e) x = Some dg"
  show "display_dead dg"
  proof (cases "promote (en_displays e) (en_activeDisplay e)")
    case None
    then have "en_displays e x = Some dg" "en_activeDisplay e \<noteq> Some x"
      using dg by (auto simp: display_closed_first_def promote_def)
    then show ?thesis using displays_okD [OF ok] by blast
  next
    case (Some a)
    then have act: "en_activeDisplay e = Some a" by (simp add: promote_Some)
    have "closeDisplay (Some a) e =
        e\<lparr>en_displays := (en_displays e)(a := map_option shut_display (en_displays e a)), en_activeDisplay := None\<rparr>"
      using Some by (simp add: closeDisplay_def)
    note a = act this
    show ?thesis
    proof (cases "x = a")
      case True
      then show ?thesis using dg Some a display_dead_shutdown by (auto simp: display_closed_first_def)
    next
      case False
      then have "en_displays e x = Some dg" using dg Some a (2) by (simp add: display_closed_first_def)
      then show ?thesis using displays_okD [OF ok] a (1) False by auto
    qed
  qed
qed

lemma openDisplay_spec:
  assumes "displays_ok e" "openDisplay e = (x, e')"
  shows "displays_ok e'" "x = en_next e" "en_cameraList e' = en_cameraList e" "en_cameras e' = en_cameras e"
    "en_next e' = Suc (en_next e)" "en_activeDisplay e' = Some x"
    "en_displays e' x = Some new_display"
    "en_displays e' y = Some dg \<Longrightarrow> y \<noteq> x \<Longrightarrow> display_dead dg"
proof -
  define e1 where "e1 = display_closed_first e"
  note first = display_closed_first_spec [OF assms (1), folded e1_def]
  have keep: "en_cameraList e1 = en_cameraList e" "en_cameras e1 = en_cameras e" "en_next e1 = en_next e"
    by (simp_all add: e1_def display_closed_first_def split: option.splits)
  have open1: "openDisplay e = (en_next e1, e1\<lparr>en_displays := (en_displays e1)(en_next e1 \<mapsto> new_display), en_activeDisplay := Some (en_next e1), en_next := en_next e1 + 1\<rparr>)"
    unfolding openDisplay_def display_closed_first_def [symmetric] e1_def [symmetric] Let_def by (rule refl)
  have e': "x = en_next e1" "e' = e1\<lparr>en_displays := (en_displays e1)(en_next e1 \<mapsto> new_display), en_activeDisplay := Some (en_next e1), en_next := en_next e1 + 1\<rparr>"
    using assms (2) [unfolded open1] by auto
  show "displays_ok e'"
  proof (rule displays_okI)
    fix y dh assume "en_displays e' y = Some dh"
    then show "y < en_next e' \<and> (display_dead dh \<or> en_activeDisplay e' = Some y)"
      using displays_okD [OF first (1), of y] first (2) [of y] by (cases "y = en_next e1") (auto simp: e')
  qed
  show "x = en_next e" "en_cameraList e' = en_cameraList e" "en_cameras e' = en_cameras e"
    "en_next e' = Suc (en_next e)" "en_activeDisplay e' = Some x"
    "en_displays e' x = Some new_display"
    "en_displays e' y = Some dg \<Longrightarrow> y \<noteq> x \<Longrightarrow> display_dead dg"
    using first keep by (auto simp: e')
qed

lemma displays_ok_exec:
  assumes ok: "displays_ok e" and x: "en_displays e x = Some dg"
  shows "displays_ok (e\<lparr>en_displays := (en_displays e)(x \<mapsto> exec_display alloc op dg)\<rparr>)"
proof (rule displays_okI)
  fix y dh assume "en_displays (e\<lparr>en_displays := (en_displays e)(x \<mapsto> exec_display alloc op dg)\<rparr>) y = Some dh"
  then show "y < en_next (e\<lparr>en_displays := (en_displays e)(x \<mapsto> exec_display alloc op dg)\<rparr>) \<and>
     (display_dead dh \<or> en_activeDisplay (e\<lparr>en_displays := (en_displays e)(x \<mapsto> exec_display alloc op dg)\<rparr>) = Some y)"
    using displays_okD [OF ok, of y] x display_dead_exec by (cases "y = x") auto
qed

lemma enum_inv_open_display:
  assumes inv: "enum_inv alloc e"
  shows "enum_inv alloc (snd (openDisplay e))"
proof -
  obtain x e1 where run: "openDisplay e = (x, e1)" by (metis prod.exhaust)
  note spec = openDisplay_spec [OF displays_ok_inv [OF inv] run]
  have "enum_inv alloc e1" by (rule enum_inv_displays [OF inv spec (3,4) _ spec (1)]) (simp add: spec (5))
  then show ?thesis by (simp add: run)
qed

lemma enum_inv_close_display:
  assumes inv: "enum_inv alloc e"
  shows "enum_inv alloc (closeDisplay p e)"
  by (rule enum_inv_displays [OF inv _ _ _ displays_ok_close [OF displays_ok_inv [OF inv]]]) simp_all

lemma enum_inv_drop_display:
  assumes inv: "enum_inv alloc e"
  shows "enum_inv alloc (dropDisplay x e)"
proof (rule enum_inv_displays [OF inv])
  show "displays_ok (dropDisplay x e)"
    using displays_okD [OF displays_ok_inv [OF inv]]
    by (intro displays_okI) (simp add: dropDisplay_def split: if_splits)
qed (simp_all add: dropDisplay_def)

lemma enum_inv_display:
  assumes inv: "enum_inv alloc e" and x: "en_displays e x = Some dg"
  shows "enum_inv alloc (e\<lparr>en_displays := (en_displays e)(x \<mapsto> exec_display a op dg)\<rparr>)"
  by (rule enum_inv_displays [OF inv _ _ _ displays_ok_exec [OF displays_ok_inv [OF inv] x]]) simp_all

lemma enum_inv_step:
  assumes step: "enum_step alloc e e'" and inv: "enum_inv alloc e"
  shows "enum_inv alloc e'"
  using step
proof cases
  case es_open
  then show ?thesis using enum_inv_open [OF inv] by blast
next
  case es_close
  then show ?thesis using enum_inv_close (1) [OF inv] by blast
next
  case es_drop
  then show ?thesis using enum_inv_drop [OF inv] by blast
next
  case es_camera
  then show ?thesis using enum_inv_camera_step [OF inv] by simp
next
  case es_open_display
  then show ?thesis using enum_inv_open_display [OF inv] by simp
next
  case es_close_display
  then show ?thesis using enum_inv_close_display [OF inv] by simp
next
  case es_drop_display
  then show ?thesis using enum_inv_drop_display [OF inv] by simp
next
  case es_display
  then show ?thesis using enum_inv_display [OF inv] by simp
qed

lemma enum_inv_reachable: "enum_reachable alloc e \<Longrightarrow> enum_inv alloc e"
  by (induction rule: enum_reachable.induct) (auto intro: enum_inv_new enum_inv_step)

subsection \<open>Properties\<close>

lemma owner_unique:
  assumes inv: "enum_inv alloc e" and s: "en_cameras e x = Some s" "\<not> dead s"
    and t: "en_cameras e y = Some t" "\<not> dead t" and same: "cameraId_of s = cameraId_of t"
  shows "x = y"
proof -
  obtain k where k: "k < length (en_cameraList e)" "ids (en_cameraList e) ! k = cameraId_of s"
    "cr_active (en_cameraList e ! k) = Some x"
    using enum_inv_camera [OF inv s(1)] s(2) by (auto simp: owner_ok_def)
  obtain j where j: "j < length (en_cameraList e)" "ids (en_cameraList e) ! j = cameraId_of t"
    "cr_active (en_cameraList e ! j) = Some y"
    using enum_inv_camera [OF inv t(1)] t(2) by (auto simp: owner_ok_def)
  have "k = j"
    using find_record_distinct [OF enum_inv_distinct [OF inv] k(1)]
      find_record_distinct [OF enum_inv_distinct [OF inv] j(1)] k(2) j(2) same by simp
  then show ?thesis using k(3) j(3) by simp
qed

text \<open>
  C15: Each camera and the display have one owner. In every run of the enumerator, its clients and
  the capture threads, at most one camera object of an id is alive, and at most one display object;
  every earlier object has been forced into its dead state.
\<close>

theorem one_owner:
  assumes "enum_reachable alloc e"
  shows "(\<forall>x y s t. en_cameras e x = Some s \<and> en_cameras e y = Some t \<and> cameraId_of s = cameraId_of t \<and>
      cam_streamState (cs_camera s) \<noteq> DEAD \<and> cam_streamState (cs_camera t) \<noteq> DEAD \<longrightarrow> x = y) \<and>
    (\<forall>x y c d. en_displays e x = Some c \<and> en_displays e y = Some d \<and>
      disp_requestedState (fst (display_of c)) \<noteq> DS_DEAD \<and>
      disp_requestedState (fst (display_of d)) \<noteq> DS_DEAD \<longrightarrow> x = y)"
proof -
  note inv = enum_inv_reachable [OF assms]
  have cameras: "x = y" if "en_cameras e x = Some s" "en_cameras e y = Some t" "cameraId_of s = cameraId_of t"
    "cam_streamState (cs_camera s) \<noteq> DEAD" "cam_streamState (cs_camera t) \<noteq> DEAD" for x y s t
    using owner_unique [OF inv, of x s y t] that unfolding dead_def by blast
  have displays: "x = y" if d: "en_displays e x = Some c" "en_displays e y = Some d"
    "disp_requestedState (fst (display_of c)) \<noteq> DS_DEAD" "disp_requestedState (fst (display_of d)) \<noteq> DS_DEAD"
    for x y c d
  proof -
    have "en_activeDisplay e = Some x"
      using displays_okD [OF displays_ok_inv [OF inv] d(1)] d(3) unfolding display_dead_def by blast
    moreover have "en_activeDisplay e = Some y"
      using displays_okD [OF displays_ok_inv [OF inv] d(2)] d(4) unfolding display_dead_def by blast
    ultimately show ?thesis by simp
  qed
  show ?thesis
  proof (rule conjI)
    show "\<forall>x y s t. en_cameras e x = Some s \<and> en_cameras e y = Some t \<and> cameraId_of s = cameraId_of t \<and>
      cam_streamState (cs_camera s) \<noteq> DEAD \<and> cam_streamState (cs_camera t) \<noteq> DEAD \<longrightarrow> x = y"
      using cameras by metis
    show "\<forall>x y c d. en_displays e x = Some c \<and> en_displays e y = Some d \<and>
      disp_requestedState (fst (display_of c)) \<noteq> DS_DEAD \<and>
      disp_requestedState (fst (display_of d)) \<noteq> DS_DEAD \<longrightarrow> x = y"
      using displays by metis
  qed
qed

text \<open>The enumerator after a client opened a camera, and after a second one opened it too.\<close>

definition opened_once :: evs_enumerator where
  "opened_once = snd (the (openCamera [] ''LaneView'' new_EvsEnumerator))"

lemma opened_once: "openCamera [] ''LaneView'' new_EvsEnumerator = Some (Some 0, opened_once)"
  by (simp add: opened_once_def openCamera_def new_EvsEnumerator_def new_record_def kCameraName_Backup_def
      promote_def set_active_def)

lemma opened_once_reachable: "enum_reachable alloc opened_once" "all_serving opened_once"
proof -
  have "all_serving new_EvsEnumerator" by (simp add: all_serving_def new_EvsEnumerator_def)
  then show "enum_reachable alloc opened_once"
    using er_step [OF er_new es_open] opened_once by blast
  show "all_serving opened_once"
    by (simp add: opened_once_def openCamera_def new_EvsEnumerator_def new_record_def kCameraName_Backup_def
        promote_def set_active_def all_serving_def new_camera_system_def)
qed

lemma opened_once_camera: "en_cameras opened_once 0 = Some (new_camera_system ''LaneView'')"
  by (simp add: opened_once_def openCamera_def new_EvsEnumerator_def new_record_def kCameraName_Backup_def
      promote_def set_active_def)

theorem one_owner_witness:
  "{y. \<exists>t. en_cameras opened_once y = Some t \<and> cameraId_of t = ''LaneView'' \<and>
     cam_streamState (cs_camera t) \<noteq> DEAD} = {0}"
  using one_owner [OF opened_once_reachable (1)] opened_once_camera
  by (auto simp: cameraId_of_def new_camera_system_def new_EvsCamera_def Let_def)

lemma close_keeps:
  assumes "closeCamera oks p e = Some e1"
  shows "en_displays e1 = en_displays e" "length (en_cameraList e1) = length (en_cameraList e)"
    "map cr_desc (en_cameraList e1) = map cr_desc (en_cameraList e)"
    "p \<noteq> Some y \<Longrightarrow> en_cameras e1 y = en_cameras e y"
proof -
  have desc: "map cr_desc (rs[k := (rs ! k)\<lparr>cr_active := w\<rparr>]) = map cr_desc rs" for rs k w
    by (cases "k < length rs") (simp_all add: map_update list_update_beyond, metis length_map list_update_id nth_map)
  show "en_displays e1 = en_displays e" "length (en_cameraList e1) = length (en_cameraList e)"
    "map cr_desc (en_cameraList e1) = map cr_desc (en_cameraList e)"
    "p \<noteq> Some y \<Longrightarrow> en_cameras e1 y = en_cameras e y"
    using assms desc by (auto simp: closeCamera_def set_active_def split: option.splits if_splits)
qed

lemma closed_first_keeps:
  assumes inv: "enum_inv alloc e" and "all_serving e"
    and k: "find_record name (en_cameraList e) = Some k" and run: "closed_first oks k e = Some e1"
  shows "en_cameras e y = Some s \<Longrightarrow> cameraId_of s \<noteq> name \<Longrightarrow> en_cameras e1 y = Some s"
    "en_displays e1 = en_displays e"
    "map cr_desc (en_cameraList e1) = map cr_desc (en_cameraList e)"
    "length (en_cameraList e1) = length (en_cameraList e)"
proof -
  show "en_displays e1 = en_displays e"
    "map cr_desc (en_cameraList e1) = map cr_desc (en_cameraList e)"
    "length (en_cameraList e1) = length (en_cameraList e)"
    using run close_keeps by (auto simp: closed_first_def split: option.splits)
  assume s: "en_cameras e y = Some s" "cameraId_of s \<noteq> name"
  show "en_cameras e1 y = Some s"
  proof (cases "promote (en_cameras e) (cr_active (en_cameraList e ! k))")
    case None
    then show ?thesis using run s by (simp add: closed_first_def)
  next
    case (Some a)
    then have "closeCamera oks (Some a) e = Some e1" using run by (simp add: closed_first_def)
    moreover have "a \<noteq> y"
      using enum_inv_record [OF inv, of k a] find_record_Some [OF k] Some s by (auto simp: promote_Some)
    ultimately show ?thesis using close_keeps (4) s by fastforce
  qed
qed

text \<open>
  Opening a camera takes it over. Opening a known id hands out a new, stopped camera; every other
  object of that id is dead from then on and answers its client's calls with \<open>OWNERSHIP_LOST\<close>;
  cameras of other ids and the displays are untouched. An unknown id gives a null camera and changes
  nothing.
\<close>

theorem open_takes_over:
  assumes "enum_reachable alloc e" "all_serving e" "openCamera oks name e = Some (r, e')"
  shows "(name \<notin> set (map cd_cameraId (getCameraList e)) \<longrightarrow> r = None \<and> e' = e) \<and>
    (\<forall>x. r = Some x \<longrightarrow> en_cameras e x = None \<and> en_cameras e' x = Some (new_camera_system name) \<and>
      (\<forall>y s. y \<noteq> x \<and> en_cameras e' y = Some s \<and> cameraId_of s = name \<longrightarrow>
        cam_streamState (cs_camera s) = DEAD \<and>
        (\<forall>stream. fst (startVideoStream (alloc y) stream (cs_camera s, cs_gralloc s)) = OWNERSHIP_LOST) \<and>
        (\<forall>n. fst (setMaxFramesInFlight (alloc y) n (cs_camera s, cs_gralloc s)) = OWNERSHIP_LOST)) \<and>
      (\<forall>y s. en_cameras e y = Some s \<and> cameraId_of s \<noteq> name \<longrightarrow> en_cameras e' y = Some s) \<and>
      en_displays e' = en_displays e \<and> getCameraList e' = getCameraList e)"
proof (cases "find_record name (en_cameraList e)")
  case None
  then show ?thesis using None assms (3) by (simp add: openCamera_def)
next
  case (Some k)
  note inv = enum_inv_reachable [OF assms (1)]
  obtain e1 where first: "closed_first oks k e = Some e1" and r: "r = Some (en_next e1)"
    and e': "e' = e1\<lparr>en_cameraList := set_active k (Some (en_next e1)) (en_cameraList e1),
          en_cameras := (en_cameras e1)(en_next e1 \<mapsto> new_camera_system name), en_next := en_next e1 + 1\<rparr>"
    using assms (3) Some by (auto simp: openCamera_closed_first split: option.splits)
  note spec = closed_first_spec [OF inv assms (2) Some first]
  have known: "name \<in> set (map cd_cameraId (getCameraList e))"
    using find_record_Some [OF Some] by (auto simp: ids_def getCameraList_def intro: rev_image_eqI)
  have fresh: "en_cameras e (en_next e1) = None"
    using enum_inv_camera [OF inv, of "en_next e1"] spec (3) by (cases "en_cameras e (en_next e1)") auto
  note keep = closed_first_keeps [OF inv assms (2) Some first]
  have list: "getCameraList e' = getCameraList e"
    using keep (3) find_record_Some [OF Some] keep (4)
    by (simp add: e' getCameraList_def set_active_def map_update) (metis length_map list_update_id nth_map)
  have dead: "cam_streamState (cs_camera s) = DEAD"
    if "y \<noteq> en_next e1" "en_cameras e' y = Some s" "cameraId_of s = name" for y s
    using spec (5) [of y s] that by (simp add: e' dead_def)
  have other: "en_cameras e' y = Some s" if "en_cameras e y = Some s" "cameraId_of s \<noteq> name" for y s
    using keep (1) [OF that] fresh that by (auto simp: e')
  have lost: "fst (startVideoStream a stream (cs_camera s, cs_gralloc s)) = OWNERSHIP_LOST"
    "fst (setMaxFramesInFlight a n (cs_camera s, cs_gralloc s)) = OWNERSHIP_LOST"
    if "cam_streamState (cs_camera s) = DEAD" for a stream n s
    using that by (simp_all add: startVideoStream_def setMaxFramesInFlight_def)
  show ?thesis
    using known r fresh list other dead lost (1) [OF dead] lost (2) [OF dead] keep (2) by (auto simp: e')
qed

theorem open_takes_over_witness:
  "\<exists>e'. openCamera [] ''LaneView'' opened_once = Some (Some 1, e') \<and>
     (\<exists>s. en_cameras e' 0 = Some s \<and> cam_streamState (cs_camera s) = DEAD)"
proof -
  define e' where "e' = snd (the (openCamera [] ''LaneView'' opened_once))"
  have run: "openCamera [] ''LaneView'' opened_once = Some (Some 1, e')"
    and old: "en_cameras e' 0 \<noteq> None" "cameraId_of (the (en_cameras e' 0)) = ''LaneView''"
    by (simp_all add: e'_def opened_once_def openCamera_def new_EvsEnumerator_def new_record_def
        kCameraName_Backup_def promote_def set_active_def closeCamera_def cam_forceShutdown_def
        stop_begin_def after_stop_def shutdown_locked_def new_camera_system_def new_EvsCamera_def
        cameraId_of_def Let_def)
  then obtain s where s: "en_cameras e' 0 = Some s" "cameraId_of s = ''LaneView''" by auto
  have "cam_streamState (cs_camera s) = DEAD"
    using open_takes_over [OF opened_once_reachable (1) [of "\<lambda>_. numbered_alloc"] opened_once_reachable (2) run]
      s by auto
  then show ?thesis using run s by blast
qed

end
