(* ===== verification/HciTransport.thy ===== *)
theory HciTransport
  imports Prelude
begin

text \<open>
  The Bluetooth HCI transport (\<open>src/bluetooth/1.0/default\<close>): \<open>hci_packetizer.cc\<close> cuts the bytes of
  a UART into packets, \<open>h4_protocol.cc\<close> runs it behind a packet type byte, \<open>mct_protocol.cc\<close> on two
  descriptors, and \<open>hci_protocol.cc\<close> writes.

  Descriptors and reads are those of the prelude; each step takes the number \<open>avail\<close> of bytes that
  have arrived. The end of the list is the end of the file. \<open>None\<close> as a result is
  \<open>LOG_ALWAYS_FATAL\<close>. The callbacks are a list of the packets they got.
\<close>

type_synonym packet_type = nat

abbreviation HCI_PACKET_TYPE_UNKNOWN :: packet_type where "HCI_PACKET_TYPE_UNKNOWN \<equiv> 0"
abbreviation HCI_PACKET_TYPE_COMMAND :: packet_type where "HCI_PACKET_TYPE_COMMAND \<equiv> 1"
abbreviation HCI_PACKET_TYPE_ACL_DATA :: packet_type where "HCI_PACKET_TYPE_ACL_DATA \<equiv> 2"
abbreviation HCI_PACKET_TYPE_SCO_DATA :: packet_type where "HCI_PACKET_TYPE_SCO_DATA \<equiv> 3"
abbreviation HCI_PACKET_TYPE_EVENT :: packet_type where "HCI_PACKET_TYPE_EVENT \<equiv> 4"

definition HCI_PREAMBLE_SIZE_MAX :: nat where "HCI_PREAMBLE_SIZE_MAX = 4"

definition preamble_size_for_type :: "packet_type \<Rightarrow> nat" where
  "preamble_size_for_type t = [0, 3, 4, 3, 2] ! t"

definition packet_length_offset_for_type :: "packet_type \<Rightarrow> nat" where
  "packet_length_offset_for_type t = [0, 2, 2, 2, 1] ! t"

definition HciGetPacketLengthForType :: "packet_type \<Rightarrow> u8 list \<Rightarrow> nat" where
  "HciGetPacketLengthForType t preamble =
     (let offset = packet_length_offset_for_type t in
      if t \<noteq> HCI_PACKET_TYPE_ACL_DATA then unat (preamble ! offset)
      else unat (preamble ! (offset + 1)) * 256 + unat (preamble ! offset))"

subsection \<open>The packetizer\<close>

datatype packetizer_state = HCI_PREAMBLE | HCI_PAYLOAD

record packetizer =
  pk_state :: packetizer_state
  pk_preamble :: "u8 list"
  pk_packet :: "u8 list"
  pk_remaining :: nat
  pk_read :: nat

text \<open>The bytes of \<open>preamble_\<close> are not initialised; they are shown as zero.\<close>

definition new_packetizer :: packetizer where
  "new_packetizer = \<lparr>pk_state = HCI_PREAMBLE, pk_preamble = replicate HCI_PREAMBLE_SIZE_MAX 0,
     pk_packet = [], pk_remaining = 0, pk_read = 0\<rparr>"

text \<open>\<open>hidl_vec::resize\<close>\<close>

definition resize_vec :: "nat \<Rightarrow> u8 list \<Rightarrow> u8 list" where
  "resize_vec n xs = take n xs @ replicate (n - length xs) 0"

text \<open>\<open>HciPacketizer::OnDataReady\<close>: the packet the callback gets, if the packet is complete, the
  packetizer and the bytes left. The sleep after an end of file has no effect on the state.\<close>

definition packetizer_OnDataReady ::
  "packet_type \<Rightarrow> nat \<Rightarrow> packetizer \<times> u8 list \<Rightarrow> u8 list option \<times> packetizer \<times> u8 list" where
  "packetizer_OnDataReady t avail pi = (case pi of (p, inp) \<Rightarrow>
     let size = preamble_size_for_type t in
     case pk_state p of
       HCI_PREAMBLE \<Rightarrow>
         (case read_bytes (size - pk_read p) avail inp of (bs, inp) \<Rightarrow>
            if bs = [] then (None, p, inp)
            else
              let p = p\<lparr>pk_preamble := write_at (pk_read p) bs (pk_preamble p),
                        pk_read := pk_read p + length bs\<rparr> in
              if pk_read p = size then
                let packet_length = HciGetPacketLengthForType t (pk_preamble p) in
                (None, p\<lparr>pk_packet := write_at 0 (take size (pk_preamble p))
                                        (resize_vec (size + packet_length) (pk_packet p)),
                         pk_remaining := packet_length, pk_state := HCI_PAYLOAD, pk_read := 0\<rparr>, inp)
              else (None, p, inp))
     | HCI_PAYLOAD \<Rightarrow>
         (case read_bytes (pk_remaining p) avail inp of (bs, inp) \<Rightarrow>
            if bs = [] then (None, p, inp)
            else
              let p = p\<lparr>pk_packet := write_at (size + pk_read p) bs (pk_packet p),
                        pk_remaining := pk_remaining p - length bs,
                        pk_read := pk_read p + length bs\<rparr> in
              if pk_remaining p = 0
              then (Some (pk_packet p), p\<lparr>pk_state := HCI_PREAMBLE, pk_read := 0\<rparr>, inp)
              else (None, p, inp)))"

subsection \<open>H4\<close>

record h4_protocol =
  h4_type :: packet_type
  h4_packetizer :: packetizer
  h4_packets :: "(packet_type \<times> u8 list) list"

definition new_h4 :: h4_protocol where
  "new_h4 = \<lparr>h4_type = HCI_PACKET_TYPE_UNKNOWN, h4_packetizer = new_packetizer, h4_packets = []\<rparr>"

text \<open>\<open>OnPacketReady\<close>: the callback of the packet's type gets it.\<close>

definition h4_OnPacketReady :: "u8 list \<Rightarrow> h4_protocol \<Rightarrow> h4_protocol option" where
  "h4_OnPacketReady packet h =
     (if h4_type h = HCI_PACKET_TYPE_EVENT \<or> h4_type h = HCI_PACKET_TYPE_ACL_DATA \<or>
         h4_type h = HCI_PACKET_TYPE_SCO_DATA
      then Some (h\<lparr>h4_packets := h4_packets h @ [(h4_type h, packet)],
                   h4_type := HCI_PACKET_TYPE_UNKNOWN\<rparr>)
      else None)"

definition h4_OnDataReady :: "nat \<Rightarrow> h4_protocol \<times> u8 list \<Rightarrow> (h4_protocol \<times> u8 list) option" where
  "h4_OnDataReady avail hi = (case hi of (h, inp) \<Rightarrow>
     if h4_type h = HCI_PACKET_TYPE_UNKNOWN then
       (case read_bytes 1 avail inp of (bs, inp) \<Rightarrow>
          (case bs of [] \<Rightarrow> Some (h, inp)
           | b # _ \<Rightarrow>
               let t = unat b in
               if t \<noteq> HCI_PACKET_TYPE_ACL_DATA \<and> t \<noteq> HCI_PACKET_TYPE_SCO_DATA \<and> t \<noteq> HCI_PACKET_TYPE_EVENT
               then None else Some (h\<lparr>h4_type := t\<rparr>, inp)))
     else
       (case packetizer_OnDataReady (h4_type h) avail (h4_packetizer h, inp) of (ready, p, inp) \<Rightarrow>
          let h = h\<lparr>h4_packetizer := p\<rparr> in
          case ready of None \<Rightarrow> Some (h, inp)
          | Some packet \<Rightarrow> map_option (\<lambda>h. (h, inp)) (h4_OnPacketReady packet h)))"

text \<open>The fd watcher calls \<open>OnDataReady\<close> whenever there is something to read.\<close>

fun h4_run :: "nat list \<Rightarrow> h4_protocol \<times> u8 list \<Rightarrow> (h4_protocol \<times> u8 list) option" where
  "h4_run [] hi = Some hi"
| "h4_run (avail # as) (h, inp) =
     (if inp = [] then Some (h, inp)
      else case h4_OnDataReady avail (h, inp) of None \<Rightarrow> None | Some hi \<Rightarrow> h4_run as hi)"

subsection \<open>Mct\<close>

text \<open>Two descriptors, each with a packetizer of its own.\<close>

record mct_protocol =
  mct_event :: packetizer
  mct_acl :: packetizer
  mct_packets :: "(packet_type \<times> u8 list) list"

definition mct_OnEventDataReady :: "nat \<Rightarrow> mct_protocol \<times> u8 list \<Rightarrow> mct_protocol \<times> u8 list" where
  "mct_OnEventDataReady avail mi = (case mi of (m, inp) \<Rightarrow>
     case packetizer_OnDataReady HCI_PACKET_TYPE_EVENT avail (mct_event m, inp) of (ready, p, inp) \<Rightarrow>
       (m\<lparr>mct_event := p, mct_packets := mct_packets m @
            (case ready of None \<Rightarrow> [] | Some packet \<Rightarrow> [(HCI_PACKET_TYPE_EVENT, packet)])\<rparr>, inp))"

definition mct_OnAclDataReady :: "nat \<Rightarrow> mct_protocol \<times> u8 list \<Rightarrow> mct_protocol \<times> u8 list" where
  "mct_OnAclDataReady avail mi = (case mi of (m, inp) \<Rightarrow>
     case packetizer_OnDataReady HCI_PACKET_TYPE_ACL_DATA avail (mct_acl m, inp) of (ready, p, inp) \<Rightarrow>
       (m\<lparr>mct_acl := p, mct_packets := mct_packets m @
            (case ready of None \<Rightarrow> [] | Some packet \<Rightarrow> [(HCI_PACKET_TYPE_ACL_DATA, packet)])\<rparr>, inp))"

subsection \<open>Writing\<close>

text \<open>What a \<open>write\<close> does: it takes some of the bytes, or fails with \<open>EAGAIN\<close> or another error.\<close>

datatype write_outcome = Wrote nat | Again | Failed

text \<open>\<open>WriteSafely\<close>: the number of bytes transmitted and the bytes that reached the descriptor;
  \<open>None\<close> when the outcomes end before the loop does.\<close>

fun WriteSafely :: "write_outcome list \<Rightarrow> u8 list \<Rightarrow> (nat \<times> u8 list) option" where
  "WriteSafely outcomes [] = Some (0, [])"
| "WriteSafely [] (b # bs) = None"
| "WriteSafely (Again # os) (b # bs) = WriteSafely os (b # bs)"
| "WriteSafely (Failed # os) (b # bs) = Some (0, [])"
| "WriteSafely (Wrote n # os) (b # bs) =
     (let ret = min n (length (b # bs)) in
      if ret = 0 then Some (0, [])
      else map_option (\<lambda>(k, sent). (ret + k, take ret (b # bs) @ sent))
             (WriteSafely os (drop ret (b # bs))))"

text \<open>\<open>MctProtocol::Send\<close>: the descriptor (\<open>CH_CMD\<close> 0, \<open>CH_ACL_OUT\<close> 2) and what was written.\<close>

definition mct_Send :: "write_outcome list \<Rightarrow> packet_type \<Rightarrow> u8 list \<Rightarrow> (nat \<times> (nat \<times> u8 list) option) option" where
  "mct_Send outcomes t bytes =
     (if t = HCI_PACKET_TYPE_COMMAND then Some (0, WriteSafely outcomes bytes)
      else if t = HCI_PACKET_TYPE_ACL_DATA then Some (2, WriteSafely outcomes bytes)
      else None)"

text \<open>\<open>H4Protocol::Send\<close>: one \<open>writev\<close> of the type byte and the data, repeated on \<open>EAGAIN\<close> only; the
  result \<open>-1\<close> converted to \<open>size_t\<close> is shown as \<open>None\<close> in the first component.\<close>

fun h4_Send :: "write_outcome list \<Rightarrow> u8 \<Rightarrow> u8 list \<Rightarrow> (nat option \<times> u8 list) option" where
  "h4_Send [] t bytes = None"
| "h4_Send (Again # os) t bytes = h4_Send os t bytes"
| "h4_Send (Failed # os) t bytes = Some (None, [])"
| "h4_Send (Wrote n # os) t bytes =
     (let ret = min n (length (t # bytes)) in Some (Some ret, take ret (t # bytes)))"

subsection \<open>Packets on the wire\<close>

type_synonym hci_packet = "packet_type \<times> u8 list \<times> u8 list"

definition packet_ok :: "hci_packet \<Rightarrow> bool" where
  "packet_ok p \<longleftrightarrow> (case p of (t, hdr, payload) \<Rightarrow>
     t \<in> {HCI_PACKET_TYPE_ACL_DATA, HCI_PACKET_TYPE_SCO_DATA, HCI_PACKET_TYPE_EVENT} \<and>
     length hdr = preamble_size_for_type t \<and> HciGetPacketLengthForType t hdr = length payload \<and>
     payload \<noteq> [])"

definition wire :: "hci_packet \<Rightarrow> u8 list" where
  "wire p = (case p of (t, hdr, payload) \<Rightarrow> of_nat t # hdr @ payload)"

definition received :: "hci_packet \<Rightarrow> packet_type \<times> u8 list" where
  "received p = (case p of (t, hdr, payload) \<Rightarrow> (t, hdr @ payload))"

lemma length_resize [simp]: "length (resize_vec n xs) = n"
  by (simp add: resize_vec_def)

lemma packet_length_take:
  "t \<in> {2, 3, 4} \<Longrightarrow> HciGetPacketLengthForType t (take (preamble_size_for_type t) xs) = HciGetPacketLengthForType t xs"
  by (auto simp: HciGetPacketLengthForType_def preamble_size_for_type_def packet_length_offset_for_type_def)

lemma preamble_size_bounds: "t \<in> {2, 3, 4} \<Longrightarrow> 0 < preamble_size_for_type t \<and> preamble_size_for_type t \<le> 4"
  by (auto simp: preamble_size_for_type_def)

text \<open>The bytes of the current packet that have been read, and when they are consistent.\<close>

definition consumed :: "h4_protocol \<Rightarrow> u8 list" where
  "consumed h = (if h4_type h = HCI_PACKET_TYPE_UNKNOWN then []
     else of_nat (h4_type h) # (case pk_state (h4_packetizer h) of
        HCI_PREAMBLE \<Rightarrow> take (pk_read (h4_packetizer h)) (pk_preamble (h4_packetizer h))
      | HCI_PAYLOAD \<Rightarrow> take (preamble_size_for_type (h4_type h) + pk_read (h4_packetizer h))
          (pk_packet (h4_packetizer h))))"

definition h4_ok :: "h4_protocol \<Rightarrow> bool" where
  "h4_ok h \<longleftrightarrow> (let p = h4_packetizer h; t = h4_type h; size = preamble_size_for_type t in
     length (pk_preamble p) = 4 \<and>
     (if t = HCI_PACKET_TYPE_UNKNOWN then pk_state p = HCI_PREAMBLE \<and> pk_read p = 0
      else t \<in> {2, 3, 4} \<and> (case pk_state p of
          HCI_PREAMBLE \<Rightarrow> pk_read p < size
        | HCI_PAYLOAD \<Rightarrow> 0 < pk_remaining p \<and>
            length (pk_packet p) = size + pk_read p + pk_remaining p \<and>
            HciGetPacketLengthForType t (take size (pk_packet p)) = pk_read p + pk_remaining p)))"

lemma h4_ok_new: "h4_ok new_h4" "consumed new_h4 = []"
  by (simp_all add: h4_ok_def new_h4_def new_packetizer_def HCI_PREAMBLE_SIZE_MAX_def consumed_def)

definition h4_progress :: "h4_protocol \<times> u8 list \<Rightarrow> hci_packet list \<Rightarrow> h4_protocol \<times> u8 list \<Rightarrow> bool" where
  "h4_progress hi ps hi' \<longleftrightarrow> (case (hi, hi') of ((h, inp), (h', inp')) \<Rightarrow>
     h4_ok h' \<and> length inp' < length inp \<and>
     (\<exists>ps'. (\<forall>p\<in>set ps'. packet_ok p) \<and> consumed h' @ inp' = concat (map wire ps') \<and>
        h4_packets h' @ map received ps' = h4_packets h @ map received ps))"

text \<open>Reading the type byte.\<close>

lemma h4_step_type:
  assumes "h4_ok h" "h4_type h = 0" "packet_ok (t, hdr, pl)" "\<forall>p\<in>set qs. packet_ok p"
    "inp = wire (t, hdr, pl) @ concat (map wire qs)" "0 < avail"
  shows "\<exists>hi'. h4_OnDataReady avail (h, inp) = Some hi' \<and> h4_progress (h, inp) ((t, hdr, pl) # qs) hi'"
proof -
  let ?h = "h\<lparr>h4_type := t\<rparr>" and ?inp = "hdr @ pl @ concat (map wire qs)"
  have t: "t \<in> {2, 3, 4}" using assms (3) by (simp add: packet_ok_def)
  then have ut: "unat (of_nat t :: u8) = t" by auto
  have "h4_OnDataReady avail (h, inp) = Some (?h, ?inp)"
    using assms (2,5,6) t ut by (auto simp: h4_OnDataReady_def read_bytes_def wire_def min_def)
  moreover have "h4_progress (h, inp) ((t, hdr, pl) # qs) (?h, ?inp)"
    unfolding h4_progress_def split_conv
    using assms (1-5) t preamble_size_bounds [OF t]
    by (intro conjI exI [where x = "(t, hdr, pl) # qs"])
      (auto simp: h4_ok_def consumed_def wire_def Let_def)
  ultimately show ?thesis by blast
qed

text \<open>Reading the preamble.\<close>

lemma h4_step_preamble:
  assumes ok: "h4_ok h" and t: "h4_type h = t" "t \<noteq> 0" and st: "pk_state (h4_packetizer h) = HCI_PREAMBLE"
    and p: "packet_ok (t, hdr, pl)" and qs: "\<forall>p\<in>set qs. packet_ok p"
    and inp: "take (pk_read (h4_packetizer h)) (pk_preamble (h4_packetizer h)) @ inp = hdr @ pl @ concat (map wire qs)"
    and avail: "0 < avail" "inp \<noteq> []"
  shows "\<exists>hi'. h4_OnDataReady avail (h, inp) = Some hi' \<and> h4_progress (h, inp) ((t, hdr, pl) # qs) hi'"
proof -
  define size where "size = preamble_size_for_type t"
  define pk where "pk = h4_packetizer h"
  define n where "n = min (min (size - pk_read pk) avail) (length inp)"
  define bs where "bs = take n inp"
  define pre where "pre = write_at (pk_read pk) bs (pk_preamble pk)"
  have t3: "t \<in> {2, 3, 4}" and hdr: "length hdr = size" "HciGetPacketLengthForType t hdr = length pl" "pl \<noteq> []"
    using p by (simp_all add: packet_ok_def size_def)
  have rd: "pk_read pk < size" "length (pk_preamble pk) = 4" "size \<le> 4"
    using ok t st preamble_size_bounds [OF t3] by (simp_all add: h4_ok_def Let_def size_def pk_def)
  have n: "0 < n" "n \<le> size - pk_read pk" "n \<le> length inp" using rd avail by (auto simp: n_def)
  have bs: "length bs = n" "bs \<noteq> []" using n by (auto simp: bs_def)
  have read: "read_bytes (size - pk_read pk) avail inp = (bs, drop n inp)"
    by (simp add: read_bytes_def bs_def n_def min_def)
  have pre: "length pre = 4" "take (pk_read pk + n) pre = take (pk_read pk) (pk_preamble pk) @ bs"
    using take_write_at [of "pk_read pk" "pk_preamble pk" bs] length_write_at [of "pk_read pk" bs "pk_preamble pk"]
      rd n bs by (simp_all add: pre_def)
  define ps where "ps = (t, hdr, pl) # qs"
  have all: "\<forall>q\<in>set ps. packet_ok q" using p qs by (simp add: ps_def)
  have stream: "concat (map wire ps) = of_nat t # hdr @ pl @ concat (map wire qs)"
    by (simp add: ps_def wire_def)
  have upto: "take (pk_read pk + n) pre @ drop n inp = hdr @ pl @ concat (map wire qs)"
    using inp by (simp add: pre bs_def pk_def [symmetric])
  show ?thesis
  proof (cases "pk_read pk + n = size")
    case False
    let ?h = "h\<lparr>h4_packetizer := pk\<lparr>pk_preamble := pre, pk_read := pk_read pk + n\<rparr>\<rparr>"
    have "h4_OnDataReady avail (h, inp) = Some (?h, drop n inp)"
      using False t st read bs
      by (simp add: h4_OnDataReady_def packetizer_OnDataReady_def Let_def pk_def [symmetric] size_def [symmetric] pre_def)
    moreover have "h4_progress (h, inp) ps (?h, drop n inp)"
      unfolding h4_progress_def split_conv
      using t t3 st False n rd pre (1) all upto stream ok
      by (intro conjI exI [where x = ps])
        (auto simp: h4_ok_def consumed_def Let_def pk_def [symmetric] size_def [symmetric])
    ultimately show ?thesis by (auto simp: ps_def)
  next
    case True
    have full: "take size pre = hdr \<and> drop n inp = pl @ concat (map wire qs)"
      using upto hdr (1) pre (1) True rd (3) append_eq_append_conv [of "take size pre" hdr] by simp
    have shorter: "length (pl @ concat (map wire qs)) < length inp"
      unfolding conjunct2 [OF full, symmetric] using n by simp
    have len: "HciGetPacketLengthForType t pre = length pl"
      using packet_length_take [OF t3, of pre] full hdr (2) by (simp add: size_def)
    define packet where "packet = write_at 0 hdr (resize_vec (size + length pl) (pk_packet pk))"
    have packet: "length packet = size + length pl" "take size packet = hdr"
      using take_write_at [of 0 "resize_vec (size + length pl) (pk_packet pk)" hdr]
        length_write_at [of 0 hdr "resize_vec (size + length pl) (pk_packet pk)"] hdr
      by (simp_all add: packet_def)
    let ?h = "h\<lparr>h4_packetizer := pk\<lparr>pk_preamble := pre, pk_packet := packet, pk_remaining := length pl,
        pk_state := HCI_PAYLOAD, pk_read := 0\<rparr>\<rparr>"
    have "h4_OnDataReady avail (h, inp) = Some (?h, drop n inp)"
      using True t st read bs full len
      by (simp add: h4_OnDataReady_def packetizer_OnDataReady_def Let_def pk_def [symmetric] size_def [symmetric]
          pre_def [symmetric] packet_def)
    moreover have "h4_progress (h, inp) ps (?h, drop n inp)"
      unfolding h4_progress_def split_conv
      using t t3 st n pre (1) all full shorter stream packet hdr
      by (intro conjI exI [where x = ps])
        (auto simp: h4_ok_def consumed_def Let_def pk_def [symmetric] size_def [symmetric])
    ultimately show ?thesis by (auto simp: ps_def)
  qed
qed

text \<open>Reading the payload.\<close>

lemma h4_step_payload:
  assumes ok: "h4_ok h" and t: "h4_type h = t" "t \<noteq> 0" and st: "pk_state (h4_packetizer h) = HCI_PAYLOAD"
    and p: "packet_ok (t, hdr, pl)" and qs: "\<forall>p\<in>set qs. packet_ok p"
    and inp: "take (preamble_size_for_type t + pk_read (h4_packetizer h)) (pk_packet (h4_packetizer h)) @ inp =
      hdr @ pl @ concat (map wire qs)"
    and avail: "0 < avail" "inp \<noteq> []"
  shows "\<exists>hi'. h4_OnDataReady avail (h, inp) = Some hi' \<and> h4_progress (h, inp) ((t, hdr, pl) # qs) hi'"
proof -
  define size where "size = preamble_size_for_type t"
  define pk where "pk = h4_packetizer h"
  define n where "n = min (min (pk_remaining pk) avail) (length inp)"
  define bs where "bs = take n inp"
  define packet where "packet = write_at (size + pk_read pk) bs (pk_packet pk)"
  have t3: "t \<in> {2, 3, 4}" and hdr: "length hdr = size" "HciGetPacketLengthForType t hdr = length pl" "pl \<noteq> []"
    using p by (simp_all add: packet_ok_def size_def)
  have rd: "0 < pk_remaining pk" "length (pk_packet pk) = size + pk_read pk + pk_remaining pk"
    "HciGetPacketLengthForType t (take size (pk_packet pk)) = pk_read pk + pk_remaining pk"
    "length (pk_preamble pk) = 4"
    using ok t st by (simp_all add: h4_ok_def Let_def size_def pk_def)
  have old_hdr: "take size (pk_packet pk) = hdr"
  proof -
    have "take size (take (size + pk_read pk) (pk_packet pk) @ inp) = hdr"
      using inp hdr (1) by (simp add: size_def pk_def)
    then show ?thesis using rd (2) by (simp add: min_def)
  qed
  have len: "length pl = pk_read pk + pk_remaining pk" using rd (3) old_hdr hdr (2) by simp
  have n: "0 < n" "n \<le> pk_remaining pk" "n \<le> length inp" using rd avail by (auto simp: n_def)
  have bs: "length bs = n" "bs \<noteq> []" using n by (auto simp: bs_def)
  have read: "read_bytes (pk_remaining pk) avail inp = (bs, drop n inp)"
    by (simp add: read_bytes_def bs_def n_def min_def)
  have packet: "length packet = length (pk_packet pk)"
    "take (size + pk_read pk + n) packet = take (size + pk_read pk) (pk_packet pk) @ bs"
    using take_write_at [of "size + pk_read pk" "pk_packet pk" bs]
      length_write_at [of "size + pk_read pk" bs "pk_packet pk"] rd n bs
    by (simp_all add: packet_def)
  have upto: "take (size + pk_read pk + n) packet @ drop n inp = hdr @ pl @ concat (map wire qs)"
    using inp by (simp add: packet (2) bs_def pk_def [symmetric] size_def [symmetric])
  have keep_hdr: "take size packet = hdr"
    using arg_cong [OF packet (2), of "take size"] old_hdr rd (2) by (simp add: min_def)
  define ps where "ps = (t, hdr, pl) # qs"
  have all: "\<forall>q\<in>set ps. packet_ok q" using p qs by (simp add: ps_def)
  have stream: "concat (map wire ps) = of_nat t # hdr @ pl @ concat (map wire qs)"
    by (simp add: ps_def wire_def)
  show ?thesis
  proof (cases "pk_remaining pk = n")
    case False
    let ?h = "h\<lparr>h4_packetizer := pk\<lparr>pk_packet := packet, pk_remaining := pk_remaining pk - n,
        pk_read := pk_read pk + n\<rparr>\<rparr>"
    have "h4_OnDataReady avail (h, inp) = Some (?h, drop n inp)"
      using False t st read bs n
      by (simp add: h4_OnDataReady_def packetizer_OnDataReady_def Let_def pk_def [symmetric] size_def [symmetric] packet_def)
    moreover have "h4_progress (h, inp) ps (?h, drop n inp)"
      unfolding h4_progress_def split_conv
      using t t3 st False n rd packet keep_hdr all upto stream len hdr
      by (intro conjI exI [where x = ps])
        (auto simp: h4_ok_def consumed_def Let_def pk_def [symmetric] size_def [symmetric] add.assoc)
    ultimately show ?thesis by (auto simp: ps_def)
  next
    case True
    have "length packet = size + length pl" using packet (1) rd (2) len by simp
    then have full: "packet = hdr @ pl \<and> drop n inp = concat (map wire qs)"
      using upto True hdr (1) len append_eq_append_conv [of packet "hdr @ pl"] by (simp add: add.assoc)
    have shorter: "length (concat (map wire qs)) < length inp"
      unfolding conjunct2 [OF full, symmetric] using n by simp
    let ?h = "h\<lparr>h4_packetizer := pk\<lparr>pk_packet := packet, pk_remaining := 0, pk_state := HCI_PREAMBLE, pk_read := 0\<rparr>,
        h4_packets := h4_packets h @ [(t, packet)], h4_type := HCI_PACKET_TYPE_UNKNOWN\<rparr>"
    have "h4_OnDataReady avail (h, inp) = Some (?h, drop n inp)"
      using True t t3 st read bs
      by (auto simp: h4_OnDataReady_def packetizer_OnDataReady_def h4_OnPacketReady_def Let_def pk_def [symmetric]
          size_def [symmetric] packet_def)
    moreover have "h4_progress (h, inp) ps (?h, drop n inp)"
      unfolding h4_progress_def split_conv
      using n rd (4) qs full shorter
      by (intro conjI exI [where x = qs])
        (auto simp: h4_ok_def consumed_def Let_def pk_def [symmetric] ps_def received_def)
    ultimately show ?thesis by (auto simp: ps_def)
  qed
qed

text \<open>Any step while there is something to read.\<close>

lemma h4_step:
  assumes ok: "h4_ok h" and ps: "\<forall>p\<in>set ps. packet_ok p"
    and inp: "consumed h @ inp = concat (map wire ps)" and avail: "0 < avail" "inp \<noteq> []"
  shows "\<exists>hi'. h4_OnDataReady avail (h, inp) = Some hi' \<and> h4_progress (h, inp) ps hi'"
proof -
  have "ps \<noteq> []" using inp avail by auto
  then obtain t hdr pl qs where split: "ps = (t, hdr, pl) # qs" by (metis list.exhaust prod_cases3)
  have p: "packet_ok (t, hdr, pl)" and qs: "\<forall>p\<in>set qs. packet_ok p" using ps split by simp_all
  show ?thesis
  proof (cases "h4_type h = 0")
    case True
    then show ?thesis using h4_step_type [OF ok True p qs _ avail (1)] inp
      by (simp add: split consumed_def)
  next
    case False
    have "h4_type h \<in> {2, 3, 4}" "t \<in> {2, 3, 4}"
      using ok False p by (auto simp: h4_ok_def packet_ok_def Let_def)
    moreover have "(of_nat (h4_type h) :: u8) = of_nat t"
      using inp False by (simp add: split consumed_def wire_def)
    ultimately have t: "h4_type h = t" "t \<noteq> 0" by auto
    show ?thesis
      using h4_step_preamble [OF ok t _ p qs _ avail] h4_step_payload [OF ok t _ p qs _ avail] inp False
      by (cases "pk_state (h4_packetizer h)") (simp_all add: split consumed_def wire_def t)
  qed
qed

lemma h4_run_packets:
  assumes "h4_ok h" "\<forall>p\<in>set ps. packet_ok p" "consumed h @ inp = concat (map wire ps)"
    "\<forall>a\<in>set as. 0 < a"
  shows "\<exists>h' inp' ps'. h4_run as (h, inp) = Some (h', inp') \<and> h4_ok h' \<and>
    (\<forall>p\<in>set ps'. packet_ok p) \<and> consumed h' @ inp' = concat (map wire ps') \<and>
    h4_packets h' @ map received ps' = h4_packets h @ map received ps \<and>
    (inp' = [] \<or> length inp' + length as \<le> length inp)"
  using assms
proof (induction as arbitrary: h inp ps)
  case Nil
  then show ?case by auto
next
  case (Cons a as)
  show ?case
  proof (cases "inp = []")
    case True
    then show ?thesis using Cons.prems by auto
  next
    case False
    then obtain h1 inp1 where step: "h4_OnDataReady a (h, inp) = Some (h1, inp1)"
      "h4_progress (h, inp) ps (h1, inp1)"
      using h4_step [OF Cons.prems (1-3), of a] Cons.prems (4) by auto
    obtain ps1 where ps1: "h4_ok h1" "length inp1 < length inp" "\<forall>p\<in>set ps1. packet_ok p"
      "consumed h1 @ inp1 = concat (map wire ps1)"
      "h4_packets h1 @ map received ps1 = h4_packets h @ map received ps"
      using step (2) by (auto simp: h4_progress_def)
    obtain h' inp' ps' where "h4_run as (h1, inp1) = Some (h', inp')" "h4_ok h'" "\<forall>p\<in>set ps'. packet_ok p"
      "consumed h' @ inp' = concat (map wire ps')"
      "h4_packets h' @ map received ps' = h4_packets h1 @ map received ps1"
      "inp' = [] \<or> length inp' + length as \<le> length inp1"
      using Cons.IH [OF ps1 (1,3,4)] Cons.prems (4) by auto
    then show ?thesis using False step (1) ps1 (2,5) by (auto intro!: exI [where x = ps'])
  qed
qed

text \<open>The bytes read of the current packet are never a whole packet.\<close>

lemma consumed_incomplete:
  assumes ok: "h4_ok h" and p: "packet_ok p"
  shows "consumed h \<noteq> wire p @ xs"
proof
  assume eq: "consumed h = wire p @ xs"
  obtain t hdr pl where split: "p = (t, hdr, pl)" by (metis prod_cases3)
  have type: "h4_type h \<noteq> 0"
    using eq by (cases "h4_type h = 0") (simp_all add: consumed_def split wire_def)
  have "h4_type h \<in> {2, 3, 4}" "t \<in> {2, 3, 4}"
    using ok type p by (auto simp: h4_ok_def packet_ok_def split Let_def)
  moreover have "(of_nat (h4_type h) :: u8) = of_nat t"
    using eq type by (simp add: split consumed_def wire_def)
  ultimately have t: "h4_type h = t" "t \<noteq> 0" by auto
  have hdr: "length hdr = preamble_size_for_type t" "HciGetPacketLengthForType t hdr = length pl"
    using p by (simp_all add: packet_ok_def split)
  have len: "length (consumed h) = 1 + length hdr + length pl + length xs"
    using eq by (simp add: split wire_def)
  show False
  proof (cases "pk_state (h4_packetizer h)")
    case HCI_PREAMBLE
    then show False using len ok t hdr type
      by (auto simp: consumed_def h4_ok_def Let_def min_def split: if_splits)
  next
    case HCI_PAYLOAD
    have body: "take (length hdr + pk_read (h4_packetizer h)) (pk_packet (h4_packetizer h)) = hdr @ pl @ xs"
      using eq HCI_PAYLOAD type by (simp add: split consumed_def wire_def t hdr)
    have "take (length hdr) (pk_packet (h4_packetizer h)) = hdr"
      using arg_cong [OF body, of "take (length hdr)"] by (simp add: min_def)
    then have "length pl = pk_read (h4_packetizer h) + pk_remaining (h4_packetizer h)"
      using ok t hdr HCI_PAYLOAD by (simp add: h4_ok_def Let_def)
    then show False using len ok t hdr HCI_PAYLOAD by (simp add: consumed_def h4_ok_def Let_def)
  qed
qed

subsection \<open>Properties\<close>

text \<open>
  C16: The H4 reader recovers the packets of a stream however it arrives. A sequence of ACL, SCO and
  event packets with payloads, cut into reads in any way, is handed to the callbacks packet by
  packet, in order, each with its preamble and payload: after any number of reads what was handed
  over is a beginning of the sequence, and after as many reads as there are bytes, all of it. No
  such stream aborts the service.
\<close>

theorem h4_recovers_packets:
  assumes "\<forall>p\<in>set ps. packet_ok p" "\<forall>a\<in>set as. 0 < a"
  shows "\<exists>h rest. h4_run as (new_h4, concat (map wire ps)) = Some (h, rest) \<and>
    (\<exists>todo. map received ps = h4_packets h @ todo) \<and>
    (length (concat (map wire ps)) \<le> length as \<longrightarrow> rest = [] \<and> h4_packets h = map received ps)"
proof -
  obtain h rest ps' where run: "h4_run as (new_h4, concat (map wire ps)) = Some (h, rest)" "h4_ok h"
    "\<forall>p\<in>set ps'. packet_ok p" "consumed h @ rest = concat (map wire ps')"
    "h4_packets h @ map received ps' = map received ps"
    "rest = [] \<or> length rest + length as \<le> length (concat (map wire ps))"
    using h4_run_packets [OF h4_ok_new (1) assms (1) _ assms (2)] h4_ok_new (2)
    by (auto simp: new_h4_def)
  have "rest = [] \<and> h4_packets h = map received ps" if "length (concat (map wire ps)) \<le> length as"
  proof -
    have empty: "rest = []" using run (6) that by (cases rest) auto
    have "consumed h = concat (map wire ps')" using run (4) empty by simp
    then have "ps' = []" using run (3) consumed_incomplete [OF run (2)] by (cases ps') auto
    then show ?thesis using empty run (5) by simp
  qed
  then show ?thesis using run (1,5) by (metis)
qed

text \<open>An event and an ACL packet, read three bytes at a time.\<close>

definition sample_packets :: "hci_packet list" where
  "sample_packets = [(4, [0x0E, 2], [1, 3]), (2, [1, 0x20, 3, 0], [7, 8, 9])]"

theorem h4_recovers_packets_witness:
  "\<exists>h. h4_run (replicate 20 3) (new_h4, concat (map wire sample_packets)) = Some (h, []) \<and>
     h4_packets h = [(4, [0x0E, 2, 1, 3]), (2, [1, 0x20, 3, 0, 7, 8, 9])]"
proof -
  have "\<forall>p\<in>set sample_packets. packet_ok p"
    by (simp add: sample_packets_def packet_ok_def preamble_size_for_type_def HciGetPacketLengthForType_def
        packet_length_offset_for_type_def)
  from h4_recovers_packets [OF this, of "replicate 20 3"] show ?thesis
    by (auto simp: sample_packets_def wire_def received_def)
qed

text \<open>
  A packet without a payload derails the H4 reader. After its preamble the packetizer waits for
  zero payload bytes, takes the empty read for the end of the file, and does so at every later call:
  nothing more is read, whatever arrives, although such packets are valid in HCI.
\<close>

theorem empty_payload_stalls:
  assumes "pk_state (h4_packetizer h) = HCI_PREAMBLE" "h4_type h = t" "t \<in> {2, 3, 4}"
    and "pk_read (h4_packetizer h) = 0" "length (pk_preamble (h4_packetizer h)) = 4"
    and "length hdr = preamble_size_for_type t" "HciGetPacketLengthForType t hdr = 0"
    and "preamble_size_for_type t \<le> a"
  shows "\<exists>h'. h4_packets h' = h4_packets h \<and> h4_run (a # as) (h, hdr @ later) = Some (h', later)"
proof -
  define pk where "pk = h4_packetizer h"
  define pre where "pre = write_at 0 hdr (pk_preamble pk)"
  define packet where "packet = write_at 0 (take (length hdr) pre) (resize_vec (length hdr) (pk_packet pk))"
  define h' where "h' = h\<lparr>h4_packetizer := pk\<lparr>pk_preamble := pre, pk_packet := packet, pk_remaining := 0,
    pk_state := HCI_PAYLOAD, pk_read := 0\<rparr>\<rparr>"
  have "0 < length hdr" using assms (3,6) preamble_size_bounds by simp
  then have ne: "hdr \<noteq> []" by simp
  have pre: "take (length hdr) pre = hdr" using take_write_at [of 0 "pk_preamble pk" hdr] by (simp add: pre_def)
  have len: "HciGetPacketLengthForType t pre = 0"
    using packet_length_take [OF assms (3), of pre] pre assms (6,7) by simp
  have t0: "t \<noteq> 0" using assms (3) by auto
  have read: "read_bytes (length hdr) a (hdr @ later) = (hdr, later)"
    using assms (6,8) by (simp add: read_bytes_def min_def)
  have first: "h4_OnDataReady a (h, hdr @ later) = Some (h', later)"
    using assms (1,2,4) ne read len t0
    by (simp add: h4_OnDataReady_def packetizer_OnDataReady_def assms (6) [symmetric] Let_def pk_def [symmetric]
        pre_def [symmetric] packet_def h'_def)
  have stuck: "h4_OnDataReady b (h', inp) = Some (h', inp)" for b inp
    using assms (2) t0 by (simp add: h4_OnDataReady_def packetizer_OnDataReady_def h'_def read_bytes_def)
  have "h4_run bs (h', inp) = Some (h', inp)" for bs inp
    by (induction bs) (simp_all add: stuck)
  then have "h4_run (a # as) (h, hdr @ later) = Some (h', later)" using first ne by simp
  moreover have "h4_packets h' = h4_packets h" by (simp add: h'_def)
  ultimately show ?thesis by blast
qed

text \<open>A vendor event of no parameters, then a whole command-complete event.\<close>

theorem empty_payload_stalls_witness:
  "\<exists>h'. h4_packets h' = [] \<and>
     h4_run [2, 1, 2, 2] (new_h4\<lparr>h4_type := 4\<rparr>, [0xFF, 0] @ [4, 0x0E, 2, 1, 3]) = Some (h', [4, 0x0E, 2, 1, 3])"
  using empty_payload_stalls [of "new_h4\<lparr>h4_type := 4\<rparr>" 4 "[0xFF, 0]" 2 "[1, 2, 2]" "[4, 0x0E, 2, 1, 3]"]
  by (simp add: new_h4_def new_packetizer_def HCI_PREAMBLE_SIZE_MAX_def preamble_size_for_type_def
      HciGetPacketLengthForType_def packet_length_offset_for_type_def)

text \<open>\<open>WriteSafely\<close> sends a beginning of the data and reports its length; all of it when no write fails.\<close>

lemma WriteSafely_prefix:
  "WriteSafely outcomes bs = Some (k, sent) \<Longrightarrow> sent = take k bs \<and> k \<le> length bs \<and>
     (Failed \<notin> set outcomes \<and> Wrote 0 \<notin> set outcomes \<longrightarrow> k = length bs)"
proof (induction outcomes bs arbitrary: k sent rule: WriteSafely.induct)
  case (5 n os b bs)
  show ?case
  proof (cases "min n (length (b # bs)) = 0")
    case False
    define ret where "ret = min n (length (b # bs))"
    obtain k' sent' where rec: "WriteSafely os (drop ret (b # bs)) = Some (k', sent')"
      "k = ret + k'" "sent = take ret (b # bs) @ sent'"
      using 5 (2) False by (auto simp: Let_def ret_def split: if_splits)
    have "ret \<le> length (b # bs)" by (simp add: ret_def)
    moreover have "sent' = take k' (drop ret (b # bs)) \<and> k' \<le> length (drop ret (b # bs)) \<and>
        (Failed \<notin> set os \<and> Wrote 0 \<notin> set os \<longrightarrow> k' = length (drop ret (b # bs)))"
      using 5 (1) [OF refl _ rec (1) [unfolded ret_def]] False by (simp add: ret_def)
    ultimately show ?thesis using rec (2,3) by (auto simp: take_add)
  qed (use 5 in auto)
qed auto

end
