(* ===== verification/BluetoothAddress.thy ===== *)
theory BluetoothAddress
  imports Prelude "HOL-Library.Word"
begin

text \<open>
  Bluetooth addresses (\<open>bluetooth/1.0/default/bluetooth_address.cc\<close>): printing, parsing, and where the
  address of the device comes from.

  A C string is the list of its characters before the terminating zero. Parsing goes through \<open>sscanf\<close>,
  whose \<open>%02hhx\<close> skips white space, takes a sign into its two characters, and needs one digit. What the
  property service and the file system hold is a parameter; a file is what one \<open>read\<close> gives of it.
\<close>

subsection \<open>Strings\<close>

definition kStringLength :: nat where
  "kStringLength = 17"

definition kBytes :: nat where
  "kBytes = (kStringLength + 1) div 3"

definition hex_digit :: "nat \<Rightarrow> char" where
  "hex_digit n = ''0123456789abcdef'' ! n"

definition hex2 :: "8 word \<Rightarrow> string" where
  "hex2 b = [hex_digit (unat b div 16), hex_digit (unat b mod 16)]"

fun bytes_to_string :: "8 word list \<Rightarrow> string" where
  "bytes_to_string [] = []"
| "bytes_to_string [b] = hex2 b"
| "bytes_to_string (b # bs) = hex2 b @ '':'' @ bytes_to_string bs"

definition isspace :: "char \<Rightarrow> bool" where
  "isspace c \<longleftrightarrow> (of_char c :: nat) \<in> {9, 10, 11, 12, 13, 32}"

definition hexval :: "char \<Rightarrow> nat option" where
  "hexval c = (let n = (of_char c :: nat) in
     if 48 \<le> n \<and> n \<le> 57 then Some (n - 48)
     else if 97 \<le> n \<and> n \<le> 102 then Some (n - 87)
     else if 65 \<le> n \<and> n \<le> 70 then Some (n - 55)
     else None)"

fun scan_digits :: "nat \<Rightarrow> nat \<Rightarrow> string \<Rightarrow> nat \<times> string" where
  "scan_digits (Suc w) v (c # cs) = (case hexval c of None \<Rightarrow> (v, c # cs) | Some d \<Rightarrow> scan_digits w (16 * v + d) cs)"
| "scan_digits _ v cs = (v, cs)"

definition scan_byte :: "string \<Rightarrow> (8 word \<times> string) option" where
  "scan_byte s =
     (let s = dropWhile isspace s;
          neg = (s \<noteq> [] \<and> hd s = CHR ''-'');
          plus = (s \<noteq> [] \<and> hd s = CHR ''+'');
          digits = (if neg \<or> plus then tl s else s)
      in case scan_digits (if neg \<or> plus then 1 else 2) 0 digits of (v, rest) \<Rightarrow>
        if length rest = length digits then None
        else Some (if neg then - of_nat v else of_nat v, rest))"

text \<open>The number of conversions that \<open>sscanf\<close> reports, and the bytes it has overwritten.\<close>

fun scan_address :: "nat \<Rightarrow> nat \<Rightarrow> 8 word list \<Rightarrow> string \<Rightarrow> nat \<times> 8 word list" where
  "scan_address 0 i addr s = (if s = [] then i else Suc i, addr)"
| "scan_address (Suc k) i addr s =
     (case scan_byte s of
        None \<Rightarrow> (i, addr)
      | Some (b, rest) \<Rightarrow>
          if k = 0 then scan_address k (Suc i) (addr[i := b]) rest
          else if rest \<noteq> [] \<and> hd rest = CHR '':'' then scan_address k (Suc i) (addr[i := b]) (tl rest)
          else (Suc i, addr[i := b]))"

definition string_to_bytes :: "string option \<Rightarrow> 8 word list \<Rightarrow> bool \<times> 8 word list" where
  "string_to_bytes addr_str addr =
     (case addr_str of
        None \<Rightarrow> (False, addr)
      | Some s \<Rightarrow>
          if min (length s) kStringLength \<noteq> kStringLength then (False, addr)
          else case scan_address 6 0 addr s of (n, addr) \<Rightarrow> (n = kBytes, addr))"

subsection \<open>The address of the device\<close>

record bt_env =
  be_property :: "string \<Rightarrow> string" \<comment> \<open>empty when it is not set\<close>
  be_read :: "string \<Rightarrow> string option option" \<comment> \<open>\<open>None\<close> when it cannot be opened, \<open>Some None\<close> when \<open>read\<close> fails\<close>

definition try_file :: "bt_env \<Rightarrow> 8 word list \<Rightarrow> bool \<times> 8 word list" where
  "try_file env addr =
     (let path = be_property env ''ro.bt.bdaddr_path'' in
      if path = [] then (False, addr)
      else case be_read env path of
        None \<Rightarrow> (False, addr)
      | Some bytes \<Rightarrow>
          let address = takeWhile (\<lambda>c. of_char c \<noteq> (0 :: nat)) (take kStringLength (case bytes of None \<Rightarrow> [] | Some s \<Rightarrow> s))
          in case string_to_bytes (Some address) addr of (ok, addr) \<Rightarrow>
            (ok \<and> addr \<noteq> replicate kBytes 0, addr))"

definition try_property :: "bt_env \<Rightarrow> string \<Rightarrow> 8 word list \<Rightarrow> bool \<times> 8 word list" where
  "try_property env key addr =
     (if be_property env key = [] then (False, addr) else string_to_bytes (Some (be_property env key)) addr)"

definition get_local_address :: "bt_env \<Rightarrow> 8 word list \<Rightarrow> bool \<times> 8 word list" where
  "get_local_address env addr =
     (case try_file env addr of (ok, addr) \<Rightarrow>
      if ok then (True, addr)
      else case try_property env ''ro.boot.btmacaddr'' addr of (ok, addr) \<Rightarrow>
      if ok then (True, addr)
      else case try_property env ''persist.service.bdroid.bdaddr'' addr of (ok, addr) \<Rightarrow>
      if ok then (True, addr) else (False, addr))"

subsection \<open>Printed addresses can be parsed\<close>

lemma hex_digit_facts:
  assumes "n < 16"
  shows "hexval (hex_digit n) = Some n" "\<not> isspace (hex_digit n)" "hex_digit n \<noteq> CHR ''-''" "hex_digit n \<noteq> CHR ''+''"
proof -
  have "list_all (\<lambda>n. hexval (hex_digit n) = Some n \<and> \<not> isspace (hex_digit n) \<and> hex_digit n \<noteq> CHR ''-'' \<and>
      hex_digit n \<noteq> CHR ''+'') [0..<16]" by code_simp
  then show "hexval (hex_digit n) = Some n" "\<not> isspace (hex_digit n)" "hex_digit n \<noteq> CHR ''-''" "hex_digit n \<noteq> CHR ''+''"
    using assms by (simp_all add: list_all_iff)
qed

lemma scan_byte_hex2: "scan_byte (hex2 b @ rest) = Some (b, rest)"
proof -
  have "unat b < 256" using unsigned_less [of b, where ?'a = nat] by simp
  then have n: "unat b div 16 < 16" "unat b mod 16 < 16" by auto
  have "16 * (unat b div 16) + unat b mod 16 = unat b" by simp
  moreover have "(of_nat (unat b) :: 8 word) = b" by simp
  ultimately have "(of_nat (16 * (unat b div 16) + unat b mod 16) :: 8 word) = b" by (simp only:)
  then show ?thesis using hex_digit_facts [OF n(1)] hex_digit_facts [OF n(2)]
    by (simp add: scan_byte_def hex2_def Let_def numeral_2_eq_2 del: of_nat_add of_nat_mult)
qed

lemma six_bytes: "length a = 6 \<Longrightarrow> \<exists>b0 b1 b2 b3 b4 b5. a = [b0, b1, b2, b3, b4, b5]"
  by (auto simp: length_Suc_conv numeral_eq_Suc)

theorem address_text_roundtrip:
  assumes "length a = 6" "length old = 6"
  shows "length (bytes_to_string a) = 17 \<and> string_to_bytes (Some (bytes_to_string a)) old = (True, a)"
proof -
  obtain b0 b1 b2 b3 b4 b5 where a: "a = [b0, b1, b2, b3, b4, b5]" using six_bytes [OF assms(1)] by blast
  obtain c0 c1 c2 c3 c4 c5 where old: "old = [c0, c1, c2, c3, c4, c5]" using six_bytes [OF assms(2)] by blast
  have len: "length (bytes_to_string a) = 17" by (simp add: a hex2_def)
  have scan: "scan_byte (hex2 b) = Some (b, [])" for b using scan_byte_hex2 [of b "[]"] by simp
  have "scan_address 6 0 old (bytes_to_string a) = (6, a)"
    by (simp add: a old scan_byte_hex2 scan numeral_eq_Suc)
  then show ?thesis using len by (simp add: string_to_bytes_def kStringLength_def kBytes_def)
qed

subsection \<open>Which address is taken\<close>

lemma scan_address_length: "length (snd (scan_address k i addr s)) = length addr"
  by (induction k i addr s rule: scan_address.induct) (auto split: option.splits)

lemma scan_address_count: "fst (scan_address k i addr s) \<le> Suc (i + k)"
  by (induction k i addr s rule: scan_address.induct) (auto split: option.splits)

text \<open>When all bytes were converted, nothing of the old content is left.\<close>

lemma scan_address_complete:
  "fst (scan_address k i addr s) = i + k \<Longrightarrow> length addr = i + k \<Longrightarrow> length addr' = i + k \<Longrightarrow> take i addr = take i addr' \<Longrightarrow>
    scan_address k i addr s = scan_address k i addr' s"
proof (induction k i addr s arbitrary: addr' rule: scan_address.induct)
  case (1 i addr s)
  then show ?case by simp
next
  case (2 k i addr s)
  then obtain b rest where scan: "scan_byte s = Some (b, rest)" by (auto split: option.splits)
  have take: "take (Suc i) (addr[i := b]) = take (Suc i) (addr'[i := b])"
    using 2(4-6) by (simp add: take_Suc_conv_app_nth)
  show ?case
  proof (cases "k = 0")
    case True
    then have "take (Suc i) addr = addr" "take (Suc i) addr' = addr'" using 2(4,5) by simp_all
    then have "addr[i := b] = addr'[i := b]" using take 2(4,5) True by simp
    then show ?thesis using scan True by simp
  next
    case False
    then show ?thesis
      using 2(2) [OF scan refl False, of "addr'[i := b]"] 2(3-5) take scan by (auto split: if_splits)
  qed
qed

definition parsed :: "string \<Rightarrow> 8 word list option" where
  "parsed s = (case string_to_bytes (Some s) (replicate kBytes 0) of (ok, addr) \<Rightarrow> if ok then Some addr else None)"

lemma string_to_bytes_parsed:
  assumes "length addr = 6"
  shows "\<exists>addr'. string_to_bytes (Some s) addr = (parsed s \<noteq> None, addr') \<and> length addr' = 6 \<and>
    (\<forall>a. parsed s = Some a \<longrightarrow> addr' = a)"
proof -
  have agree: "scan_address 6 0 x s = scan_address 6 0 y s" if "fst (scan_address 6 0 x s) = 6" "length x = 6" "length y = 6"
    for x y using scan_address_complete [of 6 0 x s y] that by simp
  have zeros: "length (replicate kBytes (0 :: 8 word)) = 6" by (simp add: kBytes_def kStringLength_def)
  have kb: "kBytes = 6" by (simp add: kBytes_def kStringLength_def)
  consider "\<not> 17 \<le> length s" | "17 \<le> length s" "fst (scan_address 6 0 addr s) = 6"
    | "17 \<le> length s" "fst (scan_address 6 0 addr s) \<noteq> 6" by blast
  then show ?thesis
  proof cases
    case 2
    then show ?thesis using agree [OF 2(2) assms zeros] scan_address_length [of 6 0 addr s] assms kb
      by (auto simp: parsed_def string_to_bytes_def kStringLength_def split: prod.splits)
  next
    case 3
    then have "fst (scan_address 6 0 (replicate kBytes 0) s) \<noteq> 6" using agree [OF _ zeros assms] by metis
    then show ?thesis using 3 scan_address_length [of 6 0 addr s] assms kb
      by (auto simp: parsed_def string_to_bytes_def kStringLength_def split: prod.splits)
  qed (use assms in \<open>simp add: parsed_def string_to_bytes_def kStringLength_def\<close>)
qed

text \<open>
  The file named by the first property has precedence unless its address is all zeros, then comes the
  factory property, and the stored address only last. The header has the last two the other way round.
\<close>

definition file_address :: "bt_env \<Rightarrow> 8 word list option" where
  "file_address env =
     (case be_read env (be_property env ''ro.bt.bdaddr_path'') of
        Some (Some s) \<Rightarrow>
          if be_property env ''ro.bt.bdaddr_path'' = [] then None
          else (case parsed (takeWhile (\<lambda>c. of_char c \<noteq> (0 :: nat)) (take 17 s)) of
            Some a \<Rightarrow> if a = replicate 6 0 then None else Some a | None \<Rightarrow> None)
      | _ \<Rightarrow> None)"

lemma parsed_empty: "parsed [] = None"
  by (simp add: parsed_def string_to_bytes_def kStringLength_def)

lemma try_file_address:
  assumes "length addr = 6"
  shows "\<exists>addr'. try_file env addr = (file_address env \<noteq> None, addr') \<and> length addr' = 6 \<and>
    (\<forall>a. file_address env = Some a \<longrightarrow> addr' = a)"
proof (cases "be_property env ''ro.bt.bdaddr_path'' = [] \<or> be_read env (be_property env ''ro.bt.bdaddr_path'') = None")
  case True
  then show ?thesis using assms by (auto simp: try_file_def file_address_def Let_def split: option.splits)
next
  case False
  then obtain bytes where bytes: "be_read env (be_property env ''ro.bt.bdaddr_path'') = Some bytes" by blast
  define s where "s = takeWhile (\<lambda>c. of_char c \<noteq> (0 :: nat)) (take 17 (case bytes of None \<Rightarrow> [] | Some s \<Rightarrow> s))"
  obtain addr' where a: "string_to_bytes (Some s) addr = (parsed s \<noteq> None, addr')" "length addr' = 6"
    "\<forall>a. parsed s = Some a \<longrightarrow> addr' = a" using string_to_bytes_parsed [OF assms, of s] by blast
  have "try_file env addr = (parsed s \<noteq> None \<and> addr' \<noteq> replicate 6 0, addr')"
    using False bytes a(1) unfolding try_file_def s_def by (simp add: Let_def kStringLength_def kBytes_def)
  moreover have "file_address env = (case parsed s of Some a \<Rightarrow> if a = replicate 6 0 then None else Some a | None \<Rightarrow> None)"
    using False bytes by (cases bytes) (simp_all add: file_address_def s_def parsed_empty)
  ultimately show ?thesis using a(2,3) by (cases "parsed s") auto
qed

lemma try_property_parsed:
  assumes "length addr = 6"
  shows "\<exists>addr'. try_property env key addr = (parsed (be_property env key) \<noteq> None, addr') \<and> length addr' = 6 \<and>
    (\<forall>a. parsed (be_property env key) = Some a \<longrightarrow> addr' = a)"
  using string_to_bytes_parsed [OF assms, of "be_property env key"] assms
  by (cases "be_property env key = []") (auto simp: try_property_def parsed_empty)

theorem local_address_sources:
  assumes "length addr = 6"
  shows "\<exists>addr'. get_local_address env addr =
    (case file_address env of Some a \<Rightarrow> (True, a)
     | None \<Rightarrow> case parsed (be_property env ''ro.boot.btmacaddr'') of Some a \<Rightarrow> (True, a)
     | None \<Rightarrow> case parsed (be_property env ''persist.service.bdroid.bdaddr'') of Some a \<Rightarrow> (True, a)
     | None \<Rightarrow> (False, addr'))"
proof -
  obtain a1 where 1: "try_file env addr = (file_address env \<noteq> None, a1)" "length a1 = 6"
    "\<forall>a. file_address env = Some a \<longrightarrow> a1 = a" using try_file_address [OF assms] by blast
  obtain a2 where 2: "try_property env ''ro.boot.btmacaddr'' a1 = (parsed (be_property env ''ro.boot.btmacaddr'') \<noteq> None, a2)"
    "length a2 = 6" "\<forall>a. parsed (be_property env ''ro.boot.btmacaddr'') = Some a \<longrightarrow> a2 = a"
    using try_property_parsed [OF 1(2)] by blast
  obtain a3 where 3: "try_property env ''persist.service.bdroid.bdaddr'' a2 =
      (parsed (be_property env ''persist.service.bdroid.bdaddr'') \<noteq> None, a3)"
    "\<forall>a. parsed (be_property env ''persist.service.bdroid.bdaddr'') = Some a \<longrightarrow> a3 = a"
    using try_property_parsed [OF 2(2)] by blast
  show ?thesis using 1 2 3 by (auto simp: get_local_address_def split: option.splits)
qed

text \<open>A string with a sign passes as an address.\<close>

lemma signed_address_parsed: "parsed ''-1:02:03:04:05:06'' = Some [255, 2, 3, 4, 5, 6]"
  by code_simp

end
