(* ===== verification/WifiCombos.thy ===== *)
theory WifiCombos
  imports Prelude "HOL-Library.Monad_Syntax"
begin

text \<open>
  The interface combinations of a Wi-Fi chip (\<open>wifi/1.3/default/wifi_chip.cpp\<close>): the mode table,
  the expansion of a combination into all the ways its limits can be used, and the checks that a
  set of interfaces fits into one of them. The expansion works with 32-bit counters, so its
  product can wrap around; a limit with an empty type list makes it divide by zero, which is the
  result \<open>None\<close>. The main lemma is that the expansion is exactly the list of all choices of one
  type per slot (\<open>expand_eq\<close>), in lexicographic order.
\<close>

subsection \<open>Data\<close>

datatype IfaceType = STA | AP | P2P | NAN

record ChipIfaceCombinationLimit =
  cl_types :: "IfaceType list"
  cl_maxIfaces :: u32

type_synonym ChipIfaceCombination = "ChipIfaceCombinationLimit list"

record ChipMode =
  cm_id :: u32
  cm_availableCombinations :: "ChipIfaceCombination list"

text \<open>A \<open>std::map\<close> with an entry for each of the four types.\<close>

type_synonym iface_counts = "IfaceType \<Rightarrow> nat"

definition kInvalid :: u32 where "kInvalid = 0xFFFFFFFF"
definition kV1Sta :: u32 where "kV1Sta = 0"
definition kV1Ap :: u32 where "kV1Ap = 1"
definition kV3 :: u32 where "kV3 = 3"

definition all_types :: "IfaceType list" where
  "all_types = [AP, NAN, P2P, STA]"

subsection \<open>The expansion\<close>

fun count_loop :: "nat \<Rightarrow> nat \<Rightarrow> u32 \<Rightarrow> u32" where
  "count_loop 0 n_types num = num"
| "count_loop (Suc i) n_types num = count_loop i n_types (num * of_nat n_types)"

definition num_expanded_combos :: "ChipIfaceCombination \<Rightarrow> u32" where
  "num_expanded_combos combination =
     foldl (\<lambda>num limit. count_loop (unat (cl_maxIfaces limit)) (length (cl_types limit)) num) 1 combination"

definition count_choice :: "nat \<Rightarrow> IfaceType list \<Rightarrow> nat \<Rightarrow> iface_counts \<Rightarrow> iface_counts" where
  "count_choice span types k combo =
     (let iface_type = types ! (k div span mod length types)
      in combo(iface_type := combo iface_type + 1))"

fun limit_loop ::
  "nat \<Rightarrow> IfaceType list \<Rightarrow> nat \<times> iface_counts list \<Rightarrow> (nat \<times> iface_counts list) option" where
  "limit_loop 0 types sc = Some sc"
| "limit_loop (Suc i) types (span, combos) =
     (if types = [] then None
      else
        let span = span div length types in
        if span = 0 \<and> combos \<noteq> [] then None
        else limit_loop i types (span, map2 (count_choice span types) [0..<length combos] combos))"

fun limits_loop ::
  "ChipIfaceCombination \<Rightarrow> nat \<times> iface_counts list \<Rightarrow> (nat \<times> iface_counts list) option" where
  "limits_loop [] sc = Some sc"
| "limits_loop (limit # limits) sc =
     do { sc \<leftarrow> limit_loop (unat (cl_maxIfaces limit)) (cl_types limit) sc; limits_loop limits sc }"

definition expandIfaceCombinations :: "ChipIfaceCombination \<Rightarrow> iface_counts list option" where
  "expandIfaceCombinations combination =
     (let num = unat (num_expanded_combos combination)
      in map_option snd (limits_loop combination (num, replicate num (\<lambda>_. 0))))"

subsection \<open>The checks\<close>

text \<open>
  The check of one expanded combination against the interfaces that exist and one more of the
  requested type, and against a request; a request need not name every type.
\<close>

definition canExpandedIfaceComboSupportIfaceOfTypeWithCurrentIfaces ::
  "iface_counts \<Rightarrow> iface_counts \<Rightarrow> IfaceType \<Rightarrow> bool" where
  "canExpandedIfaceComboSupportIfaceOfTypeWithCurrentIfaces current_combo expanded_combo requested_type =
     list_all (\<lambda>type. current_combo type + (if type = requested_type then 1 else 0) \<le> expanded_combo type)
       all_types"

definition canExpandedIfaceComboSupportIfaceCombo ::
  "iface_counts \<Rightarrow> (IfaceType \<Rightarrow> nat option) \<Rightarrow> bool" where
  "canExpandedIfaceComboSupportIfaceCombo expanded_combo req_combo =
     list_all (\<lambda>type. case req_combo type of None \<Rightarrow> True | Some needed \<Rightarrow> needed \<le> expanded_combo type)
       all_types"

definition isValidModeId :: "ChipMode list \<Rightarrow> u32 \<Rightarrow> bool" where
  "isValidModeId modes mode_id \<longleftrightarrow> list_ex (\<lambda>mode. cm_id mode = mode_id) modes"

definition getCurrentModeIfaceCombinations :: "ChipMode list \<Rightarrow> u32 \<Rightarrow> ChipIfaceCombination list" where
  "getCurrentModeIfaceCombinations modes mode_id =
     (case find (\<lambda>mode. cm_id mode = mode_id) modes of
        None \<Rightarrow> [] | Some mode \<Rightarrow> cm_availableCombinations mode)"

text \<open>The common loop of the two checks over a mode: it stops at the first combination that fits.\<close>

fun any_expanded :: "(iface_counts \<Rightarrow> bool) \<Rightarrow> ChipIfaceCombination list \<Rightarrow> bool option" where
  "any_expanded fits [] = Some False"
| "any_expanded fits (combination # combinations) =
     do { expanded_combos \<leftarrow> expandIfaceCombinations combination;
          if list_ex fits expanded_combos then Some True else any_expanded fits combinations }"

definition canCurrentModeSupportIfaceOfTypeWithCurrentIfaces ::
  "ChipMode list \<Rightarrow> u32 \<Rightarrow> iface_counts \<Rightarrow> IfaceType \<Rightarrow> bool option" where
  "canCurrentModeSupportIfaceOfTypeWithCurrentIfaces modes mode_id current_combo requested_type =
     (if \<not> isValidModeId modes mode_id then Some False
      else any_expanded
        (\<lambda>expanded. canExpandedIfaceComboSupportIfaceOfTypeWithCurrentIfaces current_combo expanded requested_type)
        (getCurrentModeIfaceCombinations modes mode_id))"

definition canCurrentModeSupportIfaceCombo ::
  "ChipMode list \<Rightarrow> u32 \<Rightarrow> (IfaceType \<Rightarrow> nat option) \<Rightarrow> bool option" where
  "canCurrentModeSupportIfaceCombo modes mode_id req_combo =
     (if \<not> isValidModeId modes mode_id then Some False
      else any_expanded (\<lambda>expanded. canExpandedIfaceComboSupportIfaceCombo expanded req_combo)
        (getCurrentModeIfaceCombinations modes mode_id))"

definition canCurrentModeSupportIfaceOfType :: "ChipMode list \<Rightarrow> u32 \<Rightarrow> IfaceType \<Rightarrow> bool option" where
  "canCurrentModeSupportIfaceOfType modes mode_id requested_type =
     canCurrentModeSupportIfaceCombo modes mode_id [requested_type \<mapsto> 1]"

definition isStaApConcurrencyAllowedInCurrentMode :: "ChipMode list \<Rightarrow> u32 \<Rightarrow> bool option" where
  "isStaApConcurrencyAllowedInCurrentMode modes mode_id =
     canCurrentModeSupportIfaceCombo modes mode_id [AP \<mapsto> 1, STA \<mapsto> 1]"

definition isDualApAllowedInCurrentMode :: "ChipMode list \<Rightarrow> u32 \<Rightarrow> bool option" where
  "isDualApAllowedInCurrentMode modes mode_id =
     canCurrentModeSupportIfaceCombo modes mode_id [AP \<mapsto> 2]"

subsection \<open>The expansion is the list of all choices\<close>

definition slots :: "ChipIfaceCombination \<Rightarrow> IfaceType list list" where
  "slots combination =
     concat (map (\<lambda>limit. replicate (unat (cl_maxIfaces limit)) (cl_types limit)) combination)"

definition choices :: "IfaceType list list \<Rightarrow> nat" where
  "choices ss = prod_list (map length ss)"

text \<open>Every slot can be filled, and the number of choices fits the 32-bit counter.\<close>

definition combination_ok :: "ChipIfaceCombination \<Rightarrow> bool" where
  "combination_ok combination \<longleftrightarrow> [] \<notin> set (slots combination) \<and> choices (slots combination) < 2 ^ 32"

lemma choices_simps [simp]:
  "choices [] = 1" "choices (s # ss) = length s * choices ss" "choices (ss @ ts) = choices ss * choices ts"
  by (simp_all add: choices_def)

lemma choices_pos: "[] \<notin> set ss \<Longrightarrow> 0 < choices ss"
  by (induction ss) auto

lemma slots_simps [simp]:
  "slots [] = []"
  "slots (limit # limits) = replicate (unat (cl_maxIfaces limit)) (cl_types limit) @ slots limits"
  by (simp_all add: slots_def)

lemma factor_less: "a * b < n \<Longrightarrow> 0 < b \<Longrightarrow> a < (n::nat)"
  by (metis le_less_trans less_eq_Suc_le mult.right_neutral mult_le_mono2 One_nat_def)

lemma unat_times: "unat (num :: u32) * n < 2 ^ 32 \<Longrightarrow> unat (num * of_nat n) = unat num * n"
  by (simp add: unat_word_ariths(2) unat_of_nat mod_mult_right_eq)

lemma count_loop_choices:
  assumes "unat num * choices (replicate n s) < 2 ^ 32" "s \<noteq> []"
  shows "unat (count_loop n (length s) num) = unat num * choices (replicate n s)"
  using assms
proof (induction n arbitrary: num)
  case (Suc n)
  have "0 < choices (replicate n s)" using Suc.prems(2) by (intro choices_pos) auto
  moreover have "unat num * length s * choices (replicate n s) < 2 ^ 32" using Suc.prems(1) by (simp add: mult.assoc)
  ultimately have "unat num * length s < 2 ^ 32" by (rule factor_less [rotated])
  then have "unat (num * of_nat (length s)) = unat num * length s" by (rule unat_times)
  then show ?case using Suc.IH [of "num * of_nat (length s)"] Suc.prems by (simp add: mult.assoc)
qed simp

lemma num_expanded_choices:
  assumes "combination_ok combination"
  shows "unat (num_expanded_combos combination) = choices (slots combination)"
proof -
  have "unat num * choices (slots c) < 2 ^ 32 \<Longrightarrow> [] \<notin> set (slots c) \<Longrightarrow>
      unat (foldl (\<lambda>num limit. count_loop (unat (cl_maxIfaces limit)) (length (cl_types limit)) num) num c) =
      unat num * choices (slots c)" for num c
  proof (induction c arbitrary: num)
    case (Cons l c)
    let ?r = "replicate (unat (cl_maxIfaces l)) (cl_types l)"
    have pos: "0 < choices (slots c)" using Cons.prems by (intro choices_pos) simp
    have "unat num * choices ?r * choices (slots c) < 2 ^ 32" using Cons.prems(1) by (simp add: mult.assoc)
    then have small: "unat num * choices ?r < 2 ^ 32" using pos by (rule factor_less)
    have "unat (count_loop (unat (cl_maxIfaces l)) (length (cl_types l)) num) = unat num * choices ?r"
    proof (cases "cl_types l = []")
      case True
      then show ?thesis using Cons.prems by (cases "unat (cl_maxIfaces l)") auto
    qed (rule count_loop_choices [OF small])
    then show ?case using Cons by (simp add: mult.assoc)
  qed simp
  from this [of 1 combination] assms show ?thesis
    unfolding combination_ok_def num_expanded_combos_def by simp
qed

text \<open>The two nested loops are one loop over the slots.\<close>

fun slot_loop :: "IfaceType list list \<Rightarrow> nat \<times> iface_counts list \<Rightarrow> (nat \<times> iface_counts list) option" where
  "slot_loop [] sc = Some sc"
| "slot_loop (s # ss) sc = do { sc \<leftarrow> limit_loop 1 s sc; slot_loop ss sc }"

lemma slot_loop_append: "slot_loop (ss @ ts) sc = do { sc \<leftarrow> slot_loop ss sc; slot_loop ts sc }"
  by (induction ss arbitrary: sc) (simp_all add: bind_assoc cong: Option.bind_cong)

lemma limit_loop_slots: "limit_loop n s sc = slot_loop (replicate n s) sc"
proof (induction n arbitrary: sc)
  case (Suc n)
  then show ?case by (cases sc) (simp add: Let_def)
qed simp

lemma limits_loop_slots: "limits_loop c sc = slot_loop (slots c) sc"
  by (induction c arbitrary: sc) (simp_all add: slot_loop_append limit_loop_slots cong: Option.bind_cong)

text \<open>One choice per slot, numbered like the digits of a number with mixed bases.\<close>

lemma length_product_lists: "length (product_lists ss) = choices ss"
  by (induction ss) (simp_all add: length_concat comp_def sum_list_triv)

lemma nth_concat_blocks:
  assumes "\<And>x. x \<in> set xs \<Longrightarrow> length (f x) = m" "k < length xs * m"
  shows "concat (map f xs) ! k = f (xs ! (k div m)) ! (k mod m)"
  using assms
proof (induction xs arbitrary: k)
  case (Cons x xs)
  have m: "0 < m" using Cons.prems(2) by (cases m) auto
  show ?case
  proof (cases "k < m")
    case True
    then show ?thesis using Cons.prems(1) by (simp add: nth_append)
  next
    case False
    then have "k = m + (k - m)" by simp
    then have "k div m = Suc ((k - m) div m)" "k mod m = (k - m) mod m"
      using m by (metis div_add_self1 Suc_eq_plus1 less_not_refl, metis mod_add_self1)
    with False Cons show ?thesis by (simp add: nth_append)
  qed
qed simp

lemma product_lists_nth:
  assumes "s \<noteq> []" "[] \<notin> set ss"
  shows "product_lists (s # ss) ! (k mod (length s * choices ss)) =
    s ! (k div choices ss mod length s) # product_lists ss ! (k mod choices ss)"
proof -
  let ?m = "choices ss"
  let ?k = "k mod (length s * ?m)"
  have m: "0 < ?m" using choices_pos [OF assms(2)] .
  have split: "?k = ?m * (k div ?m mod length s) + k mod ?m"
    by (metis mod_mult2_eq mult.commute)
  then have "?k div ?m = k div ?m mod length s" "?k mod ?m = k mod ?m"
    using m by simp_all
  moreover have "?k < length s * ?m" using assms(1) m by simp
  moreover have "k mod ?m < length (product_lists ss)" using m by (simp add: length_product_lists)
  ultimately show ?thesis
    using nth_concat_blocks [of s "\<lambda>x. map (Cons x) (product_lists ss)" ?m ?k]
    by (simp add: length_product_lists)
qed

lemma count_choice_list:
  "count_choice span types k combo = (\<lambda>t. combo t + count_list [types ! (k div span mod length types)] t)"
  by (auto simp: count_choice_def Let_def)

lemma slot_loop_choices:
  assumes "[] \<notin> set ss"
  shows "slot_loop ss (choices ss, combos) =
    Some (1, map2 (\<lambda>k combo t. combo t + count_list (product_lists ss ! (k mod choices ss)) t)
               [0..<length combos] combos)"
  using assms
proof (induction ss arbitrary: combos)
  case Nil
  then show ?case by (auto intro!: nth_equalityI)
next
  case (Cons s ss)
  then have s: "s \<noteq> []" "[] \<notin> set ss" by auto
  have pos: "0 < choices ss" using choices_pos [OF s(2)] .
  have nth: "product_lists (s # ss) ! (k mod (length s * choices ss)) =
      s ! (k div choices ss mod length s) # product_lists ss ! (k mod choices ss)" for k
    using product_lists_nth [OF s] .
  have "slot_loop (s # ss) (choices (s # ss), combos) =
      slot_loop ss (choices ss, map2 (count_choice (choices ss) s) [0..<length combos] combos)"
    using s pos by (simp add: Let_def)
  also have "\<dots> = Some (1, map2 (\<lambda>k combo t. combo t + count_list (product_lists ss ! (k mod choices ss)) t)
      [0..<length combos] (map2 (count_choice (choices ss) s) [0..<length combos] combos))"
    using Cons.IH [OF s(2)] by simp
  also have "\<dots> = Some (1, map2 (\<lambda>k combo t. combo t + count_list (product_lists (s # ss) ! (k mod choices (s # ss))) t)
      [0..<length combos] combos)"
    by (auto intro!: nth_equalityI simp del: product_lists.simps simp: nth count_choice_list fun_eq_iff)
  finally show ?case .
qed

lemma expand_eq:
  assumes "combination_ok combination"
  shows "expandIfaceCombinations combination = Some (map count_list (product_lists (slots combination)))"
proof -
  let ?n = "choices (slots combination)"
  have ne: "[] \<notin> set (slots combination)" using assms by (simp add: combination_ok_def)
  have "map2 (\<lambda>k combo t. combo t + count_list (product_lists (slots combination) ! (k mod ?n)) t)
      [0..<?n] (replicate ?n (\<lambda>_. 0)) = map count_list (product_lists (slots combination))"
    by (rule nth_equalityI) (simp_all add: length_product_lists fun_eq_iff)
  then show ?thesis
    using slot_loop_choices [OF ne, of "replicate ?n (\<lambda>_. 0)"] num_expanded_choices [OF assms]
    unfolding expandIfaceCombinations_def by (simp add: limits_loop_slots Let_def)
qed

text \<open>
  What the checks decide: some combination of the mode has a choice of one type per slot that
  leaves room for the interfaces.
\<close>

definition fits :: "ChipIfaceCombination list \<Rightarrow> iface_counts \<Rightarrow> bool" where
  "fits combinations needed \<longleftrightarrow>
     (\<exists>combination \<in> set combinations. \<exists>choice. list_all2 (\<lambda>t s. t \<in> set s) choice (slots combination) \<and>
        (\<forall>type. needed type \<le> count_list choice type))"

definition modes_ok :: "ChipMode list \<Rightarrow> bool" where
  "modes_ok modes \<longleftrightarrow>
     (\<forall>mode \<in> set modes. \<forall>combination \<in> set (cm_availableCombinations mode). combination_ok combination)"

lemma any_expanded_eq:
  assumes "\<forall>c \<in> set combinations. combination_ok c"
  shows "any_expanded P combinations =
    Some (\<exists>c \<in> set combinations. \<exists>choice. list_all2 (\<lambda>t s. t \<in> set s) choice (slots c) \<and> P (count_list choice))"
  using assms
proof (induction combinations)
  case (Cons c cs)
  have "list_ex P (map count_list (product_lists (slots c))) \<longleftrightarrow>
      (\<exists>choice. list_all2 (\<lambda>t s. t \<in> set s) choice (slots c) \<and> P (count_list choice))"
    by (auto simp: list_ex_iff product_lists_set)
  then show ?case using Cons expand_eq [of c] by auto
qed simp

lemma all_types_iff: "list_all P all_types \<longleftrightarrow> (\<forall>type. P type)"
proof
  assume all: "list_all P all_types"
  show "\<forall>type. P type"
  proof
    fix type show "P type" using all by (cases type) (simp_all add: all_types_def)
  qed
qed (simp add: all_types_def)

lemma current_combinations_ok:
  "modes_ok modes \<Longrightarrow> \<forall>c \<in> set (getCurrentModeIfaceCombinations modes mode_id). combination_ok c"
proof (cases "find (\<lambda>mode. cm_id mode = mode_id) modes")
  case (Some mode)
  then have "mode \<in> set modes" by (auto simp: find_Some_iff)
  moreover assume "modes_ok modes"
  ultimately show ?thesis using Some by (simp add: getCurrentModeIfaceCombinations_def modes_ok_def)
qed (simp add: getCurrentModeIfaceCombinations_def)

lemma interface_check_decides:
  assumes "modes_ok modes" "isValidModeId modes mode_id"
  shows "canCurrentModeSupportIfaceOfTypeWithCurrentIfaces modes mode_id current requested =
    Some (fits (getCurrentModeIfaceCombinations modes mode_id) (current(requested := current requested + 1)))"
proof -
  have "canExpandedIfaceComboSupportIfaceOfTypeWithCurrentIfaces current expanded requested \<longleftrightarrow>
      (\<forall>type. (current(requested := current requested + 1)) type \<le> expanded type)" for expanded
    by (auto simp: canExpandedIfaceComboSupportIfaceOfTypeWithCurrentIfaces_def all_types_iff)
  then show ?thesis
    using assms any_expanded_eq [OF current_combinations_ok [OF assms(1), of mode_id]]
    by (simp add: canCurrentModeSupportIfaceOfTypeWithCurrentIfaces_def fits_def)
qed

definition requested_counts :: "(IfaceType \<Rightarrow> nat option) \<Rightarrow> iface_counts" where
  "requested_counts req = (\<lambda>type. case req type of None \<Rightarrow> 0 | Some needed \<Rightarrow> needed)"

lemma request_check_decides:
  assumes "modes_ok modes" "isValidModeId modes mode_id"
  shows "canCurrentModeSupportIfaceCombo modes mode_id req =
    Some (fits (getCurrentModeIfaceCombinations modes mode_id) (requested_counts req))"
proof -
  have "canExpandedIfaceComboSupportIfaceCombo expanded req \<longleftrightarrow>
      (\<forall>type. requested_counts req type \<le> expanded type)" for expanded
    by (auto simp: canExpandedIfaceComboSupportIfaceCombo_def all_types_iff requested_counts_def split: option.split)
  then show ?thesis
    using assms any_expanded_eq [OF current_combinations_ok [OF assms(1), of mode_id]]
    by (simp add: canCurrentModeSupportIfaceCombo_def fits_def)
qed

text \<open>
  C22: The checks before an interface is created decide exactly what they are meant to: for a mode
  the chip has, they answer yes if and only if one of the mode's combinations has a way to give
  every slot one of its types so that the interfaces that exist and the requested one (or the
  interfaces of a request: a station and an access point, two access points) find a slot each.
  The expansion by 32-bit counters and mixed-base digits neither misses a way nor invents one, as
  long as no limit with slots has an empty type list and the number of ways is below 2 to the 32.
\<close>

theorem interface_check_exact:
  assumes "modes_ok modes" "isValidModeId modes mode_id"
  shows "canCurrentModeSupportIfaceOfTypeWithCurrentIfaces modes mode_id current requested =
      Some (fits (getCurrentModeIfaceCombinations modes mode_id) (current(requested := current requested + 1))) \<and>
    isStaApConcurrencyAllowedInCurrentMode modes mode_id =
      Some (fits (getCurrentModeIfaceCombinations modes mode_id) ((\<lambda>_. 0)(AP := 1, STA := 1))) \<and>
    isDualApAllowedInCurrentMode modes mode_id =
      Some (fits (getCurrentModeIfaceCombinations modes mode_id) ((\<lambda>_. 0)(AP := 2)))"
proof -
  have "requested_counts [AP \<mapsto> 1, STA \<mapsto> 1] = (\<lambda>_. 0)(AP := 1, STA := 1)"
    "requested_counts [AP \<mapsto> 2] = (\<lambda>_. 0)(AP := 2)"
    by (auto simp: requested_counts_def)
  then show ?thesis
    using interface_check_decides [OF assms, of current requested] request_check_decides [OF assms]
    by (simp add: isStaApConcurrencyAllowedInCurrentMode_def isDualApAllowedInCurrentMode_def)
qed

text \<open>
  The compile-time mode tables of \<open>wifi_feature_flags.cpp\<close>. The build either gives the combinations
  (\<open>WIFI_HAL_INTERFACE_COMBINATIONS\<close>), or chooses them by the flags for a dual interface, for
  disabling the access point and for NAN (\<open>AWARE\<close>).
\<close>

definition limit :: "IfaceType list \<Rightarrow> u32 \<Rightarrow> ChipIfaceCombinationLimit" where
  "limit types n = \<lparr>cl_types = types, cl_maxIfaces = n\<rparr>"

definition kChipModes :: "ChipIfaceCombination list option \<Rightarrow> bool \<Rightarrow> bool \<Rightarrow> bool \<Rightarrow> ChipMode list" where
  "kChipModes given dual_interface disable_ap aware =
     (let p2p = [limit [STA] 1, limit (if aware then [P2P, NAN] else [P2P]) 1] in
      case given of
        Some combinations \<Rightarrow> [\<lparr>cm_id = kV3, cm_availableCombinations = combinations\<rparr>]
      | None \<Rightarrow>
          if dual_interface then
            [\<lparr>cm_id = kV3, cm_availableCombinations =
                if disable_ap then [p2p] else [[limit [STA] 1, limit [AP] 1], p2p]\<rparr>]
          else
            \<lparr>cm_id = kV1Sta, cm_availableCombinations = [p2p]\<rparr> #
            (if disable_ap then []
             else [\<lparr>cm_id = kV1Ap, cm_availableCombinations = [[limit [AP] 1]]\<rparr>]))"

lemma kChipModes_ok: "modes_ok (kChipModes None dual_interface disable_ap aware)"
  by (cases dual_interface; cases disable_ap; cases aware)
    (simp_all add: modes_ok_def kChipModes_def limit_def combination_ok_def)

lemma kChipModes_distinct: "distinct (map cm_id (kChipModes given dual_interface disable_ap aware))"
  by (simp add: kChipModes_def kV1Sta_def kV1Ap_def Let_def split: option.split)

lemma kInvalid_no_mode: "\<not> isValidModeId (kChipModes given dual_interface disable_ap aware) kInvalid"
  by (simp add: isValidModeId_def kChipModes_def kV1Sta_def kV1Ap_def kV3_def kInvalid_def Let_def split: option.split)

text \<open>The table of a device with two interfaces and NAN.\<close>

definition dual_modes :: "ChipMode list" where
  "dual_modes = kChipModes None True False True"

lemma dual_modes_ok: "modes_ok dual_modes" "isValidModeId dual_modes kV3"
  by (simp_all add: dual_modes_def kChipModes_ok) (simp add: kChipModes_def isValidModeId_def)

theorem interface_check_exact_witness:
  "fits (getCurrentModeIfaceCombinations dual_modes kV3) ((\<lambda>_. 0)(STA := 1, NAN := 1)) \<and>
   \<not> fits (getCurrentModeIfaceCombinations dual_modes kV3) ((\<lambda>_. 0)(NAN := 1, AP := 1))"
proof -
  have yes: "canCurrentModeSupportIfaceOfTypeWithCurrentIfaces dual_modes kV3 ((\<lambda>_. 0)(STA := 1)) NAN = Some True"
    and no: "canCurrentModeSupportIfaceOfTypeWithCurrentIfaces dual_modes kV3 ((\<lambda>_. 0)(NAN := 1)) AP = Some False"
    by code_simp+
  from conjunct1 [OF interface_check_exact [OF dual_modes_ok, of "(\<lambda>_. 0)(STA := 1)" NAN]] yes
    conjunct1 [OF interface_check_exact [OF dual_modes_ok, of "(\<lambda>_. 0)(NAN := 1)" AP]] no
  show ?thesis by simp
qed

end
