(* ===== verification/WifiLegacy.thy ===== *)
theory WifiLegacy
  imports WifiCombos "HOL-Library.AList"
begin

text \<open>
  The shim over the vendor's Wi-Fi library (\<open>wifi_legacy_hal.cpp\<close>), the conversion of its error
  codes (\<open>wifi_status_util.cpp\<close>) and the ring buffers for debug data (\<open>ringbuffer.cpp\<close>).

  The vendor library, the driver tool and the interface tool are not in the repository: each of
  their functions is a field of \<open>wifi_env\<close>, a function of a state of the vendor's own type that
  may answer anything. \<open>lh_vendor\<close> is that state. A failed \<open>CHECK\<close> aborts the process, which is
  the result \<open>None\<close>. The vendor's event loop and its stop callback run on another thread; while
  \<open>stop\<close> waits, either, both or none of them may happen (the answer of \<open>wifi_cleanup\<close>), and what
  did not happen in time may happen later (\<open>onAsyncStopComplete\<close>, \<open>runEventLoop_end\<close>). The vendor passes
  the handle it gave back to the stop callback, which checks it.
\<close>

subsection \<open>Error codes\<close>

datatype wifi_error =
    WIFI_SUCCESS | WIFI_ERROR_UNINITIALIZED | WIFI_ERROR_NOT_AVAILABLE | WIFI_ERROR_NOT_SUPPORTED
  | WIFI_ERROR_INVALID_ARGS | WIFI_ERROR_INVALID_REQUEST_ID | WIFI_ERROR_TIMED_OUT
  | WIFI_ERROR_TOO_MANY_REQUESTS | WIFI_ERROR_OUT_OF_MEMORY | WIFI_ERROR_BUSY | WIFI_ERROR_UNKNOWN

datatype WifiStatusCode =
    SUCCESS | ERROR_WIFI_CHIP_INVALID | ERROR_WIFI_IFACE_INVALID | ERROR_WIFI_RTT_CONTROLLER_INVALID
  | ERROR_NOT_SUPPORTED | ERROR_NOT_AVAILABLE | ERROR_NOT_STARTED | ERROR_INVALID_ARGS | ERROR_BUSY
  | ERROR_UNKNOWN

record WifiStatus =
  ws_code :: WifiStatusCode
  ws_description :: string

definition createWifiStatus :: "WifiStatusCode \<Rightarrow> WifiStatus" where
  "createWifiStatus code = \<lparr>ws_code = code, ws_description = []\<rparr>"

definition createWifiStatusFromLegacyError :: "wifi_error \<Rightarrow> string \<Rightarrow> WifiStatus" where
  "createWifiStatusFromLegacyError error desc =
     (case error of
        WIFI_ERROR_UNINITIALIZED \<Rightarrow> \<lparr>ws_code = ERROR_NOT_AVAILABLE, ws_description = desc\<rparr>
      | WIFI_ERROR_NOT_AVAILABLE \<Rightarrow> \<lparr>ws_code = ERROR_NOT_AVAILABLE, ws_description = desc\<rparr>
      | WIFI_ERROR_NOT_SUPPORTED \<Rightarrow> \<lparr>ws_code = ERROR_NOT_SUPPORTED, ws_description = desc\<rparr>
      | WIFI_ERROR_INVALID_ARGS \<Rightarrow> \<lparr>ws_code = ERROR_INVALID_ARGS, ws_description = desc\<rparr>
      | WIFI_ERROR_INVALID_REQUEST_ID \<Rightarrow> \<lparr>ws_code = ERROR_INVALID_ARGS, ws_description = desc\<rparr>
      | WIFI_ERROR_TIMED_OUT \<Rightarrow> \<lparr>ws_code = ERROR_UNKNOWN, ws_description = desc @ '', timed out''\<rparr>
      | WIFI_ERROR_TOO_MANY_REQUESTS \<Rightarrow>
          \<lparr>ws_code = ERROR_UNKNOWN, ws_description = desc @ '', too many requests''\<rparr>
      | WIFI_ERROR_OUT_OF_MEMORY \<Rightarrow>
          \<lparr>ws_code = ERROR_UNKNOWN, ws_description = desc @ '', out of memory''\<rparr>
      | WIFI_ERROR_BUSY \<Rightarrow> createWifiStatus ERROR_BUSY
      | WIFI_SUCCESS \<Rightarrow> \<lparr>ws_code = SUCCESS, ws_description = desc\<rparr>
      | WIFI_ERROR_UNKNOWN \<Rightarrow> \<lparr>ws_code = ERROR_UNKNOWN, ws_description = ''unknown''\<rparr>)"

lemma status_success [simp]:
  "ws_code (createWifiStatusFromLegacyError error desc) = SUCCESS \<longleftrightarrow> error = WIFI_SUCCESS"
  "ws_code (createWifiStatus code) = code"
  by (simp_all add: createWifiStatusFromLegacyError_def createWifiStatus_def split: wifi_error.split)

subsection \<open>The ring buffers\<close>

record Ringbuffer =
  rb_data :: "u8 list list"
  rb_size :: nat
  rb_maxSize :: nat

definition new_Ringbuffer :: "nat \<Rightarrow> Ringbuffer" where
  "new_Ringbuffer maxSize = \<lparr>rb_data = [], rb_size = 0, rb_maxSize = maxSize\<rparr>"

text \<open>
  The \<open>while\<close> loop pops the front as long as the size is above the maximum. On an empty list
  \<open>front()\<close> would be undefined; that result is \<open>None\<close>.
\<close>

fun pop_front_loop :: "nat \<Rightarrow> u8 list list \<Rightarrow> nat \<Rightarrow> (u8 list list \<times> nat) option" where
  "pop_front_loop maxSize [] n = (if n \<le> maxSize then Some ([], n) else None)"
| "pop_front_loop maxSize (d # data) n =
     (if n \<le> maxSize then Some (d # data, n) else pop_front_loop maxSize data (n - length d))"

definition ring_append :: "u8 list \<Rightarrow> Ringbuffer \<Rightarrow> Ringbuffer option" where
  "ring_append input r =
     (if length input = 0 then Some r
      else if rb_maxSize r < length input then Some r
      else do { (data, n) \<leftarrow> pop_front_loop (rb_maxSize r) (rb_data r @ [input]) (rb_size r + length input);
                Some (r\<lparr>rb_data := data, rb_size := n\<rparr>) })"

text \<open>
  The reference: of the messages that are neither empty nor too long, the shortest prefix is
  dropped that leaves at most \<open>maxSize\<close> bytes.
\<close>

definition total :: "u8 list list \<Rightarrow> nat" where
  "total ms = sum_list (map length ms)"

fun newest :: "nat \<Rightarrow> u8 list list \<Rightarrow> u8 list list" where
  "newest maxSize [] = []"
| "newest maxSize (m # ms) = (if total (m # ms) \<le> maxSize then m # ms else newest maxSize ms)"

definition accepted :: "nat \<Rightarrow> u8 list list \<Rightarrow> u8 list list" where
  "accepted maxSize ms = filter (\<lambda>m. m \<noteq> [] \<and> length m \<le> maxSize) ms"

fun ring_run :: "u8 list list \<Rightarrow> Ringbuffer \<Rightarrow> Ringbuffer option" where
  "ring_run [] r = Some r"
| "ring_run (m # ms) r = do { r \<leftarrow> ring_append m r; ring_run ms r }"

lemma total_simps [simp]: "total [] = 0" "total (m # ms) = length m + total ms" "total (ms @ ns) = total ms + total ns"
  by (simp_all add: total_def)

lemma total_newest: "total (newest maxSize ms) \<le> maxSize"
  by (induction ms) simp_all

lemma newest_newest: "newest maxSize (newest maxSize ms @ [m]) = newest maxSize (ms @ [m])"
  by (induction ms) auto

lemma pop_front_newest: "pop_front_loop maxSize ms (total ms) = Some (newest maxSize ms, total (newest maxSize ms))"
  by (induction ms) simp_all

lemma ring_append_newest:
  assumes "rb_size r = total (rb_data r)" "rb_data r = newest (rb_maxSize r) (accepted (rb_maxSize r) ms)"
  shows "ring_append m r =
    (let data = newest (rb_maxSize r) (accepted (rb_maxSize r) (ms @ [m]))
     in Some (r\<lparr>rb_data := data, rb_size := total data\<rparr>))"
proof (cases "m \<noteq> [] \<and> length m \<le> rb_maxSize r")
  case True
  with pop_front_newest [of "rb_maxSize r" "rb_data r @ [m]"] assms show ?thesis
    by (simp add: ring_append_def accepted_def newest_newest Let_def)
next
  case False
  then have "ring_append m r = Some r" by (auto simp: ring_append_def)
  moreover have "r = r\<lparr>rb_data := rb_data r, rb_size := rb_size r\<rparr>" by simp
  ultimately show ?thesis using False assms by (auto simp: accepted_def Let_def)
qed

lemma ring_run_newest:
  assumes "rb_size r = total (rb_data r)" "rb_data r = newest (rb_maxSize r) (accepted (rb_maxSize r) ns)"
  shows "ring_run ms r =
    (let data = newest (rb_maxSize r) (accepted (rb_maxSize r) (ns @ ms))
     in Some (r\<lparr>rb_data := data, rb_size := total data\<rparr>))"
  using assms
proof (induction ms arbitrary: r ns)
  case Nil
  then show ?case by (metis (no_types, lifting) append_Nil2 ring_run.simps(1) Ringbuffer.surjective
      Ringbuffer.update_convs(1) Ringbuffer.update_convs(2) Let_def)
next
  case (Cons m ms)
  let ?data = "newest (rb_maxSize r) (accepted (rb_maxSize r) (ns @ [m]))"
  from Cons.IH [of "r\<lparr>rb_data := ?data, rb_size := total ?data\<rparr>" "ns @ [m]"] Cons.prems
  show ?case by (simp add: ring_append_newest Let_def)
qed

text \<open>
  C23: A debug ring buffer never overruns its size and never loses more than it must: after any
  sequence of messages it holds, in order, the longest run of the newest accepted ones that fits
  (empty and oversized messages are not accepted), its byte count is right, and the loop that
  makes room never pops an empty list.
\<close>

theorem ring_keeps_newest:
  "\<exists>r. ring_run ms (new_Ringbuffer maxSize) = Some r \<and>
     rb_data r = newest maxSize (accepted maxSize ms) \<and>
     rb_size r = total (rb_data r) \<and> rb_size r \<le> maxSize"
  using ring_run_newest [of "new_Ringbuffer maxSize" "[]" ms]
  by (simp add: new_Ringbuffer_def accepted_def total_newest Let_def)

subsection \<open>The vendor library and the tools\<close>

type_synonym iface_handle = "nat option"

datatype FirmwareMode = kFirmwareModeSta | kFirmwareModeAp | kFirmwareModeP2p

record 'v wifi_env =
  wifi_init_func_table :: "'v \<Rightarrow> wifi_error \<times> 'v"
  wifi_wait_for_driver_ready :: "'v \<Rightarrow> wifi_error \<times> 'v"
  SetWifiUpState :: "bool \<Rightarrow> 'v \<Rightarrow> bool \<times> 'v"
  wifi_initialize :: "'v \<Rightarrow> (wifi_error \<times> nat option) \<times> 'v"
  wifi_get_ifaces :: "'v \<Rightarrow> (wifi_error \<times> nat list) \<times> 'v"
  wifi_get_iface_name :: "nat \<Rightarrow> 'v \<Rightarrow> (wifi_error \<times> string) \<times> 'v"
  wifi_cleanup :: "'v \<Rightarrow> (bool \<times> bool) \<times> 'v"
  wifi_get_driver_version :: "iface_handle \<Rightarrow> 'v \<Rightarrow> (wifi_error \<times> string) \<times> 'v"
  wifi_get_firmware_version :: "iface_handle \<Rightarrow> 'v \<Rightarrow> (wifi_error \<times> string) \<times> 'v"
  wifi_set_nodfs_flag :: "iface_handle \<Rightarrow> bool \<Rightarrow> 'v \<Rightarrow> wifi_error \<times> 'v"
  wifi_set_log_handler :: "iface_handle \<Rightarrow> 'v \<Rightarrow> wifi_error \<times> 'v"
  wifi_reset_log_handler :: "iface_handle \<Rightarrow> 'v \<Rightarrow> wifi_error \<times> 'v"
  wifi_start_logging :: "iface_handle \<Rightarrow> u32 \<Rightarrow> u32 \<Rightarrow> u32 \<Rightarrow> string \<Rightarrow> 'v \<Rightarrow> wifi_error \<times> 'v"
  wifi_get_ring_data :: "iface_handle \<Rightarrow> string \<Rightarrow> 'v \<Rightarrow> wifi_error \<times> 'v"
  wifi_set_alert_handler :: "iface_handle \<Rightarrow> 'v \<Rightarrow> wifi_error \<times> 'v"
  wifi_reset_alert_handler :: "iface_handle \<Rightarrow> 'v \<Rightarrow> wifi_error \<times> 'v"
  wifi_set_radio_mode_change_handler :: "iface_handle \<Rightarrow> 'v \<Rightarrow> wifi_error \<times> 'v"
  nan_register_handler :: "iface_handle \<Rightarrow> 'v \<Rightarrow> wifi_error \<times> 'v"
  nan_disable_request :: "iface_handle \<Rightarrow> u32 \<Rightarrow> 'v \<Rightarrow> wifi_error \<times> 'v"
  nan_data_interface_delete :: "iface_handle \<Rightarrow> u32 \<Rightarrow> string \<Rightarrow> 'v \<Rightarrow> wifi_error \<times> 'v"
  LoadDriver :: "'v \<Rightarrow> bool \<times> 'v"
  UnloadDriver :: "'v \<Rightarrow> bool \<times> 'v"
  ChangeFirmwareMode :: "FirmwareMode \<Rightarrow> 'v \<Rightarrow> bool \<times> 'v"
  SetUpState :: "string \<Rightarrow> bool \<Rightarrow> 'v \<Rightarrow> bool \<times> 'v"
  SetMacAddress :: "string \<Rightarrow> u8 list \<Rightarrow> 'v \<Rightarrow> bool \<times> 'v"
  random_bytes :: "'v \<Rightarrow> u8 list \<times> 'v"
  env_property :: "string \<Rightarrow> string" \<comment> \<open>\<open>property_get\<close>, empty when it is not set\<close>
  env_modes :: "ChipMode list" \<comment> \<open>the mode table the build chose\<close>
  env_ap_mac_fixed :: bool \<comment> \<open>\<open>isApMacRandomizationDisabled\<close>\<close>

subsection \<open>The shim\<close>

text \<open>
  A callback handed to the vendor is the address of the object it was made by. The user callback
  of \<open>stop\<close> is \<open>True\<close> when it marks the whole HAL as stopped, and \<open>False\<close> when it does nothing.
\<close>

record 'v legacy_hal =
  lh_vendor :: 'v
  lh_table :: bool \<comment> \<open>\<open>global_func_table_.wifi_initialize\<close> is set\<close>
  lh_handle :: "nat option"
  lh_ifaces :: "(string \<times> nat) list"
  lh_awaiting :: bool
  lh_started :: bool
  lh_stop_cb :: "bool option"
  lh_ring_cb :: "nat option"
  lh_alert_cb :: "nat option"
  lh_radio_cb :: "nat option"
  lh_nan_cb :: "nat option"

definition new_legacy_hal :: "'v \<Rightarrow> 'v legacy_hal" where
  "new_legacy_hal v = \<lparr>lh_vendor = v, lh_table = False, lh_handle = None, lh_ifaces = [],
     lh_awaiting = False, lh_started = False, lh_stop_cb = None, lh_ring_cb = None,
     lh_alert_cb = None, lh_radio_cb = None, lh_nan_cb = None\<rparr>"

definition vendor_call :: "('v \<Rightarrow> 'r \<times> 'v) \<Rightarrow> 'v legacy_hal \<Rightarrow> 'r \<times> 'v legacy_hal" where
  "vendor_call f h = (case f (lh_vendor h) of (r, v) \<Rightarrow> (r, h\<lparr>lh_vendor := v\<rparr>))"

definition legacy_initialize :: "'v wifi_env \<Rightarrow> 'v legacy_hal \<Rightarrow> wifi_error \<times> 'v legacy_hal" where
  "legacy_initialize env h = vendor_call (wifi_init_func_table env) (h\<lparr>lh_table := True\<rparr>)"

definition getIfaceHandle :: "string \<Rightarrow> 'v legacy_hal \<Rightarrow> iface_handle" where
  "getIfaceHandle name h = map_of (lh_ifaces h) name"

fun iface_names_loop :: "'v wifi_env \<Rightarrow> nat list \<Rightarrow> 'v legacy_hal \<Rightarrow> 'v legacy_hal" where
  "iface_names_loop env [] h = h"
| "iface_names_loop env (handle # handles) h =
     (case vendor_call (wifi_get_iface_name env handle) h of ((status, name), h) \<Rightarrow>
        iface_names_loop env handles
          (if status \<noteq> WIFI_SUCCESS then h
           else h\<lparr>lh_ifaces := AList.update name handle (lh_ifaces h)\<rparr>))"

definition retrieveIfaceHandles :: "'v wifi_env \<Rightarrow> 'v legacy_hal \<Rightarrow> wifi_error \<times> 'v legacy_hal" where
  "retrieveIfaceHandles env h =
     (case vendor_call (wifi_get_ifaces env) h of ((status, handles), h) \<Rightarrow>
        if status \<noteq> WIFI_SUCCESS then (status, h)
        else (WIFI_SUCCESS, iface_names_loop env handles h))"

definition legacy_start :: "'v wifi_env \<Rightarrow> 'v legacy_hal \<Rightarrow> (wifi_error \<times> 'v legacy_hal) option" where
  "legacy_start env h =
     (if \<not> (lh_table h \<and> lh_handle h = None \<and> lh_ifaces h = [] \<and> \<not> lh_awaiting h) then None
      else if lh_started h then Some (WIFI_SUCCESS, h)
      else case vendor_call (wifi_wait_for_driver_ready env) h of (status, h) \<Rightarrow>
        if status = WIFI_ERROR_TIMED_OUT then Some (status, h)
        else case vendor_call (SetWifiUpState env True) h of (up, h) \<Rightarrow>
          if \<not> up then Some (WIFI_ERROR_UNKNOWN, h)
          else case vendor_call (wifi_initialize env) h of ((status, handle), h) \<Rightarrow>
            let h = h\<lparr>lh_handle := handle\<rparr> in
            if status \<noteq> WIFI_SUCCESS \<or> handle = None then Some (status, h)
            else case retrieveIfaceHandles env h of (status, h) \<Rightarrow>
              if status \<noteq> WIFI_SUCCESS \<or> lh_ifaces h = [] then Some (status, h)
              else Some (WIFI_SUCCESS, h\<lparr>lh_started := True\<rparr>))"

definition legacy_invalidate :: "'v legacy_hal \<Rightarrow> 'v legacy_hal" where
  "legacy_invalidate h = h\<lparr>lh_handle := None, lh_ifaces := [], lh_ring_cb := None, lh_alert_cb := None,
     lh_radio_cb := None, lh_nan_cb := None\<rparr>"

text \<open>What the callback of \<open>stop\<close> does; the first result says that the HAL is to be marked stopped.\<close>

definition onAsyncStopComplete :: "'v wifi_env \<Rightarrow> 'v legacy_hal \<Rightarrow> bool \<times> 'v legacy_hal" where
  "onAsyncStopComplete env h =
     (case lh_stop_cb h of
        None \<Rightarrow> (False, h)
      | Some marks \<Rightarrow>
          (case vendor_call (SetWifiUpState env False) (legacy_invalidate h) of (_, h) \<Rightarrow>
             (marks, h\<lparr>lh_started := False, lh_stop_cb := None\<rparr>)))"

definition runEventLoop_end :: "'v legacy_hal \<Rightarrow> 'v legacy_hal option" where
  "runEventLoop_end h = (if \<not> lh_awaiting h then None else Some (h\<lparr>lh_awaiting := False\<rparr>))"

definition legacy_stop ::
  "'v wifi_env \<Rightarrow> bool \<Rightarrow> 'v legacy_hal \<Rightarrow> wifi_error \<times> bool \<times> 'v legacy_hal" where
  "legacy_stop env marks h =
     (if \<not> lh_started h then (WIFI_SUCCESS, marks, h)
      else
        let h = h\<lparr>lh_stop_cb := Some marks, lh_awaiting := True\<rparr> in
        case vendor_call (wifi_cleanup env) h of ((called, ended), h) \<Rightarrow>
        case (if called then onAsyncStopComplete env h else (False, h)) of (marked, h) \<Rightarrow>
          let h = (if ended then h\<lparr>lh_awaiting := False\<rparr> else h) in
          (if lh_awaiting h then WIFI_ERROR_UNKNOWN else WIFI_SUCCESS, marked, h))"

subsection \<open>The calls that register callbacks\<close>

definition registerRingBufferCallbackHandler ::
  "'v wifi_env \<Rightarrow> string \<Rightarrow> nat \<Rightarrow> 'v legacy_hal \<Rightarrow> wifi_error \<times> 'v legacy_hal" where
  "registerRingBufferCallbackHandler env name cb h =
     (if lh_ring_cb h \<noteq> None then (WIFI_ERROR_NOT_AVAILABLE, h)
      else case vendor_call (wifi_set_log_handler env (getIfaceHandle name h)) (h\<lparr>lh_ring_cb := Some cb\<rparr>) of
        (status, h) \<Rightarrow> (status, if status \<noteq> WIFI_SUCCESS then h\<lparr>lh_ring_cb := None\<rparr> else h))"

definition deregisterRingBufferCallbackHandler ::
  "'v wifi_env \<Rightarrow> string \<Rightarrow> 'v legacy_hal \<Rightarrow> wifi_error \<times> 'v legacy_hal" where
  "deregisterRingBufferCallbackHandler env name h =
     (if lh_ring_cb h = None then (WIFI_ERROR_NOT_AVAILABLE, h)
      else vendor_call (wifi_reset_log_handler env (getIfaceHandle name h)) (h\<lparr>lh_ring_cb := None\<rparr>))"

definition registerErrorAlertCallbackHandler ::
  "'v wifi_env \<Rightarrow> string \<Rightarrow> nat \<Rightarrow> 'v legacy_hal \<Rightarrow> wifi_error \<times> 'v legacy_hal" where
  "registerErrorAlertCallbackHandler env name cb h =
     (if lh_alert_cb h \<noteq> None then (WIFI_ERROR_NOT_AVAILABLE, h)
      else case vendor_call (wifi_set_alert_handler env (getIfaceHandle name h)) (h\<lparr>lh_alert_cb := Some cb\<rparr>) of
        (status, h) \<Rightarrow> (status, if status \<noteq> WIFI_SUCCESS then h\<lparr>lh_alert_cb := None\<rparr> else h))"

definition deregisterErrorAlertCallbackHandler ::
  "'v wifi_env \<Rightarrow> string \<Rightarrow> 'v legacy_hal \<Rightarrow> wifi_error \<times> 'v legacy_hal" where
  "deregisterErrorAlertCallbackHandler env name h =
     (if lh_alert_cb h = None then (WIFI_ERROR_NOT_AVAILABLE, h)
      else vendor_call (wifi_reset_alert_handler env (getIfaceHandle name h)) (h\<lparr>lh_alert_cb := None\<rparr>))"

definition registerRadioModeChangeCallbackHandler ::
  "'v wifi_env \<Rightarrow> string \<Rightarrow> nat \<Rightarrow> 'v legacy_hal \<Rightarrow> wifi_error \<times> 'v legacy_hal" where
  "registerRadioModeChangeCallbackHandler env name cb h =
     (if lh_radio_cb h \<noteq> None then (WIFI_ERROR_NOT_AVAILABLE, h)
      else case vendor_call (wifi_set_radio_mode_change_handler env (getIfaceHandle name h))
                  (h\<lparr>lh_radio_cb := Some cb\<rparr>) of
        (status, h) \<Rightarrow> (status, if status \<noteq> WIFI_SUCCESS then h\<lparr>lh_radio_cb := None\<rparr> else h))"

definition nanRegisterCallbackHandlers ::
  "'v wifi_env \<Rightarrow> string \<Rightarrow> nat \<Rightarrow> 'v legacy_hal \<Rightarrow> wifi_error \<times> 'v legacy_hal" where
  "nanRegisterCallbackHandlers env name cb h =
     vendor_call (nan_register_handler env (getIfaceHandle name h)) (h\<lparr>lh_nan_cb := Some cb\<rparr>)"

end
