(* ===== verification/WifiChip.thy ===== *)
theory WifiChip
  imports WifiLegacy
begin

text \<open>
  The Wi-Fi HAL: \<open>Wifi\<close> (\<open>wifi.cpp\<close>), its one \<open>WifiChip\<close> (\<open>wifi_chip.cpp\<close>), the interface objects
  the chip hands out (the constructors and \<open>invalidate\<close> of \<open>wifi_ap_iface.cpp\<close>, \<open>wifi_sta_iface.cpp\<close>,
  \<open>wifi_p2p_iface.cpp\<close>, \<open>wifi_nan_iface.cpp\<close>, \<open>wifi_rtt_controller.cpp\<close>), the MAC address helper
  (\<open>wifi_iface_util.cpp\<close>) and the mode controller. Every call holds one global lock and the service
  has one binder thread, so an operation is one step.

  An object is its address; the interface objects share one counter \<open>wf_next\<close>, the chips are
  numbered by \<open>ch_address\<close>. \<open>wf_invalid\<close> holds the addresses of the objects that were invalidated: a
  client that still has such an object only gets errors from it. The result \<open>None\<close> is a failed
  \<open>CHECK\<close>, a null pointer or a read behind the end of a vector. The files that the debug dump writes
  are not modelled.
\<close>

subsection \<open>State\<close>

record wifi_iface =
  wi_id :: nat
  wi_name :: string

datatype RunState = STOPPED | STARTED | STOPPING

datatype wifi_event =
    OnStart | OnStop | OnFailure WifiStatus
  | OnIfaceAdded IfaceType string | OnIfaceRemoved IfaceType string
  | OnChipReconfigured u32 | OnChipReconfigureFailure WifiStatus
  | OnDebugErrorAlert int "u8 list" | OnStateToggleOffOn string

record 'v wifi =
  wf_run_state :: RunState
  wf_chip :: bool \<comment> \<open>\<open>chip_\<close> is set\<close>
  wf_callbacks :: "nat list"
  wf_legacy :: "'v legacy_hal"
  wf_random_mac :: "u8 list option"
  wf_handlers :: "(string \<times> nat) list" \<comment> \<open>\<open>event_handlers_map_\<close>\<close>
  wf_active :: string \<comment> \<open>the property \<open>wifi.active.interface\<close> as last set\<close>
  wf_versions :: "(string \<times> string) option" \<comment> \<open>the firmware and driver properties\<close>
  wf_next :: nat
  wf_invalid :: "nat list"
  wf_events :: "(nat \<times> wifi_event) list"
  ch_address :: nat
  ch_is_valid :: bool
  ch_current_mode_id :: u32
  ch_modes :: "ChipMode list"
  ch_ap :: "wifi_iface list"
  ch_nan :: "wifi_iface list"
  ch_p2p :: "wifi_iface list"
  ch_sta :: "wifi_iface list"
  ch_rtt :: "wifi_iface list"
  ch_rings :: "(string \<times> Ringbuffer) list"
  ch_ring_registered :: bool
  ch_callbacks :: "nat list"

definition new_wifi :: "'v \<Rightarrow> 'v wifi" where
  "new_wifi v = \<lparr>wf_run_state = STOPPED, wf_chip = False, wf_callbacks = [], wf_legacy = new_legacy_hal v,
     wf_random_mac = None, wf_handlers = [], wf_active = [], wf_versions = None, wf_next = 0,
     wf_invalid = [], wf_events = [], ch_address = 0, ch_is_valid = False, ch_current_mode_id = kInvalid,
     ch_modes = [], ch_ap = [], ch_nan = [], ch_p2p = [], ch_sta = [], ch_rtt = [], ch_rings = [],
     ch_ring_registered = False, ch_callbacks = []\<rparr>"

fun ifaces_of :: "IfaceType \<Rightarrow> 'v wifi \<Rightarrow> wifi_iface list" where
  "ifaces_of AP s = ch_ap s"
| "ifaces_of NAN s = ch_nan s"
| "ifaces_of P2P s = ch_p2p s"
| "ifaces_of STA s = ch_sta s"

fun with_ifaces :: "IfaceType \<Rightarrow> wifi_iface list \<Rightarrow> 'v wifi \<Rightarrow> 'v wifi" where
  "with_ifaces AP ifaces s = s\<lparr>ch_ap := ifaces\<rparr>"
| "with_ifaces NAN ifaces s = s\<lparr>ch_nan := ifaces\<rparr>"
| "with_ifaces P2P ifaces s = s\<lparr>ch_p2p := ifaces\<rparr>"
| "with_ifaces STA ifaces s = s\<lparr>ch_sta := ifaces\<rparr>"

definition legacy_call :: "('v legacy_hal \<Rightarrow> 'r \<times> 'v legacy_hal) \<Rightarrow> 'v wifi \<Rightarrow> 'r \<times> 'v wifi" where
  "legacy_call f s = (case f (wf_legacy s) of (r, h) \<Rightarrow> (r, s\<lparr>wf_legacy := h\<rparr>))"

definition notify_chip :: "wifi_event \<Rightarrow> 'v wifi \<Rightarrow> 'v wifi" where
  "notify_chip ev s = s\<lparr>wf_events := wf_events s @ map (\<lambda>cb. (cb, ev)) (ch_callbacks s)\<rparr>"

definition notify_wifi :: "wifi_event \<Rightarrow> 'v wifi \<Rightarrow> 'v wifi" where
  "notify_wifi ev s = s\<lparr>wf_events := wf_events s @ map (\<lambda>cb. (cb, ev)) (wf_callbacks s)\<rparr>"

subsection \<open>Names\<close>

definition kMaxWlanIfaces :: nat where "kMaxWlanIfaces = 5"

text \<open>\<open>std::to_string\<close> of an index below \<open>kMaxWlanIfaces\<close>.\<close>

definition idx_string :: "nat \<Rightarrow> string" where
  "idx_string idx = [''0'', ''1'', ''2'', ''3'', ''4''] ! idx"

definition wlan_name :: "'v wifi_env \<Rightarrow> nat \<Rightarrow> string" where
  "wlan_name env idx =
     (let alt = env_property env (if idx = 0 then ''wifi.interface'' else ''wifi.concurrent.interface'');
          name = env_property env (''wifi.interface.'' @ idx_string idx)
      in if (idx = 0 \<or> idx = 1) \<and> alt \<noteq> [] then alt
         else if name \<noteq> [] then name
         else ''wlan'' @ idx_string idx)"

definition getWlanIfaceName :: "'v wifi_env \<Rightarrow> nat \<Rightarrow> string option" where
  "getWlanIfaceName env idx = (if kMaxWlanIfaces \<le> idx then None else Some (wlan_name env idx))"

definition getP2pIfaceName :: "'v wifi_env \<Rightarrow> string" where
  "getP2pIfaceName env =
     (let name = env_property env ''wifi.direct.interface'' in if name \<noteq> [] then name else ''p2p0'')"

definition findUsingName :: "wifi_iface list \<Rightarrow> string \<Rightarrow> wifi_iface option" where
  "findUsingName ifaces name = find (\<lambda>iface. name = wi_name iface) ifaces"

definition getNames :: "wifi_iface list \<Rightarrow> string list" where
  "getNames ifaces = map wi_name ifaces"

definition getFirstActiveWlanIfaceName :: "'v wifi_env \<Rightarrow> 'v wifi \<Rightarrow> string" where
  "getFirstActiveWlanIfaceName env s =
     (case ch_sta s of
        iface # _ \<Rightarrow> wi_name iface
      | [] \<Rightarrow> (case ch_ap s of iface # _ \<Rightarrow> wi_name iface | [] \<Rightarrow> wlan_name env 0))"

definition setActiveWlanIfaceNameProperty :: "string \<Rightarrow> 'v wifi \<Rightarrow> 'v wifi" where
  "setActiveWlanIfaceNameProperty name s = s\<lparr>wf_active := name\<rparr>"

definition set_active_iface :: "'v wifi_env \<Rightarrow> 'v wifi \<Rightarrow> 'v wifi" where
  "set_active_iface env s = setActiveWlanIfaceNameProperty (getFirstActiveWlanIfaceName env s) s"

fun allocate_loop :: "'v wifi_env \<Rightarrow> nat \<Rightarrow> nat \<Rightarrow> 'v wifi \<Rightarrow> string option" where
  "allocate_loop env 0 idx s = None"
| "allocate_loop env (Suc n) idx s =
     do { ifname \<leftarrow> getWlanIfaceName env idx;
          if findUsingName (ch_ap s) ifname \<noteq> None then allocate_loop env n (Suc idx) s
          else if findUsingName (ch_sta s) ifname \<noteq> None then allocate_loop env n (Suc idx) s
          else Some ifname }"

definition allocateApOrStaIfaceName :: "'v wifi_env \<Rightarrow> nat \<Rightarrow> 'v wifi \<Rightarrow> string option" where
  "allocateApOrStaIfaceName env start_idx s = allocate_loop env (kMaxWlanIfaces - start_idx) start_idx s"

definition allocateApIfaceName :: "'v wifi_env \<Rightarrow> 'v wifi \<Rightarrow> string option" where
  "allocateApIfaceName env s =
     do { concurrent \<leftarrow> isStaApConcurrencyAllowedInCurrentMode (ch_modes s) (ch_current_mode_id s);
          dual \<leftarrow> (if concurrent then isDualApAllowedInCurrentMode (ch_modes s) (ch_current_mode_id s)
                  else Some False);
          allocateApOrStaIfaceName env (if concurrent \<and> \<not> dual then 1 else 0) s }"

definition allocateStaIfaceName :: "'v wifi_env \<Rightarrow> 'v wifi \<Rightarrow> string option" where
  "allocateStaIfaceName env s = allocateApOrStaIfaceName env 0 s"

subsection \<open>Interface objects\<close>

definition new_object :: "string \<Rightarrow> 'v wifi \<Rightarrow> wifi_iface \<times> 'v wifi" where
  "new_object name s = (\<lparr>wi_id = wf_next s, wi_name = name\<rparr>, s\<lparr>wf_next := wf_next s + 1\<rparr>)"

definition mark_invalid :: "wifi_iface \<Rightarrow> 'v wifi \<Rightarrow> 'v wifi" where
  "mark_invalid iface s = s\<lparr>wf_invalid := List.insert (wi_id iface) (wf_invalid s)\<rparr>"

definition createRandomMacAddress :: "u8 list \<Rightarrow> u8 list" where
  "createRandomMacAddress random = (let address = take 6 random in address[0 := (address ! 0 OR 2) AND NOT 1])"

definition getOrCreateRandomMacAddress :: "'v wifi_env \<Rightarrow> 'v wifi \<Rightarrow> u8 list \<times> 'v wifi" where
  "getOrCreateRandomMacAddress env s =
     (case wf_random_mac s of
        Some mac \<Rightarrow> (mac, s)
      | None \<Rightarrow>
          (case legacy_call (vendor_call (random_bytes env)) s of (random, s) \<Rightarrow>
             let mac = createRandomMacAddress random in (mac, s\<lparr>wf_random_mac := Some mac\<rparr>)))"

definition setMacAddress :: "'v wifi_env \<Rightarrow> string \<Rightarrow> u8 list \<Rightarrow> 'v wifi \<Rightarrow> bool \<times> 'v wifi" where
  "setMacAddress env name mac s =
     (case legacy_call (vendor_call (SetUpState env name False)) s of (ok, s) \<Rightarrow>
      if \<not> ok then (False, s)
      else case legacy_call (vendor_call (SetMacAddress env name mac)) s of (ok, s) \<Rightarrow>
      if \<not> ok then (False, s)
      else case legacy_call (vendor_call (SetUpState env name True)) s of (ok, s) \<Rightarrow>
      if \<not> ok then (False, s)
      else (True, case map_of (wf_handlers s) name of
              None \<Rightarrow> s
            | Some handler \<Rightarrow> s\<lparr>wf_events := wf_events s @ [(handler, OnStateToggleOffOn name)]\<rparr>))"

definition new_WifiApIface :: "'v wifi_env \<Rightarrow> string \<Rightarrow> 'v wifi \<Rightarrow> wifi_iface \<times> 'v wifi" where
  "new_WifiApIface env name s =
     (case new_object name s of (iface, s) \<Rightarrow>
        if env_ap_mac_fixed env then (iface, s)
        else case getOrCreateRandomMacAddress env s of (mac, s) \<Rightarrow>
          (iface, snd (setMacAddress env name mac s)))"

definition setDfsFlag :: "'v wifi_env \<Rightarrow> string \<Rightarrow> bool \<Rightarrow> 'v legacy_hal \<Rightarrow> wifi_error \<times> 'v legacy_hal" where
  "setDfsFlag env name dfs_on h = vendor_call (wifi_set_nodfs_flag env (getIfaceHandle name h) (\<not> dfs_on)) h"

definition new_WifiStaIface :: "'v wifi_env \<Rightarrow> string \<Rightarrow> 'v wifi \<Rightarrow> wifi_iface \<times> 'v wifi" where
  "new_WifiStaIface env name s =
     (case new_object name s of (iface, s) \<Rightarrow> (iface, snd (legacy_call (setDfsFlag env name True) s)))"

definition nan_calls :: "'v wifi_env \<Rightarrow> string \<Rightarrow> 'v legacy_hal \<Rightarrow> 'v legacy_hal" where
  "nan_calls env name h =
     (let handle = getIfaceHandle name h;
          h = snd (vendor_call (nan_disable_request env handle 0xFFFF) h);
          h = snd (vendor_call (nan_data_interface_delete env handle 0xFFFE ''aware_data0'') h)
      in snd (vendor_call (nan_data_interface_delete env handle 0xFFFD ''aware_data1'') h))"

text \<open>An invalidated object has dropped its pointer to the legacy HAL; the NAN object would use it again.\<close>

definition WifiNanIface_invalidate :: "'v wifi_env \<Rightarrow> wifi_iface \<Rightarrow> 'v wifi \<Rightarrow> 'v wifi option" where
  "WifiNanIface_invalidate env iface s =
     (if wi_id iface \<in> set (wf_invalid s) then None
      else Some (mark_invalid iface
        (s\<lparr>wf_legacy := nan_calls env (wi_name iface) (wf_legacy s),
           wf_handlers := AList.delete (wi_name iface) (wf_handlers s)\<rparr>)))"

definition new_WifiNanIface :: "'v wifi_env \<Rightarrow> string \<Rightarrow> 'v wifi \<Rightarrow> (wifi_iface \<times> 'v wifi) option" where
  "new_WifiNanIface env name s =
     (case new_object name s of (iface, s) \<Rightarrow>
      case legacy_call (nanRegisterCallbackHandlers env name (wi_id iface)) s of (legacy_status, s) \<Rightarrow>
      do { s \<leftarrow> (if legacy_status \<noteq> WIFI_SUCCESS then WifiNanIface_invalidate env iface s else Some s);
           Some (iface, s\<lparr>wf_handlers := AList.update name (wi_id iface) (wf_handlers s)\<rparr>) })"

definition iface_invalidate :: "'v wifi_env \<Rightarrow> IfaceType \<Rightarrow> wifi_iface \<Rightarrow> 'v wifi \<Rightarrow> 'v wifi option" where
  "iface_invalidate env type iface s =
     (if type = NAN then WifiNanIface_invalidate env iface s else Some (mark_invalid iface s))"

definition invalidateAndClear :: "'v wifi_env \<Rightarrow> IfaceType \<Rightarrow> wifi_iface \<Rightarrow> 'v wifi \<Rightarrow> 'v wifi option" where
  "invalidateAndClear env type iface s =
     do { s \<leftarrow> iface_invalidate env type iface s;
          Some (with_ifaces type (filter (\<lambda>i. wi_id i \<noteq> wi_id iface) (ifaces_of type s)) s) }"

fun invalidate_all :: "'v wifi_env \<Rightarrow> IfaceType \<Rightarrow> wifi_iface list \<Rightarrow> 'v wifi \<Rightarrow> 'v wifi option" where
  "invalidate_all env type [] s = Some s"
| "invalidate_all env type (iface # ifaces) s =
     do { s \<leftarrow> iface_invalidate env type iface s; invalidate_all env type ifaces s }"

definition invalidateAndClearAll :: "'v wifi_env \<Rightarrow> IfaceType \<Rightarrow> 'v wifi \<Rightarrow> 'v wifi option" where
  "invalidateAndClearAll env type s =
     do { s \<leftarrow> invalidate_all env type (ifaces_of type s) s; Some (with_ifaces type [] s) }"

definition invalidateAndRemoveAllIfaces :: "'v wifi_env \<Rightarrow> 'v wifi \<Rightarrow> 'v wifi option" where
  "invalidateAndRemoveAllIfaces env s =
     do { s \<leftarrow> invalidateAndClearAll env AP s;
          s \<leftarrow> invalidateAndClearAll env NAN s;
          s \<leftarrow> invalidateAndClearAll env P2P s;
          s \<leftarrow> invalidateAndClearAll env STA s;
          Some ((fold mark_invalid (ch_rtt s) s)\<lparr>ch_rtt := []\<rparr>) }"

text \<open>
  The two loops of \<open>invalidateAndRemoveDependencies\<close> are range-based: they run as many rounds as
  the vector had elements at the start, by index, while the body erases from that vector.
\<close>

fun nan_dependencies :: "'v wifi_env \<Rightarrow> nat \<Rightarrow> nat \<Rightarrow> string \<Rightarrow> 'v wifi \<Rightarrow> 'v wifi option" where
  "nan_dependencies env 0 i removed s = Some s"
| "nan_dependencies env (Suc n) i removed s =
     do { iface \<leftarrow> vec_at (ch_nan s) i;
          s \<leftarrow> (if wi_name iface = removed
               then map_option (notify_chip (OnIfaceRemoved NAN removed)) (invalidateAndClear env NAN iface s)
               else Some s);
          nan_dependencies env n (Suc i) removed s }"

fun rtt_dependencies :: "nat \<Rightarrow> nat \<Rightarrow> string \<Rightarrow> 'v wifi \<Rightarrow> 'v wifi option" where
  "rtt_dependencies 0 i removed s = Some s"
| "rtt_dependencies (Suc n) i removed s =
     do { rtt \<leftarrow> vec_at (ch_rtt s) i;
          let s = (if wi_name rtt = removed
                   then (mark_invalid rtt s)\<lparr>ch_rtt := filter (\<lambda>j. wi_id j \<noteq> wi_id rtt) (ch_rtt s)\<rparr>
                   else s);
          rtt_dependencies n (Suc i) removed s }"

definition invalidateAndRemoveDependencies :: "'v wifi_env \<Rightarrow> string \<Rightarrow> 'v wifi \<Rightarrow> 'v wifi option" where
  "invalidateAndRemoveDependencies env removed s =
     do { s \<leftarrow> nan_dependencies env (length (ch_nan s)) 0 removed s;
          rtt_dependencies (length (ch_rtt s)) 0 removed s }"

end
