(* ===== verification/WifiService.thy ===== *)
theory WifiService
  imports WifiChip
begin

text \<open>
  The operations of the Wi-Fi HAL, on top of the objects of \<open>WifiChip\<close>: creating, finding and
  removing interfaces, choosing the mode of the chip, the debug rings and alerts, and the start and
  stop of the whole HAL. \<open>wifi_call\<close> puts the calls of clients and of the vendor's threads into one
  step function; \<open>wifi_run\<close> runs a sequence of them.
\<close>

subsection \<open>Interfaces\<close>

definition getCurrentIfaceCombination :: "'v wifi \<Rightarrow> iface_counts" where
  "getCurrentIfaceCombination s = (\<lambda>type. length (ifaces_of type s))"

definition can_create :: "IfaceType \<Rightarrow> 'v wifi \<Rightarrow> bool option" where
  "can_create type s =
     canCurrentModeSupportIfaceOfTypeWithCurrentIfaces (ch_modes s) (ch_current_mode_id s)
       (getCurrentIfaceCombination s) type"

definition add_iface :: "IfaceType \<Rightarrow> wifi_iface \<Rightarrow> 'v wifi \<Rightarrow> 'v wifi" where
  "add_iface type iface s =
     notify_chip (OnIfaceAdded type (wi_name iface)) (with_ifaces type (ifaces_of type s @ [iface]) s)"

definition createApIfaceInternal ::
  "'v wifi_env \<Rightarrow> 'v wifi \<Rightarrow> ((WifiStatus \<times> wifi_iface option) \<times> 'v wifi) option" where
  "createApIfaceInternal env s =
     do { ok \<leftarrow> can_create AP s;
          if \<not> ok then Some ((createWifiStatus ERROR_NOT_AVAILABLE, None), s)
          else do { ifname \<leftarrow> allocateApIfaceName env s;
                    let (iface, s) = new_WifiApIface env ifname s;
                    Some ((createWifiStatus SUCCESS, Some iface), set_active_iface env (add_iface AP iface s)) } }"

definition createNanIfaceInternal ::
  "'v wifi_env \<Rightarrow> 'v wifi \<Rightarrow> ((WifiStatus \<times> wifi_iface option) \<times> 'v wifi) option" where
  "createNanIfaceInternal env s =
     do { ok \<leftarrow> can_create NAN s;
          if \<not> ok then Some ((createWifiStatus ERROR_NOT_AVAILABLE, None), s)
          else do { (iface, s) \<leftarrow> new_WifiNanIface env (getFirstActiveWlanIfaceName env s) s;
                    Some ((createWifiStatus SUCCESS, Some iface), add_iface NAN iface s) } }"

definition createP2pIfaceInternal ::
  "'v wifi_env \<Rightarrow> 'v wifi \<Rightarrow> ((WifiStatus \<times> wifi_iface option) \<times> 'v wifi) option" where
  "createP2pIfaceInternal env s =
     do { ok \<leftarrow> can_create P2P s;
          if \<not> ok then Some ((createWifiStatus ERROR_NOT_AVAILABLE, None), s)
          else do { let (iface, s) = new_object (getP2pIfaceName env) s;
                    Some ((createWifiStatus SUCCESS, Some iface), add_iface P2P iface s) } }"

definition createStaIfaceInternal ::
  "'v wifi_env \<Rightarrow> 'v wifi \<Rightarrow> ((WifiStatus \<times> wifi_iface option) \<times> 'v wifi) option" where
  "createStaIfaceInternal env s =
     do { ok \<leftarrow> can_create STA s;
          if \<not> ok then Some ((createWifiStatus ERROR_NOT_AVAILABLE, None), s)
          else do { ifname \<leftarrow> allocateStaIfaceName env s;
                    let (iface, s) = new_WifiStaIface env ifname s;
                    Some ((createWifiStatus SUCCESS, Some iface), set_active_iface env (add_iface STA iface s)) } }"

definition getIfaceNames :: "IfaceType \<Rightarrow> 'v wifi \<Rightarrow> WifiStatus \<times> string list" where
  "getIfaceNames type s =
     (if ifaces_of type s = [] then (createWifiStatus SUCCESS, [])
      else (createWifiStatus SUCCESS, getNames (ifaces_of type s)))"

definition getIface :: "IfaceType \<Rightarrow> string \<Rightarrow> 'v wifi \<Rightarrow> WifiStatus \<times> wifi_iface option" where
  "getIface type ifname s =
     (case findUsingName (ifaces_of type s) ifname of
        None \<Rightarrow> (createWifiStatus ERROR_INVALID_ARGS, None)
      | Some iface \<Rightarrow> (createWifiStatus SUCCESS, Some iface))"

definition removeApIfaceInternal :: "'v wifi_env \<Rightarrow> string \<Rightarrow> 'v wifi \<Rightarrow> (WifiStatus \<times> 'v wifi) option" where
  "removeApIfaceInternal env ifname s =
     (case findUsingName (ch_ap s) ifname of
        None \<Rightarrow> Some (createWifiStatus ERROR_INVALID_ARGS, s)
      | Some iface \<Rightarrow>
          do { s \<leftarrow> invalidateAndRemoveDependencies env ifname s;
               s \<leftarrow> invalidateAndClear env AP iface s;
               Some (createWifiStatus SUCCESS, set_active_iface env (notify_chip (OnIfaceRemoved AP ifname) s)) })"

definition removeNanIfaceInternal :: "'v wifi_env \<Rightarrow> string \<Rightarrow> 'v wifi \<Rightarrow> (WifiStatus \<times> 'v wifi) option" where
  "removeNanIfaceInternal env ifname s =
     (case findUsingName (ch_nan s) ifname of
        None \<Rightarrow> Some (createWifiStatus ERROR_INVALID_ARGS, s)
      | Some iface \<Rightarrow>
          do { s \<leftarrow> invalidateAndClear env NAN iface s;
               Some (createWifiStatus SUCCESS, notify_chip (OnIfaceRemoved NAN ifname) s) })"

definition removeP2pIfaceInternal :: "'v wifi_env \<Rightarrow> string \<Rightarrow> 'v wifi \<Rightarrow> (WifiStatus \<times> 'v wifi) option" where
  "removeP2pIfaceInternal env ifname s =
     (case findUsingName (ch_p2p s) ifname of
        None \<Rightarrow> Some (createWifiStatus ERROR_INVALID_ARGS, s)
      | Some iface \<Rightarrow>
          do { s \<leftarrow> invalidateAndClear env P2P iface s;
               Some (createWifiStatus SUCCESS, notify_chip (OnIfaceRemoved P2P ifname) s) })"

definition removeStaIfaceInternal :: "'v wifi_env \<Rightarrow> string \<Rightarrow> 'v wifi \<Rightarrow> (WifiStatus \<times> 'v wifi) option" where
  "removeStaIfaceInternal env ifname s =
     (case findUsingName (ch_sta s) ifname of
        None \<Rightarrow> Some (createWifiStatus ERROR_INVALID_ARGS, s)
      | Some iface \<Rightarrow>
          do { s \<leftarrow> invalidateAndRemoveDependencies env ifname s;
               s \<leftarrow> invalidateAndClear env STA iface s;
               Some (createWifiStatus SUCCESS, set_active_iface env (notify_chip (OnIfaceRemoved STA ifname) s)) })"

definition createRttControllerInternal ::
  "'v wifi_env \<Rightarrow> 'v wifi \<Rightarrow> ((WifiStatus \<times> wifi_iface option) \<times> 'v wifi) option" where
  "createRttControllerInternal env s =
     do { ok \<leftarrow> (if ch_sta s = [] then canCurrentModeSupportIfaceOfType (ch_modes s) (ch_current_mode_id s) STA
                else Some True);
          if \<not> ok then Some ((createWifiStatus ERROR_NOT_AVAILABLE, None), s)
          else do { let (rtt, s) = new_object (getFirstActiveWlanIfaceName env s) s;
                    Some ((createWifiStatus SUCCESS, Some rtt), s\<lparr>ch_rtt := ch_rtt s @ [rtt]\<rparr>) } }"

subsection \<open>The mode of the chip\<close>

definition registerRadioModeChangeCallback :: "'v wifi_env \<Rightarrow> 'v wifi \<Rightarrow> WifiStatus \<times> 'v wifi" where
  "registerRadioModeChangeCallback env s =
     (case legacy_call (registerRadioModeChangeCallbackHandler env (getFirstActiveWlanIfaceName env s)
             (ch_address s)) s of (legacy_status, s) \<Rightarrow>
        (createWifiStatusFromLegacyError legacy_status [], s))"

definition getDriverVersion :: "'v wifi_env \<Rightarrow> string \<Rightarrow> 'v legacy_hal \<Rightarrow> (wifi_error \<times> string) \<times> 'v legacy_hal" where
  "getDriverVersion env name h = vendor_call (wifi_get_driver_version env (getIfaceHandle name h)) h"

definition getFirmwareVersion :: "'v wifi_env \<Rightarrow> string \<Rightarrow> 'v legacy_hal \<Rightarrow> (wifi_error \<times> string) \<times> 'v legacy_hal" where
  "getFirmwareVersion env name h = vendor_call (wifi_get_firmware_version env (getIfaceHandle name h)) h"

text \<open>The reply is the status with the firmware and the driver description.\<close>

definition requestChipDebugInfoInternal :: "'v wifi_env \<Rightarrow> 'v wifi \<Rightarrow> (WifiStatus \<times> string \<times> string) \<times> 'v wifi" where
  "requestChipDebugInfoInternal env s =
     (let ifname = getFirstActiveWlanIfaceName env s in
      case legacy_call (getDriverVersion env ifname) s of ((legacy_status, driver_desc), s) \<Rightarrow>
        if legacy_status \<noteq> WIFI_SUCCESS
        then ((createWifiStatusFromLegacyError legacy_status ''failed to get driver version'', [], []), s)
        else case legacy_call (getFirmwareVersion env ifname) s of ((legacy_status, firmware_desc), s) \<Rightarrow>
          if legacy_status \<noteq> WIFI_SUCCESS
          then ((createWifiStatusFromLegacyError legacy_status ''failed to get firmware version'', [], driver_desc), s)
          else ((createWifiStatus SUCCESS, firmware_desc, driver_desc), s))"

fun convertIfaceTypeToFirmwareMode :: "IfaceType \<Rightarrow> FirmwareMode" where
  "convertIfaceTypeToFirmwareMode AP = kFirmwareModeAp"
| "convertIfaceTypeToFirmwareMode P2P = kFirmwareModeP2p"
| "convertIfaceTypeToFirmwareMode NAN = kFirmwareModeSta"
| "convertIfaceTypeToFirmwareMode STA = kFirmwareModeSta"

definition changeFirmwareMode :: "'v wifi_env \<Rightarrow> IfaceType \<Rightarrow> 'v wifi \<Rightarrow> bool \<times> 'v wifi" where
  "changeFirmwareMode env type s =
     legacy_call (vendor_call (ChangeFirmwareMode env (convertIfaceTypeToFirmwareMode type))) s"

text \<open>The first half takes the chip out of the mode it is in; a status other than success ends the work.\<close>

definition leave_mode :: "'v wifi_env \<Rightarrow> 'v wifi \<Rightarrow> (WifiStatus \<times> 'v wifi) option" where
  "leave_mode env s =
     (if isValidModeId (ch_modes s) (ch_current_mode_id s) then
        do { s \<leftarrow> invalidateAndRemoveAllIfaces env s;
             let (legacy_status, _, h) = legacy_stop env False (wf_legacy s);
             Some (createWifiStatusFromLegacyError legacy_status [], s\<lparr>wf_legacy := h\<rparr>) }
      else Some (createWifiStatus SUCCESS, s))"

definition enter_mode :: "'v wifi_env \<Rightarrow> u32 \<Rightarrow> 'v wifi \<Rightarrow> (WifiStatus \<times> 'v wifi) option" where
  "enter_mode env mode_id s =
     (case (if mode_id = kV1Sta then changeFirmwareMode env STA s
            else if mode_id = kV1Ap then changeFirmwareMode env AP s else (True, s)) of (success, s) \<Rightarrow>
      if \<not> success then Some (createWifiStatus ERROR_UNKNOWN, s)
      else do { (legacy_status, h) \<leftarrow> legacy_start env (wf_legacy s);
                let s = s\<lparr>wf_legacy := h\<rparr>;
                if legacy_status \<noteq> WIFI_SUCCESS
                then Some (createWifiStatusFromLegacyError legacy_status [], s)
                else do { let (_, s) = registerRadioModeChangeCallback env s;
                          let ((status, firmware, driver), s) = requestChipDebugInfoInternal env s;
                          let s = (if ws_code status = SUCCESS then s\<lparr>wf_versions := Some (firmware, driver)\<rparr> else s);
                          Some (createWifiStatus SUCCESS, s) } })"

definition handleChipConfiguration :: "'v wifi_env \<Rightarrow> u32 \<Rightarrow> 'v wifi \<Rightarrow> (WifiStatus \<times> 'v wifi) option" where
  "handleChipConfiguration env mode_id s =
     do { (status, s) \<leftarrow> leave_mode env s;
          if ws_code status \<noteq> SUCCESS then Some (status, s) else enter_mode env mode_id s }"

definition configureChipInternal :: "'v wifi_env \<Rightarrow> u32 \<Rightarrow> 'v wifi \<Rightarrow> (WifiStatus \<times> 'v wifi) option" where
  "configureChipInternal env mode_id s =
     (if \<not> isValidModeId (ch_modes s) mode_id then Some (createWifiStatus ERROR_INVALID_ARGS, s)
      else if mode_id = ch_current_mode_id s then Some (createWifiStatus SUCCESS, s)
      else do { (status, s) \<leftarrow> handleChipConfiguration env mode_id s;
                if ws_code status \<noteq> SUCCESS then Some (status, notify_chip (OnChipReconfigureFailure status) s)
                else Some (status, set_active_iface env
                       ((notify_chip (OnChipReconfigured mode_id) s)\<lparr>ch_current_mode_id := mode_id\<rparr>)) })"

definition getModeInternal :: "'v wifi \<Rightarrow> WifiStatus \<times> u32" where
  "getModeInternal s =
     (if \<not> isValidModeId (ch_modes s) (ch_current_mode_id s)
      then (createWifiStatus ERROR_NOT_AVAILABLE, ch_current_mode_id s)
      else (createWifiStatus SUCCESS, ch_current_mode_id s))"

subsection \<open>Debug rings and alerts\<close>

definition kMaxBufferSizeBytes :: nat where "kMaxBufferSizeBytes = 1024 * 1024 * 3"

definition registerDebugRingBufferCallback :: "'v wifi_env \<Rightarrow> 'v wifi \<Rightarrow> WifiStatus \<times> 'v wifi" where
  "registerDebugRingBufferCallback env s =
     (if ch_ring_registered s then (createWifiStatus SUCCESS, s)
      else case legacy_call (registerRingBufferCallbackHandler env (getFirstActiveWlanIfaceName env s)
                  (ch_address s)) s of (legacy_status, s) \<Rightarrow>
        (createWifiStatusFromLegacyError legacy_status [],
         if legacy_status = WIFI_SUCCESS then s\<lparr>ch_ring_registered := True\<rparr> else s))"

definition startRingBufferLogging ::
  "'v wifi_env \<Rightarrow> string \<Rightarrow> string \<Rightarrow> u32 \<Rightarrow> u32 \<Rightarrow> u32 \<Rightarrow> 'v legacy_hal \<Rightarrow> wifi_error \<times> 'v legacy_hal" where
  "startRingBufferLogging env name ring_name verbose_level max_interval_sec min_data_size h =
     vendor_call (wifi_start_logging env (getIfaceHandle name h) verbose_level max_interval_sec min_data_size ring_name) h"

definition startLoggingToDebugRingBufferInternal ::
  "'v wifi_env \<Rightarrow> string \<Rightarrow> u32 \<Rightarrow> u32 \<Rightarrow> u32 \<Rightarrow> 'v wifi \<Rightarrow> WifiStatus \<times> 'v wifi" where
  "startLoggingToDebugRingBufferInternal env ring_name verbose_level max_interval min_size s =
     (case registerDebugRingBufferCallback env s of (status, s) \<Rightarrow>
        if ws_code status \<noteq> SUCCESS then (status, s)
        else case legacy_call (startRingBufferLogging env (getFirstActiveWlanIfaceName env s) ring_name
                    verbose_level max_interval min_size) s of (legacy_status, s) \<Rightarrow>
          (createWifiStatusFromLegacyError legacy_status [],
           if map_of (ch_rings s) ring_name = None
           then s\<lparr>ch_rings := ch_rings s @ [(ring_name, new_Ringbuffer kMaxBufferSizeBytes)]\<rparr> else s))"

definition getRingBufferData :: "'v wifi_env \<Rightarrow> string \<Rightarrow> string \<Rightarrow> 'v legacy_hal \<Rightarrow> wifi_error \<times> 'v legacy_hal" where
  "getRingBufferData env name ring_name h = vendor_call (wifi_get_ring_data env (getIfaceHandle name h) ring_name) h"

definition forceDumpToDebugRingBufferInternal :: "'v wifi_env \<Rightarrow> string \<Rightarrow> 'v wifi \<Rightarrow> WifiStatus \<times> 'v wifi" where
  "forceDumpToDebugRingBufferInternal env ring_name s =
     (case registerDebugRingBufferCallback env s of (status, s) \<Rightarrow>
        if ws_code status \<noteq> SUCCESS then (status, s)
        else case legacy_call (getRingBufferData env (getFirstActiveWlanIfaceName env s) ring_name) s of
          (legacy_status, s) \<Rightarrow> (createWifiStatusFromLegacyError legacy_status [], s))"

definition stopLoggingToDebugRingBufferInternal :: "'v wifi_env \<Rightarrow> 'v wifi \<Rightarrow> WifiStatus \<times> 'v wifi" where
  "stopLoggingToDebugRingBufferInternal env s =
     (case legacy_call (deregisterRingBufferCallbackHandler env (getFirstActiveWlanIfaceName env s)) s of
        (legacy_status, s) \<Rightarrow> (createWifiStatusFromLegacyError legacy_status [], s))"

definition enableDebugErrorAlertsInternal :: "'v wifi_env \<Rightarrow> bool \<Rightarrow> 'v wifi \<Rightarrow> WifiStatus \<times> 'v wifi" where
  "enableDebugErrorAlertsInternal env enable s =
     (case legacy_call
             (if enable then registerErrorAlertCallbackHandler env (getFirstActiveWlanIfaceName env s) (ch_address s)
              else deregisterErrorAlertCallbackHandler env (getFirstActiveWlanIfaceName env s)) s of
        (legacy_status, s) \<Rightarrow> (createWifiStatusFromLegacyError legacy_status [], s))"

text \<open>
  The vendor delivers ring data and alerts to the registered callback, which belongs to the chip
  object it was made by. \<open>convertible\<close> is whether the status record of the data can be converted.
\<close>

definition onAsyncRingBufferData :: "string \<Rightarrow> u8 list \<Rightarrow> bool \<Rightarrow> 'v wifi \<Rightarrow> 'v wifi option" where
  "onAsyncRingBufferData name data convertible s =
     (if lh_ring_cb (wf_legacy s) = Some (ch_address s) \<and> ch_is_valid s \<and> convertible then
        (case map_of (ch_rings s) name of
           None \<Rightarrow> Some s
         | Some ring \<Rightarrow>
             do { ring \<leftarrow> ring_append data ring;
                  Some (s\<lparr>ch_rings := AList.update name ring (ch_rings s)\<rparr>) })
      else Some s)"

definition onAsyncErrorAlert :: "int \<Rightarrow> u8 list \<Rightarrow> 'v wifi \<Rightarrow> 'v wifi" where
  "onAsyncErrorAlert err_code data s =
     (if lh_alert_cb (wf_legacy s) = Some (ch_address s) \<and> ch_is_valid s
      then notify_chip (OnDebugErrorAlert err_code data) s else s)"

subsection \<open>Callbacks\<close>

text \<open>A set of callbacks, ordered by address; \<open>linked\<close> is whether \<open>linkToDeath\<close> succeeds.\<close>

definition addCallback :: "nat \<Rightarrow> bool \<Rightarrow> nat list \<Rightarrow> bool \<times> nat list" where
  "addCallback cb linked cb_set =
     (if cb \<in> set cb_set then (True, cb_set)
      else if \<not> linked then (False, cb_set) else (True, insort cb cb_set))"

definition onObjectDeath :: "nat \<Rightarrow> nat list \<Rightarrow> nat list" where
  "onObjectDeath cb cb_set = (if cb \<in> set cb_set then filter (\<lambda>c. c \<noteq> cb) cb_set else cb_set)"

definition chip_registerEventCallback :: "nat \<Rightarrow> bool \<Rightarrow> 'v wifi \<Rightarrow> WifiStatus \<times> 'v wifi" where
  "chip_registerEventCallback cb linked s =
     (case addCallback cb linked (ch_callbacks s) of (ok, cbs) \<Rightarrow>
        (createWifiStatus (if ok then SUCCESS else ERROR_UNKNOWN), s\<lparr>ch_callbacks := cbs\<rparr>))"

definition wifi_registerEventCallback :: "nat \<Rightarrow> bool \<Rightarrow> 'v wifi \<Rightarrow> WifiStatus \<times> 'v wifi" where
  "wifi_registerEventCallback cb linked s =
     (case addCallback cb linked (wf_callbacks s) of (ok, cbs) \<Rightarrow>
        (createWifiStatus (if ok then SUCCESS else ERROR_UNKNOWN), s\<lparr>wf_callbacks := cbs\<rparr>))"

subsection \<open>The whole HAL\<close>

definition chip_invalidate :: "'v wifi_env \<Rightarrow> 'v wifi \<Rightarrow> 'v wifi option" where
  "chip_invalidate env s =
     do { s \<leftarrow> invalidateAndRemoveAllIfaces env s;
          Some ((setActiveWlanIfaceNameProperty [] s)\<lparr>ch_callbacks := [], ch_is_valid := False\<rparr>) }"

definition new_WifiChip :: "'v wifi_env \<Rightarrow> 'v wifi \<Rightarrow> 'v wifi" where
  "new_WifiChip env s = setActiveWlanIfaceNameProperty []
     (s\<lparr>ch_address := ch_address s + 1, ch_is_valid := True, ch_current_mode_id := kInvalid,
        ch_modes := env_modes env, ch_ap := [], ch_nan := [], ch_p2p := [], ch_sta := [], ch_rtt := [],
        ch_rings := [], ch_ring_registered := False, ch_callbacks := []\<rparr>)"

definition initializeModeControllerAndLegacyHal :: "'v wifi_env \<Rightarrow> 'v wifi \<Rightarrow> WifiStatus \<times> 'v wifi" where
  "initializeModeControllerAndLegacyHal env s =
     (case legacy_call (vendor_call (LoadDriver env)) s of (loaded, s) \<Rightarrow>
        if \<not> loaded then (createWifiStatus ERROR_UNKNOWN, s)
        else case legacy_call (legacy_initialize env) s of (legacy_status, s) \<Rightarrow>
          if legacy_status \<noteq> WIFI_SUCCESS then (createWifiStatusFromLegacyError legacy_status [], s)
          else (createWifiStatus SUCCESS, s))"

definition startInternal :: "'v wifi_env \<Rightarrow> 'v wifi \<Rightarrow> WifiStatus \<times> 'v wifi" where
  "startInternal env s =
     (case wf_run_state s of
        STARTED \<Rightarrow> (createWifiStatus SUCCESS, s)
      | STOPPING \<Rightarrow> (\<lparr>ws_code = ERROR_NOT_AVAILABLE, ws_description = ''HAL is stopping''\<rparr>, s)
      | STOPPED \<Rightarrow>
          (case initializeModeControllerAndLegacyHal env s of (wifi_status, s) \<Rightarrow>
             if ws_code wifi_status = SUCCESS
             then (wifi_status, notify_wifi OnStart
                     ((new_WifiChip env s)\<lparr>wf_chip := True, wf_run_state := STARTED\<rparr>))
             else (wifi_status, (notify_wifi (OnFailure wifi_status) s)\<lparr>wf_callbacks := []\<rparr>)))"

definition mark_stopped :: "bool \<Rightarrow> 'v wifi \<Rightarrow> 'v wifi" where
  "mark_stopped marked s = (if marked then s\<lparr>wf_run_state := STOPPED\<rparr> else s)"

definition stopLegacyHalAndDeinitializeModeController :: "'v wifi_env \<Rightarrow> 'v wifi \<Rightarrow> WifiStatus \<times> 'v wifi" where
  "stopLegacyHalAndDeinitializeModeController env s =
     (let s = s\<lparr>wf_run_state := STOPPING\<rparr> in
      case legacy_stop env True (wf_legacy s) of (legacy_status, marked, h) \<Rightarrow>
        let s = mark_stopped marked (s\<lparr>wf_legacy := h\<rparr>) in
        if legacy_status \<noteq> WIFI_SUCCESS then (createWifiStatusFromLegacyError legacy_status [], s)
        else case legacy_call (vendor_call (UnloadDriver env)) s of (unloaded, s) \<Rightarrow>
          (createWifiStatus (if \<not> unloaded then ERROR_UNKNOWN else SUCCESS), s))"

definition stopInternal :: "'v wifi_env \<Rightarrow> 'v wifi \<Rightarrow> (WifiStatus \<times> 'v wifi) option" where
  "stopInternal env s =
     (case wf_run_state s of
        STOPPED \<Rightarrow> Some (createWifiStatus SUCCESS, s)
      | STOPPING \<Rightarrow> Some (\<lparr>ws_code = ERROR_NOT_AVAILABLE, ws_description = ''HAL is stopping''\<rparr>, s)
      | STARTED \<Rightarrow>
          do { s \<leftarrow> (if wf_chip s then map_option (\<lambda>s. s\<lparr>wf_chip := False\<rparr>) (chip_invalidate env s) else Some s);
               let (wifi_status, s) = stopLegacyHalAndDeinitializeModeController env s;
               Some (wifi_status,
                 (notify_wifi (if ws_code wifi_status = SUCCESS then OnStop else OnFailure wifi_status) s)
                   \<lparr>wf_callbacks := []\<rparr>) })"

definition getChipInternal :: "nat \<Rightarrow> 'v wifi \<Rightarrow> WifiStatus \<times> nat option" where
  "getChipInternal chip_id s =
     (if \<not> wf_chip s then (createWifiStatus ERROR_NOT_STARTED, None)
      else if chip_id \<noteq> 0 then (createWifiStatus ERROR_INVALID_ARGS, None)
      else (createWifiStatus SUCCESS, Some (ch_address s)))"

subsection \<open>Calls\<close>

text \<open>\<open>validateAndCall\<close> for a client that holds the chip object number \<open>chip\<close>.\<close>

definition validateAndCall ::
  "nat \<Rightarrow> ('v wifi \<Rightarrow> (WifiStatus \<times> 'v wifi) option) \<Rightarrow> 'v wifi \<Rightarrow> (WifiStatus \<times> 'v wifi) option" where
  "validateAndCall chip work s =
     (if chip = ch_address s \<and> ch_is_valid s then work s
      else Some (createWifiStatus ERROR_WIFI_CHIP_INVALID, s))"

datatype wifi_op =
    Start | Stop | Wifi_Register nat bool | Wifi_Callback_Died nat
  | Configure nat u32 | Create nat IfaceType | Remove nat IfaceType string | Create_Rtt nat
  | Chip_Register nat nat bool | Chip_Callback_Died nat
  | Start_Logging nat string u32 u32 u32 | Force_Dump nat string | Stop_Logging nat
  | Enable_Alerts nat bool
  | Ring_Data string "u8 list" bool | Error_Alert int "u8 list" | Stop_Complete | Event_Loop_End

definition create_iface ::
  "'v wifi_env \<Rightarrow> IfaceType \<Rightarrow> 'v wifi \<Rightarrow> ((WifiStatus \<times> wifi_iface option) \<times> 'v wifi) option" where
  "create_iface env type = (case type of AP \<Rightarrow> createApIfaceInternal env | NAN \<Rightarrow> createNanIfaceInternal env
     | P2P \<Rightarrow> createP2pIfaceInternal env | STA \<Rightarrow> createStaIfaceInternal env)"

definition remove_iface :: "'v wifi_env \<Rightarrow> IfaceType \<Rightarrow> string \<Rightarrow> 'v wifi \<Rightarrow> (WifiStatus \<times> 'v wifi) option" where
  "remove_iface env type = (case type of AP \<Rightarrow> removeApIfaceInternal env | NAN \<Rightarrow> removeNanIfaceInternal env
     | P2P \<Rightarrow> removeP2pIfaceInternal env | STA \<Rightarrow> removeStaIfaceInternal env)"

definition without_value :: "(('r \<times> 'a) \<times> 's) option \<Rightarrow> ('r \<times> 's) option" where
  "without_value r = map_option (\<lambda>((status, _), s). (status, s)) r"

fun wifi_call :: "'v wifi_env \<Rightarrow> wifi_op \<Rightarrow> 'v wifi \<Rightarrow> (WifiStatus \<times> 'v wifi) option" where
  "wifi_call env Start s = Some (startInternal env s)"
| "wifi_call env Stop s = stopInternal env s"
| "wifi_call env (Wifi_Register cb linked) s = Some (wifi_registerEventCallback cb linked s)"
| "wifi_call env (Wifi_Callback_Died cb) s =
     Some (createWifiStatus SUCCESS, s\<lparr>wf_callbacks := onObjectDeath cb (wf_callbacks s)\<rparr>)"
| "wifi_call env (Configure chip mode_id) s = validateAndCall chip (configureChipInternal env mode_id) s"
| "wifi_call env (Create chip type) s = validateAndCall chip (\<lambda>s. without_value (create_iface env type s)) s"
| "wifi_call env (Remove chip type ifname) s = validateAndCall chip (remove_iface env type ifname) s"
| "wifi_call env (Create_Rtt chip) s = validateAndCall chip (\<lambda>s. without_value (createRttControllerInternal env s)) s"
| "wifi_call env (Chip_Register chip cb linked) s =
     validateAndCall chip (\<lambda>s. Some (chip_registerEventCallback cb linked s)) s"
| "wifi_call env (Chip_Callback_Died cb) s =
     Some (createWifiStatus SUCCESS, s\<lparr>ch_callbacks := onObjectDeath cb (ch_callbacks s)\<rparr>)"
| "wifi_call env (Start_Logging chip ring level interval min_size) s =
     validateAndCall chip (\<lambda>s. Some (startLoggingToDebugRingBufferInternal env ring level interval min_size s)) s"
| "wifi_call env (Force_Dump chip ring) s =
     validateAndCall chip (\<lambda>s. Some (forceDumpToDebugRingBufferInternal env ring s)) s"
| "wifi_call env (Stop_Logging chip) s =
     validateAndCall chip (\<lambda>s. Some (stopLoggingToDebugRingBufferInternal env s)) s"
| "wifi_call env (Enable_Alerts chip enable) s =
     validateAndCall chip (\<lambda>s. Some (enableDebugErrorAlertsInternal env enable s)) s"
| "wifi_call env (Ring_Data name data convertible) s =
     map_option (Pair (createWifiStatus SUCCESS)) (onAsyncRingBufferData name data convertible s)"
| "wifi_call env (Error_Alert code data) s = Some (createWifiStatus SUCCESS, onAsyncErrorAlert code data s)"
| "wifi_call env Stop_Complete s =
     (case legacy_call (onAsyncStopComplete env) s of (marked, s) \<Rightarrow>
        Some (createWifiStatus SUCCESS, mark_stopped marked s))"
| "wifi_call env Event_Loop_End s =
     map_option (\<lambda>h. (createWifiStatus SUCCESS, s\<lparr>wf_legacy := h\<rparr>)) (runEventLoop_end (wf_legacy s))"

fun wifi_run :: "'v wifi_env \<Rightarrow> wifi_op list \<Rightarrow> 'v wifi \<Rightarrow> (WifiStatus list \<times> 'v wifi) option" where
  "wifi_run env [] s = Some ([], s)"
| "wifi_run env (op # ops) s =
     do { (status, s) \<leftarrow> wifi_call env op s;
          (statuses, s) \<leftarrow> wifi_run env ops s;
          Some (status # statuses, s) }"

end
