(* ===== verification/WifiSafety.thy ===== *)
theory WifiSafety
  imports WifiService "HOL-Library.Sublist" "HOL-Library.Multiset"
begin

text \<open>
  What holds in every state the Wi-Fi HAL can get into: the interfaces fit the mode of the chip,
  the names of the station and access point interfaces differ, and an interface object is usable
  if and only if the chip lists it. The operations fall into three groups: those that leave the
  objects alone (\<open>same_objects\<close>), those that only remove objects (\<open>smaller\<close>) and those that add one
  (\<open>wifi_inv_add\<close>).
\<close>

subsection \<open>The invariant\<close>

definition listed :: "'v wifi \<Rightarrow> wifi_iface list" where
  "listed s = ch_ap s @ ch_nan s @ ch_p2p s @ ch_sta s @ ch_rtt s"

definition ids :: "wifi_iface list \<Rightarrow> nat set" where
  "ids ifaces = wi_id ` set ifaces"

definition objects_ok :: "'v wifi \<Rightarrow> bool" where
  "objects_ok s \<longleftrightarrow>
     distinct (map wi_id (listed s)) \<and> ids (listed s) \<subseteq> {..<wf_next s} \<and>
     set (wf_invalid s) \<subseteq> {..<wf_next s} \<and> {..<wf_next s} \<subseteq> ids (listed s) \<union> set (wf_invalid s) \<and>
     (\<forall>iface \<in> set (listed s). wi_id iface \<in> set (wf_invalid s) \<longrightarrow> iface \<in> set (ch_nan s))"

definition names_ok :: "'v wifi \<Rightarrow> bool" where
  "names_ok s \<longleftrightarrow> distinct (map wi_name (ch_ap s @ ch_sta s))"

definition no_ifaces :: "'v wifi \<Rightarrow> bool" where
  "no_ifaces s \<longleftrightarrow> (\<forall>type. ifaces_of type s = [])"

definition mode_fits :: "'v wifi \<Rightarrow> bool" where
  "mode_fits s \<longleftrightarrow> no_ifaces s \<or>
     (isValidModeId (ch_modes s) (ch_current_mode_id s) \<and>
      fits (getCurrentModeIfaceCombinations (ch_modes s) (ch_current_mode_id s)) (getCurrentIfaceCombination s))"

definition chip_ok :: "'v wifi_env \<Rightarrow> 'v wifi \<Rightarrow> bool" where
  "chip_ok env s \<longleftrightarrow> (wf_chip s \<longleftrightarrow> ch_is_valid s) \<and> (wf_chip s \<longleftrightarrow> wf_run_state s = STARTED) \<and>
     (ch_is_valid s \<longrightarrow> ch_modes s = env_modes env) \<and> (\<not> ch_is_valid s \<longrightarrow> listed s = [])"

text \<open>The callback that marks the HAL as stopped is only pending while the HAL is stopping.\<close>

definition stop_pending :: "'v wifi \<Rightarrow> bool" where
  "stop_pending s \<longleftrightarrow> lh_stop_cb (wf_legacy s) = Some True"

lemma stop_pending_update [simp]:
  "stop_pending (s\<lparr>wf_next := n\<rparr>) = stop_pending s" "stop_pending (s\<lparr>wf_invalid := bad\<rparr>) = stop_pending s"
  "stop_pending (s\<lparr>ch_current_mode_id := m\<rparr>) = stop_pending s" "stop_pending (s\<lparr>ch_rtt := l\<rparr>) = stop_pending s"
  "stop_pending (s\<lparr>wf_run_state := st\<rparr>) = stop_pending s" "stop_pending (with_ifaces type l s) = stop_pending s"
  by (cases type; simp add: stop_pending_def)+

definition stop_ok :: "'v wifi \<Rightarrow> bool" where
  "stop_ok s \<longleftrightarrow> (stop_pending s \<longrightarrow> wf_run_state s = STOPPING)"

definition wifi_inv :: "'v wifi_env \<Rightarrow> 'v wifi \<Rightarrow> bool" where
  "wifi_inv env s \<longleftrightarrow> objects_ok s \<and> names_ok s \<and> mode_fits s \<and> chip_ok env s \<and> stop_ok s"

lemma ids_simps [simp]: "ids [] = {}" "ids (i # is) = insert (wi_id i) (ids is)" "ids (is @ js) = ids is \<union> ids js"
  by (auto simp: ids_def)

lemma ids_filter: "ids (filter (\<lambda>i. wi_id i \<noteq> x) is) = ids is - {x}"
  by (auto simp: ids_def)

lemma ids_mem: "i \<in> set is \<Longrightarrow> wi_id i \<in> ids is"
  by (simp add: ids_def)

lemma ids_map [simp]: "set (map wi_id is) = ids is"
  by (simp add: ids_def)

lemma ifaces_with [simp]: "ifaces_of type (with_ifaces type' l s) = (if type = type' then l else ifaces_of type s)"
  by (cases type; cases type') simp_all

lemma no_ifaces_iff: "no_ifaces s \<longleftrightarrow> ch_ap s = [] \<and> ch_nan s = [] \<and> ch_p2p s = [] \<and> ch_sta s = []"
  unfolding no_ifaces_def by (metis IfaceType.exhaust ifaces_of.simps)

subsection \<open>Operations that leave the objects alone\<close>

definition same_objects :: "'v wifi \<Rightarrow> 'v wifi \<Rightarrow> bool" where
  "same_objects s t \<longleftrightarrow>
     ch_ap t = ch_ap s \<and> ch_nan t = ch_nan s \<and> ch_p2p t = ch_p2p s \<and> ch_sta t = ch_sta s \<and> ch_rtt t = ch_rtt s \<and>
     wf_next t = wf_next s \<and> set (wf_invalid t) = set (wf_invalid s) \<and> ch_is_valid t = ch_is_valid s \<and>
     ch_modes t = ch_modes s \<and> ch_current_mode_id t = ch_current_mode_id s \<and> wf_chip t = wf_chip s \<and>
     wf_run_state t = wf_run_state s \<and> ch_address t = ch_address s \<and> (stop_pending t \<longrightarrow> stop_pending s)"

lemma same_refl [simp]: "same_objects s s"
  by (simp add: same_objects_def)

lemma same_trans: "same_objects s t \<Longrightarrow> same_objects t u \<Longrightarrow> same_objects s u"
  by (simp add: same_objects_def)

lemma same_updates [simp]:
  "same_objects s (t\<lparr>wf_events := evs\<rparr>) = same_objects s t"
  "same_objects s (t\<lparr>wf_active := n\<rparr>) = same_objects s t"
  "same_objects s (t\<lparr>wf_handlers := hs\<rparr>) = same_objects s t"
  "same_objects s (t\<lparr>wf_random_mac := mac\<rparr>) = same_objects s t"
  "same_objects s (t\<lparr>wf_versions := vs\<rparr>) = same_objects s t"
  "same_objects s (t\<lparr>wf_callbacks := cs\<rparr>) = same_objects s t"
  "same_objects s (t\<lparr>ch_callbacks := cs\<rparr>) = same_objects s t"
  "same_objects s (t\<lparr>ch_rings := rings\<rparr>) = same_objects s t"
  "same_objects s (t\<lparr>ch_ring_registered := r\<rparr>) = same_objects s t"
  by (simp_all add: same_objects_def stop_pending_def)

definition keeps_stop :: "('v legacy_hal \<Rightarrow> 'r \<times> 'v legacy_hal) \<Rightarrow> bool" where
  "keeps_stop f \<longleftrightarrow> (\<forall>h. lh_stop_cb (snd (f h)) = lh_stop_cb h)"

lemma vendor_call_stop [simp]: "lh_stop_cb (snd (vendor_call f h)) = lh_stop_cb h"
  by (simp add: vendor_call_def split: prod.split)

lemma vendor_call_result: "vendor_call f h = (r, h') \<Longrightarrow> lh_stop_cb h' = lh_stop_cb h"
  by (metis vendor_call_stop snd_conv)

lemma keeps_stop_simps [simp]:
  "keeps_stop (vendor_call f)" "keeps_stop (legacy_initialize env)" "keeps_stop (setDfsFlag env n b)"
  "keeps_stop (getDriverVersion env n)" "keeps_stop (getFirmwareVersion env n)"
  "keeps_stop (startRingBufferLogging env n r a1 a2 a3)" "keeps_stop (getRingBufferData env n r)"
  "keeps_stop (nanRegisterCallbackHandlers env n x)"
  by (simp_all add: keeps_stop_def legacy_initialize_def setDfsFlag_def getDriverVersion_def getFirmwareVersion_def
      startRingBufferLogging_def getRingBufferData_def nanRegisterCallbackHandlers_def)

lemma keeps_stop_registers [simp]:
  "keeps_stop (registerRingBufferCallbackHandler env n x)" "keeps_stop (deregisterRingBufferCallbackHandler env n)"
  "keeps_stop (registerErrorAlertCallbackHandler env n x)" "keeps_stop (deregisterErrorAlertCallbackHandler env n)"
  "keeps_stop (registerRadioModeChangeCallbackHandler env n x)"
  by (auto simp: keeps_stop_def registerRingBufferCallbackHandler_def deregisterRingBufferCallbackHandler_def
      registerErrorAlertCallbackHandler_def deregisterErrorAlertCallbackHandler_def
      registerRadioModeChangeCallbackHandler_def split: prod.splits dest!: vendor_call_result)

lemma nan_calls_stop [simp]: "lh_stop_cb (nan_calls env n h) = lh_stop_cb h"
  by (simp add: nan_calls_def Let_def)

lemma iface_names_stop: "lh_stop_cb (iface_names_loop env handles h) = lh_stop_cb h"
  by (induction handles arbitrary: h) (auto split: prod.splits dest!: vendor_call_result)

lemma legacy_start_stop: "legacy_start env h = Some (status, h') \<Longrightarrow> lh_stop_cb h' = lh_stop_cb h"
  by (auto simp: legacy_start_def retrieveIfaceHandles_def iface_names_stop Let_def
      split: if_splits prod.splits dest!: vendor_call_result)

lemma stop_complete_stop:
  "onAsyncStopComplete env h = (m, h') \<Longrightarrow> lh_stop_cb h' = None \<and> (m \<longleftrightarrow> lh_stop_cb h = Some True)"
  by (auto simp: onAsyncStopComplete_def split: option.splits prod.splits)

lemma legacy_stop_stop:
  assumes "legacy_stop env marks h = (status, m, h')"
  shows "lh_stop_cb h' = Some True \<longrightarrow> lh_stop_cb h = Some True \<or> (marks \<and> \<not> m)"
    "m \<longrightarrow> marks"
  using assms
  by (auto simp: legacy_stop_def Let_def split: if_splits prod.splits dest!: vendor_call_result stop_complete_stop)

lemma same_legacy: "legacy_call f s = (r, t) \<Longrightarrow> keeps_stop f \<longrightarrow> same_objects s t"
  by (auto simp: legacy_call_def same_objects_def stop_pending_def keeps_stop_def split: prod.splits)
    (metis snd_conv)

lemma same_with_legacy: "same_objects s t \<Longrightarrow> lh_stop_cb h = lh_stop_cb (wf_legacy t) \<Longrightarrow> same_objects s (t\<lparr>wf_legacy := h\<rparr>)"
  by (simp add: same_objects_def stop_pending_def)

lemma same_notify [simp]: "same_objects s (notify_chip ev t) = same_objects s t"
  "same_objects s (notify_wifi ev t) = same_objects s t"
  by (simp_all add: notify_chip_def notify_wifi_def)

lemma same_set_active_iface [simp]: "same_objects s (set_active_iface env t) = same_objects s t"
  "same_objects s (setActiveWlanIfaceNameProperty n t) = same_objects s t"
  by (simp_all add: set_active_iface_def setActiveWlanIfaceNameProperty_def)

subsection \<open>Operations that remove objects\<close>

definition smaller :: "'v wifi \<Rightarrow> 'v wifi \<Rightarrow> bool" where
  "smaller s t \<longleftrightarrow>
     subseq (ch_ap t) (ch_ap s) \<and> subseq (ch_nan t) (ch_nan s) \<and> subseq (ch_p2p t) (ch_p2p s) \<and>
     subseq (ch_sta t) (ch_sta s) \<and> subseq (ch_rtt t) (ch_rtt s) \<and>
     set (wf_invalid t) = set (wf_invalid s) \<union> (ids (listed s) - ids (listed t)) \<and>
     wf_next t = wf_next s \<and> ch_is_valid t = ch_is_valid s \<and> ch_modes t = ch_modes s \<and>
     ch_current_mode_id t = ch_current_mode_id s \<and> wf_chip t = wf_chip s \<and>
     wf_run_state t = wf_run_state s \<and> ch_address t = ch_address s \<and> (stop_pending t \<longrightarrow> stop_pending s)"

lemma subseq_set: "subseq xs ys \<Longrightarrow> set xs \<subseteq> set ys"
  by (metis subseq_conv_nths set_nths_subset)

lemma subseq_distinct_map: "subseq xs ys \<Longrightarrow> distinct (map f ys) \<Longrightarrow> distinct (map f xs)"
  by (metis subseq_conv_nths nths_map distinct_nthsI)

lemma smaller_listed: "smaller s t \<Longrightarrow> subseq (listed t) (listed s)"
  unfolding smaller_def listed_def by (intro list_emb_append_mono) simp_all

lemma smaller_ids: "smaller s t \<Longrightarrow> ids (listed t) \<subseteq> ids (listed s)"
  using subseq_set [OF smaller_listed] unfolding ids_def by blast

lemma smaller_same: "same_objects s t \<Longrightarrow> smaller s t"
  unfolding smaller_def same_objects_def listed_def by simp

lemma smaller_refl [simp]: "smaller s s"
  by (rule smaller_same) simp

lemma smaller_trans:
  assumes "smaller s t" "smaller t u" shows "smaller s u"
proof -
  have "set (wf_invalid u) = set (wf_invalid s) \<union> (ids (listed s) - ids (listed u))"
    using assms smaller_ids [OF assms(1)] smaller_ids [OF assms(2)] unfolding smaller_def by blast
  then show ?thesis using assms unfolding smaller_def
    by (auto intro: subseq_order.order_trans)
qed

lemma fits_antimono: "fits cs n \<Longrightarrow> (\<And>type. m type \<le> n type) \<Longrightarrow> fits cs m"
  unfolding fits_def by (meson order_trans)

lemma smaller_objects:
  assumes sm: "smaller s t" and obj: "objects_ok s"
  shows "objects_ok t"
  unfolding objects_ok_def
proof (intro conjI ballI impI)
  have dist: "distinct (map wi_id (listed s))" and lt: "ids (listed s) \<subseteq> {..<wf_next s}"
    and bad_lt: "set (wf_invalid s) \<subseteq> {..<wf_next s}"
    and all: "{..<wf_next s} \<subseteq> ids (listed s) \<union> set (wf_invalid s)"
    and nan_only: "\<And>i. i \<in> set (listed s) \<Longrightarrow> wi_id i \<in> set (wf_invalid s) \<Longrightarrow> i \<in> set (ch_nan s)"
    using obj by (simp_all add: objects_ok_def)
  have sub: "set (listed t) \<subseteq> set (listed s)" using subseq_set [OF smaller_listed [OF sm]] .
  have bad: "set (wf_invalid t) = set (wf_invalid s) \<union> (ids (listed s) - ids (listed t))"
    and nxt: "wf_next t = wf_next s" using sm by (simp_all add: smaller_def)
  show "distinct (map wi_id (listed t))"
    by (rule subseq_distinct_map [OF smaller_listed [OF sm] dist])
  show "ids (listed t) \<subseteq> {..<wf_next t}" using smaller_ids [OF sm] lt unfolding nxt by (rule order_trans)
  show "set (wf_invalid t) \<subseteq> {..<wf_next t}" using lt bad_lt unfolding nxt bad by blast
  show "{..<wf_next t} \<subseteq> ids (listed t) \<union> set (wf_invalid t)" using all unfolding nxt bad by blast
  fix i assume i: "i \<in> set (listed t)" "wi_id i \<in> set (wf_invalid t)"
  then have "wi_id i \<in> set (wf_invalid s)" using bad ids_mem [of i "listed t"] by blast
  then have nan: "i \<in> set (ch_nan s)" using nan_only i(1) sub by blast
  have "distinct (listed s)" using dist by (simp add: distinct_map)
  then have "i \<notin> set (ch_ap s)" "i \<notin> set (ch_p2p s)" "i \<notin> set (ch_sta s)" "i \<notin> set (ch_rtt s)"
    using nan unfolding listed_def by auto
  moreover have lists: "subseq (ch_ap t) (ch_ap s)" "subseq (ch_p2p t) (ch_p2p s)"
    "subseq (ch_sta t) (ch_sta s)" "subseq (ch_rtt t) (ch_rtt s)"
    using sm unfolding smaller_def by simp_all
  ultimately have "i \<notin> set (ch_ap t)" "i \<notin> set (ch_p2p t)" "i \<notin> set (ch_sta t)" "i \<notin> set (ch_rtt t)"
    using lists [THEN subseq_set] by blast+
  with i(1) show "i \<in> set (ch_nan t)" by (simp add: listed_def)
qed

lemma smaller_inv:
  assumes sm: "smaller s t" and inv: "wifi_inv env s"
  shows "wifi_inv env t"
  unfolding wifi_inv_def
proof (intro conjI)
  have names: "names_ok s" and mode: "mode_fits s" and chip: "chip_ok env s"
    using inv by (simp_all add: wifi_inv_def)
  have frame: "ch_modes t = ch_modes s" "ch_current_mode_id t = ch_current_mode_id s" "ch_is_valid t = ch_is_valid s"
    "wf_chip t = wf_chip s" "wf_run_state t = wf_run_state s" using sm by (simp_all add: smaller_def)
  show "objects_ok t" using smaller_objects [OF sm] inv by (simp add: wifi_inv_def)
  have "subseq (ch_ap t @ ch_sta t) (ch_ap s @ ch_sta s)"
    using sm unfolding smaller_def by (intro list_emb_append_mono) simp_all
  with names show "names_ok t" unfolding names_ok_def by (rule subseq_distinct_map [rotated])
  have "getCurrentIfaceCombination t type \<le> getCurrentIfaceCombination s type" for type
    using sm unfolding smaller_def getCurrentIfaceCombination_def
    by (cases type) (auto dest: list_emb_length)
  moreover have "no_ifaces t" if "no_ifaces s" using that sm by (auto simp: no_ifaces_iff smaller_def)
  ultimately show "mode_fits t" using mode fits_antimono unfolding mode_fits_def frame by blast
  show "stop_ok t" using inv sm frame(5) by (auto simp: wifi_inv_def stop_ok_def smaller_def)
  show "chip_ok env t"
    using chip frame subseq_set [OF smaller_listed [OF sm]] unfolding chip_ok_def by auto
qed

lemmas same_inv = smaller_inv [OF smaller_same]

text \<open>Invalidating objects and then taking them off their list removes them.\<close>

definition marked :: "nat set \<Rightarrow> 'v wifi \<Rightarrow> 'v wifi \<Rightarrow> bool" where
  "marked xs s t \<longleftrightarrow> (\<exists>h hs bad. t = s\<lparr>wf_legacy := h, wf_handlers := hs, wf_invalid := bad\<rparr> \<and>
     set bad = set (wf_invalid s) \<union> xs \<and> lh_stop_cb h = lh_stop_cb (wf_legacy s))"

lemma marked_invalidate:
  assumes "iface_invalidate env type iface s = Some t" shows "marked {wi_id iface} s t"
proof -
  have "t = s\<lparr>wf_legacy := wf_legacy t, wf_handlers := wf_handlers t, wf_invalid := wf_invalid t\<rparr> \<and>
      set (wf_invalid t) = insert (wi_id iface) (set (wf_invalid s)) \<and>
      lh_stop_cb (wf_legacy t) = lh_stop_cb (wf_legacy s)"
    using assms
    by (auto simp: iface_invalidate_def WifiNanIface_invalidate_def mark_invalid_def split: if_splits)
  then show ?thesis unfolding marked_def by blast
qed

lemma marked_trans: "marked xs s t \<Longrightarrow> marked ys t u \<Longrightarrow> marked (xs \<union> ys) s u"
  unfolding marked_def by (elim exE conjE) (simp add: Un_ac, blast)

lemma marked_refl: "marked {} s s"
  unfolding marked_def by (rule exI [of _ "wf_legacy s"], rule exI [of _ "wf_handlers s"], rule exI [of _ "wf_invalid s"]) simp

lemma marked_all: "invalidate_all env type ifaces s = Some t \<Longrightarrow> marked (ids ifaces) s t"
proof (induction ifaces arbitrary: s)
  case (Cons iface ifaces)
  then obtain u where "iface_invalidate env type iface s = Some u" "invalidate_all env type ifaces u = Some t"
    by (auto simp: bind_eq_Some_conv)
  from marked_trans [OF marked_invalidate [OF this(1)] Cons.IH [OF this(2)]] show ?case by simp
qed (simp add: marked_refl)

lemma marked_fold: "marked (ids ifaces) s (fold mark_invalid ifaces s)"
proof (induction ifaces arbitrary: s)
  case (Cons iface ifaces)
  have "marked {wi_id iface} s (mark_invalid iface s)"
    unfolding marked_def mark_invalid_def
    by (rule exI [of _ "wf_legacy s"], rule exI [of _ "wf_handlers s"],
        rule exI [of _ "List.insert (wi_id iface) (wf_invalid s)"]) simp
  from marked_trans [OF this Cons] show ?case by simp
qed (simp add: marked_refl)

lemma ids_removed:
  assumes "distinct (map wi_id (a @ l @ b))" "xs \<subseteq> ids l"
  shows "ids (a @ l @ b) - ids (a @ filter (\<lambda>i. wi_id i \<notin> xs) l @ b) = xs"
proof -
  have "ids (filter (\<lambda>i. wi_id i \<notin> xs) l) = ids l - xs" by (auto simp: ids_def)
  moreover have "ids a \<inter> ids l = {}" "ids b \<inter> ids l = {}" using assms(1) by (auto simp: ids_def)
  ultimately show ?thesis using assms(2) by auto
qed

lemma smaller_marked:
  assumes "marked xs s t" "objects_ok s" "l = filter (\<lambda>i. wi_id i \<notin> xs) (ifaces_of type s)"
    "xs \<subseteq> ids (ifaces_of type s)"
  shows "smaller s (with_ifaces type l t)"
proof -
  obtain h hs bad where t: "t = s\<lparr>wf_legacy := h, wf_handlers := hs, wf_invalid := bad\<rparr>"
      "set bad = set (wf_invalid s) \<union> xs" "lh_stop_cb h = lh_stop_cb (wf_legacy s)"
    using assms(1) unfolding marked_def by blast
  have d: "distinct (map wi_id (listed s))" using assms(2) by (simp add: objects_ok_def)
  have "ids (listed s) - ids (listed (with_ifaces type l t)) = xs"
  proof (cases type)
    case AP
    then show ?thesis using ids_removed [of "[]" "ch_ap s" "ch_nan s @ ch_p2p s @ ch_sta s @ ch_rtt s" xs] d assms(3,4) t(1) unfolding listed_def by simp
  next
    case NAN
    then show ?thesis using ids_removed [of "ch_ap s" "ch_nan s" "ch_p2p s @ ch_sta s @ ch_rtt s" xs] d assms(3,4) t(1) unfolding listed_def by simp
  next
    case P2P
    then show ?thesis using ids_removed [of "ch_ap s @ ch_nan s" "ch_p2p s" "ch_sta s @ ch_rtt s" xs] d assms(3,4) t(1)
      unfolding listed_def by simp
  next
    case STA
    then show ?thesis using ids_removed [of "ch_ap s @ ch_nan s @ ch_p2p s" "ch_sta s" "ch_rtt s" xs] d assms(3,4) t(1)
      unfolding listed_def by simp
  qed
  then show ?thesis
    using t assms(3) unfolding smaller_def by (cases type) (simp_all add: stop_pending_def)
qed

lemma smaller_clear:
  assumes inv: "objects_ok s" and i: "iface \<in> set (ifaces_of type s)"
    and r: "invalidateAndClear env type iface s = Some t"
  shows "smaller s t"
proof -
  obtain u where u: "iface_invalidate env type iface s = Some u"
      and t: "t = with_ifaces type (filter (\<lambda>i. wi_id i \<noteq> wi_id iface) (ifaces_of type u)) u"
    using r by (auto simp: invalidateAndClear_def bind_eq_Some_conv)
  have m: "marked {wi_id iface} s u" using marked_invalidate [OF u] .
  then have "ifaces_of type u = ifaces_of type s" unfolding marked_def by (cases type) auto
  with smaller_marked [OF m inv, of _ type] ids_mem [OF i] show ?thesis unfolding t by simp
qed

lemma smaller_clear_all:
  assumes inv: "objects_ok s" and r: "invalidateAndClearAll env type s = Some t"
  shows "smaller s t \<and> ifaces_of type t = []"
proof -
  obtain u where u: "invalidate_all env type (ifaces_of type s) s = Some u" and t: "t = with_ifaces type [] u"
    using r by (auto simp: invalidateAndClearAll_def bind_eq_Some_conv)
  have "[] = filter (\<lambda>i. wi_id i \<notin> ids (ifaces_of type s)) (ifaces_of type s)"
    by (auto simp: filter_empty_conv ids_def)
  from smaller_marked [OF marked_all [OF u] inv this] show ?thesis unfolding t by simp
qed

lemma smaller_rtt:
  assumes "marked xs s t" "objects_ok s" "l = filter (\<lambda>i. wi_id i \<notin> xs) (ch_rtt s)" "xs \<subseteq> ids (ch_rtt s)"
  shows "smaller s (t\<lparr>ch_rtt := l\<rparr>)"
proof -
  obtain h hs bad where t: "t = s\<lparr>wf_legacy := h, wf_handlers := hs, wf_invalid := bad\<rparr>"
      "set bad = set (wf_invalid s) \<union> xs" "lh_stop_cb h = lh_stop_cb (wf_legacy s)"
    using assms(1) unfolding marked_def by blast
  have "distinct (map wi_id (listed s))" using assms(2) by (simp add: objects_ok_def)
  then have "ids (listed s) - ids (listed (t\<lparr>ch_rtt := l\<rparr>)) = xs"
    using ids_removed [of "ch_ap s @ ch_nan s @ ch_p2p s @ ch_sta s" "ch_rtt s" "[]" xs] assms(3,4) t(1)
    unfolding listed_def by simp
  then show ?thesis using t assms(3) unfolding smaller_def by (simp add: stop_pending_def)
qed

lemma smaller_empty: "smaller s t \<Longrightarrow> ifaces_of type s = [] \<Longrightarrow> ifaces_of type t = []"
  by (cases type) (auto simp: smaller_def)

lemma smaller_remove_all:
  assumes obj: "objects_ok s" and r: "invalidateAndRemoveAllIfaces env s = Some t"
  shows "smaller s t \<and> listed t = []"
proof -
  obtain s1 s2 s3 s4 where r: "invalidateAndClearAll env AP s = Some s1" "invalidateAndClearAll env NAN s1 = Some s2"
      "invalidateAndClearAll env P2P s2 = Some s3" "invalidateAndClearAll env STA s3 = Some s4"
      and t: "t = (fold mark_invalid (ch_rtt s4) s4)\<lparr>ch_rtt := []\<rparr>"
    using assms(2) by (auto simp: invalidateAndRemoveAllIfaces_def bind_eq_Some_conv)
  note 1 = smaller_clear_all [OF obj r(1)]
  note 2 = smaller_clear_all [OF smaller_objects [OF conjunct1 [OF 1] obj] r(2)]
  have s2: "smaller s s2" using 1 2 smaller_trans by blast
  note 3 = smaller_clear_all [OF smaller_objects [OF s2 obj] r(3)]
  have s3: "smaller s s3" using s2 3 smaller_trans by blast
  note 4 = smaller_clear_all [OF smaller_objects [OF s3 obj] r(4)]
  have s4: "smaller s s4" using s3 4 smaller_trans by blast
  have "[] = filter (\<lambda>i. wi_id i \<notin> ids (ch_rtt s4)) (ch_rtt s4)"
    by (auto simp: filter_empty_conv ids_def)
  from smaller_rtt [OF marked_fold smaller_objects [OF s4 obj] this] have 5: "smaller s4 t" unfolding t by simp
  have "smaller s3 t" using smaller_trans [OF conjunct1 [OF 4] 5] .
  moreover have "smaller s2 t" using smaller_trans [OF conjunct1 [OF 3] calculation] .
  moreover have "smaller s1 t" using smaller_trans [OF conjunct1 [OF 2] calculation(2)] .
  ultimately have "ifaces_of AP t = []" "ifaces_of NAN t = []" "ifaces_of P2P t = []" "ifaces_of STA t = []"
    using 1 2 3 4 5 smaller_empty by blast+
  then have "ch_ap t = []" "ch_nan t = []" "ch_p2p t = []" "ch_sta t = []" by simp_all
  then show ?thesis using smaller_trans [OF s4 5] unfolding listed_def t by simp
qed

lemma vec_at_mem: "vec_at xs i = Some x \<Longrightarrow> x \<in> set xs"
  by (auto simp: vec_at_def split: if_splits)

lemma smaller_nan_dependencies:
  "objects_ok s \<Longrightarrow> nan_dependencies env n i removed s = Some t \<Longrightarrow> smaller s t"
proof (induction n arbitrary: i s)
  case (Suc n)
  obtain iface u where at: "vec_at (ch_nan s) i = Some iface"
      and u: "(if wi_name iface = removed
        then map_option (notify_chip (OnIfaceRemoved NAN removed)) (invalidateAndClear env NAN iface s) else Some s) = Some u"
      and rest: "nan_dependencies env n (Suc i) removed u = Some t"
    using Suc.prems(2) by (auto simp: bind_eq_Some_conv)
  have "smaller s u"
  proof (cases "wi_name iface = removed")
    case True
    then obtain v where v: "invalidateAndClear env NAN iface s = Some v"
        and uv: "u = notify_chip (OnIfaceRemoved NAN removed) v" using u by auto
    have "smaller s v" using smaller_clear [OF Suc.prems(1) _ v] vec_at_mem [OF at] by simp
    then show ?thesis using smaller_trans smaller_same [of v u] uv by simp
  qed (use u in simp)
  then show ?case using Suc.IH [OF _ rest] smaller_objects smaller_trans Suc.prems(1) by blast
qed simp

lemma smaller_rtt_dependencies:
  "objects_ok s \<Longrightarrow> rtt_dependencies n i removed s = Some t \<Longrightarrow> smaller s t"
proof (induction n arbitrary: i s)
  case (Suc n)
  obtain rtt where at: "vec_at (ch_rtt s) i = Some rtt"
      and rest: "rtt_dependencies n (Suc i) removed (if wi_name rtt = removed
          then (mark_invalid rtt s)\<lparr>ch_rtt := filter (\<lambda>j. wi_id j \<noteq> wi_id rtt) (ch_rtt s)\<rparr> else s) = Some t"
    using Suc.prems(2) by (auto simp: bind_eq_Some_conv Let_def)
  have "marked {wi_id rtt} s (mark_invalid rtt s)" using marked_fold [of "[rtt]" s] by simp
  from smaller_rtt [OF this Suc.prems(1)] ids_mem [OF vec_at_mem [OF at]]
  have "smaller s ((mark_invalid rtt s)\<lparr>ch_rtt := filter (\<lambda>j. wi_id j \<noteq> wi_id rtt) (ch_rtt s)\<rparr>)" by simp
  then have step: "smaller s (if wi_name rtt = removed
      then (mark_invalid rtt s)\<lparr>ch_rtt := filter (\<lambda>j. wi_id j \<noteq> wi_id rtt) (ch_rtt s)\<rparr> else s)" by simp
  show ?case using smaller_trans [OF step Suc.IH [OF smaller_objects [OF step Suc.prems(1)] rest]] .
qed simp

lemma smaller_dependencies:
  assumes "objects_ok s" "invalidateAndRemoveDependencies env removed s = Some t"
  shows "smaller s t"
  using assms smaller_nan_dependencies smaller_rtt_dependencies smaller_objects smaller_trans
  unfolding invalidateAndRemoveDependencies_def bind_eq_Some_conv by metis

lemma findUsingName_mem: "findUsingName ifaces name = Some iface \<Longrightarrow> iface \<in> set ifaces \<and> wi_name iface = name"
  by (auto simp: findUsingName_def find_Some_iff)

text \<open>Removing the dependencies of a station or access point leaves those lists as they are.\<close>

lemma clear_other: "invalidateAndClear env type iface s = Some t \<Longrightarrow> type' \<noteq> type \<Longrightarrow> ifaces_of type' t = ifaces_of type' s"
  by (cases type'; cases type) (auto simp: invalidateAndClear_def bind_eq_Some_conv marked_def dest!: marked_invalidate)

lemma nan_dependencies_other:
  "nan_dependencies env n i removed s = Some t \<Longrightarrow> type \<noteq> NAN \<Longrightarrow> ifaces_of type t = ifaces_of type s"
proof (induction n arbitrary: i s)
  case (Suc n)
  have notify: "ifaces_of type (notify_chip ev u) = ifaces_of type u" for ev and u :: "'a wifi"
    by (cases type) (simp_all add: notify_chip_def)
  from Suc show ?case
    by (auto simp: bind_eq_Some_conv notify clear_other split: if_splits)
qed simp

lemma rtt_dependencies_other:
  "rtt_dependencies n i removed s = Some t \<Longrightarrow> ifaces_of type t = ifaces_of type s"
proof (induction n arbitrary: i s)
  case (Suc n)
  have "ifaces_of type ((mark_invalid rtt s)\<lparr>ch_rtt := l\<rparr>) = ifaces_of type s" for rtt l
    by (cases type) (simp_all add: mark_invalid_def)
  with Suc show ?case by (auto simp: bind_eq_Some_conv Let_def split: if_splits)
qed simp

lemma dependencies_other:
  "invalidateAndRemoveDependencies env removed s = Some t \<Longrightarrow> type \<noteq> NAN \<Longrightarrow> ifaces_of type t = ifaces_of type s"
  by (auto simp: invalidateAndRemoveDependencies_def bind_eq_Some_conv nan_dependencies_other rtt_dependencies_other)

lemma smaller_remove:
  assumes obj: "objects_ok s" and r: "remove_iface env type ifname s = Some (status, t)"
  shows "smaller s t"
proof (cases "findUsingName (ifaces_of type s) ifname")
  case None
  then show ?thesis
    using r by (cases type) (auto simp: remove_iface_def removeApIfaceInternal_def removeNanIfaceInternal_def
        removeP2pIfaceInternal_def removeStaIfaceInternal_def)
next
  case (Some iface)
  obtain u v where u: "smaller s u" "iface \<in> set (ifaces_of type u)" and v: "invalidateAndClear env type iface u = Some v"
      and t: "same_objects v t"
  proof (cases "type = AP \<or> type = STA")
    case True
    then obtain u v where d: "invalidateAndRemoveDependencies env ifname s = Some u"
        and v: "invalidateAndClear env type iface u = Some v" and t: "same_objects v t"
      using r Some
      by (auto simp: remove_iface_def removeApIfaceInternal_def removeStaIfaceInternal_def bind_eq_Some_conv)
    have "iface \<in> set (ifaces_of type u)"
      using dependencies_other [OF d, of type] True findUsingName_mem [OF Some] by auto
    then show thesis using that [OF smaller_dependencies [OF obj d] _ v t] by simp
  next
    case False
    then obtain v where v: "invalidateAndClear env type iface s = Some v" and t: "same_objects v t"
      using r Some
      by (cases type) (auto simp: remove_iface_def removeNanIfaceInternal_def removeP2pIfaceInternal_def bind_eq_Some_conv)
    show thesis using that [OF smaller_refl _ v t] findUsingName_mem [OF Some] by simp
  qed
  have "smaller u v" using smaller_clear [OF smaller_objects [OF u(1) obj] u(2) v] .
  then show ?thesis using u(1) smaller_same [OF t] smaller_trans by blast
qed

subsection \<open>Operations that add an object\<close>

definition created :: "nat list \<Rightarrow> 'v wifi \<Rightarrow> wifi_iface \<Rightarrow> 'v wifi \<Rightarrow> bool" where
  "created bad s iface t \<longleftrightarrow> wi_id iface = wf_next s \<and>
     same_objects (s\<lparr>wf_next := wf_next s + 1, wf_invalid := wf_invalid s @ bad\<rparr>) t"

lemma created_same: "created bad s iface t \<Longrightarrow> same_objects t u \<Longrightarrow> created bad s iface u"
  unfolding created_def using same_trans by blast

lemma created_object: "new_object name s = (iface, t) \<Longrightarrow> created [] s iface t \<and> wi_name iface = name"
  by (auto simp: new_object_def created_def)

lemma created_ap:
  assumes "new_WifiApIface env name s = (iface, t)" shows "created [] s iface t \<and> wi_name iface = name"
proof -
  obtain u where u: "new_object name s = (iface, u)"
    using assms by (auto simp: new_WifiApIface_def split: prod.splits if_splits)
  have mac: "same_objects a b" if "getOrCreateRandomMacAddress env a = (m, b)" for a b m
    using that by (auto simp: getOrCreateRandomMacAddress_def Let_def split: option.splits prod.splits dest: same_legacy)
  have set: "same_objects a (snd (setMacAddress env name m a))" for a m
    by (auto simp: setMacAddress_def split: prod.splits option.splits dest!: same_legacy intro: same_trans)
  obtain m v where mv: "getOrCreateRandomMacAddress env u = (m, v)" by (cases "getOrCreateRandomMacAddress env u")
  have "t = (if env_ap_mac_fixed env then u else snd (setMacAddress env name m v))"
    using assms u mv by (auto simp: new_WifiApIface_def)
  then have "same_objects u t" using same_trans [OF mac [OF mv] set] by simp
  with created_object [OF u] show ?thesis using created_same by blast
qed

lemma created_sta:
  assumes "new_WifiStaIface env name s = (iface, t)" shows "created [] s iface t \<and> wi_name iface = name"
proof -
  obtain u where u: "new_object name s = (iface, u)" and t: "t = snd (legacy_call (setDfsFlag env name True) u)"
    using assms by (auto simp: new_WifiStaIface_def split: prod.splits)
  have "same_objects u t" unfolding t
    using same_legacy [of "setDfsFlag env name True" u] by (cases "legacy_call (setDfsFlag env name True) u") simp
  with created_object [OF u] show ?thesis using created_same by blast
qed

lemma created_bad:
  assumes "created [] s iface v" "same_objects (v\<lparr>wf_invalid := wf_invalid v @ bad\<rparr>) t"
  shows "created bad s iface t"
proof -
  have "same_objects (s\<lparr>wf_next := wf_next s + 1, wf_invalid := wf_invalid s @ bad\<rparr>)
      (v\<lparr>wf_invalid := wf_invalid v @ bad\<rparr>)"
    using assms(1) by (simp add: created_def same_objects_def)
  then show ?thesis using assms same_trans unfolding created_def by blast
qed

lemma created_nan:
  assumes obj: "objects_ok s" and r: "new_WifiNanIface env name s = Some (iface, t)"
  shows "\<exists>bad. created bad s iface t \<and> set bad \<subseteq> {wi_id iface} \<and> wi_name iface = name"
proof -
  obtain u status v w where u: "new_object name s = (iface, u)"
      and v: "legacy_call (nanRegisterCallbackHandlers env name (wi_id iface)) u = (status, v)"
      and w: "(if status \<noteq> WIFI_SUCCESS then WifiNanIface_invalidate env iface v else Some v) = Some w"
      and t: "t = w\<lparr>wf_handlers := AList.update name (wi_id iface) (wf_handlers w)\<rparr>"
    using r by (auto simp: new_WifiNanIface_def bind_eq_Some_conv split: prod.splits)
  have cv: "created [] s iface v" using created_object [OF u] same_legacy [OF v] created_same by simp blast
  show ?thesis
  proof (cases "status = WIFI_SUCCESS")
    case True
    then have "same_objects v t" using w t by simp
    then have "created [] s iface t" using created_same [OF cv] by blast
    then show ?thesis using created_object [OF u] by auto
  next
    case False
    then have "same_objects (v\<lparr>wf_invalid := wf_invalid v @ [wi_id iface]\<rparr>) t"
      using w t by (auto simp: WifiNanIface_invalidate_def mark_invalid_def same_objects_def stop_pending_def split: if_splits)
    then have "created [wi_id iface] s iface t" using created_bad [OF cv] by blast
    then show ?thesis using created_object [OF u] by auto
  qed
qed

lemma objects_ok_created:
  assumes obj: "objects_ok s" and c: "created bad s iface t" and bad: "set bad \<subseteq> {wi_id iface}"
    and lists: "mset (listed u) = add_mset iface (mset (listed t))" "ch_nan u = ch_nan t \<and> bad = [] \<or> iface \<in> set (ch_nan u)"
      "set (ch_nan t) \<subseteq> set (ch_nan u)"
    and u: "wf_next u = wf_next t" "wf_invalid u = wf_invalid t"
  shows "objects_ok u"
proof -
  have t: "listed t = listed s" "ch_nan t = ch_nan s" "wf_next t = wf_next s + 1" "wi_id iface = wf_next s"
      "set (wf_invalid t) = set (wf_invalid s) \<union> set bad"
    using c by (simp_all add: created_def same_objects_def listed_def)
  have "mset (map wi_id (listed u)) = add_mset (wf_next s) (mset (map wi_id (listed s)))"
    using lists(1) t by simp
  then have "distinct (map wi_id (listed u)) \<longleftrightarrow> distinct (wf_next s # map wi_id (listed s))"
    by (metis mset.simps(2) mset_eq_imp_distinct_iff)
  moreover have fresh: "wf_next s \<notin> ids (listed s)" using obj by (auto simp: objects_ok_def)
  ultimately have dist: "distinct (map wi_id (listed u))" using obj by (simp add: objects_ok_def ids_def)
  have s_u: "set (listed u) = insert iface (set (listed s))"
    using lists(1) t(1) by (metis set_mset_add_mset_insert set_mset_mset)
  then have i_u: "ids (listed u) = insert (wf_next s) (ids (listed s))" using t(4) by (simp add: ids_def)
  show ?thesis
    unfolding objects_ok_def
  proof (intro conjI ballI impI dist)
    show "ids (listed u) \<subseteq> {..<wf_next u}" using obj by (auto simp: i_u u t objects_ok_def)
    show "set (wf_invalid u) \<subseteq> {..<wf_next u}" using obj bad by (auto simp: u t objects_ok_def)
    show "{..<wf_next u} \<subseteq> ids (listed u) \<union> set (wf_invalid u)"
      using obj by (auto simp: i_u u t objects_ok_def less_Suc_eq)
    fix i assume i: "i \<in> set (listed u)" "wi_id i \<in> set (wf_invalid u)"
    show "i \<in> set (ch_nan u)"
    proof (cases "i = iface")
      case True
      have "wf_next s \<notin> set (wf_invalid s)" using obj by (auto simp: objects_ok_def)
      then have "bad \<noteq> []" using i(2) True u t by auto
      then show ?thesis using lists(2) True by blast
    next
      case False
      then have "i \<in> set (listed s)" using i(1) s_u by blast
      moreover from this have "wi_id i \<noteq> wf_next s" using fresh ids_mem by metis
      then have "wi_id i \<in> set (wf_invalid s)" using i(2) u t bad by auto
      ultimately have "i \<in> set (ch_nan s)" using obj by (simp add: objects_ok_def)
      then show ?thesis using lists(3) t(2) by auto
    qed
  qed
qed

lemma can_create_fits:
  assumes "can_create type s = Some True" "modes_ok (ch_modes s)"
  shows "isValidModeId (ch_modes s) (ch_current_mode_id s)"
    "fits (getCurrentModeIfaceCombinations (ch_modes s) (ch_current_mode_id s))
       ((getCurrentIfaceCombination s)(type := getCurrentIfaceCombination s type + 1))"
proof -
  show valid: "isValidModeId (ch_modes s) (ch_current_mode_id s)"
    using assms(1) by (auto simp: can_create_def canCurrentModeSupportIfaceOfTypeWithCurrentIfaces_def split: if_splits)
  show "fits (getCurrentModeIfaceCombinations (ch_modes s) (ch_current_mode_id s))
       ((getCurrentIfaceCombination s)(type := getCurrentIfaceCombination s type + 1))"
    using interface_check_decides [OF assms(2) valid, of "getCurrentIfaceCombination s" type] assms(1)
    by (simp add: can_create_def)
qed

lemma wifi_inv_add:
  assumes inv: "wifi_inv env s" and c: "created bad s iface t" and bad: "set bad \<subseteq> {wi_id iface}"
    and kind: "type = NAN \<or> bad = []" and can: "can_create type s = Some True"
    and modes: "modes_ok (env_modes env)" and valid: "ch_is_valid s"
    and name: "type \<in> {AP, STA} \<Longrightarrow> wi_name iface \<notin> wi_name ` set (ch_ap s @ ch_sta s)"
  shows "wifi_inv env (with_ifaces type (ifaces_of type t @ [iface]) t)" (is "wifi_inv env ?u")
  unfolding wifi_inv_def
proof (intro conjI)
  have chip: "chip_ok env s" and obj: "objects_ok s" and names: "names_ok s"
    using inv by (simp_all add: wifi_inv_def)
  have frame: "ch_modes ?u = ch_modes s" "ch_current_mode_id ?u = ch_current_mode_id s"
      "ch_is_valid ?u = ch_is_valid s" "wf_chip ?u = wf_chip s" "wf_run_state ?u = wf_run_state s"
    using c by (cases type; simp add: created_def same_objects_def)+
  have lists: "ifaces_of tp t = ifaces_of tp s" for tp
    using c by (cases tp) (simp_all add: created_def same_objects_def)
  have "mset (listed ?u) = add_mset iface (mset (listed t))" by (cases type) (simp_all add: listed_def)
  moreover have "ch_nan ?u = ch_nan t \<and> bad = [] \<or> iface \<in> set (ch_nan ?u)" using kind by (cases type) auto
  moreover have "set (ch_nan t) \<subseteq> set (ch_nan ?u)" by (cases type) auto
  moreover have "wf_next ?u = wf_next t" "wf_invalid ?u = wf_invalid t" by (cases type; simp)+
  ultimately show "objects_ok ?u" by (rule objects_ok_created [OF obj c bad])
  have "wi_name iface \<notin> wi_name ` set (ch_ap t @ ch_sta t)" if "type = AP \<or> type = STA"
    using name that lists [of AP] lists [of STA] by auto
  moreover have "distinct (map wi_name (ch_ap t @ ch_sta t))"
    using names lists [of AP] lists [of STA] by (simp add: names_ok_def)
  ultimately show "names_ok ?u" unfolding names_ok_def by (cases type) (simp_all add: image_Un)
  have "ch_modes s = env_modes env" using chip valid by (simp add: chip_ok_def)
  then have mok: "modes_ok (ch_modes s)" using modes by simp
  have "getCurrentIfaceCombination ?u =
      (getCurrentIfaceCombination s)(type := getCurrentIfaceCombination s type + 1)"
    by (auto simp: getCurrentIfaceCombination_def lists)
  then show "mode_fits ?u" unfolding mode_fits_def frame using can_create_fits [OF can mok] by simp
  show "stop_ok ?u" using inv c by (cases type) (auto simp: wifi_inv_def stop_ok_def created_def same_objects_def stop_pending_def)
  show "chip_ok env ?u" using chip valid unfolding chip_ok_def frame by auto
qed

lemma allocate_loop_unused:
  "allocate_loop env n idx s = Some name \<Longrightarrow> name \<notin> wi_name ` set (ch_ap s @ ch_sta s)"
proof (induction n arbitrary: idx)
  case (Suc n)
  have "findUsingName ifaces x = None \<longleftrightarrow> x \<notin> wi_name ` set ifaces" for ifaces x
    by (auto simp: findUsingName_def find_None_iff)
  then show ?case using Suc by (auto simp: bind_eq_Some_conv split: if_splits)
qed simp

lemma add_iface_same: "same_objects (with_ifaces type (ifaces_of type t @ [iface]) t) (add_iface type iface t)"
  by (simp add: add_iface_def)

lemma wifi_inv_create:
  assumes inv: "wifi_inv env s" and modes: "modes_ok (env_modes env)" and valid: "ch_is_valid s"
    and r: "create_iface env type s = Some ((status, created_iface), u)"
  shows "wifi_inv env u"
proof -
  have obj: "objects_ok s" using inv by (simp add: wifi_inv_def)
  obtain ok where ok: "can_create type s = Some ok"
    using r by (cases type) (auto simp: create_iface_def createApIfaceInternal_def createNanIfaceInternal_def
        createP2pIfaceInternal_def createStaIfaceInternal_def bind_eq_Some_conv)
  show ?thesis
  proof (cases ok)
    case False
    then have "u = s" using r ok by (cases type) (auto simp: create_iface_def createApIfaceInternal_def
        createNanIfaceInternal_def createP2pIfaceInternal_def createStaIfaceInternal_def bind_eq_Some_conv)
    then show ?thesis using inv by simp
  next
    case True
    obtain bad iface t where c: "created bad s iface t" "set bad \<subseteq> {wi_id iface}" "type = NAN \<or> bad = []"
        and name: "type \<in> {AP, STA} \<Longrightarrow> wi_name iface \<notin> wi_name ` set (ch_ap s @ ch_sta s)"
        and u: "same_objects (with_ifaces type (ifaces_of type t @ [iface]) t) u"
    proof (cases type)
      case AP
      with r ok True obtain n where n: "allocateApIfaceName env s = Some n"
        by (auto simp: create_iface_def createApIfaceInternal_def bind_eq_Some_conv)
      obtain iface t where t: "new_WifiApIface env n s = (iface, t)" by (cases "new_WifiApIface env n s")
      have u: "u = set_active_iface env (add_iface AP iface t)"
        using r ok True AP n t by (simp add: create_iface_def createApIfaceInternal_def)
      have "n \<notin> wi_name ` set (ch_ap s @ ch_sta s)"
        using n unfolding allocateApIfaceName_def allocateApOrStaIfaceName_def
        by (metis (no_types, lifting) allocate_loop_unused bind_eq_Some_conv)
      then show thesis using that [of "[]" iface t] created_ap [OF t] add_iface_same [of AP t iface] AP u by simp
    next
      case NAN
      with r ok True obtain iface t where t: "new_WifiNanIface env (getFirstActiveWlanIfaceName env s) s = Some (iface, t)"
          and u: "u = add_iface NAN iface t"
        by (auto simp: create_iface_def createNanIfaceInternal_def bind_eq_Some_conv split: prod.splits)
      from created_nan [OF obj t] show thesis using that add_iface_same [of NAN t iface] NAN u by auto
    next
      case P2P
      with r ok True obtain iface t where t: "new_object (getP2pIfaceName env) s = (iface, t)"
          and u: "u = add_iface P2P iface t"
        by (auto simp: create_iface_def createP2pIfaceInternal_def bind_eq_Some_conv split: prod.splits)
      show thesis using that [of "[]" iface t] created_object [OF t] add_iface_same [of P2P t iface] P2P u by simp
    next
      case STA
      with r ok True obtain n where n: "allocateStaIfaceName env s = Some n"
        by (auto simp: create_iface_def createStaIfaceInternal_def bind_eq_Some_conv)
      obtain iface t where t: "new_WifiStaIface env n s = (iface, t)" by (cases "new_WifiStaIface env n s")
      have u: "u = set_active_iface env (add_iface STA iface t)"
        using r ok True STA n t by (simp add: create_iface_def createStaIfaceInternal_def)
      have "n \<notin> wi_name ` set (ch_ap s @ ch_sta s)"
        using n allocate_loop_unused unfolding allocateStaIfaceName_def allocateApOrStaIfaceName_def by blast
      then show thesis using that [of "[]" iface t] created_sta [OF t] add_iface_same [of STA t iface] STA u by simp
    qed
    show ?thesis using same_inv [OF u wifi_inv_add [OF inv c _ modes valid name]] ok True by simp
  qed
qed

lemma wifi_inv_rtt:
  assumes inv: "wifi_inv env s" and valid: "ch_is_valid s"
    and r: "createRttControllerInternal env s = Some ((status, rtt), u)"
  shows "wifi_inv env u"
proof -
  consider "u = s" | iface t where "new_object (getFirstActiveWlanIfaceName env s) s = (iface, t)"
      "u = t\<lparr>ch_rtt := ch_rtt t @ [iface]\<rparr>"
    using r by (auto simp: createRttControllerInternal_def bind_eq_Some_conv split: if_splits prod.splits)
  then show ?thesis
  proof cases
    case 2
    have c: "created [] s iface t" using created_object [OF 2(1)] by simp
    have obj: "objects_ok u"
      by (rule objects_ok_created [OF _ c]) (use inv 2 in \<open>simp_all add: wifi_inv_def listed_def\<close>)
    have "ifaces_of type u = ifaces_of type s" for type
      using c 2(2) by (cases type) (simp_all add: created_def same_objects_def)
    then have "no_ifaces u = no_ifaces s" "getCurrentIfaceCombination u = getCurrentIfaceCombination s"
      by (simp_all add: no_ifaces_def getCurrentIfaceCombination_def)
    then show ?thesis
      using inv obj valid c 2(2)
      by (auto simp: wifi_inv_def names_ok_def mode_fits_def chip_ok_def stop_ok_def created_def same_objects_def)
  qed (use inv in simp)
qed

subsection \<open>Changing the mode, starting and stopping\<close>

lemma same_radio: "registerRadioModeChangeCallback env s = (status, t) \<Longrightarrow> same_objects s t"
  by (auto simp: registerRadioModeChangeCallback_def dest: same_legacy split: prod.splits)

lemma same_debug_info: "requestChipDebugInfoInternal env s = (reply, t) \<Longrightarrow> same_objects s t"
  by (auto simp: requestChipDebugInfoInternal_def Let_def dest!: same_legacy split: prod.splits if_splits
      intro: same_trans)

lemma same_enter_mode:
  assumes "enter_mode env mode_id s = Some (status, t)" shows "same_objects s t"
proof -
  obtain ok u where u: "(if mode_id = kV1Sta then changeFirmwareMode env STA s
      else if mode_id = kV1Ap then changeFirmwareMode env AP s else (True, s)) = (ok, u)"
    by (meson surj_pair)
  have su: "same_objects s u"
    using u by (auto simp: changeFirmwareMode_def dest: same_legacy split: if_splits)
  show ?thesis
  proof (cases ok)
    case False
    then show ?thesis using assms u su by (auto simp: enter_mode_def)
  next
    case True
    then obtain e h where start: "legacy_start env (wf_legacy u) = Some (e, h)"
      using assms u by (auto simp: enter_mode_def bind_eq_Some_conv)
    have uh: "same_objects s (u\<lparr>wf_legacy := h\<rparr>)" using same_with_legacy [OF su legacy_start_stop [OF start]] .
    obtain r1 v where v: "registerRadioModeChangeCallback env (u\<lparr>wf_legacy := h\<rparr>) = (r1, v)" by (meson surj_pair)
    obtain q w where q: "requestChipDebugInfoInternal env v = (q, w)" by (meson surj_pair)
    obtain r2 f d where "q = (r2, f, d)" by (rule prod_cases3)
    with q have w: "requestChipDebugInfoInternal env v = ((r2, f, d), w)" by simp
    have "same_objects s w" using same_trans [OF uh] same_trans [OF same_radio [OF v] same_debug_info [OF w]] by blast
    then show ?thesis
      using assms u True start v w uh by (auto simp: enter_mode_def Let_def split: if_splits)
  qed
qed

lemma leave_mode_smaller:
  assumes obj: "objects_ok s" and r: "leave_mode env s = Some (status, t)"
  shows "smaller s t \<and> (isValidModeId (ch_modes s) (ch_current_mode_id s) \<longrightarrow> listed t = [])"
proof (cases "isValidModeId (ch_modes s) (ch_current_mode_id s)")
  case True
  from True r obtain u where u: "invalidateAndRemoveAllIfaces env s = Some u"
    by (auto simp: leave_mode_def bind_eq_Some_conv)
  obtain e m h where stop: "legacy_stop env False (wf_legacy u) = (e, m, h)" by (rule prod_cases3)
  have t: "t = u\<lparr>wf_legacy := h\<rparr>" using True r u stop by (simp add: leave_mode_def)
  from smaller_remove_all [OF obj u] have "smaller s u" "listed u = []" by simp_all
  moreover have "same_objects u t"
    using legacy_stop_stop(1) [OF stop] unfolding t by (simp add: same_objects_def stop_pending_def)
  moreover have "listed t = []" using calculation(2) t by (simp add: listed_def)
  ultimately show ?thesis using smaller_trans smaller_same by blast
qed (use r in \<open>simp add: leave_mode_def\<close>)

lemma mode_update [simp]:
  "objects_ok (u\<lparr>ch_current_mode_id := m\<rparr>) = objects_ok u" "names_ok (u\<lparr>ch_current_mode_id := m\<rparr>) = names_ok u"
  "chip_ok env (u\<lparr>ch_current_mode_id := m\<rparr>) = chip_ok env u" "stop_ok (u\<lparr>ch_current_mode_id := m\<rparr>) = stop_ok u"
  by (simp_all add: objects_ok_def names_ok_def chip_ok_def stop_ok_def stop_pending_def listed_def)

lemma wifi_inv_configure:
  assumes inv: "wifi_inv env s" and r: "configureChipInternal env mode_id s = Some (status, t)"
  shows "wifi_inv env t"
proof -
  have obj: "objects_ok s" using inv by (simp add: wifi_inv_def)
  consider "t = s" | st u where "handleChipConfiguration env mode_id s = Some (st, u)"
      "same_objects u t \<or> (ws_code st = SUCCESS \<and> same_objects (u\<lparr>ch_current_mode_id := mode_id\<rparr>) t)"
  proof (cases "isValidModeId (ch_modes s) mode_id \<and> mode_id \<noteq> ch_current_mode_id s")
    case True
    then obtain st u where u: "handleChipConfiguration env mode_id s = Some (st, u)"
      using r by (auto simp: configureChipInternal_def bind_eq_Some_conv)
    have keep: "same_objects (u\<lparr>ch_current_mode_id := mode_id\<rparr>)
        ((notify_chip ev u)\<lparr>ch_current_mode_id := mode_id\<rparr>)" for ev
      by (simp add: notify_chip_def same_objects_def stop_pending_def)
    have "same_objects u t \<or> (ws_code st = SUCCESS \<and> same_objects (u\<lparr>ch_current_mode_id := mode_id\<rparr>) t)"
      using r True u keep by (cases "ws_code st = SUCCESS") (auto simp: configureChipInternal_def)
    then show thesis by (rule that(2) [OF u])
  next
    case False
    then show thesis using r that(1) by (auto simp: configureChipInternal_def split: if_splits)
  qed
  then show ?thesis
  proof cases
    case 2
    then obtain st1 v where v: "leave_mode env s = Some (st1, v)"
        and u: "if ws_code st1 \<noteq> SUCCESS then st = st1 \<and> u = v else enter_mode env mode_id v = Some (st, u)"
      by (auto simp: handleChipConfiguration_def bind_eq_Some_conv split: if_splits)
    note lv = leave_mode_smaller [OF obj v]
    have vu: "same_objects v u" using u same_enter_mode by (auto split: if_splits)
    have su: "smaller s u" using smaller_trans [OF conjunct1 [OF lv] smaller_same [OF vu]] .
    have inv_u: "wifi_inv env u" using smaller_inv [OF su inv] .
    have "no_ifaces u"
    proof (cases "isValidModeId (ch_modes s) (ch_current_mode_id s)")
      case True
      then show ?thesis using lv vu by (simp add: no_ifaces_iff listed_def same_objects_def)
    next
      case False
      then have "no_ifaces s" using inv by (simp add: wifi_inv_def mode_fits_def)
      then show ?thesis using smaller_empty [OF su] unfolding no_ifaces_def by blast
    qed
    then have "no_ifaces (u\<lparr>ch_current_mode_id := mode_id\<rparr>)" by (simp add: no_ifaces_iff)
    then have "wifi_inv env (u\<lparr>ch_current_mode_id := mode_id\<rparr>)"
      using inv_u by (simp add: wifi_inv_def mode_fits_def)
    then show ?thesis using 2(2) inv_u same_inv by blast
  qed (use inv in simp)
qed

lemma same_initialize: "initializeModeControllerAndLegacyHal env s = (status, t) \<Longrightarrow> same_objects s t"
  by (auto simp: initializeModeControllerAndLegacyHal_def split: prod.splits if_splits dest!: same_legacy
      intro: same_trans)

lemma wifi_inv_start:
  assumes inv: "wifi_inv env s" and r: "startInternal env s = (status, t)"
  shows "wifi_inv env t"
proof (cases "wf_run_state s = STOPPED")
  case True
  obtain st u where u: "initializeModeControllerAndLegacyHal env s = (st, u)" by (meson surj_pair)
  have su: "same_objects s u" using same_initialize [OF u] .
  have inv_u: "wifi_inv env u" using same_inv [OF su inv] .
  show ?thesis
  proof (cases "ws_code st = SUCCESS")
    case True
    let ?c = "(new_WifiChip env u)\<lparr>wf_chip := True, wf_run_state := STARTED\<rparr>"
    have t: "t = notify_wifi OnStart ?c" using r u True \<open>wf_run_state s = STOPPED\<close> by (simp add: startInternal_def)
    have "\<not> ch_is_valid s" using inv \<open>wf_run_state s = STOPPED\<close> by (auto simp: wifi_inv_def chip_ok_def)
    then have "listed u = []" using inv_u su by (simp add: wifi_inv_def chip_ok_def same_objects_def)
    moreover have "\<not> stop_pending u" using inv_u su \<open>wf_run_state s = STOPPED\<close>
      by (auto simp: wifi_inv_def stop_ok_def same_objects_def)
    ultimately have "wifi_inv env ?c"
      using inv_u by (auto simp: stop_ok_def stop_pending_def wifi_inv_def objects_ok_def names_ok_def mode_fits_def chip_ok_def listed_def
          new_WifiChip_def setActiveWlanIfaceNameProperty_def no_ifaces_iff)
    then show ?thesis using same_inv [of ?c t] t by simp
  next
    case False
    then have "same_objects u t" using r u True by (auto simp: startInternal_def)
    then show ?thesis using same_inv inv_u by blast
  qed
qed (use r inv in \<open>auto simp: startInternal_def split: RunState.splits\<close>)

text \<open>A chip that is gone leaves the run state free to change between stopping and stopped.\<close>

lemma wifi_inv_gone:
  assumes "objects_ok u" "listed u = []" "listed x = []" "wf_next x = wf_next u" "wf_invalid x = wf_invalid u"
    and "\<not> wf_chip x" "\<not> ch_is_valid x" "wf_run_state x \<noteq> STARTED" "stop_ok x"
  shows "wifi_inv env x"
  unfolding wifi_inv_def
proof (intro conjI)
  show "objects_ok x" using assms by (simp add: objects_ok_def)
  show "names_ok x" "mode_fits x" using assms(3) by (simp_all add: names_ok_def mode_fits_def no_ifaces_iff listed_def)
  show "chip_ok env x" "stop_ok x" using assms by (simp_all add: chip_ok_def)
qed

lemma wifi_inv_stop_complete:
  assumes inv: "wifi_inv env s" and r: "legacy_call (onAsyncStopComplete env) s = (mk, t)"
  shows "wifi_inv env (mark_stopped mk t)"
proof -
  obtain h where h: "onAsyncStopComplete env (wf_legacy s) = (mk, h)" and t: "t = s\<lparr>wf_legacy := h\<rparr>"
    using r by (auto simp: legacy_call_def split: prod.splits)
  note stop = stop_complete_stop [OF h]
  show ?thesis
  proof (cases mk)
    case True
    then have "wf_run_state s = STOPPING" using inv stop by (simp add: wifi_inv_def stop_ok_def stop_pending_def)
    then have "\<not> wf_chip s" "\<not> ch_is_valid s" "listed s = []" using inv by (auto simp: wifi_inv_def chip_ok_def)
    then show ?thesis using inv stop t True
      by (intro wifi_inv_gone [of s]) (simp_all add: wifi_inv_def mark_stopped_def listed_def stop_ok_def stop_pending_def)
  next
    case False
    then have "same_objects s (mark_stopped mk t)"
      using stop t by (simp add: mark_stopped_def same_objects_def stop_pending_def)
    then show ?thesis using same_inv inv by blast
  qed
qed

lemma wifi_inv_stop:
  assumes inv: "wifi_inv env s" and r: "stopInternal env s = Some (status, t)"
  shows "wifi_inv env t"
proof (cases "wf_run_state s = STARTED")
  case True
  then have chip: "wf_chip s" using inv by (auto simp: wifi_inv_def chip_ok_def)
  obtain u where u: "invalidateAndRemoveAllIfaces env s = Some u"
    using r True chip by (auto simp: stopInternal_def chip_invalidate_def bind_eq_Some_conv)
  let ?v = "(setActiveWlanIfaceNameProperty [] u)\<lparr>ch_callbacks := [], ch_is_valid := False, wf_chip := False\<rparr>"
  obtain ws x where x: "stopLegacyHalAndDeinitializeModeController env ?v = (ws, x)" by (meson surj_pair)
  have xt: "same_objects x t" using r True chip u x by (auto simp: stopInternal_def chip_invalidate_def)
  have rm: "smaller s u" "listed u = []" using smaller_remove_all [OF _ u] inv by (simp_all add: wifi_inv_def)
  have none: "\<not> stop_pending s" using inv True by (simp add: wifi_inv_def stop_ok_def)
  have inv_v: "wifi_inv env (?v\<lparr>wf_run_state := st, wf_legacy := h\<rparr>)"
    if "st \<noteq> STARTED" "lh_stop_cb h = Some True \<longrightarrow> st = STOPPING" for st h
    by (rule wifi_inv_gone [of u]) (use smaller_objects [OF rm(1)] inv rm(2) that in
      \<open>simp_all add: wifi_inv_def setActiveWlanIfaceNameProperty_def listed_def stop_ok_def stop_pending_def\<close>)
  obtain e m h where stop: "legacy_stop env True (wf_legacy ?v) = (e, m, h)" by (rule prod_cases3)
  let ?w = "mark_stopped m (?v\<lparr>wf_run_state := STOPPING, wf_legacy := h\<rparr>)"
  have "lh_stop_cb (wf_legacy ?v) \<noteq> Some True"
    using none rm(1) by (auto simp: smaller_def stop_pending_def setActiveWlanIfaceNameProperty_def)
  then have "lh_stop_cb h = Some True \<longrightarrow> \<not> m" using legacy_stop_stop(1) [OF stop] by blast
  then have "wifi_inv env (?v\<lparr>wf_run_state := if m then STOPPED else STOPPING, wf_legacy := h\<rparr>)"
    by (intro inv_v) auto
  moreover have "?w = ?v\<lparr>wf_run_state := if m then STOPPED else STOPPING, wf_legacy := h\<rparr>"
    by (simp add: mark_stopped_def)
  ultimately have inv_w: "wifi_inv env ?w" by simp
  have "same_objects ?w x"
    using x stop
    by (auto simp: stopLegacyHalAndDeinitializeModeController_def Let_def split: if_splits prod.splits
        dest!: same_legacy)
  then show ?thesis using same_inv [OF xt] same_inv inv_w by blast
qed (use r inv in \<open>auto simp: stopInternal_def split: RunState.splits\<close>)

subsection \<open>Every call\<close>

lemma same_ring_callback: "registerDebugRingBufferCallback env s = (status, t) \<Longrightarrow> same_objects s t"
  by (auto simp: registerDebugRingBufferCallback_def dest!: same_legacy split: prod.splits if_splits)

lemma same_start_logging: "startLoggingToDebugRingBufferInternal env ring a b c s = (status, t) \<Longrightarrow> same_objects s t"
  by (auto simp: startLoggingToDebugRingBufferInternal_def dest!: same_legacy same_ring_callback
      split: prod.splits if_splits intro: same_trans)

lemma same_force_dump: "forceDumpToDebugRingBufferInternal env ring s = (status, t) \<Longrightarrow> same_objects s t"
  by (auto simp: forceDumpToDebugRingBufferInternal_def dest!: same_legacy same_ring_callback
      split: prod.splits if_splits intro: same_trans)

lemma same_stop_logging: "stopLoggingToDebugRingBufferInternal env s = (status, t) \<Longrightarrow> same_objects s t"
  by (auto simp: stopLoggingToDebugRingBufferInternal_def dest!: same_legacy split: prod.splits)

lemma same_alerts: "enableDebugErrorAlertsInternal env enable s = (status, t) \<Longrightarrow> same_objects s t"
  by (cases enable) (auto simp: enableDebugErrorAlertsInternal_def dest!: same_legacy split: prod.splits)

lemma same_ring_data: "onAsyncRingBufferData name data ok s = Some t \<Longrightarrow> same_objects s t"
  by (auto simp: onAsyncRingBufferData_def bind_eq_Some_conv split: if_splits option.splits)

lemma same_alert: "same_objects s (onAsyncErrorAlert code data s)"
  by (simp add: onAsyncErrorAlert_def)

lemma same_register:
  "chip_registerEventCallback cb linked s = (status, t) \<Longrightarrow> same_objects s t"
  "wifi_registerEventCallback cb linked s = (status, t) \<Longrightarrow> same_objects s t"
  by (auto simp: chip_registerEventCallback_def wifi_registerEventCallback_def split: prod.splits)

lemma wifi_inv_new: "wifi_inv env (new_wifi v)"
  by (simp add: wifi_inv_def objects_ok_def names_ok_def mode_fits_def chip_ok_def stop_ok_def stop_pending_def
      no_ifaces_iff listed_def new_wifi_def new_legacy_hal_def)

lemma validated_inv:
  assumes "validateAndCall chip work s = Some (status, t)" "wifi_inv env s"
    and "ch_is_valid s \<Longrightarrow> work s = Some (status, t) \<Longrightarrow> wifi_inv env t"
  shows "wifi_inv env t"
  using assms by (auto simp: validateAndCall_def split: if_splits)

lemma without_value_Some: "without_value r = Some (status, t) \<longleftrightarrow> (\<exists>x. r = Some ((status, x), t))"
  by (auto simp: without_value_def)

lemma same_event_loop: "runEventLoop_end (wf_legacy s) = Some h \<Longrightarrow> same_objects s (s\<lparr>wf_legacy := h\<rparr>)"
  by (auto simp: runEventLoop_end_def same_objects_def stop_pending_def split: if_splits)

lemma wifi_call_inv:
  assumes inv: "wifi_inv env s" and modes: "modes_ok (env_modes env)" and r: "wifi_call env op s = Some (status, t)"
  shows "wifi_inv env t"
proof (cases op)
  case Start
  then show ?thesis using r wifi_inv_start [OF inv] by simp
next
  case Stop
  then show ?thesis using r wifi_inv_stop [OF inv] by simp
next
  case (Configure chip mode_id)
  then show ?thesis using r validated_inv [OF _ inv] wifi_inv_configure [OF inv] by fastforce
next
  case (Create chip type)
  then have "validateAndCall chip (\<lambda>s. without_value (create_iface env type s)) s = Some (status, t)" using r by simp
  then show ?thesis using inv
    by (rule validated_inv) (use wifi_inv_create [OF inv modes] in \<open>auto simp: without_value_Some\<close>)
next
  case (Remove chip type ifname)
  then have "validateAndCall chip (remove_iface env type ifname) s = Some (status, t)" using r by simp
  then show ?thesis using inv
    by (rule validated_inv) (use smaller_inv [OF smaller_remove inv] inv in \<open>auto simp: wifi_inv_def\<close>)
next
  case (Create_Rtt chip)
  then have "validateAndCall chip (\<lambda>s. without_value (createRttControllerInternal env s)) s = Some (status, t)"
    using r by simp
  then show ?thesis using inv
    by (rule validated_inv) (use wifi_inv_rtt [OF inv] in \<open>auto simp: without_value_Some\<close>)
next
  case Stop_Complete
  then show ?thesis using r wifi_inv_stop_complete [OF inv] by (auto split: prod.splits)
next
  case Event_Loop_End
  then show ?thesis using r same_inv [OF same_event_loop inv] by auto
next
  case (Ring_Data name data ok)
  then show ?thesis using r same_inv [OF same_ring_data inv] by auto
qed (use r inv in \<open>auto simp: validateAndCall_def same_alert split: if_splits
      dest!: same_register same_start_logging same_force_dump same_stop_logging same_alerts
      intro: same_inv [OF _ inv]\<close>)

interpretation wifi: abortable_system "\<lambda>s. modes_ok (env_modes env) \<and> wifi_inv env s" "wifi_call env" "wifi_run env" for env
  by unfold_locales (auto dest: wifi_call_inv)

lemma wifi_run_inv:
  assumes "modes_ok (env_modes env)" "wifi_inv env s" "wifi_run env ops s = Some (statuses, t)"
  shows "wifi_inv env t"
  using wifi.run_inv [of env s ops statuses t] assms by blast

end
