(* ===== verification/WifiBehaviour.thy ===== *)
theory WifiBehaviour
  imports WifiSafety
begin

text \<open>
  What the Wi-Fi HAL promises and where it fails to keep it, over the model of \<open>WifiService\<close>: the
  interfaces always fit the mode, an object is usable exactly while it is listed, how an interface
  is named and removed, how a stop ends; and the states a client cannot get out of (a failed change
  of the mode, a second start of the logging, a NAN interface whose registration failed).
\<close>

subsection \<open>A concrete vendor library\<close>

text \<open>
  The state of the sample vendor is a number: 1 makes the NAN registration fail, 2 makes the list
  of interfaces fail, 3 makes a stop take longer than the HAL waits, 4 makes the change to the
  access point firmware fail; anything else works.
\<close>

definition sample_env :: "nat wifi_env" where
  "sample_env = \<lparr>
     wifi_init_func_table = Pair WIFI_SUCCESS, wifi_wait_for_driver_ready = Pair WIFI_SUCCESS,
     SetWifiUpState = (\<lambda>_. Pair True), wifi_initialize = Pair (WIFI_SUCCESS, Some 7),
     wifi_get_ifaces = (\<lambda>v. ((if v = 2 then WIFI_ERROR_UNKNOWN else WIFI_SUCCESS, [1]), v)),
     wifi_get_iface_name = (\<lambda>_. Pair (WIFI_SUCCESS, ''wlan0'')),
     wifi_cleanup = (\<lambda>v. ((v \<noteq> 3, v \<noteq> 3), v)),
     wifi_get_driver_version = (\<lambda>_. Pair (WIFI_SUCCESS, ''d'')),
     wifi_get_firmware_version = (\<lambda>_. Pair (WIFI_SUCCESS, ''f'')),
     wifi_set_nodfs_flag = (\<lambda>_ _. Pair WIFI_SUCCESS), wifi_set_log_handler = (\<lambda>_. Pair WIFI_SUCCESS),
     wifi_reset_log_handler = (\<lambda>_. Pair WIFI_SUCCESS),
     wifi_start_logging = (\<lambda>_ _ _ _ _. Pair WIFI_SUCCESS),
     wifi_get_ring_data = (\<lambda>_ _. Pair WIFI_SUCCESS), wifi_set_alert_handler = (\<lambda>_. Pair WIFI_SUCCESS),
     wifi_reset_alert_handler = (\<lambda>_. Pair WIFI_SUCCESS),
     wifi_set_radio_mode_change_handler = (\<lambda>_. Pair WIFI_SUCCESS),
     nan_register_handler = (\<lambda>_ v. (if v = 1 then WIFI_ERROR_NOT_SUPPORTED else WIFI_SUCCESS, v)),
     nan_disable_request = (\<lambda>_ _. Pair WIFI_SUCCESS),
     nan_data_interface_delete = (\<lambda>_ _ _. Pair WIFI_SUCCESS),
     LoadDriver = Pair True, UnloadDriver = Pair True, ChangeFirmwareMode = (\<lambda>m v. (\<not> (v = 4 \<and> m = kFirmwareModeAp), v)),
     SetUpState = (\<lambda>_ _. Pair True), SetMacAddress = (\<lambda>_ _. Pair True),
     random_bytes = Pair [1, 2, 3, 4, 5, 6], env_property = (\<lambda>_. []),
     env_modes = kChipModes None False False True, env_ap_mac_fixed = False\<rparr>"

definition dual_env :: "nat wifi_env" where
  "dual_env = sample_env\<lparr>env_modes := dual_modes\<rparr>"

lemma sample_modes_ok: "modes_ok (env_modes sample_env)" "modes_ok (env_modes dual_env)"
  by (simp_all add: sample_env_def dual_env_def dual_modes_def kChipModes_ok)

lemma dual_env_modes: "env_modes dual_env = dual_modes"
  by (simp add: dual_env_def)

definition after_run :: "nat wifi_env \<Rightarrow> wifi_op list \<Rightarrow> nat \<Rightarrow> nat wifi" where
  "after_run env ops v = snd (the (wifi_run env ops (new_wifi v)))"

subsection \<open>Interfaces fit the mode, and usable objects are the listed ones\<close>

text \<open>
  C20: Whatever clients, vendor library and vendor threads do, in any order, with any failures: the
  interfaces of the chip fit into one of the combinations of the mode it is in (with none left
  when it is in no mode or not valid), and no two station or access point interfaces share a name.
\<close>

theorem interfaces_fit_mode:
  assumes "modes_ok (env_modes env)" "wifi_run env ops (new_wifi v) = Some (statuses, s)"
  shows "((\<forall>type. ifaces_of type s = []) \<or>
      (ch_is_valid s \<and> isValidModeId (env_modes env) (ch_current_mode_id s) \<and>
       fits (getCurrentModeIfaceCombinations (env_modes env) (ch_current_mode_id s)) (getCurrentIfaceCombination s))) \<and>
    distinct (map wi_name (ch_ap s @ ch_sta s))"
proof -
  have inv: "wifi_inv env s" using wifi_run_inv [OF assms(1) wifi_inv_new assms(2)] .
  show ?thesis
  proof (cases "ch_is_valid s")
    case True
    then show ?thesis using inv by (auto simp: wifi_inv_def mode_fits_def chip_ok_def no_ifaces_def names_ok_def)
  next
    case False
    then have "no_ifaces s" using inv by (simp add: wifi_inv_def chip_ok_def listed_def no_ifaces_iff)
    then show ?thesis using inv by (simp add: no_ifaces_def wifi_inv_def names_ok_def)
  qed
qed

lemma run_result:
  "wifi_run env ops (new_wifi v) \<noteq> None \<Longrightarrow>
   wifi_run env ops (new_wifi v) = Some (fst (the (wifi_run env ops (new_wifi v))), after_run env ops v)"
  by (auto simp: after_run_def)

definition busy_ops :: "wifi_op list" where
  "busy_ops = [Wifi_Register 4 True, Start, Configure 1 kV3, Create 1 STA, Create 1 AP, Create_Rtt 1]"

lemma busy_run: "wifi_run dual_env busy_ops (new_wifi 0) \<noteq> None"
  by code_simp

theorem interfaces_fit_mode_witness:
  "map wi_name (ch_sta (after_run dual_env busy_ops 0)) = [''wlan0''] \<and>
   map wi_name (ch_ap (after_run dual_env busy_ops 0)) = [''wlan1''] \<and>
   fits (getCurrentModeIfaceCombinations dual_modes kV3) (getCurrentIfaceCombination (after_run dual_env busy_ops 0))"
proof -
  have names: "map wi_name (ch_sta (after_run dual_env busy_ops 0)) = [''wlan0'']"
    "map wi_name (ch_ap (after_run dual_env busy_ops 0)) = [''wlan1'']"
    and mode: "ch_current_mode_id (after_run dual_env busy_ops 0) = kV3"
    by code_simp+
  from names have "\<not> (\<forall>type. ifaces_of type (after_run dual_env busy_ops 0) = [])"
    by (metis ifaces_of.simps(4) list.distinct(1) list.simps(8))
  with interfaces_fit_mode [OF sample_modes_ok(2) run_result [OF busy_run]] mode names
  show ?thesis unfolding dual_env_modes by metis
qed

text \<open>
  C21: An interface object is usable exactly while its owner says so. In every reachable state the
  objects of all interfaces and RTT controllers ever made are divided: each is listed by the chip
  or has been invalidated, and only a NAN object can be both; and unless the HAL is started no
  chip is valid and every object is invalid, so a client can do nothing with what it still holds.
\<close>

theorem usable_iff_listed:
  assumes "modes_ok (env_modes env)" "wifi_run env ops (new_wifi v) = Some (statuses, s)" "i < wf_next s"
  shows "(i \<notin> set (wf_invalid s) \<longrightarrow> (\<exists>!iface. iface \<in> set (listed s) \<and> wi_id iface = i)) \<and>
    (\<forall>iface \<in> set (ch_ap s @ ch_p2p s @ ch_sta s @ ch_rtt s). wi_id iface = i \<longrightarrow> i \<notin> set (wf_invalid s)) \<and>
    (wf_run_state s \<noteq> STARTED \<longrightarrow> i \<in> set (wf_invalid s) \<and> \<not> ch_is_valid s \<and> \<not> wf_chip s)"
proof -
  have inv: "objects_ok s" "chip_ok env s"
    using wifi_run_inv [OF assms(1) wifi_inv_new assms(2)] by (simp_all add: wifi_inv_def)
  have dist: "distinct (map wi_id (listed s))" and all: "i \<in> ids (listed s) \<union> set (wf_invalid s)"
    and nan: "\<And>iface. iface \<in> set (listed s) \<Longrightarrow> wi_id iface \<in> set (wf_invalid s) \<Longrightarrow> iface \<in> set (ch_nan s)"
    using inv(1) assms(3) by (auto simp: objects_ok_def)
  have "\<exists>!iface. iface \<in> set (listed s) \<and> wi_id iface = i" if "i \<notin> set (wf_invalid s)"
    using that all dist by (auto simp: ids_def distinct_map inj_on_def)
  moreover have "i \<notin> set (wf_invalid s)"
    if "iface \<in> set (ch_ap s @ ch_p2p s @ ch_sta s @ ch_rtt s)" "wi_id iface = i" for iface
  proof
    assume "i \<in> set (wf_invalid s)"
    then have "iface \<in> set (ch_nan s)" using nan [of iface] that by (auto simp: listed_def)
    moreover have "distinct (listed s)" using dist by (simp add: distinct_map)
    ultimately show False using that(1) by (auto simp: listed_def)
  qed
  moreover have "i \<in> set (wf_invalid s) \<and> \<not> ch_is_valid s \<and> \<not> wf_chip s" if "wf_run_state s \<noteq> STARTED"
    using that inv(2) all by (auto simp: chip_ok_def)
  ultimately show ?thesis by blast
qed

theorem usable_iff_listed_witness:
  "set (wf_invalid (after_run dual_env (busy_ops @ [Stop]) 0)) = {0, 1, 2} \<and>
   \<not> ch_is_valid (after_run dual_env (busy_ops @ [Stop]) 0)"
proof -
  let ?s = "after_run dual_env (busy_ops @ [Stop]) 0"
  have run: "wifi_run dual_env (busy_ops @ [Stop]) (new_wifi 0) \<noteq> None"
    and n: "wf_next ?s = 3" and st: "wf_run_state ?s = STOPPED" and bad: "set (wf_invalid ?s) \<subseteq> {0, 1, 2}"
    by code_simp+
  note all = usable_iff_listed [OF sample_modes_ok(2) run_result [OF run]]
  have "i \<in> set (wf_invalid ?s)" if "i < 3" for i using all [of i] that n st by simp
  then have "{0, 1, 2} \<subseteq> set (wf_invalid ?s)" by simp
  then have "set (wf_invalid ?s) = {0, 1, 2}" using bad by (rule equalityI [rotated])
  moreover have "\<not> ch_is_valid ?s" using all [of 0] n st by (metis RunState.distinct(1) zero_less_numeral)
  ultimately show ?thesis ..
qed

subsection \<open>Creating and removing a station\<close>

definition free_indices :: "'v wifi_env \<Rightarrow> 'v wifi \<Rightarrow> nat \<Rightarrow> nat list" where
  "free_indices env s start = filter (\<lambda>i. wlan_name env i \<notin> wi_name ` set (ch_ap s @ ch_sta s)) [start..<5]"

lemma findUsingName_None: "findUsingName ifaces x = None \<longleftrightarrow> x \<notin> wi_name ` set ifaces"
  by (auto simp: findUsingName_def find_None_iff)

lemma allocate_loop_first:
  "idx + n = 5 \<Longrightarrow> allocate_loop env n idx s =
     (case free_indices env s idx of [] \<Rightarrow> None | i # _ \<Rightarrow> Some (wlan_name env i))"
proof (induction n arbitrary: idx)
  case (Suc n)
  then have "[idx..<5] = idx # [Suc idx..<5]" by (simp add: upt_rec)
  moreover have "getWlanIfaceName env idx = Some (wlan_name env idx)"
    using Suc.prems by (simp add: getWlanIfaceName_def kMaxWlanIfaces_def)
  ultimately show ?case using Suc.IH [of "Suc idx"] Suc.prems
    by (auto simp: findUsingName_None free_indices_def simp del: findUsingName_def)
qed (simp add: free_indices_def)

text \<open>
  Creating a station interface in a mode the chip is in: it is refused, with no change, exactly
  when the interfaces that exist and one more station do not fit the mode; otherwise the new
  interface takes the first of the five wlan names that no station or access point uses (when all
  are in use the process aborts), is added behind the others, is announced once to every callback,
  and the first station stays, or becomes, the active interface.
\<close>

theorem station_gets_first_free_name:
  assumes "modes_ok (ch_modes s)" "isValidModeId (ch_modes s) (ch_current_mode_id s)"
  shows "createStaIfaceInternal env s =
    (if \<not> fits (getCurrentModeIfaceCombinations (ch_modes s) (ch_current_mode_id s))
           ((getCurrentIfaceCombination s)(STA := length (ch_sta s) + 1))
     then Some ((createWifiStatus ERROR_NOT_AVAILABLE, None), s)
     else case free_indices env s 0 of
       [] \<Rightarrow> None
     | i # _ \<Rightarrow>
         let name = wlan_name env i; iface = \<lparr>wi_id = wf_next s, wi_name = name\<rparr> in
         Some ((createWifiStatus SUCCESS, Some iface),
           s\<lparr>wf_next := wf_next s + 1, wf_legacy := snd (setDfsFlag env name True (wf_legacy s)),
             ch_sta := ch_sta s @ [iface],
             wf_events := wf_events s @ map (\<lambda>cb. (cb, OnIfaceAdded STA name)) (ch_callbacks s),
             wf_active := wi_name (hd (ch_sta s @ [iface]))\<rparr>))"
proof -
  have active: "getFirstActiveWlanIfaceName env t = wi_name (hd (ch_sta t))" if "ch_sta t \<noteq> []" for t
    using that by (cases "ch_sta t") (simp_all add: getFirstActiveWlanIfaceName_def)
  have "can_create STA s = Some (fits (getCurrentModeIfaceCombinations (ch_modes s) (ch_current_mode_id s))
      ((getCurrentIfaceCombination s)(STA := length (ch_sta s) + 1)))"
    using interface_check_decides [OF assms, of "getCurrentIfaceCombination s" STA]
    by (simp add: can_create_def getCurrentIfaceCombination_def)
  moreover have "allocateStaIfaceName env s =
      (case free_indices env s 0 of [] \<Rightarrow> None | i # _ \<Rightarrow> Some (wlan_name env i))"
    by (simp add: allocateStaIfaceName_def allocateApOrStaIfaceName_def kMaxWlanIfaces_def allocate_loop_first)
  moreover have "new_WifiStaIface env name s = (\<lparr>wi_id = wf_next s, wi_name = name\<rparr>,
      s\<lparr>wf_next := wf_next s + 1, wf_legacy := snd (setDfsFlag env name True (wf_legacy s))\<rparr>)" for name
    by (simp add: new_WifiStaIface_def new_object_def legacy_call_def split: prod.split)
  ultimately show ?thesis
    by (auto simp: createStaIfaceInternal_def add_iface_def notify_chip_def set_active_iface_def Let_def active
        setActiveWlanIfaceNameProperty_def hd_append split: list.split)
qed

definition idle_ops :: "wifi_op list" where
  "idle_ops = [Wifi_Register 4 True, Start, Configure 1 kV3, Chip_Register 1 9 True]"

theorem station_gets_first_free_name_witness:
  "fits (getCurrentModeIfaceCombinations dual_modes kV3) ((\<lambda>_. 0)(STA := 1)) \<and>
   ch_current_mode_id (after_run dual_env idle_ops 0) = kV3"
proof -
  let ?s = "after_run dual_env idle_ops 0"
  have made: "map_option (\<lambda>r. ws_code (fst (fst r))) (createStaIfaceInternal dual_env ?s) = Some SUCCESS"
    and modes: "ch_modes ?s = dual_modes" and mode: "ch_current_mode_id ?s = kV3"
    and none: "ch_ap ?s = []" "ch_nan ?s = []" "ch_p2p ?s = []" "ch_sta ?s = []"
    by code_simp+
  have counts: "getCurrentIfaceCombination ?s = (\<lambda>_. 0)"
  proof
    fix type show "getCurrentIfaceCombination ?s type = 0"
      using none by (cases type) (simp_all add: getCurrentIfaceCombination_def)
  qed
  have ok: "modes_ok (ch_modes ?s)" "isValidModeId (ch_modes ?s) (ch_current_mode_id ?s)"
    using dual_modes_ok modes mode by simp_all
  show ?thesis
  proof (rule ccontr)
    assume "\<not> ?thesis"
    then have "createStaIfaceInternal dual_env ?s = Some ((createWifiStatus ERROR_NOT_AVAILABLE, None), ?s)"
      using station_gets_first_free_name [OF ok, of dual_env] mode none
      unfolding modes mode counts by (simp del: fun_upd_apply)
    then show False using made by simp
  qed
qed

lemma rtt_dependencies_overrun:
  "length (ch_rtt s) < i + n \<Longrightarrow> 0 < n \<Longrightarrow> rtt_dependencies n i removed s = None"
proof (induction n arbitrary: i s)
  case (Suc n)
  show ?case
  proof (cases "i < length (ch_rtt s)")
    case True
    have "length (filter P (ch_rtt s)) < Suc i + n" for P
      using Suc.prems(1) length_filter_le [of P "ch_rtt s"] by linarith
    moreover have "0 < n" using True Suc.prems by (cases n) auto
    ultimately show ?thesis using Suc.IH Suc.prems(1) True by (simp add: vec_at_def Let_def)
  qed (simp add: vec_at_def)
qed simp

lemma filter_others:
  assumes "distinct (map f (xs @ y # ys))"
  shows "filter (\<lambda>z. f z \<noteq> f y) (xs @ y # ys) = xs @ ys"
proof -
  have "f y \<notin> f ` set xs" "f y \<notin> f ` set ys" using assms by simp_all
  then have "f z \<noteq> f y" if "z \<in> set xs \<union> set ys" for z using that by (metis UnE imageI)
  then have "filter (\<lambda>z. f z \<noteq> f y) xs = xs" "filter (\<lambda>z. f z \<noteq> f y) ys = ys"
    by (simp_all add: filter_id_conv)
  then show ?thesis by simp
qed

lemma rtt_dependencies_eq:
  assumes "distinct (map wi_id (ch_rtt s))" "i + n = length (ch_rtt s)"
    and "\<forall>rtt \<in> set (take i (ch_rtt s)). wi_name rtt \<noteq> removed"
  shows "rtt_dependencies n i removed s =
    (if \<exists>rtt \<in> set (butlast (ch_rtt s)). wi_name rtt = removed then None
     else Some ((fold mark_invalid (filter (\<lambda>rtt. wi_name rtt = removed) (ch_rtt s)) s)
            \<lparr>ch_rtt := filter (\<lambda>rtt. wi_name rtt \<noteq> removed) (ch_rtt s)\<rparr>))"
  using assms(2,3)
proof (induction n arbitrary: i)
  case 0
  then have "\<forall>rtt \<in> set (ch_rtt s). wi_name rtt \<noteq> removed" by simp
  moreover from this have "filter (\<lambda>rtt. wi_name rtt = removed) (ch_rtt s) = []"
    "filter (\<lambda>rtt. wi_name rtt \<noteq> removed) (ch_rtt s) = ch_rtt s" by (auto simp: filter_empty_conv)
  ultimately show ?case by (auto dest: in_set_butlastD)
next
  case (Suc n)
  let ?l = "ch_rtt s" and ?r = "ch_rtt s ! i"
  have i: "i < length ?l" using Suc.prems(1) by simp
  have split: "?l = take i ?l @ ?r # drop (Suc i) ?l" using i by (simp add: id_take_nth_drop)
  show ?case
  proof (cases "wi_name ?r = removed")
    case False
    then have "\<forall>rtt \<in> set (take (Suc i) ?l). wi_name rtt \<noteq> removed"
      using Suc.prems(2) i by (simp add: take_Suc_conv_app_nth)
    then show ?thesis using Suc.IH [of "Suc i"] Suc.prems(1) False i by (simp add: vec_at_def Let_def)
  next
    case True
    have dist: "distinct (map wi_id (take i ?l @ ?r # drop (Suc i) ?l))" using assms(1) split by metis
    have "filter (\<lambda>j. wi_id j \<noteq> wi_id ?r) ?l =
        filter (\<lambda>j. wi_id j \<noteq> wi_id ?r) (take i ?l @ ?r # drop (Suc i) ?l)"
      by (rule arg_cong [OF split])
    also have "\<dots> = take i ?l @ drop (Suc i) ?l" using dist by (rule filter_others)
    finally have removed: "filter (\<lambda>j. wi_id j \<noteq> wi_id ?r) ?l = take i ?l @ drop (Suc i) ?l" .
    show ?thesis
    proof (cases n)
      case 0
      then have last: "Suc i = length ?l" using Suc.prems(1) by simp
      then have "butlast ?l = take i ?l" by (metis butlast_conv_take diff_Suc_1)
      moreover have l: "?l = take i ?l @ [?r]" using split last by simp
      moreover have "filter (\<lambda>rtt. wi_name rtt = removed) ?l = [?r]"
        using Suc.prems(2) True by (subst l) (auto simp: filter_empty_conv)
      moreover have "filter (\<lambda>rtt. wi_name rtt \<noteq> removed) ?l = take i ?l"
        using Suc.prems(2) True by (subst l) (auto simp: filter_id_conv)
      ultimately show ?thesis
        using Suc.prems(2) True i 0 last removed by (auto simp: vec_at_def Let_def mark_invalid_def)
    next
      case (Suc m)
      have "?r \<in> set (butlast ?l)"
        using i Suc Suc.prems(1) by (metis Suc_less_eq add_Suc_right in_set_conv_nth length_butlast
            less_add_Suc1 nth_butlast diff_Suc_1 add_Suc)
      moreover have "rtt_dependencies n (Suc i) removed
          ((mark_invalid ?r s)\<lparr>ch_rtt := filter (\<lambda>j. wi_id j \<noteq> wi_id ?r) ?l\<rparr>) = None"
        using Suc Suc.prems(1) i removed by (intro rtt_dependencies_overrun) simp_all
      ultimately show ?thesis using True i by (auto simp: vec_at_def Let_def mark_invalid_def)
    qed
  qed
qed

text \<open>
  Removing a station interface that no NAN interface is bound to: the RTT controllers bound to it
  are invalidated and dropped with it, everything else stays, every callback is told once, and the
  active interface is chosen again. But the loop over the controllers erases from the vector it
  walks: as soon as a bound controller is not the last one, the walk goes past the end of the
  vector (two controllers for one interface are enough).
\<close>

theorem station_removal:
  assumes "findUsingName (ch_sta s) ifname = Some iface" "distinct (map wi_id (ch_rtt s))"
    and "\<forall>nan \<in> set (ch_nan s). wi_name nan \<noteq> ifname"
  shows "removeStaIfaceInternal env ifname s =
    (if \<exists>rtt \<in> set (butlast (ch_rtt s)). wi_name rtt = ifname then None
     else Some (createWifiStatus SUCCESS, set_active_iface env (notify_chip (OnIfaceRemoved STA ifname)
       ((fold mark_invalid (filter (\<lambda>rtt. wi_name rtt = ifname) (ch_rtt s) @ [iface]) s)
          \<lparr>ch_rtt := filter (\<lambda>rtt. wi_name rtt \<noteq> ifname) (ch_rtt s),
           ch_sta := filter (\<lambda>i. wi_id i \<noteq> wi_id iface) (ch_sta s)\<rparr>))))"
proof -
  have nan: "nan_dependencies env n i ifname s = Some s" if "i + n = length (ch_nan s)" for n i
    using that assms(3) by (induction n arbitrary: i) (auto simp: vec_at_def)
  have fold_sta: "ch_sta (fold mark_invalid l t) = ch_sta t" for l and t :: "'a wifi"
    by (induction l arbitrary: t) (simp_all add: mark_invalid_def)
  have mark_rtt: "mark_invalid i (t\<lparr>ch_rtt := l\<rparr>) = (mark_invalid i t)\<lparr>ch_rtt := l\<rparr>" for i l and t :: "'a wifi"
    by (simp add: mark_invalid_def)
  have mark_sta: "ch_sta (mark_invalid i t) = ch_sta t" for i and t :: "'a wifi"
    by (simp add: mark_invalid_def)
  have rtt: "invalidateAndRemoveDependencies env ifname s =
      (if \<exists>rtt \<in> set (butlast (ch_rtt s)). wi_name rtt = ifname then None
       else Some ((fold mark_invalid (filter (\<lambda>rtt. wi_name rtt = ifname) (ch_rtt s)) s)
              \<lparr>ch_rtt := filter (\<lambda>rtt. wi_name rtt \<noteq> ifname) (ch_rtt s)\<rparr>))"
    unfolding invalidateAndRemoveDependencies_def
    using nan [of 0 "length (ch_nan s)"] rtt_dependencies_eq [OF assms(2), of 0 "length (ch_rtt s)" ifname] by simp
  show ?thesis
    using assms(1) by (simp add: removeStaIfaceInternal_def rtt invalidateAndClear_def iface_invalidate_def
        mark_rtt mark_sta fold_sta)
qed

theorem station_removal_witness:
  "removeStaIfaceInternal dual_env ''wlan0'' (after_run dual_env (busy_ops @ [Create_Rtt 1]) 0) = None \<and>
   removeStaIfaceInternal dual_env ''wlan0'' (after_run dual_env busy_ops 0) \<noteq> None"
proof -
  let ?one = "after_run dual_env busy_ops 0" and ?two = "after_run dual_env (busy_ops @ [Create_Rtt 1]) 0"
  have one: "findUsingName (ch_sta ?one) ''wlan0'' = Some \<lparr>wi_id = 0, wi_name = ''wlan0''\<rparr>"
    "ch_rtt ?one = [\<lparr>wi_id = 2, wi_name = ''wlan0''\<rparr>]" "ch_nan ?one = []" by code_simp+
  have two: "findUsingName (ch_sta ?two) ''wlan0'' = Some \<lparr>wi_id = 0, wi_name = ''wlan0''\<rparr>"
    "ch_rtt ?two = [\<lparr>wi_id = 2, wi_name = ''wlan0''\<rparr>, \<lparr>wi_id = 3, wi_name = ''wlan0''\<rparr>]" "ch_nan ?two = []"
    by code_simp+
  show ?thesis
    using station_removal [OF one(1), of dual_env] station_removal [OF two(1), of dual_env] one(2,3) two(2,3)
    by simp
qed

subsection \<open>Stopping\<close>

definition same_log :: "'v wifi \<Rightarrow> 'v wifi \<Rightarrow> bool" where
  "same_log s t \<longleftrightarrow> wf_callbacks t = wf_callbacks s \<and> wf_events t = wf_events s"

lemma marked_log: "marked xs s t \<Longrightarrow> same_log s t"
  by (auto simp: marked_def same_log_def)

lemma clear_all_log: "invalidateAndClearAll env type s = Some t \<Longrightarrow> same_log s t"
  by (cases type) (auto simp: invalidateAndClearAll_def bind_eq_Some_conv same_log_def dest!: marked_all marked_log)

lemma remove_all_log: "invalidateAndRemoveAllIfaces env s = Some t \<Longrightarrow> same_log s t"
  by (auto simp: invalidateAndRemoveAllIfaces_def bind_eq_Some_conv same_log_def
      marked_log [OF marked_fold, unfolded same_log_def] dest!: clear_all_log)

lemma legacy_stop_pending:
  "legacy_stop env True h = (e, m, h') \<Longrightarrow> m \<or> lh_stop_cb h' = Some True"
  by (auto simp: legacy_stop_def Let_def onAsyncStopComplete_def split: if_splits prod.splits
      dest!: vendor_call_result)

lemma stop_legacy_outcome:
  assumes "stopLegacyHalAndDeinitializeModeController env s = (status, t)"
  shows "\<exists>st h. t = s\<lparr>wf_run_state := st, wf_legacy := h\<rparr> \<and>
    (st = STOPPED \<or> st = STOPPING \<and> lh_stop_cb h = Some True)"
proof -
  obtain e m h where stop: "legacy_stop env True (wf_legacy s) = (e, m, h)" by (rule prod_cases3)
  obtain b h' where unload: "vendor_call (UnloadDriver env) h = (b, h')" by (meson surj_pair)
  have "lh_stop_cb h' = lh_stop_cb h" using vendor_call_result [OF unload] .
  then have pending: "m \<or> lh_stop_cb g = Some True" if "g = h \<or> g = h'" for g
    using legacy_stop_pending [OF stop] that by auto
  have "\<exists>g. (g = h \<or> g = h') \<and> t = s\<lparr>wf_run_state := if m then STOPPED else STOPPING, wf_legacy := g\<rparr>"
    using assms stop unload
    by (cases m) (auto simp: stopLegacyHalAndDeinitializeModeController_def Let_def legacy_call_def mark_stopped_def
        split: if_splits)
  then show ?thesis using pending by (cases m) auto
qed

text \<open>
  C24: Stopping a started HAL ends. Whatever the vendor library does, a stop that returns leaves no
  chip, no usable interface object and no callback; every callback registered before was told
  once, and last, how the stop went; and the HAL is stopped, or it is stopping and the vendor's
  pending stop callback makes it stopped.
\<close>

theorem stop_completes:
  assumes "modes_ok (env_modes env)" "wifi_run env ops (new_wifi v) = Some (statuses, s)"
    and "wf_run_state s = STARTED" "stopInternal env s = Some (status, t)"
  shows "\<not> wf_chip t \<and> \<not> ch_is_valid t \<and> set (wf_invalid t) = {..<wf_next t} \<and> wf_callbacks t = [] \<and>
    wf_events t = wf_events s @
      map (\<lambda>cb. (cb, if ws_code status = SUCCESS then OnStop else OnFailure status)) (wf_callbacks s) \<and>
    (wf_run_state t = STOPPED \<or>
     wf_run_state t = STOPPING \<and>
       (\<exists>u. wifi_call env Stop_Complete t = Some (createWifiStatus SUCCESS, u) \<and> wf_run_state u = STOPPED))"
proof -
  have inv: "wifi_inv env s" using wifi_run_inv [OF assms(1) wifi_inv_new assms(2)] .
  have inv_t: "wifi_inv env t" using wifi_inv_stop [OF inv assms(4)] .
  have chip: "wf_chip s" using inv assms(3) by (auto simp: wifi_inv_def chip_ok_def)
  obtain u where u: "invalidateAndRemoveAllIfaces env s = Some u"
    using assms(3,4) chip by (auto simp: stopInternal_def chip_invalidate_def bind_eq_Some_conv)
  let ?v = "(setActiveWlanIfaceNameProperty [] u)\<lparr>ch_callbacks := [], ch_is_valid := False, wf_chip := False\<rparr>"
  obtain x where x: "stopLegacyHalAndDeinitializeModeController env ?v = (status, x)"
      and t: "t = (notify_wifi (if ws_code status = SUCCESS then OnStop else OnFailure status) x)\<lparr>wf_callbacks := []\<rparr>"
    using assms(3,4) chip u by (auto simp: stopInternal_def chip_invalidate_def split: prod.splits)
  from stop_legacy_outcome [OF x] obtain st h where x_eq: "x = ?v\<lparr>wf_run_state := st, wf_legacy := h\<rparr>"
      and out: "st = STOPPED \<or> st = STOPPING \<and> lh_stop_cb h = Some True" by blast
  have log: "same_log s x"
    using remove_all_log [OF u] unfolding x_eq by (simp add: same_log_def setActiveWlanIfaceNameProperty_def)
  have st: "wf_run_state t = st" "wf_legacy t = h"
    unfolding t x_eq by (simp_all add: notify_wifi_def)
  then have gone: "\<not> wf_chip t" "\<not> ch_is_valid t" "listed t = []"
    using inv_t out by (auto simp: wifi_inv_def chip_ok_def)
  moreover have "set (wf_invalid t) = {..<wf_next t}"
    using inv_t gone(3) by (auto simp: wifi_inv_def objects_ok_def)
  moreover have "wf_events t = wf_events s @
      map (\<lambda>cb. (cb, if ws_code status = SUCCESS then OnStop else OnFailure status)) (wf_callbacks s)"
    "wf_callbacks t = []"
    using log unfolding t by (auto simp: notify_wifi_def same_log_def)
  moreover have "\<exists>u. wifi_call env Stop_Complete t = Some (createWifiStatus SUCCESS, u) \<and> wf_run_state u = STOPPED"
    if "lh_stop_cb h = Some True"
    using that st(2) by (auto simp: legacy_call_def onAsyncStopComplete_def mark_stopped_def
        split: prod.split)
  ultimately show ?thesis using out st by auto
qed

theorem stop_completes_witness:
  "wf_run_state (snd (the (stopInternal dual_env (after_run dual_env busy_ops 3)))) = STOPPING \<and>
   map fst (wf_events (snd (the (stopInternal dual_env (after_run dual_env busy_ops 3))))) = [4, 4]"
proof -
  let ?s = "after_run dual_env busy_ops 3" and ?r = "the (stopInternal dual_env (after_run dual_env busy_ops 3))"
  have run: "wifi_run dual_env busy_ops (new_wifi 3) \<noteq> None" and r: "stopInternal dual_env ?s \<noteq> None"
    and st: "wf_run_state ?s = STARTED" "wf_run_state (snd ?r) = STOPPING"
    and old: "wf_callbacks ?s = [4]" "map fst (wf_events ?s) = [4]"
    by code_simp+
  have "stopInternal dual_env ?s = Some (fst ?r, snd ?r)" using r by simp
  from stop_completes [OF sample_modes_ok(2) run_result [OF run] st(1) this] st(2) old show ?thesis by auto
qed

subsection \<open>States a client cannot get out of\<close>

lemma enter_failed_mode: "configureChipInternal env mode_id s = Some (status, t) \<Longrightarrow> ws_code status \<noteq> SUCCESS \<Longrightarrow>
    isValidModeId (ch_modes s) mode_id \<Longrightarrow>
    mode_id \<noteq> ch_current_mode_id s \<and>
    (\<exists>u. handleChipConfiguration env mode_id s = Some (status, u) \<and> t = notify_chip (OnChipReconfigureFailure status) u)"
  by (auto simp: configureChipInternal_def bind_eq_Some_conv createWifiStatus_def split: if_splits)

lemma handled_smaller:
  assumes obj: "objects_ok s" and r: "handleChipConfiguration env mode_id s = Some (status, u)"
  shows "smaller s u \<and> (isValidModeId (ch_modes s) (ch_current_mode_id s) \<longrightarrow> listed u = [])"
proof -
  obtain st v where v: "leave_mode env s = Some (st, v)"
      and u: "if ws_code st \<noteq> SUCCESS then status = st \<and> u = v else enter_mode env mode_id v = Some (status, u)"
    using r by (auto simp: handleChipConfiguration_def bind_eq_Some_conv split: if_splits)
  note lv = leave_mode_smaller [OF obj v]
  have vu: "same_objects v u" using u same_enter_mode by (auto split: if_splits)
  then have "listed u = listed v" by (simp add: listed_def same_objects_def)
  then show ?thesis using lv smaller_trans [OF conjunct1 [OF lv] smaller_same [OF vu]] by simp
qed

text \<open>
  C25: A change of the mode that fails leaves a chip that claims the mode it has left. Every interface
  and controller is gone, yet \<open>getMode\<close> reports the old mode with success, and a request to go back
  to that mode is answered with success and does nothing: the legacy HAL, which was stopped for the
  change, is not started again (the witness shows it stopped).
\<close>

theorem failed_mode_change:
  assumes "modes_ok (env_modes env)" "wifi_run env ops (new_wifi v) = Some (statuses, s)"
    and "isValidModeId (ch_modes s) (ch_current_mode_id s)" "isValidModeId (ch_modes s) mode_id"
    and "configureChipInternal env mode_id s = Some (status, t)" "ws_code status \<noteq> SUCCESS"
  shows "listed t = [] \<and> set (wf_invalid t) = {..<wf_next t} \<and>
    getModeInternal t = (createWifiStatus SUCCESS, ch_current_mode_id s) \<and>
    configureChipInternal env (ch_current_mode_id s) t = Some (createWifiStatus SUCCESS, t)"
proof -
  have inv: "wifi_inv env s" using wifi_run_inv [OF assms(1) wifi_inv_new assms(2)] .
  then have obj: "objects_ok s" by (simp add: wifi_inv_def)
  obtain u where u: "handleChipConfiguration env mode_id s = Some (status, u)"
      and t: "t = notify_chip (OnChipReconfigureFailure status) u"
    using enter_failed_mode [OF assms(5,6,4)] by blast
  from handled_smaller [OF obj u] assms(3) have sm: "smaller s u" and none: "listed u = []" by simp_all
  have same: "same_objects u t" unfolding t by simp
  have "listed t = []" using none same by (simp add: listed_def same_objects_def)
  moreover have "ch_modes t = ch_modes s" "ch_current_mode_id t = ch_current_mode_id s"
    using sm same by (simp_all add: smaller_def same_objects_def)
  moreover have "objects_ok t" using smaller_objects [OF smaller_trans [OF sm smaller_same [OF same]] obj] .
  ultimately show ?thesis using assms(3)
    by (auto simp: objects_ok_def getModeInternal_def configureChipInternal_def)
qed

definition sta_ops :: "wifi_op list" where
  "sta_ops = [Start, Configure 1 kV1Sta, Create 1 STA]"

theorem failed_mode_change_witness:
  "fst (getModeInternal (snd (the (configureChipInternal sample_env kV1Ap (after_run sample_env sta_ops 4))))) =
     createWifiStatus SUCCESS \<and>
   lh_started (wf_legacy (after_run sample_env sta_ops 4)) \<and>
   \<not> lh_started (wf_legacy (snd (the (configureChipInternal sample_env kV1Ap (after_run sample_env sta_ops 4)))))"
proof -
  let ?s = "after_run sample_env sta_ops 4"
  let ?r = "the (configureChipInternal sample_env kV1Ap ?s)"
  have run: "wifi_run sample_env sta_ops (new_wifi 4) \<noteq> None"
    and modes: "isValidModeId (ch_modes ?s) (ch_current_mode_id ?s)" "isValidModeId (ch_modes ?s) kV1Ap"
    and r: "configureChipInternal sample_env kV1Ap ?s \<noteq> None" "ws_code (fst ?r) = ERROR_UNKNOWN"
    and started: "lh_started (wf_legacy ?s)" "\<not> lh_started (wf_legacy (snd ?r))"
    by code_simp+
  have "configureChipInternal sample_env kV1Ap ?s = Some (fst ?r, snd ?r)" using r(1) by simp
  from failed_mode_change [OF sample_modes_ok(1) run_result [OF run] modes this] r(2) started
  show ?thesis by simp
qed

text \<open>
  A start that fails after the vendor library gave its handle keeps the handle; every later start
  then fails its \<open>CHECK\<close> and aborts the process.
\<close>

lemma kept_handle_aborts: "lh_handle h \<noteq> None \<Longrightarrow> legacy_start env h = None"
  by (simp add: legacy_start_def)

lemma failed_configure_aborts_next:
  "wifi_run sample_env [Start, Configure 1 kV1Sta] (new_wifi 2) \<noteq> None \<and>
   wifi_run sample_env [Start, Configure 1 kV1Sta, Configure 1 kV1Sta] (new_wifi 2) = None"
  by (rule conjI) code_simp+

text \<open>
  Logging works once per chip. Stopping it drops the handler at the legacy HAL but leaves
  \<open>debug_ring_buffer_cb_registered_\<close> set, so whatever a later start answers it registers no handler
  again, and everything the vendor logs afterwards is thrown away.
\<close>

theorem restarted_logging_is_deaf:
  assumes "ch_ring_registered s" "stopLoggingToDebugRingBufferInternal env s = (stopped, t)"
    and "startLoggingToDebugRingBufferInternal env ring level interval min_size t = (started, u)"
  shows "lh_ring_cb (wf_legacy u) = None \<and> ch_ring_registered u \<and>
    onAsyncRingBufferData name data convertible u = Some u"
proof -
  have keep: "lh_ring_cb h' = lh_ring_cb h" if "vendor_call f h = (r, h')" for f :: "'a \<Rightarrow> 'r \<times> 'a" and h h' r
    using that by (auto simp: vendor_call_def split: prod.splits)
  have t: "lh_ring_cb (wf_legacy t) = None \<and> ch_ring_registered t"
    using assms(1,2)
    by (auto simp: stopLoggingToDebugRingBufferInternal_def deregisterRingBufferCallbackHandler_def legacy_call_def
        split: if_splits prod.splits dest!: keep)
  then have "lh_ring_cb (wf_legacy u) = None \<and> ch_ring_registered u"
    using assms(3)
    by (auto simp: startLoggingToDebugRingBufferInternal_def registerDebugRingBufferCallback_def
        startRingBufferLogging_def legacy_call_def split: if_splits prod.splits dest!: keep)
  then show ?thesis by (simp add: onAsyncRingBufferData_def)
qed

lemma sample_logging:
  "\<not> ch_ring_registered s \<Longrightarrow> lh_ring_cb (wf_legacy s) = None \<Longrightarrow>
   ch_ring_registered (snd (startLoggingToDebugRingBufferInternal sample_env ring level interval min_size s))"
  by (auto simp: startLoggingToDebugRingBufferInternal_def registerDebugRingBufferCallback_def legacy_call_def
      registerRingBufferCallbackHandler_def startRingBufferLogging_def vendor_call_def sample_env_def
      createWifiStatus_def Let_def split: prod.split)

lemma same_registered:
  "stopLoggingToDebugRingBufferInternal env s = (status, t) \<Longrightarrow> ch_ring_registered t = ch_ring_registered s"
  by (auto simp: stopLoggingToDebugRingBufferInternal_def legacy_call_def split: prod.splits)

theorem restarted_logging_is_deaf_witness:
  "\<exists>u. (\<exists>status t. stopLoggingToDebugRingBufferInternal sample_env
        (snd (startLoggingToDebugRingBufferInternal sample_env ''fw'' 1 2 3 (after_run sample_env sta_ops 0))) = (status, t) \<and>
        startLoggingToDebugRingBufferInternal sample_env ''fw'' 1 2 3 t = (createWifiStatus SUCCESS, u)) \<and>
     ch_ring_registered u \<and> (\<forall>data. onAsyncRingBufferData ''fw'' data True u = Some u)"
proof -
  let ?s = "snd (startLoggingToDebugRingBufferInternal sample_env ''fw'' 1 2 3 (after_run sample_env sta_ops 0))"
  have "\<not> ch_ring_registered (after_run sample_env sta_ops 0)"
    "lh_ring_cb (wf_legacy (after_run sample_env sta_ops 0)) = None" by code_simp+
  then have reg: "ch_ring_registered ?s" by (rule sample_logging)
  obtain st t where t: "stopLoggingToDebugRingBufferInternal sample_env ?s = (st, t)" by (meson surj_pair)
  obtain st' u where u: "startLoggingToDebugRingBufferInternal sample_env ''fw'' 1 2 3 t = (st', u)" by (meson surj_pair)
  note deaf = restarted_logging_is_deaf [OF reg t u]
  have "ch_ring_registered t" using same_registered [OF t] reg by simp
  then have "st' = createWifiStatus SUCCESS" using u
    by (auto simp: startLoggingToDebugRingBufferInternal_def registerDebugRingBufferCallback_def legacy_call_def
        startRingBufferLogging_def vendor_call_def sample_env_def createWifiStatus_def
        createWifiStatusFromLegacyError_def Let_def split: prod.splits)
  then show ?thesis using t u deaf by blast
qed

lemma invalid_nan_fatal:
  assumes "\<exists>nan \<in> set (ch_nan s). wi_id nan \<in> set (wf_invalid s)"
  shows "invalidateAndRemoveAllIfaces env s = None"
proof (cases "invalidateAndClearAll env AP s")
  case (Some t)
  then obtain u where u: "invalidate_all env AP (ch_ap s) s = Some u" and t: "t = u\<lparr>ch_ap := []\<rparr>"
    by (auto simp: invalidateAndClearAll_def bind_eq_Some_conv)
  have nan: "\<exists>nan \<in> set (ch_nan t). wi_id nan \<in> set (wf_invalid t)"
    using assms marked_all [OF u] t by (auto simp: marked_def)
  have "invalidate_all env NAN l x = None" if "\<exists>nan \<in> set l. wi_id nan \<in> set (wf_invalid x)" for l x
    using that
  proof (induction l arbitrary: x)
    case (Cons iface l)
    show ?case
    proof (cases "iface_invalidate env NAN iface x")
      case (Some y)
      then have "wi_id iface \<notin> set (wf_invalid x)" "set (wf_invalid x) \<subseteq> set (wf_invalid y)"
        by (auto simp: iface_invalidate_def WifiNanIface_invalidate_def mark_invalid_def split: if_splits)
      then show ?thesis using Cons Some by auto
    qed simp
  qed simp
  from this [OF nan] have "invalidateAndClearAll env NAN t = None" by (simp add: invalidateAndClearAll_def)
  then show ?thesis using Some by (simp add: invalidateAndRemoveAllIfaces_def)
qed (simp add: invalidateAndRemoveAllIfaces_def)

text \<open>
  A NAN interface whose callbacks cannot be registered is handed to the client with success,
  listed and already invalid. It is a time bomb: to remove all interfaces, which a stop of the HAL
  and every change of the mode do, invalidates it again and uses the pointer it has dropped.
\<close>

theorem nan_registration_failure_fatal:
  assumes "createNanIfaceInternal env s = Some ((status, Some iface), t)"
    and "fst (nanRegisterCallbackHandlers env (getFirstActiveWlanIfaceName env s) (wf_next s) (wf_legacy s)) \<noteq> WIFI_SUCCESS"
    and "wf_chip s" "wf_run_state s = STARTED"
  shows "ws_code status = SUCCESS \<and> iface \<in> set (ch_nan t) \<and> wi_id iface \<in> set (wf_invalid t) \<and>
    stopInternal env t = None \<and>
    (isValidModeId (ch_modes t) mode_id \<and> isValidModeId (ch_modes t) (ch_current_mode_id t) \<and>
     mode_id \<noteq> ch_current_mode_id t \<longrightarrow> configureChipInternal env mode_id t = None)"
proof -
  obtain u where u: "new_WifiNanIface env (getFirstActiveWlanIfaceName env s) s = Some (iface, u)"
      and status: "status = createWifiStatus SUCCESS" and t: "t = add_iface NAN iface u"
    using assms(1) by (auto simp: createNanIfaceInternal_def bind_eq_Some_conv split: if_splits)
  have bad: "wi_id iface \<in> set (wf_invalid u) \<and> wf_chip u \<and> wf_run_state u = STARTED"
    using u assms(2-4)
    by (auto simp: new_WifiNanIface_def new_object_def legacy_call_def bind_eq_Some_conv
        WifiNanIface_invalidate_def mark_invalid_def split: if_splits prod.splits)
  have mem: "iface \<in> set (ch_nan t)" "wi_id iface \<in> set (wf_invalid t)" "wf_chip t" "wf_run_state t = STARTED"
    using bad unfolding t by (simp_all add: add_iface_def notify_chip_def)
  then have gone: "invalidateAndRemoveAllIfaces env t = None" by (intro invalid_nan_fatal) blast
  then have "stopInternal env t = None" using mem(3,4) by (simp add: stopInternal_def chip_invalidate_def)
  moreover have "configureChipInternal env mode_id t = None"
    if "isValidModeId (ch_modes t) mode_id" "isValidModeId (ch_modes t) (ch_current_mode_id t)"
      "mode_id \<noteq> ch_current_mode_id t"
    using gone that by (simp add: configureChipInternal_def handleChipConfiguration_def leave_mode_def)
  ultimately show ?thesis using mem status by simp
qed

theorem nan_registration_failure_fatal_witness:
  "stopInternal sample_env (snd (the (createNanIfaceInternal sample_env (after_run sample_env sta_ops 1)))) = None"
proof -
  let ?s = "after_run sample_env sta_ops 1"
  let ?r = "the (createNanIfaceInternal sample_env ?s)"
  have made: "createNanIfaceInternal sample_env ?s \<noteq> None" "snd (fst ?r) \<noteq> None"
    and bad: "fst (nanRegisterCallbackHandlers sample_env (getFirstActiveWlanIfaceName sample_env ?s) (wf_next ?s)
      (wf_legacy ?s)) \<noteq> WIFI_SUCCESS"
    and st: "wf_chip ?s" "wf_run_state ?s = STARTED"
    by code_simp+
  have "createNanIfaceInternal sample_env ?s = Some ((fst (fst ?r), Some (the (snd (fst ?r)))), snd ?r)"
    using made by auto
  from nan_registration_failure_fatal [OF this bad st] show ?thesis by simp
qed

end
