(* ===== verification/Cbor.thy ===== *)
theory Cbor
  imports Prelude "HOL-Library.Monad_Syntax"
begin

text \<open>
  The CBOR writer of the confirmation UI (\<open>confirmationui/support/include/.../cbor.h\<close>,
  \<open>confirmationui/support/src/cbor.cpp\<close>), which formats the message the user confirms.

  The templates build a tree of references to the data; here the tree is the datatype \<open>cbor\<close>. A
  \<open>WriteState\<close> is a pointer into a buffer, the bytes left behind it and an error: the model keeps the
  whole buffer and the position in it, and a store outside the buffer is the result \<open>None\<close>. The
  writer is compared with the encoding of RFC 7049 (\<open>encode\<close>), and the encoding is shown to
  determine the data. The C++ types make arrays and maps with at least one element. The \<open>out\<close> of
  \<open>checkUTF8Copy\<close> is never null in its callers; with a null one the loop would not advance.
\<close>

subsection \<open>The write state\<close>

datatype Error = OK | OUT_OF_DATA | MALFORMED | MALFORMED_UTF8

datatype Type = NUMBER | NEGATIVE | BYTE_STRING | TEXT_STRING | ARRAY | MAP | TAG | FLOAT

fun type_code :: "Type \<Rightarrow> u8" where
  "type_code NUMBER = 0"
| "type_code NEGATIVE = 1"
| "type_code BYTE_STRING = 2"
| "type_code TEXT_STRING = 3"
| "type_code ARRAY = 4"
| "type_code MAP = 5"
| "type_code TAG = 6"
| "type_code FLOAT = 7"

record write_state =
  ws_buffer :: "u8 list"
  ws_pos :: nat \<comment> \<open>\<open>data_\<close>\<close>
  ws_size :: nat
  ws_error :: Error

definition WriteState :: "u8 list \<Rightarrow> write_state" where
  "WriteState buffer = \<lparr>ws_buffer = buffer, ws_pos = 0, ws_size = length buffer, ws_error = OK\<rparr>"

definition increment :: "write_state \<Rightarrow> write_state" where
  "increment st =
     (if ws_size st \<noteq> 0 then st\<lparr>ws_pos := ws_pos st + 1, ws_size := ws_size st - 1\<rparr>
      else st\<lparr>ws_error := OUT_OF_DATA\<rparr>)"

definition ws_advance :: "nat \<Rightarrow> write_state \<Rightarrow> write_state" where
  "ws_advance offset st =
     (if ws_size st < offset then st\<lparr>ws_error := OUT_OF_DATA\<rparr>
      else st\<lparr>ws_pos := ws_pos st + offset, ws_size := ws_size st - offset\<rparr>)"

text \<open>Stores through a pointer that was read before the state moved on.\<close>

definition store_bytes :: "nat \<Rightarrow> u8 list \<Rightarrow> write_state \<Rightarrow> write_state option" where
  "store_bytes pos bs st =
     (if pos + length bs \<le> length (ws_buffer st) then Some (st\<lparr>ws_buffer := write_at pos bs (ws_buffer st)\<rparr>)
      else None)"

subsection \<open>The writer\<close>

definition getByte :: "64 word \<Rightarrow> nat \<Rightarrow> u8" where
  "getByte v index = ucast (drop_bit (index * 8) v)"

definition writeBytes :: "64 word \<Rightarrow> nat \<Rightarrow> write_state \<Rightarrow> write_state option" where
  "writeBytes value sz st =
     (let pos = ws_pos st; st = ws_advance sz st in
      if ws_error st \<noteq> OK then Some st
      else if sz \<in> {1, 2, 4, 8} then store_bytes pos (map (getByte value) (rev [0..<sz])) st
      else Some (st\<lparr>ws_error := MALFORMED\<rparr>))"

definition writeHeader :: "Type \<Rightarrow> 64 word \<Rightarrow> write_state \<Rightarrow> write_state option" where
  "writeHeader type value st =
     (if ws_error st \<noteq> OK then Some st
      else
        let header = ws_pos st; st = increment st in
        if ws_error st \<noteq> OK then Some st
        else
          let major = push_bit 5 (type_code type) in
          if value < 24 then store_bytes header [major OR ucast value] st
          else if value < 0x100 then do { st \<leftarrow> store_bytes header [major OR 24] st; writeBytes value 1 st }
          else if value < 0x10000 then do { st \<leftarrow> store_bytes header [major OR 25] st; writeBytes value 2 st }
          else if value < 0x100000000 then do { st \<leftarrow> store_bytes header [major OR 26] st; writeBytes value 4 st }
          else do { st \<leftarrow> store_bytes header [major OR 27] st; writeBytes value 8 st })"

definition writeNumber :: "int \<Rightarrow> write_state \<Rightarrow> write_state option" where
  "writeNumber v st =
     (if ws_error st \<noteq> OK then Some st
      else if 0 \<le> v then writeHeader NUMBER (word_of_int v) st
      else writeHeader NEGATIVE (- 1 - word_of_int v) st)"

text \<open>The number of set bits in front of the first clear one, which a header byte of UTF-8 starts with.\<close>

function leading_ones :: "u8 \<Rightarrow> nat" where
  "leading_ones c = (if c AND 0x80 = 0 then 0 else Suc (leading_ones (push_bit 1 c)))"
  by auto
termination
proof (relation "measure (\<lambda>c. card {i. bit c i})")
  fix c :: u8
  assume "c AND 0x80 \<noteq> 0"
  then have top: "bit c 7" using and_exp_eq_0_iff_not_bit [of c 7] by simp
  have fin: "finite {i. bit c i}" by (rule finite_subset [of _ "{..<8}"]) (auto dest: bit_imp_le_length)
  have iff: "bit (push_bit 1 c) i \<longleftrightarrow> 1 \<le> i \<and> i < 8 \<and> bit c (i - 1)" for i
    unfolding bit_push_bit_iff by (auto dest: bit_imp_le_length)
  have sub: "(\<lambda>i. i - 1) ` {i. bit (push_bit 1 c) i} \<subseteq> {i. bit c i} - {7}" unfolding iff by auto
  have inj: "inj_on (\<lambda>i. i - 1) {i. bit (push_bit 1 c) i}" unfolding iff by (auto simp: inj_on_def)
  have "card {i. bit (push_bit 1 c) i} \<le> card ({i. bit c i} - {7})"
    using card_inj_on_le [OF inj sub] fin by simp
  also have "\<dots> < card {i. bit c i}" using top fin by (intro card_Diff1_less) auto
  finally show "(push_bit 1 c, c) \<in> measure (\<lambda>c. card {i. bit c i})" by simp
qed simp

declare leading_ones.simps [simp del]

text \<open>The bytes that were copied when the scan ends, and whether the text is well-formed.\<close>

fun checkUTF8Copy :: "nat \<Rightarrow> u8 list \<Rightarrow> u8 list \<times> bool" where
  "checkUTF8Copy multi_byte_length [] = ([], multi_byte_length = 0)"
| "checkUTF8Copy multi_byte_length (b # bs) =
     (let expect = (if multi_byte_length \<noteq> 0
            then (if b AND 0xC0 \<noteq> 0x80 then None else Some (multi_byte_length - 1))
            else if b AND 0x80 = 0 then Some 0
            else
              let n = leading_ones (push_bit 1 b)
              in if n < 1 then None else if 3 < n then None else Some n)
      in case expect of
           None \<Rightarrow> ([], False)
         | Some n \<Rightarrow> (case checkUTF8Copy n bs of (out, ok) \<Rightarrow> (b # out, ok)))"

definition writeText :: "u8 list \<Rightarrow> write_state \<Rightarrow> write_state option" where
  "writeText v st =
     do { st \<leftarrow> writeHeader TEXT_STRING (of_nat (length v)) st;
          let buffer = ws_pos st;
          let st = ws_advance (length v) st;
          if ws_error st \<noteq> OK then Some st
          else case checkUTF8Copy 0 v of (out, ok) \<Rightarrow>
            do { st \<leftarrow> store_bytes buffer out st;
                 Some (if ok then st else st\<lparr>ws_error := MALFORMED_UTF8\<rparr>) } }"

definition writeByteString :: "u8 list \<Rightarrow> write_state \<Rightarrow> write_state option" where
  "writeByteString v st =
     do { st \<leftarrow> writeHeader BYTE_STRING (of_nat (length v)) st;
          let buffer = ws_pos st;
          let st = ws_advance (length v) st;
          if ws_error st \<noteq> OK then Some st else store_bytes buffer v st }"

datatype cbor = Number int | Text "u8 list" | Bytes "u8 list" | Arr "cbor list" | Map "(cbor \<times> cbor) list"

function (sequential) cbor_write :: "cbor \<Rightarrow> write_state \<Rightarrow> write_state option"
  and write_elems :: "cbor list \<Rightarrow> write_state \<Rightarrow> write_state option"
  and write_pairs :: "(cbor \<times> cbor) list \<Rightarrow> write_state \<Rightarrow> write_state option" where
  "cbor_write (Number v) st = writeNumber v st"
| "cbor_write (Text v) st = writeText v st"
| "cbor_write (Bytes v) st = writeByteString v st"
| "cbor_write (Arr elems) st =
     (if ws_error st \<noteq> OK then Some st
      else do { st \<leftarrow> writeHeader ARRAY (of_nat (length elems)) st; write_elems elems st })"
| "cbor_write (Map elems) st =
     (if ws_error st \<noteq> OK then Some st
      else do { st \<leftarrow> writeHeader MAP (of_nat (length elems)) st; write_pairs elems st })"
| "write_elems [] st = Some st"
| "write_elems (e # es) st = do { st \<leftarrow> cbor_write e st; write_elems es st }"
| "write_pairs [] st = Some st"
| "write_pairs ((k, v) # es) st =
     do { st \<leftarrow> (if ws_error st \<noteq> OK then Some st else do { st \<leftarrow> cbor_write k st; cbor_write v st });
          write_pairs es st }"
  by pat_completeness auto
termination
  by (relation "measure (case_sum (\<lambda>(c, _). size c) (case_sum (\<lambda>(es, _). size_list size es)
        (\<lambda>(ps, _). size_list (size_prod size size) ps)))") auto

subsection \<open>The encoding of RFC 7049\<close>

definition big_endian_bytes :: "nat \<Rightarrow> nat \<Rightarrow> u8 list" where
  "big_endian_bytes k n = map (\<lambda>i. of_nat (n div 256 ^ i)) (rev [0..<k])"

definition head :: "nat \<Rightarrow> nat \<Rightarrow> u8 list" where
  "head major n =
     (if n < 24 then [of_nat (major * 32 + n)]
      else if n < 2 ^ 8 then of_nat (major * 32 + 24) # big_endian_bytes 1 n
      else if n < 2 ^ 16 then of_nat (major * 32 + 25) # big_endian_bytes 2 n
      else if n < 2 ^ 32 then of_nat (major * 32 + 26) # big_endian_bytes 4 n
      else of_nat (major * 32 + 27) # big_endian_bytes 8 n)"

function (sequential) encode :: "cbor \<Rightarrow> u8 list" and encode_elems :: "cbor list \<Rightarrow> u8 list"
  and encode_pairs :: "(cbor \<times> cbor) list \<Rightarrow> u8 list" where
  "encode (Number v) = (if 0 \<le> v then head 0 (nat v) else head 1 (nat (- 1 - v)))"
| "encode (Text v) = head 3 (length v) @ v"
| "encode (Bytes v) = head 2 (length v) @ v"
| "encode (Arr elems) = head 4 (length elems) @ encode_elems elems"
| "encode (Map elems) = head 5 (length elems) @ encode_pairs elems"
| "encode_elems [] = []"
| "encode_elems (e # es) = encode e @ encode_elems es"
| "encode_pairs [] = []"
| "encode_pairs ((k, v) # es) = encode k @ encode v @ encode_pairs es"
  by pat_completeness auto
termination
  by (relation "measure (case_sum size (case_sum (size_list size) (size_list (size_prod size size))))") auto

text \<open>Numbers of the eight C++ types, and lengths of a \<open>size_t\<close>.\<close>

function (sequential) in_range :: "cbor \<Rightarrow> bool" and in_range_elems :: "cbor list \<Rightarrow> bool"
  and in_range_pairs :: "(cbor \<times> cbor) list \<Rightarrow> bool" where
  "in_range (Number v) \<longleftrightarrow> - (2 ^ 63) \<le> v \<and> v < 2 ^ 64"
| "in_range (Text v) \<longleftrightarrow> length v < 2 ^ 64"
| "in_range (Bytes v) \<longleftrightarrow> length v < 2 ^ 64"
| "in_range (Arr elems) \<longleftrightarrow> length elems < 2 ^ 64 \<and> in_range_elems elems"
| "in_range (Map elems) \<longleftrightarrow> length elems < 2 ^ 64 \<and> in_range_pairs elems"
| "in_range_elems [] \<longleftrightarrow> True"
| "in_range_elems (e # es) \<longleftrightarrow> in_range e \<and> in_range_elems es"
| "in_range_pairs [] \<longleftrightarrow> True"
| "in_range_pairs ((k, v) # es) \<longleftrightarrow> in_range k \<and> in_range v \<and> in_range_pairs es"
  by pat_completeness auto
termination
  by (relation "measure (case_sum size (case_sum (size_list size) (size_list (size_prod size size))))") auto

text \<open>A text is a sequence of characters: a byte below 128, or a lead byte with its continuation bytes.\<close>

definition lead :: "u8 \<Rightarrow> nat" where
  "lead b = (if b < 0xC0 then 0 else if b < 0xE0 then 1 else if b < 0xF0 then 2 else if b < 0xF8 then 3 else 0)"

inductive utf8_ok :: "u8 list \<Rightarrow> bool" where
  empty: "utf8_ok []"
| ascii: "b < 0x80 \<Longrightarrow> utf8_ok bs \<Longrightarrow> utf8_ok (b # bs)"
| multi: "lead b \<noteq> 0 \<Longrightarrow> length cs = lead b \<Longrightarrow> \<forall>c \<in> set cs. 0x80 \<le> c \<and> c < 0xC0 \<Longrightarrow> utf8_ok bs \<Longrightarrow>
    utf8_ok (b # cs @ bs)"

function (sequential) texts_ok :: "cbor \<Rightarrow> bool" and texts_ok_elems :: "cbor list \<Rightarrow> bool"
  and texts_ok_pairs :: "(cbor \<times> cbor) list \<Rightarrow> bool" where
  "texts_ok (Number v) \<longleftrightarrow> True"
| "texts_ok (Text v) \<longleftrightarrow> utf8_ok v"
| "texts_ok (Bytes v) \<longleftrightarrow> True"
| "texts_ok (Arr elems) \<longleftrightarrow> texts_ok_elems elems"
| "texts_ok (Map elems) \<longleftrightarrow> texts_ok_pairs elems"
| "texts_ok_elems [] \<longleftrightarrow> True"
| "texts_ok_elems (e # es) \<longleftrightarrow> texts_ok e \<and> texts_ok_elems es"
| "texts_ok_pairs [] \<longleftrightarrow> True"
| "texts_ok_pairs ((k, v) # es) \<longleftrightarrow> texts_ok k \<and> texts_ok v \<and> texts_ok_pairs es"
  by pat_completeness auto
termination
  by (relation "measure (case_sum size (case_sum (size_list size) (size_list (size_prod size size))))") auto

subsection \<open>The text check\<close>

text \<open>What the scan does with each of the 256 bytes.\<close>

lemma all_bytes: "(\<forall>k \<in> set [0..<256]. P (of_nat k :: u8)) \<Longrightarrow> P b"
proof -
  assume all: "\<forall>k \<in> set [0..<256]. P (of_nat k :: u8)"
  have "unat b < 256" using unsigned_less [of b, where ?'a = nat] by simp
  then have "P (of_nat (unat b))" by (intro bspec [OF all]) simp
  then show "P b" by simp
qed

lemma and_bit: "b AND push_bit n 1 = (if bit b n then push_bit n 1 else 0)" for b :: u8
  by (rule bit_word_eqI) (auto simp: bit_and_iff bit_exp_iff)

lemma bit_unat: "bit b n = bit (unat b) n" for b :: u8
  by (simp add: bit_unsigned_iff)

lemma odd_div: "m * q \<le> k \<Longrightarrow> k < m * (q + 2) \<Longrightarrow> even q \<Longrightarrow> odd (k div m) \<longleftrightarrow> m * (q + 1) \<le> k" for m q k :: nat
proof -
  assume k: "m * q \<le> k" "k < m * (q + 2)" "even q"
  have "k div m = (if m * (q + 1) \<le> k then q + 1 else q)"
    using k(1,2) by (auto intro!: div_nat_eqI)
  then show ?thesis using k(3) by simp
qed

lemma byte_bits:
  "(b AND 0xC0 \<noteq> 0x80) = (\<not> (0x80 \<le> b \<and> b < 0xC0)) \<and> (b AND 0x80 = 0) = (b < 0x80) \<and>
   (b < 0x80 \<or> lead b =
      (if \<not> bit b 6 then 0 else if \<not> bit b 5 then 1 else if \<not> bit b 4 then 2 else if \<not> bit b 3 then 3 else 0))"
proof -
  have two: "b AND 0xC0 = (b AND push_bit 7 1) OR (b AND push_bit 6 1)"
    unfolding bit.conj_disj_distrib [symmetric] by simp
  have low: "unat b < 256" using unsigned_less [of b, where ?'a = nat] by simp
  have bits: "bit b 7 = (128 \<le> unat b)" "128 \<le> unat b \<Longrightarrow> bit b 6 = (192 \<le> unat b)"
    "192 \<le> unat b \<Longrightarrow> bit b 5 = (224 \<le> unat b)" "224 \<le> unat b \<Longrightarrow> bit b 4 = (240 \<le> unat b)"
    "240 \<le> unat b \<Longrightarrow> bit b 3 = (248 \<le> unat b)"
    using low odd_div [of 128 0 "unat b"] odd_div [of 64 2 "unat b"] odd_div [of 32 6 "unat b"]
      odd_div [of 16 14 "unat b"] odd_div [of 8 30 "unat b"]
    unfolding bit_unat bit_iff_odd by simp_all
  then show ?thesis
    unfolding two and_bit lead_def using and_bit [of b 7] by (auto simp: word_less_nat_alt word_le_nat_alt)
qed

lemma leading_ones_bit:
  assumes "n < 8" "m = Suc n" "k = 7 - n"
  shows "leading_ones (push_bit n b) = (if bit b k then Suc (leading_ones (push_bit m b)) else 0)"
proof -
  have "push_bit n b AND 0x80 = 0 \<longleftrightarrow> \<not> bit (push_bit n b) 7"
    using and_exp_eq_0_iff_not_bit [of "push_bit n b" 7] by simp
  also have "\<dots> \<longleftrightarrow> \<not> bit b k" using assms unfolding bit_push_bit_iff by auto
  finally show ?thesis
    by (subst leading_ones.simps) (simp only: push_bit_push_bit plus_1_eq_Suc assms(2) split: if_split, simp)
qed

lemma byte_classes:
  "(b AND 0xC0 \<noteq> 0x80) = (\<not> (0x80 \<le> b \<and> b < 0xC0)) \<and> (b AND 0x80 = 0) = (b < 0x80) \<and>
   (let n = leading_ones (push_bit 1 b) in b < 0x80 \<or> (if n < 1 then 0 else if 3 < n then 0 else n) = lead b)"
proof -
  have "leading_ones (push_bit 1 b) = (if bit b 6 then Suc (leading_ones (push_bit 2 b)) else 0)"
    "leading_ones (push_bit 2 b) = (if bit b 5 then Suc (leading_ones (push_bit 3 b)) else 0)"
    "leading_ones (push_bit 3 b) = (if bit b 4 then Suc (leading_ones (push_bit 4 b)) else 0)"
    "leading_ones (push_bit 4 b) = (if bit b 3 then Suc (leading_ones (push_bit 5 b)) else 0)"
    by (rule leading_ones_bit; simp)+
  note lead_eq = this
  show ?thesis unfolding lead_eq Let_def using byte_bits [of b] by (auto split: if_splits)
qed

inductive_cases utf8_ok_ConsE: "utf8_ok (b # bs)"

definition continued :: "nat \<Rightarrow> u8 list \<Rightarrow> bool" where
  "continued m v \<longleftrightarrow>
     (\<exists>cs bs. v = cs @ bs \<and> length cs = m \<and> (\<forall>c \<in> set cs. 0x80 \<le> c \<and> c < 0xC0) \<and> utf8_ok bs)"

lemma continued_0 [simp]: "continued 0 v = utf8_ok v"
  by (simp add: continued_def)

lemma continued_Nil [simp]: "continued (Suc m) [] = False"
  by (simp add: continued_def)

lemma continued_Suc [simp]: "continued (Suc m) (b # v) \<longleftrightarrow> 0x80 \<le> b \<and> b < 0xC0 \<and> continued m v"
proof
  assume "continued (Suc m) (b # v)"
  then show "0x80 \<le> b \<and> b < 0xC0 \<and> continued m v"
    unfolding continued_def length_Suc_conv by (elim exE conjE) (simp, blast)
next
  assume "0x80 \<le> b \<and> b < 0xC0 \<and> continued m v"
  then obtain cs bs where "v = cs @ bs" "length cs = m" "\<forall>c \<in> set (b # cs). 0x80 \<le> c \<and> c < 0xC0" "utf8_ok bs"
    by (auto simp: continued_def)
  then have "b # v = (b # cs) @ bs" "length (b # cs) = Suc m" by simp_all
  then show "continued (Suc m) (b # v)" unfolding continued_def using \<open>utf8_ok bs\<close> \<open>\<forall>c \<in> set (b # cs). _ c\<close> by blast
qed

lemma lead_ascii: "b < 0x80 \<Longrightarrow> lead b = 0"
  by (auto simp: lead_def word_less_nat_alt)

lemma utf8_ok_Cons: "utf8_ok (b # v) \<longleftrightarrow> (if b < 0x80 then utf8_ok v else lead b \<noteq> 0 \<and> continued (lead b) v)"
proof
  assume "utf8_ok (b # v)"
  then show "if b < 0x80 then utf8_ok v else lead b \<noteq> 0 \<and> continued (lead b) v"
    by (elim utf8_ok_ConsE) (auto simp: lead_ascii continued_def)
next
  assume "if b < 0x80 then utf8_ok v else lead b \<noteq> 0 \<and> continued (lead b) v"
  then show "utf8_ok (b # v)"
    by (auto simp: continued_def split: if_splits intro: utf8_ok.intros)
qed

lemma check_step:
  "checkUTF8Copy m (b # bs) =
     (let expect = (if m \<noteq> 0 then (if 0x80 \<le> b \<and> b < 0xC0 then Some (m - 1) else None)
          else if b < 0x80 then Some 0 else if lead b = 0 then None else Some (lead b))
      in case expect of None \<Rightarrow> ([], False)
         | Some n \<Rightarrow> (case checkUTF8Copy n bs of (out, ok) \<Rightarrow> (b # out, ok)))"
  using byte_classes [of b] by (auto simp: Let_def split: if_splits)

lemma check_utf8_exact:
  "snd (checkUTF8Copy m v) = continued m v \<and> length (fst (checkUTF8Copy m v)) \<le> length v \<and>
   (snd (checkUTF8Copy m v) \<longrightarrow> fst (checkUTF8Copy m v) = v)"
proof (induction v arbitrary: m)
  case Nil
  then show ?case by (cases m) (simp_all add: utf8_ok.empty)
next
  case (Cons b v)
  show ?case
  proof (cases m)
    case 0
    then show ?thesis using Cons [of 0] Cons [of "lead b"]
      by (auto simp: check_step utf8_ok_Cons Let_def split: prod.splits simp del: checkUTF8Copy.simps)
  next
    case (Suc n)
    then show ?thesis using Cons [of n]
      by (auto simp: check_step Let_def split: prod.splits simp del: checkUTF8Copy.simps)
  qed
qed

subsection \<open>What a writer writes\<close>

text \<open>
  \<open>writes f bs valid\<close>: from a state whose position and size stay inside the buffer, \<open>f\<close> stores nothing
  outside, appends \<open>bs\<close> when the state has no error, the data is valid and the bytes fit, and has an
  error otherwise; data that is valid can only run out of space.
\<close>

definition ws_ok :: "write_state \<Rightarrow> bool" where
  "ws_ok st \<longleftrightarrow> ws_pos st + ws_size st = length (ws_buffer st)"

definition same_outside :: "write_state \<Rightarrow> write_state \<Rightarrow> bool" where
  "same_outside s t \<longleftrightarrow> length (ws_buffer t) = length (ws_buffer s) \<and> ws_pos s \<le> ws_pos t \<and>
     take (ws_pos s) (ws_buffer t) = take (ws_pos s) (ws_buffer s)"

definition appended :: "u8 list \<Rightarrow> write_state \<Rightarrow> write_state" where
  "appended bs st = st\<lparr>ws_buffer := write_at (ws_pos st) bs (ws_buffer st), ws_pos := ws_pos st + length bs,
     ws_size := ws_size st - length bs\<rparr>"

definition outcome :: "u8 list \<Rightarrow> bool \<Rightarrow> write_state \<Rightarrow> write_state \<Rightarrow> bool" where
  "outcome bs valid st t \<longleftrightarrow>
     ws_ok t \<and> same_outside st t \<and>
     (if ws_error st = OK \<and> valid \<and> length bs \<le> ws_size st then t = appended bs st
      else ws_error t \<noteq> OK \<and> (valid \<and> ws_error st \<in> {OK, OUT_OF_DATA} \<longrightarrow> ws_error t = OUT_OF_DATA)) \<and>
     (ws_error st \<noteq> MALFORMED \<longrightarrow> ws_error t \<noteq> MALFORMED)"

definition writes :: "(write_state \<Rightarrow> write_state option) \<Rightarrow> u8 list \<Rightarrow> bool \<Rightarrow> bool" where
  "writes f bs valid \<longleftrightarrow> (\<forall>st. ws_ok st \<longrightarrow> (\<exists>t. f st = Some t \<and> outcome bs valid st t))"

lemma writesI: "(\<And>st. ws_ok st \<Longrightarrow> \<exists>t. f st = Some t \<and> outcome bs valid st t) \<Longrightarrow> writes f bs valid"
  by (simp add: writes_def)

lemma writesE:
  assumes "writes f bs valid" "ws_ok st"
  obtains t where "f st = Some t" "outcome bs valid st t" "ws_ok t"
  using assms by (auto simp: writes_def outcome_def)

lemma same_outside_refl [simp]: "same_outside s s"
  by (simp add: same_outside_def)

lemma same_outside_trans: "same_outside s t \<Longrightarrow> same_outside t u \<Longrightarrow> same_outside s u"
  by (auto simp: same_outside_def) (metis min.absorb1 take_take)

lemma appended_ok: "ws_ok st \<Longrightarrow> length bs \<le> ws_size st \<Longrightarrow> ws_ok (appended bs st) \<and> same_outside st (appended bs st)"
  by (auto simp: ws_ok_def appended_def same_outside_def length_write_at) (simp add: write_at_def)

lemma appended_append: "ws_ok st \<Longrightarrow> length bs + length cs \<le> ws_size st \<Longrightarrow>
    appended cs (appended bs st) = appended (bs @ cs) st"
proof -
  assume ok: "ws_ok st" "length bs + length cs \<le> ws_size st"
  then have "ws_pos st + length bs + length cs \<le> length (ws_buffer st)" by (simp add: ws_ok_def)
  then show ?thesis by (simp add: appended_def write_at_def add.assoc add.commute [of "length cs"])
qed

lemma appended_simps [simp]: "ws_error (appended bs st) = ws_error st" "ws_size (appended bs st) = ws_size st - length bs"
  by (simp_all add: appended_def)

lemma outcome_trans:
  assumes "ws_ok st" "outcome bs p st t" "outcome cs q t u"
  shows "outcome (bs @ cs) (p \<and> q) st u"
  using assms same_outside_trans [of st t u] appended_append [OF assms(1), of bs cs]
  by (auto simp: outcome_def split: if_splits)

lemma writes_bind:
  assumes "writes f bs p" "writes g cs q"
  shows "writes (\<lambda>st. do { st \<leftarrow> f st; g st }) (bs @ cs) (p \<and> q)"
proof (rule writesI)
  fix st assume st: "ws_ok st"
  obtain t where t: "f st = Some t" "outcome bs p st t" "ws_ok t" by (rule writesE [OF assms(1) st])
  obtain u where u: "g t = Some u" "outcome cs q t u" by (rule writesE [OF assms(2) t(3)])
  show "\<exists>u. do { st \<leftarrow> f st; g st } = Some u \<and> outcome (bs @ cs) (p \<and> q) st u"
    using t(1) u(1) outcome_trans [OF st t(2) u(2)] by simp
qed

lemma writes_guard: "writes f bs p \<Longrightarrow> writes (\<lambda>st. if ws_error st \<noteq> OK then Some st else f st) bs p"
proof (rule writesI)
  fix st assume f: "writes f bs p" and st: "ws_ok st"
  obtain t where t: "f st = Some t" "outcome bs p st t" by (rule writesE [OF f st])
  show "\<exists>t. (if ws_error st \<noteq> OK then Some st else f st) = Some t \<and> outcome bs p st t"
  proof (cases "ws_error st = OK")
    case True
    then show ?thesis using t by simp
  qed (use st in \<open>simp add: outcome_def\<close>)
qed

lemma writes_skip: "writes Some [] True"
  by (auto simp: writes_def outcome_def appended_def write_at_def)

definition put_byte :: "u8 \<Rightarrow> write_state \<Rightarrow> write_state option" where
  "put_byte b st =
     (let pos = ws_pos st; st = increment st in if ws_error st \<noteq> OK then Some st else store_bytes pos [b] st)"

lemma writes_advanced:
  assumes "\<And>st. f st = (let pos = ws_pos st; st = ws_advance (length bs) st in
      if ws_error st \<noteq> OK then Some st else store_bytes pos bs st)"
  shows "writes f bs True"
proof (rule writesI)
  fix st assume ok: "ws_ok st"
  show "\<exists>t. f st = Some t \<and> outcome bs True st t"
  proof (cases "length bs \<le> ws_size st \<and> ws_error st = OK")
    case True
    then have "f st = Some (appended bs st)"
      using ok by (simp add: assms ws_advance_def store_bytes_def appended_def ws_ok_def Let_def)
    then show ?thesis using appended_ok [OF ok] True by (simp add: outcome_def)
  next
    case False
    then show ?thesis using ok by (auto simp: assms ws_advance_def ws_ok_def same_outside_def outcome_def)
  qed
qed

lemma writes_put: "writes (put_byte b) [b] True"
  by (rule writes_advanced) (auto simp: put_byte_def increment_def ws_advance_def)

lemma getByte_div: "getByte v i = of_nat (unat v div 256 ^ i)"
proof -
  have "getByte v i = of_nat (unat (drop_bit (i * 8) v))"
    unfolding getByte_def by (metis unsigned_word_eqI word_unat_eq_iff unsigned_ucast_eq unsigned_of_nat unat_of_nat take_bit_eq_mod)
  also have "unat (drop_bit (i * 8) v) = unat v div 256 ^ i"
    unfolding unat_drop_bit_eq by (simp add: drop_bit_eq_div mult.commute [of i] power_mult)
  finally show ?thesis .
qed

lemma getByte_bytes: "map (getByte v) (rev [0..<k]) = big_endian_bytes k (unat v)"
  by (simp add: big_endian_bytes_def getByte_div)

lemma writes_bytes: "sz \<in> {1, 2, 4, 8} \<Longrightarrow> writes (writeBytes v sz) (big_endian_bytes sz (unat v)) True"
  unfolding getByte_bytes [symmetric] by (rule writes_advanced) (auto simp: writeBytes_def Let_def)

definition type_nat :: "Type \<Rightarrow> nat" where
  "type_nat type = unat (type_code type)"

lemma major_small: "n < 24 \<Longrightarrow> push_bit 5 (type_code type) OR of_nat n = of_nat (type_nat type * 32 + n)"
proof -
  assume "n < 24"
  moreover have "\<forall>n \<in> set [0..<24]. push_bit 5 (type_code type) OR of_nat n = of_nat (type_nat type * 32 + n)"
    by (cases type; simp only:; code_simp)
  ultimately show ?thesis by simp
qed

lemma major_long:
  "push_bit 5 (type_code type) OR 24 = of_nat (type_nat type * 32 + 24)"
  "push_bit 5 (type_code type) OR 25 = of_nat (type_nat type * 32 + 25)"
  "push_bit 5 (type_code type) OR 26 = of_nat (type_nat type * 32 + 26)"
  "push_bit 5 (type_code type) OR 27 = of_nat (type_nat type * 32 + 27)"
  by (cases type; simp only:; code_simp)+

lemma writes_long_header:
  assumes "sz \<in> {1, 2, 4, 8}"
  shows "writes (\<lambda>st. let header = ws_pos st; st = increment st in if ws_error st \<noteq> OK then Some st
      else do { st \<leftarrow> store_bytes header [b] st; writeBytes v sz st }) (b # big_endian_bytes sz (unat v)) True"
proof -
  have "writes (\<lambda>st. do { st \<leftarrow> put_byte b st; if ws_error st \<noteq> OK then Some st else writeBytes v sz st })
      ([b] @ big_endian_bytes sz (unat v)) (True \<and> True)"
    by (intro writes_bind writes_put writes_guard writes_bytes assms)
  moreover have "(\<lambda>st. do { st \<leftarrow> put_byte b st; if ws_error st \<noteq> OK then Some st else writeBytes v sz st }) =
      (\<lambda>st. let header = ws_pos st; st = increment st in if ws_error st \<noteq> OK then Some st
        else do { st \<leftarrow> store_bytes header [b] st; writeBytes v sz st })"
    by (auto simp: fun_eq_iff put_byte_def Let_def store_bytes_def)
  ultimately show ?thesis by simp
qed

lemma writes_short_header:
  assumes "unat v < 24"
  shows "writes (\<lambda>st. let header = ws_pos st; st = increment st in if ws_error st \<noteq> OK then Some st
      else store_bytes header [push_bit 5 (type_code type) OR ucast v] st) [of_nat (type_nat type * 32 + unat v)] True"
proof -
  have "push_bit 5 (type_code type) OR ucast v = of_nat (type_nat type * 32 + unat v)"
    using major_small [OF assms, of type] by simp
  then show ?thesis using writes_put [of "of_nat (type_nat type * 32 + unat v)"]
    unfolding put_byte_def [abs_def] Let_def by (simp only:)
qed

lemma writes_cong: "writes f bs p \<Longrightarrow> (\<And>st. g st = f st) \<Longrightarrow> cs = bs \<Longrightarrow> writes g cs p"
  by (simp add: writes_def)

lemma writes_header: "writes (writeHeader type v) (head (type_nat type) (unat v)) True"
proof -
  have bounds: "v < 24 \<longleftrightarrow> unat v < 24" "v < 0x100 \<longleftrightarrow> unat v < 2 ^ 8" "v < 0x10000 \<longleftrightarrow> unat v < 2 ^ 16"
    "v < 0x100000000 \<longleftrightarrow> unat v < 2 ^ 32"
    by (simp_all add: word_less_nat_alt)
  note long = writes_guard [OF writes_long_header]
  consider "unat v < 24" | "\<not> unat v < 24" "unat v < 2 ^ 8" | "\<not> unat v < 2 ^ 8" "unat v < 2 ^ 16"
    | "\<not> unat v < 2 ^ 16" "unat v < 2 ^ 32" | "\<not> unat v < 2 ^ 32"
    by blast
  then show ?thesis
  proof cases
    case 1
    show ?thesis by (rule writes_cong [OF writes_guard [OF writes_short_header [OF 1, of type]]])
        (simp_all only: writeHeader_def Let_def bounds head_def 1 if_True)
  next
    case 2
    then show ?thesis
      by (intro writes_cong [OF long [of 1 "push_bit 5 (type_code type) OR 24" v]])
        (simp_all only: writeHeader_def Let_def bounds head_def major_long if_True if_False refl, simp_all)
  next
    case 3
    moreover from 3 have "\<not> unat v < 24" by simp
    ultimately show ?thesis
      by (intro writes_cong [OF long [of 2 "push_bit 5 (type_code type) OR 25" v]])
        (simp_all only: writeHeader_def Let_def bounds head_def major_long if_True if_False refl, simp_all)
  next
    case 4
    moreover from 4 have "\<not> unat v < 24" "\<not> unat v < 2 ^ 8" by simp_all
    ultimately show ?thesis
      by (intro writes_cong [OF long [of 4 "push_bit 5 (type_code type) OR 26" v]])
        (simp_all only: writeHeader_def Let_def bounds head_def major_long if_True if_False refl, simp_all)
  next
    case 5
    moreover from 5 have "\<not> unat v < 24" "\<not> unat v < 2 ^ 8" "\<not> unat v < 2 ^ 16" by simp_all
    ultimately show ?thesis
      by (intro writes_cong [OF long [of 8 "push_bit 5 (type_code type) OR 27" v]])
        (simp_all only: writeHeader_def Let_def bounds head_def major_long if_True if_False refl, simp_all)
  qed
qed

lemma writes_header_nat: "n < 2 ^ 64 \<Longrightarrow> writes (writeHeader type (of_nat n)) (head (type_nat type) n) True"
  using writes_header [of type "of_nat n"] by (simp add: unat_of_nat)

lemma negative_word: "- (2 ^ 63) \<le> v \<Longrightarrow> v < 0 \<Longrightarrow> unat (- 1 - word_of_int v :: 64 word) = nat (- 1 - v)"
proof -
  assume v: "- (2 ^ 63) \<le> v" "v < 0"
  have "- 1 - word_of_int v = (word_of_int (- 1 - v) :: 64 word)" by simp
  moreover have "uint (word_of_int (- 1 - v) :: 64 word) = - 1 - v"
    using v by (simp only: uint_word_of_int) (simp add: mod_pos_pos_trivial)
  ultimately have "uint (- 1 - word_of_int v :: 64 word) = - 1 - v" by (simp only:)
  then show ?thesis by (simp only: unat_eq_nat_uint)
qed

lemma writes_number: "- (2 ^ 63) \<le> v \<Longrightarrow> v < 2 ^ 64 \<Longrightarrow> writes (writeNumber v) (encode (Number v)) True"
proof -
  assume v: "- (2 ^ 63) \<le> v" "v < 2 ^ 64"
  show ?thesis
  proof (cases "0 \<le> v")
    case True
    have "unat (word_of_int v :: 64 word) = nat v"
      using True v by (simp add: unsigned_of_int take_bit_int_eq_self nat_less_iff)
    with True show ?thesis
      by (intro writes_cong [OF writes_guard [OF writes_header [of NUMBER "word_of_int v"]]])
        (simp_all add: writeNumber_def type_nat_def)
  next
    case False
    with negative_word [OF v(1)] show ?thesis
      by (intro writes_cong [OF writes_guard [OF writes_header [of NEGATIVE "- 1 - word_of_int v"]]])
        (simp_all add: writeNumber_def type_nat_def)
  qed
qed

lemma writes_byte_string: "length v < 2 ^ 64 \<Longrightarrow> writes (writeByteString v) (encode (Bytes v)) True"
proof -
  assume len: "length v < 2 ^ 64"
  have "writes (\<lambda>st. let pos = ws_pos st; st = ws_advance (length v) st in
      if ws_error st \<noteq> OK then Some st else store_bytes pos v st) v True"
    by (rule writes_advanced) simp
  from writes_bind [OF writes_header_nat [OF len, of BYTE_STRING] this]
  show ?thesis
    by (simp add: writeByteString_def [abs_def] type_nat_def Let_def)
qed

lemma put_prefix:
  assumes "length out \<le> length v" "pos + length v \<le> length buf"
  shows "take pos (write_at pos out buf) = take pos buf" "length (write_at pos out buf) = length buf"
  using assms by (simp_all add: write_at_def length_write_at)

lemma writes_text: "length v < 2 ^ 64 \<Longrightarrow> writes (writeText v) (encode (Text v)) (utf8_ok v)"
proof -
  assume len: "length v < 2 ^ 64"
  define body where "body st = (let buffer = ws_pos st; st = ws_advance (length v) st in
      if ws_error st \<noteq> OK then Some st
      else case checkUTF8Copy 0 v of (out, ok) \<Rightarrow>
        do { st \<leftarrow> store_bytes buffer out st; Some (if ok then st else st\<lparr>ws_error := MALFORMED_UTF8\<rparr>) })" for st
  obtain out ok where check: "checkUTF8Copy 0 v = (out, ok)" by (cases "checkUTF8Copy 0 v")
  then have exact: "ok = utf8_ok v" "length out \<le> length v" "ok \<Longrightarrow> out = v"
    using check_utf8_exact [of 0 v] by simp_all
  have "writes body v (utf8_ok v)"
  proof (rule writesI)
    fix st assume st: "ws_ok st"
    show "\<exists>t. body st = Some t \<and> outcome v (utf8_ok v) st t"
    proof (cases "length v \<le> ws_size st \<and> ws_error st = OK")
      case True
      then have room: "ws_pos st + length v \<le> length (ws_buffer st)" using st by (simp add: ws_ok_def)
      then have "ws_pos st + length out \<le> length (ws_buffer st)" using exact(2) by simp
      then have run: "body st = Some (let t = st\<lparr>ws_buffer := write_at (ws_pos st) out (ws_buffer st),
            ws_pos := ws_pos st + length v, ws_size := ws_size st - length v\<rparr>
          in if ok then t else t\<lparr>ws_error := MALFORMED_UTF8\<rparr>)"
        using True by (simp add: body_def ws_advance_def store_bytes_def check Let_def)
      show ?thesis
      proof (cases ok)
        case True
        then have "body st = Some (appended v st)" using run exact by (simp add: appended_def)
        then show ?thesis using appended_ok [OF st] exact True \<open>length v \<le> ws_size st \<and> _\<close> by (simp add: outcome_def)
      next
        case False
        then show ?thesis using run exact st True put_prefix [OF exact(2) room]
          by (simp add: ws_ok_def same_outside_def outcome_def)
      qed
    next
      case False
      then show ?thesis using st by (auto simp: body_def ws_advance_def ws_ok_def same_outside_def outcome_def Let_def)
    qed
  qed
  from writes_bind [OF writes_header_nat [OF len, of TEXT_STRING] this] show ?thesis
    by (simp add: writeText_def [abs_def] body_def [abs_def] type_nat_def Let_def)
qed

lemma text_error:
  assumes "ws_ok st" "ws_error st = OK" "length v < 2 ^ 64" "\<not> utf8_ok v"
  shows "\<exists>t. writeText v st = Some t \<and>
    ws_error t = (if length (encode (Text v)) \<le> ws_size st then MALFORMED_UTF8 else OUT_OF_DATA) \<and>
    length (ws_buffer t) = length (ws_buffer st)"
proof -
  obtain out where check: "checkUTF8Copy 0 v = (out, False)" and len: "length out \<le> length v"
    using check_utf8_exact [of 0 v] assms(4) by (cases "checkUTF8Copy 0 v") auto
  obtain t where t: "writeHeader TEXT_STRING (of_nat (length v)) st = Some t" "outcome (head 3 (length v)) True st t" "ws_ok t"
    using writesE [OF writes_header_nat [OF assms(3), of TEXT_STRING] assms(1)] by (auto simp: type_nat_def)
  show ?thesis
  proof (cases "length (head 3 (length v)) \<le> ws_size st")
    case True
    then have "t = appended (head 3 (length v)) st" using t(2) assms(2) by (simp add: outcome_def)
    moreover have "ws_pos t + length out \<le> length (ws_buffer t)" if "length v \<le> ws_size t"
      using t(3) that len by (simp add: ws_ok_def)
    ultimately show ?thesis
      using t True assms(2) check appended_ok [OF assms(1) True]
      by (auto simp: writeText_def ws_advance_def store_bytes_def length_write_at same_outside_def Let_def)
  next
    case False
    then have "ws_error t = OUT_OF_DATA" "length (ws_buffer t) = length (ws_buffer st)"
      using t(2) assms(2) by (simp_all add: outcome_def same_outside_def)
    then show ?thesis using t(1) False by (simp add: writeText_def ws_advance_def Let_def)
  qed
qed

lemma writes_cbor:
  "in_range c \<Longrightarrow> writes (cbor_write c) (encode c) (texts_ok c)"
  "in_range_elems es \<Longrightarrow> writes (write_elems es) (encode_elems es) (texts_ok_elems es)"
  "in_range_pairs ps \<Longrightarrow> writes (write_pairs ps) (encode_pairs ps) (texts_ok_pairs ps)"
proof (induction c and es and ps rule: encode_encode_elems_encode_pairs.induct)
  case (1 v)
  then have "writes (writeNumber v) (encode (Number v)) True" by (intro writes_number) simp_all
  then show ?case by (simp add: writes_def)
next
  case (2 v)
  then show ?case using writes_text [of v] by (simp add: writes_def)
next
  case (3 v)
  then show ?case using writes_byte_string [of v] by (simp add: writes_def)
next
  case (4 es)
  then have "writes (write_elems es) (encode_elems es) (texts_ok_elems es)" "length es < 2 ^ 64" by simp_all
  from writes_guard [OF writes_bind [OF writes_header_nat [OF this(2), of ARRAY] this(1)]]
  show ?case by (simp add: type_nat_def writes_def)
next
  case (5 ps)
  then have "writes (write_pairs ps) (encode_pairs ps) (texts_ok_pairs ps)" "length ps < 2 ^ 64" by simp_all
  from writes_guard [OF writes_bind [OF writes_header_nat [OF this(2), of MAP] this(1)]]
  show ?case by (simp add: type_nat_def writes_def)
next
  case 6
  then show ?case using writes_skip by (simp add: writes_def)
next
  case (7 e es)
  then have "writes (cbor_write e) (encode e) (texts_ok e)"
    "writes (write_elems es) (encode_elems es) (texts_ok_elems es)" by simp_all
  from writes_bind [OF this] show ?case by (simp add: writes_def)
next
  case 8
  then show ?case using writes_skip by (simp add: writes_def)
next
  case (9 k v ps)
  then have "writes (cbor_write k) (encode k) (texts_ok k)" "writes (cbor_write v) (encode v) (texts_ok v)"
    "writes (write_pairs ps) (encode_pairs ps) (texts_ok_pairs ps)" by simp_all
  from writes_bind [OF writes_guard [OF writes_bind [OF this(1,2)]] this(3)] show ?case by (simp add: writes_def)
qed

subsection \<open>The encoding determines the data\<close>

text \<open>The major type and the number of a head, and what follows it.\<close>

definition from_bytes :: "u8 list \<Rightarrow> nat" where
  "from_bytes bs = fold (\<lambda>b n. n * 256 + unat b) bs 0"

definition unhead :: "u8 list \<Rightarrow> nat \<times> nat \<times> u8 list" where
  "unhead bs =
     (let b = unat (hd bs); k = (if b mod 32 < 24 then 0 else 2 ^ (b mod 32 - 24)) in
      (b div 32, if k = 0 then b mod 32 else from_bytes (take k (tl bs)), drop k (tl bs)))"

lemma fold_bytes: "fold (\<lambda>b n. n * 256 + unat b) (big_endian_bytes k n) m = m * 256 ^ k + n mod 256 ^ k"
proof (induction k arbitrary: m)
  case (Suc k)
  have "unat (of_nat (n div 256 ^ k) :: u8) = n div 256 ^ k mod 256" by (simp add: unat_of_nat)
  moreover have "n mod 256 ^ Suc k = n div 256 ^ k mod 256 * 256 ^ k + n mod 256 ^ k"
    using mod_mult2_eq [of n "256 ^ k" 256] by (simp add: mult.commute add.commute)
  ultimately show ?case using Suc [of "m * 256 + n div 256 ^ k mod 256"]
    by (simp add: big_endian_bytes_def algebra_simps)
qed (simp add: big_endian_bytes_def)

lemma length_big_endian_bytes [simp]: "length (big_endian_bytes k n) = k"
  by (simp add: big_endian_bytes_def)

lemma byte_nat: "n < 256 \<Longrightarrow> unat (of_nat n :: u8) = n"
  by (simp add: unat_of_nat)

lemma unhead_long:
  assumes "k \<in> {0, 1, 2, 3}" "n < 256 ^ 2 ^ k" "major < 8" "b = major * 32 + 24 + k"
  shows "unhead ((of_nat b # big_endian_bytes (2 ^ k) n) @ rest) = (major, n, rest)"
proof -
  have "unat (of_nat b :: u8) = major * 32 + (24 + k)"
    using assms by (subst byte_nat) auto
  moreover have "24 + k < 32" using assms(1) by auto
  moreover have "(major * 32 + (24 + k)) mod 32 = 24 + k" "(major * 32 + (24 + k)) div 32 = major"
    using \<open>24 + k < 32\<close> by simp_all
  ultimately show ?thesis
    using assms(2) fold_bytes [of "2 ^ k" n 0] by (simp add: unhead_def from_bytes_def Let_def)
qed

lemma unhead_head: "major < 8 \<Longrightarrow> n < 2 ^ 64 \<Longrightarrow> unhead (head major n @ rest) = (major, n, rest)"
proof -
  assume m: "major < 8" "n < 2 ^ 64"
  consider "n < 24" | "\<not> n < 24" "n < 2 ^ 8" | "\<not> n < 24" "\<not> n < 2 ^ 8" "n < 2 ^ 16"
    | "\<not> n < 24" "\<not> n < 2 ^ 8" "\<not> n < 2 ^ 16" "n < 2 ^ 32"
    | "\<not> n < 24" "\<not> n < 2 ^ 8" "\<not> n < 2 ^ 16" "\<not> n < 2 ^ 32"
    by blast
  then show ?thesis
  proof cases
    case 1
    then have "unat (of_nat (major * 32 + n) :: u8) = major * 32 + n" using m by (intro byte_nat) simp
    then show ?thesis using 1 by (simp add: head_def unhead_def Let_def del: of_nat_add of_nat_mult)
  next
    case 2
    then show ?thesis using unhead_long [of 0 n major "major * 32 + 24" rest] m by (simp add: head_def)
  next
    case 3
    then show ?thesis using unhead_long [of 1 n major "major * 32 + 25" rest] m by (simp add: head_def)
  next
    case 4
    then show ?thesis using unhead_long [of 2 n major "major * 32 + 26" rest] m by (simp add: head_def)
  next
    case 5
    then show ?thesis using unhead_long [of 3 n major "major * 32 + 27" rest] m by (simp add: head_def)
  qed
qed

lemma head_inj:
  assumes "head a m @ r = head b n @ q" "a < 8" "b < 8" "m < 2 ^ 64" "n < 2 ^ 64"
  shows "a = b \<and> m = n \<and> r = q"
proof -
  have "(a, m, r) = unhead (head a m @ r)" using assms(2,4) by (rule unhead_head [symmetric])
  also have "\<dots> = unhead (head b n @ q)" using assms(1) by (rule arg_cong)
  also have "\<dots> = (b, n, q)" using assms(3,5) by (rule unhead_head)
  finally show ?thesis by simp
qed

text \<open>The head of an item: its major type and its number, with the bytes of its content.\<close>

fun item_head :: "cbor \<Rightarrow> nat \<times> nat" where
  "item_head (Number v) = (if 0 \<le> v then (0, nat v) else (1, nat (- 1 - v)))"
| "item_head (Text v) = (3, length v)"
| "item_head (Bytes v) = (2, length v)"
| "item_head (Arr elems) = (4, length elems)"
| "item_head (Map elems) = (5, length elems)"

fun content :: "cbor \<Rightarrow> u8 list" where
  "content (Number v) = []"
| "content (Text v) = v"
| "content (Bytes v) = v"
| "content (Arr elems) = encode_elems elems"
| "content (Map elems) = encode_pairs elems"

lemma encode_head: "encode c = head (fst (item_head c)) (snd (item_head c)) @ content c"
  by (cases c) simp_all

lemma item_head_bounds: "in_range c \<Longrightarrow> fst (item_head c) < 8 \<and> snd (item_head c) < 2 ^ 64"
  by (cases c) (auto simp: nat_less_iff)

lemma same_head:
  assumes "encode c @ r = encode d @ q" "in_range c" "in_range d"
  shows "item_head c = item_head d \<and> content c @ r = content d @ q"
  using assms head_inj [of "fst (item_head c)" "snd (item_head c)" "content c @ r"
      "fst (item_head d)" "snd (item_head d)" "content d @ q"]
    item_head_bounds [of c] item_head_bounds [of d]
  by (simp add: encode_head [of c] encode_head [of d] prod_eq_iff)

lemma arr_prefix_free:
  assumes "\<And>fs r q. in_range_elems es \<Longrightarrow> in_range_elems fs \<Longrightarrow> length es = length fs \<Longrightarrow>
      encode_elems es @ r = encode_elems fs @ q \<Longrightarrow> es = fs \<and> r = q"
    "in_range (Arr es)" "in_range d" "encode (Arr es) @ r = encode d @ q"
  shows "Arr es = d \<and> r = q"
proof -
  have head: "item_head d = (4, length es) \<and> encode_elems es @ r = content d @ q"
    using same_head [OF assms(4,2,3)] by simp
  then obtain fs where d: "d = Arr fs" "length es = length fs" by (cases d) (simp_all split: if_splits)
  show ?thesis
    unfolding d(1) cbor.inject
    by (rule assms(1)) (use assms(2,3) d head in \<open>simp_all only: content.simps in_range.simps simp_thms\<close>)
qed

lemma map_prefix_free:
  assumes "\<And>qs r q. in_range_pairs ps \<Longrightarrow> in_range_pairs qs \<Longrightarrow> length ps = length qs \<Longrightarrow>
      encode_pairs ps @ r = encode_pairs qs @ q \<Longrightarrow> ps = qs \<and> r = q"
    "in_range (Map ps)" "in_range d" "encode (Map ps) @ r = encode d @ q"
  shows "Map ps = d \<and> r = q"
proof -
  have head: "item_head d = (5, length ps) \<and> encode_pairs ps @ r = content d @ q"
    using same_head [OF assms(4,2,3)] by simp
  then obtain qs where d: "d = Map qs" "length ps = length qs" by (cases d) (simp_all split: if_splits)
  show ?thesis
    unfolding d(1) cbor.inject
    by (rule assms(1)) (use assms(2,3) d head in \<open>simp_all only: content.simps in_range.simps simp_thms\<close>)
qed

lemma leaf_prefix_free:
  assumes "encode c @ r = encode d @ q" "in_range c" "in_range d" "\<And>es. c \<noteq> Arr es" "\<And>ps. c \<noteq> Map ps"
  shows "c = d \<and> r = q"
proof -
  have "item_head d = item_head c" "content d @ q = content c @ r" using same_head [OF assms(1-3)] by simp_all
  then show ?thesis using assms(4,5) by (cases c; cases d) (auto split: if_splits)
qed

lemma elems_step:
  assumes "\<And>d r q. in_range d \<Longrightarrow> encode e @ r = encode d @ q \<Longrightarrow> e = d \<and> r = q"
    "\<And>fs r q. in_range_elems fs \<Longrightarrow> length es = length fs \<Longrightarrow>
      encode_elems es @ r = encode_elems fs @ q \<Longrightarrow> es = fs \<and> r = q"
    "in_range_elems gs" "length (e # es) = length gs" "encode_elems (e # es) @ r = encode_elems gs @ q"
  shows "e # es = gs \<and> r = q"
proof -
  obtain f fs where gs: "gs = f # fs" using assms(4) by (cases gs) auto
  have "e = f \<and> encode_elems es @ r = encode_elems fs @ q"
    by (rule assms(1)) (use assms(3,5) gs in simp_all)
  moreover from this have "es = fs \<and> r = q" by (intro assms(2)) (use assms(3,4) gs in simp_all)
  ultimately show ?thesis by (simp add: gs)
qed

lemma pairs_step:
  assumes "\<And>d r q. in_range d \<Longrightarrow> encode k @ r = encode d @ q \<Longrightarrow> k = d \<and> r = q"
    "\<And>d r q. in_range d \<Longrightarrow> encode v @ r = encode d @ q \<Longrightarrow> v = d \<and> r = q"
    "\<And>qs r q. in_range_pairs qs \<Longrightarrow> length ps = length qs \<Longrightarrow>
      encode_pairs ps @ r = encode_pairs qs @ q \<Longrightarrow> ps = qs \<and> r = q"
    "in_range_pairs gs" "length ((k, v) # ps) = length gs" "encode_pairs ((k, v) # ps) @ r = encode_pairs gs @ q"
  shows "(k, v) # ps = gs \<and> r = q"
proof -
  obtain k' v' qs where gs: "gs = (k', v') # qs" using assms(5) by (cases gs) auto
  have "k = k' \<and> encode v @ encode_pairs ps @ r = encode v' @ encode_pairs qs @ q"
    by (rule assms(1)) (use assms(4,6) gs in simp_all)
  moreover from this have "v = v' \<and> encode_pairs ps @ r = encode_pairs qs @ q"
    by (intro assms(2)) (use assms(4) gs in simp_all)
  moreover from this have "ps = qs \<and> r = q" by (intro assms(3)) (use assms(4,5) gs in simp_all)
  ultimately show ?thesis by (simp add: gs)
qed

lemma encode_prefix_free:
  "in_range c \<Longrightarrow> in_range d \<Longrightarrow> encode c @ r = encode d @ q \<Longrightarrow> c = d \<and> r = q"
  "in_range_elems es \<Longrightarrow> in_range_elems fs \<Longrightarrow> length es = length fs \<Longrightarrow>
     encode_elems es @ r = encode_elems fs @ q \<Longrightarrow> es = fs \<and> r = q"
  "in_range_pairs ps \<Longrightarrow> in_range_pairs qs \<Longrightarrow> length ps = length qs \<Longrightarrow>
     encode_pairs ps @ r = encode_pairs qs @ q \<Longrightarrow> ps = qs \<and> r = q"
proof (induction c and es and ps arbitrary: d r q and fs r q and qs r q rule: encode_encode_elems_encode_pairs.induct)
  case (1 v)
  show ?case by (rule leaf_prefix_free [OF 1(3,1,2)]) simp_all
next
  case (2 v)
  show ?case by (rule leaf_prefix_free [OF 2(3,1,2)]) simp_all
next
  case (3 v)
  show ?case by (rule leaf_prefix_free [OF 3(3,1,2)]) simp_all
next
  case (4 es)
  show ?case by (rule arr_prefix_free [OF 4])
next
  case (5 ps)
  show ?case by (rule map_prefix_free [OF 5])
next
  case 6
  then show ?case by simp
next
  case (7 e es)
  have "in_range e" "in_range_elems es" using 7(3) by simp_all
  then show ?case using 7(4-6) by (intro elems_step [OF 7(1,2)])
next
  case 8
  then show ?case by simp
next
  case (9 k v ps)
  have "in_range k" "in_range v" "in_range_pairs ps" using 9(4) by simp_all
  then show ?case using 9(5-7) by (intro pairs_step [OF 9(1,2,3)])
qed

subsection \<open>The message buffer\<close>

definition written :: "write_state \<Rightarrow> u8 list" where
  "written st = take (ws_pos st) (ws_buffer st)"

lemma fresh_buffer [simp]: "ws_ok (WriteState buffer)" "ws_error (WriteState buffer) = OK"
  "ws_size (WriteState buffer) = length buffer" "ws_pos (WriteState buffer) = 0" "ws_buffer (WriteState buffer) = buffer"
  by (simp_all add: WriteState_def ws_ok_def)

lemma write_outcome:
  assumes "in_range c"
  shows "\<exists>st. cbor_write c (WriteState buffer) = Some st \<and> length (ws_buffer st) = length buffer \<and>
    ws_error st \<noteq> MALFORMED \<and>
    (if texts_ok c \<and> length (encode c) \<le> length buffer
     then ws_error st = OK \<and> written st = encode c \<and>
       drop (length (encode c)) (ws_buffer st) = drop (length (encode c)) buffer
     else ws_error st \<noteq> OK \<and> (texts_ok c \<longrightarrow> ws_error st = OUT_OF_DATA))"
proof -
  obtain st where "cbor_write c (WriteState buffer) = Some st" "outcome (encode c) (texts_ok c) (WriteState buffer) st"
    using writesE [OF writes_cbor(1) [OF assms], of "WriteState buffer"] by auto
  then show ?thesis
    by (auto simp: outcome_def same_outside_def appended_def written_def write_at_def split: if_splits)
qed

text \<open>
  C26: The writer is exact and stays inside its buffer: every item, of any nesting, is written as its
  RFC 7049 encoding when its texts are well-formed and the encoding fits, and the bytes behind it are
  untouched; otherwise the error is set, to \<open>OUT_OF_DATA\<close> if only space was missing, and no store has
  left the buffer.
\<close>
theorem cbor_writer_exact:
  assumes "in_range c"
  shows "\<exists>st. cbor_write c (WriteState buffer) = Some st \<and> length (ws_buffer st) = length buffer \<and>
    (if texts_ok c \<and> length (encode c) \<le> length buffer
     then ws_error st = OK \<and> written st = encode c \<and>
       drop (length (encode c)) (ws_buffer st) = drop (length (encode c)) buffer
     else ws_error st \<noteq> OK \<and> (texts_ok c \<longrightarrow> ws_error st = OUT_OF_DATA))"
  using write_outcome [OF assms, of buffer] by auto

text \<open>
  C27: What was written determines what was meant: two items whose writers both succeeded and left the
  same bytes are the same item, so the message the user confirmed stands for one prompt and one extra
  data only.
\<close>
theorem written_bytes_determine_item:
  assumes "in_range c" "in_range d"
    and "cbor_write c (WriteState b1) = Some s" "ws_error s = OK"
    and "cbor_write d (WriteState b2) = Some t" "ws_error t = OK"
    and "written s = written t"
  shows "c = d"
proof -
  have s: "written s = encode c" using write_outcome [OF assms(1), of b1] assms(3,4) by (simp split: if_splits)
  have t: "written t = encode d" using write_outcome [OF assms(2), of b2] assms(5,6) by (simp split: if_splits)
  have "encode c @ [] = encode d @ []" using assms(7) unfolding s t by simp
  then show ?thesis by (rule encode_prefix_free(1) [OF assms(1,2), THEN conjunct1])
qed

text \<open>A part of the test vector of \<open>android_cbor_test.cpp\<close>, in a buffer of 48 bytes, and in one of 47.\<close>

definition test_map :: cbor where
  "test_map = Map
     [(Text [0x6B, 0x65, 0x79], Text [0x76, 0x61, 0x6C, 0x75, 0x65]),
      (Text [0x6B, 0x65, 0x79], Bytes [0x31, 0x30, 0x30, 0x31, 0x30, 0x31, 0x30, 0x31, 0x30, 0x30, 0x31, 0x30, 0]),
      (Number 4, Number 7), (Number (2 ^ 62), Number (- 2000000000000000))]"

definition test_bytes :: "u8 list" where
  "test_bytes = [0xA4, 0x63, 0x6B, 0x65, 0x79, 0x65, 0x76, 0x61, 0x6C, 0x75, 0x65, 0x63, 0x6B, 0x65, 0x79, 0x4D,
     0x31, 0x30, 0x30, 0x31, 0x30, 0x31, 0x30, 0x31, 0x30, 0x30, 0x31, 0x30, 0x00, 0x04, 0x07, 0x1B,
     0x40, 0x00, 0x00, 0x00, 0x00, 0x00, 0x00, 0x00, 0x3B, 0x00, 0x07, 0x1A, 0xFD, 0x49, 0x8C, 0xFF, 0xFF]"

lemma test_encode: "encode test_map = test_bytes"
  by (simp add: test_map_def test_bytes_def head_def big_endian_bytes_def upt_rec)

lemma test_in_range: "in_range test_map"
  by (simp add: test_map_def)

lemma test_texts_ok: "texts_ok test_map"
  by (simp add: test_map_def utf8_ok.intros)

theorem cbor_writer_exact_witness:
  "\<exists>st. cbor_write test_map (WriteState (replicate 64 0x22)) = Some st \<and> ws_error st = OK \<and> written st = test_bytes"
proof -
  have "length (encode test_map) \<le> length (replicate 64 (0x22 :: u8))"
    unfolding test_encode by (simp add: test_bytes_def)
  then show ?thesis
    using cbor_writer_exact [OF test_in_range, of "replicate 64 0x22"] test_texts_ok unfolding test_encode by auto
qed

theorem written_bytes_determine_item_witness:
  "(\<exists>s t. cbor_write (Number 24) (WriteState [0, 0]) = Some s \<and> cbor_write (Number (23 + 1)) (WriteState [1, 1, 1]) = Some t \<and>
     written s = [0x18, 24] \<and> written t = written s) \<and> (24 :: int) = 23 + 1"
proof -
  obtain s where s: "cbor_write (Number 24) (WriteState [0, 0]) = Some s" "ws_error s = OK" "written s = [0x18, 24]"
    using write_outcome [of "Number 24" "[0, 0]"] by (auto simp: head_def big_endian_bytes_def split: if_splits)
  obtain t where t: "cbor_write (Number (23 + 1)) (WriteState [1, 1, 1]) = Some t" "ws_error t = OK" "written t = [0x18, 24]"
    using write_outcome [of "Number 24" "[1, 1, 1]"] by (auto simp: head_def big_endian_bytes_def split: if_splits)
  have "Number 24 = Number (23 + 1)"
    by (rule written_bytes_determine_item [OF _ _ s(1,2) t(1,2)]) (simp_all add: s(3) t(3))
  then show ?thesis using s t by auto
qed

end
