(* ===== verification/MsgFormat.thy ===== *)
theory MsgFormat
  imports Prelude "HOL-Library.Monad_Syntax"
begin

text \<open>
  The messages between the confirmation UI and a trusted application
  (\<open>confirmationui/support/include/.../msg_formatting.h\<close>): a command and fields, each behind its size.

  A stream is a pointer into a buffer with the bytes that are left and a flag. The model has the whole
  buffer, the address of its first byte (the alignment of the option list depends on it) and the
  position; a load or store outside the buffer is the result \<open>None\<close>. The machine is little-endian.
  Vectors and strings are read in place; the model has their value at that time. The message templates
  are lists of fields: the variadic functions are recursion on the list.
\<close>

subsection \<open>Numbers in memory\<close>

definition le_bytes :: "nat \<Rightarrow> nat \<Rightarrow> u8 list" where
  "le_bytes k n = map (\<lambda>i. of_nat (n div 256 ^ i)) [0..<k]"

definition le_nat :: "u8 list \<Rightarrow> nat" where
  "le_nat bs = foldr (\<lambda>b n. unat b + 256 * n) bs 0"

lemma length_le_bytes [simp]: "length (le_bytes k n) = k"
  by (simp add: le_bytes_def)

lemma le_bytes_Suc: "le_bytes (Suc k) n = of_nat n # le_bytes k (n div 256)"
  by (simp add: le_bytes_def upt_conv_Cons del: upt_Suc)
    (simp add: map_Suc_upt [symmetric] div_mult2_eq del: upt_Suc)

lemma le_nat_bytes: "le_nat (le_bytes k n) = n mod 256 ^ k"
proof (induction k arbitrary: n)
  case 0
  then show ?case by (simp add: le_nat_def le_bytes_def)
next
  case (Suc k)
  have "le_nat (le_bytes (Suc k) n) = n mod 256 + 256 * (n div 256 mod 256 ^ k)"
    using Suc [of "n div 256"] by (simp add: le_bytes_Suc le_nat_def unat_of_nat)
  also have "\<dots> = n mod 256 ^ Suc k" by (simp add: mod_mult2_eq)
  finally show ?case .
qed

subsection \<open>Streams\<close>

record stream =
  st_mem :: "u8 list"
  st_base :: nat
  st_pos :: nat \<comment> \<open>\<open>pos_\<close>\<close>
  st_left :: nat \<comment> \<open>\<open>bytes_left_\<close>\<close>
  st_good :: bool

definition stream_on :: "nat \<Rightarrow> u8 list \<Rightarrow> stream" where
  "stream_on address buffer =
     \<lparr>st_mem = buffer, st_base = address, st_pos = 0, st_left = length buffer, st_good = (0 < length buffer)\<rparr>"

definition skip_one :: "stream \<Rightarrow> stream" where
  "skip_one s = (if st_good s \<and> st_left s \<noteq> 0 then s\<lparr>st_pos := st_pos s + 1, st_left := st_left s - 1\<rparr>
     else s\<lparr>st_good := False\<rparr>)"

definition skip :: "nat \<Rightarrow> stream \<Rightarrow> stream" where
  "skip offset s = (if \<not> st_good s \<or> st_left s < offset then s\<lparr>st_good := False\<rparr>
     else s\<lparr>st_pos := st_pos s + offset, st_left := st_left s - offset\<rparr>)"

definition st_addr :: "stream \<Rightarrow> nat" where
  "st_addr s = st_base s + st_pos s"

definition store :: "nat \<Rightarrow> u8 list \<Rightarrow> stream \<Rightarrow> stream option" where
  "store pos bs s = (if pos + length bs \<le> length (st_mem s) then Some (s\<lparr>st_mem := write_at pos bs (st_mem s)\<rparr>) else None)"

definition fetch :: "nat \<Rightarrow> nat \<Rightarrow> stream \<Rightarrow> u8 list option" where
  "fetch pos n s = (if pos + n \<le> length (st_mem s) then Some (take n (drop pos (st_mem s))) else None)"

text \<open>A pointer that may be null is the position or \<open>None\<close>.\<close>

definition fetch_at :: "nat option \<Rightarrow> nat \<Rightarrow> stream \<Rightarrow> u8 list option" where
  "fetch_at p n s = do { pos \<leftarrow> p; fetch pos n s }"

subsection \<open>Alignment\<close>

definition unalign :: "stream \<Rightarrow> stream" where
  "unalign s =
     (let unalignment = st_addr s mod 4;
          s = (if unalignment \<noteq> 0 then skip (4 - unalignment) s else s)
      in if even (st_addr s div 4) then skip 4 s else s)"

text \<open>When writing, the gap is filled.\<close>

definition unalign_write :: "stream \<Rightarrow> stream option" where
  "unalign_write s = (let s' = unalign s in store (st_pos s) (replicate (st_pos s' - st_pos s) 0xaa) s')"

subsection \<open>Fields\<close>

definition write_sized :: "u8 list \<Rightarrow> stream \<Rightarrow> stream option" where
  "write_sized buffer out =
     (let pos = st_pos out; v = length buffer mod 2 ^ 32; out = skip (4 + length buffer) out in
      if \<not> st_good out then Some out
      else if length buffer \<noteq> v then Some (out\<lparr>st_good := False\<rparr>)
      else do { out \<leftarrow> store pos (le_bytes 4 v) out; store (pos + 4) buffer out })"

definition read_sized :: "stream \<Rightarrow> (stream \<times> nat option \<times> nat) option" where
  "read_sized inp =
     (let pos = st_pos inp; inp = skip 4 inp in
      if \<not> st_good inp then Some (inp, None, 0)
      else do {
        bs \<leftarrow> fetch pos 4 inp;
        let sz = le_nat bs; pos = st_pos inp; inp = skip sz inp in
        if \<not> st_good inp then Some (inp, None, 0) else Some (inp, Some pos, sz) })"

definition readSimpleType :: "stream \<Rightarrow> (stream \<times> u32) option" where
  "readSimpleType inp =
     do { (inp, pos, read_size) \<leftarrow> read_sized inp;
          if \<not> st_good inp \<or> read_size \<noteq> 4 then Some (inp\<lparr>st_good := False\<rparr>, 0)
          else do { bs \<leftarrow> fetch_at pos 4 inp; Some (inp, of_nat (le_nat bs)) } }"

definition elements :: "nat \<Rightarrow> u8 list \<Rightarrow> u8 list list" where
  "elements sz bs = map (\<lambda>i. take sz (drop (i * sz) bs)) [0..<length bs div sz]"

definition readSimpleHidlVecInPlace :: "nat \<Rightarrow> stream \<Rightarrow> (stream \<times> u8 list list) option" where
  "readSimpleHidlVecInPlace sz inp =
     do { (inp, pos, read_size) \<leftarrow> read_sized inp;
          if \<not> st_good inp \<or> read_size mod sz \<noteq> 0 then Some (inp\<lparr>st_good := False\<rparr>, [])
          else do { bs \<leftarrow> fetch_at pos read_size inp; Some (inp, elements sz bs) } }"

record HardwareAuthToken =
  challenge :: "64 word"
  userId :: "64 word"
  authenticatorId :: "64 word"
  authenticatorType :: u32
  timestamp :: "64 word"
  mac :: "u8 list"

definition no_token :: HardwareAuthToken where
  "no_token = \<lparr>challenge = 0, userId = 0, authenticatorId = 0, authenticatorType = 0, timestamp = 0, mac = []\<rparr>"

definition hatSizeNoMac :: nat where
  "hatSizeNoMac = 8 + 8 + 8 + 4 + 8"

definition token_fields :: "HardwareAuthToken \<Rightarrow> u8 list" where
  "token_fields v = le_bytes 8 (unat (challenge v)) @ le_bytes 8 (unat (userId v)) @
     le_bytes 8 (unat (authenticatorId v)) @ le_bytes 4 (unat (authenticatorType v)) @ le_bytes 8 (unat (timestamp v))"

definition read_token :: "stream \<Rightarrow> (stream \<times> HardwareAuthToken) option" where
  "read_token inp =
     do { (inp, pos, read_size) \<leftarrow> read_sized inp;
          if \<not> st_good inp \<or> read_size \<noteq> hatSizeNoMac then Some (inp\<lparr>st_good := False\<rparr>, no_token)
          else do {
            bs \<leftarrow> fetch_at pos hatSizeNoMac inp;
            (inp, m) \<leftarrow> readSimpleHidlVecInPlace 1 inp;
            Some (inp, \<lparr>challenge = of_nat (le_nat (take 8 bs)), userId = of_nat (le_nat (take 8 (drop 8 bs))),
              authenticatorId = of_nat (le_nat (take 8 (drop 16 bs))),
              authenticatorType = of_nat (le_nat (take 4 (drop 24 bs))),
              timestamp = of_nat (le_nat (take 8 (drop 28 bs))), mac = concat m\<rparr>) } }"

definition write_token :: "HardwareAuthToken \<Rightarrow> stream \<Rightarrow> stream option" where
  "write_token v out =
     (let pos = st_pos out; out = skip (4 + hatSizeNoMac) out in
      if \<not> st_good out then Some out
      else do {
        out \<leftarrow> store pos (le_bytes 4 hatSizeNoMac) out;
        out \<leftarrow> store (pos + 4) (token_fields v) out;
        write_sized (mac v) out })"

definition read_string :: "stream \<Rightarrow> (stream \<times> u8 list) option" where
  "read_string inp =
     do { (inp, pos, read_size) \<leftarrow> read_sized inp;
          let terminating_zero = st_pos inp; inp = skip_one inp in
          if \<not> st_good inp then Some (inp, [])
          else do {
            z \<leftarrow> fetch terminating_zero 1 inp;
            if z \<noteq> [0] then Some (inp\<lparr>st_good := False\<rparr>, [])
            else do { bs \<leftarrow> fetch_at pos read_size inp; Some (inp, bs) } } }"

definition write_string :: "u8 list \<Rightarrow> stream \<Rightarrow> stream option" where
  "write_string v out =
     do { out \<leftarrow> write_sized v out;
          let terminating_zero = st_pos out; out = skip_one out in
          if \<not> st_good out then Some out else store terminating_zero [0] out }"

definition read_options :: "stream \<Rightarrow> (stream \<times> u32 list) option" where
  "read_options inp =
     do { (inp, es) \<leftarrow> readSimpleHidlVecInPlace 4 (unalign inp); Some (inp, map (\<lambda>e. of_nat (le_nat e)) es) }"

definition option_bytes :: "u32 list \<Rightarrow> u8 list" where
  "option_bytes v = concat (map (\<lambda>e. le_bytes 4 (unat e)) v)"

definition write_options :: "u32 list \<Rightarrow> stream \<Rightarrow> stream option" where
  "write_options v out = do { out \<leftarrow> unalign_write out; write_sized (option_bytes v) out }"

subsection \<open>Messages\<close>

datatype Command = PromptUserConfirmation | DeliverSecureInputEvent | Abort | Vendor

fun command_code :: "Command \<Rightarrow> nat" where
  "command_code PromptUserConfirmation = 0"
| "command_code DeliverSecureInputEvent = 1"
| "command_code Abort = 2"
| "command_code Vendor = 3"

datatype field = String_field | Bytes_field | Options_field | Token_field | Response_field

datatype field_value = String_value "u8 list" | Bytes_value "u8 list" | Options_value "u32 list"
  | Token_value HardwareAuthToken | Response_value u32

definition PromptUserConfirmationMsg :: "field list" where
  "PromptUserConfirmationMsg = [String_field, Bytes_field, String_field, Options_field]"

definition DeliverSecureInputEventMsg :: "field list" where
  "DeliverSecureInputEventMsg = [Token_field]"

definition AbortMsg :: "field list" where
  "AbortMsg = []"

definition ResultMsg :: "field list" where
  "ResultMsg = [Response_field, Bytes_field, Bytes_field]"

fun read_field :: "field \<Rightarrow> stream \<Rightarrow> (stream \<times> field_value) option" where
  "read_field String_field s = do { (s, v) \<leftarrow> read_string s; Some (s, String_value v) }"
| "read_field Bytes_field s = do { (s, v) \<leftarrow> readSimpleHidlVecInPlace 1 s; Some (s, Bytes_value (concat v)) }"
| "read_field Options_field s = do { (s, v) \<leftarrow> read_options s; Some (s, Options_value v) }"
| "read_field Token_field s = do { (s, v) \<leftarrow> read_token s; Some (s, Token_value v) }"
| "read_field Response_field s = do { (s, v) \<leftarrow> readSimpleType s; Some (s, Response_value v) }"

fun write_field :: "field_value \<Rightarrow> stream \<Rightarrow> stream option" where
  "write_field (String_value v) s = write_string v s"
| "write_field (Bytes_value v) s = write_sized v s"
| "write_field (Options_value v) s = write_options v s"
| "write_field (Token_value v) s = write_token v s"
| "write_field (Response_value v) s = write_sized (le_bytes 4 (unat v)) s"

fun read_fields :: "field list \<Rightarrow> stream \<Rightarrow> (stream \<times> field_value list) option" where
  "read_fields [] s = Some (s, [])"
| "read_fields (f # fs) s =
     do { (s, v) \<leftarrow> read_field f s; (s, vs) \<leftarrow> read_fields fs s; Some (s, v # vs) }"

fun write_fields :: "field_value list \<Rightarrow> stream \<Rightarrow> stream option" where
  "write_fields [] s = Some s"
| "write_fields (v # vs) s = do { s \<leftarrow> write_field v s; write_fields vs s }"

definition write_command :: "Command \<Rightarrow> stream \<Rightarrow> stream option" where
  "write_command cmd out =
     (let pos = st_pos out; out = skip 4 out in
      if \<not> st_good out then Some out else store pos (le_bytes 4 (command_code cmd)) out)"

definition read_command :: "Command \<Rightarrow> stream \<Rightarrow> (stream \<times> bool) option" where
  "read_command cmd inp =
     (let pos = st_pos inp; inp = skip 4 inp in
      if \<not> st_good inp then Some (inp, False)
      else do { bs \<leftarrow> fetch pos 4 inp; Some (inp, le_nat bs = command_code cmd) })"

text \<open>A message with a command in front; on another command the fields are default values, here none.\<close>

definition write_message :: "Command \<Rightarrow> field_value list \<Rightarrow> stream \<Rightarrow> stream option" where
  "write_message cmd vs out = do { out \<leftarrow> write_command cmd out; write_fields vs out }"

definition read_message :: "Command \<Rightarrow> field list \<Rightarrow> stream \<Rightarrow> (stream \<times> field_value list option) option" where
  "read_message cmd fs inp =
     do { (inp, command_matches) \<leftarrow> read_command cmd inp;
          if \<not> command_matches then Some (inp, None)
          else do { (inp, vs) \<leftarrow> read_fields fs inp; Some (inp, Some vs) } }"

subsection \<open>The layout of a message\<close>

definition gap :: "nat \<Rightarrow> nat" where
  "gap a = (12 - a mod 8) mod 8"

definition sized :: "u8 list \<Rightarrow> u8 list" where
  "sized bs = le_bytes 4 (length bs) @ bs"

fun layout :: "field_value \<Rightarrow> nat \<Rightarrow> u8 list" where
  "layout (String_value v) a = sized v @ [0]"
| "layout (Bytes_value v) a = sized v"
| "layout (Options_value v) a = replicate (gap a) 0xaa @ sized (option_bytes v)"
| "layout (Token_value v) a = sized (token_fields v) @ sized (mac v)"
| "layout (Response_value v) a = sized (le_bytes 4 (unat v))"

fun layouts :: "field_value list \<Rightarrow> nat \<Rightarrow> u8 list" where
  "layouts [] a = []"
| "layouts (v # vs) a = layout v a @ layouts vs (a + length (layout v a))"

text \<open>The sizes are 32-bit numbers.\<close>

fun value_ok :: "field_value \<Rightarrow> bool" where
  "value_ok (String_value v) \<longleftrightarrow> length v < 2 ^ 32"
| "value_ok (Bytes_value v) \<longleftrightarrow> length v < 2 ^ 32"
| "value_ok (Options_value v) \<longleftrightarrow> 4 * length v < 2 ^ 32"
| "value_ok (Token_value v) \<longleftrightarrow> length (mac v) < 2 ^ 32"
| "value_ok (Response_value v) \<longleftrightarrow> True"

fun field_of :: "field_value \<Rightarrow> field" where
  "field_of (String_value v) = String_field"
| "field_of (Bytes_value v) = Bytes_field"
| "field_of (Options_value v) = Options_field"
| "field_of (Token_value v) = Token_field"
| "field_of (Response_value v) = Response_field"

subsection \<open>What a function writes\<close>

definition st_ok :: "stream \<Rightarrow> bool" where
  "st_ok s \<longleftrightarrow> st_pos s + st_left s \<le> length (st_mem s)"

definition slice :: "nat \<Rightarrow> stream \<Rightarrow> u8 list" where
  "slice n s = take n (drop (st_pos s) (st_mem s))"

text \<open>Between two states only the region from the first position to the end of the stream has changed.\<close>

definition inside :: "stream \<Rightarrow> stream \<Rightarrow> bool" where
  "inside s t \<longleftrightarrow> length (st_mem t) = length (st_mem s) \<and> st_base t = st_base s \<and> st_pos s \<le> st_pos t \<and>
     st_pos t + st_left t = st_pos s + st_left s \<and> take (st_pos s) (st_mem t) = take (st_pos s) (st_mem s) \<and>
     drop (st_pos s + st_left s) (st_mem t) = drop (st_pos s + st_left s) (st_mem s)"

definition put :: "u8 list \<Rightarrow> bool \<Rightarrow> stream \<Rightarrow> stream \<Rightarrow> bool" where
  "put bs valid s t \<longleftrightarrow> inside s t \<and>
     (if st_good s \<and> valid \<and> length bs \<le> st_left s
      then st_good t \<and> st_pos t = st_pos s + length bs \<and>
        take (length bs) (drop (st_pos s) (st_mem t)) = bs
      else \<not> st_good t)"

definition puts :: "(stream \<Rightarrow> stream option) \<Rightarrow> (nat \<Rightarrow> u8 list) \<Rightarrow> bool \<Rightarrow> bool" where
  "puts f e valid \<longleftrightarrow> (\<forall>s. st_ok s \<longrightarrow> (\<exists>t. f s = Some t \<and> put (e (st_addr s)) valid s t))"

lemma inside_ok: "st_ok s \<Longrightarrow> inside s t \<Longrightarrow> st_ok t"
  by (simp add: st_ok_def inside_def)

lemma inside_refl [simp]: "inside s s"
  by (simp add: inside_def)

lemma inside_trans: "inside s t \<Longrightarrow> inside t u \<Longrightarrow> inside s u"
proof -
  assume a: "inside s t" "inside t u"
  then have "take (st_pos s) (take (st_pos t) (st_mem u)) = take (st_pos s) (take (st_pos t) (st_mem t))"
    by (simp add: inside_def)
  then show ?thesis using a by (simp add: inside_def min.absorb1)
qed

lemma putsI: "(\<And>s. st_ok s \<Longrightarrow> \<exists>t. f s = Some t \<and> put (e (st_addr s)) valid s t) \<Longrightarrow> puts f e valid"
  by (simp add: puts_def)

lemma putsE:
  assumes "puts f e valid" "st_ok s"
  obtains t where "f s = Some t" "put (e (st_addr s)) valid s t" "st_ok t"
  using assms by (auto simp: puts_def put_def dest: inside_ok)

lemma put_trans:
  assumes ok: "st_ok s" and st: "put bs p s t" and tu: "put cs q t u"
  shows "put (bs @ cs) (p \<and> q) s u"
proof -
  have frame: "inside s t" "inside t u" "inside s u" using st tu inside_trans by (auto simp: put_def)
  show ?thesis
  proof (cases "st_good s \<and> (p \<and> q) \<and> length (bs @ cs) \<le> st_left s")
    case True
    then have t: "st_good t" "st_pos t = st_pos s + length bs" "take (length bs) (drop (st_pos s) (st_mem t)) = bs"
      using st by (simp_all add: put_def)
    moreover have "length cs \<le> st_left t" using True frame(1) t(2) by (simp add: inside_def)
    ultimately have u: "st_good u" "st_pos u = st_pos t + length cs" "take (length cs) (drop (st_pos t) (st_mem u)) = cs"
      using True tu by (simp_all add: put_def)
    have "take (length bs) (drop (st_pos s) (st_mem u)) = drop (st_pos s) (take (st_pos t) (st_mem u))"
      by (simp add: take_drop t(2) add.commute)
    also have "\<dots> = drop (st_pos s) (take (st_pos t) (st_mem t))" using frame(2) by (simp add: inside_def)
    also have "\<dots> = bs" using t(3) by (simp add: take_drop t(2) add.commute)
    finally have "take (length bs + length cs) (drop (st_pos s) (st_mem u)) = bs @ cs"
      using u(3) by (simp add: take_add t(2) add.commute)
    then show ?thesis using True frame(3) t u by (simp add: put_def)
  next
    case False
    then have "\<not> st_good u" using st tu frame(1) by (auto simp: put_def inside_def split: if_splits)
    then show ?thesis using False frame(3) by (auto simp: put_def)
  qed
qed

lemma puts_bind:
  assumes "puts f e p" "puts g d q"
  shows "puts (\<lambda>s. do { s \<leftarrow> f s; g s }) (\<lambda>a. e a @ d (a + length (e a))) (p \<and> q)"
proof (rule putsI)
  fix s assume s: "st_ok s"
  obtain t where t: "f s = Some t" "put (e (st_addr s)) p s t" "st_ok t" by (rule putsE [OF assms(1) s])
  obtain u where u: "g t = Some u" "put (d (st_addr t)) q t u" by (rule putsE [OF assms(2) t(3)])
  have "put (e (st_addr s) @ d (st_addr s + length (e (st_addr s)))) (p \<and> q) s u"
  proof (cases "st_good t")
    case True
    then have "st_addr t = st_addr s + length (e (st_addr s))"
      using t(2) by (auto simp: put_def st_addr_def inside_def split: if_splits)
    then show ?thesis using put_trans [OF s t(2) u(2)] by simp
  next
    case False
    then have "\<not> st_good u" using u(2) by (auto simp: put_def split: if_splits)
    moreover have "inside s u" using t(2) u(2) inside_trans by (auto simp: put_def)
    moreover have "\<not> (st_good s \<and> p \<and> length (e (st_addr s)) \<le> st_left s)"
      using False t(2) by (auto simp: put_def)
    ultimately show ?thesis by (auto simp: put_def)
  qed
  then show "\<exists>u. do { s \<leftarrow> f s; g s } = Some u \<and> put (e (st_addr s) @ d (st_addr s + length (e (st_addr s)))) (p \<and> q) s u"
    using t(1) u(1) by simp
qed

lemma skip_inside: "inside s (skip n s)"
  by (auto simp: inside_def skip_def)

lemma skip_good: "st_good (skip n s) \<longleftrightarrow> st_good s \<and> n \<le> st_left s"
  by (auto simp: skip_def)

lemma skip_room: "st_good s \<Longrightarrow> n \<le> st_left s \<Longrightarrow> skip n s = s\<lparr>st_pos := st_pos s + n, st_left := st_left s - n\<rparr>"
  by (simp add: skip_def)

lemma skip_one_skip: "skip_one s = skip 1 s"
  by (auto simp: skip_one_def skip_def)

lemma store_append:
  "pos + length a + length b \<le> length (st_mem s) \<Longrightarrow>
   do { s \<leftarrow> store pos a s; store (pos + length a) b s } = store pos (a @ b) s"
  by (auto simp: store_def write_at_def add.assoc min_def add.commute add.left_commute split: if_splits)
    (cases a; cases b; simp)

lemma put_store:
  assumes "st_ok s" "st_good s" "length bs \<le> st_left s"
  shows "\<exists>t. store (st_pos s) bs (skip (length bs) s) = Some t \<and> put bs True s t"
proof -
  have "st_pos s + length bs \<le> length (st_mem s)" using assms by (simp add: st_ok_def)
  then show ?thesis
    using assms by (simp add: skip_room store_def put_def inside_def write_at_def st_ok_def add.commute)
qed

lemma puts_store:
  assumes "\<And>s. f s = (let pos = st_pos s; s = skip (length bs) s in if \<not> st_good s then Some s else store pos bs s)"
  shows "puts f (\<lambda>_. bs) True"
proof (rule putsI)
  fix s assume s: "st_ok s"
  show "\<exists>t. f s = Some t \<and> put bs True s t"
  proof (cases "st_good (skip (length bs) s)")
    case True
    then show ?thesis using put_store [OF s, of bs] by (simp add: assms Let_def skip_good)
  next
    case False
    then show ?thesis using skip_inside [of s "length bs"] by (auto simp: assms put_def skip_good Let_def)
  qed
qed

lemma puts_sized: "puts (write_sized v) (\<lambda>_. sized v) (length v < 2 ^ 32)"
proof (cases "length v < 2 ^ 32")
  case True
  have "write_sized v s = (let pos = st_pos s; s = skip (length (sized v)) s in
      if \<not> st_good s then Some s else store pos (sized v) s)" if "st_ok s" for s
    using True that store_append [of "st_pos s" "le_bytes 4 (length v)" v "skip (4 + length v) s"]
    by (auto simp: write_sized_def sized_def Let_def skip_room skip_good st_ok_def)
  then show ?thesis
    using puts_store [of "\<lambda>s. let pos = st_pos s; s = skip (length (sized v)) s in
      if \<not> st_good s then Some s else store pos (sized v) s"] True
    by (simp add: puts_def)
next
  case False
  moreover have "length v mod 2 ^ 32 < 2 ^ 32" by (rule mod_less_divisor) simp
  ultimately have "length v \<noteq> length v mod 2 ^ 32" by linarith
  then have "write_sized v s = Some ((skip (4 + length v) s)\<lparr>st_good := False\<rparr>)" for s
    by (simp add: write_sized_def Let_def)
  then show ?thesis using False skip_inside by (auto simp: puts_def put_def inside_def)
qed

lemma write_sized_bad: "\<not> st_good s \<Longrightarrow> write_sized v s = Some s"
  by (simp add: write_sized_def skip_def)

lemma puts_token: "puts (write_token v) (layout (Token_value v)) (value_ok (Token_value v))"
proof -
  define front where "front s = (let pos = st_pos s; s = skip (length (sized (token_fields v))) s in
      if \<not> st_good s then Some s else store pos (sized (token_fields v)) s)" for s
  have size: "length (token_fields v) = hatSizeNoMac" by (simp add: token_fields_def hatSizeNoMac_def)
  have "write_token v s = do { s \<leftarrow> front s; write_sized (mac v) s }" if "st_ok s" for s
  proof (cases "st_good (skip (4 + hatSizeNoMac) s)")
    case True
    have "do { t \<leftarrow> store (st_pos s) (le_bytes 4 hatSizeNoMac) (skip (4 + hatSizeNoMac) s);
          store (st_pos s + 4) (token_fields v) t } = front s"
      using True that store_append [of "st_pos s" "le_bytes 4 hatSizeNoMac" "token_fields v" "skip (4 + hatSizeNoMac) s"]
      by (simp add: front_def sized_def size skip_good skip_room st_ok_def Let_def)
    then show ?thesis using True by (simp add: write_token_def Let_def flip: bind_assoc)
  next
    case False
    then show ?thesis by (simp add: write_token_def front_def sized_def size write_sized_bad Let_def)
  qed
  moreover have "puts front (\<lambda>_. sized (token_fields v)) True" unfolding front_def by (rule puts_store) simp
  from puts_bind [OF this puts_sized [of "mac v"]]
  have "puts (\<lambda>s. do { s \<leftarrow> front s; write_sized (mac v) s }) (layout (Token_value v)) (value_ok (Token_value v))"
    by (simp add: fun_eq_iff [abs_def] puts_def)
  ultimately show ?thesis by (simp add: puts_def)
qed

lemma puts_string: "puts (write_string v) (layout (String_value v)) (value_ok (String_value v))"
proof -
  have "puts (\<lambda>s. let pos = st_pos s; s = skip_one s in if \<not> st_good s then Some s else store pos [0] s) (\<lambda>_. [0]) True"
    by (rule puts_store) (simp add: skip_one_skip)
  from puts_bind [OF puts_sized [of v] this] show ?thesis
    by (simp add: puts_def write_string_def Let_def)
qed

lemma shift_8: "(8 * q + n) div 4 = 2 * q + n div 4" "(8 * q + n) mod 4 = n mod 4" "(8 * q + n) mod 8 = n mod 8"
  for q n :: nat
  using div_mult_self2 [of 4 n "2 * q"] by (simp_all add: mod_mult_self4 mod_mult2_eq) presburger

lemma gap_cases:
  "a mod 4 = 0 \<Longrightarrow> gap a = (if even (a div 4) then 4 else 0)"
  "a mod 4 \<noteq> 0 \<Longrightarrow> gap a = (4 - a mod 4) + (if even ((a + (4 - a mod 4)) div 4) then 4 else 0)"
proof -
  define q r where "q = a div 8" and "r = a mod 8"
  have a: "a = 8 * q + r" "r < 8" by (simp_all add: q_def r_def)
  have r: "r = 0 \<or> r = 1 \<or> r = 2 \<or> r = 3 \<or> r = 4 \<or> r = 5 \<or> r = 6 \<or> r = 7" using a(2) by auto
  show "a mod 4 = 0 \<Longrightarrow> gap a = (if even (a div 4) then 4 else 0)"
    unfolding a(1) gap_def shift_8 using r by (elim disjE) simp_all
  show "a mod 4 \<noteq> 0 \<Longrightarrow> gap a = (4 - a mod 4) + (if even ((a + (4 - a mod 4)) div 4) then 4 else 0)"
    unfolding a(1) gap_def add.assoc shift_8 using r by (elim disjE) simp_all
qed

lemma gap_aligns: "(a + gap a) mod 8 = 4"
proof -
  define q r where "q = a div 8" and "r = a mod 8"
  have a: "a = 8 * q + r" "r < 8" by (simp_all add: q_def r_def)
  then have "r = 0 \<or> r = 1 \<or> r = 2 \<or> r = 3 \<or> r = 4 \<or> r = 5 \<or> r = 6 \<or> r = 7" by auto
  then show ?thesis unfolding a(1) gap_def add.assoc shift_8 by (elim disjE) simp_all
qed

lemma gap_mod: "gap (a mod 8) = gap a"
  by (simp add: gap_def)

lemma skip_bad: "\<not> st_good s \<Longrightarrow> skip n s = s"
  by (simp add: skip_def)

lemma unalign_inside: "inside s (unalign s)"
  by (auto simp: unalign_def Let_def intro: skip_inside inside_trans [OF skip_inside skip_inside])

lemma unalign_good:
  "st_good (unalign s) \<longleftrightarrow> st_good s \<and> gap (st_addr s) \<le> st_left s"
  "st_good (unalign s) \<Longrightarrow> unalign s = skip (gap (st_addr s)) s"
proof -
  consider "st_addr s mod 4 = 0" | "st_addr s mod 4 \<noteq> 0" "st_good s" "4 - st_addr s mod 4 \<le> st_left s"
    | "st_addr s mod 4 \<noteq> 0" "\<not> (st_good s \<and> 4 - st_addr s mod 4 \<le> st_left s)" by blast
  then have "(st_good (unalign s) \<longleftrightarrow> st_good s \<and> gap (st_addr s) \<le> st_left s) \<and>
      (st_good (unalign s) \<longrightarrow> unalign s = skip (gap (st_addr s)) s)"
  proof cases
    case 1
    then show ?thesis by (auto simp: gap_cases(1) unalign_def skip_good skip_room)
  next
    case 2
    define d where "d = 4 - st_addr s mod 4"
    have g: "gap (st_addr s) = d + (if even ((st_addr s + d) div 4) then 4 else 0)"
      unfolding d_def by (rule gap_cases(2) [OF 2(1)])
    have t: "unalign s = (let t = skip d s in if even (st_addr t div 4) then skip 4 t else t)"
      using 2(1) by (simp add: unalign_def d_def)
    have room: "st_good s" "d \<le> st_left s" using 2 by (simp_all add: d_def)
    then have "st_addr (skip d s) = st_addr s + d" by (simp add: skip_room st_addr_def)
    then have t': "unalign s = (if even ((st_addr s + d) div 4) then skip 4 (skip d s) else skip d s)"
      by (simp add: t Let_def)
    show ?thesis
    proof (cases "even ((st_addr s + d) div 4)")
      case True
      have "gap (st_addr s) = d + 4" using True by (simp only: g if_True)
      moreover have "unalign s = skip 4 (skip d s)" using True by (simp only: t' if_True)
      ultimately show ?thesis using room by (auto simp: skip_good skip_room)
    next
      case False
      have "gap (st_addr s) = d" using False by (simp only: g if_False add_0_right)
      moreover have "unalign s = skip d s" using False by (simp only: t' if_False)
      ultimately show ?thesis using room by (simp add: skip_good)
    qed
  next
    case 3
    then have "\<not> st_good (skip (4 - st_addr s mod 4) s)" by (simp add: skip_good)
    then have "\<not> st_good (unalign s)" using 3 by (auto simp: unalign_def Let_def skip_bad)
    then show ?thesis using 3 by (auto simp: gap_cases(2))
  qed
  then show "st_good (unalign s) \<longleftrightarrow> st_good s \<and> gap (st_addr s) \<le> st_left s"
    "st_good (unalign s) \<Longrightarrow> unalign s = skip (gap (st_addr s)) s" by blast+
qed

lemma unalign_mem [simp]: "st_mem (unalign s) = st_mem s"
  by (simp add: unalign_def skip_def Let_def)

lemma puts_unalign: "puts unalign_write (\<lambda>a. replicate (gap a) 0xaa) True"
proof (rule putsI)
  fix s assume s: "st_ok s"
  have room: "st_pos s + (st_pos (unalign s) - st_pos s) \<le> length (st_mem s)"
    using unalign_inside [of s] s by (simp add: inside_def st_ok_def)
  show "\<exists>t. unalign_write s = Some t \<and> put (replicate (gap (st_addr s)) 0xaa) True s t"
  proof (cases "st_good (unalign s)")
    case True
    have "unalign_write s = store (st_pos s) (replicate (gap (st_addr s)) 0xaa) (skip (gap (st_addr s)) s)"
      using True unalign_good [of s] by (simp add: unalign_write_def skip_room Let_def)
    then show ?thesis using put_store [OF s, of "replicate (gap (st_addr s)) 0xaa"] unalign_good(1) [of s] True by simp
  next
    case False
    define n where "n = st_pos (unalign s) - st_pos s"
    define t where "t = (unalign s)\<lparr>st_mem := write_at (st_pos s) (replicate n 0xaa) (st_mem s)\<rparr>"
    have "unalign_write s = Some t" using room by (simp add: unalign_write_def store_def t_def n_def Let_def)
    moreover have "n \<le> st_left s" "st_pos s + n \<le> length (st_mem s)"
      using unalign_inside [of s] room by (auto simp: n_def inside_def)
    then have "inside s t"
      using unalign_inside [of s] s by (auto simp: inside_def t_def write_at_def st_ok_def add.commute)
    ultimately show ?thesis using False unalign_good(1) [of s] by (auto simp: put_def t_def)
  qed
qed

lemma length_option_bytes [simp]: "length (option_bytes v) = 4 * length v"
  by (induction v) (simp_all add: option_bytes_def)

lemma puts_options: "puts (write_options v) (layout (Options_value v)) (value_ok (Options_value v))"
  using puts_bind [OF puts_unalign puts_sized [of "option_bytes v"]]
  by (simp add: puts_def write_options_def)

lemma puts_field: "puts (write_field v) (layout v) (value_ok v)"
proof (cases v)
  case (String_value x)
  then show ?thesis using puts_string [of x] by (simp add: puts_def)
next
  case (Bytes_value x)
  then show ?thesis using puts_sized [of x] by (simp add: puts_def)
next
  case (Options_value x)
  then show ?thesis using puts_options [of x] by (simp add: puts_def)
next
  case (Token_value x)
  then show ?thesis using puts_token [of x] by (simp add: puts_def)
next
  case (Response_value x)
  then show ?thesis using puts_sized [of "le_bytes 4 (unat x)"] by (simp add: puts_def)
qed

lemma puts_fields: "puts (write_fields vs) (layouts vs) (\<forall>v \<in> set vs. value_ok v)"
proof (induction vs)
  case Nil
  then show ?case by (simp add: puts_def put_def)
next
  case (Cons v vs)
  from puts_bind [OF puts_field [of v] Cons] show ?case by (simp add: puts_def)
qed

lemma puts_command: "puts (write_command cmd) (\<lambda>_. le_bytes 4 (command_code cmd)) True"
  by (rule puts_store) (simp add: write_command_def)

lemma puts_message: "puts (write_message cmd vs) (\<lambda>a. le_bytes 4 (command_code cmd) @ layouts vs (a + 4))
    (\<forall>v \<in> set vs. value_ok v)"
  using puts_bind [OF puts_command [of cmd] puts_fields [of vs]] by (simp add: puts_def write_message_def)

subsection \<open>What a function reads\<close>

definition has :: "u8 list \<Rightarrow> stream \<Rightarrow> bool" where
  "has bs s \<longleftrightarrow> st_ok s \<and> st_good s \<and> length bs \<le> st_left s \<and> slice (length bs) s = bs"

definition parses :: "(stream \<Rightarrow> (stream \<times> 'a) option) \<Rightarrow> (nat \<Rightarrow> u8 list) \<Rightarrow> 'a \<Rightarrow> bool" where
  "parses g e x \<longleftrightarrow> (\<forall>s. has (e (st_addr s)) s \<longrightarrow> g s = Some (skip (length (e (st_addr s))) s, x))"

definition harmless :: "(stream \<Rightarrow> (stream \<times> 'a) option) \<Rightarrow> bool" where
  "harmless g \<longleftrightarrow> (\<forall>s. st_ok s \<longrightarrow> (\<exists>t x. g s = Some (t, x) \<and> inside s t \<and> st_mem t = st_mem s))"

lemma has_append: "has (a @ b) s \<longleftrightarrow> has a s \<and> has b (skip (length a) s)"
proof (cases "st_good s \<and> length a \<le> st_left s")
  case True
  then have "skip (length a) s = s\<lparr>st_pos := st_pos s + length a, st_left := st_left s - length a\<rparr>"
    by (simp add: skip_room)
  moreover have "take (length a + length b) (drop (st_pos s) (st_mem s)) = a @ b \<longleftrightarrow>
      take (length a) (drop (st_pos s) (st_mem s)) = a \<and> take (length b) (drop (st_pos s + length a) (st_mem s)) = b"
    if "st_pos s + length a \<le> length (st_mem s)"
    using that by (auto simp: take_add add.commute append_eq_append_conv)
  ultimately show ?thesis using True by (auto simp: has_def slice_def st_ok_def)
qed (auto simp: has_def skip_def)

lemma skip_addr: "has bs s \<Longrightarrow> st_addr (skip (length bs) s) = st_addr s + length bs"
  by (simp add: has_def skip_room st_addr_def)

lemma skip_mem [simp]: "st_mem (skip n s) = st_mem s"
  by (simp add: skip_def)

lemma fetch_mem: "st_mem s = st_mem t \<Longrightarrow> fetch pos n s = fetch pos n t"
  by (simp add: fetch_def)

lemma fetch_skip [simp]: "fetch pos n (skip m s) = fetch pos n s"
  by (simp add: fetch_def)

lemma has_fetch: "has bs s \<Longrightarrow> fetch (st_pos s) (length bs) s = Some bs"
  by (simp add: has_def fetch_def slice_def st_ok_def)

lemma has_skip: "has bs s \<Longrightarrow> st_good (skip (length bs) s) \<and> st_pos (skip (length bs) s) = st_pos s + length bs"
  by (simp add: has_def skip_room)

lemma skip_skip: "has (a @ b) s \<Longrightarrow> skip (length b) (skip (length a) s) = skip (length a + length b) s"
  by (auto simp: has_def skip_def)

lemma read_sized_parses:
  assumes "has (sized bs) s" "length bs < 2 ^ 32"
  shows "read_sized s = Some (skip (length (sized bs)) s, Some (st_pos s + 4), length bs) \<and>
    st_good (skip (length (sized bs)) s) \<and> fetch (st_pos s + 4) (length bs) s = Some bs"
proof -
  have parts: "has (le_bytes 4 (length bs)) s" "has bs (skip 4 s)"
    using assms(1) has_append [of "le_bytes 4 (length bs)" bs s] by (simp_all add: sized_def)
  have "le_nat (le_bytes 4 (length bs)) = length bs" using assms(2) by (simp add: le_nat_bytes)
  moreover have "fetch (st_pos s) 4 s = Some (le_bytes 4 (length bs))" "st_good (skip 4 s)" "st_pos (skip 4 s) = st_pos s + 4"
    using has_fetch [OF parts(1)] has_skip [OF parts(1)] by simp_all
  moreover have "fetch (st_pos s + 4) (length bs) s = Some bs"
    using has_fetch [OF parts(2)] calculation(4) by simp
  moreover have "skip (length bs) (skip 4 s) = skip (length (sized bs)) s" "st_good (skip (length bs) (skip 4 s))"
    using skip_skip [of "le_bytes 4 (length bs)" bs s] assms(1) has_skip [OF parts(2)] by (simp_all add: sized_def)
  ultimately show ?thesis by (simp add: read_sized_def Let_def)
qed

lemma elements_concat: "(\<forall>b \<in> set bs. length b = sz) \<Longrightarrow> 0 < sz \<Longrightarrow> elements sz (concat bs) = bs"
proof (induction bs)
  case (Cons b bs)
  have "length (concat (b # bs)) div sz = Suc (length (concat bs) div sz)"
    using Cons.prems div_add_self1 [of sz "length (concat bs)"] by (simp del: length_concat)
  then have "elements sz (concat (b # bs)) = take sz (concat (b # bs)) #
      map (\<lambda>i. take sz (drop (Suc i * sz) (concat (b # bs)))) [0..<length (concat bs) div sz]"
    by (simp add: elements_def upt_conv_Cons map_Suc_upt [symmetric] del: upt_Suc)
  also have "\<dots> = b # elements sz (concat bs)" using Cons.prems by (simp add: elements_def)
  finally show ?case using Cons by simp
qed (simp add: elements_def)

lemma elements_1: "concat (elements 1 bs) = bs"
  using elements_concat [of "map (\<lambda>b. [b]) bs" 1] by (simp add: concat_map_singleton [of id, simplified])

lemma vec_parses:
  assumes "has (sized bs) s" "length bs < 2 ^ 32" "length bs mod sz = 0"
  shows "readSimpleHidlVecInPlace sz s = Some (skip (length (sized bs)) s, elements sz bs)"
  using read_sized_parses [OF assms(1,2)] assms(3) by (simp add: readSimpleHidlVecInPlace_def fetch_at_def)

lemma word_le_bytes: "of_nat (le_nat (le_bytes 4 (unat w))) = w" "of_nat (le_nat (le_bytes 8 (unat v))) = v"
  for w :: u32 and v :: "64 word"
  using unsigned_less [of w, where ?'a = nat] unsigned_less [of v, where ?'a = nat] by (simp_all add: le_nat_bytes)

lemma option_elements: "map (\<lambda>e. of_nat (le_nat e)) (elements 4 (option_bytes v)) = v"
  unfolding option_bytes_def by (subst elements_concat) (simp_all add: word_le_bytes comp_def)

lemma parses_options: "value_ok (Options_value v) \<Longrightarrow> parses read_options (layout (Options_value v)) v"
  unfolding parses_def
proof (intro allI impI)
  fix s assume ok: "value_ok (Options_value v)" and has: "has (layout (Options_value v) (st_addr s)) s"
  then have parts: "has (replicate (gap (st_addr s)) 0xaa) s" "has (sized (option_bytes v)) (skip (gap (st_addr s)) s)"
    using has_append [of "replicate (gap (st_addr s)) 0xaa" "sized (option_bytes v)" s] by simp_all
  then have "unalign s = skip (gap (st_addr s)) s" using unalign_good [of s] by (simp add: has_def)
  moreover have "skip (length (sized (option_bytes v))) (skip (gap (st_addr s)) s) =
      skip (length (layout (Options_value v) (st_addr s))) s"
    using skip_skip [of "replicate (gap (st_addr s)) 0xaa" "sized (option_bytes v)" s] has by simp
  ultimately show "read_options s = Some (skip (length (layout (Options_value v) (st_addr s))) s, v)"
    using vec_parses [OF parts(2), of 4] ok by (simp add: read_options_def option_elements)
qed

lemma parses_string: "value_ok (String_value v) \<Longrightarrow> parses read_string (layout (String_value v)) v"
  unfolding parses_def
proof (intro allI impI)
  fix s assume ok: "value_ok (String_value v)" and has: "has (layout (String_value v) (st_addr s)) s"
  then have parts: "has (sized v) s" "has [0] (skip (length (sized v)) s)"
    using has_append [of "sized v" "[0]" s] by simp_all
  have "skip 1 (skip (length (sized v)) s) = skip (length (layout (String_value v) (st_addr s))) s"
    using skip_skip [of "sized v" "[0]" s] has by simp
  moreover have "fetch (st_pos (skip (length (sized v)) s)) 1 s = Some [0]" "st_good (skip 1 (skip (length (sized v)) s))"
    using has_fetch [OF parts(2)] has_skip [OF parts(2)] by simp_all
  ultimately show "read_string s = Some (skip (length (layout (String_value v) (st_addr s))) s, v)"
    using read_sized_parses [OF parts(1)] ok by (simp add: read_string_def skip_one_skip fetch_at_def Let_def)
qed

lemma parses_response: "parses readSimpleType (layout (Response_value v)) v"
  unfolding parses_def
proof (intro allI impI)
  fix s assume "has (layout (Response_value v) (st_addr s)) s"
  then show "readSimpleType s = Some (skip (length (layout (Response_value v) (st_addr s))) s, v)"
    using read_sized_parses [of "le_bytes 4 (unat v)" s] by (simp add: readSimpleType_def fetch_at_def word_le_bytes)
qed

lemma token_pieces:
  "of_nat (le_nat (take 8 (token_fields v))) = challenge v"
  "of_nat (le_nat (take 8 (drop 8 (token_fields v)))) = userId v"
  "of_nat (le_nat (take 8 (drop 16 (token_fields v)))) = authenticatorId v"
  "of_nat (le_nat (take 4 (drop 24 (token_fields v)))) = authenticatorType v"
  "of_nat (le_nat (take 8 (drop 28 (token_fields v)))) = timestamp v"
  by (simp_all add: token_fields_def word_le_bytes)

lemma parses_token: "value_ok (Token_value v) \<Longrightarrow> parses read_token (layout (Token_value v)) v"
  unfolding parses_def
proof (intro allI impI)
  fix s assume ok: "value_ok (Token_value v)" and has: "has (layout (Token_value v) (st_addr s)) s"
  have size: "length (token_fields v) = hatSizeNoMac" "hatSizeNoMac < 2 ^ 32"
    by (simp_all add: token_fields_def hatSizeNoMac_def)
  have parts: "has (sized (token_fields v)) s" "has (sized (mac v)) (skip (length (sized (token_fields v))) s)"
    using has has_append [of "sized (token_fields v)" "sized (mac v)" s] by simp_all
  have "skip (length (sized (mac v))) (skip (length (sized (token_fields v))) s) =
      skip (length (layout (Token_value v) (st_addr s))) s"
    using skip_skip [of "sized (token_fields v)" "sized (mac v)" s] has by simp
  then show "read_token s = Some (skip (length (layout (Token_value v) (st_addr s))) s, v)"
    using read_sized_parses [OF parts(1)] vec_parses [OF parts(2), of 1] ok size
    by (simp add: read_token_def fetch_at_def token_pieces elements_1 [simplified])
qed

lemma parses_map: "parses g e x \<Longrightarrow> parses (\<lambda>s. do { (s, v) \<leftarrow> g s; Some (s, h v) }) e (h x)"
  by (simp add: parses_def)

lemma parses_field: "value_ok v \<Longrightarrow> parses (read_field (field_of v)) (layout v) v"
proof (cases v)
  case (String_value x)
  moreover assume "value_ok v"
  ultimately show ?thesis using parses_map [OF parses_string, of x String_value] by (simp add: parses_def)
next
  case (Bytes_value x)
  moreover assume "value_ok v"
  ultimately show ?thesis by (simp add: parses_def vec_parses elements_1 [simplified])
next
  case (Options_value x)
  moreover assume "value_ok v"
  ultimately show ?thesis using parses_map [OF parses_options, of x Options_value] by (simp add: parses_def)
next
  case (Token_value x)
  moreover assume "value_ok v"
  ultimately show ?thesis using parses_map [OF parses_token, of x Token_value] by (simp add: parses_def)
next
  case (Response_value x)
  then show ?thesis using parses_map [OF parses_response, of Response_value] by (simp add: parses_def)
qed

lemma layout_skip:
  assumes "has (layouts (v # vs) (st_addr s)) s"
  shows "has (layout v (st_addr s)) s" "has (layouts vs (st_addr (skip (length (layout v (st_addr s))) s))) (skip (length (layout v (st_addr s))) s)"
  using assms has_append [of "layout v (st_addr s)"] skip_addr [of "layout v (st_addr s)" s] by simp_all

lemma parses_fields: "(\<forall>v \<in> set vs. value_ok v) \<Longrightarrow> parses (read_fields (map field_of vs)) (layouts vs) vs"
proof (induction vs)
  case Nil
  then show ?case by (simp add: parses_def has_def skip_room)
next
  case (Cons v vs)
  show ?case
    unfolding parses_def
  proof (intro allI impI)
    fix s assume has: "has (layouts (v # vs) (st_addr s)) s"
    define t where "t = skip (length (layout v (st_addr s))) s"
    have addr: "st_addr t = st_addr s + length (layout v (st_addr s))"
      unfolding t_def by (rule skip_addr [OF layout_skip(1) [OF has]])
    have "read_field (field_of v) s = Some (t, v)"
      using parses_field [of v] layout_skip(1) [OF has] Cons.prems by (simp add: parses_def t_def)
    moreover have "read_fields (map field_of vs) t = Some (skip (length (layouts vs (st_addr t))) t, vs)"
      using Cons layout_skip(2) [OF has] by (simp add: parses_def t_def)
    moreover have "skip (length (layouts vs (st_addr t))) t = skip (length (layouts (v # vs) (st_addr s))) s"
      using skip_skip [of "layout v (st_addr s)" "layouts vs (st_addr t)" s] has by (simp add: t_def [symmetric] addr)
    ultimately show "read_fields (map field_of (v # vs)) s = Some (skip (length (layouts (v # vs) (st_addr s))) s, v # vs)"
      by simp
  qed
qed

lemma command_code_less: "command_code cmd < 2 ^ 32"
  by (cases cmd) simp_all

lemma command_code_inj: "command_code c = command_code d \<longleftrightarrow> c = d"
  by (cases c; cases d) simp_all

lemma parses_message:
  assumes "has (le_bytes 4 (command_code c) @ layouts vs (st_addr s + 4)) s" "\<forall>v \<in> set vs. value_ok v"
  shows "read_message c (map field_of vs) s = Some (skip (4 + length (layouts vs (st_addr s + 4))) s, Some vs) \<and>
    (d \<noteq> c \<longrightarrow> read_message d fs s = Some (skip 4 s, None))"
proof -
  have parts: "has (le_bytes 4 (command_code c)) s" "has (layouts vs (st_addr s + 4)) (skip 4 s)"
    using assms(1) has_append [of "le_bytes 4 (command_code c)"] by simp_all
  have "read_command d s = Some (skip 4 s, d = c)" for d
    using has_fetch [OF parts(1)] has_skip [OF parts(1)] command_code_inj [of c d] command_code_less [of c]
    by (auto simp: read_command_def le_nat_bytes Let_def)
  moreover have "read_fields (map field_of vs) (skip 4 s) = Some (skip (length (layouts vs (st_addr s + 4))) (skip 4 s), vs)"
    using parses_fields [OF assms(2)] parts(2) skip_addr [OF parts(1)] by (simp add: parses_def)
  moreover have "skip (length (layouts vs (st_addr s + 4))) (skip 4 s) = skip (4 + length (layouts vs (st_addr s + 4))) s"
    using skip_skip [OF assms(1)] by simp
  ultimately show ?thesis by (simp add: read_message_def)
qed

subsection \<open>Reading stays inside the buffer\<close>

lemma harmlessI: "(\<And>s. st_ok s \<Longrightarrow> \<exists>t x. g s = Some (t, x) \<and> inside s t \<and> st_mem t = st_mem s) \<Longrightarrow> harmless g"
  by (simp add: harmless_def)

lemma harmlessE:
  assumes "harmless g" "st_ok s"
  obtains t x where "g s = Some (t, x)" "inside s t" "st_mem t = st_mem s" "st_ok t"
  using assms unfolding harmless_def by (metis inside_ok)

lemma fetch_room: "pos + n \<le> length (st_mem s) \<Longrightarrow> \<exists>bs. fetch pos n s = Some bs"
  by (simp add: fetch_def)

lemma bad_flag [simp]: "inside s (t\<lparr>st_good := g\<rparr>) = inside s t"
  by (simp add: inside_def)

lemma read_sized_inside:
  assumes "st_ok s"
  shows "\<exists>t p n. read_sized s = Some (t, p, n) \<and> inside s t \<and> st_mem t = st_mem s \<and> st_ok t \<and>
    (st_good t \<longrightarrow> (\<exists>pos. p = Some pos \<and> pos + n \<le> st_pos t \<and> pos + n \<le> length (st_mem s)))"
proof (cases "st_good (skip 4 s)")
  case True
  then have "st_pos s + 4 \<le> length (st_mem s)" using assms by (simp add: skip_good st_ok_def)
  then obtain bs where bs: "fetch (st_pos s) 4 s = Some bs" using fetch_room by blast
  have frame: "inside s (skip (le_nat bs) (skip 4 s))" by (intro inside_trans [OF skip_inside skip_inside])
  moreover have ok: "st_ok (skip (le_nat bs) (skip 4 s))" using inside_ok [OF assms frame] .
  moreover have "read_sized s = (let t = skip (le_nat bs) (skip 4 s) in
      Some (t, if st_good t then Some (st_pos (skip 4 s)) else None, if st_good t then le_nat bs else 0))"
    using True bs by (simp add: read_sized_def Let_def)
  moreover have "st_pos (skip 4 s) + le_nat bs = st_pos (skip (le_nat bs) (skip 4 s))" if "st_good (skip (le_nat bs) (skip 4 s))"
    using that by (simp add: skip_def split: if_splits)
  ultimately show ?thesis by (auto simp: Let_def st_ok_def)
next
  case False
  then show ?thesis using skip_inside [of s 4] inside_ok [OF assms skip_inside] by (simp add: read_sized_def Let_def)
qed

lemma vec_harmless: "harmless (readSimpleHidlVecInPlace sz)"
proof (rule harmlessI)
  fix s assume "st_ok s"
  then obtain t p n where "read_sized s = Some (t, p, n)" "inside s t" "st_mem t = st_mem s"
      "st_good t \<longrightarrow> (\<exists>pos. p = Some pos \<and> pos + n \<le> length (st_mem s))"
    using read_sized_inside by blast
  then show "\<exists>t x. readSimpleHidlVecInPlace sz s = Some (t, x) \<and> inside s t \<and> st_mem t = st_mem s"
    by (auto simp: readSimpleHidlVecInPlace_def fetch_at_def fetch_def)
qed

lemma simple_harmless: "harmless readSimpleType"
proof (rule harmlessI)
  fix s assume "st_ok s"
  then obtain t p n where "read_sized s = Some (t, p, n)" "inside s t" "st_mem t = st_mem s"
      "st_good t \<longrightarrow> (\<exists>pos. p = Some pos \<and> pos + n \<le> length (st_mem s))"
    using read_sized_inside by blast
  then show "\<exists>t x. readSimpleType s = Some (t, x) \<and> inside s t \<and> st_mem t = st_mem s"
    by (auto simp: readSimpleType_def fetch_at_def fetch_def)
qed

lemma string_harmless: "harmless read_string"
proof (rule harmlessI)
  fix s assume ok: "st_ok s"
  then obtain t p n where t: "read_sized s = Some (t, p, n)" "inside s t" "st_mem t = st_mem s" "st_ok t"
      "st_good t \<longrightarrow> (\<exists>pos. p = Some pos \<and> pos + n \<le> length (st_mem s))"
    using read_sized_inside by blast
  have frame: "inside s (skip 1 t)" using inside_trans [OF t(2) skip_inside] .
  show "\<exists>t x. read_string s = Some (t, x) \<and> inside s t \<and> st_mem t = st_mem s"
  proof (cases "st_good (skip 1 t)")
    case True
    then have "st_pos t + 1 \<le> length (st_mem t)" "st_good t" using t(4) by (auto simp: skip_good st_ok_def)
    then show ?thesis using t frame True
      by (auto simp: read_string_def skip_one_skip fetch_at_def fetch_def Let_def)
  next
    case False
    then show ?thesis using t frame by (auto simp: read_string_def skip_one_skip Let_def)
  qed
qed

lemma options_harmless: "harmless read_options"
proof (rule harmlessI)
  fix s assume "st_ok s"
  then have "st_ok (unalign s)" using inside_ok unalign_inside by blast
  then obtain t es where
    "readSimpleHidlVecInPlace 4 (unalign s) = Some (t, es)" "inside (unalign s) t" "st_mem t = st_mem (unalign s)"
    by (rule harmlessE [OF vec_harmless])
  then show "\<exists>t x. read_options s = Some (t, x) \<and> inside s t \<and> st_mem t = st_mem s"
    using inside_trans [OF unalign_inside] by (auto simp: read_options_def)
qed

lemma token_harmless: "harmless read_token"
proof (rule harmlessI)
  fix s assume "st_ok s"
  then obtain t p n where t: "read_sized s = Some (t, p, n)" "inside s t" "st_mem t = st_mem s" "st_ok t"
      "st_good t \<longrightarrow> (\<exists>pos. p = Some pos \<and> pos + n \<le> length (st_mem s))"
    using read_sized_inside by blast
  obtain u m where "readSimpleHidlVecInPlace 1 t = Some (u, m)" "inside t u" "st_mem u = st_mem t"
    by (rule harmlessE [OF vec_harmless t(4)])
  then show "\<exists>t x. read_token s = Some (t, x) \<and> inside s t \<and> st_mem t = st_mem s"
    using t inside_trans [OF t(2)] by (auto simp: read_token_def fetch_at_def fetch_def)
qed

lemma map_harmless: "harmless g \<Longrightarrow> harmless (\<lambda>s. do { (s, v) \<leftarrow> g s; Some (s, h v) })"
proof (rule harmlessI)
  fix s assume g: "harmless g" and s: "st_ok s"
  obtain t x where "g s = Some (t, x)" "inside s t" "st_mem t = st_mem s" by (rule harmlessE [OF g s])
  then show "\<exists>t x. do { (s, v) \<leftarrow> g s; Some (s, h v) } = Some (t, x) \<and> inside s t \<and> st_mem t = st_mem s" by simp
qed

lemma field_harmless: "harmless (read_field f)"
proof (cases f)
  case String_field
  have "read_field f = (\<lambda>s. do { (s, v) \<leftarrow> read_string s; Some (s, String_value v) })" by (rule ext) (simp only: String_field read_field.simps)
  then show ?thesis by (simp only: map_harmless [OF string_harmless])
next
  case Bytes_field
  have "read_field f = (\<lambda>s. do { (s, v) \<leftarrow> readSimpleHidlVecInPlace 1 s; Some (s, Bytes_value (concat v)) })" by (rule ext) (simp only: Bytes_field read_field.simps)
  then show ?thesis by (simp only: map_harmless [OF vec_harmless])
next
  case Options_field
  have "read_field f = (\<lambda>s. do { (s, v) \<leftarrow> read_options s; Some (s, Options_value v) })" by (rule ext) (simp only: Options_field read_field.simps)
  then show ?thesis by (simp only: map_harmless [OF options_harmless])
next
  case Token_field
  have "read_field f = (\<lambda>s. do { (s, v) \<leftarrow> read_token s; Some (s, Token_value v) })" by (rule ext) (simp only: Token_field read_field.simps)
  then show ?thesis by (simp only: map_harmless [OF token_harmless])
next
  case Response_field
  have "read_field f = (\<lambda>s. do { (s, v) \<leftarrow> readSimpleType s; Some (s, Response_value v) })" by (rule ext) (simp only: Response_field read_field.simps)
  then show ?thesis by (simp only: map_harmless [OF simple_harmless])
qed

lemma fields_harmless: "harmless (read_fields fs)"
proof (induction fs)
  case Nil
  then show ?case by (simp add: harmless_def)
next
  case (Cons f fs)
  show ?case
  proof (rule harmlessI)
    fix s assume s: "st_ok s"
    obtain t v where t: "read_field f s = Some (t, v)" "inside s t" "st_mem t = st_mem s" "st_ok t"
      by (rule harmlessE [OF field_harmless s])
    obtain u vs where "read_fields fs t = Some (u, vs)" "inside t u" "st_mem u = st_mem t"
      by (rule harmlessE [OF Cons t(4)])
    then show "\<exists>t x. read_fields (f # fs) s = Some (t, x) \<and> inside s t \<and> st_mem t = st_mem s"
      using t inside_trans by auto
  qed
qed

lemma message_harmless: "harmless (read_message cmd fs)"
proof (rule harmlessI)
  fix s assume s: "st_ok s"
  have command: "\<exists>t b. read_command cmd s = Some (t, b) \<and> t = skip 4 s"
    using s fetch_room [of "st_pos s" 4 s] by (auto simp: read_command_def Let_def skip_good st_ok_def)
  have "st_ok (skip 4 s)" using inside_ok [OF s skip_inside] .
  then obtain u vs where
    "read_fields fs (skip 4 s) = Some (u, vs)" "inside (skip 4 s) u" "st_mem u = st_mem (skip 4 s)"
    by (rule harmlessE [OF fields_harmless])
  then show "\<exists>t x. read_message cmd fs s = Some (t, x) \<and> inside s t \<and> st_mem t = st_mem s"
    using command inside_trans [OF skip_inside] skip_inside by (auto simp: read_message_def)
qed

subsection \<open>The properties of the messages\<close>

lemma gap_cong: "a mod 8 = b mod 8 \<Longrightarrow> gap a = gap b"
  by (simp add: gap_def)

lemma layout_cong: "a mod 8 = b mod 8 \<Longrightarrow> layout v a = layout v b"
  using gap_cong [of a b] by (cases v) simp_all

lemma layouts_cong: "a mod 8 = b mod 8 \<Longrightarrow> layouts vs a = layouts vs b"
proof (induction vs arbitrary: a b)
  case (Cons v vs)
  have "(a + length (layout v b)) mod 8 = (b + length (layout v b)) mod 8" using Cons.prems by (metis mod_add_left_eq)
  then show ?case using Cons.IH [of "a + length (layout v b)" "b + length (layout v b)"] layout_cong [OF Cons.prems, of v]
    by simp
qed simp

text \<open>
  C28: What one side writes the other reads: when a message was written without running out of space, a
  reader at the same place of the same bytes gets its fields back and stops where the writer stopped,
  wherever the two sides have the buffer as long as the alignment modulo 8 is the same, and a reader of
  another command sees that it does not match.
\<close>
theorem message_roundtrip:
  assumes "st_ok out" "write_message cmd vs out = Some written" "st_good written"
    and "inp = \<lparr>st_mem = st_mem written, st_base = base, st_pos = st_pos out, st_left = st_left out, st_good = True\<rparr>"
    and "base mod 8 = st_base out mod 8"
  shows "\<exists>t. read_message cmd (map field_of vs) inp = Some (t, Some vs) \<and> st_good t \<and> st_pos t = st_pos written \<and>
    (\<forall>other fs. other \<noteq> cmd \<longrightarrow> (\<exists>t. read_message other fs inp = Some (t, None)))"
proof -
  let ?bytes = "\<lambda>a. le_bytes 4 (command_code cmd) @ layouts vs (a + 4)"
  obtain t where "write_message cmd vs out = Some t" "put (?bytes (st_addr out)) (\<forall>v \<in> set vs. value_ok v) out t"
    by (rule putsE [OF puts_message assms(1)])
  then have put: "put (?bytes (st_addr out)) (\<forall>v \<in> set vs. value_ok v) out written" using assms(2) by simp
  then have ok: "\<forall>v \<in> set vs. value_ok v" "length (?bytes (st_addr out)) \<le> st_left out"
    "st_pos written = st_pos out + length (?bytes (st_addr out))"
    "take (length (?bytes (st_addr out))) (drop (st_pos out) (st_mem written)) = ?bytes (st_addr out)"
    "length (st_mem written) = length (st_mem out)"
    using assms(3) by (auto simp: put_def inside_def split: if_splits)
  have "(st_addr inp + 4) mod 8 = (st_addr out + 4) mod 8"
    using assms(5) unfolding st_addr_def assms(4) add.assoc by (metis mod_add_left_eq stream.select_convs(2,3))
  then have same: "?bytes (st_addr inp) = ?bytes (st_addr out)" using layouts_cong by metis
  have "has (?bytes (st_addr inp)) inp"
    using ok assms(1) unfolding same by (simp add: has_def slice_def st_ok_def assms(4))
  note parsed = parses_message [OF this ok(1)]
  have "st_pos (skip (4 + length (layouts vs (st_addr inp + 4))) inp) = st_pos written"
    "st_good (skip (4 + length (layouts vs (st_addr inp + 4))) inp)"
    using has_skip [OF \<open>has (?bytes (st_addr inp)) inp\<close>] ok(3) same assms(4) by simp_all
  then show ?thesis using parsed by (intro exI [of _ "skip (4 + length (layouts vs (st_addr inp + 4))) inp"]) blast
qed

text \<open>
  C29: Neither side leaves its buffer: whatever the bytes, reading a message loads only from inside the
  stream and changes nothing, and writing one stores only between the position and the end of the
  stream; it succeeds exactly when the sizes are 32-bit numbers and the message fits.
\<close>
theorem messages_stay_inside:
  assumes "st_ok s"
  shows "(\<exists>t r. read_message cmd fs s = Some (t, r) \<and> inside s t \<and> st_mem t = st_mem s) \<and>
    (\<exists>t. write_message cmd vs s = Some t \<and> inside s t \<and>
       (st_good t \<longleftrightarrow> st_good s \<and> (\<forall>v \<in> set vs. value_ok v) \<and> 4 + length (layouts vs (st_addr s + 4)) \<le> st_left s))"
proof -
  obtain t r where "read_message cmd fs s = Some (t, r)" "inside s t" "st_mem t = st_mem s"
    by (rule harmlessE [OF message_harmless assms])
  moreover obtain u where "write_message cmd vs s = Some u"
    "put (le_bytes 4 (command_code cmd) @ layouts vs (st_addr s + 4)) (\<forall>v \<in> set vs. value_ok v) s u"
    by (rule putsE [OF puts_message assms])
  ultimately show ?thesis by (auto simp: put_def split: if_splits)
qed

text \<open>The prompt of \<open>msg_formatting_test.cpp\<close>.\<close>

definition test_prompt :: "field_value list" where
  "test_prompt = [String_value [0x44, 0x6F, 0x20, 0x79, 0x6F, 0x75, 0x3F], Bytes_value [1, 2, 3],
     String_value [0x65, 0x6E], Options_value [0, 1]]"

theorem message_roundtrip_witness:
  "\<exists>w t. write_message PromptUserConfirmation test_prompt (stream_on 4096 (replicate 64 0)) = Some w \<and>
     read_message PromptUserConfirmation PromptUserConfirmationMsg
       \<lparr>st_mem = st_mem w, st_base = 8200, st_pos = 0, st_left = 64, st_good = True\<rparr> = Some (t, Some test_prompt)"
proof -
  have out: "st_ok (stream_on 4096 (replicate 64 0))" "st_left (stream_on 4096 (replicate 64 0)) = 64"
    "st_pos (stream_on 4096 (replicate 64 0)) = 0" "st_base (stream_on 4096 (replicate 64 0)) = 4096"
    "st_good (stream_on 4096 (replicate 64 0))"
    by (simp_all add: stream_on_def st_ok_def)
  obtain w where w: "write_message PromptUserConfirmation test_prompt (stream_on 4096 (replicate 64 0)) = Some w" "st_good w"
    using putsE [OF puts_message out(1), of PromptUserConfirmation test_prompt] out
    by (auto simp: put_def test_prompt_def sized_def gap_def st_addr_def)
  have "map field_of test_prompt = PromptUserConfirmationMsg" by (simp add: test_prompt_def PromptUserConfirmationMsg_def)
  then show ?thesis using message_roundtrip [OF out(1) w refl, of 8200] w(1) out by auto
qed

theorem messages_stay_inside_witness:
  "\<exists>t r. read_message Abort ResultMsg (stream_on 3 [2, 0, 0, 0, 4, 0, 0]) = Some (t, r) \<and>
     st_mem t = [2, 0, 0, 0, 4, 0, 0]"
  using messages_stay_inside [of "stream_on 3 [2, 0, 0, 0, 4, 0, 0]" Abort ResultMsg "[]"]
  by (auto simp: stream_on_def st_ok_def)

end
