(* ===== verification/ConfirmationUI.thy ===== *)
theory ConfirmationUI
  imports Cbor MsgFormat
begin

text \<open>
  The default confirmation UI service (\<open>GenericOperation.h\<close>, \<open>ConfirmationUI.cpp\<close>,
  \<open>PlatformSpecifics.cpp\<close>, \<open>confirmationui_utils.h\<close> and \<open>.cpp\<close>): one operation that formats the prompt,
  waits for a secure input event and reports the result with a confirmation token.

  OpenSSL's HMAC and the clock are parameters; a result callback is a number, and a null one that is
  called is the result \<open>None\<close>. The order in which C++ evaluates the arguments of \<open>result\<close> is a
  parameter too. The calls are a sequence: the service has no lock.
\<close>

subsection \<open>Helpers\<close>

datatype ResponseCode = OK | Canceled | Aborted | OperationPending | Ignored | SystemError | Unimplemented
  | Unexpected | UIError | UIErrorMissingGlyph | UIErrorMessageTooLong | UIErrorMalformedUTF8Encoding

definition MessageSize_MAX :: nat where
  "MessageSize_MAX = 0x1800"

definition test_key :: "u8 list" where
  "test_key = replicate 32 0xA5"

fun same_bytes :: "u8 list \<Rightarrow> u8 list \<Rightarrow> bool" where
  "same_bytes (l # ls) (r # rs) \<longleftrightarrow> (if l \<noteq> r then False else same_bytes ls rs)"
| "same_bytes _ _ \<longleftrightarrow> True"

definition ByteBufferProxy_eq :: "u8 list \<Rightarrow> u8 list \<Rightarrow> bool" where
  "ByteBufferProxy_eq lhs rhs \<longleftrightarrow>
     (if length lhs = length rhs then (if \<not> same_bytes lhs rhs then False else True) else True)"

text \<open>\<open>hton\<close> on a little-endian machine turns the \<open>k\<close> bytes of a number around.\<close>

definition hton :: "nat \<Rightarrow> nat \<Rightarrow> nat" where
  "hton k n = le_nat (rev (le_bytes k n))"

fun hasOption :: "u32 \<Rightarrow> u32 list \<Rightarrow> bool" where
  "hasOption opt [] = False"
| "hasOption opt (x # xs) = (if x = opt then True else hasOption opt xs)"

record 'c hmac_api =
  HMAC_Init_ex :: "u8 list \<Rightarrow> 'c option"
  HMAC_Update :: "'c \<Rightarrow> u8 list \<Rightarrow> 'c option"
  HMAC_Final :: "'c \<Rightarrow> u8 list option"

fun hmac_updates :: "'c hmac_api \<Rightarrow> 'c \<Rightarrow> u8 list list \<Rightarrow> 'c option" where
  "hmac_updates api c [] = Some c"
| "hmac_updates api c (b # bs) = do { c \<leftarrow> HMAC_Update api c b; hmac_updates api c bs }"

definition hmac256 :: "'c hmac_api \<Rightarrow> u8 list \<Rightarrow> u8 list list \<Rightarrow> u8 list option" where
  "hmac256 api key buffers =
     do { c \<leftarrow> HMAC_Init_ex api key; c \<leftarrow> hmac_updates api c buffers; HMAC_Final api c }"

text \<open>The seconds and nanoseconds of \<open>clock_gettime\<close>, or its failure.\<close>

type_synonym clock = "(64 word \<times> 64 word) option"

definition now :: "clock \<Rightarrow> 64 word option" where
  "now c = map_option (\<lambda>(tv_sec, tv_nsec). tv_sec * 1000 + tv_nsec div 1000000) c"

subsection \<open>The operation\<close>

record operation =
  op_error :: ResponseCode
  op_formattedMessageBuffer :: "u8 list"
  op_promptStringBuffer :: "u8 list"
  op_formattedMessageLength :: nat
  op_confirmationTokenScratchpad :: "u8 list option"
  op_resultCB :: "nat option"
  op_startTime :: "64 word option"
  op_hmacKey :: "u8 list option"

definition new_operation :: operation where
  "new_operation = \<lparr>op_error = Ignored, op_formattedMessageBuffer = replicate MessageSize_MAX 0,
     op_promptStringBuffer = replicate MessageSize_MAX 0, op_formattedMessageLength = 0,
     op_confirmationTokenScratchpad = None, op_resultCB = None, op_startTime = None,
     op_hmacKey = None\<rparr>"

type_synonym result = "nat \<times> ResponseCode \<times> u8 list \<times> u8 list"

definition prompt_key :: "u8 list" where
  "prompt_key = [0x70, 0x72, 0x6F, 0x6D, 0x70, 0x74]"

definition extra_key :: "u8 list" where
  "extra_key = [0x65, 0x78, 0x74, 0x72, 0x61]"

definition confirmation_token :: "u8 list" where
  "confirmation_token = [0x63, 0x6F, 0x6E, 0x66, 0x69, 0x72, 0x6D, 0x61, 0x74, 0x69, 0x6F, 0x6E, 0x20,
     0x74, 0x6F, 0x6B, 0x65, 0x6E]"

definition init :: "nat option \<Rightarrow> u8 list \<Rightarrow> u8 list \<Rightarrow> u8 list \<Rightarrow> u32 list \<Rightarrow> clock \<Rightarrow> operation \<Rightarrow>
    (operation \<times> ResponseCode) option" where
  "init resultCB promptText extraData loc uiOptions clock opn =
     (let opn = opn\<lparr>op_resultCB := resultCB\<rparr> in
      if op_error opn \<noteq> Ignored then Some (opn, OperationPending)
      else if MessageSize_MAX \<le> length promptText then Some (opn, UIErrorMessageTooLong)
      else
        let opn = opn\<lparr>op_promptStringBuffer := write_at 0 (promptText @ [0]) (op_promptStringBuffer opn)\<rparr> in
        do { state \<leftarrow> cbor_write
               (Map [(Text prompt_key, Text (take (length promptText) (op_promptStringBuffer opn))),
                     (Text extra_key, Bytes extraData)])
               (WriteState (op_formattedMessageBuffer opn));
             let opn = opn\<lparr>op_formattedMessageBuffer := ws_buffer state\<rparr> in
             case ws_error state of
               OUT_OF_DATA \<Rightarrow> Some (opn, UIErrorMessageTooLong)
             | MALFORMED_UTF8 \<Rightarrow> Some (opn, UIErrorMalformedUTF8Encoding)
             | MALFORMED \<Rightarrow> Some (opn, Unexpected)
             | Error.OK \<Rightarrow>
                 let opn = opn\<lparr>op_formattedMessageLength := ws_pos state, op_startTime := now clock\<rparr> in
                 Some (opn, if op_startTime opn = None then SystemError else OK) })"

definition setPending :: "operation \<Rightarrow> operation" where
  "setPending opn = opn\<lparr>op_error := OK\<rparr>"

definition setHmacKey :: "u8 list \<Rightarrow> operation \<Rightarrow> operation" where
  "setHmacKey key opn = opn\<lparr>op_hmacKey := Some key\<rparr>"

definition isPending :: "operation \<Rightarrow> bool" where
  "isPending opn \<longleftrightarrow> op_error opn \<noteq> Ignored"

definition op_abort :: "operation \<Rightarrow> (operation \<times> result list) option" where
  "op_abort opn =
     (if isPending opn then do { cb \<leftarrow> op_resultCB opn; Some (opn\<lparr>op_error := Ignored\<rparr>, [(cb, Aborted, [], [])]) }
      else Some (opn, []))"

definition userCancel :: "operation \<Rightarrow> operation" where
  "userCancel opn = (if isPending opn then opn\<lparr>op_error := Canceled\<rparr> else opn)"

definition getPrompt :: "operation \<Rightarrow> u8 list" where
  "getPrompt opn = takeWhile (\<lambda>c. c \<noteq> 0) (op_promptStringBuffer opn)"

definition getMessage :: "operation \<Rightarrow> u8 list" where
  "getMessage opn = (if op_error opn \<noteq> OK then [] else take (op_formattedMessageLength opn) (op_formattedMessageBuffer opn))"

definition userConfirm :: "'c hmac_api \<Rightarrow> u8 list \<Rightarrow> operation \<Rightarrow> operation \<times> u8 list" where
  "userConfirm api key opn =
     (if op_error opn \<noteq> OK then (opn, [])
      else
        let opn = opn\<lparr>op_confirmationTokenScratchpad := hmac256 api key [confirmation_token, getMessage opn]\<rparr> in
        case op_confirmationTokenScratchpad opn of
          None \<Rightarrow> (opn\<lparr>op_error := Unexpected\<rparr>, [])
        | Some token \<Rightarrow> (opn, token))"

text \<open>The arguments of \<open>result\<close> are evaluated one after the other, in an order the compiler chooses.\<close>

datatype argument = Arg_error | Arg_message | Arg_token

fun eval_arguments :: "'c hmac_api \<Rightarrow> u8 list \<Rightarrow> argument list \<Rightarrow> operation \<Rightarrow> ResponseCode \<times> u8 list \<times> u8 list \<Rightarrow>
    operation \<times> ResponseCode \<times> u8 list \<times> u8 list" where
  "eval_arguments api key [] opn (e, m, t) = (opn, e, m, t)"
| "eval_arguments api key (Arg_error # as) opn (e, m, t) = eval_arguments api key as opn (op_error opn, m, t)"
| "eval_arguments api key (Arg_message # as) opn (e, m, t) = eval_arguments api key as opn (e, getMessage opn, t)"
| "eval_arguments api key (Arg_token # as) opn (e, m, t) =
     (case userConfirm api key opn of (opn, token) \<Rightarrow> eval_arguments api key as opn (e, m, token))"

definition finalize :: "'c hmac_api \<Rightarrow> argument list \<Rightarrow> u8 list \<Rightarrow> operation \<Rightarrow> (operation \<times> result list) option" where
  "finalize api order key opn =
     (if op_error opn = Ignored then Some (opn, [])
      else do { cb \<leftarrow> op_resultCB opn;
                case eval_arguments api key order opn (OK, [], []) of
                  (opn, e, m, t) \<Rightarrow> Some (opn\<lparr>op_error := Ignored, op_resultCB := None\<rparr>, [(cb, e, m, t)]) })"

definition token_buffers :: "HardwareAuthToken \<Rightarrow> u8 list list" where
  "token_buffers tok =
     [[0], le_bytes 8 (unat (challenge tok)), le_bytes 8 (unat (userId tok)), le_bytes 8 (unat (authenticatorId tok)),
      le_bytes 4 (hton 4 (unat (authenticatorType tok))), le_bytes 8 (hton 8 (unat (timestamp tok)))]"

definition op_deliverSecureInputEvent :: "'c hmac_api \<Rightarrow> argument list \<Rightarrow> HardwareAuthToken \<Rightarrow> operation \<Rightarrow>
    (operation \<times> result list \<times> ResponseCode) option" where
  "op_deliverSecureInputEvent api order tok opn =
     (case hmac256 api test_key (token_buffers tok) of
        None \<Rightarrow> Some (opn, [], Unexpected)
      | Some hmac \<Rightarrow>
          if ByteBufferProxy_eq hmac (mac tok) then
            if challenge tok = 0 then
              if isPending opn then do { (opn, rs) \<leftarrow> finalize api order test_key opn; Some (opn, rs, OK) }
              else Some (opn, [], Ignored)
            else if challenge tok = 1 then
              let ignored = \<not> isPending opn in
              do { (opn, rs) \<leftarrow> finalize api order test_key (userCancel opn);
                   Some (opn, rs, if ignored then Ignored else OK) }
            else Some (opn, [], Ignored)
          else Some (opn, [], Ignored))"

subsection \<open>The service\<close>

definition hmacKey :: "u8 list" where
  "hmacKey = replicate 32 0"

datatype call = Prompt "nat option" "u8 list" "u8 list" "u8 list" "u32 list" clock
  | Deliver HardwareAuthToken | Abort_call

definition promptUserConfirmation :: "nat option \<Rightarrow> u8 list \<Rightarrow> u8 list \<Rightarrow> u8 list \<Rightarrow> u32 list \<Rightarrow> clock \<Rightarrow> operation \<Rightarrow>
    (operation \<times> ResponseCode) option" where
  "promptUserConfirmation resultCB promptText extraData loc uiOptions clock opn =
     do { (opn, reply) \<leftarrow> init resultCB promptText extraData loc uiOptions clock opn;
          Some (if reply = OK then setPending opn else opn, reply) }"

definition service_abort :: "'c hmac_api \<Rightarrow> argument list \<Rightarrow> operation \<Rightarrow> (operation \<times> result list) option" where
  "service_abort api order opn =
     do { (opn, rs) \<leftarrow> op_abort opn; (opn, rs') \<leftarrow> finalize api order hmacKey opn; Some (opn, rs @ rs') }"

text \<open>\<open>abort\<close> returns nothing; its reply is OK here.\<close>

fun ui_call :: "'c hmac_api \<Rightarrow> argument list \<Rightarrow> call \<Rightarrow> operation \<Rightarrow> (operation \<times> result list \<times> ResponseCode) option" where
  "ui_call api order (Prompt cb text extra loc opts clock) opn =
     do { (opn, reply) \<leftarrow> promptUserConfirmation cb text extra loc opts clock opn; Some (opn, [], reply) }"
| "ui_call api order (Deliver tok) opn = op_deliverSecureInputEvent api order tok opn"
| "ui_call api order Abort_call opn = do { (opn, rs) \<leftarrow> service_abort api order opn; Some (opn, rs, OK) }"

fun ui_run :: "'c hmac_api \<Rightarrow> argument list \<Rightarrow> call list \<Rightarrow> operation \<Rightarrow> (operation \<times> (result list \<times> ResponseCode) list) option" where
  "ui_run api order [] opn = Some (opn, [])"
| "ui_run api order (c # cs) opn =
     do { (opn, rs, reply) \<leftarrow> ui_call api order c opn; (opn, out) \<leftarrow> ui_run api order cs opn; Some (opn, (rs, reply) # out) }"

subsection \<open>What the service promises\<close>

text \<open>
  The specification knows whether a prompt is pending, and with which callback, text and extra data. A
  call through a null callback is the end of the process.
\<close>

datatype ui = Idle | Pending "nat option" "u8 list" "u8 list"

definition confirm_message :: "u8 list \<Rightarrow> u8 list \<Rightarrow> cbor" where
  "confirm_message text extra = Map [(Text prompt_key, Text text), (Text extra_key, Bytes extra)]"

definition prompt_reply :: "u8 list \<Rightarrow> u8 list \<Rightarrow> clock \<Rightarrow> ResponseCode" where
  "prompt_reply text extra clock =
     (if MessageSize_MAX \<le> length text then UIErrorMessageTooLong
      else if \<not> utf8_ok text then
        (if 8 + length (encode (Text text)) \<le> MessageSize_MAX then UIErrorMalformedUTF8Encoding else UIErrorMessageTooLong)
      else if MessageSize_MAX < length (encode (confirm_message text extra)) then UIErrorMessageTooLong
      else if clock = None then SystemError
      else OK)"

definition accepts :: "(u8 list \<Rightarrow> u8 list \<Rightarrow> u8 list) \<Rightarrow> HardwareAuthToken \<Rightarrow> bool" where
  "accepts hmac tok \<longleftrightarrow> length (mac tok) \<noteq> 32 \<or> mac tok = hmac test_key (concat (token_buffers tok))"

definition report :: "nat option \<Rightarrow> ResponseCode \<Rightarrow> u8 list \<Rightarrow> u8 list \<Rightarrow> ResponseCode \<Rightarrow> (ui \<times> result list \<times> ResponseCode) option" where
  "report cb e m t reply = do { cb \<leftarrow> cb; Some (Idle, [(cb, e, m, t)], reply) }"

fun spec_call :: "(u8 list \<Rightarrow> u8 list \<Rightarrow> u8 list) \<Rightarrow> call \<Rightarrow> ui \<Rightarrow> (ui \<times> result list \<times> ResponseCode) option" where
  "spec_call hmac (Prompt cb text extra loc opts clock) Idle =
     (let reply = prompt_reply text extra clock in
      Some (if reply = OK then Pending cb text extra else Idle, [], reply))"
| "spec_call hmac (Prompt cb _ _ loc opts clock) (Pending _ text extra) = Some (Pending cb text extra, [], OperationPending)"
| "spec_call hmac (Deliver tok) Idle = Some (Idle, [], Ignored)"
| "spec_call hmac (Deliver tok) (Pending cb text extra) =
     (if accepts hmac tok \<and> challenge tok = 0 then
        let m = encode (confirm_message text extra) in report cb OK m (hmac test_key (confirmation_token @ m)) OK
      else if accepts hmac tok \<and> challenge tok = 1 then report cb Canceled [] [] OK
      else Some (Pending cb text extra, [], Ignored))"
| "spec_call hmac Abort_call Idle = Some (Idle, [], OK)"
| "spec_call hmac Abort_call (Pending cb text extra) = report cb Aborted [] [] OK"

fun spec_run :: "(u8 list \<Rightarrow> u8 list \<Rightarrow> u8 list) \<Rightarrow> call list \<Rightarrow> ui \<Rightarrow> (ui \<times> (result list \<times> ResponseCode) list) option" where
  "spec_run hmac [] ui = Some (ui, [])"
| "spec_run hmac (c # cs) ui =
     do { (ui, rs, reply) \<leftarrow> spec_call hmac c ui; (ui, out) \<leftarrow> spec_run hmac cs ui; Some (ui, (rs, reply) # out) }"

text \<open>What is assumed of OpenSSL: the calls succeed and compute one function of 32 bytes of the key and the bytes.\<close>

definition is_hmac :: "'c hmac_api \<Rightarrow> (u8 list \<Rightarrow> u8 list \<Rightarrow> u8 list) \<Rightarrow> bool" where
  "is_hmac api hmac \<longleftrightarrow> (\<forall>key buffers. hmac256 api key buffers = Some (hmac key (concat buffers)) \<and> length (hmac key (concat buffers)) = 32)"

definition is_order :: "argument list \<Rightarrow> bool" where
  "is_order order \<longleftrightarrow> distinct order \<and> set order = {Arg_error, Arg_message, Arg_token}"

text \<open>A vector has less than \<open>2 ^ 64\<close> bytes.\<close>

fun sizes_ok :: "call \<Rightarrow> bool" where
  "sizes_ok (Prompt cb text extra loc opts clock) \<longleftrightarrow> length extra < 2 ^ 64"
| "sizes_ok _ \<longleftrightarrow> True"

subsection \<open>The parts of a step\<close>

definition op_ok :: "operation \<Rightarrow> bool" where
  "op_ok opn \<longleftrightarrow> length (op_formattedMessageBuffer opn) = MessageSize_MAX \<and> length (op_promptStringBuffer opn) = MessageSize_MAX"

lemma encode_confirm: "encode (confirm_message text extra) =
    0xA2 # 0x66 # prompt_key @ encode (Text text) @ 0x65 # extra_key @ encode (Bytes extra)"
  by (simp add: confirm_message_def prompt_key_def extra_key_def) (simp add: head_def)

lemma keys_ok: "utf8_ok prompt_key" "utf8_ok extra_key"
  by (simp_all add: prompt_key_def extra_key_def utf8_ok.intros)

lemma key_lengths: "length prompt_key = 6" "length extra_key = 5"
  by (simp_all add: prompt_key_def extra_key_def)

text \<open>A malformed prompt is noticed when it is copied; what would follow it is not written.\<close>

lemma writes_ok:
  assumes "writes f bs p" "p" "ws_ok st" "ws_error st = Error.OK" "length bs \<le> ws_size st"
  shows "f st = Some (appended bs st)" "ws_ok (appended bs st)" "length (ws_buffer (appended bs st)) = length (ws_buffer st)"
  using assms writesE [OF assms(1,3)] appended_ok [OF assms(3,5)] by (auto simp: outcome_def same_outside_def)

lemma write_malformed:
  assumes "length buffer = MessageSize_MAX" "length text < MessageSize_MAX" "\<not> utf8_ok text"
  shows "\<exists>st. cbor_write (confirm_message text extra) (WriteState buffer) = Some st \<and>
    length (ws_buffer st) = MessageSize_MAX \<and>
    ws_error st = (if 8 + length (encode (Text text)) \<le> MessageSize_MAX then MALFORMED_UTF8 else OUT_OF_DATA)"
proof -
  define h where "h = appended (head 5 2) (WriteState buffer)"
  define st where "st = appended (encode (Text prompt_key)) h"
  have len: "length (head 5 2) = 1" "length (encode (Text prompt_key)) = 7" by (simp_all add: head_def key_lengths)
  have h: "writeHeader MAP 2 (WriteState buffer) = Some h" "ws_ok h" "length (ws_buffer h) = MessageSize_MAX"
    using writes_ok [OF writes_header_nat [of 2 MAP], of "WriteState buffer"] assms(1) len(1)
    by (simp_all add: h_def type_nat_def MessageSize_MAX_def)
  have h': "ws_error h = Error.OK" "ws_size h = MessageSize_MAX - 1" by (simp_all add: h_def assms(1) len)
  have st: "writeText prompt_key h = Some st" "ws_ok st" "length (ws_buffer st) = MessageSize_MAX"
    using writes_ok [OF writes_text [of prompt_key] keys_ok(1) h(2) h'(1)] h(3) h'(2) len(2)
    by (simp_all add: st_def key_lengths MessageSize_MAX_def)
  have st': "ws_error st = Error.OK" "ws_size st = MessageSize_MAX - 8"
    using h' len(2) by (simp_all add: st_def del: encode.simps)
  have "length text < 2 ^ 64" using assms(2) by (simp add: MessageSize_MAX_def)
  then obtain t where t: "writeText text st = Some t" "length (ws_buffer t) = MessageSize_MAX"
      "ws_error t = (if length (encode (Text text)) \<le> MessageSize_MAX - 8 then MALFORMED_UTF8 else OUT_OF_DATA)"
    using text_error [OF st(2) st'(1) _ assms(3)] st(3) st'(2) by auto
  moreover from t(3) have "ws_error t \<noteq> Error.OK" by simp
  ultimately have "cbor_write (confirm_message text extra) (WriteState buffer) = Some t"
    using h h' st st' by (simp add: confirm_message_def)
  moreover have "8 + length (encode (Text text)) \<le> MessageSize_MAX \<longleftrightarrow> length (encode (Text text)) \<le> MessageSize_MAX - 8"
    by (auto simp: MessageSize_MAX_def)
  ultimately show ?thesis using t(2,3) by simp
qed

lemma confirm_in_range: "length text < 2 ^ 64 \<Longrightarrow> length extra < 2 ^ 64 \<Longrightarrow> in_range (confirm_message text extra)"
  by (simp add: confirm_message_def key_lengths)

lemma confirm_texts_ok [simp]: "texts_ok (confirm_message text extra) = utf8_ok text"
  by (simp add: confirm_message_def keys_ok)

lemma init_exact:
  assumes "op_ok opn" "op_error opn = Ignored" "length extra < 2 ^ 64"
  shows "\<exists>opn'. init cb text extra loc opts clock opn = Some (opn', prompt_reply text extra clock) \<and>
    op_ok opn' \<and> op_error opn' = Ignored \<and> op_resultCB opn' = cb \<and>
    (prompt_reply text extra clock = OK \<longrightarrow> getMessage (setPending opn') = encode (confirm_message text extra))"
proof (cases "MessageSize_MAX \<le> length text")
  case True
  then show ?thesis using assms by (simp add: init_def prompt_reply_def op_ok_def)
next
  case False
  then have text64: "length text < 2 ^ 64" by (simp add: MessageSize_MAX_def)
  let ?b = "write_at 0 (text @ [0]) (op_promptStringBuffer opn)"
  have b: "take (length text) ?b = text" "length ?b = MessageSize_MAX"
    using False assms(1) by (auto simp: write_at_def op_ok_def)
  have size: "length (op_formattedMessageBuffer opn) = MessageSize_MAX" using assms(1) by (simp add: op_ok_def)
  obtain st where st: "cbor_write (confirm_message text extra) (WriteState (op_formattedMessageBuffer opn)) = Some st"
      "length (ws_buffer st) = MessageSize_MAX"
      "ws_error st = (if utf8_ok text
         then if length (encode (confirm_message text extra)) \<le> MessageSize_MAX then Error.OK else OUT_OF_DATA
         else if 8 + length (encode (Text text)) \<le> MessageSize_MAX then MALFORMED_UTF8 else OUT_OF_DATA)"
      "ws_error st = Error.OK \<Longrightarrow> written st = encode (confirm_message text extra)"
  proof (cases "utf8_ok text")
    case True
    then show ?thesis
      using that write_outcome [OF confirm_in_range [OF text64 assms(3)], of "op_formattedMessageBuffer opn"] size
      by (auto split: if_splits)
  next
    case False
    then obtain t where "cbor_write (confirm_message text extra) (WriteState (op_formattedMessageBuffer opn)) = Some t"
        "length (ws_buffer t) = MessageSize_MAX"
        "ws_error t = (if 8 + length (encode (Text text)) \<le> MessageSize_MAX then MALFORMED_UTF8 else OUT_OF_DATA)"
      using write_malformed [OF size _ False, of extra] \<open>\<not> MessageSize_MAX \<le> length text\<close> by auto
    with False show ?thesis by (intro that [of t]) (simp_all split: if_splits)
  qed
  have step: "init cb text extra loc opts clock opn =
      (let opn = opn\<lparr>op_resultCB := cb, op_promptStringBuffer := ?b, op_formattedMessageBuffer := ws_buffer st\<rparr> in
       case ws_error st of OUT_OF_DATA \<Rightarrow> Some (opn, UIErrorMessageTooLong)
       | MALFORMED_UTF8 \<Rightarrow> Some (opn, UIErrorMalformedUTF8Encoding)
       | MALFORMED \<Rightarrow> Some (opn, Unexpected)
       | Error.OK \<Rightarrow> let opn = opn\<lparr>op_formattedMessageLength := ws_pos st, op_startTime := now clock\<rparr> in
           Some (opn, if op_startTime opn = None then SystemError else OK))"
    using False assms(2) b(1) st(1) by (simp add: init_def confirm_message_def Let_def del: cbor_write.simps)
  have reply: "prompt_reply text extra clock =
      (case ws_error st of OUT_OF_DATA \<Rightarrow> UIErrorMessageTooLong | MALFORMED_UTF8 \<Rightarrow> UIErrorMalformedUTF8Encoding
       | MALFORMED \<Rightarrow> Unexpected | Error.OK \<Rightarrow> if clock = None then SystemError else OK)"
    using False st(3) by (auto simp: prompt_reply_def)
  show ?thesis
  proof (cases "ws_error st")
    case OK
    then show ?thesis
      using step reply st(2,4) assms b(2) by (simp add: op_ok_def now_def getMessage_def setPending_def written_def)
  next
    case MALFORMED
    then show ?thesis using st(3) by (simp split: if_splits)
  qed (use step reply st(2) assms b(2) in \<open>simp_all add: op_ok_def\<close>)
qed

text \<open>With a working HMAC the order of the arguments does not matter.\<close>

lemma eval_confirmed:
  assumes "is_hmac api hmac" "op_error opn = OK"
  shows "\<exists>sc. eval_arguments api key order opn (e, m, t) =
    (if Arg_token \<in> set order then opn\<lparr>op_confirmationTokenScratchpad := sc\<rparr> else opn,
     if Arg_error \<in> set order then OK else e,
     if Arg_message \<in> set order then getMessage opn else m,
     if Arg_token \<in> set order then hmac key (confirmation_token @ getMessage opn) else t)"
  using assms(2)
proof (induction order arbitrary: opn e m t)
  case (Cons a order)
  show ?case
  proof (cases a)
    case Arg_token
    define opn' where "opn' = opn\<lparr>op_confirmationTokenScratchpad := Some (hmac key (confirmation_token @ getMessage opn))\<rparr>"
    have "userConfirm api key opn = (opn', hmac key (confirmation_token @ getMessage opn))"
      using assms(1) Cons.prems by (simp add: userConfirm_def is_hmac_def opn'_def)
    moreover have "op_error opn' = OK" "getMessage opn' = getMessage opn"
      using Cons.prems by (simp_all add: opn'_def getMessage_def)
    ultimately show ?thesis using Cons.IH [of opn' e m "hmac key (confirmation_token @ getMessage opn)"] Arg_token
      by (auto simp: opn'_def)
  next
    case Arg_error
    then show ?thesis using Cons.IH [OF Cons.prems, of OK m t] Cons.prems by auto
  next
    case Arg_message
    then show ?thesis using Cons.IH [OF Cons.prems, of e "getMessage opn" t] by auto
  qed
qed simp

lemma eval_refused:
  assumes "op_error opn \<noteq> OK"
  shows "eval_arguments api key order opn (e, [], []) = (opn, if Arg_error \<in> set order then op_error opn else e, [], [])"
proof (induction order arbitrary: e)
  case (Cons a order)
  then show ?case using assms by (cases a) (simp_all add: getMessage_def userConfirm_def)
qed simp

lemma finalize_pending:
  assumes "is_hmac api hmac" "is_order order" "op_resultCB opn = Some cb" "op_error opn = OK"
  shows "\<exists>opn'. finalize api order key opn =
      Some (opn', [(cb, OK, getMessage opn, hmac key (confirmation_token @ getMessage opn))]) \<and>
    op_error opn' = Ignored \<and> (op_ok opn \<longrightarrow> op_ok opn')"
proof -
  obtain sc where "eval_arguments api key order opn (OK, [], []) =
      (opn\<lparr>op_confirmationTokenScratchpad := sc\<rparr>, OK, getMessage opn, hmac key (confirmation_token @ getMessage opn))"
    using eval_confirmed [OF assms(1,4), of key order OK "[]" "[]"] assms(2) by (auto simp: is_order_def)
  then show ?thesis using assms(3,4) by (simp add: finalize_def op_ok_def)
qed

lemma finalize_canceled:
  assumes "is_order order" "op_resultCB opn = Some cb" "op_error opn = Canceled"
  shows "\<exists>opn'. finalize api order key opn = Some (opn', [(cb, Canceled, [], [])]) \<and>
    op_error opn' = Ignored \<and> (op_ok opn \<longrightarrow> op_ok opn')"
proof -
  have "eval_arguments api key order opn (OK, [], []) = (opn, Canceled, [], [])"
    using eval_refused [of opn api key order OK] assms by (simp add: is_order_def)
  then show ?thesis using assms(2,3) by (simp add: finalize_def op_ok_def)
qed

lemma finalize_crash: "op_resultCB opn = None \<Longrightarrow> op_error opn \<noteq> Ignored \<Longrightarrow> finalize api order key opn = None"
  by (simp add: finalize_def)

lemma finalize_idle: "op_error opn = Ignored \<Longrightarrow> finalize api order key opn = Some (opn, [])"
  by (simp add: finalize_def)

lemma same_bytes_iff: "length ls = length rs \<Longrightarrow> same_bytes ls rs \<longleftrightarrow> ls = rs"
  by (induction ls rs rule: list_induct2) simp_all

lemma ByteBufferProxy_eq_iff: "ByteBufferProxy_eq ls rs \<longleftrightarrow> length ls \<noteq> length rs \<or> ls = rs"
  by (simp add: ByteBufferProxy_eq_def same_bytes_iff)

lemma token_checked: "is_hmac api hmac \<Longrightarrow> \<exists>h. hmac256 api test_key (token_buffers tok) = Some h \<and>
    (ByteBufferProxy_eq h (mac tok) \<longleftrightarrow> accepts hmac tok)"
  by (auto simp: is_hmac_def ByteBufferProxy_eq_iff accepts_def)

subsection \<open>The service implements the specification\<close>

fun represents :: "operation \<Rightarrow> ui \<Rightarrow> bool" where
  "represents opn Idle \<longleftrightarrow> op_ok opn \<and> op_error opn = Ignored"
| "represents opn (Pending cb text extra) \<longleftrightarrow> op_ok opn \<and> op_error opn = OK \<and> op_resultCB opn = cb \<and>
     getMessage opn = encode (confirm_message text extra)"

fun same_step :: "(operation \<times> result list \<times> ResponseCode) option \<Rightarrow> (ui \<times> result list \<times> ResponseCode) option \<Rightarrow> bool" where
  "same_step None None \<longleftrightarrow> True"
| "same_step (Some (opn, out)) (Some (ui, out')) \<longleftrightarrow> represents opn ui \<and> out = out'"
| "same_step _ _ \<longleftrightarrow> False"

lemma prompt_step:
  assumes "represents opn ui" "length extra < 2 ^ 64"
  shows "same_step (ui_call api order (Prompt cb text extra loc opts clock) opn)
    (spec_call hmac (Prompt cb text extra loc opts clock) ui)"
proof (cases ui)
  case Idle
  then obtain opn' where opn': "init cb text extra loc opts clock opn = Some (opn', prompt_reply text extra clock)"
      "op_ok opn'" "op_error opn' = Ignored" "op_resultCB opn' = cb"
      "prompt_reply text extra clock = OK \<Longrightarrow> getMessage (setPending opn') = encode (confirm_message text extra)"
    using init_exact [of opn extra cb "text" loc opts clock] assms by auto
  then have "op_ok (setPending opn')" "op_error (setPending opn') = OK" "op_resultCB (setPending opn') = cb"
    by (simp_all add: setPending_def op_ok_def)
  then show ?thesis using opn' Idle by (simp add: promptUserConfirmation_def Let_def)
next
  case (Pending cb' msg extra')
  then show ?thesis using assms(1)
    by (auto simp: promptUserConfirmation_def init_def op_ok_def getMessage_def)
qed

lemma deliver_step:
  assumes "is_hmac api hmac" "is_order order" "represents opn ui"
  shows "same_step (ui_call api order (Deliver tok) opn) (spec_call hmac (Deliver tok) ui)"
proof -
  obtain h where h: "hmac256 api test_key (token_buffers tok) = Some h"
      "ByteBufferProxy_eq h (mac tok) \<longleftrightarrow> accepts hmac tok"
    using token_checked [OF assms(1)] by blast
  show ?thesis
  proof (cases ui)
    case Idle
    then show ?thesis using assms(3) h
      by (simp add: op_deliverSecureInputEvent_def isPending_def userCancel_def finalize_idle Let_def)
  next
    case (Pending cb msg extra)
    then have opn: "op_ok opn" "op_error opn = OK" "op_resultCB opn = cb" "getMessage opn = encode (confirm_message msg extra)"
      using assms(3) by simp_all
    define canceled where "canceled = opn\<lparr>op_error := Canceled\<rparr>"
    have cancel: "userCancel opn = canceled" "op_error canceled = Canceled" "op_resultCB canceled = cb" "op_ok canceled"
      using opn by (simp_all add: userCancel_def isPending_def canceled_def op_ok_def)
    show ?thesis
    proof (cases cb)
      case None
      then show ?thesis using h opn cancel Pending
        by (simp add: op_deliverSecureInputEvent_def isPending_def finalize_crash report_def Let_def)
    next
      case (Some c)
      then show ?thesis
        using h opn cancel Pending finalize_pending [OF assms(1,2), of opn c test_key]
          finalize_canceled [OF assms(2), of canceled c api test_key]
        by (auto simp: op_deliverSecureInputEvent_def isPending_def report_def Let_def)
    qed
  qed
qed

lemma abort_step:
  assumes "represents opn ui"
  shows "same_step (ui_call api order Abort_call opn) (spec_call hmac Abort_call ui)"
proof (cases ui)
  case Idle
  then show ?thesis using assms by (simp add: service_abort_def op_abort_def isPending_def finalize_idle)
next
  case (Pending cb msg extra)
  then show ?thesis using assms
    by (cases cb) (simp_all add: service_abort_def op_abort_def isPending_def finalize_idle report_def op_ok_def)
qed

lemma step_refines:
  assumes "is_hmac api hmac" "is_order order" "represents opn ui" "sizes_ok c"
  shows "same_step (ui_call api order c opn) (spec_call hmac c ui)"
  using assms prompt_step deliver_step abort_step by (cases c) (simp_all del: ui_call.simps)

lemma runs_related:
  assumes "is_hmac api hmac" "is_order order" "represents opn ui" "\<forall>c \<in> set cs. sizes_ok c"
  shows "rel_option (\<lambda>(opn, out) (ui, out'). represents opn ui \<and> out = out') (ui_run api order cs opn) (spec_run hmac cs ui)"
  using assms(3,4)
proof (induction cs arbitrary: opn ui)
  case (Cons c cs)
  have step: "same_step (ui_call api order c opn) (spec_call hmac c ui)"
    using step_refines [OF assms(1,2) Cons.prems(1)] Cons.prems(2) by simp
  show ?case
  proof (cases "spec_call hmac c ui")
    case None
    then show ?thesis using step by (cases "ui_call api order c opn") auto
  next
    case (Some r)
    then obtain ui' rs reply where r: "spec_call hmac c ui = Some (ui', rs, reply)" by (cases r) auto
    then obtain opn' where o: "ui_call api order c opn = Some (opn', rs, reply)" "represents opn' ui'"
      using step by (cases "ui_call api order c opn") auto
    have "rel_option (\<lambda>(opn, out) (ui, out'). represents opn ui \<and> out = out')
        (ui_run api order cs opn') (spec_run hmac cs ui')"
      using Cons.IH [OF o(2)] Cons.prems(2) by simp
    then show ?thesis using r o(1)
      by (cases "ui_run api order cs opn'"; cases "spec_run hmac cs ui'") auto
  qed
qed simp

lemma run_refines:
  assumes "is_hmac api hmac" "is_order order" "represents opn ui" "\<forall>c \<in> set cs. sizes_ok c"
  shows "map_option snd (ui_run api order cs opn) = map_option snd (spec_run hmac cs ui)"
  using runs_related [OF assms] by (cases "ui_run api order cs opn"; cases "spec_run hmac cs ui") auto

lemma new_represents: "represents new_operation Idle"
  by (simp add: new_operation_def op_ok_def)

text \<open>
  C30: The confirmation UI service implements its specification: over every sequence of calls, whatever
  the arguments, the callbacks and replies are those of the machine that is idle or has one prompt
  pending; in particular an OK result carries the CBOR message of the pending prompt and the HMAC of
  that message, whatever order the compiler evaluates the arguments in.
\<close>
theorem confirmation_refines_specification:
  assumes "is_hmac api hmac" "is_order order" "\<forall>c \<in> set cs. sizes_ok c"
  shows "map_option snd (ui_run api order cs new_operation) = map_option snd (spec_run hmac cs Idle)"
  by (rule run_refines [OF assms(1,2) new_represents assms(3)])

text \<open>The prompts a run of calls accepted.\<close>

fun named :: "call \<Rightarrow> bool" where
  "named (Prompt cb _ _ _ _ _) \<longleftrightarrow> cb \<noteq> None"
| "named _ \<longleftrightarrow> True"

fun accepted :: "call list \<Rightarrow> (result list \<times> ResponseCode) list \<Rightarrow> nat" where
  "accepted (Prompt cb _ _ _ _ _ # cs) ((_, reply) # out) = (if reply = OK then 1 else 0) + accepted cs out"
| "accepted (_ # cs) (_ # out) = accepted cs out"
| "accepted _ _ = 0"

definition waiting :: "ui \<Rightarrow> nat" where
  "waiting ui = (if ui = Idle then 0 else 1)"

fun can_report :: "ui \<Rightarrow> bool" where
  "can_report Idle \<longleftrightarrow> True"
| "can_report (Pending cb _ _) \<longleftrightarrow> cb \<noteq> None"

lemma spec_call_counts:
  assumes "named c" "can_report ui"
  shows "\<exists>ui' rs reply. spec_call hmac c ui = Some (ui', rs, reply) \<and> can_report ui' \<and>
    length rs + waiting ui' = waiting ui + accepted [c] [(rs, reply)]"
  using assms
  by (cases c; cases ui) (auto simp: Let_def report_def waiting_def)

lemma accepted_Cons: "accepted (c # cs) (r # out) = accepted [c] [r] + accepted cs out"
  by (cases c; cases r) auto

lemma spec_run_counts:
  assumes "\<forall>c \<in> set cs. named c" "can_report ui"
  shows "\<exists>ui' out. spec_run hmac cs ui = Some (ui', out) \<and>
    length (concat (map fst out)) + waiting ui' = waiting ui + accepted cs out"
  using assms
proof (induction cs arbitrary: ui)
  case (Cons c cs)
  then obtain ui' rs reply where c: "spec_call hmac c ui = Some (ui', rs, reply)" "can_report ui'"
      "length rs + waiting ui' = waiting ui + accepted [c] [(rs, reply)]"
    using spec_call_counts [of c ui hmac] by auto
  moreover obtain ui'' out where "spec_run hmac cs ui' = Some (ui'', out)"
      "length (concat (map fst out)) + waiting ui'' = waiting ui' + accepted cs out"
    using Cons.IH [OF _ c(2)] Cons.prems(1) by auto
  ultimately show ?case using accepted_Cons [of c cs "(rs, reply)" out] by simp
qed simp

text \<open>
  The calls that end a pending prompt, with the code they report: an abort, and a secure input event that
  is believed and says OK or cancel.
\<close>

fun outcome :: "(u8 list \<Rightarrow> u8 list \<Rightarrow> u8 list) \<Rightarrow> call \<Rightarrow> ResponseCode option" where
  "outcome hmac (Prompt _ _ _ _ _ _) = None"
| "outcome hmac Abort_call = Some Aborted"
| "outcome hmac (Deliver tok) =
     (if accepts hmac tok \<and> challenge tok = 0 then Some OK
      else if accepts hmac tok \<and> challenge tok = 1 then Some Canceled else None)"

fun caller :: "call \<Rightarrow> nat option" where
  "caller (Prompt cb _ _ _ _ _) = cb"
| "caller _ = None"

text \<open>
  What happens to an accepted prompt of the callback \<open>cb\<close> in the calls after it. Nothing is reported up to
  the first call that ends it; that call reports its code, once, to \<open>cb\<close>. If there is none, the prompt is
  pending at the end. The exception is a refused prompt in between: its caller takes the place of \<open>cb\<close>.
\<close>

fun resolved :: "(u8 list \<Rightarrow> u8 list \<Rightarrow> u8 list) \<Rightarrow> nat \<Rightarrow> bool \<Rightarrow> call list \<Rightarrow>
    (result list \<times> ResponseCode) list \<Rightarrow> bool" where
  "resolved hmac cb still_pending (c # cs) ((rs, reply) # out) \<longleftrightarrow>
     (case outcome hmac c of
        Some code \<Rightarrow> map (\<lambda>(to, e, m, t). (to, e)) rs = [(cb, code)]
      | None \<Rightarrow> rs = [] \<and>
          resolved hmac (case caller c of Some b \<Rightarrow> if reply = OperationPending then b else cb | None \<Rightarrow> cb)
            still_pending cs out)"
| "resolved hmac cb still_pending _ _ \<longleftrightarrow> still_pending"

lemma pending_resolved:
  "spec_run hmac cs (Pending (Some cb) msg extra) = Some (ui, out) \<Longrightarrow> \<forall>c \<in> set cs. named c \<Longrightarrow>
   resolved hmac cb (ui \<noteq> Idle) cs out"
proof (induction cs arbitrary: cb out)
  case (Cons c cs)
  show ?case
  proof (cases c)
    case (Prompt b x1 x2 x3 x4 x5)
    then obtain b' where "b = Some b'" using Cons.prems(2) by auto
    then show ?thesis
      using Cons.IH [of b'] Cons.prems Prompt by (auto split: bind_splits)
  qed (use Cons in \<open>auto simp: report_def Let_def split: if_splits bind_splits\<close>)
qed auto

lemma prompts_resolved:
  "spec_run hmac cs ui = Some (ui', out) \<Longrightarrow> \<forall>c \<in> set cs. named c \<Longrightarrow>
   j < length cs \<Longrightarrow> caller (cs ! j) = Some cb \<Longrightarrow> snd (out ! j) = OK \<Longrightarrow>
   resolved hmac cb (ui' \<noteq> Idle) (drop (Suc j) cs) (drop (Suc j) out)"
proof (induction cs arbitrary: ui out j)
  case (Cons c cs)
  obtain ui1 rs reply out' where c: "spec_call hmac c ui = Some (ui1, rs, reply)"
      "spec_run hmac cs ui1 = Some (ui', out')" "out = (rs, reply) # out'"
    using Cons.prems(1) by (auto split: bind_splits)
  show ?case
  proof (cases j)
    case 0
    then obtain x1 x2 x3 x4 x5 where "c = Prompt (Some cb) x1 x2 x3 x4 x5" using Cons.prems(4) by (cases c) auto
    moreover have "reply = OK" using Cons.prems(5) c(3) 0 by simp
    ultimately have "ui1 = Pending (Some cb) x1 x2" using c(1) by (cases ui) (auto simp: Let_def)
    then show ?thesis using pending_resolved [of hmac cs cb x1 x2 ui' out'] c(2,3) 0 Cons.prems(2) by simp
  next
    case (Suc j')
    then show ?thesis using Cons.IH [OF c(2), of j'] Cons.prems c(3) by simp
  qed
qed simp

text \<open>
  C31: Every accepted prompt gets exactly one result, and its own. Over every sequence of calls with
  callbacks that are not null the service does not crash. The first call after an accepted prompt that
  ends it (an abort, or a believed confirm or cancel event) reports the code of that call, once, to the
  callback of that prompt; nothing is reported before; without such a call the prompt is still pending.
  No other result is reported: the results and the prompt still pending are as many as the accepted
  prompts. The one exception is that a prompt refused in between takes the result for its own callback.
\<close>
theorem one_result_per_prompt:
  assumes "is_hmac api hmac" "is_order order" "\<forall>c \<in> set cs. sizes_ok c \<and> named c"
  shows "\<exists>opn out. ui_run api order cs new_operation = Some (opn, out) \<and>
    (\<forall>j < length cs. \<forall>cb. caller (cs ! j) = Some cb \<and> snd (out ! j) = OK \<longrightarrow>
       resolved hmac cb (isPending opn) (drop (Suc j) cs) (drop (Suc j) out)) \<and>
    length (concat (map fst out)) + (if isPending opn then 1 else 0) = accepted cs out"
proof -
  obtain ui out where spec: "spec_run hmac cs Idle = Some (ui, out)"
      "length (concat (map fst out)) + waiting ui = waiting Idle + accepted cs out"
    using spec_run_counts [of cs Idle hmac] assms(3) by auto
  have "rel_option (\<lambda>(opn, out) (ui, out'). represents opn ui \<and> out = out')
      (ui_run api order cs new_operation) (spec_run hmac cs Idle)"
    using runs_related [OF assms(1,2) new_represents, of cs] assms(3) by blast
  then obtain opn where opn: "ui_run api order cs new_operation = Some (opn, out)" "represents opn ui"
    using spec(1) by (cases "ui_run api order cs new_operation") auto
  then have p: "isPending opn \<longleftrightarrow> ui \<noteq> Idle" by (cases ui) (simp_all add: isPending_def)
  have "resolved hmac cb (isPending opn) (drop (Suc j) cs) (drop (Suc j) out)"
    if "j < length cs" "caller (cs ! j) = Some cb" "snd (out ! j) = OK" for j cb
    unfolding p using prompts_resolved [OF spec(1) _ that] assms(3) by blast
  then show ?thesis using spec(2) opn(1) p by (auto simp: waiting_def)
qed

text \<open>
  C32: A prompt that is refused still takes the result: while a prompt is pending, another one is
  answered OperationPending but its callback replaces the first, so the first client never hears of
  its prompt; and when the refused callback is null, the end of the pending prompt crashes the service.
\<close>
theorem refused_prompt_takes_callback:
  assumes "represents opn (Pending (Some a) msg extra)"
  shows "(\<exists>opn' opn''. ui_call api order (Prompt (Some b) msg' extra' loc opts clock) opn = Some (opn', [], OperationPending) \<and>
      ui_call api order Abort_call opn' = Some (opn'', [(b, Aborted, [], [])], OK) \<and> \<not> isPending opn'') \<and>
    (\<exists>opn'. ui_call api order (Prompt None msg' extra' loc opts clock) opn = Some (opn', [], OperationPending) \<and>
      ui_call api order Abort_call opn' = None)"
  using assms
  by (simp add: promptUserConfirmation_def init_def service_abort_def op_abort_def isPending_def finalize_idle Let_def)

text \<open>
  A secure input event is believed when its code has the wrong length: the comparison of two
  buffers answers true when their sizes differ, so a token with, for example, an empty code and the
  challenge 0 confirms the pending prompt; only codes of 32 bytes are compared.
\<close>
theorem wrong_length_code_confirms:
  assumes "is_hmac api hmac" "is_order order" "represents opn (Pending (Some cb) msg extra)" "challenge tok = 0"
  shows "\<exists>opn' rs reply. ui_call api order (Deliver tok) opn = Some (opn', rs, reply) \<and>
    (if length (mac tok) = 32 \<and> mac tok \<noteq> hmac test_key (concat (token_buffers tok))
     then rs = [] \<and> reply = Ignored \<and> isPending opn'
     else rs = [(cb, OK, encode (confirm_message msg extra),
                 hmac test_key (confirmation_token @ encode (confirm_message msg extra)))] \<and>
          reply = OK \<and> \<not> isPending opn')"
proof -
  have step: "same_step (ui_call api order (Deliver tok) opn) (spec_call hmac (Deliver tok) (Pending (Some cb) msg extra))"
    by (rule deliver_step [OF assms(1-3)])
  show ?thesis
  proof (cases "accepts hmac tok")
    case True
    then show ?thesis using step assms(4)
      by (cases "ui_call api order (Deliver tok) opn") (auto simp: accepts_def report_def isPending_def Let_def)
  next
    case False
    then show ?thesis using step
      by (cases "ui_call api order (Deliver tok) opn") (auto simp: accepts_def isPending_def)
  qed
qed

text \<open>
  What is reported when the HMAC fails depends on the compiler: the code is OK if it is evaluated before
  the token, although there is no token, and Unexpected after it; the message is there or not likewise.
\<close>
definition precedes :: "argument list \<Rightarrow> argument \<Rightarrow> argument \<Rightarrow> bool" where
  "precedes order a b \<longleftrightarrow> a \<in> set (takeWhile (\<lambda>x. x \<noteq> b) order)"

lemma is_order_cases:
  assumes "is_order order"
  shows "order \<in> {[Arg_error, Arg_message, Arg_token], [Arg_error, Arg_token, Arg_message],
    [Arg_message, Arg_error, Arg_token], [Arg_message, Arg_token, Arg_error],
    [Arg_token, Arg_error, Arg_message], [Arg_token, Arg_message, Arg_error]}"
proof -
  have "length order = 3" using assms distinct_card [of order] by (simp add: is_order_def)
  then obtain a b c where order: "order = [a, b, c]" by (auto simp: length_Suc_conv numeral_3_eq_3)
  show ?thesis using assms unfolding order is_order_def by (cases a; cases b; cases c) auto
qed

lemma hmac_failure_depends_on_order:
  assumes "hmac256 api key [confirmation_token, getMessage opn] = None" "is_order order"
    and "op_error opn = OK" "op_resultCB opn = Some cb"
  shows "map_option snd (finalize api order key opn) =
    Some [(cb, if precedes order Arg_error Arg_token then OK else Unexpected,
           if precedes order Arg_message Arg_token then getMessage opn else [], [])]"
  using is_order_cases [OF assms(2)] assms(1,3,4)
  by (elim insertE emptyE)
    (simp_all add: finalize_def userConfirm_def getMessage_def precedes_def)

subsection \<open>Witnesses\<close>

text \<open>A function with the documented behaviour of an HMAC: it fixes the key and collects the bytes.\<close>

definition toy_hmac :: "u8 list \<Rightarrow> u8 list \<Rightarrow> u8 list" where
  "toy_hmac key bs = take 32 (key @ bs @ replicate 32 0)"

definition toy_api :: "(u8 list \<times> u8 list) hmac_api" where
  "toy_api = \<lparr>HMAC_Init_ex = (\<lambda>key. Some (key, [])), HMAC_Update = (\<lambda>(key, bs) b. Some (key, bs @ b)),
     HMAC_Final = (\<lambda>(key, bs). Some (toy_hmac key bs))\<rparr>"

lemma toy_updates: "hmac_updates toy_api (key, bs) buffers = Some (key, bs @ concat buffers)"
  by (induction buffers arbitrary: bs) (simp_all add: toy_api_def)

lemma toy_is_hmac: "is_hmac toy_api toy_hmac"
proof -
  have "HMAC_Init_ex toy_api key = Some (key, [])" "HMAC_Final toy_api (key, bs) = Some (toy_hmac key bs)"
    "length (toy_hmac key bs) = 32" for key bs
    by (simp_all add: toy_api_def toy_hmac_def)
  then show ?thesis by (simp add: is_hmac_def hmac256_def toy_updates)
qed

definition test_order :: "argument list" where
  "test_order = [Arg_token, Arg_message, Arg_error]"

lemma test_is_order: "is_order test_order"
  by (auto simp: is_order_def test_order_def)

definition yes :: HardwareAuthToken where
  "yes = no_token\<lparr>mac := [1]\<rparr>"

text \<open>Prompt, another prompt, a confirmation.\<close>

definition test_calls :: "call list" where
  "test_calls = [Prompt (Some 1) [0x68, 0x69] [7] [] [] (Some (5, 0)), Prompt (Some 2) [0x6F] [] [] [] None, Deliver yes]"

definition test_message :: "u8 list" where
  "test_message = [0xA2, 0x66] @ prompt_key @ [0x62, 0x68, 0x69, 0x65] @ extra_key @ [0x41, 7]"

lemma test_message: "encode (confirm_message [0x68, 0x69] [7]) = test_message"
  by (simp add: encode_confirm test_message_def) (simp add: head_def)

lemma test_reply: "prompt_reply [0x68, 0x69] [7] (Some (5, 0)) = OK"
proof -
  have "length (encode (confirm_message [0x68, 0x69] [7])) \<le> MessageSize_MAX"
    unfolding test_message by (simp add: test_message_def key_lengths MessageSize_MAX_def)
  then show ?thesis by (simp add: prompt_reply_def utf8_ok.intros MessageSize_MAX_def)
qed

lemma test_accepts: "accepts toy_hmac yes"
  by (simp add: accepts_def yes_def no_token_def)

lemma test_spec: "spec_run toy_hmac test_calls Idle = Some (Idle,
    [([], OK), ([], OperationPending),
     ([(2, OK, test_message, toy_hmac test_key (confirmation_token @ test_message))], OK)])"
  using test_accepts
  by (simp add: test_calls_def test_reply report_def test_message Let_def) (simp add: yes_def no_token_def)

theorem confirmation_refines_specification_witness:
  "map_option snd (ui_run toy_api test_order test_calls new_operation) = Some
    [([], OK), ([], OperationPending),
     ([(2, OK, test_message, toy_hmac test_key (confirmation_token @ test_message))], OK)]"
proof -
  have "\<forall>c \<in> set test_calls. sizes_ok c" by (simp add: test_calls_def)
  from confirmation_refines_specification [OF toy_is_hmac test_is_order this] show ?thesis by (simp add: test_spec)
qed

text \<open>Two prompts, one confirmed and one cancelled, and an abort that finds nothing.\<close>

definition cancelling :: HardwareAuthToken where
  "cancelling = no_token\<lparr>challenge := 1, mac := [1]\<rparr>"

definition two_prompts :: "call list" where
  "two_prompts = [Prompt (Some 1) [0x68, 0x69] [7] [] [] (Some (5, 0)), Deliver yes,
     Prompt (Some 3) [0x68, 0x69] [7] [] [] (Some (6, 0)), Deliver cancelling, Abort_call]"

theorem one_result_per_prompt_witness:
  "\<exists>opn r1 r2 r3 r4 r5. ui_run toy_api test_order two_prompts new_operation = Some (opn, [r1, r2, r3, r4, r5]) \<and>
     map (\<lambda>(to, e, m, t). (to, e)) (fst r2) = [(1, OK)] \<and> map (\<lambda>(to, e, m, t). (to, e)) (fst r4) = [(3, Canceled)] \<and>
     length (fst r5) = 0"
proof -
  have acc: "accepts toy_hmac yes" "accepts toy_hmac cancelling" "challenge yes = 0" "challenge cancelling = 1"
    by (simp_all add: accepts_def yes_def cancelling_def no_token_def)
  have r3: "prompt_reply [0x68, 0x69] [7] (Some (6, 0)) = OK" using test_reply by (simp add: prompt_reply_def split: if_splits)
  have spec: "map_option (map snd) (map_option snd (spec_run toy_hmac two_prompts Idle)) = Some [OK, OK, OK, OK, OK]"
    using acc by (simp add: two_prompts_def test_reply r3 report_def Let_def)
  have sizes: "\<forall>c \<in> set two_prompts. sizes_ok c \<and> named c" by (simp add: two_prompts_def)
  obtain opn out where out: "ui_run toy_api test_order two_prompts new_operation = Some (opn, out)"
      "\<And>j cb. j < length two_prompts \<Longrightarrow> caller (two_prompts ! j) = Some cb \<Longrightarrow> snd (out ! j) = OK \<Longrightarrow>
         resolved toy_hmac cb (isPending opn) (drop (Suc j) two_prompts) (drop (Suc j) out)"
      "length (concat (map fst out)) + (if isPending opn then 1 else 0) = accepted two_prompts out"
    using one_result_per_prompt [OF toy_is_hmac test_is_order sizes] by blast
  have "map_option snd (ui_run toy_api test_order two_prompts new_operation) = map_option snd (spec_run toy_hmac two_prompts Idle)"
    by (rule run_refines [OF toy_is_hmac test_is_order new_represents]) (use sizes in blast)
  then have "map_option snd (spec_run toy_hmac two_prompts Idle) = Some out" unfolding out(1) by simp
  then have "map snd out = [OK, OK, OK, OK, OK]" using spec by (simp only: option.map option.inject)
  then obtain r1 r2 r3 r4 r5 where o: "out = [r1, r2, r3, r4, r5]" "snd r1 = OK" "snd r2 = OK" "snd r3 = OK" "snd r4 = OK"
    by (auto simp: map_eq_Cons_conv)
  have "resolved toy_hmac 1 (isPending opn) (drop 1 two_prompts) [r2, r3, r4, r5]"
      "resolved toy_hmac 3 (isPending opn) (drop 3 two_prompts) [r4, r5]"
    using out(2) [of 0 1] out(2) [of 2 3] o by (simp_all add: two_prompts_def numeral_2_eq_2 numeral_3_eq_3)
  then have res: "map (\<lambda>(to, e, m, t). (to, e)) (fst r2) = [(1, OK)]" "map (\<lambda>(to, e, m, t). (to, e)) (fst r4) = [(3, Canceled)]"
    using acc by (cases r2; cases r4; simp add: two_prompts_def numeral_3_eq_3)+
  have "accepted two_prompts out = 2" using o by (cases r1; cases r3) (simp add: two_prompts_def)
  then have "length (fst r5) = 0"
    using res out(3) o(1) by (auto dest!: arg_cong [of "map _ _" _ length] split: if_splits)
  moreover have "ui_run toy_api test_order two_prompts new_operation = Some (opn, [r1, r2, r3, r4, r5])"
    using out(1) o(1) by simp
  ultimately show ?thesis using res by (intro exI conjI)
qed

text \<open>The operation after a prompt.\<close>

lemma some_pending: "\<exists>opn. represents opn (Pending (Some 1) [0x68, 0x69] [7])"
proof -
  have "same_step (ui_call toy_api test_order (hd test_calls) new_operation) (spec_call toy_hmac (hd test_calls) Idle)"
    by (rule step_refines [OF toy_is_hmac test_is_order new_represents]) (simp add: test_calls_def)
  then show ?thesis
    by (cases "ui_call toy_api test_order (hd test_calls) new_operation") (auto simp: test_calls_def test_reply Let_def)
qed

theorem refused_prompt_takes_callback_witness:
  "\<exists>opn opn' opn''. represents opn (Pending (Some 1) [0x68, 0x69] [7]) \<and>
     ui_call toy_api test_order (Prompt (Some 2) [] [] [] [] None) opn = Some (opn', [], OperationPending) \<and>
     ui_call toy_api test_order Abort_call opn' = Some (opn'', [(2, Aborted, [], [])], OK)"
  using some_pending refused_prompt_takes_callback [of _ 1 "[0x68, 0x69]" "[7]" toy_api test_order 2 "[]" "[]" "[]" "[]" None]
  by blast

theorem wrong_length_code_confirms_witness:
  "\<exists>opn opn' rs. represents opn (Pending (Some 1) [0x68, 0x69] [7]) \<and>
     ui_call toy_api test_order (Deliver yes) opn = Some (opn', rs, OK) \<and> length (mac yes) = 1"
proof -
  obtain opn where opn: "represents opn (Pending (Some 1) [0x68, 0x69] [7])" using some_pending ..
  have "challenge yes = 0" "length (mac yes) = 1" by (simp_all add: yes_def no_token_def)
  then show ?thesis using wrong_length_code_confirms [OF toy_is_hmac test_is_order opn, of yes] opn by auto
qed

end
