(* ===== verification/StdSort.thy ===== *)
theory StdSort
  imports Main "HOL-Library.Multiset"
begin

text \<open>
  What the models rely on of \<open>std::sort\<close>, which is a parameter of the functions that call it: elements that
  are equal in the order may come out in any order.
\<close>

type_synonym 'a sorter = "('a \<Rightarrow> 'a \<Rightarrow> bool) \<Rightarrow> 'a list \<Rightarrow> 'a list"

text \<open>
  What is assumed of \<open>std::sort\<close>: where the comparison is a strict weak order on the elements, it permutes
  them into that order.
\<close>

definition strict_weak_on :: "'a set \<Rightarrow> ('a \<Rightarrow> 'a \<Rightarrow> bool) \<Rightarrow> bool" where
  "strict_weak_on A lt \<longleftrightarrow> (\<forall>a \<in> A. \<not> lt a a) \<and> (\<forall>a \<in> A. \<forall>b \<in> A. \<forall>c \<in> A. lt a b \<longrightarrow> lt b c \<longrightarrow> lt a c) \<and>
     (\<forall>a \<in> A. \<forall>b \<in> A. \<forall>c \<in> A. \<not> lt a b \<and> \<not> lt b a \<longrightarrow> \<not> lt b c \<and> \<not> lt c b \<longrightarrow> \<not> lt a c \<and> \<not> lt c a)"

definition is_std_sort :: "'a sorter \<Rightarrow> bool" where
  "is_std_sort std_sort \<longleftrightarrow> (\<forall>lt data. strict_weak_on (set data) lt \<longrightarrow>
     mset (std_sort lt data) = mset data \<and> sorted_wrt (\<lambda>a b. \<not> lt b a) (std_sort lt data))"

lemma strict_weak_onI:
  "(\<And>a b. a \<in> A \<Longrightarrow> b \<in> A \<Longrightarrow> lt a b \<longleftrightarrow> f a < f b) \<Longrightarrow> strict_weak_on A lt" for f :: "'a \<Rightarrow> 'b :: linorder"
  unfolding strict_weak_on_def by (auto dest: less_trans)

lemma is_std_sortD:
  assumes "is_std_sort std_sort" "strict_weak_on (set data) lt"
  shows "mset (std_sort lt data) = mset data" "sorted_wrt (\<lambda>a b. \<not> lt b a) (std_sort lt data)"
  using assms by (simp_all add: is_std_sort_def)

text \<open>An insertion sort shows that there is a sorter as assumed.\<close>

fun insert_by :: "('a \<Rightarrow> 'a \<Rightarrow> bool) \<Rightarrow> 'a \<Rightarrow> 'a list \<Rightarrow> 'a list" where
  "insert_by lt x [] = [x]"
| "insert_by lt x (y # ys) = (if lt y x then y # insert_by lt x ys else x # y # ys)"

definition insertion_sort :: "('a \<Rightarrow> 'a \<Rightarrow> bool) \<Rightarrow> 'a list \<Rightarrow> 'a list" where
  "insertion_sort lt xs = foldr (insert_by lt) xs []"

lemma mset_insert_by: "mset (insert_by lt x ys) = add_mset x (mset ys)"
  by (induction ys) auto

lemma set_insert_by: "set (insert_by lt x ys) = insert x (set ys)"
  by (induction ys) auto

lemma sorted_insert_by:
  assumes "strict_weak_on A lt" "insert x (set ys) \<subseteq> A" "sorted_wrt (\<lambda>a b. \<not> lt b a) ys"
  shows "sorted_wrt (\<lambda>a b. \<not> lt b a) (insert_by lt x ys)"
  using assms(2,3)
proof (induction ys)
  case (Cons y ys)
  have "\<not> lt z x" if "\<not> lt y x" "z \<in> set ys" for z
  proof -
    have "x \<in> A" "y \<in> A" "z \<in> A" "\<not> lt z y" using Cons.prems that(2) by auto
    then show ?thesis using assms(1) that(1) unfolding strict_weak_on_def by metis
  qed
  moreover have "\<not> lt x y" if "lt y x"
    using assms(1) that Cons.prems(1) unfolding strict_weak_on_def by (metis insert_subset list.set_intros(1) subsetD)
  ultimately show ?case using Cons by (auto simp: set_insert_by)
qed simp

lemma insertion_sort_sorts: "is_std_sort insertion_sort"
proof -
  have perm: "mset (insertion_sort lt xs) = mset xs" for lt :: "'a \<Rightarrow> 'a \<Rightarrow> bool" and xs
    by (induction xs) (auto simp: insertion_sort_def mset_insert_by)
  have "sorted_wrt (\<lambda>a b. \<not> lt b a) (insertion_sort lt xs)" if "strict_weak_on A lt" "set xs \<subseteq> A"
    for lt :: "'a \<Rightarrow> 'a \<Rightarrow> bool" and xs A
    using that(2)
  proof (induction xs)
    case (Cons x xs)
    have "set (insertion_sort lt xs) = set xs" using perm [of lt xs] by (rule mset_eq_setD)
    then show ?case using Cons sorted_insert_by [OF that(1), of x "insertion_sort lt xs"] by (simp add: insertion_sort_def)
  qed (simp add: insertion_sort_def)
  then show ?thesis using perm by (auto simp: is_std_sort_def)
qed

end
