(* ===== verification/KeyAuthorizations.thy ===== *)
theory KeyAuthorizations
  imports MsgFormat StdSort "HOL-Library.List_Lexorder" "HOL-Library.Product_Lexorder"
begin

text \<open>
  The authorization sets of the Keymaster support library
  (\<open>keymaster/4.0/support/authorization_set.cpp\<close> and \<open>.h\<close>, \<open>keymaster_tags.h\<close>): vectors of key
  parameters with set operations. The theory \<open>KeyFormat\<close> has the form they take in a file.

  A tag is its 32-bit value; the union of a parameter is its eight bytes as a little-endian number.
  \<open>std::sort\<close> is a parameter that is only assumed to sort, since equal parameters may come in any order.
  The arguments of \<open>Union\<close> and \<open>Subtract\<close> are other sets than the receiver, and a set has fewer
  than \<open>2 ^ 31\<close> entries, so that a position is an \<open>int\<close>.
\<close>

subsection \<open>Numbers in memory\<close>

lemma le_nat_append: "le_nat (bs @ cs) = le_nat bs + 256 ^ length bs * le_nat cs"
  by (induction bs) (simp_all add: le_nat_def algebra_simps)

lemma le_nat_less: "le_nat bs < 256 ^ length bs"
proof (induction bs)
  case (Cons b bs)
  have "unat b < 256" using unsigned_less [of b, where ?'a = nat] by simp
  then show ?case using Cons by (simp add: le_nat_def)
qed (simp add: le_nat_def)

subsection \<open>Tags and parameters\<close>

datatype TagType = INVALID | ENUM | ENUM_REP | UINT | UINT_REP | ULONG | DATE | BOOL | BIGNUM | BYTES | ULONG_REP

definition typeFromTag :: "u32 \<Rightarrow> TagType option" where
  "typeFromTag tag = map_of [(0, INVALID), (0x10000000, ENUM), (0x20000000, ENUM_REP), (0x30000000, UINT),
     (0x40000000, UINT_REP), (0x50000000, ULONG), (0x60000000, DATE), (0x70000000, BOOL), (0x80000000, BIGNUM),
     (0x90000000, BYTES), (0xa0000000, ULONG_REP)] (tag AND 0xf0000000)"

record KeyParameter =
  kp_tag :: u32
  kp_f :: "64 word"
  kp_blob :: "u8 list"

definition kp_integer :: "KeyParameter \<Rightarrow> u32" where
  "kp_integer p = ucast (kp_f p)"

text \<open>The tags that can be stored, in the order of \<open>all_tags_t\<close>; the first one is \<open>INVALID\<close>.\<close>

definition all_tags :: "u32 list" where
  "all_tags =
    [0x0, 0x30000003, 0x300003eb, 0x70000007, 0x30000008, 0x500000c8, 0x700000ca, 0x60000190,
     0x60000191, 0x60000192, 0x30000193, 0x30000194, 0x300001f5, 0xa00001f6, 0x700001f7, 0x300001f9,
     0x700001fa, 0x700001fd, 0x90000259, 0x900002bc, 0x600002bd, 0x7000012f, 0x10000130, 0x900002c0,
     0x900003e8, 0x900003e9, 0x7000012e, 0x300002c1, 0x300002c2, 0x900002c3, 0x900002c4, 0x900002c5,
     0x700003ec, 0x20000001, 0x10000002, 0x20000004, 0x20000005, 0x20000006, 0x1000012d, 0x100002be,
     0x100001f8, 0x1000000a, 0x300002cf, 0x300002ce, 0x700001fc, 0x700001fb]"

fun memcmp :: "u8 list \<Rightarrow> u8 list \<Rightarrow> nat \<Rightarrow> int" where
  "memcmp (x # xs) (y # ys) (Suc n) = (if x = y then memcmp xs ys n else int (unat x) - int (unat y))"
| "memcmp _ _ _ = 0"

definition blob_less :: "u8 list \<Rightarrow> u8 list \<Rightarrow> bool" where
  "blob_less a b =
     (if length a = 0 then length b \<noteq> 0
      else if length b = 0 then False
      else let retval = memcmp a b (min (length a) (length b)) in
        if retval = 0 then length a < length b else retval < 0)"

definition keyParamLess :: "KeyParameter \<Rightarrow> KeyParameter \<Rightarrow> bool" where
  "keyParamLess a b =
     (if kp_tag a \<noteq> kp_tag b then kp_tag a < kp_tag b
      else case typeFromTag (kp_tag a) of
        None \<Rightarrow> False
      | Some INVALID \<Rightarrow> False
      | Some BOOL \<Rightarrow> False
      | Some ENUM \<Rightarrow> kp_integer a < kp_integer b
      | Some ENUM_REP \<Rightarrow> kp_integer a < kp_integer b
      | Some UINT \<Rightarrow> kp_integer a < kp_integer b
      | Some UINT_REP \<Rightarrow> kp_integer a < kp_integer b
      | Some ULONG \<Rightarrow> kp_f a < kp_f b
      | Some ULONG_REP \<Rightarrow> kp_f a < kp_f b
      | Some DATE \<Rightarrow> kp_f a < kp_f b
      | Some BIGNUM \<Rightarrow> blob_less (kp_blob a) (kp_blob b)
      | Some BYTES \<Rightarrow> blob_less (kp_blob a) (kp_blob b))"

definition blob_equal :: "u8 list \<Rightarrow> u8 list \<Rightarrow> bool" where
  "blob_equal a b = (if length a \<noteq> length b then False else length a = 0 \<or> memcmp a b (length a) = 0)"

definition keyParamEqual :: "KeyParameter \<Rightarrow> KeyParameter \<Rightarrow> bool" where
  "keyParamEqual a b =
     (if kp_tag a \<noteq> kp_tag b then False
      else case typeFromTag (kp_tag a) of
        None \<Rightarrow> False
      | Some INVALID \<Rightarrow> True
      | Some BOOL \<Rightarrow> True
      | Some ENUM \<Rightarrow> kp_integer a = kp_integer b
      | Some ENUM_REP \<Rightarrow> kp_integer a = kp_integer b
      | Some UINT \<Rightarrow> kp_integer a = kp_integer b
      | Some UINT_REP \<Rightarrow> kp_integer a = kp_integer b
      | Some ULONG \<Rightarrow> kp_f a = kp_f b
      | Some ULONG_REP \<Rightarrow> kp_f a = kp_f b
      | Some DATE \<Rightarrow> kp_f a = kp_f b
      | Some BIGNUM \<Rightarrow> blob_equal (kp_blob a) (kp_blob b)
      | Some BYTES \<Rightarrow> blob_equal (kp_blob a) (kp_blob b))"

subsection \<open>The set operations\<close>

definition Sort :: "KeyParameter sorter \<Rightarrow> KeyParameter list \<Rightarrow> KeyParameter list" where
  "Sort std_sort data = std_sort keyParamLess data"

fun dedup_loop :: "KeyParameter list \<Rightarrow> KeyParameter list" where
  "dedup_loop [] = []"
| "dedup_loop [p] = [p]"
| "dedup_loop (p # q # rest) =
     (if kp_tag p = 0 then dedup_loop (q # rest)
      else if \<not> keyParamEqual p q then p # dedup_loop (q # rest)
      else dedup_loop (q # rest))"

definition Deduplicate :: "KeyParameter sorter \<Rightarrow> KeyParameter list \<Rightarrow> KeyParameter list" where
  "Deduplicate std_sort data = (if data = [] then [] else dedup_loop (Sort std_sort data))"

definition set_Union :: "KeyParameter sorter \<Rightarrow> KeyParameter list \<Rightarrow> KeyParameter list \<Rightarrow> KeyParameter list" where
  "set_Union std_sort other data = Deduplicate std_sort (data @ other)"

fun find_loop :: "u32 \<Rightarrow> nat \<Rightarrow> KeyParameter list \<Rightarrow> int" where
  "find_loop tag i [] = -1"
| "find_loop tag i (p # ps) = (if kp_tag p \<noteq> tag then find_loop tag (Suc i) ps else int i)"

definition find_tag :: "u32 \<Rightarrow> int \<Rightarrow> KeyParameter list \<Rightarrow> int" where
  "find_tag tag begin data = find_loop tag (nat (1 + begin)) (drop (nat (1 + begin)) data)"

lemma find_loop_range: "find_loop tag i ps = -1 \<or> (int i \<le> find_loop tag i ps \<and> find_loop tag i ps < int (i + length ps))"
  by (induction ps arbitrary: i) (auto, force+)

lemma find_tag_range: "find_tag tag begin data = -1 \<or> (begin < find_tag tag begin data \<and> 0 \<le> find_tag tag begin data \<and>
    find_tag tag begin data < int (length data))"
  using find_loop_range [of tag "nat (1 + begin)" "drop (nat (1 + begin)) data"]
  by (auto simp: find_tag_def of_nat_diff_if split: if_splits)

text \<open>The inner loop of \<open>Subtract\<close>: the first entry that equals the parameter is erased.\<close>

function remove_match :: "KeyParameter \<Rightarrow> int \<Rightarrow> KeyParameter list \<Rightarrow> KeyParameter list" where
  "remove_match p pos data =
     (let pos' = find_tag (kp_tag p) pos data in
      if pos' = -1 then data
      else if keyParamEqual p (data ! nat pos') then take (nat pos') data @ drop (Suc (nat pos')) data
      else remove_match p pos' data)"
  by auto
termination
proof (relation "measure (\<lambda>(p, pos, data). nat (int (length data) - pos))", goal_cases)
  case (2 p pos data pos')
  then show ?case using find_tag_range [of "kp_tag p" pos data] by auto
qed simp

declare remove_match.simps [simp del]

definition Subtract :: "KeyParameter sorter \<Rightarrow> KeyParameter list \<Rightarrow> KeyParameter list \<Rightarrow> KeyParameter list" where
  "Subtract std_sort other data = fold (\<lambda>p. remove_match p (-1)) other (Deduplicate std_sort data)"

definition Filter :: "(KeyParameter \<Rightarrow> bool) \<Rightarrow> KeyParameter list \<Rightarrow> KeyParameter list" where
  "Filter doKeep data = filter doKeep data"

definition erase :: "int \<Rightarrow> KeyParameter list \<Rightarrow> (KeyParameter list \<times> bool) option" where
  "erase index data =
     (if index < 0 \<or> int (length data) < index then None
      else if index < int (length data) then Some (take (nat index) data @ drop (Suc (nat index)) data, True)
      else Some (data, False))"

definition GetEntry :: "u32 \<Rightarrow> KeyParameter list \<Rightarrow> KeyParameter option" where
  "GetEntry tag data = (let pos = find_tag tag (-1) data in if pos = -1 then None else Some (data ! nat pos))"

definition Contains_tag :: "u32 \<Rightarrow> KeyParameter list \<Rightarrow> bool" where
  "Contains_tag tag data \<longleftrightarrow> find_tag tag (-1) data \<noteq> -1"

function tag_count :: "u32 \<Rightarrow> int \<Rightarrow> KeyParameter list \<Rightarrow> nat" where
  "tag_count tag pos data =
     (let pos' = find_tag tag pos data in if pos' \<noteq> -1 then Suc (tag_count tag pos' data) else 0)"
  by auto
termination
proof (relation "measure (\<lambda>(tag, pos, data). nat (int (length data) - pos))", goal_cases)
  case (2 tag pos data pos')
  then show ?case using find_tag_range [of tag pos data] by auto
qed simp

declare tag_count.simps [simp del]

definition GetTagCount :: "u32 \<Rightarrow> KeyParameter list \<Rightarrow> nat" where
  "GetTagCount tag data = tag_count tag (-1) data"

text \<open>Assigning an empty \<open>hidl_vec\<close> leaves the set as it was.\<close>

definition assign_hidl_vec :: "KeyParameter list \<Rightarrow> KeyParameter list \<Rightarrow> KeyParameter list" where
  "assign_hidl_vec other data = (if 0 < length other then other else data)"

text \<open>The other comparison of parameters, \<open>operator==\<close>, goes by the tags instead of their types.\<close>

definition key_parameter_eq :: "KeyParameter \<Rightarrow> KeyParameter \<Rightarrow> bool" where
  "key_parameter_eq a b =
     (if kp_tag a \<noteq> kp_tag b then False
      else if kp_tag a \<in> {0x0, 0x70000007, 0x700000ca, 0x7000012e, 0x700001f7, 0x700001fa, 0x700001fd, 0x7000012f,
        0x700003ec, 0x700001fc, 0x700001fb} then True
      else if kp_tag a \<in> {0x30000003, 0x30000008, 0x30000193, 0x30000194, 0x300002c1, 0x300002c2, 0x300003eb,
        0x300001f5, 0x300001f9, 0x300002ce, 0x300002cf} then kp_integer a = kp_integer b
      else if kp_tag a \<in> {0x500000c8, 0xa00001f6} then kp_f a = kp_f b
      else if kp_tag a \<in> {0x60000190, 0x60000191, 0x60000192, 0x600002bd} then kp_f a = kp_f b
      else if kp_tag a \<in> {0x90000259, 0x900002bc, 0x900002c0, 0x900002c3, 0x900002c4, 0x900002c5, 0x900002c6,
        0x900002c7, 0x900002c8, 0x900002c9, 0x900002ca, 0x900002cb, 0x900002cc, 0x900002cd, 0x900003e8, 0x900003ed,
        0x900003e9} then kp_blob a = kp_blob b
      else if kp_tag a \<in> {0x20000001, 0x10000002, 0x20000004, 0x20000005, 0x20000006, 0x1000000a, 0x1000012d,
        0x100001f8, 0x100002be, 0x10000130} then kp_integer a = kp_integer b
      else False)"

subsection \<open>The order of parameters\<close>

text \<open>The key of a parameter: its tag and the value the tag selects.\<close>

definition kp_number :: "KeyParameter \<Rightarrow> 64 word" where
  "kp_number p = (case typeFromTag (kp_tag p) of
     Some t \<Rightarrow> if t \<in> {ENUM, ENUM_REP, UINT, UINT_REP} then ucast (kp_integer p)
       else if t \<in> {ULONG, ULONG_REP, DATE} then kp_f p else 0
   | None \<Rightarrow> 0)"

definition kp_bytes :: "KeyParameter \<Rightarrow> u8 list" where
  "kp_bytes p = (if typeFromTag (kp_tag p) \<in> {Some BIGNUM, Some BYTES} then kp_blob p else [])"

definition kp_key :: "KeyParameter \<Rightarrow> u32 \<times> 64 word \<times> u8 list" where
  "kp_key p = (kp_tag p, kp_number p, kp_bytes p)"

definition typed :: "KeyParameter \<Rightarrow> bool" where
  "typed p \<longleftrightarrow> typeFromTag (kp_tag p) \<noteq> None"

lemma memcmp_prefix: "length b \<le> length a \<Longrightarrow> memcmp a b (length b) = 0 \<longleftrightarrow> take (length b) a = b"
proof (induction b arbitrary: a)
  case (Cons y b)
  then show ?case by (cases a) (auto simp: word_uint_eq_iff)
qed simp

lemma memcmp_less:
  "(if memcmp a b (min (length a) (length b)) = 0 then length a < length b
    else memcmp a b (min (length a) (length b)) < 0) \<longleftrightarrow> a < b"
proof (induction a arbitrary: b)
  case Nil
  then show ?case by (cases b) simp_all
next
  case (Cons x a)
  show ?case
  proof (cases b)
    case (Cons y c)
    show ?thesis
    proof (cases "x = y")
      case True
      then show ?thesis using Cons.IH [of c] \<open>b = y # c\<close> by (auto split: if_splits)
    next
      case False
      then have "uint x \<noteq> uint y" by (simp add: word_uint_eq_iff)
      then show ?thesis using False Cons by (simp add: word_less_def)
    qed
  qed simp
qed

lemma blob_less_iff: "blob_less a b \<longleftrightarrow> a < b"
proof (cases "a = [] \<or> b = []")
  case True
  then show ?thesis by (cases a; cases b) (auto simp: blob_less_def)
next
  case False
  then have "blob_less a b = (if memcmp a b (min (length a) (length b)) = 0 then length a < length b
      else memcmp a b (min (length a) (length b)) < 0)"
    by (simp add: blob_less_def Let_def)
  then show ?thesis by (simp only: memcmp_less)
qed

lemma blob_equal_iff: "blob_equal a b \<longleftrightarrow> a = b"
  using memcmp_prefix [of b a] by (auto simp: blob_equal_def)

lemma less_key: "keyParamLess a b \<longleftrightarrow> kp_key a < kp_key b"
  by (cases "kp_tag a = kp_tag b"; cases "typeFromTag (kp_tag a)")
    (auto simp: keyParamLess_def kp_key_def kp_number_def kp_bytes_def blob_less_iff ucast_less split: TagType.splits)

lemma equal_key: "keyParamEqual a b \<longleftrightarrow> typed a \<and> kp_key a = kp_key b"
  by (cases "kp_tag a = kp_tag b"; cases "typeFromTag (kp_tag a)")
    (auto simp: keyParamEqual_def kp_key_def kp_number_def kp_bytes_def typed_def blob_equal_iff ucast_less
      split: TagType.splits)

text \<open>The two comparisons agree on the tags of the interface, which are the storable ones and nine more.\<close>

definition unlisted_tags :: "u32 list" where
  "unlisted_tags = [0x900003ed, 0x900002c6, 0x900002c7, 0x900002c8, 0x900002c9, 0x900002ca, 0x900002cb, 0x900002cc, 0x900002cd]"

lemma key_parameter_eq_keyParamEqual:
  assumes "kp_tag a \<in> set (all_tags @ unlisted_tags)"
  shows "key_parameter_eq a b = keyParamEqual a b"
proof (cases "kp_tag b = kp_tag a")
  case True
  have "kp_tag a \<in> set all_tags \<or> kp_tag a \<in> set unlisted_tags" using assms by simp
  then show ?thesis
    unfolding all_tags_def unlisted_tags_def list.set insert_iff empty_iff
    by (elim disjE FalseE)
      (simp_all add: key_parameter_eq_def keyParamEqual_def True typeFromTag_def blob_equal_iff)
qed (simp add: key_parameter_eq_def keyParamEqual_def)

subsection \<open>What the set operations do\<close>

lemma sort_facts:
  assumes "is_std_sort std_sort"
  shows "mset (Sort std_sort data) = mset data" "sorted (map kp_key (Sort std_sort data))"
  using is_std_sortD [OF assms strict_weak_onI [of "set data" keyParamLess kp_key]]
  by (simp_all add: Sort_def sorted_map less_key linorder_not_less)

definition no_key :: "u32 \<times> 64 word \<times> u8 list" where
  "no_key = (0, 0, [])"

lemma type_0: "typeFromTag 0 = Some INVALID"
  by (simp add: typeFromTag_def)

lemma no_key_iff: "kp_key p = no_key \<longleftrightarrow> kp_tag p = 0"
  by (auto simp: kp_key_def no_key_def kp_number_def kp_bytes_def type_0)

lemma no_key_least: "no_key \<le> k"
  by (cases k) (auto simp: no_key_def less_eq_prod_def word_le_nat_alt word_less_nat_alt)

text \<open>On a sorted vector the loop leaves one parameter for each key, and no invalid ones unless there is nothing else.\<close>

lemma dedup_loop_keys:
  assumes "sorted (map kp_key ps)" "\<forall>p \<in> set ps. typed p" "ps \<noteq> []"
  shows "sorted_wrt (<) (map kp_key (dedup_loop ps)) \<and> set (dedup_loop ps) \<subseteq> set ps \<and>
    kp_key ` set (dedup_loop ps) =
      (if kp_key ` set ps = {no_key} then {no_key} else kp_key ` set ps - {no_key})"
  using assms
proof (induction ps rule: dedup_loop.induct)
  case (2 p)
  then show ?case by auto
next
  case (3 p q rest)
  let ?ps = "q # rest"
  have sub: "sorted (map kp_key ?ps)" "\<forall>p \<in> set ?ps. typed p" "?ps \<noteq> []" using 3 by simp_all
  have least: "\<forall>r \<in> set ?ps. kp_key p \<le> kp_key r" using 3(4) by simp
  consider "kp_tag p = 0" | "kp_tag p \<noteq> 0" "kp_key p \<noteq> kp_key q" | "kp_tag p \<noteq> 0" "kp_key p = kp_key q" by blast
  then show ?case
  proof cases
    case 1
    then have key: "kp_key p = no_key" by (simp add: no_key_iff)
    then have "kp_key ` set (p # ?ps) = insert no_key (kp_key ` set ?ps)" by simp
    moreover have "dedup_loop (p # ?ps) = dedup_loop ?ps" using 1 by simp
    ultimately show ?thesis using 3(1) [OF 1 sub] key by auto
  next
    case 2
    then have step: "dedup_loop (p # ?ps) = p # dedup_loop ?ps" by (simp add: equal_key)
    note IH = 3(2) [OF 2(1) _ sub]
    have "\<not> keyParamEqual p q" using 2 by (simp add: equal_key)
    then have IH: "sorted_wrt (<) (map kp_key (dedup_loop ?ps))" "set (dedup_loop ?ps) \<subseteq> set ?ps"
      "kp_key ` set (dedup_loop ?ps) = (if kp_key ` set ?ps = {no_key} then {no_key} else kp_key ` set ?ps - {no_key})"
      using IH by blast+
    have "kp_key p < kp_key q" using 2(2) least by (simp add: order_less_le)
    then have less: "\<forall>r \<in> set ?ps. kp_key p < kp_key r" using sub(1) by (auto dest: less_le_trans)
    have "kp_key p \<noteq> no_key" using 2(1) by (simp add: no_key_iff)
    then have "no_key < kp_key p" using no_key_least [of "kp_key p"] by (simp add: order_less_le)
    then have "no_key \<notin> kp_key ` set ?ps" "kp_key p \<noteq> no_key" using less by auto
    then show ?thesis using IH less unfolding step by auto
  next
    case 3
    then have "typed p" using \<open>\<forall>p \<in> set (p # q # rest). typed p\<close> by simp
    then have eq: "keyParamEqual p q" using 3 by (simp add: equal_key)
    then have "dedup_loop (p # ?ps) = dedup_loop ?ps" using 3(1) by simp
    moreover have "kp_key ` set (p # ?ps) = kp_key ` set ?ps" using 3(2) by auto
    ultimately show ?thesis using "3.IH"(3) [OF 3(1) _ sub] eq by auto
  qed
qed simp

text \<open>What is left of a vector: the keys of its valid parameters, each once, in order.\<close>

definition valid_keys :: "KeyParameter list \<Rightarrow> (u32 \<times> 64 word \<times> u8 list) set" where
  "valid_keys ps = kp_key ` {p \<in> set ps. kp_tag p \<noteq> 0}"

lemma valid_keys_alt: "valid_keys ps = kp_key ` set ps - {no_key}"
  unfolding valid_keys_def no_key_iff [symmetric] by auto

lemma strictly_sorted_set: "sorted_wrt (<) xs \<Longrightarrow> xs = sorted_list_of_set (set xs)" for xs :: "'a :: linorder list"
  by (simp add: strict_sorted_iff sorted_list_of_set.idem_if_sorted_distinct)

lemma dedup_keys:
  assumes "is_std_sort std_sort" "\<forall>p \<in> set data. typed p"
  shows "map kp_key (Deduplicate std_sort data) =
      (if data \<noteq> [] \<and> valid_keys data = {} then [no_key] else sorted_list_of_set (valid_keys data)) \<and>
    set (Deduplicate std_sort data) \<subseteq> set data"
proof (cases "data = []")
  case False
  let ?ps = "Sort std_sort data"
  have set: "set ?ps = set data" "?ps \<noteq> []"
    using sort_facts(1) [OF assms(1), of data] False by (auto dest: mset_eq_setD)
  have loop: "sorted_wrt (<) (map kp_key (dedup_loop ?ps))" "set (dedup_loop ?ps) \<subseteq> set data"
    "kp_key ` set (dedup_loop ?ps) = (if kp_key ` set data = {no_key} then {no_key} else valid_keys data)"
    using dedup_loop_keys [OF sort_facts(2) [OF assms(1)], of data] assms(2) set by (auto simp: valid_keys_alt)
  have "valid_keys data = {} \<longleftrightarrow> kp_key ` set data = {no_key}"
    using False unfolding valid_keys_alt by (simp add: subset_singleton_iff)
  then show ?thesis
    using strictly_sorted_set [OF loop(1)] loop(2,3) False by (simp add: Deduplicate_def)
qed (simp add: Deduplicate_def valid_keys_def)

text \<open>The search for an equal entry.\<close>

lemma find_loop_split:
  "find_loop tag i ps = (if tag \<in> kp_tag ` set ps then int (i + length (takeWhile (\<lambda>p. kp_tag p \<noteq> tag) ps)) else -1)"
  by (induction ps arbitrary: i) auto

lemma remove_match_drop:
  assumes "-1 \<le> pos" "nat (1 + pos) \<le> length data"
  shows "remove_match p pos data =
    take (nat (1 + pos)) data @
      takeWhile (\<lambda>q. \<not> keyParamEqual p q) (drop (nat (1 + pos)) data) @
      tl (dropWhile (\<lambda>q. \<not> keyParamEqual p q) (drop (nat (1 + pos)) data))"
  using assms
proof (induction p pos data rule: remove_match.induct)
  case (1 p pos data)
  let ?k = "nat (1 + pos)" let ?rest = "drop ?k data"
  show ?case
  proof (cases "kp_tag p \<in> kp_tag ` set ?rest")
    case False
    then have "find_tag (kp_tag p) pos data = -1" by (simp add: find_tag_def find_loop_split)
    then have "remove_match p pos data = data" by (subst remove_match.simps) simp
    moreover have "\<forall>q \<in> set ?rest. \<not> keyParamEqual p q" using False by (auto simp: equal_key kp_key_def)
    then have none: "takeWhile (\<lambda>q. \<not> keyParamEqual p q) ?rest = ?rest" "dropWhile (\<lambda>q. \<not> keyParamEqual p q) ?rest = []"
      by (simp_all add: takeWhile_eq_all_conv dropWhile_eq_Nil_conv)
    ultimately show ?thesis unfolding none by simp
  next
    case True
    define before after where "before = takeWhile (\<lambda>q. kp_tag q \<noteq> kp_tag p) ?rest"
      and "after = dropWhile (\<lambda>q. kp_tag q \<noteq> kp_tag p) ?rest"
    have rest: "?rest = before @ after" "\<forall>q \<in> set before. kp_tag q \<noteq> kp_tag p"
      unfolding before_def after_def by (auto dest: set_takeWhileD)
    obtain q qs where after: "after = q # qs" "kp_tag q = kp_tag p"
      using True unfolding after_def
      by (metis (mono_tags, lifting) dropWhile_eq_Nil_conv hd_dropWhile imageE list.exhaust_sel)
    define m where "m = ?k + length before"
    have pos: "find_tag (kp_tag p) pos data = int m"
      using True by (simp add: find_tag_def find_loop_split before_def m_def)
    have data: "data = take ?k data @ before @ q # qs" using rest after append_take_drop_id [of ?k data] by simp
    have len: "length (take ?k data) = ?k" using 1(3) by simp
    have nth: "data ! m = q" "take m data = take ?k data @ before" "drop (Suc m) data = qs"
      "take (Suc m) data = take ?k data @ before @ [q]" "m < length data"
      using len unfolding m_def by (subst data, simp add: nth_append)+
    have skip: "takeWhile (\<lambda>q. \<not> keyParamEqual p q) ?rest = before @ takeWhile (\<lambda>q. \<not> keyParamEqual p q) (q # qs)"
      "dropWhile (\<lambda>q. \<not> keyParamEqual p q) ?rest = dropWhile (\<lambda>q. \<not> keyParamEqual p q) (q # qs)"
    proof -
      have "\<forall>q \<in> set before. \<not> keyParamEqual p q" using rest(2) by (auto simp: equal_key kp_key_def)
      then show "takeWhile (\<lambda>q. \<not> keyParamEqual p q) ?rest = before @ takeWhile (\<lambda>q. \<not> keyParamEqual p q) (q # qs)"
        "dropWhile (\<lambda>q. \<not> keyParamEqual p q) ?rest = dropWhile (\<lambda>q. \<not> keyParamEqual p q) (q # qs)"
        unfolding rest(1) after(1) by (simp_all add: takeWhile_append dropWhile_append)
    qed
    show ?thesis
    proof (cases "keyParamEqual p q")
      case True
      then have "remove_match p pos data = take m data @ drop (Suc m) data"
        using pos nth(1) by (subst remove_match.simps) (simp add: Let_def)
      then show ?thesis using True nth(2,3) skip by simp
    next
      case False
      have "remove_match p pos data = remove_match p (int m) data"
        using False pos nth(1) by (subst remove_match.simps) (simp add: Let_def)
      also have "\<dots> = take (Suc m) data @
          takeWhile (\<lambda>q. \<not> keyParamEqual p q) qs @ tl (dropWhile (\<lambda>q. \<not> keyParamEqual p q) qs)"
        using 1(1) [OF pos [symmetric]] False nth by (simp add: nat_add_distrib)
      finally show ?thesis using False skip nth(4) by simp
    qed
  qed
qed

lemma remove_match_first: "remove_match p (-1) data =
    takeWhile (\<lambda>q. \<not> keyParamEqual p q) data @ tl (dropWhile (\<lambda>q. \<not> keyParamEqual p q) data)"
  using remove_match_drop [of "-1" data p] by simp

lemma remove_first_key:
  assumes "typed p" "distinct (map kp_key data)"
  shows "map kp_key (remove_match p (-1) data) = filter (\<lambda>k. k \<noteq> kp_key p) (map kp_key data)"
  using assms(2)
proof (induction data)
  case Nil
  then show ?case by (simp add: remove_match_first)
next
  case (Cons q data)
  show ?case
  proof (cases "kp_key q = kp_key p")
    case True
    then have "kp_key p \<notin> set (map kp_key data)" using Cons.prems by simp
    then have "filter (\<lambda>k. k \<noteq> kp_key p) (map kp_key data) = map kp_key data" by (metis (mono_tags, lifting) filter_True)
    then show ?thesis using True assms(1) by (simp add: remove_match_first equal_key)
  next
    case False
    then show ?thesis using Cons assms(1) by (simp add: remove_match_first equal_key)
  qed
qed

lemma set_tl: "set (tl xs) \<subseteq> set xs"
  by (cases xs) auto

lemma remove_match_subset: "set (remove_match p (-1) data) \<subseteq> set data"
  unfolding remove_match_first using set_tl by (fastforce dest: set_takeWhileD set_dropWhileD)

lemma subtract_keys:
  assumes "\<forall>p \<in> set other. typed p" "distinct (map kp_key data)"
  shows "map kp_key (fold (\<lambda>p. remove_match p (-1)) other data) = filter (\<lambda>k. k \<notin> kp_key ` set other) (map kp_key data) \<and>
    set (fold (\<lambda>p. remove_match p (-1)) other data) \<subseteq> set data"
  using assms
proof (induction other arbitrary: data)
  case (Cons p other)
  let ?data = "remove_match p (-1) data"
  have keys: "map kp_key ?data = filter (\<lambda>k. k \<noteq> kp_key p) (map kp_key data)"
    using Cons.prems by (simp add: remove_first_key)
  then have "distinct (map kp_key ?data)" using Cons.prems(2) by simp
  then have "map kp_key (fold (\<lambda>p. remove_match p (-1)) other ?data) =
      filter (\<lambda>k. k \<notin> kp_key ` set other) (map kp_key ?data) \<and>
    set (fold (\<lambda>p. remove_match p (-1)) other ?data) \<subseteq> set ?data"
    using Cons.IH [of ?data] Cons.prems(1) by simp
  moreover have "filter (\<lambda>k. k \<notin> kp_key ` set other) (map kp_key ?data) =
      filter (\<lambda>k. k \<notin> kp_key ` set (p # other)) (map kp_key data)"
    unfolding keys filter_filter by (rule filter_cong) auto
  ultimately show ?case using remove_match_subset [of p data] by auto
qed simp

text \<open>
  C33: The authorization sets behave as sets: a union holds every valid parameter of either side exactly
  once, in the order of tags and values, and a difference holds what the deduplicated set has and the
  other one has not; nothing is invented. Only a set of nothing but invalid entries keeps one of them.
\<close>
theorem authorization_sets_are_sets:
  assumes "is_std_sort std_sort" "\<forall>p \<in> set data \<union> set other. typed p"
  shows "map kp_key (set_Union std_sort other data) =
      (if data @ other \<noteq> [] \<and> valid_keys data \<union> valid_keys other = {} then [no_key]
       else sorted_list_of_set (valid_keys data \<union> valid_keys other)) \<and>
    map kp_key (Subtract std_sort other data) =
      filter (\<lambda>k. k \<notin> kp_key ` set other) (map kp_key (Deduplicate std_sort data)) \<and>
    set (set_Union std_sort other data) \<subseteq> set data \<union> set other \<and> set (Subtract std_sort other data) \<subseteq> set data"
proof -
  have union: "valid_keys (data @ other) = valid_keys data \<union> valid_keys other" by (auto simp: valid_keys_def)
  have dedup: "map kp_key (Deduplicate std_sort data) =
      (if data \<noteq> [] \<and> valid_keys data = {} then [no_key] else sorted_list_of_set (valid_keys data))"
    "set (Deduplicate std_sort data) \<subseteq> set data"
    using dedup_keys [OF assms(1), of data] assms(2) by auto
  then have "distinct (map kp_key (Deduplicate std_sort data))" by simp
  then have "map kp_key (Subtract std_sort other data) =
      filter (\<lambda>k. k \<notin> kp_key ` set other) (map kp_key (Deduplicate std_sort data))"
    "set (Subtract std_sort other data) \<subseteq> set data"
    using subtract_keys [of other "Deduplicate std_sort data"] dedup(2) assms(2) by (auto simp: Subtract_def)
  then show ?thesis
    using dedup_keys [OF assms(1), of "data @ other"] assms(2) unfolding set_Union_def union by auto
qed

definition padding_sets :: "KeyParameter list \<times> KeyParameter list" where
  "padding_sets =
     ([\<lparr>kp_tag = 0x20000006, kp_f = 2, kp_blob = []\<rparr>, \<lparr>kp_tag = 0x10000002, kp_f = 1, kp_blob = []\<rparr>],
      [\<lparr>kp_tag = 0x20000006, kp_f = 2, kp_blob = []\<rparr>, \<lparr>kp_tag = 0x20000006, kp_f = 1, kp_blob = []\<rparr>,
       \<lparr>kp_tag = 0, kp_f = 0, kp_blob = []\<rparr>])"

theorem authorization_sets_are_sets_witness:
  "map kp_key (set_Union insertion_sort (snd padding_sets) (fst padding_sets)) =
     [(0x10000002, 1, []), (0x20000006, 1, []), (0x20000006, 2, [])] \<and>
   map kp_key (Subtract insertion_sort (snd padding_sets) (fst padding_sets)) = [(0x10000002, 1, [])]"
proof -
  have "\<forall>p \<in> set (fst padding_sets) \<union> set (snd padding_sets). typed p"
    by (auto simp: padding_sets_def typed_def typeFromTag_def)
  note sets = authorization_sets_are_sets [OF insertion_sort_sorts this]
  let ?keys = "[(0x10000002, 1, []), (0x20000006, 1, []), (0x20000006, 2, [])] :: (u32 \<times> 64 word \<times> u8 list) list"
  have keys: "map kp_key (fst padding_sets) = [(0x20000006, 2, []), (0x10000002, 1, [])]"
    "map kp_key (snd padding_sets) = [(0x20000006, 2, []), (0x20000006, 1, []), (0, 0, [])]"
    by (simp_all add: padding_sets_def kp_key_def kp_number_def kp_bytes_def typeFromTag_def kp_integer_def)
  then have "kp_key ` set (fst padding_sets) = {(0x20000006, 2, []), (0x10000002, 1, [])}"
    and other: "kp_key ` set (snd padding_sets) = {(0x20000006, 2, []), (0x20000006, 1, []), (0, 0, [])}"
    unfolding set_map [symmetric] by simp_all
  then have "valid_keys (fst padding_sets) \<union> valid_keys (snd padding_sets) = set ?keys"
    by (auto simp: valid_keys_alt no_key_def)
  moreover have "sorted_wrt (<) ?keys" by simp
  ultimately have union: "sorted_list_of_set (valid_keys (fst padding_sets) \<union> valid_keys (snd padding_sets)) = ?keys"
    "valid_keys (fst padding_sets) \<union> valid_keys (snd padding_sets) \<noteq> {}"
    by (simp_all only: strictly_sorted_set [symmetric]) simp
  have dedup: "map kp_key (Deduplicate insertion_sort (fst padding_sets)) = [(0x10000002, 1, []), (0x20000006, 2, [])]"
    by (simp add: padding_sets_def Deduplicate_def Sort_def insertion_sort_def keyParamLess_def keyParamEqual_def
      kp_key_def kp_number_def kp_bytes_def typeFromTag_def kp_integer_def)
  have "map kp_key (set_Union insertion_sort (snd padding_sets) (fst padding_sets)) = ?keys"
    using sets union by (simp only: if_False simp_thms)
  moreover have "map kp_key (Subtract insertion_sort (snd padding_sets) (fst padding_sets)) = [(0x10000002, 1, [])]"
    using sets unfolding dedup other by simp
  ultimately show ?thesis by (rule conjI)
qed

text \<open>The queries by tag.\<close>

lemma find_tag_split:
  assumes "-1 \<le> pos"
  shows "find_tag tag pos data = (if tag \<in> kp_tag ` set (drop (nat (1 + pos)) data)
    then int (nat (1 + pos) + length (takeWhile (\<lambda>p. kp_tag p \<noteq> tag) (drop (nat (1 + pos)) data))) else -1)"
  by (simp add: find_tag_def find_loop_split)

lemma GetEntry_find: "GetEntry tag data = List.find (\<lambda>p. kp_tag p = tag) data"
proof -
  have "data ! length (takeWhile (\<lambda>p. kp_tag p \<noteq> tag) data) = p"
    if "List.find (\<lambda>p. kp_tag p = tag) data = Some p" for p
    using that by (induction data) (auto split: if_splits)
  moreover have "tag \<in> kp_tag ` set data \<longleftrightarrow> List.find (\<lambda>p. kp_tag p = tag) data \<noteq> None"
    by (auto simp: find_None_iff)
  ultimately show ?thesis
    by (cases "List.find (\<lambda>p. kp_tag p = tag) data") (simp_all add: GetEntry_def find_tag_split Let_def)
qed

lemma Contains_tag_iff: "Contains_tag tag data \<longleftrightarrow> (\<exists>p \<in> set data. kp_tag p = tag)"
  by (auto simp: Contains_tag_def find_tag_split)

end
