(* ===== verification/KeyFormat.thy ===== *)
theory KeyFormat
  imports KeyAuthorizations
begin

text \<open>
  How the authorization sets are written to a file and read back
  (\<open>Serialize\<close> and \<open>Deserialize\<close> in \<open>keymaster/4.0/support/authorization_set.cpp\<close>): the fixed-size
  values are stored in one block, the blobs they refer to in another one.

  A file is the list of its bytes; a stream that fails goes on delivering nothing, as those of C++ do, and
  is never reported as bad. What \<open>hidl_vec::resize\<close> puts into new bytes is a parameter.
\<close>

subsection \<open>The persistent format\<close>

record out_streams =
  os_indirect :: "u8 list"
  os_elements :: "u8 list"
  os_bad :: bool \<comment> \<open>of the elements\<close>
  os_skipped :: nat

definition write_element :: "u8 list \<Rightarrow> out_streams \<Rightarrow> out_streams" where
  "write_element bs out = (if os_bad out then out else out\<lparr>os_elements := os_elements out @ bs\<rparr>)"

definition serialize_blob :: "u8 list \<Rightarrow> out_streams \<Rightarrow> out_streams" where
  "serialize_blob blob out =
     (let blob_length = length blob in
      if 2 ^ 32 - 1 < blob_length then out\<lparr>os_bad := True\<rparr>
      else
        let out = write_element (le_bytes 4 blob_length) out; offset = length (os_indirect out) in
        if 2 ^ 32 - 1 < offset \<or> (offset mod 2 ^ 32 + blob_length) mod 2 ^ 32 < offset mod 2 ^ 32
        then out\<lparr>os_bad := True\<rparr>
        else
          let out = write_element (le_bytes 4 offset) out
          in out\<lparr>os_indirect := os_indirect out @ blob\<rparr>)"

definition serializeParamValue :: "KeyParameter \<Rightarrow> out_streams \<Rightarrow> out_streams" where
  "serializeParamValue p out =
     (case typeFromTag (kp_tag p) of
        Some t \<Rightarrow>
          if t \<in> {BIGNUM, BYTES} then serialize_blob (kp_blob p) out
          else if t \<in> {ULONG, ULONG_REP, DATE} then write_element (le_bytes 8 (unat (kp_f p))) out
          else if t = BOOL then write_element (le_bytes 1 (unat (kp_f p))) out
          else write_element (le_bytes 4 (unat (kp_f p))) out
      | None \<Rightarrow> out)"

fun choose_serializer :: "u32 list \<Rightarrow> KeyParameter \<Rightarrow> out_streams \<Rightarrow> out_streams" where
  "choose_serializer [] p out = out\<lparr>os_skipped := os_skipped out + 1\<rparr>"
| "choose_serializer (tag # tags) p out =
     (if kp_tag p = tag then
        if tag = 0 then out\<lparr>os_skipped := os_skipped out + 1\<rparr>
        else serializeParamValue p (write_element (le_bytes 4 (unat (kp_tag p))) out)
      else choose_serializer tags p out)"

text \<open>A failure leaves the file as it is, with the bad bit set.\<close>

definition serialize :: "KeyParameter list \<Rightarrow> u8 list option" where
  "serialize params =
     (let streams = fold (choose_serializer all_tags) params
            \<lparr>os_indirect = [], os_elements = [], os_bad = False, os_skipped = 0\<rparr> in
      if os_bad streams then None
      else if 2 ^ 32 - 1 < length (os_indirect streams) then None
      else if 2 ^ 32 - 1 < length (os_elements streams) then None
      else Some (le_bytes 4 (length (os_indirect streams)) @ os_indirect streams @
             le_bytes 4 (length params - os_skipped streams) @ le_bytes 4 (length (os_elements streams)) @
             os_elements streams))"

record istream =
  is_all :: "u8 list"
  is_pos :: nat
  is_fail :: bool

text \<open>A short read takes what there is and fails; what it does not reach keeps its old bytes.\<close>

definition is_read :: "u8 list \<Rightarrow> istream \<Rightarrow> u8 list \<times> istream" where
  "is_read old s =
     (if is_fail s then (old, s)
      else
        let bs = take (length old) (drop (is_pos s) (is_all s)) in
        (bs @ drop (length bs) old,
         s\<lparr>is_pos := is_pos s + length bs, is_fail := length bs < length old\<rparr>))"

definition is_seekg :: "nat \<Rightarrow> istream \<Rightarrow> istream" where
  "is_seekg off s =
     (if is_fail s then s else if off \<le> length (is_all s) then s\<lparr>is_pos := off\<rparr> else s\<lparr>is_fail := True\<rparr>)"

definition stringstream :: "u8 list \<Rightarrow> istream" where
  "stringstream bs = \<lparr>is_all = bs, is_pos = 0, is_fail = False\<rparr>"

record in_streams =
  in_indirect :: istream
  in_elements :: istream
  in_invalids :: nat

definition zeros :: "nat \<Rightarrow> u8 list" where
  "zeros n = replicate n 0"

text \<open>\<open>resize n old\<close> is a vector of \<open>n\<close> bytes.\<close>

type_synonym resizer = "nat \<Rightarrow> u8 list \<Rightarrow> u8 list"

definition deserialize_blob :: "resizer \<Rightarrow> KeyParameter \<Rightarrow> in_streams \<Rightarrow> KeyParameter \<times> in_streams" where
  "deserialize_blob resize p s =
     (case is_read (zeros 4) (in_elements s) of (len, el) \<Rightarrow>
      let blob = resize (le_nat len) (kp_blob p) in
      case is_read (zeros 4) el of (off, el) \<Rightarrow>
      case is_read blob (is_seekg (le_nat off) (in_indirect s)) of (blob, ind) \<Rightarrow>
        (p\<lparr>kp_blob := blob\<rparr>, s\<lparr>in_elements := el, in_indirect := ind\<rparr>))"

definition deserialize_number :: "nat \<Rightarrow> KeyParameter \<Rightarrow> in_streams \<Rightarrow> KeyParameter \<times> in_streams" where
  "deserialize_number k p s =
     (let old = le_bytes 8 (unat (kp_f p)) in
      case is_read (take k old) (in_elements s) of (bs, el) \<Rightarrow>
        (p\<lparr>kp_f := of_nat (le_nat (bs @ drop k old))\<rparr>, s\<lparr>in_elements := el\<rparr>))"

definition deserializeParamValue :: "resizer \<Rightarrow> KeyParameter \<Rightarrow> in_streams \<Rightarrow> KeyParameter \<times> in_streams" where
  "deserializeParamValue resize p s =
     (case typeFromTag (kp_tag p) of
        Some t \<Rightarrow>
          if t \<in> {BIGNUM, BYTES} then deserialize_blob resize p s
          else if t \<in> {ULONG, ULONG_REP, DATE} then deserialize_number 8 p s
          else if t = BOOL then deserialize_number 1 p s
          else deserialize_number 4 p s
      | None \<Rightarrow> (p, s))"

fun choose_deserializer :: "resizer \<Rightarrow> u32 list \<Rightarrow> KeyParameter \<Rightarrow> in_streams \<Rightarrow> KeyParameter \<times> in_streams" where
  "choose_deserializer resize [] p s = (p, s\<lparr>in_elements := (in_elements s)\<lparr>is_fail := True\<rparr>\<rparr>)"
| "choose_deserializer resize (tag # tags) p s =
     (if kp_tag p = tag then
        if tag = 0 then (p, s\<lparr>in_invalids := in_invalids s + 1\<rparr>) else deserializeParamValue resize p s
      else choose_deserializer resize tags p s)"

definition deserialize_param :: "resizer \<Rightarrow> KeyParameter \<Rightarrow> in_streams \<Rightarrow> KeyParameter \<times> in_streams" where
  "deserialize_param resize p s =
     (case is_read (le_bytes 4 (unat (kp_tag p))) (in_elements s) of (tag, el) \<Rightarrow>
        choose_deserializer resize all_tags (p\<lparr>kp_tag := of_nat (le_nat tag)\<rparr>) (s\<lparr>in_elements := el\<rparr>))"

fun deserialize_loop :: "resizer \<Rightarrow> KeyParameter list \<Rightarrow> in_streams \<Rightarrow> KeyParameter list \<times> in_streams" where
  "deserialize_loop resize [] s = ([], s)"
| "deserialize_loop resize (p # ps) s =
     (case deserialize_param resize p s of (p, s) \<Rightarrow>
      case deserialize_loop resize ps s of (ps, s) \<Rightarrow> (p # ps, s))"

definition new_param :: KeyParameter where
  "new_param = \<lparr>kp_tag = 0, kp_f = 0, kp_blob = []\<rparr>"

text \<open>The vector of the valid parameters has the size that was counted; a store behind its end is \<open>None\<close>.\<close>

definition filter_invalid :: "nat \<Rightarrow> KeyParameter list \<Rightarrow> KeyParameter list option" where
  "filter_invalid invalids params =
     (if 0 < invalids then
        let n = length params - invalids; kept = filter (\<lambda>p. kp_tag p \<noteq> 0) params in
        if length kept \<le> n then Some (kept @ replicate (n - length kept) new_param) else None
      else Some params)"

definition deserialize :: "resizer \<Rightarrow> KeyParameter list \<Rightarrow> istream \<Rightarrow> (KeyParameter list \<times> istream) option" where
  "deserialize resize params inp =
     (case is_read (zeros 4) inp of (indirect_size, inp) \<Rightarrow>
      case is_read (zeros (le_nat indirect_size)) inp of (indirect_buffer, inp) \<Rightarrow>
      case is_read (zeros 4) inp of (element_count, inp) \<Rightarrow>
      case is_read (zeros 4) inp of (elements_size, inp) \<Rightarrow>
      case is_read (zeros (le_nat elements_size)) inp of (elements_buffer, inp) \<Rightarrow>
      let n = le_nat element_count in
      case deserialize_loop resize (take n params @ replicate (n - length params) new_param)
          \<lparr>in_indirect = stringstream indirect_buffer, in_elements = stringstream elements_buffer, in_invalids = 0\<rparr> of
        (params, s) \<Rightarrow> map_option (\<lambda>ps. (ps, inp)) (filter_invalid (in_invalids s) params))"

subsection \<open>What is written\<close>

text \<open>The parameters that have a place in the file, how many bytes of the union they take, and their element.\<close>

definition storable :: "KeyParameter \<Rightarrow> bool" where
  "storable p \<longleftrightarrow> kp_tag p \<in> set all_tags \<and> kp_tag p \<noteq> 0"

definition width :: "KeyParameter \<Rightarrow> nat" where
  "width p = (case typeFromTag (kp_tag p) of
     Some t \<Rightarrow> if t \<in> {BIGNUM, BYTES} then 0 else if t \<in> {ULONG, ULONG_REP, DATE} then 8 else if t = BOOL then 1 else 4
   | None \<Rightarrow> 0)"

definition has_blob :: "KeyParameter \<Rightarrow> bool" where
  "has_blob p \<longleftrightarrow> typeFromTag (kp_tag p) \<in> {Some BIGNUM, Some BYTES}"

definition value_bytes :: "KeyParameter \<Rightarrow> nat \<Rightarrow> u8 list" where
  "value_bytes p off =
     (if has_blob p then le_bytes 4 (length (kp_blob p)) @ le_bytes 4 off else le_bytes (width p) (unat (kp_f p)))"

definition element_bytes :: "KeyParameter \<Rightarrow> nat \<Rightarrow> u8 list" where
  "element_bytes p off = le_bytes 4 (unat (kp_tag p)) @ value_bytes p off"

fun elements_of :: "KeyParameter list \<Rightarrow> nat \<Rightarrow> u8 list" where
  "elements_of [] off = []"
| "elements_of (p # ps) off = element_bytes p off @ elements_of ps (off + length (kp_bytes p))"

lemma le_bytes_0 [simp]: "le_bytes 0 n = []"
  by (simp add: le_bytes_def)

lemma kp_bytes_blob: "kp_bytes p = (if has_blob p then kp_blob p else [])"
  by (simp add: kp_bytes_def has_blob_def)

lemma choose_serializer_iff: "choose_serializer tags p out =
    (if kp_tag p \<in> set tags \<and> kp_tag p \<noteq> 0
     then serializeParamValue p (write_element (le_bytes 4 (unat (kp_tag p))) out)
     else out\<lparr>os_skipped := os_skipped out + 1\<rparr>)"
  by (induction tags) auto

lemma serializeParamValue_cases: "serializeParamValue p out =
    (if has_blob p then serialize_blob (kp_blob p) out else write_element (le_bytes (width p) (unat (kp_f p))) out)"
  by (cases "typeFromTag (kp_tag p)")
    (auto simp: serializeParamValue_def has_blob_def width_def write_element_def)

lemma sum_overflows:
  assumes "n \<le> c - 1" "k \<le> c - 1" "0 < c" "\<not> (k mod c + n) mod c < k mod c"
  shows "k + n < (c :: nat)"
proof (rule ccontr)
  assume large: "\<not> k + n < c"
  have "k mod c = k" using assms(2,3) by simp
  moreover have "(k + n) mod c = k + n - c" using large assms(1,2,3) by (simp add: le_mod_geq)
  ultimately show False using assms large by simp
qed

lemma serialize_blob_good:
  assumes "\<not> os_bad (serialize_blob blob out)"
  shows "\<not> os_bad out \<and> length (os_indirect out) + length blob < 2 ^ 32 \<and>
    serialize_blob blob out =
      out\<lparr>os_elements := os_elements out @ le_bytes 4 (length blob) @ le_bytes 4 (length (os_indirect out)),
        os_indirect := os_indirect out @ blob\<rparr>"
proof -
  define c where "c = (2 :: nat) ^ 32"
  have code: "serialize_blob blob out =
     (if c - 1 < length blob then out\<lparr>os_bad := True\<rparr>
      else
        let out = write_element (le_bytes 4 (length blob)) out; offset = length (os_indirect out) in
        if c - 1 < offset \<or> (offset mod c + length blob) mod c < offset mod c
        then out\<lparr>os_bad := True\<rparr>
        else let out = write_element (le_bytes 4 offset) out in out\<lparr>os_indirect := os_indirect out @ blob\<rparr>)"
    by (simp only: serialize_blob_def c_def Let_def)
  have c: "0 < c" by (simp add: c_def)
  have same: "os_indirect (write_element bs out) = os_indirect out" for bs out by (simp add: write_element_def)
  from assms have "\<not> c - 1 < length blob" "\<not> c - 1 < length (os_indirect out)"
    "\<not> (length (os_indirect out) mod c + length blob) mod c < length (os_indirect out) mod c"
    unfolding code by (auto simp: Let_def same split: if_splits)
  then have fits: "length blob \<le> c - 1" "length (os_indirect out) \<le> c - 1" "length (os_indirect out) + length blob < c"
    "\<not> (length (os_indirect out) mod c + length blob) mod c < length (os_indirect out) mod c"
    using sum_overflows [of "length blob" c "length (os_indirect out)"] c by simp_all
  then have eq: "serialize_blob blob out =
      (let out = write_element (le_bytes 4 (length (os_indirect out))) (write_element (le_bytes 4 (length blob)) out)
       in out\<lparr>os_indirect := os_indirect out @ blob\<rparr>)"
    unfolding code Let_def same by simp
  then have "\<not> os_bad out" using assms by (auto simp: write_element_def Let_def)
  then show ?thesis using eq fits(3) by (simp add: write_element_def c_def)
qed

lemma serialize_step:
  assumes "\<not> os_bad (choose_serializer all_tags p out)"
  shows "\<not> os_bad out \<and>
    (storable p \<and> has_blob p \<longrightarrow> length (os_indirect out) + length (kp_blob p) < 2 ^ 32) \<and>
    choose_serializer all_tags p out =
      (if storable p
       then out\<lparr>os_elements := os_elements out @ element_bytes p (length (os_indirect out)),
              os_indirect := os_indirect out @ kp_bytes p\<rparr>
       else out\<lparr>os_skipped := os_skipped out + 1\<rparr>)"
proof (cases "storable p")
  case True
  let ?out = "write_element (le_bytes 4 (unat (kp_tag p))) out"
  have step: "choose_serializer all_tags p out = serializeParamValue p ?out"
    using True by (simp add: choose_serializer_iff storable_def)
  show ?thesis
  proof (cases "has_blob p")
    case True
    then have blob: "choose_serializer all_tags p out = serialize_blob (kp_blob p) ?out"
      using step by (simp add: serializeParamValue_cases)
    note good = serialize_blob_good [OF assms [unfolded blob]]
    then have "\<not> os_bad out" by (simp add: write_element_def split: if_splits)
    then show ?thesis using good True \<open>storable p\<close> unfolding blob
      by (simp add: write_element_def element_bytes_def value_bytes_def kp_bytes_blob)
  next
    case False
    then show ?thesis using step assms True
      by (auto simp: serializeParamValue_cases write_element_def element_bytes_def value_bytes_def kp_bytes_blob
        split: if_splits)
  qed
next
  case False
  then show ?thesis using assms unfolding choose_serializer_iff storable_def by auto
qed

lemma serialize_all:
  assumes "\<not> os_bad (fold (choose_serializer all_tags) ps out)"
  shows "\<not> os_bad out \<and>
    fold (choose_serializer all_tags) ps out =
      out\<lparr>os_elements := os_elements out @ elements_of (filter storable ps) (length (os_indirect out)),
        os_indirect := os_indirect out @ concat (map kp_bytes (filter storable ps)),
        os_skipped := os_skipped out + length (filter (\<lambda>p. \<not> storable p) ps)\<rparr>"
  using assms
proof (induction ps arbitrary: out)
  case (Cons p ps)
  then have IH: "\<not> os_bad (choose_serializer all_tags p out)"
    "fold (choose_serializer all_tags) ps (choose_serializer all_tags p out) = (choose_serializer all_tags p out)
      \<lparr>os_elements := os_elements (choose_serializer all_tags p out) @
         elements_of (filter storable ps) (length (os_indirect (choose_serializer all_tags p out))),
       os_indirect := os_indirect (choose_serializer all_tags p out) @ concat (map kp_bytes (filter storable ps)),
       os_skipped := os_skipped (choose_serializer all_tags p out) + length (filter (\<lambda>p. \<not> storable p) ps)\<rparr>"
    by simp_all
  show ?case using serialize_step [OF IH(1)] IH(2) by (simp split: if_splits)
qed simp

subsection \<open>What is read\<close>

lemma le_nat_4: "n < 2 ^ 32 \<Longrightarrow> le_nat (le_bytes 4 n) = n"
  by (simp add: le_nat_bytes)

text \<open>What a stream has left, and reading from its front.\<close>

definition remaining :: "istream \<Rightarrow> u8 list" where
  "remaining s = drop (is_pos s) (is_all s)"

definition ready :: "istream \<Rightarrow> bool" where
  "ready s \<longleftrightarrow> \<not> is_fail s \<and> is_pos s \<le> length (is_all s)"

lemma read_front:
  assumes "ready s" "remaining s = bs @ rest" "length old = length bs"
  shows "is_read old s = (bs, s\<lparr>is_pos := is_pos s + length bs\<rparr>) \<and>
    ready (s\<lparr>is_pos := is_pos s + length bs\<rparr>) \<and> remaining (s\<lparr>is_pos := is_pos s + length bs\<rparr>) = rest"
proof -
  have "length (remaining s) = length (bs @ rest)" by (simp only: assms(2))
  then have "is_pos s + length bs \<le> length (is_all s)" using assms(1) by (auto simp: remaining_def ready_def)
  moreover have "remaining (s\<lparr>is_pos := is_pos s + length bs\<rparr>) = drop (length bs) (remaining s)"
    by (simp add: remaining_def add.commute)
  moreover have "take (length old) (drop (is_pos s) (is_all s)) = bs"
    using assms(2,3) by (simp add: remaining_def)
  then have "is_read old s = (bs, s\<lparr>is_pos := is_pos s + length bs, is_fail := False\<rparr>)"
    using assms(1,3) by (simp add: is_read_def ready_def Let_def)
  moreover have "s\<lparr>is_pos := is_pos s + length bs, is_fail := False\<rparr> = s\<lparr>is_pos := is_pos s + length bs\<rparr>"
    using assms(1) by (simp add: ready_def)
  ultimately show ?thesis using assms(1,2) by (simp add: ready_def)
qed

text \<open>Two parameters agree when they have the same tag, the same used bytes of the union and the same blob.\<close>

definition agrees :: "KeyParameter \<Rightarrow> KeyParameter \<Rightarrow> bool" where
  "agrees p q \<longleftrightarrow> kp_tag q = kp_tag p \<and>
     unat (kp_f q) mod 256 ^ width p = unat (kp_f p) mod 256 ^ width p \<and> kp_bytes q = kp_bytes p"

lemma agrees_tag: "kp_tag p = kp_tag q \<Longrightarrow> width p = width q \<and> has_blob p = has_blob q"
  by (simp add: width_def has_blob_def)

lemma width_bounds: "width p \<le> 8"
  by (cases "typeFromTag (kp_tag p)") (simp_all add: width_def)

lemma number_kept:
  assumes "k \<le> 8" "length old = 8"
  shows "unat (of_nat (le_nat (le_bytes k n @ drop k old)) :: 64 word) mod 256 ^ k = n mod 256 ^ k"
proof -
  have "length (le_bytes k n @ drop k old) = 8" using assms by simp
  then have "le_nat (le_bytes k n @ drop k old) < 2 ^ 64"
    using le_nat_less [of "le_bytes k n @ drop k old"] by simp
  then have "unat (of_nat (le_nat (le_bytes k n @ drop k old)) :: 64 word) = le_nat (le_bytes k n @ drop k old)"
    by (simp add: unat_of_nat)
  then show ?thesis by (simp add: le_nat_append le_nat_bytes)
qed

lemma choose_deserializer_iff: "choose_deserializer resize tags p s =
    (if kp_tag p \<in> set tags
     then if kp_tag p = 0 then (p, s\<lparr>in_invalids := in_invalids s + 1\<rparr>) else deserializeParamValue resize p s
     else (p, s\<lparr>in_elements := (in_elements s)\<lparr>is_fail := True\<rparr>\<rparr>))"
  by (induction tags) auto

lemma deserializeParamValue_cases:
  "typed p \<Longrightarrow> deserializeParamValue resize p s =
    (if has_blob p then deserialize_blob resize p s else deserialize_number (width p) p s)"
  by (cases "typeFromTag (kp_tag p)") (auto simp: deserializeParamValue_def has_blob_def width_def typed_def)

lemma storable_typed: "storable p \<Longrightarrow> typed p"
proof -
  have "list_all (\<lambda>t. typeFromTag t \<noteq> None) all_tags" by code_simp
  then show "storable p \<Longrightarrow> typed p" by (auto simp: storable_def typed_def list_all_iff)
qed

lemma read_number:
  assumes "\<not> has_blob p" "ready (in_elements s)" "remaining (in_elements s) = le_bytes (width p) (unat (kp_f p)) @ rest"
    "kp_tag old = kp_tag p"
  shows "\<exists>q el. deserialize_number (width old) old s = (q, s\<lparr>in_elements := el\<rparr>) \<and>
    agrees p q \<and> ready el \<and> remaining el = rest \<and> is_all el = is_all (in_elements s)"
proof -
  let ?old = "le_bytes 8 (unat (kp_f old))" let ?bs = "le_bytes (width p) (unat (kp_f p))"
  have tag: "width old = width p" "\<not> has_blob old" using agrees_tag [OF assms(4)] assms(1) by simp_all
  have len: "length (take (width p) ?old) = length ?bs" using width_bounds [of p] by simp
  note read = read_front [OF assms(2,3) len]
  have "agrees p (old\<lparr>kp_f := of_nat (le_nat (?bs @ drop (width p) ?old))\<rparr>)"
    using number_kept [OF width_bounds [of p], of ?old "unat (kp_f p)"] assms(1,4) tag
    by (simp add: agrees_def kp_bytes_blob has_blob_def)
  moreover have "is_all ((in_elements s)\<lparr>is_pos := is_pos (in_elements s) + length ?bs\<rparr>) = is_all (in_elements s)"
    by simp
  moreover have "deserialize_number (width old) old s =
      (old\<lparr>kp_f := of_nat (le_nat (?bs @ drop (width p) ?old))\<rparr>,
       s\<lparr>in_elements := (in_elements s)\<lparr>is_pos := is_pos (in_elements s) + length ?bs\<rparr>\<rparr>)"
    using read unfolding deserialize_number_def Let_def tag(1) by simp
  ultimately show ?thesis using read by blast
qed

lemma read_blob:
  assumes "has_blob p" "ready (in_elements s)"
    "remaining (in_elements s) = le_bytes 4 (length (kp_blob p)) @ le_bytes 4 off @ rest"
    "ready (in_indirect s)" "is_all (in_indirect s) = before @ kp_blob p @ after" "off = length before"
    "off + length (kp_blob p) < 2 ^ 32" "\<And>n b. length (resize n b) = n" "kp_tag old = kp_tag p"
  shows "\<exists>q el ind. deserialize_blob resize old s = (q, s\<lparr>in_elements := el, in_indirect := ind\<rparr>) \<and>
    agrees p q \<and> ready el \<and> remaining el = rest \<and> is_all el = is_all (in_elements s) \<and>
    ready ind \<and> is_all ind = is_all (in_indirect s)"
proof -
  define el1 where "el1 = (in_elements s)\<lparr>is_pos := is_pos (in_elements s) + 4\<rparr>"
  define el2 where "el2 = el1\<lparr>is_pos := is_pos el1 + 4\<rparr>"
  define ind where "ind = (in_indirect s)\<lparr>is_pos := off\<rparr>"
  define ind2 where "ind2 = ind\<lparr>is_pos := is_pos ind + length (kp_blob p)\<rparr>"
  have tag: "has_blob old" "width p = 0" using agrees_tag [OF assms(9)] assms(1) by (auto simp: has_blob_def width_def)
  have one: "is_read (zeros 4) (in_elements s) = (le_bytes 4 (length (kp_blob p)), el1)" "ready el1"
    "remaining el1 = le_bytes 4 off @ rest"
    using read_front [OF assms(2,3), of "zeros 4"] by (simp_all add: zeros_def el1_def)
  have two: "is_read (zeros 4) el1 = (le_bytes 4 off, el2)" "ready el2" "remaining el2 = rest"
    using read_front [OF one(2,3), of "zeros 4"] by (simp_all add: zeros_def el2_def)
  have seek: "is_seekg off (in_indirect s) = ind" "ready ind" "remaining ind = kp_blob p @ after"
    using assms(4-6) by (simp_all add: is_seekg_def ind_def ready_def remaining_def)
  have three: "is_read (resize (length (kp_blob p)) (kp_blob old)) ind = (kp_blob p, ind2)" "ready ind2"
    using read_front [OF seek(2,3), of "resize (length (kp_blob p)) (kp_blob old)"] assms(8) by (simp_all add: ind2_def)
  have "agrees p (old\<lparr>kp_blob := kp_blob p\<rparr>)"
    using assms(1,9) tag by (simp add: agrees_def kp_bytes_blob has_blob_def)
  moreover have "deserialize_blob resize old s = (old\<lparr>kp_blob := kp_blob p\<rparr>, s\<lparr>in_elements := el2, in_indirect := ind2\<rparr>)"
    using one(1) two(1) seek(1) three(1) assms(7)
    by (simp add: deserialize_blob_def Let_def le_nat_4)
  moreover have "is_all el2 = is_all (in_elements s)" "is_all ind2 = is_all (in_indirect s)"
    by (simp_all add: el2_def el1_def ind2_def ind_def)
  ultimately show ?thesis using two(2,3) three(2) by blast
qed

lemma read_element:
  assumes "storable p" "\<And>n b. length (resize n b) = n"
    "ready (in_elements s)" "remaining (in_elements s) = element_bytes p (length before) @ rest"
    "ready (in_indirect s)" "is_all (in_indirect s) = before @ kp_bytes p @ after"
    "length before + length (kp_bytes p) < 2 ^ 32"
  shows "\<exists>q el ind. deserialize_param resize old s = (q, s\<lparr>in_elements := el, in_indirect := ind\<rparr>) \<and>
    agrees p q \<and> ready el \<and> remaining el = rest \<and> ready ind \<and> is_all ind = is_all (in_indirect s)"
proof -
  let ?old = "old\<lparr>kp_tag := kp_tag p\<rparr>"
  define el where "el = (in_elements s)\<lparr>is_pos := is_pos (in_elements s) + 4\<rparr>"
  have read: "is_read (le_bytes 4 (unat (kp_tag old))) (in_elements s) = (le_bytes 4 (unat (kp_tag p)), el)" "ready el"
    "remaining el = value_bytes p (length before) @ rest"
    using read_front [OF assms(3), of "le_bytes 4 (unat (kp_tag p))" "value_bytes p (length before) @ rest" "le_bytes 4 (unat (kp_tag old))"] assms(4)
    by (simp_all add: element_bytes_def el_def)
  have "unat (kp_tag p) < 2 ^ 32" using unsigned_less [of "kp_tag p", where ?'a = nat] by simp
  then have "of_nat (le_nat (le_bytes 4 (unat (kp_tag p)))) = kp_tag p" by (simp add: le_nat_4)
  then have "deserialize_param resize old s = choose_deserializer resize all_tags ?old (s\<lparr>in_elements := el\<rparr>)"
    using read(1) by (simp add: deserialize_param_def)
  also have "\<dots> = deserializeParamValue resize ?old (s\<lparr>in_elements := el\<rparr>)"
    using assms(1) by (simp add: choose_deserializer_iff storable_def)
  finally have step: "deserialize_param resize old s = (if has_blob p then deserialize_blob resize ?old (s\<lparr>in_elements := el\<rparr>)
      else deserialize_number (width ?old) ?old (s\<lparr>in_elements := el\<rparr>))"
    using storable_typed [OF assms(1)] by (simp add: deserializeParamValue_cases typed_def has_blob_def)
  show ?thesis
  proof (cases "has_blob p")
    case True
    then show ?thesis
      using read_blob [of p "s\<lparr>in_elements := el\<rparr>" "length before" rest before after resize ?old] read(2,3) assms step
      by (auto simp: value_bytes_def kp_bytes_blob)
  next
    case False
    obtain q el2 where "deserialize_number (width ?old) ?old (s\<lparr>in_elements := el\<rparr>) = (q, s\<lparr>in_elements := el2\<rparr>)"
      "agrees p q" "ready el2" "remaining el2 = rest"
      using read_number [of p "s\<lparr>in_elements := el\<rparr>" rest ?old] False read(2,3) by (auto simp: value_bytes_def)
    moreover have "s\<lparr>in_elements := el2\<rparr> = s\<lparr>in_elements := el2, in_indirect := in_indirect s\<rparr>" by simp
    ultimately show ?thesis using step False assms(5) by (metis (no_types))
  qed
qed

lemma read_elements:
  assumes "\<forall>p \<in> set ps. storable p" "\<And>n b. length (resize n b) = n" "length olds = length ps"
    "ready (in_elements s)" "remaining (in_elements s) = elements_of ps (length before) @ rest"
    "ready (in_indirect s)" "is_all (in_indirect s) = before @ concat (map kp_bytes ps)"
    "length before + length (concat (map kp_bytes ps)) < 2 ^ 32"
  shows "\<exists>qs s'. deserialize_loop resize olds s = (qs, s') \<and> list_all2 agrees ps qs \<and> in_invalids s' = in_invalids s"
  using assms
proof (induction ps arbitrary: olds s before)
  case (Cons p ps)
  obtain old olds' where olds: "olds = old # olds'" using Cons.prems(3) by (cases olds) auto
  have "\<exists>q el ind. deserialize_param resize old s = (q, s\<lparr>in_elements := el, in_indirect := ind\<rparr>) \<and> agrees p q \<and>
      ready el \<and> remaining el = elements_of ps (length before + length (kp_bytes p)) @ rest \<and>
      ready ind \<and> is_all ind = is_all (in_indirect s)"
    using Cons.prems by (intro read_element [where before = before and after = "concat (map kp_bytes ps)"]) simp_all
  then obtain q el ind where step: "deserialize_param resize old s = (q, s\<lparr>in_elements := el, in_indirect := ind\<rparr>)"
    "agrees p q" "ready el" "remaining el = elements_of ps (length before + length (kp_bytes p)) @ rest"
    "ready ind" "is_all ind = is_all (in_indirect s)" by blast
  let ?s = "s\<lparr>in_elements := el, in_indirect := ind\<rparr>"
  have "\<exists>qs s'. deserialize_loop resize olds' ?s = (qs, s') \<and> list_all2 agrees ps qs \<and> in_invalids s' = in_invalids ?s"
    using Cons.prems step(3-6) olds by (intro Cons.IH [of olds' ?s "before @ kp_bytes p"]) simp_all
  then show ?case using step(1,2) by (fastforce simp: olds)
qed simp

text \<open>
  C34: What is stored can be read back: wherever the file stands in a stream and whatever the receiving set
  held, exactly the storable parameters come back, in their order, and the stream stands behind them.
\<close>
theorem stored_authorizations_read_back:
  assumes "serialize params = Some bytes" "length params < 2 ^ 32" "\<forall>n old. length (resize n old) = n"
    "\<not> is_fail inp" "is_all inp = before @ bytes @ after" "is_pos inp = length before"
  shows "\<exists>ps. deserialize resize olds inp = Some (ps, inp\<lparr>is_pos := length before + length bytes\<rparr>) \<and>
    list_all2 agrees (filter storable params) ps"
proof -
  let ?kept = "filter storable params"
  define indirect where "indirect = concat (map kp_bytes ?kept)"
  define elements where "elements = elements_of ?kept 0"
  define n where "n = length ?kept"
  let ?olds = "take n olds @ replicate (n - length olds) new_param"
  let ?start = "\<lparr>os_indirect = [], os_elements = [], os_bad = False, os_skipped = 0\<rparr>"
  have "\<not> os_bad (fold (choose_serializer all_tags) params ?start)"
    using assms(1) by (auto simp: serialize_def Let_def split: if_splits)
  note all = serialize_all [OF this, THEN conjunct2]
  have "length params - length (filter (\<lambda>p. \<not> storable p) params) = n"
    using sum_length_filter_compl [of storable params] by (simp add: n_def)
  then have sizes: "length indirect < 2 ^ 32" "length elements < 2 ^ 32" "n < 2 ^ 32"
    and bytes: "bytes = le_bytes 4 (length indirect) @ indirect @ le_bytes 4 n @ le_bytes 4 (length elements) @ elements"
    using assms(1,2) length_filter_le [of storable params] unfolding serialize_def all
    by (auto simp: Let_def indirect_def elements_def n_def split: if_splits)
  define at where "at = (\<lambda>k. inp\<lparr>is_pos := is_pos inp + k\<rparr>)"
  have at_start: "ready (at 0)" "remaining (at 0) = le_bytes 4 (length indirect) @ indirect @ le_bytes 4 n @
      le_bytes 4 (length elements) @ elements @ after"
    using assms(4-6) bytes by (simp_all add: at_def ready_def remaining_def)
  have step: "is_read old (at k) = (bs, at (k + length bs)) \<and> ready (at (k + length bs)) \<and> remaining (at (k + length bs)) = rest"
    if "ready (at k)" "remaining (at k) = bs @ rest" "length old = length bs" for old k bs rest
    using read_front [OF that] by (simp add: at_def add.assoc)
  note r1 = step [OF at_start, of "zeros 4"]
  note r2 = step [of 4 indirect _ "zeros (length indirect)"]
  note r3 = step [of "4 + length indirect" "le_bytes 4 n" _ "zeros 4"]
  note r4 = step [of "4 + length indirect + 4" "le_bytes 4 (length elements)" _ "zeros 4"]
  note r5 = step [of "4 + length indirect + 4 + 4" elements after "zeros (length elements)"]
  have ls: "length (zeros k) = k" for k by (simp add: zeros_def)
  let ?s = "\<lparr>in_indirect = stringstream indirect, in_elements = stringstream elements, in_invalids = 0\<rparr>"
  have "\<exists>qs s'. deserialize_loop resize ?olds ?s = (qs, s') \<and> list_all2 agrees ?kept qs \<and> in_invalids s' = in_invalids ?s"
    using assms(3) sizes(1)
    by (intro read_elements [where before = "[]" and rest = "[]"])
      (simp_all add: stringstream_def ready_def remaining_def indirect_def elements_def n_def min_def)
  then obtain qs s' where loop: "deserialize_loop resize ?olds ?s = (qs, s')" "list_all2 agrees ?kept qs" "in_invalids s' = 0"
    by auto
  have "deserialize resize olds (at 0) = Some (qs, at (length bytes))"
    using r1 r2 r3 r4 r5 sizes loop unfolding deserialize_def
    by (simp add: ls le_nat_4 Let_def filter_invalid_def bytes add.assoc)
  moreover have "at 0 = inp" "at (length bytes) = inp\<lparr>is_pos := length before + length bytes\<rparr>"
    using assms(6) by (simp_all add: at_def)
  ultimately show ?thesis using loop(2) by auto
qed

definition stored_sample :: "KeyParameter list" where
  "stored_sample =
     [\<lparr>kp_tag = 0x900002c4, kp_f = 0, kp_blob = [1, 2]\<rparr>, \<lparr>kp_tag = 0x900003ed, kp_f = 0, kp_blob = [7]\<rparr>,
      \<lparr>kp_tag = 0x700001f7, kp_f = 1, kp_blob = []\<rparr>]"

definition sample_bytes :: "u8 list" where
  "sample_bytes = [2,0,0,0, 1,2, 2,0,0,0, 17,0,0,0, 0xc4,2,0,0x90, 2,0,0,0, 0,0,0,0, 0xf7,1,0,0x70, 1]"

definition sample_stream :: istream where
  "sample_stream = \<lparr>is_all = [9] @ sample_bytes @ [9], is_pos = 1, is_fail = False\<rparr>"

theorem stored_authorizations_read_back_witness:
  "\<exists>ps. deserialize (\<lambda>n old. replicate n 0) [] sample_stream = Some (ps, sample_stream\<lparr>is_pos := 32\<rparr>) \<and>
    map kp_tag ps = [0x900002c4, 0x700001f7] \<and> map kp_bytes ps = [[1, 2], []]"
proof -
  have "serialize stored_sample = Some sample_bytes"
    by (simp add: stored_sample_def serialize_def choose_serializer_iff all_tags_def serializeParamValue_def typeFromTag_def
      serialize_blob_def write_element_def le_bytes_def sample_bytes_def upt_rec Let_def)
  moreover have "length stored_sample < 2 ^ 32" by (simp add: stored_sample_def)
  moreover have kept: "filter storable stored_sample =
      [\<lparr>kp_tag = 0x900002c4, kp_f = 0, kp_blob = [1, 2]\<rparr>, \<lparr>kp_tag = 0x700001f7, kp_f = 1, kp_blob = []\<rparr>]"
    by (simp add: stored_sample_def storable_def all_tags_def)
  ultimately have "\<exists>ps. deserialize (\<lambda>n old. replicate n 0) [] sample_stream =
      Some (ps, sample_stream\<lparr>is_pos := length [9 :: u8] + length sample_bytes\<rparr>) \<and>
    list_all2 agrees (filter storable stored_sample) ps"
    by (intro stored_authorizations_read_back [where after = "[9]"]) (simp_all add: sample_stream_def)
  then obtain ps where "deserialize (\<lambda>n old. replicate n 0) [] sample_stream = Some (ps, sample_stream\<lparr>is_pos := 32\<rparr>)"
    "list_all2 agrees (filter storable stored_sample) ps" by (auto simp: sample_bytes_def)
  then show ?thesis unfolding kept
    by (auto simp: list_all2_Cons1 agrees_def kp_bytes_blob has_blob_def typeFromTag_def)
qed

subsection \<open>What is lost\<close>

lemma serialize_kept_only:
  "os_bad (fold (choose_serializer all_tags) ps out) = os_bad (fold (choose_serializer all_tags) (filter storable ps) out') \<and>
   os_elements (fold (choose_serializer all_tags) ps out) =
     os_elements (fold (choose_serializer all_tags) (filter storable ps) out') \<and>
   os_indirect (fold (choose_serializer all_tags) ps out) =
     os_indirect (fold (choose_serializer all_tags) (filter storable ps) out') \<and>
   os_skipped (fold (choose_serializer all_tags) ps out) =
     os_skipped out + length (filter (\<lambda>p. \<not> storable p) ps) \<and>
   os_skipped (fold (choose_serializer all_tags) (filter storable ps) out') = os_skipped out'"
  if "os_bad out = os_bad out'" "os_elements out = os_elements out'" "os_indirect out = os_indirect out'"
  using that
proof (induction ps arbitrary: out out')
  case (Cons p ps)
  show ?case
  proof (cases "storable p")
    case True
    then have step: "choose_serializer all_tags p s = serializeParamValue p (write_element (le_bytes 4 (unat (kp_tag p))) s)" for s
      by (simp add: choose_serializer_iff storable_def)
    define o1 where "o1 = choose_serializer all_tags p out"
    define o2 where "o2 = choose_serializer all_tags p out'"
    have "os_bad o1 = os_bad o2" "os_elements o1 = os_elements o2" "os_indirect o1 = os_indirect o2"
      "os_skipped o1 = os_skipped out" "os_skipped o2 = os_skipped out'"
      unfolding o1_def o2_def step serializeParamValue_cases
      using Cons.prems by (auto simp: serialize_blob_def write_element_def Let_def)
    then show ?thesis using Cons.IH [of o1 o2] True by (simp add: o1_def o2_def)
  next
    case False
    then have "choose_serializer all_tags p out = out\<lparr>os_skipped := os_skipped out + 1\<rparr>"
      by (auto simp: choose_serializer_iff storable_def)
    then show ?thesis using Cons.IH [of "out\<lparr>os_skipped := os_skipped out + 1\<rparr>" out'] Cons.prems False by simp
  qed
qed simp

text \<open>
  A parameter whose tag is not in the list of storable tags leaves no trace in the file, and that is so for
  the confirmation token and the attestation identifiers, which are blobs like the others.
\<close>
theorem unlisted_tags_dropped:
  "serialize params = serialize (filter storable params) \<and>
   (\<forall>p. kp_tag p \<in> set unlisted_tags \<longrightarrow> typeFromTag (kp_tag p) = Some BYTES \<and> serialize [p] = serialize [])"
proof -
  have dropped: "serialize params = serialize (filter storable params)" for params
  proof -
    let ?start = "\<lparr>os_indirect = [], os_elements = [], os_bad = False, os_skipped = 0\<rparr>"
    note same = serialize_kept_only [of ?start ?start params, simplified]
    have "length params - length (filter (\<lambda>p. \<not> storable p) params) = length (filter storable params)"
      using sum_length_filter_compl [of storable params] by simp
    then show ?thesis using same by (simp add: serialize_def Let_def)
  qed
  have unlisted: "list_all (\<lambda>t. typeFromTag t = Some BYTES \<and> t \<notin> set all_tags) unlisted_tags" by code_simp
  have "typeFromTag (kp_tag p) = Some BYTES \<and> serialize [p] = serialize []"
    if "kp_tag p \<in> set unlisted_tags" for p
  proof -
    have "typeFromTag (kp_tag p) = Some BYTES" "\<not> storable p"
      using that unlisted by (auto simp: storable_def list_all_iff)
    then show ?thesis using dropped [of "[p]"] by simp
  qed
  then show ?thesis using dropped by blast
qed

theorem unlisted_tags_dropped_witness:
  "serialize [\<lparr>kp_tag = 0x900003ed, kp_f = 0, kp_blob = [7]\<rparr>] = serialize []"
  using unlisted_tags_dropped [of "[]", THEN conjunct2, THEN spec, of "\<lparr>kp_tag = 0x900003ed, kp_f = 0, kp_blob = [7]\<rparr>"]
  by (simp add: unlisted_tags_def)

text \<open>The invalid entries are counted, and only they.\<close>

lemma deserialize_param_counts:
  "deserialize_param resize old s = (p, s') \<Longrightarrow>
    in_invalids s' = in_invalids s + (if kp_tag p = 0 then 1 else 0)"
proof -
  have number: "in_invalids (snd (deserialize_number k p s)) = in_invalids s \<and>
      kp_tag (fst (deserialize_number k p s)) = kp_tag p" for k p s
    by (simp add: deserialize_number_def Let_def split: prod.splits)
  have blob: "in_invalids (snd (deserialize_blob resize p s)) = in_invalids s \<and>
      kp_tag (fst (deserialize_blob resize p s)) = kp_tag p" for p s
    by (simp add: deserialize_blob_def Let_def split: prod.splits)
  have param: "in_invalids (snd (deserializeParamValue resize p s)) = in_invalids s \<and>
      kp_tag (fst (deserializeParamValue resize p s)) = kp_tag p" for p s
    using number blob by (simp add: deserializeParamValue_def split: option.splits)
  have "0 \<in> set all_tags" by (simp add: all_tags_def)
  then have chosen: "in_invalids (snd (choose_deserializer resize all_tags p s)) =
      in_invalids s + (if kp_tag (fst (choose_deserializer resize all_tags p s)) = 0 then 1 else 0)" for p s
    using param by (auto simp: choose_deserializer_iff)
  assume "deserialize_param resize old s = (p, s')"
  then obtain tag el where
    "choose_deserializer resize all_tags (old\<lparr>kp_tag := of_nat (le_nat tag)\<rparr>) (s\<lparr>in_elements := el\<rparr>) = (p, s')"
    by (auto simp: deserialize_param_def split: prod.splits)
  then show ?thesis using chosen [of "old\<lparr>kp_tag := of_nat (le_nat tag)\<rparr>" "s\<lparr>in_elements := el\<rparr>"] by simp
qed

lemma deserialize_loop_counts:
  "deserialize_loop resize olds s = (ps, s') \<Longrightarrow>
    in_invalids s' = in_invalids s + length (filter (\<lambda>p. kp_tag p = 0) ps) \<and> length ps = length olds"
  by (induction olds arbitrary: s ps s')
    (auto dest!: deserialize_param_counts split: prod.splits)

text \<open>
  Whatever bytes a stream delivers, reading them stays inside the vectors it fills and gives no more
  parameters than the file announces, none of them invalid.
\<close>
theorem reading_filters_invalid_entries:
  "\<exists>ps inp'. deserialize resize olds inp = Some (ps, inp') \<and> (\<forall>p \<in> set ps. kp_tag p \<noteq> 0) \<and> length ps < 2 ^ 32"
proof -
  have "length (fst (is_read (zeros 4) s)) = 4" for s by (simp add: is_read_def Let_def zeros_def min_def)
  then have count: "le_nat (fst (is_read (zeros 4) s)) < 2 ^ 32" for s
    using le_nat_less [of "fst (is_read (zeros 4) s)"] by simp
  have filtered: "\<exists>qs. filter_invalid (in_invalids s') ps = Some qs \<and> (\<forall>p \<in> set qs. kp_tag p \<noteq> 0) \<and> length qs \<le> length ps"
    if "in_invalids s' = length (filter (\<lambda>p. kp_tag p = 0) ps)" for s' ps
  proof (cases "in_invalids s' = 0")
    case True
    then show ?thesis using that by (auto simp: filter_invalid_def filter_empty_conv)
  next
    case False
    have "length (filter (\<lambda>p. kp_tag p \<noteq> 0) ps) = length ps - in_invalids s'"
      using sum_length_filter_compl [of "\<lambda>p. kp_tag p = 0" ps] that by simp
    then show ?thesis using False by (auto simp: filter_invalid_def Let_def)
  qed
  show ?thesis
  proof -
    obtain a1 i1 where 1: "is_read (zeros 4) inp = (a1, i1)" by (rule prod.exhaust)
    obtain ind i2 where 2: "is_read (zeros (le_nat a1)) i1 = (ind, i2)" by (rule prod.exhaust)
    obtain a3 i3 where 3: "is_read (zeros 4) i2 = (a3, i3)" by (rule prod.exhaust)
    obtain a4 i4 where 4: "is_read (zeros 4) i3 = (a4, i4)" by (rule prod.exhaust)
    obtain el inp' where 5: "is_read (zeros (le_nat a4)) i4 = (el, inp')" by (rule prod.exhaust)
    define n where "n = le_nat a3"
    have read: "deserialize resize olds inp =
        (case deserialize_loop resize (take n olds @ replicate (n - length olds) new_param)
          \<lparr>in_indirect = stringstream ind, in_elements = stringstream el, in_invalids = 0\<rparr> of
        (params, s) \<Rightarrow> map_option (\<lambda>ps. (ps, inp')) (filter_invalid (in_invalids s) params))" "n < 2 ^ 32"
      using count [of i2] by (simp_all add: deserialize_def Let_def 1 2 3 4 5 n_def)
    obtain ps s' where loop: "deserialize_loop resize (take n olds @ replicate (n - length olds) new_param)
          \<lparr>in_indirect = stringstream ind, in_elements = stringstream el, in_invalids = 0\<rparr> = (ps, s')"
      by (rule prod.exhaust)
    note counts = deserialize_loop_counts [OF loop]
    have "length ps = n" using counts by (simp add: min_def)
    then show ?thesis using filtered [of s' ps] counts read loop by fastforce
  qed
qed

end
