(* ===== verification/KeyTokens.thy ===== *)
theory KeyTokens
  imports KeyAuthorizations
begin

text \<open>
  The helpers of the Keymaster support library for authentication tokens and for the agreement of several
  Keymaster devices on a shared key (\<open>keymaster/4.0/support/keymaster_utils.cpp\<close> and the second half of
  \<open>Keymaster.cpp\<close>).

  The host is little-endian. C leaves open which negative number \<open>memcmp\<close> returns, so it is a parameter.
  A device is what its calls return; a call that succeeds has run its callback once. A failed \<open>CHECK\<close> ends
  the process and is \<open>None\<close>.
\<close>

subsection \<open>Tokens as vectors of bytes\<close>

definition kHmacSize :: nat where
  "kHmacSize = 32"

definition authToken2HidlVec :: "HardwareAuthToken \<Rightarrow> u8 list" where
  "authToken2HidlVec token =
     [0] @ le_bytes 8 (unat (challenge token)) @ le_bytes 8 (unat (userId token)) @
     le_bytes 8 (unat (authenticatorId token)) @ rev (le_bytes 4 (unat (authenticatorType token))) @
     rev (le_bytes 8 (unat (timestamp token))) @
     (if length (mac token) \<noteq> kHmacSize then replicate kHmacSize 0 else mac token)"

definition hidlVec2AuthToken :: "u8 list \<Rightarrow> HardwareAuthToken" where
  "hidlVec2AuthToken buffer =
     (if length buffer \<noteq> 1 + 8 + 8 + 8 + 4 + 8 + kHmacSize then no_token
      else let pos = drop 1 buffer in
        \<lparr>challenge = of_nat (le_nat (take 8 pos)), userId = of_nat (le_nat (take 8 (drop 8 pos))),
         authenticatorId = of_nat (le_nat (take 8 (drop 16 pos))),
         authenticatorType = of_nat (le_nat (rev (take 4 (drop 24 pos)))),
         timestamp = of_nat (le_nat (rev (take 8 (drop 28 pos)))), mac = take kHmacSize (drop 36 pos)\<rparr>)"

lemma le_bytes_le_nat: "length bs = k \<Longrightarrow> le_bytes k (le_nat bs) = bs"
proof (induction bs arbitrary: k)
  case (Cons b bs)
  have "unat b < 256" using unsigned_less [of b, where ?'a = nat] by simp
  moreover have "(of_nat (unat b + 256 * n) :: u8) = b" for n
  proof -
    have "(256 :: u8) = 0" by simp
    then have "(of_nat (256 * n) :: u8) = 0" by (simp only: of_nat_mult of_nat_numeral) simp
    then show ?thesis by (simp only: of_nat_add) simp
  qed
  ultimately show ?case using Cons by (cases k) (simp_all add: le_bytes_Suc le_nat_def)
qed (simp add: le_bytes_def)

lemma bytes_word_bytes:
  "length bs = 8 \<Longrightarrow> le_bytes 8 (unat (of_nat (le_nat bs) :: 64 word)) = bs"
  "length bs = 4 \<Longrightarrow> le_bytes 4 (unat (of_nat (le_nat bs) :: u32)) = bs"
  using le_nat_less [of bs] by (simp_all add: unat_of_nat le_bytes_le_nat)

text \<open>
  A token survives the way through its byte vector; only a tag of the wrong length is replaced by zeros. A
  vector of the right length survives the way through a token up to its version byte, and any other one
  gives the empty token.
\<close>
theorem auth_token_vector_roundtrip:
  "hidlVec2AuthToken (authToken2HidlVec token) =
     token\<lparr>mac := if length (mac token) = 32 then mac token else replicate 32 0\<rparr> \<and>
   (if length buffer = 69 then authToken2HidlVec (hidlVec2AuthToken buffer) = 0 # tl buffer
    else hidlVec2AuthToken buffer = no_token)"
proof
  show "hidlVec2AuthToken (authToken2HidlVec token) =
     token\<lparr>mac := if length (mac token) = 32 then mac token else replicate 32 0\<rparr>"
    by (simp add: hidlVec2AuthToken_def authToken2HidlVec_def kHmacSize_def Let_def word_le_bytes)
  show "if length buffer = 69 then authToken2HidlVec (hidlVec2AuthToken buffer) = 0 # tl buffer
    else hidlVec2AuthToken buffer = no_token"
  proof (cases "length buffer = 69")
    case True
    then obtain v pos where buffer: "buffer = v # pos" "length pos = 68" by (cases buffer) auto
    have split: "take m (drop k pos) @ drop (k + m) pos = drop k pos" for k m
      by (metis add.commute append_take_drop_id drop_drop)
    have "take 32 (drop 36 pos) = drop 36 pos" using buffer(2) by simp
    then have "take 8 pos @ take 8 (drop 8 pos) @ take 8 (drop 16 pos) @ take 4 (drop 24 pos) @ take 8 (drop 28 pos) @
        take 32 (drop 36 pos) = pos"
      using split [of 8 28] split [of 4 24] split [of 8 16] split [of 8 8] split [of 8 0] by simp
    then show ?thesis using True buffer
      by (simp add: hidlVec2AuthToken_def authToken2HidlVec_def kHmacSize_def Let_def bytes_word_bytes)
  qed (simp add: hidlVec2AuthToken_def kHmacSize_def)
qed

subsection \<open>Agreement on a shared key\<close>

record HmacSharingParameters =
  hp_seed :: "u8 list"
  hp_nonce :: "u8 list" \<comment> \<open>an array of 32 bytes\<close>

type_synonym comparer = "u8 list \<Rightarrow> u8 list \<Rightarrow> nat \<Rightarrow> int"

definition vec_less :: "comparer \<Rightarrow> u8 list \<Rightarrow> u8 list \<Rightarrow> bool" where
  "vec_less cmp a b =
     (let result = cmp a b (min (length a) (length b)) in
      if result = 0 then length a < length b else result < 0)"

definition array_less :: "comparer \<Rightarrow> nat \<Rightarrow> u8 list \<Rightarrow> u8 list \<Rightarrow> bool" where
  "array_less cmp n a b \<longleftrightarrow> cmp a b n = -1"

definition hmac_less :: "comparer \<Rightarrow> HmacSharingParameters \<Rightarrow> HmacSharingParameters \<Rightarrow> bool" where
  "hmac_less cmp a b \<longleftrightarrow> vec_less cmp (hp_seed a) (hp_seed b) \<or>
     (\<not> vec_less cmp (hp_seed b) (hp_seed a) \<and> array_less cmp 32 (hp_nonce a) (hp_nonce b))"

record keymaster_device =
  km_major :: nat
  km_params :: "HmacSharingParameters option" \<comment> \<open>\<open>None\<close> when the call fails or reports an error\<close>
  km_compute :: "HmacSharingParameters list \<Rightarrow> u8 list option"

fun collect_params :: "keymaster_device list \<Rightarrow> HmacSharingParameters list option" where
  "collect_params [] = Some []"
| "collect_params (km # kms) =
     (if km_major km < 4 then collect_params kms
      else case km_params km of
        None \<Rightarrow> None
      | Some ps \<Rightarrow> map_option ((#) ps) (collect_params kms))"

definition getHmacParameters ::
    "HmacSharingParameters sorter \<Rightarrow> comparer \<Rightarrow> keymaster_device list \<Rightarrow> HmacSharingParameters list option" where
  "getHmacParameters std_sort cmp kms = map_option (std_sort (hmac_less cmp)) (collect_params kms)"

text \<open>The result says for each device that computed the key whether its check is the one of the first device.\<close>

fun compute_loop ::
    "HmacSharingParameters list \<Rightarrow> u8 list option \<Rightarrow> keymaster_device list \<Rightarrow> bool list option" where
  "compute_loop params sharing_check [] = Some []"
| "compute_loop params sharing_check (km # kms) =
     (if km_major km < 4 then compute_loop params sharing_check kms
      else case km_compute km params of
        None \<Rightarrow> None
      | Some check \<Rightarrow>
          let expected = (case sharing_check of None \<Rightarrow> check | Some c \<Rightarrow> c)
          in map_option ((#) (check = expected)) (compute_loop params (Some expected) kms))"

definition computeHmac :: "keymaster_device list \<Rightarrow> HmacSharingParameters list \<Rightarrow> bool list option" where
  "computeHmac kms params = (if length params = 0 then Some [] else compute_loop params None kms)"

definition performHmacKeyAgreement ::
    "HmacSharingParameters sorter \<Rightarrow> comparer \<Rightarrow> keymaster_device list \<Rightarrow> bool list option" where
  "performHmacKeyAgreement std_sort cmp kms =
     (case getHmacParameters std_sort cmp kms of None \<Rightarrow> None | Some params \<Rightarrow> computeHmac kms params)"

text \<open>A \<open>memcmp\<close> that returns -1, 0 and 1 only, and the order it gives.\<close>

definition unit_memcmp :: comparer where
  "unit_memcmp a b n = sgn (memcmp a b n)"

definition proper :: "HmacSharingParameters \<Rightarrow> bool" where
  "proper p \<longleftrightarrow> length (hp_nonce p) = 32"

definition hmac_key :: "HmacSharingParameters \<Rightarrow> u8 list \<times> u8 list" where
  "hmac_key p = (hp_seed p, hp_nonce p)"

lemma hmac_key_inj: "hmac_key p = hmac_key q \<Longrightarrow> p = q"
  by (cases p; cases q) (simp add: hmac_key_def)

lemma sgn_sign: "sgn i = 0 \<longleftrightarrow> i = 0" "sgn i < 0 \<longleftrightarrow> i < 0" "sgn i = -1 \<longleftrightarrow> i < 0" for i :: int
  by (simp_all add: sgn_if)

lemma vec_less_iff: "vec_less unit_memcmp a b \<longleftrightarrow> a < b"
  using memcmp_less [of a b] unfolding vec_less_def unit_memcmp_def Let_def sgn_sign .

lemma array_less_iff: "length a = n \<Longrightarrow> length b = n \<Longrightarrow> array_less unit_memcmp n a b \<longleftrightarrow> a < b"
  using memcmp_less [of a b] unfolding array_less_def unit_memcmp_def sgn_sign by (simp split: if_splits)

lemma hmac_less_key: "proper a \<Longrightarrow> proper b \<Longrightarrow> hmac_less unit_memcmp a b \<longleftrightarrow> hmac_key a < hmac_key b"
  by (auto simp: hmac_less_def vec_less_iff array_less_iff proper_def hmac_key_def)

lemma sorted_key_unique:
  assumes "mset xs = mset ys" "sorted (map f xs)" "sorted (map f ys)" "\<And>x y. f x = f y \<Longrightarrow> x = y"
  shows "xs = ys"
proof -
  have "mset (map f xs) = mset (map f ys)" using assms(1) by simp
  then have "map f xs = map f ys" using assms(2,3) properties_for_sort by metis
  moreover have "inj f" using assms(4) by (rule injI)
  ultimately show ?thesis by simp
qed

lemma hmac_sort_unique:
  assumes "is_std_sort std_sort" "mset xs = mset ys" "\<forall>p \<in> set xs. proper p"
  shows "std_sort (hmac_less unit_memcmp) xs = std_sort (hmac_less unit_memcmp) ys"
proof -
  let ?sort = "std_sort (hmac_less unit_memcmp)"
  have sort: "mset (?sort zs) = mset zs \<and> sorted (map hmac_key (?sort zs))" if "\<forall>p \<in> set zs. proper p" for zs
  proof -
    have "strict_weak_on (set zs) (hmac_less unit_memcmp)"
      using that by (intro strict_weak_onI [where f = hmac_key] hmac_less_key) auto
    note facts = is_std_sortD [OF assms(1) this]
    have "set (?sort zs) = set zs" using facts(1) by (rule mset_eq_setD)
    then have "sorted_wrt (\<lambda>a b. hmac_key a \<le> hmac_key b) (?sort zs)"
      using that by (intro sorted_wrt_mono_rel [OF _ facts(2)]) (auto simp: hmac_less_key not_less)
    then show ?thesis using facts(1) by (simp add: sorted_map)
  qed
  have "\<forall>p \<in> set ys. proper p" using assms(2,3) mset_eq_setD by metis
  then show ?thesis using sort [OF assms(3)] sort [of ys] assms(2) by (intro sorted_key_unique [of _ _ hmac_key] hmac_key_inj) auto
qed

text \<open>What is collected is a list that depends on the order of the devices only by its own order.\<close>

definition speakers :: "keymaster_device list \<Rightarrow> keymaster_device list" where
  "speakers kms = filter (\<lambda>km. 4 \<le> km_major km) kms"

lemma collect_params_alt: "collect_params kms =
    (if \<forall>km \<in> set (speakers kms). km_params km \<noteq> None then Some (map (the \<circ> km_params) (speakers kms)) else None)"
  by (induction kms) (auto simp: speakers_def split: option.splits)

text \<open>
  C35: With a \<open>memcmp\<close> that returns -1 for less, the devices agree on one list of parameters: in whatever order
  the devices are found, each of them that knows version 4 is given the same sorted list, to which all
  of them have contributed. With one that returns the difference of the bytes, the comparison that
  \<open>std::sort\<close> is given is no order at all.
\<close>
theorem hmac_parameters_order_independent:
  assumes "is_std_sort std_sort" "mset kms = mset kms'" "\<forall>km \<in> set kms. \<forall>p. km_params km = Some p \<longrightarrow> proper p"
  shows "getHmacParameters std_sort unit_memcmp kms = getHmacParameters std_sort unit_memcmp kms' \<and>
    (\<forall>params. getHmacParameters std_sort unit_memcmp kms = Some params \<longrightarrow>
      mset (map Some params) = mset (map km_params (speakers kms))) \<and>
    \<not> strict_weak_on {p. proper p} (hmac_less memcmp)"
proof (intro conjI)
  have mset: "mset (speakers kms) = mset (speakers kms')" using assms(2) by (simp add: speakers_def)
  then have set: "set (speakers kms) = set (speakers kms')" by (rule mset_eq_setD)
  let ?params = "\<lambda>kms. map (the \<circ> km_params) (speakers kms)"
  have proper: "\<forall>p \<in> set (?params kms). proper p" if "\<forall>km \<in> set (speakers kms). km_params km \<noteq> None"
    using that assms(3) by (auto simp: speakers_def)
  have "mset (?params kms) = mset (?params kms')" using mset by simp
  then show "getHmacParameters std_sort unit_memcmp kms = getHmacParameters std_sort unit_memcmp kms'"
    using hmac_sort_unique [OF assms(1), of "?params kms" "?params kms'"] proper set
    by (auto simp: getHmacParameters_def collect_params_alt)
  show "\<forall>params. getHmacParameters std_sort unit_memcmp kms = Some params \<longrightarrow>
      mset (map Some params) = mset (map km_params (speakers kms))"
  proof (intro allI impI)
    fix params assume "getHmacParameters std_sort unit_memcmp kms = Some params"
    then have some: "\<forall>km \<in> set (speakers kms). km_params km \<noteq> None"
      and params: "params = std_sort (hmac_less unit_memcmp) (?params kms)"
      by (auto simp: getHmacParameters_def collect_params_alt split: if_splits)
    have "strict_weak_on (set (?params kms)) (hmac_less unit_memcmp)"
      using proper [OF some] by (intro strict_weak_onI [where f = hmac_key] hmac_less_key) auto
    then have "mset params = mset (?params kms)" unfolding params by (rule is_std_sortD(1) [OF assms(1)])
    then have "mset (map Some params) = mset (map Some (?params kms))" by (simp only: mset_map)
    also have "map Some (?params kms) = map km_params (speakers kms)" using some by auto
    finally show "mset (map Some params) = mset (map km_params (speakers kms))" .
  qed
  define p where "p = (\<lambda>x :: u8. \<lparr>hp_seed = [], hp_nonce = x # replicate 31 0\<rparr>)"
  have tail: "memcmp (replicate n 0) (replicate n 0) m = 0" for n m
    by (induction n arbitrary: m) (auto simp: memcmp.simps, case_tac m, simp_all)
  have "proper (p x)" for x by (simp add: p_def proper_def)
  moreover have less: "hmac_less memcmp (p x) (p y) \<longleftrightarrow> int (unat x) - int (unat y) = -1" for x y
    using tail [of 31 31] by (auto simp: hmac_less_def vec_less_def array_less_def p_def numeral_eq_Suc)
  then have "hmac_less memcmp (p 0) (p 1)" "\<not> hmac_less memcmp (p 0) (p 5)" "\<not> hmac_less memcmp (p 5) (p 0)"
    "\<not> hmac_less memcmp (p 5) (p 1)" "\<not> hmac_less memcmp (p 1) (p 5)" by simp_all
  ultimately show "\<not> strict_weak_on {p. proper p} (hmac_less memcmp)" unfolding strict_weak_on_def by blast
qed

definition two_devices :: "keymaster_device list" where
  "two_devices =
     [\<lparr>km_major = 4, km_params = Some \<lparr>hp_seed = [2], hp_nonce = replicate 32 7\<rparr>, km_compute = \<lambda>_. Some []\<rparr>,
      \<lparr>km_major = 4, km_params = Some \<lparr>hp_seed = [1], hp_nonce = replicate 32 9\<rparr>, km_compute = \<lambda>_. Some []\<rparr>]"

theorem hmac_parameters_order_independent_witness:
  "getHmacParameters insertion_sort unit_memcmp two_devices = getHmacParameters insertion_sort unit_memcmp (rev two_devices)"
proof -
  have "\<forall>km \<in> set two_devices. \<forall>p. km_params km = Some p \<longrightarrow> proper p" by (simp add: two_devices_def proper_def)
  then show ?thesis
    using hmac_parameters_order_independent [OF insertion_sort_sorts, of two_devices "rev two_devices"] by simp
qed

end
