(* ===== verification/BroadcastUtils.thy ===== *)
theory BroadcastUtils
  imports Prelude "HOL-Library.Word"
begin

unbundle bit_operations_syntax

text \<open>
  The helpers of the broadcast radio HALs (\<open>broadcastradio/common/utils2x/Utils.cpp\<close>) and the structs of
  \<open>broadcastradio/2.0/types.hal\<close> they work on: program selectors are made of typed identifiers, and the
  helpers match, validate, filter and build them.

  An identifier type is its number, as in the structs. An unordered set of programs is a list without two
  programs of one key; the order of its elements means nothing.
\<close>

subsection \<open>Selectors\<close>

type_synonym u64 = "64 word"

record ProgramIdentifier =
  pi_type :: u32
  pi_value :: u64

record ProgramSelector =
  primaryId :: ProgramIdentifier
  secondaryIds :: "ProgramIdentifier list"

record Metadata =
  md_key :: u32
  md_intValue :: i64
  md_stringValue :: string

record ProgramInfo =
  pinfo_selector :: ProgramSelector
  logicallyTunedTo :: ProgramIdentifier
  physicallyTunedTo :: ProgramIdentifier
  infoFlags :: u32
  signalQuality :: u32
  pinfo_metadata :: "Metadata list"

record ProgramListChunk =
  purge :: bool
  chunk_complete :: bool
  modified :: "ProgramInfo list"
  removed :: "ProgramIdentifier list"

record ProgramFilter =
  identifierTypes :: "u32 list"
  identifiers :: "ProgramIdentifier list"
  includeCategories :: bool
  excludeModifications :: bool

abbreviation (input) ID_INVALID :: u32 where "ID_INVALID \<equiv> 0"
abbreviation (input) AMFM_FREQUENCY :: u32 where "AMFM_FREQUENCY \<equiv> 1"
abbreviation (input) RDS_PI :: u32 where "RDS_PI \<equiv> 2"
abbreviation (input) HD_STATION_ID_EXT :: u32 where "HD_STATION_ID_EXT \<equiv> 3"
abbreviation (input) HD_STATION_NAME :: u32 where "HD_STATION_NAME \<equiv> 4"
abbreviation (input) DAB_SID_EXT :: u32 where "DAB_SID_EXT \<equiv> 5"
abbreviation (input) DAB_ENSEMBLE :: u32 where "DAB_ENSEMBLE \<equiv> 6"
abbreviation (input) DAB_SCID :: u32 where "DAB_SCID \<equiv> 7"
abbreviation (input) DAB_FREQUENCY :: u32 where "DAB_FREQUENCY \<equiv> 8"
abbreviation (input) DRMO_SERVICE_ID :: u32 where "DRMO_SERVICE_ID \<equiv> 9"
abbreviation (input) DRMO_FREQUENCY :: u32 where "DRMO_FREQUENCY \<equiv> 10"
abbreviation (input) SXM_SERVICE_ID :: u32 where "SXM_SERVICE_ID \<equiv> 12"
abbreviation (input) SXM_CHANNEL :: u32 where "SXM_CHANNEL \<equiv> 13"

text \<open>The positions of an \<open>IdentifierIterator\<close>: the primary identifier, then the others.\<close>

definition all_ids :: "ProgramSelector \<Rightarrow> ProgramIdentifier list" where
  "all_ids sel = primaryId sel # secondaryIds sel"

datatype FrequencyBand = UNKNOWN_BAND | FM_BAND | AM_LW | AM_MW | AM_SW

definition getBand :: "u64 \<Rightarrow> FrequencyBand" where
  "getBand freq =
     (if freq < 30 then UNKNOWN_BAND
      else if freq < 500 then AM_LW
      else if freq < 1705 then AM_MW
      else if freq < 30000 then AM_SW
      else if freq < 60000 then UNKNOWN_BAND
      else if freq < 110000 then FM_BAND
      else UNKNOWN_BAND)"

fun find_id :: "u32 \<Rightarrow> ProgramIdentifier list \<Rightarrow> u64 option" where
  "find_id t [] = None"
| "find_id t (i # ids) = (if pi_type i = t then Some (pi_value i) else find_id t ids)"

definition maybeGetId :: "ProgramSelector \<Rightarrow> u32 \<Rightarrow> u64 option" where
  "maybeGetId sel t =
     (if pi_type (primaryId sel) = t then Some (pi_value (primaryId sel)) else find_id t (secondaryIds sel))"

definition hasId :: "ProgramSelector \<Rightarrow> u32 \<Rightarrow> bool" where
  "hasId sel t \<longleftrightarrow> maybeGetId sel t \<noteq> None"

definition getId :: "ProgramSelector \<Rightarrow> u32 \<Rightarrow> u64" where
  "getId sel t = (case maybeGetId sel t of Some val \<Rightarrow> val | None \<Rightarrow> 0)"

definition getId_or :: "ProgramSelector \<Rightarrow> u32 \<Rightarrow> u64 \<Rightarrow> u64" where
  "getId_or sel t defval = (if \<not> hasId sel t then defval else getId sel t)"

definition getAllIds :: "ProgramSelector \<Rightarrow> u32 \<Rightarrow> u64 list" where
  "getAllIds sel t =
     (if pi_type (primaryId sel) = t then [pi_value (primaryId sel)] else []) @
     map pi_value (filter (\<lambda>i. pi_type i = t) (secondaryIds sel))"

definition haveEqualIds :: "ProgramSelector \<Rightarrow> ProgramSelector \<Rightarrow> u32 \<Rightarrow> bool" where
  "haveEqualIds a b t = (if \<not> (hasId a t \<and> hasId b t) then False else getId a t = getId b t)"

definition getHdSubchannel :: "ProgramSelector \<Rightarrow> u64" where
  "getHdSubchannel sel = (drop_bit 32 (getId_or sel HD_STATION_ID_EXT 0)) AND 0xF"

definition tunesTo :: "ProgramSelector \<Rightarrow> ProgramSelector \<Rightarrow> bool" where
  "tunesTo a b =
     (let t = pi_type (primaryId b) in
      if t = HD_STATION_ID_EXT \<or> t = RDS_PI \<or> t = AMFM_FREQUENCY then
        if haveEqualIds a b HD_STATION_ID_EXT then True
        else if haveEqualIds a b RDS_PI then True
        else getHdSubchannel b = 0 \<and> haveEqualIds a b AMFM_FREQUENCY
      else if t = DAB_SID_EXT then haveEqualIds a b DAB_SID_EXT
      else if t = DRMO_SERVICE_ID then haveEqualIds a b DRMO_SERVICE_ID
      else if t = SXM_SERVICE_ID then haveEqualIds a b SXM_SERVICE_ID
      else False)"

definition isSupported :: "u32 list \<Rightarrow> ProgramSelector \<Rightarrow> bool" where
  "isSupported supportedIdentifierTypes sel \<longleftrightarrow> list_ex (\<lambda>t. hasId sel t) supportedIdentifierTypes"

subsection \<open>Validity\<close>

fun name_chars_ok :: "nat \<Rightarrow> bool" where
  "name_chars_ok val =
     (if val = 0 then True
      else (let ch = val mod 256 in (48 \<le> ch \<and> ch \<le> 57 \<or> 65 \<le> ch \<and> ch \<le> 90) \<and> name_chars_ok (val div 256)))"

declare name_chars_ok.simps [simp del]

definition isValid_id :: "ProgramIdentifier \<Rightarrow> bool" where
  "isValid_id i =
     (let val = pi_value i; t = pi_type i in
      if t = ID_INVALID then False
      else if t = DAB_FREQUENCY then 100000 < val \<and> 100 < val \<and> val < 10000000
      else if t = AMFM_FREQUENCY \<or> t = DRMO_FREQUENCY then 100 < val \<and> val < 10000000
      else if t = RDS_PI then val \<noteq> 0 \<and> val \<le> 0xFFFF
      else if t = HD_STATION_ID_EXT then
        (let stationId = val AND 0xFFFFFFFF; val = drop_bit 32 val; subchannel = val AND 0xF;
             val = drop_bit 4 val; freq = val AND 0x3FFFF
         in stationId \<noteq> 0 \<and> subchannel < 8 \<and> 100 < freq \<and> freq < 10000000)
      else if t = HD_STATION_NAME then name_chars_ok (unat val)
      else if t = DAB_SID_EXT then
        (let sid = val AND 0xFFFF; val = drop_bit 16 val; ecc = val AND 0xFF
         in sid \<noteq> 0 \<and> 0xA0 \<le> ecc \<and> ecc \<le> 0xF6)
      else if t = DAB_ENSEMBLE then val \<noteq> 0 \<and> val \<le> 0xFFFF
      else if t = DAB_SCID then 0xF < val \<and> val \<le> 0xFFF
      else if t = DRMO_SERVICE_ID then val \<noteq> 0 \<and> val \<le> 0xFFFFFF
      else if t = SXM_SERVICE_ID then val \<noteq> 0 \<and> val \<le> 0xFFFFFFFF
      else if t = SXM_CHANNEL then val < 1000
      else True)"

definition isValid_selector :: "ProgramSelector \<Rightarrow> bool" where
  "isValid_selector sel = (if \<not> isValid_id (primaryId sel) then False else list_all isValid_id (secondaryIds sel))"

subsection \<open>Building\<close>

definition make_identifier :: "u32 \<Rightarrow> u64 \<Rightarrow> ProgramIdentifier" where
  "make_identifier t val = \<lparr>pi_type = t, pi_value = val\<rparr>"

definition no_selector :: ProgramSelector where
  "no_selector = \<lparr>primaryId = \<lparr>pi_type = 0, pi_value = 0\<rparr>, secondaryIds = []\<rparr>"

definition make_selector_amfm :: "u32 \<Rightarrow> ProgramSelector" where
  "make_selector_amfm frequency = no_selector\<lparr>primaryId := make_identifier AMFM_FREQUENCY (ucast frequency)\<rparr>"

definition make_selector_dab :: "u32 \<Rightarrow> u32 \<Rightarrow> ProgramSelector" where
  "make_selector_dab sidExt ensemble =
     no_selector\<lparr>primaryId := make_identifier DAB_SID_EXT (ucast sidExt),
       secondaryIds := [make_identifier DAB_ENSEMBLE (ucast ensemble)]\<rparr>"

definition make_metadata_int :: "u32 \<Rightarrow> i64 \<Rightarrow> Metadata" where
  "make_metadata_int key val = \<lparr>md_key = key, md_intValue = val, md_stringValue = []\<rparr>"

definition make_metadata_string :: "u32 \<Rightarrow> string \<Rightarrow> Metadata" where
  "make_metadata_string key val = \<lparr>md_key = key, md_intValue = 0, md_stringValue = val\<rparr>"

text \<open>The classic locale knows the letters and digits of ASCII.\<close>

definition isalnum :: "char \<Rightarrow> bool" where
  "isalnum ch = (let c = (of_char ch :: nat) in 48 \<le> c \<and> c \<le> 57 \<or> 65 \<le> c \<and> c \<le> 90 \<or> 97 \<le> c \<and> c \<le> 122)"

definition toupper :: "char \<Rightarrow> char" where
  "toupper ch = (let c = (of_char ch :: nat) in if 97 \<le> c \<and> c \<le> 122 then char_of (c - 32) else ch)"

fun short_name :: "string \<Rightarrow> string \<Rightarrow> string" where
  "short_name acc [] = acc"
| "short_name acc (ch # rest) =
     (if \<not> isalnum ch then short_name acc rest
      else let acc = acc @ [toupper ch] in if 8 \<le> length acc then acc else short_name acc rest)"

definition make_hdradio_station_name :: "string \<Rightarrow> ProgramIdentifier" where
  "make_hdradio_station_name name =
     make_identifier HD_STATION_NAME
       (foldl (\<lambda>val ch. push_bit 8 val OR of_nat (of_char ch)) 0 (rev (short_name [] name)))"

subsection \<open>Filters, lists and metadata\<close>

definition satisfies :: "ProgramFilter \<Rightarrow> ProgramSelector \<Rightarrow> bool" where
  "satisfies flt sel =
     (if 0 < length (identifierTypes flt) \<and> \<not> list_ex (\<lambda>i. list_ex (\<lambda>t. pi_type i = t) (identifierTypes flt)) (all_ids sel)
      then False
      else if 0 < length (identifiers flt) \<and> \<not> list_ex (\<lambda>i. list_ex (\<lambda>j. i = j) (identifiers flt)) (all_ids sel)
      then False
      else if \<not> includeCategories flt \<and> pi_type (primaryId sel) = DAB_ENSEMBLE then False
      else True)"

definition info_key :: "ProgramInfo \<Rightarrow> u32 \<times> u64" where
  "info_key info = (pi_type (primaryId (pinfo_selector info)), pi_value (primaryId (pinfo_selector info)))"

definition set_insert :: "ProgramInfo \<Rightarrow> ProgramInfo list \<Rightarrow> ProgramInfo list" where
  "set_insert info l = (if list_ex (\<lambda>x. info_key x = info_key info) l then l else l @ [info])"

definition set_erase :: "ProgramIdentifier \<Rightarrow> ProgramInfo list \<Rightarrow> ProgramInfo list" where
  "set_erase i l = filter (\<lambda>x. info_key x \<noteq> (pi_type i, pi_value i)) l"

definition updateProgramList :: "ProgramInfo list \<Rightarrow> ProgramListChunk \<Rightarrow> ProgramInfo list" where
  "updateProgramList l chunk =
     (let l = (if purge chunk then [] else l) in fold set_erase (removed chunk) (fold set_insert (modified chunk) l))"

definition getMetadataString :: "ProgramInfo \<Rightarrow> u32 \<Rightarrow> string option" where
  "getMetadataString info key = map_option md_stringValue (List.find (\<lambda>item. md_key item = key) (pinfo_metadata info))"

subsection \<open>What the helpers find\<close>

lemma maybeGetId_find: "maybeGetId sel t = find_id t (all_ids sel)"
  by (simp add: maybeGetId_def all_ids_def)

lemma hasId_iff: "hasId sel t \<longleftrightarrow> t \<in> pi_type ` set (all_ids sel)"
proof -
  have "find_id t ids \<noteq> None \<longleftrightarrow> t \<in> pi_type ` set ids" for ids by (induction ids) auto
  then show ?thesis by (simp add: hasId_def maybeGetId_find)
qed

lemma getId_first: "getAllIds sel t = v # vs \<Longrightarrow> getId sel t = v"
proof -
  have "find_id t ids = (case map pi_value (filter (\<lambda>i. pi_type i = t) ids) of [] \<Rightarrow> None | v # _ \<Rightarrow> Some v)" for ids
    by (induction ids) auto
  then show "getAllIds sel t = v # vs \<Longrightarrow> getId sel t = v"
    by (auto simp: getAllIds_def getId_def maybeGetId_def split: if_splits)
qed

lemma satisfies_iff: "satisfies flt sel \<longleftrightarrow>
    (identifierTypes flt = [] \<or> set (identifierTypes flt) \<inter> pi_type ` set (all_ids sel) \<noteq> {}) \<and>
    (identifiers flt = [] \<or> set (identifiers flt) \<inter> set (all_ids sel) \<noteq> {}) \<and>
    (includeCategories flt \<or> pi_type (primaryId sel) \<noteq> DAB_ENSEMBLE)"
  by (auto simp: satisfies_def list_ex_iff)

lemma amfm_facts:
  "hasId (make_selector_amfm f) t \<longleftrightarrow> t = AMFM_FREQUENCY" "getId (make_selector_amfm f) AMFM_FREQUENCY = ucast f"
  by (auto simp: make_selector_amfm_def make_identifier_def no_selector_def hasId_def getId_def maybeGetId_def)

lemma tunesTo_amfm: "tunesTo (make_selector_amfm f) (make_selector_amfm g) \<longleftrightarrow> f = g"
proof -
  have "pi_type (primaryId (make_selector_amfm g)) = AMFM_FREQUENCY"
    by (simp add: make_selector_amfm_def make_identifier_def)
  then show ?thesis
    by (simp add: tunesTo_def haveEqualIds_def getHdSubchannel_def getId_or_def amfm_facts ucast_less)
qed

subsection \<open>Station names\<close>

definition station_char :: "nat \<Rightarrow> bool" where
  "station_char c \<longleftrightarrow> 48 \<le> c \<and> c \<le> 57 \<or> 65 \<le> c \<and> c \<le> 90"

lemma short_name_eq:
  "length acc < 8 \<Longrightarrow> short_name acc name = take 8 (acc @ map toupper (filter isalnum name))"
  by (induction name arbitrary: acc) (auto simp: Let_def take_Cons')

lemma toupper_station: "isalnum ch \<Longrightarrow> station_char (of_char (toupper ch))"
  by (auto simp: isalnum_def toupper_def station_char_def Let_def)

text \<open>The bytes of a name, the first one lowest.\<close>

definition name_nat :: "string \<Rightarrow> nat" where
  "name_nat s = foldr (\<lambda>ch n. of_char ch + 256 * n) s 0"

fun name_of :: "nat \<Rightarrow> string" where
  "name_of n = (if n = 0 then [] else char_of (n mod 256) # name_of (n div 256))"

declare name_of.simps [simp del]

lemma of_char_less: "(of_char ch :: nat) < 256"
  by simp

lemma name_nat_less: "name_nat s < 256 ^ length s"
proof (induction s)
  case (Cons ch s)
  have "(of_char ch :: nat) + 256 * name_nat s < 256 * 256 ^ length s" using Cons of_char_less [of ch] by linarith
  then show ?case by (simp add: name_nat_def)
qed (simp add: name_nat_def)

lemma shift_or:
  fixes w :: u64
  assumes "c < 256" "unat w < 2 ^ 56"
  shows "unat (push_bit 8 w OR of_nat c) = 256 * unat w + c"
proof -
  have "push_bit 8 w AND of_nat c = 0"
  proof (rule bit_word_eqI)
    fix n :: nat
    assume "n < LENGTH(64)"
    have "\<not> bit c n" if "8 \<le> n"
    proof -
      have "(2 :: nat) ^ 8 \<le> 2 ^ n" using that by (intro power_increasing) simp_all
      then show ?thesis using assms(1) by (simp add: bit_iff_odd)
    qed
    then show "bit (push_bit 8 w AND of_nat c) n \<longleftrightarrow> bit (0 :: u64) n"
      by (auto simp: bit_simps)
  qed
  then have "push_bit 8 w OR of_nat c = push_bit 8 w + of_nat c" by (simp add: disjunctive_add_eq_or)
  also have "\<dots> = of_nat (256 * unat w + c)" by (simp add: push_bit_eq_mult)
  finally have "push_bit 8 w OR of_nat c = (of_nat (256 * unat w + c) :: u64)" .
  moreover have "256 * unat w + c < 2 ^ LENGTH(64)" using assms by simp
  ultimately show ?thesis by (simp only: unat_of_nat mod_less)
qed

lemma fold_name:
  "length s \<le> 8 \<Longrightarrow> unat (foldl (\<lambda>val ch. push_bit 8 val OR of_nat (of_char ch)) (0 :: u64) (rev s)) = name_nat s"
proof (induction s)
  case Nil
  then show ?case by (simp add: name_nat_def)
next
  case (Cons ch s)
  let ?w = "foldl (\<lambda>val ch. push_bit 8 val OR of_nat (of_char ch)) (0 :: u64) (rev s)"
  have w: "unat ?w = name_nat s" using Cons by simp
  have "(256 :: nat) ^ length s \<le> 256 ^ 7" using Cons.prems by (intro power_increasing) simp_all
  then have "unat ?w < 2 ^ 56" using name_nat_less [of s] w by simp
  then have "unat (push_bit 8 ?w OR of_nat (of_char ch)) = 256 * unat ?w + of_char ch" by (intro shift_or) simp_all
  then show ?case using w by (simp add: name_nat_def)
qed

lemma name_chars_nat: "\<forall>ch \<in> set s. station_char (of_char ch) \<Longrightarrow> name_chars_ok (name_nat s) \<and> name_of (name_nat s) = s"
proof (induction s)
  case Nil
  then show ?case by (simp add: name_nat_def name_chars_ok.simps name_of.simps)
next
  case (Cons ch s)
  have nat: "name_nat (ch # s) = of_char ch + 256 * name_nat s" by (simp add: name_nat_def)
  have "station_char (of_char ch)" using Cons.prems by simp
  then have "name_nat (ch # s) \<noteq> 0" unfolding nat by (auto simp: station_char_def)
  moreover have "name_nat (ch # s) mod 256 = of_char ch" "name_nat (ch # s) div 256 = name_nat s"
    unfolding nat by simp_all
  ultimately show ?case using Cons
    by (subst name_chars_ok.simps, subst name_of.simps) (simp add: Let_def station_char_def)
qed

text \<open>
  The identifier of an HD radio station name is valid, and its bytes are the first eight letters and
  digits of the name in upper case.
\<close>
theorem station_name_roundtrip:
  "isValid_id (make_hdradio_station_name name) \<and> pi_type (make_hdradio_station_name name) = HD_STATION_NAME \<and>
   name_of (unat (pi_value (make_hdradio_station_name name))) = take 8 (map toupper (filter isalnum name))"
proof -
  let ?s = "take 8 (map toupper (filter isalnum name))"
  have "short_name [] name = ?s" by (simp add: short_name_eq)
  moreover have "unat (foldl (\<lambda>val ch. push_bit 8 val OR of_nat (of_char ch)) (0 :: u64) (rev ?s)) = name_nat ?s"
    by (rule fold_name) simp
  moreover have "\<forall>ch \<in> set ?s. station_char (of_char ch)" by (auto dest!: in_set_takeD intro: toupper_station)
  ultimately show ?thesis using name_chars_nat [of ?s]
    by (simp add: make_hdradio_station_name_def make_identifier_def isValid_id_def Let_def)
qed

subsection \<open>Program lists\<close>

text \<open>The program a list has for a key.\<close>

definition lookup :: "ProgramInfo list \<Rightarrow> u32 \<times> u64 \<Rightarrow> ProgramInfo option" where
  "lookup l k = List.find (\<lambda>x. info_key x = k) l"

definition set_ok :: "ProgramInfo list \<Rightarrow> bool" where
  "set_ok l \<longleftrightarrow> distinct (map info_key l)"

lemma lookup_simps: "lookup [] k = None" "lookup (x # l) k = (if info_key x = k then Some x else lookup l k)"
  by (simp_all add: lookup_def)

lemma lookup_append: "lookup (l @ l') k = (case lookup l k of Some x \<Rightarrow> Some x | None \<Rightarrow> lookup l' k)"
  by (induction l) (simp_all add: lookup_def)

lemma lookup_None: "lookup l k = None \<longleftrightarrow> k \<notin> info_key ` set l"
  by (auto simp: lookup_def find_None_iff)

lemma set_insert_facts:
  "lookup (set_insert x l) k = (case lookup l k of Some y \<Rightarrow> Some y | None \<Rightarrow> if info_key x = k then Some x else None)"
  "set_ok l \<Longrightarrow> set_ok (set_insert x l)"
proof -
  have present: "list_ex (\<lambda>y. info_key y = info_key x) l \<longleftrightarrow> lookup l (info_key x) \<noteq> None"
    unfolding lookup_None list_ex_iff image_iff by metis
  show "lookup (set_insert x l) k = (case lookup l k of Some y \<Rightarrow> Some y | None \<Rightarrow> if info_key x = k then Some x else None)"
    using present by (auto simp: set_insert_def lookup_append lookup_simps split: option.splits)
  show "set_ok (set_insert x l)" if "set_ok l"
    using that by (auto simp: set_insert_def set_ok_def list_ex_iff)
qed

lemma inserts_facts:
  "lookup (fold set_insert xs l) k = (case lookup l k of Some y \<Rightarrow> Some y | None \<Rightarrow> lookup xs k) \<and>
    (set_ok l \<longrightarrow> set_ok (fold set_insert xs l))"
proof (induction xs arbitrary: l)
  case (Cons x xs)
  have "lookup (x # xs) k = (if info_key x = k then Some x else lookup xs k)" by (simp add: lookup_def)
  then show ?case using Cons [of "set_insert x l"] set_insert_facts [where x = x and l = l] by (auto split: option.splits)
qed (simp add: lookup_def split: option.splits)

lemma lookup_filter: "lookup (filter (\<lambda>x. P (info_key x)) l) k = (if P k then lookup l k else None)"
  by (induction l) (auto simp: lookup_def)

lemma erases_facts:
  "lookup (fold set_erase ids l) k = (if k \<in> (\<lambda>i. (pi_type i, pi_value i)) ` set ids then None else lookup l k) \<and>
    (set_ok l \<longrightarrow> set_ok (fold set_erase ids l))"
proof (induction ids arbitrary: l)
  case (Cons i ids)
  have "lookup (set_erase i l) k = (if k = (pi_type i, pi_value i) then None else lookup l k)"
    using lookup_filter [of "\<lambda>k. k \<noteq> (pi_type i, pi_value i)" l k] by (auto simp: set_erase_def)
  moreover have "set_ok l \<longrightarrow> set_ok (set_erase i l)" by (auto simp: set_ok_def set_erase_def distinct_map_filter)
  ultimately show ?case using Cons [of "set_erase i l"] by auto
qed simp

text \<open>
  C40: What a chunk of a program list does to the list of the client, seen as a map from primary identifiers:
  removed programs are gone, new ones are there, but a program that was there already keeps its old
  state although the chunk announces it as modified, unless the chunk starts anew.
\<close>
theorem chunk_keeps_known_programs:
  "set_ok l \<Longrightarrow> set_ok (updateProgramList l chunk) \<and>
    (\<forall>k. lookup (updateProgramList l chunk) k =
      (if k \<in> (\<lambda>i. (pi_type i, pi_value i)) ` set (removed chunk) then None
       else if \<not> purge chunk \<and> lookup l k \<noteq> None then lookup l k
       else lookup (modified chunk) k))"
proof -
  let ?l = "if purge chunk then [] else l"
  assume "set_ok l"
  then have "set_ok ?l" by (simp add: set_ok_def)
  then have "set_ok (updateProgramList l chunk)"
    unfolding updateProgramList_def Let_def using inserts_facts erases_facts by blast
  moreover have "lookup (updateProgramList l chunk) k =
      (if k \<in> (\<lambda>i. (pi_type i, pi_value i)) ` set (removed chunk) then None
       else if \<not> purge chunk \<and> lookup l k \<noteq> None then lookup l k
       else lookup (modified chunk) k)" for k
    unfolding updateProgramList_def Let_def
    using erases_facts [of "removed chunk" "fold set_insert (modified chunk) ?l" k, THEN conjunct1]
      inserts_facts [of "modified chunk" ?l k, THEN conjunct1]
    by (auto simp: lookup_def split: option.splits)
  ultimately show ?thesis by blast
qed

definition station_info :: "u32 \<Rightarrow> u32 \<Rightarrow> ProgramInfo" where
  "station_info f quality =
     \<lparr>pinfo_selector = make_selector_amfm f, logicallyTunedTo = make_identifier 1 (ucast f),
      physicallyTunedTo = make_identifier 1 (ucast f), infoFlags = 0, signalQuality = quality, pinfo_metadata = []\<rparr>"

theorem chunk_keeps_known_programs_witness:
  "lookup (updateProgramList [station_info 94900 80]
     \<lparr>purge = False, chunk_complete = True, modified = [station_info 94900 10], removed = []\<rparr>) (1, 94900) =
   Some (station_info 94900 80)"
proof -
  have "set_ok [station_info 94900 80]" by (simp add: set_ok_def)
  moreover have "lookup [station_info 94900 80] (1, 94900) = Some (station_info 94900 80)"
    by (simp add: lookup_def info_key_def station_info_def make_selector_amfm_def make_identifier_def)
  ultimately show ?thesis
    using chunk_keeps_known_programs [of "[station_info 94900 80]"
      "\<lparr>purge = False, chunk_complete = True, modified = [station_info 94900 10], removed = []\<rparr>"] by simp
qed

end
