(* ===== verification/BroadcastTuner.thy ===== *)
theory BroadcastTuner
  imports BroadcastUtils StdSort "HOL-Library.Product_Lexorder"
begin

text \<open>
  The default broadcast radio HAL, version 2.0 (\<open>broadcastradio/2.0/default\<close>): the virtual stations
  (\<open>VirtualProgram.cpp\<close>, \<open>VirtualRadio.cpp\<close>), the tuner session (\<open>TunerSession.cpp\<close>), its worker thread
  (\<open>broadcastradio/common/utils/WorkerThread.cpp\<close>) and the module that opens sessions
  (\<open>BroadcastRadio.cpp\<close>).

  A call holds the lock of the session, so it is one step. The worker thread takes a task that is due and
  among the earliest (which one of several is open), lets go of its own lock and then runs it: between
  the two steps calls can happen. The clock is an argument of every step. The client's callbacks are
  recorded in the order they are made. A failed conversion (\<open>LOG(FATAL)\<close>) is \<open>None\<close>. The vendor
  information of a program, which holds the address of an object, is left out.
\<close>

subsection \<open>Virtual stations\<close>

record VirtualProgram =
  vp_selector :: ProgramSelector
  programName :: string
  songArtist :: string
  songTitle :: string

definition demoPngId :: i64 where
  "demoPngId = 123456"

text \<open>The two identifiers that a program of each type is tuned to.\<close>

definition tuned_types :: "u32 \<Rightarrow> (u32 \<times> u32) option" where
  "tuned_types t = map_of [(AMFM_FREQUENCY, (AMFM_FREQUENCY, AMFM_FREQUENCY)), (RDS_PI, (RDS_PI, AMFM_FREQUENCY)),
     (HD_STATION_ID_EXT, (HD_STATION_ID_EXT, AMFM_FREQUENCY)), (DAB_SID_EXT, (DAB_SID_EXT, DAB_ENSEMBLE)),
     (DRMO_SERVICE_ID, (DRMO_SERVICE_ID, DRMO_FREQUENCY)), (SXM_SERVICE_ID, (SXM_SERVICE_ID, SXM_CHANNEL))] t"

definition to_ProgramInfo :: "VirtualProgram \<Rightarrow> ProgramInfo option" where
  "to_ProgramInfo p =
     (let sel = vp_selector p; pType = pi_type (primaryId sel);
          isDigital = (pType \<noteq> AMFM_FREQUENCY \<and> pType \<noteq> RDS_PI);
          selectId = (\<lambda>t. make_identifier t (getId sel t)) in
      case tuned_types pType of
        None \<Rightarrow> None
      | Some (logical, physical) \<Rightarrow>
          Some \<lparr>pinfo_selector = sel, logicallyTunedTo = selectId logical, physicallyTunedTo = selectId physical,
            infoFlags = 16 OR 32, signalQuality = (if isDigital then 100 else 80),
            pinfo_metadata =
              [make_metadata_string 1 (programName p), make_metadata_string 5 (songTitle p),
               make_metadata_string 6 (songArtist p), make_metadata_int 8 demoPngId, make_metadata_int 9 demoPngId]\<rparr>)"

definition vp_less :: "VirtualProgram \<Rightarrow> VirtualProgram \<Rightarrow> bool" where
  "vp_less lhs rhs =
     (let l = primaryId (vp_selector lhs); r = primaryId (vp_selector rhs) in
      if pi_type l \<noteq> pi_type r then pi_type l < pi_type r
      else if pi_value l \<noteq> pi_value r then pi_value l < pi_value r
      else False)"

definition getProgram :: "VirtualProgram list \<Rightarrow> ProgramSelector \<Rightarrow> VirtualProgram option" where
  "getProgram programs sel = List.find (\<lambda>p. tunesTo sel (vp_selector p)) programs"

definition gAmFmRadio :: "VirtualProgram list" where
  "gAmFmRadio =
     [\<lparr>vp_selector = make_selector_amfm 94900, programName = ''Wild 94.9'', songArtist = ''Drake ft. Rihanna'', songTitle = ''Too Good''\<rparr>,
      \<lparr>vp_selector = make_selector_amfm 96500, programName = ''KOIT'', songArtist = ''Celine Dion'', songTitle = ''All By Myself''\<rparr>,
      \<lparr>vp_selector = make_selector_amfm 97300, programName = ''Alice@97.3'', songArtist = ''Drops of Jupiter'', songTitle = ''Train''\<rparr>,
      \<lparr>vp_selector = make_selector_amfm 99700, programName = ''99.7 Now!'', songArtist = ''The Chainsmokers'', songTitle = ''Closer''\<rparr>,
      \<lparr>vp_selector = make_selector_amfm 101300, programName = ''101-3 KISS-FM'', songArtist = ''Justin Timberlake'', songTitle = ''Rock Your Body''\<rparr>,
      \<lparr>vp_selector = make_selector_amfm 103700, programName = ''iHeart80s @ 103.7'', songArtist = ''Michael Jackson'', songTitle = ''Billie Jean''\<rparr>,
      \<lparr>vp_selector = make_selector_amfm 106100, programName = ''106 KMEL'', songArtist = ''Drake'', songTitle = ''Marvins Room''\<rparr>]"

definition gDabRadio :: "VirtualProgram list" where
  "gDabRadio =
     [\<lparr>vp_selector = make_selector_dab 12345 225648, programName = ''BBC Radio 1'', songArtist = ''Khalid'', songTitle = ''Talk''\<rparr>,
      \<lparr>vp_selector = make_selector_dab 22345 222064, programName = ''Classic FM'', songArtist = ''Jean Sibelius'', songTitle = ''Andante Festivo''\<rparr>,
      \<lparr>vp_selector = make_selector_dab 32345 222064, programName = ''Absolute Radio'', songArtist = ''Coldplay'', songTitle = ''Clocks''\<rparr>]"

subsection \<open>The module\<close>

record AmFmBandRange =
  lowerBound :: u32
  upperBound :: u32
  spacing :: u32
  scanSpacing :: u32

record radio_module =
  mVirtualRadio :: "VirtualProgram list"
  supportedIdentifierTypes :: "u32 list"
  mAmFmConfig :: "AmFmBandRange list"

definition gDefaultAmFmConfig :: "AmFmBandRange list" where
  "gDefaultAmFmConfig =
     [\<lparr>lowerBound = 87500, upperBound = 108000, spacing = 100, scanSpacing = 100\<rparr>,
      \<lparr>lowerBound = 153, upperBound = 282, spacing = 3, scanSpacing = 9\<rparr>,
      \<lparr>lowerBound = 531, upperBound = 1620, spacing = 9, scanSpacing = 9\<rparr>,
      \<lparr>lowerBound = 1600, upperBound = 30000, spacing = 1, scanSpacing = 5\<rparr>]"

definition BroadcastRadio :: "VirtualProgram list \<Rightarrow> radio_module" where
  "BroadcastRadio virtualRadio =
     \<lparr>mVirtualRadio = virtualRadio,
      supportedIdentifierTypes = [AMFM_FREQUENCY, RDS_PI, HD_STATION_ID_EXT, DAB_SID_EXT],
      mAmFmConfig = gDefaultAmFmConfig\<rparr>"

subsection \<open>The session\<close>

datatype result = OK | INTERNAL_ERROR | INVALID_ARGUMENTS | INVALID_STATE | NOT_SUPPORTED | TIMEOUT

datatype task = TuneTo ProgramSelector | SeekFails | SendList "VirtualProgram list"

datatype event = ProgramChanged ProgramInfo | TuneFailed result ProgramSelector | ListUpdated ProgramListChunk

record Session =
  mIsClosed :: bool
  mIsTuneCompleted :: bool
  mCurrentProgram :: ProgramSelector
  mTasks :: "(nat \<times> task) list"
  running :: "task option"
  callbacks :: "event list"

definition schedule :: "nat \<Rightarrow> nat \<Rightarrow> task \<Rightarrow> Session \<Rightarrow> Session" where
  "schedule now delay t s = s\<lparr>mTasks := mTasks s @ [(now + delay, t)]\<rparr>"

definition cancelAll :: "Session \<Rightarrow> Session" where
  "cancelAll s = s\<lparr>mTasks := []\<rparr>"

definition makeDummyProgramInfo :: "ProgramSelector \<Rightarrow> ProgramInfo" where
  "makeDummyProgramInfo sel =
     (let i = make_identifier AMFM_FREQUENCY (getId sel AMFM_FREQUENCY) in
      \<lparr>pinfo_selector = sel, logicallyTunedTo = i, physicallyTunedTo = i, infoFlags = 0, signalQuality = 0,
       pinfo_metadata = []\<rparr>)"

definition tuneInternalLocked :: "radio_module \<Rightarrow> ProgramSelector \<Rightarrow> Session \<Rightarrow> Session option" where
  "tuneInternalLocked m sel s =
     (case getProgram (mVirtualRadio m) sel of
        Some p \<Rightarrow> (case to_ProgramInfo p of
          None \<Rightarrow> None
        | Some info \<Rightarrow> Some (s\<lparr>mCurrentProgram := vp_selector p, mIsTuneCompleted := True,
              callbacks := callbacks s @ [ProgramChanged info]\<rparr>))
      | None \<Rightarrow> Some (s\<lparr>mCurrentProgram := sel, mIsTuneCompleted := True,
          callbacks := callbacks s @ [ProgramChanged (makeDummyProgramInfo sel)]\<rparr>))"

definition no_session :: Session where
  "no_session = \<lparr>mIsClosed = False, mIsTuneCompleted = False, mCurrentProgram = no_selector, mTasks = [],
     running = None, callbacks = []\<rparr>"

definition TunerSession :: "radio_module \<Rightarrow> Session option" where
  "TunerSession m =
     (case mAmFmConfig m of
        [] \<Rightarrow> Some no_session
      | rng # _ \<Rightarrow> tuneInternalLocked m (make_selector_amfm (lowerBound rng)) no_session)"

definition cancelLocked :: "Session \<Rightarrow> Session" where
  "cancelLocked s =
     (let s = cancelAll s in
      if pi_type (primaryId (mCurrentProgram s)) \<noteq> ID_INVALID then s\<lparr>mIsTuneCompleted := True\<rparr> else s)"

definition tune :: "radio_module \<Rightarrow> nat \<Rightarrow> ProgramSelector \<Rightarrow> Session \<Rightarrow> result \<times> Session" where
  "tune m now sel s =
     (if mIsClosed s then (INVALID_STATE, s)
      else if \<not> isSupported (supportedIdentifierTypes m) sel then (NOT_SUPPORTED, s)
      else if \<not> isValid_selector sel then (INVALID_ARGUMENTS, s)
      else
        let s = (cancelLocked s)\<lparr>mIsTuneCompleted := False\<rparr>
        in (OK, schedule now 150 (TuneTo sel) s))"

text \<open>The station a seek goes to: the first one that is not less than the current one, and from there.\<close>

definition seek_target :: "VirtualProgram sorter \<Rightarrow> bool \<Rightarrow> ProgramSelector \<Rightarrow> VirtualProgram list \<Rightarrow> ProgramSelector" where
  "seek_target std_sort directionUp current programs =
     (let l = std_sort vp_less programs;
          key = \<lparr>vp_selector = current, programName = [], songArtist = [], songTitle = []\<rparr>;
          found = length (takeWhile (\<lambda>p. vp_less p key) l);
          found =
            (if directionUp then
               if found < length l - 1 then (if tunesTo current (vp_selector (l ! found)) then found + 1 else found)
               else 0
             else if 0 < found \<and> found \<noteq> length l then found - 1
             else length l - 1)
      in vp_selector (l ! found))"

definition scan :: "VirtualProgram sorter \<Rightarrow> radio_module \<Rightarrow> nat \<Rightarrow> bool \<Rightarrow> bool \<Rightarrow> Session \<Rightarrow> result \<times> Session" where
  "scan std_sort m now directionUp skipSubChannel s =
     (if mIsClosed s then (INVALID_STATE, s)
      else
        let s = cancelLocked s in
        if mVirtualRadio m = [] then (OK, schedule now 200 SeekFails (s\<lparr>mIsTuneCompleted := False\<rparr>))
        else
          let tuneTo = seek_target std_sort directionUp (mCurrentProgram s) (mVirtualRadio m)
          in (OK, schedule now 200 (TuneTo tuneTo) (s\<lparr>mIsTuneCompleted := False\<rparr>)))"

definition getAmFmRangeLocked :: "radio_module \<Rightarrow> Session \<Rightarrow> AmFmBandRange option" where
  "getAmFmRangeLocked m s =
     (if \<not> mIsTuneCompleted s then None
      else if \<not> hasId (mCurrentProgram s) AMFM_FREQUENCY then None
      else let freq = getId (mCurrentProgram s) AMFM_FREQUENCY
        in List.find (\<lambda>r. ucast (lowerBound r) \<le> freq \<and> freq \<le> ucast (upperBound r)) (mAmFmConfig m))"

definition step_target :: "bool \<Rightarrow> AmFmBandRange \<Rightarrow> u64 \<Rightarrow> u64" where
  "step_target directionUp rng stepTo =
     (let stepTo = (if directionUp then stepTo + ucast (spacing rng) else stepTo - ucast (spacing rng));
          stepTo = (if ucast (upperBound rng) < stepTo then ucast (lowerBound rng) else stepTo)
      in if stepTo < ucast (lowerBound rng) then ucast (upperBound rng) else stepTo)"

definition step :: "radio_module \<Rightarrow> nat \<Rightarrow> bool \<Rightarrow> Session \<Rightarrow> result \<times> Session" where
  "step m now directionUp s =
     (if mIsClosed s then (INVALID_STATE, s)
      else
        let s = cancelLocked s in
        if \<not> hasId (mCurrentProgram s) AMFM_FREQUENCY then (NOT_SUPPORTED, s)
        else
          let stepTo = getId (mCurrentProgram s) AMFM_FREQUENCY in
          case getAmFmRangeLocked m s of
            None \<Rightarrow> (INTERNAL_ERROR, s)
          | Some rng \<Rightarrow>
              let stepTo = step_target directionUp rng stepTo
              in (OK, schedule now 100 (TuneTo (make_selector_amfm (ucast stepTo))) (s\<lparr>mIsTuneCompleted := False\<rparr>)))"

definition cancel :: "Session \<Rightarrow> Session" where
  "cancel s = (if mIsClosed s then s else cancelLocked s)"

text \<open>The filtered list is computed, but the whole list goes into the task.\<close>

definition startProgramListUpdates :: "radio_module \<Rightarrow> nat \<Rightarrow> ProgramFilter \<Rightarrow> Session \<Rightarrow> result \<times> Session" where
  "startProgramListUpdates m now flt s =
     (if mIsClosed s then (INVALID_STATE, s)
      else
        let l = mVirtualRadio m; filteredList = filter (\<lambda>p. satisfies flt (vp_selector p)) l
        in (OK, schedule now 1000 (SendList l) s))"

definition close :: "Session \<Rightarrow> Session" where
  "close s = (if mIsClosed s then s else cancelAll (s\<lparr>mIsClosed := True\<rparr>))"

subsection \<open>The worker thread\<close>

definition run_task :: "radio_module \<Rightarrow> task \<Rightarrow> Session \<Rightarrow> Session option" where
  "run_task m t s =
     (case t of
        TuneTo sel \<Rightarrow> tuneInternalLocked m sel s
      | SeekFails \<Rightarrow> Some (s\<lparr>callbacks := callbacks s @ [TuneFailed TIMEOUT no_selector]\<rparr>)
      | SendList l \<Rightarrow>
          let infos = map to_ProgramInfo l in
          if None \<in> set infos then None
          else Some (s\<lparr>callbacks := callbacks s @ [ListUpdated
            \<lparr>purge = True, chunk_complete = True, modified = map the infos, removed = []\<rparr>]\<rparr>))"

text \<open>\<open>take_task k\<close> takes the task at place \<open>k\<close> if it can be the top of the queue and is due.\<close>

definition take_task :: "nat \<Rightarrow> nat \<Rightarrow> Session \<Rightarrow> Session" where
  "take_task now k s =
     (if running s = None \<and> k < length (mTasks s) \<and> fst (mTasks s ! k) \<le> now \<and>
         list_all (\<lambda>t. fst (mTasks s ! k) \<le> fst t) (mTasks s)
      then s\<lparr>running := Some (snd (mTasks s ! k)), mTasks := take k (mTasks s) @ drop (Suc k) (mTasks s)\<rparr>
      else s)"

definition run_running :: "radio_module \<Rightarrow> Session \<Rightarrow> Session option" where
  "run_running m s = (case running s of None \<Rightarrow> Some s | Some t \<Rightarrow> run_task m t (s\<lparr>running := None\<rparr>))"

datatype session_op = Tune ProgramSelector | Scan bool bool | StepTo bool | Cancel | ListUpdates ProgramFilter | Close
  | TakeTask nat | RunTask

text \<open>Every operation comes with the time it happens at.\<close>

fun session_call :: "VirtualProgram sorter \<Rightarrow> radio_module \<Rightarrow> nat \<times> session_op \<Rightarrow> Session \<Rightarrow> (result \<times> Session) option" where
  "session_call std_sort m (now, Tune sel) s = Some (tune m now sel s)"
| "session_call std_sort m (now, Scan up skip) s = Some (scan std_sort m now up skip s)"
| "session_call std_sort m (now, StepTo up) s = Some (step m now up s)"
| "session_call std_sort m (now, Cancel) s = Some (OK, cancel s)"
| "session_call std_sort m (now, ListUpdates flt) s = Some (startProgramListUpdates m now flt s)"
| "session_call std_sort m (now, Close) s = Some (OK, close s)"
| "session_call std_sort m (now, TakeTask k) s = Some (OK, take_task now k s)"
| "session_call std_sort m (now, RunTask) s = map_option (Pair OK) (run_running m s)"

fun session_run ::
    "VirtualProgram sorter \<Rightarrow> radio_module \<Rightarrow> (nat \<times> session_op) list \<Rightarrow> Session \<Rightarrow> (result list \<times> Session) option" where
  "session_run std_sort m [] s = Some ([], s)"
| "session_run std_sort m (op # ops) s =
     Option.bind (session_call std_sort m op s) (\<lambda>(r, t).
       Option.bind (session_run std_sort m ops t) (\<lambda>(rs, u). Some (r # rs, u)))"

subsection \<open>Seeking\<close>

text \<open>Stations are in the order of their primary identifiers: first the type, then the value.\<close>

definition selector_key :: "ProgramSelector \<Rightarrow> u32 \<times> u64" where
  "selector_key sel = (pi_type (primaryId sel), pi_value (primaryId sel))"

abbreviation vp_key :: "VirtualProgram \<Rightarrow> u32 \<times> u64" where
  "vp_key p \<equiv> selector_key (vp_selector p)"

lemma vp_less_key: "vp_less p q \<longleftrightarrow> vp_key p < vp_key q"
  by (auto simp: vp_less_def selector_key_def less_prod_simp Let_def)

lemma sorted_stations:
  assumes "is_std_sort std_sort"
  shows "map vp_key (std_sort vp_less programs) = List.sort (map vp_key programs)"
    "set (std_sort vp_less programs) = set programs"
proof -
  have weak: "strict_weak_on (set programs) vp_less"
    by (intro strict_weak_onI [where f = vp_key] vp_less_key)
  note facts = is_std_sortD [OF assms weak]
  show "set (std_sort vp_less programs) = set programs" using facts(1) by (rule mset_eq_setD)
  have "sorted (map vp_key (std_sort vp_less programs))"
    using facts(2) by (simp add: sorted_map vp_less_key not_less)
  moreover have "mset (map vp_key (std_sort vp_less programs)) = mset (map vp_key programs)" using facts(1) by simp
  ultimately show "map vp_key (std_sort vp_less programs) = List.sort (map vp_key programs)"
    by (intro properties_for_sort [symmetric])
qed

text \<open>The same choice on keys; \<open>same\<close> tells whether the session is tuned to the station that was found.\<close>

definition seek_index :: "bool \<Rightarrow> bool \<Rightarrow> 'a :: linorder \<Rightarrow> 'a list \<Rightarrow> nat" where
  "seek_index up same f gs =
     (let found = length (takeWhile (\<lambda>g. g < f) gs) in
      if up then if found < length gs - 1 then (if same then found + 1 else found) else 0
      else if 0 < found \<and> found \<noteq> length gs then found - 1 else length gs - 1)"

lemma strict_ends:
  fixes zs :: "'a :: linorder list"
  assumes "sorted_wrt (<) zs" "zs \<noteq> []"
  shows "Max (set zs) = last zs" "Min (set zs) = hd zs"
proof -
  have "sorted zs" using assms(1) by (simp add: strict_sorted_iff)
  then show "Max (set zs) = last zs"
    using assms(2) by (cases zs rule: rev_cases) (auto simp: sorted_append Max_eq_iff)
  show "Min (set zs) = hd zs" using \<open>sorted zs\<close> assms(2) by (cases zs) (auto simp: Min_eq_iff)
qed

lemma seek_index_neighbour:
  fixes gs :: "'a :: linorder list"
  assumes "sorted_wrt (<) gs" "gs \<noteq> []"
  shows "seek_index up same f gs < length gs"
    "gs ! seek_index False same f gs =
      (let lower = {g \<in> set gs. g < f} in if lower = {} then Max (set gs) else Max lower)"
    "gs ! seek_index True same f gs =
      (let higher = {g \<in> set gs. f \<le> g} in if card higher < 2 then Min (set gs)
       else if same then Min (higher - {Min higher}) else Min higher)"
    "\<not> card {g \<in> set gs. f \<le> g} < 2 \<longleftrightarrow> length (takeWhile (\<lambda>g. g < f) gs) < length gs - 1"
    "{g \<in> set gs. f \<le> g} \<noteq> {} \<Longrightarrow> gs ! length (takeWhile (\<lambda>g. g < f) gs) = Min {g \<in> set gs. f \<le> g}"
proof -
  define xs ys where "xs = takeWhile (\<lambda>g. g < f) gs" and "ys = dropWhile (\<lambda>g. g < f) gs"
  have gs: "gs = xs @ ys" by (simp add: xs_def ys_def)
  have sub: "sorted_wrt (<) xs" "sorted_wrt (<) ys" using assms(1) by (auto simp: gs sorted_wrt_append)
  have low: "\<forall>g \<in> set xs. g < f" by (auto simp: xs_def dest: set_takeWhileD)
  have high: "\<forall>g \<in> set ys. f \<le> g"
  proof (cases ys)
    case (Cons y zs)
    then have "\<not> y < f" using hd_dropWhile [of "\<lambda>g. g < f" gs] by (simp add: ys_def)
    then show ?thesis using sub(2) Cons by force
  qed simp
  have lower: "{g \<in> set gs. g < f} = set xs" and higher: "{g \<in> set gs. f \<le> g} = set ys"
    using low high unfolding gs by fastforce+
  have card: "card (set ys) = length ys" using sub(2) by (simp add: strict_sorted_iff distinct_card)
  have found: "length (takeWhile (\<lambda>g. g < f) gs) = length xs" by (simp add: xs_def)
  have ne: "0 < length gs" using assms(2) by simp
  have index: "seek_index False same f gs =
      (if 0 < length xs \<and> length xs \<noteq> length gs then length xs - 1 else length gs - 1)"
    "seek_index True same f gs =
      (if length xs < length gs - 1 then (if same then length xs + 1 else length xs) else 0)"
    by (simp_all only: seek_index_def found Let_def if_True if_False)
  have two: "length xs < length gs - 1 \<longleftrightarrow> \<not> length ys < 2" unfolding gs by auto
  have "length xs \<le> length gs" by (simp add: gs)
  then show "seek_index up same f gs < length gs" using ne by (cases up) (auto simp: index)
  show "\<not> card {g \<in> set gs. f \<le> g} < 2 \<longleftrightarrow> length (takeWhile (\<lambda>g. g < f) gs) < length gs - 1"
    unfolding higher card found two ..
  show "gs ! seek_index False same f gs =
      (let lower = {g \<in> set gs. g < f} in if lower = {} then Max (set gs) else Max lower)"
    unfolding lower Let_def index using strict_ends(1) [OF assms] strict_ends(1) [OF sub(1)] ne
    by (cases "xs = []"; cases "ys = []") (auto simp: gs nth_append last_conv_nth)
  have first: "ys \<noteq> [] \<Longrightarrow> Min (set ys) = ys ! 0" using strict_ends(2) [OF sub(2)] by (simp add: hd_conv_nth)
  show "gs ! length (takeWhile (\<lambda>g. g < f) gs) = Min {g \<in> set gs. f \<le> g}" if "{g \<in> set gs. f \<le> g} \<noteq> {}"
    using that first unfolding higher found by (simp add: gs nth_append)
  show "gs ! seek_index True same f gs =
      (let higher = {g \<in> set gs. f \<le> g} in if card higher < 2 then Min (set gs)
       else if same then Min (higher - {Min higher}) else Min higher)"
  proof (cases "length ys < 2")
    case True
    then show ?thesis using two strict_ends(2) [OF assms] assms(2)
      by (simp add: higher card Let_def index hd_conv_nth)
  next
    case False
    then obtain y z zs where ys: "ys = y # z # zs" by (cases ys rule: remdups_adj.cases) auto
    have "y \<notin> set (z # zs)" "sorted_wrt (<) (z # zs)" using sub(2) ys by auto
    then have "set ys - {y} = set (z # zs)" "Min (set (z # zs)) = z"
      using ys strict_ends(2) [of "z # zs"] by auto
    moreover have "Min (set ys) = y" using first ys by simp
    moreover have "gs ! length xs = y" "gs ! Suc (length xs) = z" by (simp_all add: gs ys nth_append)
    ultimately show ?thesis using False two unfolding higher card Let_def index by simp
  qed
qed

lemma seek_target_index:
  fixes programs :: "VirtualProgram list" and std_sort :: "VirtualProgram sorter"
  defines "l \<equiv> std_sort vp_less programs"
  shows "seek_target std_sort up current programs = vp_selector (l ! seek_index up
    (tunesTo current (vp_selector (l ! length (takeWhile (\<lambda>g. g < selector_key current) (map vp_key l)))))
    (selector_key current) (map vp_key l))"
  by (simp add: seek_target_def seek_index_def Let_def l_def vp_less_key takeWhile_map comp_def)

lemma seek_neighbour:
  assumes "is_std_sort std_sort" "programs \<noteq> []" "distinct (map vp_key programs)"
  shows "\<exists>p \<in> set programs. seek_target std_sort False current programs = vp_selector p \<and>
      vp_key p = (let all = vp_key ` set programs; lower = {k \<in> all. k < selector_key current} in
        if lower = {} then Max all else Max lower)"
    "\<exists>p \<in> set programs. seek_target std_sort True current programs = vp_selector p \<and>
      vp_key p = (let all = vp_key ` set programs; higher = {k \<in> all. selector_key current \<le> k} in
        if card higher < 2 then Min all
        else if \<exists>q \<in> set programs. vp_key q = Min higher \<and> tunesTo current (vp_selector q)
          then Min (higher - {Min higher}) else Min higher)"
proof -
  define l where "l = std_sort vp_less programs"
  define gs where "gs = map vp_key l"
  have gs: "gs = List.sort (map vp_key programs)" and set: "set l = set programs"
    unfolding gs_def l_def using sorted_stations [OF assms(1)] by auto
  have strict: "sorted_wrt (<) gs" unfolding gs using assms(3) by (simp add: strict_sorted_iff)
  have ne: "gs \<noteq> []" unfolding gs using assms(2) by (metis length_0_conv length_map length_sort)
  have all: "vp_key ` set programs = set gs" unfolding gs by simp
  define n where "n = length (takeWhile (\<lambda>g. g < selector_key current) gs)"
  define same where "same = tunesTo current (vp_selector (l ! n))"
  note index = seek_index_neighbour [OF strict ne, where f = "selector_key current", folded n_def]
  have at: "l ! i \<in> set programs \<and> vp_key (l ! i) = gs ! i" if "i < length gs" for i
    using that set nth_mem [of i l] by (simp add: gs_def)
  have target: "seek_target std_sort up current programs = vp_selector (l ! seek_index up same (selector_key current) gs)" for up
    using seek_target_index [of std_sort up current programs] unfolding same_def n_def gs_def l_def .
  show "\<exists>p \<in> set programs. seek_target std_sort False current programs = vp_selector p \<and>
      vp_key p = (let all = vp_key ` set programs; lower = {k \<in> all. k < selector_key current} in
        if lower = {} then Max all else Max lower)"
    unfolding target all Let_def index(2) [of same, unfolded Let_def, symmetric]
    using at [OF index(1) [of False same]] by (elim conjE, intro bexI conjI) (assumption | rule refl)+
  let ?higher = "{k \<in> set gs. selector_key current \<le> k}"
  have same: "same \<longleftrightarrow> (\<exists>q \<in> set programs. vp_key q = Min ?higher \<and> tunesTo current (vp_selector q))"
    if "\<not> card ?higher < 2"
  proof -
    have "?higher \<noteq> {}" using that by (metis card.empty zero_less_numeral)
    then have "gs ! n = Min ?higher" by (rule index(5))
    moreover have "n < length gs" using that index(4) by simp
    ultimately have "l ! n \<in> set programs" "vp_key (l ! n) = Min ?higher" using at by auto
    moreover from this have "q = l ! n" if "q \<in> set programs" "vp_key q = Min ?higher" for q
      using inj_onD [of vp_key "set programs" q "l ! n"] that assms(3) by (simp only: distinct_map)
    ultimately show ?thesis unfolding same_def by blast
  qed
  have "\<exists>p \<in> set programs. seek_target std_sort True current programs = vp_selector p \<and>
      vp_key p = gs ! seek_index True same (selector_key current) gs"
    unfolding target using at [OF index(1) [of True same]] by (elim conjE, intro bexI conjI) (assumption | rule refl)+
  then show "\<exists>p \<in> set programs. seek_target std_sort True current programs = vp_selector p \<and>
      vp_key p = (let all = vp_key ` set programs; higher = {k \<in> all. selector_key current \<le> k} in
        if card higher < 2 then Min all
        else if \<exists>q \<in> set programs. vp_key q = Min higher \<and> tunesTo current (vp_selector q)
          then Min (higher - {Min higher}) else Min higher)"
    unfolding all index(3) Let_def using same by (simp cong: if_cong)
qed


text \<open>Where the session is tuned to a station exactly if the two have the same primary identifier, this reads:\<close>

lemma seek_up_plain:
  assumes "is_std_sort std_sort" "programs \<noteq> []" "distinct (map vp_key programs)"
    and plain: "\<And>p. p \<in> set programs \<Longrightarrow> tunesTo current (vp_selector p) \<longleftrightarrow> vp_key p = selector_key current"
  shows "\<exists>p \<in> set programs. seek_target std_sort True current programs = vp_selector p \<and>
      vp_key p = (let all = vp_key ` set programs; higher = {k \<in> all. selector_key current < k} in
        if higher = {} \<or> selector_key current \<notin> all \<and> card higher = 1 then Min all else Min higher)"
proof -
  define k all where "k = selector_key current" and "all = vp_key ` set programs"
  have fin: "finite {g \<in> all. P g}" for P by (simp add: all_def)
  obtain p where p: "p \<in> set programs" "seek_target std_sort True current programs = vp_selector p"
    "vp_key p = (let higher = {g \<in> all. k \<le> g} in if card higher < 2 then Min all
      else if \<exists>q \<in> set programs. vp_key q = Min higher \<and> tunesTo current (vp_selector q)
        then Min (higher - {Min higher}) else Min higher)"
    using seek_neighbour(2) [OF assms(1-3), of current] unfolding k_def all_def Let_def by blast
  have "vp_key p = (let higher = {g \<in> all. k < g} in
      if higher = {} \<or> k \<notin> all \<and> card higher = 1 then Min all else Min higher)"
  proof (cases "k \<in> all")
    case True
    then have split: "{g \<in> all. k \<le> g} = insert k {g \<in> all. k < g}" by auto
    have least: "Min (insert k {g \<in> all. k < g}) = k" using fin by (intro Min_eqI) auto
    have "\<exists>q \<in> set programs. vp_key q = k \<and> tunesTo current (vp_selector q)"
      using True plain by (auto simp: all_def k_def)
    then show ?thesis using p(3) True fin unfolding split least
      by (auto simp: Let_def card_insert_if split: if_splits)
  next
    case False
    then have split: "{g \<in> all. k \<le> g} = {g \<in> all. k < g}" by (auto simp: order.order_iff_strict)
    have "\<not> (\<exists>q \<in> set programs. vp_key q = Min {g \<in> all. k < g} \<and> tunesTo current (vp_selector q))"
    proof
      assume "\<exists>q \<in> set programs. vp_key q = Min {g \<in> all. k < g} \<and> tunesTo current (vp_selector q)"
      then obtain q where "q \<in> set programs" "vp_key q = k" using plain unfolding k_def by blast
      then have "k \<in> all" unfolding all_def by blast
      then show False using False by contradiction
    qed
    moreover have "card {g \<in> all. k < g} < 2 \<longleftrightarrow> {g \<in> all. k < g} = {} \<or> card {g \<in> all. k < g} = 1"
      using fin by (auto simp: less_2_cases_iff)
    ultimately show ?thesis using p(3) False unfolding split Let_def by (simp only: if_False simp_thms)
  qed
  then show ?thesis using p(1,2) unfolding k_def all_def Let_def by blast
qed



subsection \<open>Stepping\<close>

lemma step_target_exact:
  assumes "ucast (lowerBound rng) \<le> f" "f \<le> ucast (upperBound rng)"
  shows "unat (step_target up rng f) =
    (let lo = unat (lowerBound rng); hi = unat (upperBound rng); sp = unat (spacing rng) in
     if up then if unat f + sp \<le> hi then unat f + sp else lo
     else if unat f < sp then lo else if unat f - sp < lo then hi else unat f - sp)"
proof -
  define lo hi sp where "lo = (ucast (lowerBound rng) :: u64)" and "hi = (ucast (upperBound rng) :: u64)"
    and "sp = (ucast (spacing rng) :: u64)"
  have wide: "unat lo = unat (lowerBound rng)" "unat hi = unat (upperBound rng)" "unat sp = unat (spacing rng)"
    by (simp_all add: lo_def hi_def sp_def unat_wide)
  have small: "unat hi < 2 ^ 32" "unat sp < 2 ^ 32" "unat lo < 2 ^ 32"
    unfolding wide using unsigned_less [of "upperBound rng", where ?'a = nat]
      unsigned_less [of "spacing rng", where ?'a = nat] unsigned_less [of "lowerBound rng", where ?'a = nat] by simp_all
  have order: "unat lo \<le> unat f" "unat f \<le> unat hi" using assms by (simp_all add: lo_def hi_def word_le_nat_alt)
  have code: "step_target up rng f =
     (let t = (if up then f + sp else f - sp); t = (if hi < t then lo else t) in if t < lo then hi else t)"
    by (simp add: step_target_def lo_def hi_def sp_def Let_def)
  have plus: "unat (f + sp) = unat f + unat sp" using order small by (simp add: unat_word_ariths)
  have minus: "unat (f - sp) = (if unat sp \<le> unat f then unat f - unat sp else unat f + 2 ^ LENGTH(64) - unat sp)"
    by (rule unat_sub_if')
  show ?thesis
  proof (cases up)
    case True
    have "hi < f + sp \<longleftrightarrow> unat hi < unat f + unat sp" "\<not> f + sp < lo"
      using order by (simp_all add: word_less_nat_alt plus)
    then show ?thesis unfolding code wide [symmetric] Let_def using True by (simp add: plus)
  next
    case False
    show ?thesis
    proof (cases "unat sp \<le> unat f")
      case True
      then have "unat (f - sp) = unat f - unat sp" using minus by simp
      moreover from this have "\<not> hi < f - sp" "f - sp < lo \<longleftrightarrow> unat f - unat sp < unat lo"
        using order by (simp_all add: word_less_nat_alt)
      ultimately show ?thesis unfolding code wide [symmetric] Let_def using False True by simp
    next
      case wraps: False
      then have "unat (f - sp) = unat f + 2 ^ LENGTH(64) - unat sp" using minus by simp
      then have "hi < f - sp" using small by (simp add: word_less_nat_alt)
      then show ?thesis unfolding code wide [symmetric] Let_def using False wraps by simp
    qed
  qed
qed

text \<open>
  An accepted step goes to the next channel of the band of the current frequency and, at its end, to
  the other end; only when the spacing is larger than the frequency itself a step down goes to the
  lower end.
\<close>
theorem step_stays_in_band:
  assumes "step m now up s = (OK, s')"
  shows "\<exists>rng \<in> set (mAmFmConfig m). \<exists>g.
    mTasks s' = [(now + 100, TuneTo (make_selector_amfm g))] \<and> lowerBound rng \<le> g \<and> g \<le> upperBound rng \<and>
    (let f = unat (getId (mCurrentProgram s) AMFM_FREQUENCY);
         lo = unat (lowerBound rng); hi = unat (upperBound rng); sp = unat (spacing rng)
     in lo \<le> f \<and> f \<le> hi \<and> unat g =
       (if up then if f + sp \<le> hi then f + sp else lo
        else if f < sp then lo else if f - sp < lo then hi else f - sp))"
proof -
  let ?s = "cancelLocked s"
  have same: "mCurrentProgram ?s = mCurrentProgram s" "mTasks ?s = []" by (simp_all add: cancelLocked_def cancelAll_def Let_def)
  define f where "f = getId (mCurrentProgram s) AMFM_FREQUENCY"
  obtain rng where rng: "getAmFmRangeLocked m ?s = Some rng"
    and s': "mTasks s' = [(now + 100, TuneTo (make_selector_amfm (ucast (step_target up rng f))))]"
    using assms by (auto simp: step_def Let_def same f_def schedule_def split: if_splits option.splits)
  then have range: "rng \<in> set (mAmFmConfig m)" "ucast (lowerBound rng) \<le> f" "f \<le> ucast (upperBound rng)"
    by (auto simp: getAmFmRangeLocked_def same f_def Let_def find_Some_iff split: if_splits)
  have nat: "unat (lowerBound rng) \<le> unat f" "unat f \<le> unat (upperBound rng)"
    using range(2,3) unfolding word_le_nat_alt unat_wide .
  note exact = step_target_exact [OF range(2,3), of up]
  then have bounds: "unat (lowerBound rng) \<le> unat (step_target up rng f)" "unat (step_target up rng f) \<le> unat (upperBound rng)"
    using nat by (auto simp: Let_def split: if_splits)
  have "unat (upperBound rng) < 2 ^ 32" using unsigned_less [of "upperBound rng", where ?'a = nat] by simp
  then have "unat (step_target up rng f) < 2 ^ 32" using bounds(2) by linarith
  then have "unat (ucast (step_target up rng f) :: u32) = unat (step_target up rng f)"
    by (simp add: unsigned_ucast_eq take_bit_nat_eq_self)
  then show ?thesis using s' range(1) exact bounds nat unfolding f_def [symmetric]
    by (intro bexI [of _ rng] exI [of _ "ucast (step_target up rng f)"]) (auto simp: word_le_nat_alt Let_def)
qed

subsection \<open>Requests are answered\<close>

lemma tunesTo_program: "tunesTo sel (vp_selector p) \<Longrightarrow> \<exists>info. to_ProgramInfo p = Some info \<and> pinfo_selector info = vp_selector p"
proof -
  assume "tunesTo sel (vp_selector p)"
  then have "tuned_types (pi_type (primaryId (vp_selector p))) \<noteq> None"
    by (auto simp: tunesTo_def tuned_types_def Let_def split: if_splits)
  then show ?thesis by (auto simp: to_ProgramInfo_def Let_def)
qed

lemma tuneInternal_answers:
  "\<exists>info u. tuneInternalLocked m sel s = Some u \<and> callbacks u = callbacks s @ [ProgramChanged info] \<and>
    pinfo_selector info = mCurrentProgram u \<and> mIsTuneCompleted u \<and> mTasks u = mTasks s \<and> running u = running s \<and>
    mIsClosed u = mIsClosed s"
proof (cases "getProgram (mVirtualRadio m) sel")
  case None
  then show ?thesis by (simp add: tuneInternalLocked_def makeDummyProgramInfo_def Let_def)
next
  case (Some p)
  then have "tunesTo sel (vp_selector p)" by (auto simp: getProgram_def find_Some_iff)
  then show ?thesis using tunesTo_program [of sel p] Some by (auto simp: tuneInternalLocked_def)
qed

lemma tuneInternal_emits: "tuneInternalLocked m sel s = Some u \<Longrightarrow> (\<exists>info. callbacks u = callbacks s @ [ProgramChanged info]) \<and>
    running u = running s \<and> mTasks u = mTasks s \<and> mIsClosed u = mIsClosed s"
  using tuneInternal_answers [of m sel s] by auto

lemma new_session_open: "TunerSession m = Some s \<Longrightarrow> \<not> mIsClosed s \<and> mTasks s = [] \<and> running s = None"
  by (auto simp: TunerSession_def split: list.splits dest!: tuneInternal_emits) (simp_all add: no_session_def)

text \<open>The callbacks that answer a request, and the tasks that will make one.\<close>

definition answers :: "Session \<Rightarrow> event list" where
  "answers s = filter (\<lambda>e. case e of ListUpdated c \<Rightarrow> False | _ \<Rightarrow> True) (callbacks s)"

primrec answers_request :: "task \<Rightarrow> bool" where
  "answers_request (TuneTo sel) = True"
| "answers_request SeekFails = True"
| "answers_request (SendList l) = False"

definition in_flight :: "Session \<Rightarrow> task list" where
  "in_flight s = filter answers_request (case running s of None \<Rightarrow> [] | Some t \<Rightarrow> [t])"

definition awaited :: "Session \<Rightarrow> task list" where
  "awaited s = in_flight s @ filter answers_request (map snd (mTasks s))"

primrec supersedes :: "session_op \<Rightarrow> bool" where
  "supersedes (Tune sel) = True"
| "supersedes (Scan up skip) = True"
| "supersedes (StepTo up) = True"
| "supersedes Cancel = True"
| "supersedes (ListUpdates flt) = False"
| "supersedes Close = True"
| "supersedes (TakeTask k) = False"
| "supersedes RunTask = False"

definition tuned_selector :: "radio_module \<Rightarrow> ProgramSelector \<Rightarrow> ProgramSelector" where
  "tuned_selector m sel = (case getProgram (mVirtualRadio m) sel of None \<Rightarrow> sel | Some p \<Rightarrow> vp_selector p)"

text \<open>The last answer of a session is the one the task makes, and the session is in the state it reports.\<close>

primrec answered :: "radio_module \<Rightarrow> task \<Rightarrow> Session \<Rightarrow> bool" where
  "answered m (TuneTo sel) s \<longleftrightarrow> mCurrentProgram s = tuned_selector m sel \<and> mIsTuneCompleted s \<and>
     (\<exists>info. last (answers s) = ProgramChanged info \<and> pinfo_selector info = tuned_selector m sel)"
| "answered m SeekFails s \<longleftrightarrow> last (answers s) = TuneFailed TIMEOUT no_selector"
| "answered m (SendList l) s \<longleftrightarrow> False"

lemma answered_cong:
  "answers t = answers s \<Longrightarrow> mCurrentProgram t = mCurrentProgram s \<Longrightarrow> mIsTuneCompleted t = mIsTuneCompleted s \<Longrightarrow>
    answered m k t \<longleftrightarrow> answered m k s"
  by (cases k) simp_all

lemma run_request:
  assumes "answers_request t"
  shows "\<exists>u. run_task m t s = Some u \<and> answered m t u \<and> length (answers u) = Suc (length (answers s)) \<and>
    mTasks u = mTasks s \<and> running u = running s"
proof (cases t)
  case (TuneTo sel)
  obtain info u where u: "tuneInternalLocked m sel s = Some u" "callbacks u = callbacks s @ [ProgramChanged info]"
    "pinfo_selector info = mCurrentProgram u" "mIsTuneCompleted u" "mTasks u = mTasks s" "running u = running s"
    using tuneInternal_answers [of m sel s] by blast
  moreover have "mCurrentProgram u = tuned_selector m sel"
    using u(1) by (auto simp: tuneInternalLocked_def tuned_selector_def split: option.splits)
  ultimately show ?thesis by (simp add: TuneTo run_task_def answers_def)
qed (use assms in \<open>simp_all add: run_task_def answers_def\<close>)

lemma run_list: "run_task m (SendList l) s = Some u \<Longrightarrow> \<exists>c. u = s\<lparr>callbacks := callbacks s @ [ListUpdated c]\<rparr>"
  by (auto simp: run_task_def Let_def split: if_splits)

text \<open>The lists that a session sends are those of its radio.\<close>

definition lists_ok :: "radio_module \<Rightarrow> Session \<Rightarrow> bool" where
  "lists_ok m s \<longleftrightarrow> (\<forall>l. SendList l \<in> snd ` set (mTasks s) \<or> running s = Some (SendList l) \<longrightarrow> l = mVirtualRadio m)"

lemma run_task_keeps: "run_task m t s = Some u \<Longrightarrow> mTasks u = mTasks s \<and> running u = running s"
  by (cases t) (auto simp: run_task_def Let_def split: if_splits dest: tuneInternal_emits)

lemma lists_ok_step: "lists_ok m s \<Longrightarrow> session_call std_sort m op s = Some (r, t) \<Longrightarrow> lists_ok m t"
proof -
  assume asm: "lists_ok m s" "session_call std_sort m op s = Some (r, t)"
  obtain now c where op: "op = (now, c)" by (rule prod.exhaust)
  show "lists_ok m t"
  proof (cases c)
    case (TakeTask k)
    then have "t = s \<or> running t = Some (snd (mTasks s ! k)) \<and> k < length (mTasks s) \<and>
        mTasks t = take k (mTasks s) @ drop (Suc k) (mTasks s)"
      using asm(2) by (auto simp: op take_task_def split: if_splits)
    moreover have "SendList l \<in> snd ` set (mTasks s)" if "k < length (mTasks s)" "snd (mTasks s ! k) = SendList l" for l
      using that by (metis image_eqI nth_mem)
    ultimately show ?thesis using asm(1) unfolding lists_ok_def
      by (auto dest!: in_set_takeD in_set_dropD) (metis image_eqI snd_conv)+
  next
    case RunTask
    then have "mTasks t = mTasks s \<and> (running t = None \<or> t = s)"
      using asm(2) unfolding op by (auto simp: run_running_def split: option.splits dest!: run_task_keeps)
    then show ?thesis using asm(1) by (auto simp: lists_ok_def)
  qed (use asm op in \<open>fastforce simp: lists_ok_def tune_def scan_def step_def cancel_def startProgramListUpdates_def
      close_def schedule_def cancelLocked_def cancelAll_def Let_def split: if_splits option.splits\<close>)+
qed

interpretation lists: abortable_system "lists_ok m" "session_call std_sort m" "session_run std_sort m" for std_sort m
  by unfold_locales (auto dest: lists_ok_step)

text \<open>A request waits in the queue, before every list; then the worker has it; then it has been answered.\<close>

definition late_lists :: "radio_module \<Rightarrow> nat \<Rightarrow> (nat \<times> task) list \<Rightarrow> bool" where
  "late_lists m now ls \<longleftrightarrow> (\<forall>(w, c) \<in> set ls. now + 1000 \<le> w \<and> c = SendList (mVirtualRadio m))"

inductive awaiting :: "radio_module \<Rightarrow> nat \<Rightarrow> nat \<times> task \<Rightarrow> nat \<Rightarrow> Session \<Rightarrow> bool" for m now q n where
  queued: "mTasks s = q # ls \<Longrightarrow> late_lists m now ls \<Longrightarrow> lists_ok m s \<Longrightarrow> length (answers s) + length (in_flight s) = n \<Longrightarrow>
    awaiting m now q n s"
| taken: "late_lists m now (mTasks s) \<Longrightarrow> running s = Some (snd q) \<Longrightarrow> length (answers s) = n \<Longrightarrow> awaiting m now q n s"
| told: "late_lists m now (mTasks s) \<Longrightarrow> running s \<in> {None, Some (SendList (mVirtualRadio m))} \<Longrightarrow>
    length (answers s) = Suc n \<Longrightarrow> answered m (snd q) s \<Longrightarrow> awaiting m now q n s"

lemma late_lists_simps [simp]:
  "late_lists m now []"
  "late_lists m now (ls @ ks) \<longleftrightarrow> late_lists m now ls \<and> late_lists m now ks"
  "late_lists m now ((w, c) # ls) \<longleftrightarrow> now + 1000 \<le> w \<and> c = SendList (mVirtualRadio m) \<and> late_lists m now ls"
  "late_lists m now ls \<Longrightarrow> late_lists m now (take k ls)" "late_lists m now ls \<Longrightarrow> late_lists m now (drop k ls)"
  by (auto simp: late_lists_def dest: in_set_takeD in_set_dropD)

lemma late_lists_awaited: "late_lists m now ls \<Longrightarrow> filter answers_request (map snd ls) = []"
  by (auto simp: late_lists_def filter_empty_conv)

lemma awaiting_count: "awaiting m now q n s \<Longrightarrow> answers_request (snd q) \<Longrightarrow> length (answers s) + length (awaited s) = Suc n"
  by (induction rule: awaiting.induct) (auto simp: awaited_def in_flight_def late_lists_awaited)

lemma awaiting_lists: "awaiting m now q n s \<Longrightarrow> answers_request (snd q) \<Longrightarrow> lists_ok m s"
  by (induction rule: awaiting.induct) (auto simp: lists_ok_def late_lists_def)

lemma awaiting_run:
  assumes "awaiting m now q n s" "answers_request (snd q)" "run_running m s = Some t"
  shows "awaiting m now q n t \<and> running t = None"
proof (cases "running s")
  case None
  then show ?thesis using assms by (simp add: run_running_def)
next
  case (Some k)
  let ?s = "s\<lparr>running := None\<rparr>"
  have t: "run_task m k ?s = Some t" using assms(3) Some by (simp add: run_running_def)
  then have same: "mTasks t = mTasks s" "running t = None" using run_task_keeps [OF t] by auto
  have request: "answered m k t \<and> length (answers t) = Suc (length (answers s))" if "answers_request k"
    using run_request [OF that, of m ?s] t by (auto simp: answers_def)
  have list: "answers t = answers s \<and> mCurrentProgram t = mCurrentProgram s \<and> mIsTuneCompleted t = mIsTuneCompleted s"
    if "k = SendList l" for l using run_list [of m l ?s t] t that by (auto simp: answers_def)
  have ok: "lists_ok m t" using awaiting_lists [OF assms(1,2)] same by (auto simp: lists_ok_def)
  from assms(1) show ?thesis
  proof cases
    case (queued ls)
    have "length (answers t) + length (in_flight t) = n"
      using queued(4) request list Some same by (cases k) (auto simp: in_flight_def)
    then show ?thesis using queued same ok by (auto intro: awaiting.queued)
  next
    case taken
    then show ?thesis using request assms(2) Some same by (auto intro: awaiting.told)
  next
    case told
    then have k: "k = SendList (mVirtualRadio m)" using Some by auto
    show ?thesis using told list [OF k] same answered_cong [of t s m "snd q"] by (auto intro: awaiting.told)
  qed
qed

lemma awaiting_take:
  assumes "awaiting m now (due, c) n s" "due < now + 1000"
  shows "awaiting m now (due, c) n (take_task later k s)"
proof (cases "take_task later k s = s")
  case False
  then have k: "running s = None" "k < length (mTasks s)" "list_all (\<lambda>t. fst (mTasks s ! k) \<le> fst t) (mTasks s)"
    and t: "take_task later k s =
      s\<lparr>running := Some (snd (mTasks s ! k)), mTasks := take k (mTasks s) @ drop (Suc k) (mTasks s)\<rparr>"
    by (auto simp: take_task_def split: if_splits)
  have late: "snd (mTasks s ! k) = SendList (mVirtualRadio m)" if "late_lists m now (mTasks s)"
    using that k(2) nth_mem [OF k(2)] by (cases "mTasks s ! k") (auto simp: late_lists_def)
  from assms(1) show ?thesis
  proof cases
    case (queued ls)
    have "k = 0"
    proof (rule ccontr)
      assume "k \<noteq> 0"
      then have "mTasks s ! k \<in> set ls" using k(2) queued(1) by (cases k) auto
      moreover have "fst (mTasks s ! k) \<le> due" using k(3) queued(1) by simp
      ultimately show False using queued(2) assms(2) by (force simp: late_lists_def)
    qed
    then show ?thesis using queued k(1) unfolding t
      by (intro awaiting.taken) (auto simp: in_flight_def answers_def)
  next
    case taken
    then show ?thesis using k(1) by simp
  next
    case told
    define u where "u = s\<lparr>running := Some (snd (mTasks s ! k)), mTasks := take k (mTasks s) @ drop (Suc k) (mTasks s)\<rparr>"
    have "answered m c u \<longleftrightarrow> answered m c s" by (rule answered_cong) (simp_all add: u_def answers_def)
    moreover have "mTasks u = take k (mTasks s) @ drop (Suc k) (mTasks s)" "answers u = answers s"
      "running u = Some (SendList (mVirtualRadio m))" using late told(1) by (simp_all add: u_def answers_def)
    ultimately show ?thesis using told unfolding t u_def [symmetric] by (intro awaiting.told) simp_all
  qed
qed (use assms(1) in simp)

lemma awaiting_step:
  assumes "awaiting m now (due, c) n s" "due < now + 1000" "answers_request c" "now \<le> time" "\<not> supersedes op"
    "session_call std_sort m (time, op) s = Some (r, t)"
  shows "awaiting m now (due, c) n t"
proof (cases op)
  case (ListUpdates flt)
  have same: "answers (schedule time 1000 k s) = answers s" "in_flight (schedule time 1000 k s) = in_flight s"
    "mTasks (schedule time 1000 k s) = mTasks s @ [(time + 1000, k)]"
    "running (schedule time 1000 k s) = running s" for k by (simp_all add: schedule_def answers_def in_flight_def)
  have "answered m c (schedule time 1000 k s) \<longleftrightarrow> answered m c s" for k
    by (rule answered_cong) (simp_all add: same, simp_all add: schedule_def)
  note same = same this
  have t: "t = s \<or> t = schedule time 1000 (SendList (mVirtualRadio m)) s"
    using assms(6) ListUpdates by (auto simp: startProgramListUpdates_def Let_def split: if_splits)
  from assms(1) have "awaiting m now (due, c) n (schedule time 1000 (SendList (mVirtualRadio m)) s)"
  proof cases
    case (queued ls)
    then show ?thesis using assms(4) by (intro awaiting.queued [where ls = "ls @ [(time + 1000, SendList (mVirtualRadio m))]"]) (auto simp: same lists_ok_def)
  next
    case taken
    then show ?thesis using assms(4) by (intro awaiting.taken) (auto simp: same)
  next
    case told
    then show ?thesis using assms(4) by (intro awaiting.told) (auto simp: same)
  qed
  then show ?thesis using t assms(1) by blast
qed (use assms awaiting_take awaiting_run [OF assms(1)] in auto)

lemma awaiting_calls:
  assumes "session_run std_sort m ops s = Some (rs, t)" "awaiting m now (due, c) n s" "due < now + 1000" "answers_request c"
    "\<forall>(time, op) \<in> set ops. now \<le> time \<and> \<not> supersedes op"
  shows "awaiting m now (due, c) n t"
  using assms(1,2,5)
proof (induction ops arbitrary: s rs)
  case (Cons call ops)
  then obtain time op r u rs' where call: "call = (time, op)" "session_call std_sort m (time, op) s = Some (r, u)"
    "session_run std_sort m ops u = Some (rs', t)"
    by (cases call) (auto simp: bind_eq_Some_conv)
  have "awaiting m now (due, c) n u"
    using awaiting_step [OF Cons.prems(2) assms(3,4) _ _ call(2)] Cons.prems(3) call(1) by simp
  then show ?case using Cons.IH [OF call(3)] Cons.prems(3) by simp
qed simp

lemma run_running_returns:
  assumes "lists_ok m s" "None \<notin> to_ProgramInfo ` set (mVirtualRadio m)"
  shows "\<exists>t. run_running m s = Some t"
proof (cases "running s")
  case (Some k)
  then show ?thesis
  proof (cases k)
    case (SendList l)
    then show ?thesis using assms Some by (auto simp: run_running_def run_task_def lists_ok_def Let_def)
  qed (use run_request [of k m "s\<lparr>running := None\<rparr>"] Some in \<open>auto simp: run_running_def\<close>)
qed (simp add: run_running_def)

lemma awaiting_finishes:
  assumes "awaiting m now (due, c) n s" "due \<le> later" "due < now + 1000" "answers_request c"
    "None \<notin> to_ProgramInfo ` set (mVirtualRadio m)"
  shows "\<exists>k t. session_run std_sort m [(later, RunTask), (later, TakeTask k), (later, RunTask)] s = Some ([OK, OK, OK], t) \<and>
    answered m c t \<and> length (answers t) = Suc n \<and> awaited t = []"
proof -
  obtain u where u: "run_running m s = Some u"
    using run_running_returns [OF awaiting_lists [OF assms(1)] assms(5)] assms(4) by auto
  then have idle: "awaiting m now (due, c) n u" "running u = None" using awaiting_run [OF assms(1)] assms(4) by auto
  have "\<exists>k t. run_running m (take_task later k u) = Some t \<and> answered m c t \<and> length (answers t) = Suc n \<and> awaited t = []"
    using idle(1)
  proof cases
    case (queued ls)
    have "take_task later 0 u = u\<lparr>running := Some c, mTasks := ls\<rparr>"
      using queued idle(2) assms(2,3) by (fastforce simp: take_task_def late_lists_def list_all_iff)
    moreover obtain t where "run_task m c (u\<lparr>mTasks := ls, running := None\<rparr>) = Some t" "answered m c t"
      "length (answers t) = Suc (length (answers u))" "mTasks t = ls" "running t = None"
      using run_request [OF assms(4), of m "u\<lparr>mTasks := ls, running := None\<rparr>"] by (auto simp: answers_def)
    ultimately show ?thesis using queued idle(2)
      by (intro exI [of _ 0] exI [of _ t]) (auto simp: run_running_def awaited_def in_flight_def late_lists_awaited)
  next
    case taken
    then show ?thesis using idle(2) by simp
  next
    case told
    have "run_running m (take_task later (length (mTasks u)) u) = Some u" using idle(2) by (simp add: take_task_def run_running_def)
    then show ?thesis using told idle(2)
      by (intro exI [of _ "length (mTasks u)"] exI [of _ u]) (auto simp: awaited_def in_flight_def late_lists_awaited)
  qed
  then show ?thesis using u by (fastforce simp: bind_eq_Some_conv)
qed

lemma accepted_awaiting:
  assumes "session_call std_sort m (now, op) s = Some (OK, s')" "op \<in> {Tune sel, Scan up skip, StepTo up}" "lists_ok m s"
  shows "\<exists>due c. mTasks s' = [(due, c)] \<and> due \<le> now + 200 \<and> answers_request c \<and>
    awaiting m now (due, c) (length (answers s) + length (in_flight s)) s' \<and>
    (case op of Tune sel \<Rightarrow> c = TuneTo sel
     | Scan up skip \<Rightarrow> c = (if mVirtualRadio m = [] then SeekFails
         else TuneTo (seek_target std_sort up (mCurrentProgram s) (mVirtualRadio m)))
     | _ \<Rightarrow> \<exists>f. c = TuneTo (make_selector_amfm f))"
proof -
  have "\<exists>d c. mTasks s' = [(now + d, c)] \<and> d \<le> 200 \<and> answers_request c \<and> callbacks s' = callbacks s \<and>
      running s' = running s \<and>
      (case op of Tune sel \<Rightarrow> c = TuneTo sel
       | Scan up skip \<Rightarrow> c = (if mVirtualRadio m = [] then SeekFails
           else TuneTo (seek_target std_sort up (mCurrentProgram s) (mVirtualRadio m)))
       | _ \<Rightarrow> \<exists>f. c = TuneTo (make_selector_amfm f))"
    using assms(1,2)
    by (auto simp: tune_def scan_def step_def schedule_def cancelLocked_def cancelAll_def Let_def
        split: if_splits option.splits) blast+
  then obtain d c where c: "mTasks s' = [(now + d, c)]" "d \<le> 200" "answers_request c" "callbacks s' = callbacks s"
    "running s' = running s"
    "case op of Tune sel \<Rightarrow> c = TuneTo sel
     | Scan up skip \<Rightarrow> c = (if mVirtualRadio m = [] then SeekFails
         else TuneTo (seek_target std_sort up (mCurrentProgram s) (mVirtualRadio m)))
     | _ \<Rightarrow> \<exists>f. c = TuneTo (make_selector_amfm f)" by blast
  have "lists_ok m s'" using c assms(3) by (auto simp: lists_ok_def)
  then have "awaiting m now (now + d, c) (length (answers s) + length (in_flight s)) s'"
    using c by (intro awaiting.queued [where ls = "[]"]) (auto simp: answers_def in_flight_def)
  then show ?thesis using c by auto
qed

text \<open>
  C37: An accepted tune, seek or step is answered by exactly one callback, unless another tune, seek or step, a
  cancel or a close comes first. In any run without these, the answers made and the tasks that will still
  make one add up to one more than before the request (where at most a task the worker had already taken
  was left); and at any time 200 ms after it, the worker has answered it, or answers it with the next task
  it takes once it has finished the one it has. The answer is the one of the task of the request: it
  reports the program the session is then tuned to, and a seek fails only when there is no program at all.
  The programs of the radio are assumed to have types that can be reported; else a list aborts the process.
\<close>
theorem accepted_request_answered:
  assumes "TunerSession m = Some new" "session_run std_sort m before new = Some (rs, s)"
    "session_call std_sort m (now, op) s = Some (OK, s')" "op \<in> {Tune sel, Scan up skip, StepTo up}"
    "session_run std_sort m ops s' = Some (rs', u)" "\<forall>(time, op) \<in> set ops. now \<le> time \<and> \<not> supersedes op"
    "None \<notin> to_ProgramInfo ` set (mVirtualRadio m)" "now + 200 \<le> later"
  shows "length (answers u) + length (awaited u) = Suc (length (answers s) + length (in_flight s)) \<and>
    (\<exists>due c k t. mTasks s' = [(due, c)] \<and>
      session_run std_sort m [(later, RunTask), (later, TakeTask k), (later, RunTask)] u = Some ([OK, OK, OK], t) \<and>
      answered m c t \<and> awaited t = [] \<and> length (answers t) = Suc (length (answers s) + length (in_flight s)) \<and>
      (case op of Tune sel \<Rightarrow> c = TuneTo sel
       | Scan up skip \<Rightarrow> c = (if mVirtualRadio m = [] then SeekFails
           else TuneTo (seek_target std_sort up (mCurrentProgram s) (mVirtualRadio m)))
       | _ \<Rightarrow> \<exists>f. c = TuneTo (make_selector_amfm f)))"
proof -
  have "lists_ok m new" using new_session_open [OF assms(1)] by (simp add: lists_ok_def)
  then have "lists_ok m s" using lists.run_inv assms(2) by blast
  then obtain due c where c: "mTasks s' = [(due, c)]" "due \<le> now + 200" "answers_request c"
    "awaiting m now (due, c) (length (answers s) + length (in_flight s)) s'"
    and op: "case op of Tune sel \<Rightarrow> c = TuneTo sel
       | Scan up skip \<Rightarrow> c = (if mVirtualRadio m = [] then SeekFails
           else TuneTo (seek_target std_sort up (mCurrentProgram s) (mVirtualRadio m)))
       | _ \<Rightarrow> \<exists>f. c = TuneTo (make_selector_amfm f)"
    using accepted_awaiting [OF assms(3,4)] by blast
  have due: "due < now + 1000" "due \<le> later" using c(2) assms(8) by simp_all
  have u: "awaiting m now (due, c) (length (answers s) + length (in_flight s)) u"
    using awaiting_calls [OF assms(5) c(4) due(1) c(3) assms(6)] .
  then show ?thesis
    using awaiting_count [OF u] awaiting_finishes [OF u due(2,1) c(3) assms(7), of std_sort] c(1,3) op by auto
qed

text \<open>A seek that the worker had already taken when the client tunes: both are answered, the tune last.\<close>

definition no_filter :: ProgramFilter where
  "no_filter = \<lparr>identifierTypes = [], identifiers = [], includeCategories = True, excludeModifications = False\<rparr>"

theorem accepted_request_answered_witness:
  "\<exists>new rs s s' rs' u k t. TunerSession (BroadcastRadio gAmFmRadio) = Some new \<and>
    session_run insertion_sort (BroadcastRadio gAmFmRadio) [(0, Scan True False), (200, TakeTask 0)] new = Some (rs, s) \<and>
    session_call insertion_sort (BroadcastRadio gAmFmRadio) (210, Tune (make_selector_amfm 99700)) s = Some (OK, s') \<and>
    session_run insertion_sort (BroadcastRadio gAmFmRadio) [(220, ListUpdates no_filter)] s' = Some (rs', u) \<and>
    length (awaited u) = 2 \<and>
    session_run insertion_sort (BroadcastRadio gAmFmRadio) [(410, RunTask), (410, TakeTask k), (410, RunTask)] u =
      Some ([OK, OK, OK], t) \<and>
    awaited t = [] \<and> length (answers t) = 3 \<and> answered (BroadcastRadio gAmFmRadio) (TuneTo (make_selector_amfm 99700)) t"
proof -
  let ?m = "BroadcastRadio gAmFmRadio" and ?run = "session_run insertion_sort"
  obtain new where new: "TunerSession ?m = Some new" and one: "length (callbacks new) = 1" "length (answers new) = 1"
    using tuneInternal_answers [of ?m "make_selector_amfm 87500" no_session]
    by (auto simp: TunerSession_def BroadcastRadio_def gDefaultAmFmConfig_def answers_def no_session_def)
  note fresh = new_session_open [OF new]
  have cancel: "callbacks (cancelLocked x) = callbacks x" "mTasks (cancelLocked x) = []" "running (cancelLocked x) = running x"
    "mIsClosed (cancelLocked x) = mIsClosed x" for x by (simp_all add: cancelLocked_def cancelAll_def Let_def)
  obtain sel s where s: "?run ?m [(0, Scan True False), (200, TakeTask 0)] new = Some ([OK, OK], s)"
    and taken: "running s = Some (TuneTo sel)" "mTasks s = []" "callbacks s = callbacks new" "\<not> mIsClosed s"
    using fresh by (auto simp: scan_def cancel Let_def schedule_def take_task_def BroadcastRadio_def gAmFmRadio_def)
  have "isSupported (supportedIdentifierTypes ?m) (make_selector_amfm 99700)"
    by (simp add: isSupported_def BroadcastRadio_def amfm_facts)
  moreover have "isValid_selector (make_selector_amfm 99700)"
    by (simp add: isValid_selector_def isValid_id_def make_selector_amfm_def make_identifier_def no_selector_def)
  ultimately obtain s' where s': "session_call insertion_sort ?m (210, Tune (make_selector_amfm 99700)) s = Some (OK, s')"
    using taken(4) by (simp add: tune_def)
  obtain rs' u where u: "?run ?m [(220, ListUpdates no_filter)] s' = Some (rs', u)"
    by (cases "startProgramListUpdates ?m 220 no_filter s'") simp
  have quiet: "\<forall>(time, op) \<in> set [(220, ListUpdates no_filter)]. (210 :: nat) \<le> time \<and> \<not> supersedes op" by simp
  have types: "None \<notin> to_ProgramInfo ` set (mVirtualRadio ?m)"
    by (simp add: BroadcastRadio_def gAmFmRadio_def to_ProgramInfo_def tuned_types_def make_selector_amfm_def
      make_identifier_def Let_def)
  have "length (answers s) = 1" "length (in_flight s) = 1"
    using one taken by (simp_all add: answers_def in_flight_def)
  moreover have "callbacks u = callbacks s"
    using s' u by (auto simp: tune_def startProgramListUpdates_def schedule_def cancel Let_def split: if_splits)
  ultimately have two: "length (answers s) = 1" "length (in_flight s) = 1" "answers u = answers s"
    by (simp_all add: answers_def)
  obtain k c t where "mTasks s' = [c]" "?run ?m [(410, RunTask), (410, TakeTask k), (410, RunTask)] u = Some ([OK, OK, OK], t)"
    "answered ?m (TuneTo (make_selector_amfm 99700)) t" "awaited t = []" "length (answers t) = 3" "length (awaited u) = 2"
    using accepted_request_answered [OF new s s' _ u quiet types, where sel = "make_selector_amfm 99700" and later = 410] two
    by auto
  then show ?thesis using new s s' u by blast
qed

definition tuned_low :: Session where
  "tuned_low = no_session\<lparr>mCurrentProgram := make_selector_amfm 87500\<rparr>"

theorem step_stays_in_band_witness:
  "\<exists>s' g. step (BroadcastRadio gAmFmRadio) 0 False tuned_low = (OK, s') \<and>
    mTasks s' = [(100, TuneTo (make_selector_amfm g))] \<and> unat g = 108000"
proof -
  obtain s' where s': "step (BroadcastRadio gAmFmRadio) 0 False tuned_low = (OK, s')"
    by (auto simp: step_def tuned_low_def no_session_def cancelLocked_def cancelAll_def getAmFmRangeLocked_def
      BroadcastRadio_def gDefaultAmFmConfig_def amfm_facts Let_def make_selector_amfm_def make_identifier_def
      hasId_def getId_def maybeGetId_def)
  obtain rng g where g: "rng \<in> set gDefaultAmFmConfig" "mTasks s' = [(100, TuneTo (make_selector_amfm g))]"
    "unat (lowerBound rng) \<le> 87500" "87500 \<le> unat (upperBound rng)"
    "unat g = (if 87500 < unat (spacing rng) then unat (lowerBound rng)
       else if 87500 - unat (spacing rng) < unat (lowerBound rng) then unat (upperBound rng) else 87500 - unat (spacing rng))"
    using step_stays_in_band [OF s'] by (auto simp: BroadcastRadio_def tuned_low_def amfm_facts Let_def)
  then have "unat g = 108000" by (auto simp: gDefaultAmFmConfig_def)
  then show ?thesis using s' g(2) by auto
qed

subsection \<open>Closed sessions\<close>

definition closed_idle :: "Session \<Rightarrow> bool" where
  "closed_idle s \<longleftrightarrow> (mIsClosed s \<longrightarrow> mTasks s = [])"

lemma call_keeps_closed:
  assumes "session_call std_sort m op s = Some (r, t)"
  shows "mIsClosed s \<Longrightarrow> mIsClosed t" "closed_idle s \<Longrightarrow> closed_idle t"
proof -
  have internal: "mIsClosed u = mIsClosed s \<and> mTasks u = mTasks s" if "tuneInternalLocked m sel s = Some u" for sel s u
    using tuneInternal_answers [of m sel s] that by auto
  have ran: "mIsClosed u = mIsClosed s \<and> mTasks u = mTasks s" if "run_running m s = Some u" for s u
    using that by (auto simp: run_running_def run_task_def Let_def split: option.splits task.splits if_splits dest!: internal)
  obtain now c where op: "op = (now, c)" by (rule prod.exhaust)
  have "(mIsClosed s \<longrightarrow> mIsClosed t) \<and> (closed_idle s \<longrightarrow> closed_idle t)"
    using assms unfolding op
    by (cases c) (auto simp: closed_idle_def tune_def scan_def step_def cancel_def startProgramListUpdates_def close_def
      take_task_def schedule_def cancelLocked_def cancelAll_def Let_def dest!: ran split: if_splits option.splits)
  then show "mIsClosed s \<Longrightarrow> mIsClosed t" "closed_idle s \<Longrightarrow> closed_idle t" by blast+
qed

interpretation session: abortable_system closed_idle "session_call std_sort m" "session_run std_sort m" for std_sort m
  by unfold_locales (auto dest: call_keeps_closed)

text \<open>What can still happen to a closed session: the task that the worker had taken already.\<close>

definition quiet_since :: "Session \<Rightarrow> Session \<Rightarrow> bool" where
  "quiet_since s t \<longleftrightarrow> mIsClosed t \<and> mTasks t = [] \<and>
     (running t = running s \<and> callbacks t = callbacks s \<or>
      running s \<noteq> None \<and> running t = None \<and> (\<exists>e. callbacks t = callbacks s @ [e]))"

lemma run_task_emits: "run_task m t s = Some u \<Longrightarrow> \<exists>e. callbacks u = callbacks s @ [e] \<and> running u = running s \<and>
    mTasks u = mTasks s \<and> mIsClosed u = mIsClosed s"
  by (cases t) (auto simp: run_task_def Let_def split: if_splits dest: tuneInternal_emits)

lemma quiet_step:
  assumes "quiet_since s t" "session_call std_sort m op t = Some (r, u)"
  shows "quiet_since s u"
proof -
  obtain now c where op: "op = (now, c)" by (rule prod.exhaust)
  have closed: "mIsClosed t" "mTasks t = []" using assms(1) by (auto simp: quiet_since_def)
  show ?thesis
  proof (cases "c = RunTask \<and> running t \<noteq> None")
    case True
    then obtain k where k: "running t = Some k" "run_task m k (t\<lparr>running := None\<rparr>) = Some u"
      using assms(2) by (auto simp: op run_running_def)
    then show ?thesis using run_task_emits [OF k(2)] assms(1) by (auto simp: quiet_since_def)
  next
    case False
    then have "u = t" using assms(2) closed unfolding op
      by (cases c) (auto simp: tune_def scan_def step_def cancel_def startProgramListUpdates_def close_def take_task_def
        run_running_def split: if_splits)
    then show ?thesis using assms(1) by simp
  qed
qed

text \<open>
  C38: Once a session is closed, whatever its client and the worker do, no call is accepted any more, nothing
  new is started, and at most one more callback is made: that of a task the worker had already taken.
\<close>
theorem closed_session_quiet:
  assumes "TunerSession m = Some new" "session_run std_sort m before new = Some (rs, s)" "mIsClosed s"
    "session_run std_sort m after s = Some (rs', t)"
  shows "quiet_since s t \<and> fst (tune m now sel t) = INVALID_STATE \<and> fst (scan std_sort m now up skip t) = INVALID_STATE \<and>
    fst (step m now up t) = INVALID_STATE \<and> fst (startProgramListUpdates m now flt t) = INVALID_STATE"
proof -
  have "closed_idle new" using new_session_open [OF assms(1)] by (simp add: closed_idle_def)
  then have "closed_idle s" using session.run_inv assms(2) by blast
  then have start: "quiet_since s s" using assms(3) by (simp add: quiet_since_def closed_idle_def)
  have "quiet_since s t" if "session_run std_sort m ops u = Some (rs', t)" "quiet_since s u" for ops u rs'
    using that
    by (induction ops arbitrary: u rs') (auto simp: bind_eq_Some_conv dest: quiet_step)
  then have quiet: "quiet_since s t" using assms(4) start by blast
  then have "mIsClosed t" by (simp add: quiet_since_def)
  then show ?thesis using quiet by (simp add: tune_def scan_def step_def startProgramListUpdates_def)
qed

text \<open>And that callback does come, after the session was closed.\<close>

definition closing_run :: "(nat \<times> session_op) list" where
  "closing_run = [(0, StepTo True), (100, TakeTask 0), (100, Close)]"

definition bare_module :: radio_module where
  "bare_module = \<lparr>mVirtualRadio = [], supportedIdentifierTypes = [1],
     mAmFmConfig = [\<lparr>lowerBound = 10, upperBound = 20, spacing = 1, scanSpacing = 1\<rparr>]\<rparr>"

theorem closed_session_quiet_witness:
  "\<exists>new rs s rs' t. TunerSession bare_module = Some new \<and> session_run insertion_sort bare_module closing_run new = Some (rs, s) \<and>
    mIsClosed s \<and> session_run insertion_sort bare_module [(100, RunTask)] s = Some (rs', t) \<and>
    quiet_since s t \<and> length (callbacks t) = Suc (length (callbacks s))"
proof -
  let ?rng = "\<lparr>lowerBound = 10, upperBound = 20, spacing = 1, scanSpacing = 1\<rparr>"
  obtain new where new: "TunerSession bare_module = Some new" and tuned: "mCurrentProgram new = make_selector_amfm 10"
    "mIsTuneCompleted new"
    by (simp add: TunerSession_def bare_module_def tuneInternalLocked_def getProgram_def)
  note fresh = new_session_open [OF new]
  have "pi_type (primaryId (make_selector_amfm 10)) \<noteq> 0" by (simp add: make_selector_amfm_def make_identifier_def)
  then have cancel: "cancelLocked new = new" using tuned fresh by (simp add: cancelLocked_def cancelAll_def)
  have "getAmFmRangeLocked bare_module new = Some ?rng"
    using tuned by (simp add: getAmFmRangeLocked_def amfm_facts bare_module_def)
  then obtain g where "session_call insertion_sort bare_module (0, StepTo True) new =
      Some (OK, new\<lparr>mIsTuneCompleted := False, mTasks := [(100, TuneTo g)]\<rparr>)"
    using fresh tuned by (simp add: step_def cancel Let_def amfm_facts schedule_def)
  then have run: "session_run insertion_sort bare_module closing_run new = Some ([OK, OK, OK],
      new\<lparr>mIsTuneCompleted := False, mIsClosed := True, running := Some (TuneTo g)\<rparr>)" (is "_ = Some (_, ?s)")
    using fresh by (simp add: closing_run_def take_task_def close_def cancelAll_def)
  obtain t where t: "run_task bare_module (TuneTo g) (?s\<lparr>running := None\<rparr>) = Some t"
    using tuneInternal_answers [of bare_module g "?s\<lparr>running := None\<rparr>"] by (auto simp: run_task_def)
  then have late: "session_run insertion_sort bare_module [(100, RunTask)] ?s = Some ([OK], t)"
    by (simp add: run_running_def)
  have closed: "mIsClosed ?s" by simp
  have "quiet_since ?s t" using closed_session_quiet [OF new run closed late] by blast
  then show ?thesis using new run late closed run_task_emits [OF t] by fastforce
qed

subsection \<open>Program lists and the DAB stations\<close>

text \<open>The filter of a list request has no effect, and a later tune takes the pending list away.\<close>

theorem list_filter_ignored:
  "startProgramListUpdates m now flt s = startProgramListUpdates m now flt' s \<and>
   (\<forall>r s'. tune m later sel (snd (startProgramListUpdates m now flt s)) = (OK, s') \<longrightarrow>
     mTasks s' = [(later + 150, TuneTo sel)])"
  by (auto simp: startProgramListUpdates_def tune_def cancelLocked_def cancelAll_def schedule_def Let_def split: if_splits)

text \<open>The stations of the DAB radio cannot be tuned to by their own selectors, which are not valid.\<close>

theorem dab_stations_not_tunable:
  "\<forall>p \<in> set gDabRadio. tune (BroadcastRadio gDabRadio) now (vp_selector p) no_session = (INVALID_ARGUMENTS, no_session)"
proof -
  have "\<not> isValid_id (make_identifier DAB_SID_EXT v)" if "v < 0x10000" for v :: u64
  proof -
    have "drop_bit 16 v = 0" using that by (simp add: word_unat_eq_iff drop_bit_eq_div unat_div word_less_nat_alt)
    then show ?thesis by (simp add: isValid_id_def make_identifier_def)
  qed
  then have "\<not> isValid_selector (make_selector_dab sid ens)" if "sid < 0x10000" for sid ens
    using that by (simp add: isValid_selector_def make_selector_dab_def no_selector_def word_less_nat_alt unat_wide)
  moreover have "isSupported (supportedIdentifierTypes (BroadcastRadio l)) (make_selector_dab sid ens)" for l sid ens
    by (simp add: BroadcastRadio_def isSupported_def hasId_iff all_ids_def make_selector_dab_def make_identifier_def)
  ultimately show ?thesis by (simp add: gDabRadio_def tune_def no_session_def)
qed

subsection \<open>Opening sessions\<close>

record radio =
  br_module :: radio_module
  br_sessions :: "(nat \<times> Session) list" \<comment> \<open>the sessions that are still referred to\<close>
  br_next :: nat
  mSession :: "nat option"

definition openSession :: "radio \<Rightarrow> radio option" where
  "openSession r =
     (case TunerSession (br_module r) of
        None \<Rightarrow> None
      | Some newSession \<Rightarrow>
          let sessions =
            (case mSession r of
               None \<Rightarrow> br_sessions r
             | Some old \<Rightarrow> map (\<lambda>(i, s). (i, if i = old then close s else s)) (br_sessions r))
          in Some (r\<lparr>br_sessions := sessions @ [(br_next r, newSession)], br_next := Suc (br_next r),
               mSession := Some (br_next r)\<rparr>))"

datatype radio_op = OpenSession | DropSession nat | SessionOp nat "nat \<times> session_op"

fun radio_call :: "VirtualProgram sorter \<Rightarrow> radio_op \<Rightarrow> radio \<Rightarrow> (result \<times> radio) option" where
  "radio_call std_sort OpenSession r = map_option (Pair OK) (openSession r)"
| "radio_call std_sort (DropSession i) r = Some (OK, r\<lparr>br_sessions := filter (\<lambda>(j, s). j \<noteq> i) (br_sessions r)\<rparr>)"
| "radio_call std_sort (SessionOp i op) r =
     (case map_of (br_sessions r) i of
        None \<Rightarrow> Some (INVALID_STATE, r)
      | Some s \<Rightarrow> (case session_call std_sort (br_module r) op s of
          None \<Rightarrow> None
        | Some (res, t) \<Rightarrow> Some (res, r\<lparr>br_sessions := map (\<lambda>(j, u). (j, if j = i then t else u)) (br_sessions r)\<rparr>)))"

fun radio_run :: "VirtualProgram sorter \<Rightarrow> radio_op list \<Rightarrow> radio \<Rightarrow> (result list \<times> radio) option" where
  "radio_run std_sort [] r = Some ([], r)"
| "radio_run std_sort (op # ops) r =
     Option.bind (radio_call std_sort op r) (\<lambda>(res, t).
       Option.bind (radio_run std_sort ops t) (\<lambda>(rs, u). Some (res # rs, u)))"

definition radio_inv :: "radio \<Rightarrow> bool" where
  "radio_inv r \<longleftrightarrow> distinct (map fst (br_sessions r)) \<and> (\<forall>(i, s) \<in> set (br_sessions r). i < br_next r) \<and>
     (\<forall>(i, s) \<in> set (br_sessions r). \<not> mIsClosed s \<longrightarrow> mSession r = Some i)"

lemma map_fst_update: "map fst (map (\<lambda>(i, s). (i, f i s)) l) = map fst l"
  by (induction l) auto

lemma radio_call_inv:
  assumes "radio_inv r" "radio_call std_sort op r = Some (res, t)"
  shows "radio_inv t"
proof (cases op)
  case OpenSession
  define sessions where "sessions = (case mSession r of
      None \<Rightarrow> br_sessions r
    | Some old \<Rightarrow> map (\<lambda>(i, s). (i, if i = old then close s else s)) (br_sessions r))"
  obtain new where t: "t = r\<lparr>br_sessions := sessions @ [(br_next r, new)], br_next := Suc (br_next r),
      mSession := Some (br_next r)\<rparr>"
    using assms(2) OpenSession by (auto simp: openSession_def Let_def sessions_def split: option.splits)
  have ids: "map fst sessions = map fst (br_sessions r)"
    using map_fst_update [of "\<lambda>i s. if i = the (mSession r) then close s else s" "br_sessions r"]
    by (auto simp: sessions_def split: option.splits)
  have "fst ` set sessions = fst ` set (br_sessions r)" using ids by (metis list.set_map)
  moreover have "\<forall>i \<in> fst ` set (br_sessions r). i < br_next r" using assms(1) by (auto simp: radio_inv_def)
  ultimately have small: "\<forall>i \<in> fst ` set sessions. i < br_next r" by simp
  have closed: "\<forall>(i, s) \<in> set sessions. mIsClosed s"
    using assms(1) by (auto simp: radio_inv_def sessions_def close_def cancelAll_def split: option.splits)
  show ?thesis using assms(1) small closed ids unfolding t radio_inv_def by fastforce
next
  case (DropSession i)
  then show ?thesis using assms by (auto simp: radio_inv_def distinct_map_filter)
next
  case (SessionOp i c)
  show ?thesis
  proof (cases "map_of (br_sessions r) i")
    case None
    then show ?thesis using assms SessionOp by simp
  next
    case (Some s)
    then obtain u where u: "session_call std_sort (br_module r) c s = Some (res, u)"
      and t: "t = r\<lparr>br_sessions := map (\<lambda>(j, v). (j, if j = i then u else v)) (br_sessions r)\<rparr>"
      using assms(2) SessionOp by (auto split: option.splits)
    have "(i, s) \<in> set (br_sessions r)" using Some by (rule map_of_SomeD)
    then have open_i: "\<not> mIsClosed u \<Longrightarrow> mSession r = Some i"
      using assms(1) call_keeps_closed(1) [OF u] by (auto simp: radio_inv_def)
    define l where "l = map (\<lambda>(j, v). (j, if j = i then u else v)) (br_sessions r)"
    have "map fst l = map fst (br_sessions r)" unfolding l_def by (rule map_fst_update)
    moreover have "\<forall>(j, v) \<in> set l. (\<exists>w. (j, w) \<in> set (br_sessions r)) \<and> (v = u \<and> j = i \<or> (j, v) \<in> set (br_sessions r))"
      by (auto simp: l_def split: if_splits)
    ultimately show ?thesis unfolding t l_def [symmetric] using assms(1) open_i by (fastforce simp: radio_inv_def)
  qed
qed

interpretation radio: abortable_system radio_inv "radio_call std_sort" "radio_run std_sort" for std_sort
  by unfold_locales (auto dest: radio_call_inv)

definition new_radio :: "VirtualProgram list \<Rightarrow> radio" where
  "new_radio programs = \<lparr>br_module = BroadcastRadio programs, br_sessions = [], br_next = 0, mSession = None\<rparr>"

text \<open>
  C39: However sessions are opened, used, closed and dropped, at most one of them is open at any time.
\<close>
theorem one_session_open:
  assumes "radio_run std_sort ops (new_radio programs) = Some (rs, r)" "(i, s) \<in> set (br_sessions r)" "\<not> mIsClosed s"
    "(j, t) \<in> set (br_sessions r)" "\<not> mIsClosed t"
  shows "i = j \<and> s = t"
proof -
  have "radio_inv (new_radio programs)" by (simp add: radio_inv_def new_radio_def)
  then have inv: "radio_inv r" using radio.run_inv assms(1) by blast
  have "mSession r = Some i" "mSession r = Some j" using inv assms(2-5) unfolding radio_inv_def by blast+
  then have "i = j" by simp
  moreover have "distinct (map fst (br_sessions r))" using inv by (simp add: radio_inv_def)
  ultimately show ?thesis using assms(2,4) by (auto dest: eq_key_imp_eq_value)
qed

theorem one_session_open_witness:
  "\<exists>rs r i s. radio_run insertion_sort [OpenSession, OpenSession] (new_radio []) = Some (rs, r) \<and>
    {j. \<exists>t. (j, t) \<in> set (br_sessions r) \<and> \<not> mIsClosed t} = {i} \<and> length (br_sessions r) = 2"
proof -
  obtain new where new: "TunerSession (BroadcastRadio []) = Some new" "\<not> mIsClosed new"
    by (simp add: TunerSession_def BroadcastRadio_def gDefaultAmFmConfig_def tuneInternalLocked_def getProgram_def no_session_def)
  then obtain rs r where r: "radio_run insertion_sort [OpenSession, OpenSession] (new_radio []) = Some (rs, r)"
    "br_sessions r = [(0, close new), (1, new)]"
    by (simp add: new_radio_def openSession_def Let_def)
  have "i = 1" if "(i, s) \<in> set (br_sessions r)" "\<not> mIsClosed s" for i s
    using one_session_open [OF r(1) that, of 1 new] r(2) new(2) by simp
  then show ?thesis using r new(2) by (intro exI [of _ rs] exI [of _ r] exI [of _ "1 :: nat"]) auto
qed

end
