(* ===== verification/Spec2Isabelle.thy ===== *)
theory Spec2Isabelle
  imports PropertyStore Subscriptions EventQueue HalManager Vms Obd2 ObjectPool Timer Floats FloatBounds
    Generators DefaultConfig EmulatedHal HalBehaviour VehicleEmulator EmulatorComm EvsTypes EvsCamera EvsDisplay EvsEnumerator
    HciTransport BluetoothAddress WifiBehaviour Cbor MsgFormat ConfirmationUI KeyFormat KeyTokens BroadcastTuner
begin

text \<open>
  A verified model of the hardware abstraction layers (HALs) of an Android platform that carry logic
  of their own. The repository holds the interface of every HAL and, for most, a default
  implementation in C++; many of those only hand calls to a vendor library. Seven subsystems do more
  and are modelled: the vehicle HAL, the exterior view system (EVS), the Bluetooth HCI transport,
  the Wi-Fi HAL, the confirmation UI, the support library of Keymaster and the broadcast radio.

  \<^bold>\<open>The vehicle HAL\<close> (\<open>automotive/vehicle/2.0/default\<close>). Clients call the service \<open>VehicleHalManager\<close>;
  it checks each request against the property configurations, asks the vendor's \<open>VehicleHal\<close>, keeps
  the subscriptions in \<open>SubscriptionManager\<close> and passes events, which arrive through a concurrent
  queue and a batching thread, to the subscribed clients. The emulated HAL is the repository's own
  \<open>VehicleHal\<close>: a property store, a recurrent timer, fake value generators and a pool of value
  objects, initialised from the default configuration; \<open>VehicleEmulator\<close> lets a host set and get its
  properties over a socket.

  \<^item> \<open>VehicleTypes\<close>: the structs and enums of \<open>types.hal\<close>; \<open>VehicleUtils.cpp\<close>, \<open>VehicleUtils.h\<close>.
  \<^item> \<open>PropertyStore\<close>: \<open>VehiclePropertyStore.cpp\<close>; reads and writes by record and by range. The locale
    \<open>property_db\<close> is the contract the emulated HAL uses.
  \<^item> \<open>Subscriptions\<close>: \<open>SubscriptionManager.cpp\<close>; the bookkeeping invariant over every run, who receives
    what, what the HAL is told.
  \<^item> \<open>EventQueue\<close>: \<open>ConcurrentQueue.h\<close>; the interleavings of producers, the consuming thread and the
    shutdown as a step relation; order and completeness of the delivery from the locale \<open>event_queue\<close>.
  \<^item> \<open>HalManager\<close>: \<open>VehicleHalManager.cpp\<close>, \<open>VehiclePropConfigIndex.h\<close>; the service over any vendor HAL. What a call
    does under the lock of the subscription manager is one step; what it does after it, telling the HAL
    to deliver property after property, and dropping the subscriptions of a dead client one by one, are
    tasks of its thread (\<open>hm_task\<close>) that interleave with the other calls in any order.
  \<^item> \<open>Vms\<close>: \<open>VmsUtils.cpp\<close>; the message parsers, their bounds and round trip. Their index is an \<open>int\<close> of 32
    bits: a parser reads outside the message (\<open>OutOfBounds\<close>), overflows (\<open>Overflow\<close>), returns early or goes on.
  \<^item> \<open>Obd2\<close>: \<open>Obd2SensorStore.cpp\<close>; a refinement of two partial maps.
  \<^item> \<open>ObjectPool\<close>: \<open>VehicleObjectPool.cpp\<close>; well-formed recycled objects.
  \<^item> \<open>Timer\<close>: \<open>RecurrentTimer.h\<close>; what one turn of its thread fires.
  \<^item> \<open>Floats\<close>, \<open>FloatBounds\<close>: single precision arithmetic on bit patterns, with error bounds.
  \<^item> \<open>Generators\<close>: \<open>LinearFakeValueGenerator.cpp\<close>, \<open>JsonFakeValueGenerator.cpp\<close>, \<open>GeneratorHub.cpp\<close>.
  \<^item> \<open>DefaultConfig\<close>: the table of \<open>DefaultConfig.h\<close>.
  \<^item> \<open>EmulatedHal\<close>: \<open>EmulatedVehicleHal.cpp\<close>; \<open>HalBehaviour\<close>: what it guarantees.
  \<^item> \<open>VehicleEmulator\<close>, \<open>EmulatorComm\<close>: \<open>VehicleEmulator.cpp\<close>, \<open>SocketComm.cpp\<close>, \<open>CommConn.cpp\<close>.

  \<^bold>\<open>The exterior view system\<close> (\<open>automotive/evs/1.0/default\<close>). The enumerator hands out cameras and the
  display and takes them away from earlier owners; a camera has a thread that fills buffers and sends
  frames; the display checks the buffers returned to it.

  \<^item> \<open>EvsTypes\<close>, \<open>EvsCamera\<close> (\<open>EvsCamera.cpp\<close>), \<open>EvsDisplay\<close> (\<open>EvsDisplay.cpp\<close>), \<open>EvsEnumerator\<close>
    (\<open>EvsEnumerator.cpp\<close>): in every interleaving of calls and capture thread the books of the camera
    balance, a stop ends, and one object at most owns a camera or the display. The steps of a camera
    (\<open>camera_step\<close>) let the client return any frame; \<open>careful_reachable\<close> are the runs in which it returns only
    frames it was sent, and only there the count of frames in use is exact. The thread reads a record
    without the lock: a step of its own, whose result is only defined if no call changes the vector
    meanwhile (\<open>unlocked_read_races\<close>).

  \<^bold>\<open>The Bluetooth HCI transport\<close> (\<open>bluetooth/1.0/default\<close>), theory \<open>HciTransport\<close>: the packetizer and the
  H4 and MCT protocols; packets are recovered however the stream is cut. Theory \<open>BluetoothAddress\<close>
  (\<open>bluetooth_address.cc\<close>): printing, parsing and the sources of the device's address.

  \<^bold>\<open>The Wi-Fi HAL\<close> (\<open>wifi/1.3/default\<close>). \<open>Wifi\<close> starts and stops the vendor library through the shim
  \<open>WifiLegacyHal\<close> and owns one \<open>WifiChip\<close>, which creates interfaces as far as its mode allows.

  \<^item> \<open>WifiCombos\<close>: modes and interface combinations (\<open>wifi_chip.cpp\<close>, \<open>wifi_feature_flags.cpp\<close>); the
    expansion by counters equals the list of all choices.
  \<^item> \<open>WifiLegacy\<close>: the shim (\<open>wifi_legacy_hal.cpp\<close>), error codes and debug rings.
  \<^item> \<open>WifiChip\<close>, \<open>WifiService\<close>: \<open>wifi_chip.cpp\<close>, \<open>wifi.cpp\<close>, the constructors and \<open>invalidate\<close> of the
    interface objects.
  \<^item> \<open>WifiSafety\<close>: the invariant of every run (locale \<open>abortable_system\<close>); \<open>WifiBehaviour\<close>: the
    properties, and the states a client cannot get out of.

  \<^bold>\<open>The confirmation UI\<close> (\<open>confirmationui\<close>). The service asks the user to confirm a message and hands out
  a signed token. Its support library encodes the message in CBOR and formats the messages between
  the service and a trusted application.

  \<^item> \<open>Cbor\<close>: \<open>cbor.h\<close>, \<open>cbor.cpp\<close>; the writer gives exactly the encoding of RFC 7049 or an error, and the bytes
    determine the item.
  \<^item> \<open>MsgFormat\<close>: \<open>msg_formatting.h\<close>; messages are read back as written, and no input makes
    the reader leave its buffer.
  \<^item> \<open>ConfirmationUI\<close>: \<open>GenericOperation.h\<close>, \<open>ConfirmationUI.cpp\<close>, \<open>PlatformSpecifics.cpp\<close>; the operation refines
    a specification with two states, and every accepted prompt gets the result of the call that ends it,
    once and to its own callback.

  \<^bold>\<open>Keymaster support\<close> (\<open>keymaster/4.0/support\<close>), used by the service that keeps keys.

  \<^item> \<open>KeyAuthorizations\<close>: \<open>authorization_set.cpp\<close>, \<open>keymaster_tags.h\<close>; the set operations on vectors of
    parameters are those of sets.
  \<^item> \<open>KeyFormat\<close>: \<open>Serialize\<close> and \<open>Deserialize\<close>; the round trip, and the parameters that get lost.
  \<^item> \<open>KeyTokens\<close>: \<open>keymaster_utils.cpp\<close> and the key agreement of \<open>Keymaster.cpp\<close>.
  \<^item> \<open>StdSort\<close>: what is assumed of \<open>std::sort\<close>, and a sorter for which it holds.

  \<^bold>\<open>The broadcast radio\<close> (\<open>broadcastradio/2.0/default\<close>, \<open>broadcastradio/common\<close>). A module opens one tuner
  session at a time; the session turns requests into delayed tasks of a worker thread, which tune to
  the stations of a virtual radio and call the client back.

  \<^item> \<open>BroadcastUtils\<close>: \<open>utils2x/Utils.cpp\<close>; identifiers, filters, program lists as maps.
  \<^item> \<open>BroadcastTuner\<close>: \<open>TunerSession.cpp\<close>, \<open>WorkerThread.cpp\<close>, \<open>VirtualRadio.cpp\<close>, \<open>VirtualProgram.cpp\<close>,
    \<open>BroadcastRadio.cpp\<close>; seeks over any list of stations and steps, the answers to accepted requests that no
    other call supersedes, what a closed session still does, one open session (locale
    \<open>abortable_system\<close>).

  \<^bold>\<open>Conventions.\<close> A class is a record, an enum a datatype or the integers that travel, a method a
  function on the state. \<open>None\<close> is an abort, a failed \<open>CHECK\<close> or undefined behaviour such as a read
  outside a vector; an error status is a value. Integers are words, or \<open>int\<close> with the wrap-around
  written out, where the code computes with them. Objects that outlive their owner have an address
  and a place in a store. Threads are steps: a call that holds a lock is one step, and an invariant
  over runs is an instance of the locale \<open>op_system\<close>, \<open>abortable_system\<close> or of rule induction.

  \<^bold>\<open>Parameters.\<close> What is not in the repository is a parameter, free to answer anything unless a
  hypothesis says otherwise: the vendor's \<open>VehicleHal\<close>, the vendor's Wi-Fi library and tools
  (\<open>wifi_env\<close>), the graphics allocator, the JSON parser, the clock, the protocol buffer library (a
  message is its record of fields), the HMAC of OpenSSL and the order in which the compiler evaluates
  arguments, \<open>std::sort\<close>, the sign convention of \<open>memcmp\<close>, what \<open>hidl_vec::resize\<close> leaves in new bytes, system
  properties, and the answers of clients to callbacks.

  \<^bold>\<open>Bounds and fuel.\<close> No definition carries fuel: every loop is a recursion on the data it consumes,
  on a number of rounds, or a step relation. The loop of the BatchingConsumer and the capture thread
  are step relations, and what must end is proved to end (a stop of the camera within four
  steps of its thread; a stop of the Wi-Fi HAL at the vendor's callback). The 32-bit counters of the
  Wi-Fi combinations wrap in the model; the hypothesis \<open>modes_ok\<close> that they do not is proved for the
  compile-time tables.

  \<^bold>\<open>Not modelled.\<close> Binder, registration with the service manager, logging, dumps to files, and the
  opening of sockets and devices are system calls. The EVS service runs on one binder thread, so its
  calls do not interleave with each other; the display's race on \<open>mBuffer\<close> with other threads is out
  of scope for the same reason. The Wi-Fi requests that only forward to the vendor library, the
  conversions between HIDL and vendor structs (\<open>hidl_struct_util.cpp\<close>) and the radio mode events are
  left out. Of Keymaster, the wrappers of the devices, the attestation records (OpenSSL's ASN.1
  templates) and the builder methods that append fixed parameters are left out, of Bluetooth the
  vendor library and the descriptors it opens, and of the broadcast radio version 1. The other HALs of the repository (audio, camera, graphics, DRM, sensors and more) mostly
  wrap a vendor module that is not in the repository.
\<close>

end
